(* ===== verification/Rust_Prelude.thy ===== *)
theory Rust_Prelude
  imports Main "HOL-Library.Char_ord" "HOL-Library.List_Lexorder" "HOL-Library.Sublist"
begin

text \<open>
  The part of the Rust language and standard library that the components share.

  A Rust \<^verbatim>\<open>str\<close> or \<^verbatim>\<open>String\<close> is its UTF-8 byte sequence, an Isabelle \<^typ>\<open>string\<close>
  (\<^typ>\<open>char\<close> has exactly 256 values), so byte indices and \<^verbatim>\<open>len()\<close> of the source are
  positions and \<^const>\<open>length\<close> here.  The section gives \<^verbatim>\<open>split\<close>, \<^verbatim>\<open>split_once\<close>,
  \<^verbatim>\<open>strip_prefix\<close>, \<^verbatim>\<open>strip_suffix\<close>, \<^verbatim>\<open>trim\<close>, \<^verbatim>\<open>find\<close>, \<^verbatim>\<open>contains\<close>, the ASCII character
  classes, the decimal parsers of the unsigned integers and the decimal printer, with
  the laws the component theories use.
\<close>

named_theorems rust_str "equations of the string operations"

section \<open>Characters\<close>

abbreviation byte :: "char \<Rightarrow> nat" where
  "byte c \<equiv> of_char c"

definition is_ascii_digit :: "char \<Rightarrow> bool" where
  "is_ascii_digit c \<longleftrightarrow> 48 \<le> byte c \<and> byte c \<le> 57"

definition is_ascii_upper :: "char \<Rightarrow> bool" where
  "is_ascii_upper c \<longleftrightarrow> 65 \<le> byte c \<and> byte c \<le> 90"

definition is_ascii_lower :: "char \<Rightarrow> bool" where
  "is_ascii_lower c \<longleftrightarrow> 97 \<le> byte c \<and> byte c \<le> 122"

definition is_ascii_alphabetic :: "char \<Rightarrow> bool" where
  "is_ascii_alphabetic c \<longleftrightarrow> is_ascii_upper c \<or> is_ascii_lower c"

definition is_ascii_alphanumeric :: "char \<Rightarrow> bool" where
  "is_ascii_alphanumeric c \<longleftrightarrow> is_ascii_alphabetic c \<or> is_ascii_digit c"

definition to_ascii_uppercase :: "char \<Rightarrow> char" where
  "to_ascii_uppercase c = (if is_ascii_lower c then char_of (byte c - 32) else c)"

definition to_ascii_lowercase :: "char \<Rightarrow> char" where
  "to_ascii_lowercase c = (if is_ascii_upper c then char_of (byte c + 32) else c)"

lemmas char_class_defs =
  is_ascii_digit_def is_ascii_upper_def is_ascii_lower_def is_ascii_alphabetic_def
  is_ascii_alphanumeric_def

lemma to_ascii_uppercase_upper [simp]:
  "is_ascii_upper c \<Longrightarrow> to_ascii_uppercase c = c"
  by (auto simp: to_ascii_uppercase_def is_ascii_lower_def is_ascii_upper_def)

section \<open>Splitting and searching\<close>

fun split_on :: "'a \<Rightarrow> 'a list \<Rightarrow> 'a list list" where
  "split_on c [] = [[]]"
| "split_on c (x # xs) =
    (if x = c then [] # split_on c xs
     else (case split_on c xs of [] \<Rightarrow> [[x]] | y # ys \<Rightarrow> (x # y) # ys))"

fun join_with :: "'a list \<Rightarrow> 'a list list \<Rightarrow> 'a list" where
  "join_with sep [] = []"
| "join_with sep [x] = x"
| "join_with sep (x # y # ys) = x @ sep @ join_with sep (y # ys)"

fun split_once :: "'a \<Rightarrow> 'a list \<Rightarrow> ('a list \<times> 'a list) option" where
  "split_once c [] = None"
| "split_once c (x # xs) =
    (if x = c then Some ([], xs)
     else (case split_once c xs of None \<Rightarrow> None | Some (a, b) \<Rightarrow> Some (x # a, b)))"

definition rsplit_once :: "'a \<Rightarrow> 'a list \<Rightarrow> ('a list \<times> 'a list) option" where
  "rsplit_once c s =
    (case split_once c (rev s) of None \<Rightarrow> None | Some (a, b) \<Rightarrow> Some (rev b, rev a))"

fun strip_prefix :: "'a list \<Rightarrow> 'a list \<Rightarrow> 'a list option" where
  "strip_prefix [] s = Some s"
| "strip_prefix (p # ps) [] = None"
| "strip_prefix (p # ps) (x # xs) = (if p = x then strip_prefix ps xs else None)"

definition starts_with :: "'a list \<Rightarrow> 'a list \<Rightarrow> bool" where
  "starts_with s p \<longleftrightarrow> strip_prefix p s \<noteq> None"

definition strip_suffix :: "'a list \<Rightarrow> 'a list \<Rightarrow> 'a list option" where
  "strip_suffix p s = map_option rev (strip_prefix (rev p) (rev s))"

definition ends_with :: "'a list \<Rightarrow> 'a list \<Rightarrow> bool" where
  "ends_with s p \<longleftrightarrow> strip_suffix p s \<noteq> None"

fun find_sub :: "'a list \<Rightarrow> 'a list \<Rightarrow> nat option" where
  "find_sub p [] = (if p = [] then Some 0 else None)"
| "find_sub p (x # xs) =
    (if starts_with (x # xs) p then Some 0 else map_option Suc (find_sub p xs))"

definition contains_sub :: "'a list \<Rightarrow> 'a list \<Rightarrow> bool" where
  "contains_sub s p \<longleftrightarrow> find_sub p s \<noteq> None"

definition list_last :: "'a list \<Rightarrow> 'a option" where
  "list_last xs = (if xs = [] then None else Some (last xs))"

definition list_first :: "'a list \<Rightarrow> 'a option" where
  "list_first xs = (case xs of [] \<Rightarrow> None | x # _ \<Rightarrow> Some x)"

lemma split_on_not_Nil [simp]: "split_on c s \<noteq> []"
  by (cases s) (auto split: list.splits)

lemma join_split_on: "join_with [c] (split_on c s) = s"
proof (induction s)
  case (Cons x xs)
  obtain y ys where s: "split_on c xs = y # ys"
    using split_on_not_Nil [of c xs] by (cases "split_on c xs") auto
  show ?case
    using Cons s by (cases ys) auto
qed simp

lemma split_on_no_sep: "seg \<in> set (split_on c s) \<Longrightarrow> c \<notin> set seg"
proof (induction s arbitrary: seg)
  case (Cons x xs)
  obtain y ys where "split_on c xs = y # ys"
    using split_on_not_Nil [of c xs] by (cases "split_on c xs") auto
  with Cons show ?case by (auto split: if_splits)
qed simp

lemma split_on_set: "seg \<in> set (split_on c s) \<Longrightarrow> set seg \<subseteq> set s"
proof (induction s arbitrary: seg)
  case (Cons x xs)
  obtain y ys where "split_on c xs = y # ys"
    using split_on_not_Nil [of c xs] by (cases "split_on c xs") auto
  with Cons show ?case by (fastforce split: if_splits)
qed simp

lemma split_on_id: "c \<notin> set s \<Longrightarrow> split_on c s = [s]"
  by (induction s) auto

lemma split_on_append_sep:
  "c \<notin> set a \<Longrightarrow> split_on c (a @ c # b) = a # split_on c b"
  by (induction a) auto

lemma split_on_join:
  "segs \<noteq> [] \<Longrightarrow> (\<And>seg. seg \<in> set segs \<Longrightarrow> c \<notin> set seg)
    \<Longrightarrow> split_on c (join_with [c] segs) = segs"
  by (induction "[c]" segs rule: join_with.induct) (auto simp: split_on_id split_on_append_sep)

lemma split_once_None [simp]: "split_once c s = None \<longleftrightarrow> c \<notin> set s"
  by (induction s) (auto split: option.splits)

lemma split_once_Some:
  "split_once c s = Some (a, b) \<longleftrightarrow> s = a @ c # b \<and> c \<notin> set a"
proof (induction s arbitrary: a)
  case (Cons x xs)
  show ?case
  proof (cases "x = c")
    case True
    then show ?thesis by (cases a) auto
  next
    case False
    then have "split_once c (x # xs) = Some (a, b)
        \<longleftrightarrow> (\<exists>a'. a = x # a' \<and> split_once c xs = Some (a', b))"
      by (auto simp del: split_once_None split: option.splits)
    with False Cons show ?thesis by (cases a) auto
  qed
qed simp

lemma split_once_app [simp]: "c \<notin> set a \<Longrightarrow> split_once c (a @ c # b) = Some (a, b)"
  by (simp add: split_once_Some)

lemma rsplit_once_None [simp]: "rsplit_once c s = None \<longleftrightarrow> c \<notin> set s"
proof -
  have "rsplit_once c s = None \<longleftrightarrow> split_once c (rev s) = None"
    by (auto simp: rsplit_once_def simp del: split_once_None split: option.splits)
  then show ?thesis by simp
qed

lemma rsplit_once_Some:
  "rsplit_once c s = Some (a, b) \<longleftrightarrow> s = a @ c # b \<and> c \<notin> set b"
proof -
  have "rsplit_once c s = Some (a, b) \<longleftrightarrow> split_once c (rev s) = Some (rev b, rev a)"
    by (auto simp: rsplit_once_def simp del: split_once_None split: option.splits)
  also have "\<dots> \<longleftrightarrow> s = a @ c # b \<and> c \<notin> set b"
    by (simp add: split_once_Some rev_swap)
  finally show ?thesis .
qed

lemma strip_prefix_Some: "strip_prefix p s = Some r \<longleftrightarrow> s = p @ r"
  by (induction p s rule: strip_prefix.induct) auto

lemma strip_prefix_app [simp]: "strip_prefix p (p @ r) = Some r"
  by (simp add: strip_prefix_Some)

lemma starts_with_iff: "starts_with s p \<longleftrightarrow> (\<exists>r. s = p @ r)"
  by (auto simp: starts_with_def strip_prefix_Some)

lemma strip_suffix_Some: "strip_suffix p s = Some r \<longleftrightarrow> s = r @ p"
  by (auto simp: strip_suffix_def strip_prefix_Some rev_swap)

lemma strip_suffix_app [simp]: "strip_suffix p (r @ p) = Some r"
  by (simp add: strip_suffix_Some)

lemma ends_with_iff: "ends_with s p \<longleftrightarrow> (\<exists>r. s = r @ p)"
  by (auto simp: ends_with_def strip_suffix_Some)

lemma find_sub_Some:
  "find_sub p s = Some i \<Longrightarrow> \<exists>a b. s = a @ p @ b \<and> length a = i"
proof (induction s arbitrary: i)
  case (Cons x xs)
  show ?case
  proof (cases "starts_with (x # xs) p")
    case True
    with Cons.prems show ?thesis by (auto simp: starts_with_iff)
  next
    case False
    with Cons.prems obtain j where "find_sub p xs = Some j" "i = Suc j" by auto
    with Cons.IH obtain a b where "xs = a @ p @ b" "length a = j" by blast
    with \<open>i = Suc j\<close> have "x # xs = (x # a) @ p @ b \<and> length (x # a) = i" by simp
    then show ?thesis by blast
  qed
qed (auto split: if_splits)

lemma find_sub_None: "find_sub p s = None \<Longrightarrow> s \<noteq> a @ p @ b"
proof (induction s arbitrary: a)
  case (Cons x xs)
  then have "\<not> starts_with (x # xs) p" and "find_sub p xs = None"
    by (auto split: if_splits)
  then show ?case using Cons.IH by (cases a) (auto simp: starts_with_iff)
qed (auto split: if_splits)

lemma find_sub_least:
  "find_sub p s = Some i \<Longrightarrow> s = a @ p @ b \<Longrightarrow> i \<le> length a"
proof (induction s arbitrary: i a)
  case (Cons x xs)
  show ?case
  proof (cases "starts_with (x # xs) p")
    case True
    with Cons.prems(1) show ?thesis by simp
  next
    case False
    with Cons.prems(1) obtain j where j: "find_sub p xs = Some j" "i = Suc j" by auto
    from False Cons.prems(2) obtain a' where a: "a = x # a'" "xs = a' @ p @ b"
      by (cases a) (auto simp: starts_with_iff)
    from Cons.IH [OF j(1) a(2)] j(2) a(1) show ?thesis by simp
  qed
qed simp

lemma contains_sub_iff: "contains_sub s p \<longleftrightarrow> (\<exists>a b. s = a @ p @ b)"
proof (cases "find_sub p s")
  case None
  then show ?thesis by (simp add: contains_sub_def find_sub_None)
next
  case (Some i)
  then show ?thesis using find_sub_Some [OF Some] unfolding contains_sub_def by blast
qed

lemma contains_single [simp]: "contains_sub s [c] \<longleftrightarrow> c \<in> set s"
  by (simp add: contains_sub_iff in_set_conv_decomp)

section \<open>Unicode white space and \<^verbatim>\<open>trim\<close>\<close>

text \<open>
  \<^verbatim>\<open>str::trim\<close> removes the code points of the Unicode property \<^verbatim>\<open>White_Space\<close>; the
  list holds their UTF-8 encodings.
\<close>

definition ws_chars :: "string list" where
  "ws_chars =
    [[CHR 0x20], [CHR 0x09], [CHR 0x0A], [CHR 0x0B], [CHR 0x0C], [CHR 0x0D],
     [CHR 0xC2, CHR 0x85], [CHR 0xC2, CHR 0xA0], [CHR 0xE1, CHR 0x9A, CHR 0x80],
     [CHR 0xE2, CHR 0x80, CHR 0x80], [CHR 0xE2, CHR 0x80, CHR 0x81],
     [CHR 0xE2, CHR 0x80, CHR 0x82], [CHR 0xE2, CHR 0x80, CHR 0x83],
     [CHR 0xE2, CHR 0x80, CHR 0x84], [CHR 0xE2, CHR 0x80, CHR 0x85],
     [CHR 0xE2, CHR 0x80, CHR 0x86], [CHR 0xE2, CHR 0x80, CHR 0x87],
     [CHR 0xE2, CHR 0x80, CHR 0x88], [CHR 0xE2, CHR 0x80, CHR 0x89],
     [CHR 0xE2, CHR 0x80, CHR 0x8A], [CHR 0xE2, CHR 0x80, CHR 0xA8],
     [CHR 0xE2, CHR 0x80, CHR 0xA9], [CHR 0xE2, CHR 0x80, CHR 0xAF],
     [CHR 0xE2, CHR 0x81, CHR 0x9F], [CHR 0xE3, CHR 0x80, CHR 0x80]]"

fun strip_any :: "'a list list \<Rightarrow> 'a list \<Rightarrow> 'a list option" where
  "strip_any [] s = None"
| "strip_any (p # ps) s =
    (case strip_prefix p s of Some r \<Rightarrow> (if p = [] then None else Some r) | None \<Rightarrow> strip_any ps s)"

lemma strip_any_Some:
  "strip_any ps s = Some r \<Longrightarrow> \<exists>p \<in> set ps. p \<noteq> [] \<and> s = p @ r"
  by (induction ps) (auto simp: strip_prefix_Some split: option.splits if_splits)

lemma strip_any_shorter: "strip_any ps s = Some r \<Longrightarrow> length r < length s"
  by (drule strip_any_Some) auto

function trim_pats :: "'a list list \<Rightarrow> 'a list \<Rightarrow> 'a list" where
  "trim_pats ps s = (case strip_any ps s of None \<Rightarrow> s | Some r \<Rightarrow> trim_pats ps r)"
  by pat_completeness auto
termination
  by (relation "measure (length \<circ> snd)") (auto dest: strip_any_shorter)

declare trim_pats.simps [simp del]

definition trim_start :: "string \<Rightarrow> string" where
  "trim_start s = trim_pats ws_chars s"

definition trim_end :: "string \<Rightarrow> string" where
  "trim_end s = rev (trim_pats (map rev ws_chars) (rev s))"

definition trim :: "string \<Rightarrow> string" where
  "trim s = trim_end (trim_start s)"

definition trimmed :: "string \<Rightarrow> bool" where
  "trimmed s \<longleftrightarrow>
    strip_any ws_chars s = None \<and> strip_any (map rev ws_chars) (rev s) = None"

lemma strip_any_None:
  "[] \<notin> set ps \<Longrightarrow> strip_any ps s = None \<longleftrightarrow> (\<forall>p \<in> set ps. \<not> prefix p s)"
proof (induction ps)
  case (Cons p ps)
  have "strip_prefix p s = None \<longleftrightarrow> \<not> prefix p s"
    by (metis option.exhaust option.distinct(1) prefix_def strip_prefix_Some)
  with Cons show ?case by (cases "strip_prefix p s") auto
qed simp

lemma ws_chars_no_Nil [simp]: "[] \<notin> set ws_chars"
  by (simp add: ws_chars_def)

lemma trim_pats_suffix: "suffix (trim_pats ps s) s"
proof (induction ps s rule: trim_pats.induct)
  case (1 ps s)
  show ?case
  proof (cases "strip_any ps s")
    case None
    then show ?thesis by (subst trim_pats.simps) simp
  next
    case (Some r)
    then have "suffix r s" by (auto dest: strip_any_Some simp: suffix_def)
    with 1 Some show ?thesis
      by (subst trim_pats.simps) (auto intro: suffix_order.trans)
  qed
qed

lemma trim_pats_None: "strip_any ps (trim_pats ps s) = None"
proof (induction ps s rule: trim_pats.induct)
  case (1 ps s)
  then show ?case
    by (subst trim_pats.simps) (auto split: option.splits)
qed

lemma trim_pats_id: "strip_any ps s = None \<Longrightarrow> trim_pats ps s = s"
  by (subst trim_pats.simps) simp

lemma trim_end_prefix: "prefix (trim_end s) s"
  using trim_pats_suffix [of "map rev ws_chars" "rev s"]
  by (simp add: trim_end_def suffix_to_prefix)

lemma trimmed_trim [simp]: "trimmed (trim s)"
proof -
  have "strip_any ws_chars (trim_start s) = None"
    by (simp add: trim_start_def trim_pats_None)
  moreover have "prefix (trim s) (trim_start s)"
    by (simp add: trim_def trim_end_prefix)
  ultimately have "strip_any ws_chars (trim s) = None"
    unfolding strip_any_None [OF ws_chars_no_Nil] by (meson prefix_order.trans)
  moreover have "strip_any (map rev ws_chars) (rev (trim s)) = None"
    by (simp add: trim_def trim_end_def trim_pats_None)
  ultimately show ?thesis by (simp add: trimmed_def)
qed

lemma trim_trimmed [simp]: "trimmed s \<Longrightarrow> trim s = s"
  by (simp add: trimmed_def trim_def trim_start_def trim_end_def trim_pats_id)

lemma trim_idem [simp]: "trim (trim s) = trim s"
  by simp

lemma trim_set: "set (trim s) \<subseteq> set s"
  using set_mono_prefix [OF trim_end_prefix [of "trim_start s"]]
    set_mono_suffix [OF trim_pats_suffix [of ws_chars s]]
  by (auto simp: trim_def trim_start_def)

definition ws_byte :: "char \<Rightarrow> bool" where
  "ws_byte c \<longleftrightarrow> byte c \<in> {9, 10, 11, 12, 13, 32} \<or> 128 \<le> byte c"

text \<open>A string that neither begins nor ends with a white-space or non-ASCII byte is
  left as it is.\<close>

lemma ws_chars_ends: "list_all (\<lambda>p. ws_byte (hd p) \<and> ws_byte (last p)) ws_chars"
  by (simp add: ws_chars_def ws_byte_def)

lemma map_rev_no_Nil: "[] \<notin> set ps \<Longrightarrow> [] \<notin> set (map rev ps)"
  by (induction ps) auto

lemma trimmedI:
  assumes "s \<noteq> []" "\<not> ws_byte (hd s)" "\<not> ws_byte (last s)"
  shows "trimmed s"
proof -
  have heads: "ws_byte (hd p)" "ws_byte (last p)" "p \<noteq> []" if "p \<in> set ws_chars" for p
    using ws_chars_ends ws_chars_no_Nil that unfolding list_all_iff by (blast, blast, metis)
  have "\<not> prefix p s" if "p \<in> set ws_chars" for p
    using heads [OF that] assms(2) by (metis hd_append2 prefix_def)
  moreover have "\<not> prefix (rev p) (rev s)" if "p \<in> set ws_chars" for p
    using heads [OF that] assms(3) by (metis last_appendR suffix_def suffix_to_prefix)
  ultimately show ?thesis
    unfolding trimmed_def strip_any_None [OF ws_chars_no_Nil]
      strip_any_None [OF map_rev_no_Nil, OF ws_chars_no_Nil]
    by (simp only: set_map ball_simps) blast
qed

lemma trimmed_Nil [simp]: "trimmed []"
proof -
  have "strip_any ps [] = None" if "[] \<notin> set ps" for ps :: "string list"
    using that by (auto simp: strip_any_None)
  then show ?thesis
    unfolding trimmed_def by (metis map_rev_no_Nil rev.simps(1) ws_chars_no_Nil)
qed

section \<open>Characters, lines and words\<close>

text \<open>\<^verbatim>\<open>str::chars\<close>: the code points of a string, each as the bytes of its encoding (a lead
  byte and its continuation bytes).\<close>

definition is_continuation :: "char \<Rightarrow> bool" where
  "is_continuation c \<longleftrightarrow> 128 \<le> byte c \<and> byte c < 192"

function utf8_chars :: "string \<Rightarrow> string list" where
  "utf8_chars [] = []"
| "utf8_chars (c # s) = (c # takeWhile is_continuation s) # utf8_chars (dropWhile is_continuation s)"
  by pat_completeness auto
termination
  by (relation "measure length") (auto simp: length_dropWhile_le less_Suc_eq_le)

lemma concat_utf8_chars [simp]: "concat (utf8_chars s) = s"
  by (induction s rule: utf8_chars.induct) auto

lemma utf8_chars_inject [simp]: "utf8_chars s = utf8_chars t \<longleftrightarrow> s = t"
  by (metis concat_utf8_chars)

lemma utf8_chars_Nil [simp]: "utf8_chars s = [] \<longleftrightarrow> s = []"
  by (cases s) auto

lemma utf8_chars_append:
  assumes "t = [] \<or> \<not> is_continuation (hd t)"
  shows "utf8_chars (s @ t) = utf8_chars s @ utf8_chars t"
proof (induction s rule: utf8_chars.induct)
  case (2 c s)
  have drop_t: "dropWhile is_continuation t = t" "takeWhile is_continuation t = []"
    using assms by (cases t; simp)+
  show ?case
  proof (cases "\<forall>x \<in> set s. is_continuation x")
    case True
    then show ?thesis using drop_t by (simp add: eq_commute [of s] takeWhile_eq_all_conv)
  next
    case False
    then obtain x where "x \<in> set s" "\<not> is_continuation x" by blast
    with 2 show ?thesis by (simp add: dropWhile_append1 takeWhile_append1)
  qed
qed simp

text \<open>\<^verbatim>\<open>str::lines\<close>: split at line feeds, without a trailing empty line; a carriage return in
  front of a line feed belongs to the terminator.\<close>

definition strip_cr :: "string \<Rightarrow> string" where
  "strip_cr l = (case strip_suffix [CHR 0x0D] l of Some r \<Rightarrow> r | None \<Rightarrow> l)"

definition rust_lines :: "string \<Rightarrow> string list" where
  "rust_lines s =
    (let ps = split_on (CHR 0x0A) s
     in map strip_cr (butlast ps) @ (if last ps = [] then [] else [last ps]))"

lemma rust_lines_whole:
  "rust_lines (a @ CHR 0x0A # b) = rust_lines (a @ [CHR 0x0A]) @ rust_lines b"
proof -
  have "split_on (CHR 0x0A) (a @ CHR 0x0A # b) = split_on (CHR 0x0A) a @ split_on (CHR 0x0A) b" for b
  proof (induction a)
    case (Cons x a)
    obtain y ys where "split_on (CHR 0x0A) a = y # ys" by (cases "split_on (CHR 0x0A) a") auto
    with Cons show ?case by simp
  qed simp
  then show ?thesis by (simp add: rust_lines_def Let_def butlast_append)
qed

text \<open>\<^verbatim>\<open>splitn(2, char::is_whitespace)\<close> and \<^verbatim>\<open>split_whitespace\<close>.\<close>

fun split_ws_once :: "string \<Rightarrow> string \<times> string option" where
  "split_ws_once [] = ([], None)"
| "split_ws_once (c # s) =
    (case strip_any ws_chars (c # s) of
       Some r \<Rightarrow> ([], Some r)
     | None \<Rightarrow> (let (a, b) = split_ws_once s in (c # a, b)))"

function split_words :: "string \<Rightarrow> string \<Rightarrow> string list" where
  "split_words cur [] = (if cur = [] then [] else [rev cur])"
| "split_words cur (c # s) =
    (case strip_any ws_chars (c # s) of
       Some r \<Rightarrow> (if cur = [] then [] else [rev cur]) @ split_words [] r
     | None \<Rightarrow> split_words (c # cur) s)"
  by pat_completeness auto
termination
  by (relation "measure (length \<circ> snd)") (auto dest: strip_any_shorter)

definition split_whitespace :: "string \<Rightarrow> string list" where
  "split_whitespace s = split_words [] s"

lemma split_words_nonempty: "w \<in> set (split_words cur s) \<Longrightarrow> w \<noteq> []"
  by (induction cur s rule: split_words.induct) (auto split: option.splits if_splits)

definition lowercase :: "string \<Rightarrow> string" where
  "lowercase s = map to_ascii_lowercase s"

definition eq_ignore_ascii_case :: "string \<Rightarrow> string \<Rightarrow> bool" where
  "eq_ignore_ascii_case a b \<longleftrightarrow> lowercase a = lowercase b"

section \<open>Decimal integers\<close>

definition digit_value :: "char \<Rightarrow> nat" where
  "digit_value c = byte c - 48"

definition decimal_value :: "string \<Rightarrow> nat" where
  "decimal_value ds = foldl (\<lambda>n c. n * 10 + digit_value c) 0 ds"

text \<open>\<^verbatim>\<open>uN::from_str\<close>: one leading \<^verbatim>\<open>+\<close> is accepted, an empty digit sequence, another
  character and a value above the maximum are errors.\<close>

definition parse_uint :: "int \<Rightarrow> string \<Rightarrow> nat option" where
  "parse_uint mx s =
    (let ds = (case strip_prefix ''+'' s of Some r \<Rightarrow> r | None \<Rightarrow> s)
     in if ds \<noteq> [] \<and> list_all is_ascii_digit ds \<and> int (decimal_value ds) \<le> mx
        then Some (decimal_value ds) else None)"

definition u16_max :: int where "u16_max = 2 ^ 16 - 1"

definition u32_max :: int where "u32_max = 2 ^ 32 - 1"

definition u64_max :: int where "u64_max = 2 ^ 64 - 1"

text \<open>\<^verbatim>\<open>i32::from_str\<close>: one leading sign, then the same with the range of the type.\<close>

definition parse_i32 :: "string \<Rightarrow> int option" where
  "parse_i32 s =
    (let (neg, ds) = (case s of [] \<Rightarrow> (False, []) | c # r \<Rightarrow>
            if c = CHR ''-'' then (True, r) else if c = CHR ''+'' then (False, r) else (False, s))
     in if ds \<noteq> [] \<and> list_all is_ascii_digit ds
           \<and> int (decimal_value ds) \<le> (if neg then 2 ^ 31 else 2 ^ 31 - 1)
        then Some (if neg then - int (decimal_value ds) else int (decimal_value ds)) else None)"

fun show_nat :: "nat \<Rightarrow> string" where
  "show_nat n =
    (if n < 10 then [char_of (48 + n)] else show_nat (n div 10) @ [char_of (48 + n mod 10)])"

declare show_nat.simps [simp del]

lemma of_char_of_lt: "n < 256 \<Longrightarrow> byte (char_of n) = n"
  by (simp add: of_char_of)

lemma is_ascii_digit_char_of: "(n::nat) < 10 \<Longrightarrow> is_ascii_digit (char_of (48 + n))"
  by (simp add: is_ascii_digit_def of_char_of_lt)

lemma show_nat_digits: "list_all is_ascii_digit (show_nat n)"
proof (induction n rule: show_nat.induct)
  case (1 n)
  then show ?case
    by (cases "n < 10"; subst show_nat.simps) (simp_all add: is_ascii_digit_char_of)
qed

lemma show_nat_not_Nil [simp]: "show_nat n \<noteq> []"
  by (subst show_nat.simps) simp

lemma decimal_value_snoc: "decimal_value (ds @ [c]) = decimal_value ds * 10 + digit_value c"
  by (simp add: decimal_value_def)

lemma decimal_value_show_nat [simp]: "decimal_value (show_nat n) = n"
proof (induction n rule: show_nat.induct)
  case (1 n)
  show ?case
  proof (cases "n < 10")
    case True
    then show ?thesis
      by (subst show_nat.simps) (simp add: decimal_value_def digit_value_def of_char_of_lt)
  next
    case False
    with 1 show ?thesis
      by (subst show_nat.simps) (simp add: decimal_value_snoc digit_value_def of_char_of_lt)
  qed
qed

lemma digit_not: "is_ascii_digit c \<Longrightarrow> \<not> is_ascii_digit d \<Longrightarrow> c \<noteq> d"
  by auto

lemma digits_no_char: "list_all is_ascii_digit ds \<Longrightarrow> \<not> is_ascii_digit d \<Longrightarrow> d \<notin> set ds"
  by (auto simp: list_all_iff)

lemma parse_uint_digits:
  "ds \<noteq> [] \<Longrightarrow> list_all is_ascii_digit ds \<Longrightarrow>
    parse_uint mx ds = (if int (decimal_value ds) \<le> mx then Some (decimal_value ds) else None)"
  by (cases ds) (auto simp: parse_uint_def is_ascii_digit_def Let_def)

lemma parse_uint_show_nat [simp]: "int n \<le> mx \<Longrightarrow> parse_uint mx (show_nat n) = Some n"
  by (simp add: parse_uint_digits show_nat_digits)

lemma parse_uint_le: "parse_uint mx s = Some n \<Longrightarrow> int n \<le> mx"
  by (auto simp: parse_uint_def Let_def split: if_splits)

section \<open>Association lists\<close>

text \<open>The insertion-ordered and key-ordered maps of the source that the code iterates
  over are association lists with distinct keys.\<close>

fun al_put :: "'k \<Rightarrow> 'v \<Rightarrow> ('k \<times> 'v) list \<Rightarrow> ('k \<times> 'v) list" where
  "al_put k v [] = [(k, v)]"
| "al_put k v ((k', v') # r) = (if k = k' then (k, v) # r else (k', v') # al_put k v r)"

definition al_del :: "'k \<Rightarrow> ('k \<times> 'v) list \<Rightarrow> ('k \<times> 'v) list" where
  "al_del k m = filter (\<lambda>(k', _). k' \<noteq> k) m"

lemma map_of_al_put [simp]: "map_of (al_put k v m) = (map_of m)(k \<mapsto> v)"
  by (induction k v m rule: al_put.induct) auto

lemma keys_al_put: "fst ` set (al_put k v m) = insert k (fst ` set m)"
  by (induction k v m rule: al_put.induct) auto

lemma distinct_al_put: "distinct (map fst m) \<Longrightarrow> distinct (map fst (al_put k v m))"
proof (induction k v m rule: al_put.induct)
  case (2 k v k' v' r)
  then show ?case
    using keys_al_put [of k v r] by (auto simp del: map_of_al_put)
qed simp

lemma map_of_al_del [simp]: "map_of (al_del k m) = (map_of m)(k := None)"
  by (induction m) (auto simp: al_del_def)

lemma distinct_al_del: "distinct (map fst m) \<Longrightarrow> distinct (map fst (al_del k m))"
  by (auto simp: al_del_def distinct_map_filter)

section \<open>Saturating and wrapping arithmetic\<close>

definition sat_add :: "nat \<Rightarrow> nat \<Rightarrow> nat \<Rightarrow> nat" where
  "sat_add mx a b = min mx (a + b)"

definition wrap_u64 :: "nat \<Rightarrow> nat" where
  "wrap_u64 n = n mod 2 ^ 64"

end
