(* ===== verification/Shell_Command.thy ===== *)
theory Shell_Command
  imports Rust_Prelude
begin

text \<open>
  Shell command construction: \<^verbatim>\<open>src/src/daemon/shell.rs\<close> and the \<^verbatim>\<open>quote\<close> module of
  \<^verbatim>\<open>src/src/filepath.rs\<close>.  The reference is \<^verbatim>\<open>sh_words\<close>, the POSIX rules for quoting and
  word splitting (XCU 2.2 and 2.3) on the characters the builders emit: it gives the
  argument vector a shell reads from a command line, and nothing as soon as an unquoted
  character would start an expansion, a redirection or a second command.  The theorems
  say that the built strings read back as exactly the given arguments.
\<close>

section \<open>Quoting\<close>

abbreviation squote :: char where "squote \<equiv> CHR 0x27"
abbreviation backslash :: char where "backslash \<equiv> CHR 0x5C"

definition replace_char :: "char \<Rightarrow> string \<Rightarrow> string \<Rightarrow> string" where
  "replace_char c r s = concat (map (\<lambda>x. if x = c then r else [x]) s)"

definition shell_quote :: "string \<Rightarrow> string" where
  "shell_quote arg =
    (if arg = [] then [squote, squote]
     else (let escaped = replace_char squote [squote, backslash, squote, squote] arg
           in squote # escaped @ [squote]))"

text \<open>\<^verbatim>\<open>rsplit(['/', '\\']).next()\<close> is the part after the last separator.\<close>

definition rsplit_sep :: "string \<Rightarrow> string" where
  "rsplit_sep s = rev (takeWhile (\<lambda>c. c \<noteq> CHR ''/'' \<and> c \<noteq> backslash) (rev s))"

definition shell_basename :: "string \<Rightarrow> string" where
  "shell_basename name = (if rsplit_sep name \<noteq> [] then rsplit_sep name else name)"

definition shell_flags :: "string \<Rightarrow> string" where
  "shell_flags shell_name =
    (let basename = map to_ascii_lowercase (shell_basename shell_name)
     in if basename \<in> {''bash'', ''bash.exe'', ''zsh'', ''zsh.exe''} then ''-ic'' else ''-c'')"

section \<open>Command lines\<close>

fun build_remote_command_loop :: "nat \<Rightarrow> string \<Rightarrow> string list \<Rightarrow> string" where
  "build_remote_command_loop index result [] = result"
| "build_remote_command_loop index result (arg # argv) =
    build_remote_command_loop (Suc index)
      ((if index > 0 then result @ '' '' else result) @ shell_quote arg) argv"

definition build_remote_command :: "string list \<Rightarrow> string" where
  "build_remote_command argv = build_remote_command_loop 0 [] argv"

definition is_safe_shell_command_word :: "string \<Rightarrow> bool" where
  "is_safe_shell_command_word arg \<longleftrightarrow>
    arg \<noteq> [] \<and>
    list_all (\<lambda>ch. is_ascii_alphanumeric ch \<or> ch \<in> set ''_-./+'') arg"

fun build_interactive_shell_command_loop :: "nat \<Rightarrow> string \<Rightarrow> string list \<Rightarrow> string" where
  "build_interactive_shell_command_loop index result [] = result"
| "build_interactive_shell_command_loop index result (arg # argv) =
    (let result = (if index > 0 then result @ '' '' else result);
         result = (if index = 0 \<and> is_safe_shell_command_word arg
                   then result @ arg else result @ shell_quote arg)
     in build_interactive_shell_command_loop (Suc index) result argv)"

definition build_interactive_shell_command :: "string list \<Rightarrow> string" where
  "build_interactive_shell_command argv = build_interactive_shell_command_loop 0 [] argv"

definition wrap_in_shell :: "string \<Rightarrow> string \<Rightarrow> string" where
  "wrap_in_shell inner_cmd shell_name =
    (let escaped = replace_char squote [squote, backslash, squote, squote] inner_cmd;
         flags = shell_flags shell_name;
         basename = shell_basename shell_name
     in basename @ '' '' @ flags @ '' '' @ [squote] @ escaped @ [squote])"

definition build_final_command :: "string list \<Rightarrow> string \<Rightarrow> string" where
  "build_final_command argv shell =
    (let inner = build_remote_command argv
     in if shell = [] then inner
        else wrap_in_shell (build_interactive_shell_command argv) shell)"

definition resolve_shell :: "string option \<Rightarrow> bool \<Rightarrow> string option \<Rightarrow> string \<Rightarrow> string option"
  where
  "resolve_shell cli_shell no_shell server_shell defaults_shell =
    (if no_shell then None
     else (case cli_shell of
        Some name \<Rightarrow> (if name = ''false'' then None else Some name)
      | None \<Rightarrow> (case server_shell of
          Some shell \<Rightarrow> (if shell = [] then None else Some shell)
        | None \<Rightarrow> (if defaults_shell = [] then None else Some defaults_shell))))"

section \<open>The reference: reading words as a POSIX shell\<close>

text \<open>Characters that stand for themselves when they are not quoted, wherever they are in
  a word.\<close>

definition sh_plain :: "char \<Rightarrow> bool" where
  "sh_plain c \<longleftrightarrow> is_ascii_alphanumeric c \<or> c \<in> set ''_-./+,:@%''"

definition snoc_word :: "string option \<Rightarrow> string \<Rightarrow> string option" where
  "snoc_word cur s = Some ((case cur of None \<Rightarrow> [] | Some w \<Rightarrow> w) @ s)"

text \<open>The first argument says whether a single quote is open, the second is the word
  being read, if one has begun.\<close>

fun sh_read :: "bool \<Rightarrow> string option \<Rightarrow> string \<Rightarrow> string list option" where
  "sh_read q cur [] =
    (if q then None else Some (case cur of None \<Rightarrow> [] | Some w \<Rightarrow> [w]))"
| "sh_read q cur (c # r) =
    (if q then (if c = squote then sh_read False cur r else sh_read True (snoc_word cur [c]) r)
     else if c = CHR '' '' then
       (case cur of None \<Rightarrow> sh_read False None r
        | Some w \<Rightarrow> map_option (Cons w) (sh_read False None r))
     else if c = squote then sh_read True (snoc_word cur []) r
     else if c = backslash then
       (case r of [] \<Rightarrow> None
        | d # r' \<Rightarrow> if d = CHR 0x0A then None else sh_read False (snoc_word cur [d]) r')
     else if sh_plain c then sh_read False (snoc_word cur [c]) r
     else None)"

definition sh_words :: "string \<Rightarrow> string list option" where
  "sh_words s = sh_read False None s"

section \<open>Reading back what the builders wrote\<close>

lemma snoc_word_simps [simp]:
  "snoc_word (Some w) s = Some (w @ s)" "snoc_word None s = Some s"
  by (simp_all add: snoc_word_def)

lemma replace_char_simps [simp]:
  "replace_char c r [] = []"
  "replace_char c r (x # xs) = (if x = c then r else [x]) @ replace_char c r xs"
  by (simp_all add: replace_char_def)

lemma sh_read_escaped:
  "sh_read True (Some w) (replace_char squote [squote, backslash, squote, squote] a @ r)
    = sh_read True (Some (w @ a)) r"
  by (induction a arbitrary: w) auto

lemma sh_read_plain:
  "list_all sh_plain a \<Longrightarrow> sh_read False (Some w) (a @ r) = sh_read False (Some (w @ a)) r"
proof (induction a arbitrary: w)
  case (Cons c a)
  moreover from Cons have "c \<noteq> CHR '' ''" "c \<noteq> squote" "c \<noteq> backslash"
    by (auto simp: sh_plain_def char_class_defs)
  ultimately show ?case by simp
qed simp

lemma safe_word_plain: "is_safe_shell_command_word a \<Longrightarrow> list_all sh_plain a \<and> a \<noteq> []"
  by (auto simp: is_safe_shell_command_word_def sh_plain_def list_all_iff)

text \<open>What the command builders need of a way of writing one argument: a shell that
  begins a word there reads exactly the argument and goes on behind it.\<close>

locale word_writer =
  fixes enc :: "string \<Rightarrow> string"
    and ok :: "string \<Rightarrow> bool"
  assumes write_reads: "ok a \<Longrightarrow> sh_read False None (enc a @ r) = sh_read False (Some a) r"
begin

lemma write_last: "ok a \<Longrightarrow> sh_words (enc a) = Some [a]"
  using write_reads [of a "[]"] by (simp add: sh_words_def)

lemma write_then:
  "ok a \<Longrightarrow> sh_words r = Some ws \<Longrightarrow> sh_words (enc a @ '' '' @ r) = Some (a # ws)"
  using write_reads [of a "'' '' @ r"] by (simp add: sh_words_def)

lemma write_all:
  "list_all ok argv \<Longrightarrow> sh_words (join_with '' '' (map enc argv)) = Some argv"
proof (induction argv rule: induct_list012)
  case 1
  then show ?case by (simp add: sh_words_def)
next
  case (2 a)
  then show ?case by (simp add: write_last)
next
  case (3 a b argv)
  then show ?case using write_then [of a "join_with '' '' (map enc (b # argv))"] by simp
qed

end

interpretation quoted: word_writer shell_quote "\<lambda>_. True"
  by unfold_locales (simp add: shell_quote_def Let_def sh_read_escaped)

interpretation plain: word_writer "\<lambda>a. a" "\<lambda>a. list_all sh_plain a \<and> a \<noteq> []"
proof
  fix a r :: string
  assume a: "list_all sh_plain a \<and> a \<noteq> []"
  then obtain c a' where "a = c # a'" by (cases a) auto
  moreover from this a have "c \<noteq> CHR '' ''" "c \<noteq> squote" "c \<noteq> backslash"
    by (auto simp: sh_plain_def char_class_defs)
  ultimately show "sh_read False None (a @ r) = sh_read False (Some a) r"
    using a by (simp add: sh_read_plain)
qed

lemma build_remote_command_loop_eq:
  "build_remote_command_loop (Suc i) acc argv
    = acc @ concat (map (\<lambda>a. '' '' @ shell_quote a) argv)"
  by (induction argv arbitrary: i acc) auto

lemma join_with_concat:
  "join_with sep (x # xs) = x @ concat (map (\<lambda>a. sep @ a) xs)"
  by (induction xs arbitrary: x) auto

lemma build_remote_command_join:
  "build_remote_command argv = join_with '' '' (map shell_quote argv)"
proof (cases argv)
  case (Cons a as)
  then show ?thesis
    by (simp add: build_remote_command_def build_remote_command_loop_eq join_with_concat
        map_map comp_def)
qed (simp add: build_remote_command_def)

lemma build_interactive_loop_eq:
  "build_interactive_shell_command_loop (Suc i) acc argv
    = acc @ concat (map (\<lambda>a. '' '' @ shell_quote a) argv)"
  by (induction argv arbitrary: i acc) (auto simp: Let_def)

lemma build_interactive_join:
  "build_interactive_shell_command (a # argv) =
    join_with '' '' ((if is_safe_shell_command_word a then a else shell_quote a)
      # map shell_quote argv)"
  by (simp add: build_interactive_shell_command_def build_interactive_loop_eq
      join_with_concat map_map comp_def)

lemma sh_words_remote: "sh_words (build_remote_command argv) = Some argv"
  by (simp add: build_remote_command_join quoted.write_all list_all_iff)

lemma sh_words_interactive: "sh_words (build_interactive_shell_command argv) = Some argv"
proof (cases argv)
  case Nil
  then show ?thesis by (simp add: build_interactive_shell_command_def sh_words_def)
next
  case (Cons a as)
  have rest: "sh_words (join_with '' '' (map shell_quote as)) = Some as"
    by (simp add: quoted.write_all list_all_iff)
  show ?thesis
  proof (cases as)
    case Nil
    with Cons show ?thesis
      using plain.write_last [OF safe_word_plain] quoted.write_last
      by (simp add: build_interactive_join)
  next
    case (Cons b bs)
    with \<open>argv = a # as\<close> rest show ?thesis
      using plain.write_then [OF safe_word_plain [of a]] quoted.write_then
      by (simp add: build_interactive_join)
  qed
qed

lemma shell_flags_plain: "list_all sh_plain (shell_flags s) \<and> shell_flags s \<noteq> []"
  by (auto simp: shell_flags_def Let_def sh_plain_def char_class_defs)

lemma sh_words_wrap:
  assumes "list_all sh_plain (shell_basename shell)" "shell_basename shell \<noteq> []"
  shows "sh_words (wrap_in_shell inner shell) = Some [shell_basename shell, shell_flags shell, inner]"
proof -
  have "squote # replace_char squote [squote, backslash, squote, squote] inner @ [squote]
      = shell_quote inner"
    by (simp add: shell_quote_def Let_def)
  then have "wrap_in_shell inner shell
      = shell_basename shell @ '' '' @ shell_flags shell @ '' '' @ shell_quote inner"
    by (simp add: wrap_in_shell_def Let_def)
  moreover have "sh_words (shell_flags shell @ '' '' @ shell_quote inner)
      = Some [shell_flags shell, inner]"
    by (rule plain.write_then) (simp_all add: shell_flags_plain quoted.write_last)
  ultimately show ?thesis
    using assms by (simp only:) (rule plain.write_then, simp_all)
qed

lemma shell_basename_not_Nil: "shell \<noteq> [] \<Longrightarrow> shell_basename shell \<noteq> []"
  by (simp add: shell_basename_def)

section \<open>Properties\<close>

text \<open>C25. Without a shell, the command line sent to the target is read by a POSIX shell as
  exactly the argument vector, for every argument vector: no argument is split, joined,
  expanded or run as a command.\<close>

theorem build_final_command_unwrapped: "sh_words (build_final_command argv []) = Some argv"
  by (simp add: build_final_command_def sh_words_remote Let_def)

text \<open>With a shell whose base name is a plain word, the command line reads as the base
  name, its flags and one script argument, and the script again reads as exactly the
  argument vector, also when its first word is left unquoted for alias expansion.\<close>

theorem build_final_command_wrapped:
  assumes "shell \<noteq> []" "list_all sh_plain (shell_basename shell)"
  shows "\<exists>script. sh_words (build_final_command argv shell)
      = Some [shell_basename shell, shell_flags shell, script] \<and> sh_words script = Some argv"
  using assms
  by (simp add: build_final_command_def Let_def sh_words_wrap shell_basename_not_Nil
      sh_words_interactive)

theorem build_final_command_wrapped_witness:
  "\<exists>script. sh_words (build_final_command [''echo'', ''a b; reboot''] ''/bin/bash'')
      = Some [shell_basename ''/bin/bash'', shell_flags ''/bin/bash'', script]
    \<and> sh_words script = Some [''echo'', ''a b; reboot'']"
  by (rule build_final_command_wrapped) code_simp+

text \<open>The base name itself is embedded unquoted: when it holds a space, the shell reads
  two words for it, so the part behind the space becomes an argument in front of the
  flags.\<close>

theorem wrap_in_shell_space:
  assumes "shell_basename shell = a @ '' '' @ b"
    "list_all sh_plain a" "a \<noteq> []" "list_all sh_plain b" "b \<noteq> []"
  shows "sh_words (wrap_in_shell inner shell) = Some [a, b, shell_flags shell, inner]"
proof -
  have "squote # replace_char squote [squote, backslash, squote, squote] inner @ [squote]
      = shell_quote inner"
    by (simp add: shell_quote_def Let_def)
  with assms(1) have w: "wrap_in_shell inner shell
      = a @ '' '' @ (b @ '' '' @ (shell_flags shell @ '' '' @ shell_quote inner))"
    by (simp add: wrap_in_shell_def Let_def)
  show ?thesis
    unfolding w using assms shell_flags_plain
    by (intro plain.write_then) (simp_all add: quoted.write_last)
qed

theorem wrap_in_shell_space_witness:
  "sh_words (wrap_in_shell ''id'' ''C:/Git/my bash'')
    = Some [''my'', ''bash'', shell_flags ''C:/Git/my bash'', ''id'']"
  by (rule wrap_in_shell_space) code_simp+

end
