(* ===== verification/File_Path.thy ===== *)
theory File_Path
  imports Rust_Prelude Shell_Command
begin

text \<open>
  Path handling: \<^verbatim>\<open>src/src/filepath.rs\<close> and \<^verbatim>\<open>src/src/copy_frames.rs\<close>.  A
  \<^verbatim>\<open>std::path::Path\<close> is the list of its \<^verbatim>\<open>components()\<close> on Unix, on which the Rust
  library defines path equality; \<^verbatim>\<open>push\<close> and \<^verbatim>\<open>pop\<close> act on that list.  Names are valid
  UTF-8.  The theorems relate the wire form of a path to its parse, show that a
  validated relative path stays below the root it is joined to, and what joining does
  when the relative path was not validated.
\<close>

section \<open>Normalized paths\<close>

datatype path_kind = Absolute | Relative | WindowsDrive char

record normalized_path =
  segments :: "string list"
  kind :: path_kind

definition split_segments :: "string \<Rightarrow> string list" where
  "split_segments s =
    (let has_forward = contains_sub s ''/''; has_back = contains_sub s [backslash]
     in if has_back \<and> \<not> has_forward
        then filter (\<lambda>p. p \<noteq> []) (split_on backslash s)
        else filter (\<lambda>p. p \<noteq> []) (split_on (CHR ''/'') s))"

text \<open>\<^verbatim>\<open><letter>:\\<close> or \<^verbatim>\<open><letter>:/\<close>, the three-byte test that \<^verbatim>\<open>from_str\<close>, \<^verbatim>\<open>parse_remote\<close> and
  \<^verbatim>\<open>looks_like_unambiguous_path_start\<close> repeat.\<close>

fun is_drive_prefix :: "string \<Rightarrow> bool" where
  "is_drive_prefix (a # b # c # _) \<longleftrightarrow>
    is_ascii_alphabetic a \<and> b = CHR '':'' \<and> (c = backslash \<or> c = CHR ''/'')"
| "is_drive_prefix _ \<longleftrightarrow> False"

definition from_str :: "string \<Rightarrow> normalized_path" where
  "from_str s0 =
    (let s = trim s0 in
     if s = [] then \<lparr>segments = [], kind = Relative\<rparr>
     else if is_drive_prefix s then
       \<lparr>segments = split_segments (drop 2 s), kind = WindowsDrive (to_ascii_uppercase (hd s))\<rparr>
     else if starts_with s ''/'' then \<lparr>segments = split_segments s, kind = Absolute\<rparr>
     else
       (let s = (if (starts_with s ''./'' \<or> starts_with s [CHR ''.'', backslash]) \<and> length s > 2
                 then drop 2 s else s)
        in \<lparr>segments = split_segments s, kind = Relative\<rparr>))"

datatype component = Prefix string | RootDir | CurDir | ParentDir | Normal string

type_synonym local_path = "component list"

definition name_component :: "string \<Rightarrow> component list" where
  "name_component p =
    (if p = [] \<or> p = ''.'' then [] else if p = ''..'' then [ParentDir] else [Normal p])"

definition components :: "string \<Rightarrow> component list" where
  "components s =
    (if starts_with s ''/'' then RootDir # concat (map name_component (split_on (CHR ''/'') s))
     else (if hd (split_on (CHR ''/'') s) = ''.'' then [CurDir] else [])
        @ concat (map name_component (split_on (CHR ''/'') s)))"

fun from_local_step :: "normalized_path \<Rightarrow> component \<Rightarrow> normalized_path" where
  "from_local_step np (Prefix pfx) =
    (let s = rev (dropWhile (\<lambda>c. c = CHR '':'') (rev pfx))
     in if length s = 1 \<and> is_ascii_alphabetic (hd s)
        then np\<lparr>kind := WindowsDrive (to_ascii_uppercase (hd s))\<rparr> else np)"
| "from_local_step np RootDir =
    (if kind np = Relative then np\<lparr>kind := Absolute\<rparr> else np)"
| "from_local_step np CurDir = np"
| "from_local_step np ParentDir = np\<lparr>segments := segments np @ [''..'']\<rparr>"
| "from_local_step np (Normal name) = np\<lparr>segments := segments np @ [name]\<rparr>"

definition from_local :: "component list \<Rightarrow> normalized_path" where
  "from_local path = foldl from_local_step \<lparr>segments = [], kind = Relative\<rparr> path"

text \<open>\<^verbatim>\<open>PathBuf::push\<close> and \<^verbatim>\<open>PathBuf::pop\<close> on components: an absolute argument replaces the
  buffer, a leading current-directory component survives only at the front, and \<^verbatim>\<open>pop\<close>
  leaves an empty path and the root as they are.\<close>

definition path_push :: "component list \<Rightarrow> string \<Rightarrow> component list" where
  "path_push pb seg =
    (if starts_with seg ''/'' \<or> pb = [] then components seg
     else pb @ filter (\<lambda>c. c \<noteq> CurDir) (components seg))"

definition path_pop :: "component list \<Rightarrow> component list" where
  "path_pop pb =
    (if pb = [] then pb
     else (case last pb of RootDir \<Rightarrow> pb | Prefix _ \<Rightarrow> pb | _ \<Rightarrow> butlast pb))"

definition to_local_step :: "component list \<Rightarrow> string \<Rightarrow> component list" where
  "to_local_step pb seg =
    (if seg = ''..'' then path_pop pb else if seg \<noteq> [] then path_push pb seg else pb)"

text \<open>As compiled on Unix; on Windows the root is a backslash and the separators are those of that system, which is not modelled.\<close>

definition to_local :: "normalized_path \<Rightarrow> component list" where
  "to_local np =
    foldl to_local_step
      (case kind np of WindowsDrive drive \<Rightarrow> components [drive, CHR '':'']
         | Absolute \<Rightarrow> [RootDir] | Relative \<Rightarrow> [])
      (segments np)"

definition to_string_normalized :: "normalized_path \<Rightarrow> string" where
  "to_string_normalized np =
    (case kind np of
       WindowsDrive drive \<Rightarrow> [drive, CHR '':''] @ concat (map (\<lambda>seg. ''/'' @ seg) (segments np))
     | Absolute \<Rightarrow> ''/'' @ join_with ''/'' (segments np)
     | Relative \<Rightarrow> join_with ''/'' (segments np))"

definition path_join :: "normalized_path \<Rightarrow> string \<Rightarrow> normalized_path" where
  "path_join np other = np\<lparr>segments := segments np @ segments (from_str other)\<rparr>"

definition path_basename :: "normalized_path \<Rightarrow> string option" where
  "path_basename np = list_last (segments np)"

definition path_parent :: "normalized_path \<Rightarrow> normalized_path option" where
  "path_parent np =
    (if segments np = [] then None else Some (np\<lparr>segments := butlast (segments np)\<rparr>))"

definition is_absolute :: "normalized_path \<Rightarrow> bool" where
  "is_absolute np = (case kind np of Absolute \<Rightarrow> True | WindowsDrive _ \<Rightarrow> True | Relative \<Rightarrow> False)"

datatype path_error = AbsolutePath string | ParentSegment string

definition validate_relative :: "normalized_path \<Rightarrow> path_error + unit" where
  "validate_relative np =
    (if kind np \<noteq> Relative then Inl (AbsolutePath (to_string_normalized np))
     else if list_ex (\<lambda>s. s = ''..'') (segments np)
     then Inl (ParentSegment (to_string_normalized np))
     else Inr ())"

definition segment_count :: "normalized_path \<Rightarrow> nat" where
  "segment_count np = length (segments np)"

section \<open>Copy-protocol helpers\<close>

definition non_empty_name :: "string \<Rightarrow> string \<Rightarrow> string" where
  "non_empty_name v fallback = (let trimmed = trim v in if trimmed = [] then fallback else trimmed)"

definition copy_entry_name :: "string \<Rightarrow> string \<Rightarrow> string \<Rightarrow> string" where
  "copy_entry_name relative_path source_name fallback =
    (case path_basename (from_str relative_path) of
       Some name \<Rightarrow>
        (if name \<noteq> [] then name
         else if trim source_name \<noteq> [] then trim source_name else fallback)
     | None \<Rightarrow> (if trim source_name \<noteq> [] then trim source_name else fallback))"

text \<open>\<^verbatim>\<open>Path::file_name\<close> is the last component when it is a plain name.\<close>

definition file_name :: "component list \<Rightarrow> string option" where
  "file_name path = (case list_last path of Some (Normal name) \<Rightarrow> Some name | _ \<Rightarrow> None)"

definition local_basename :: "component list \<Rightarrow> string option" where
  "local_basename path =
    (case file_name path of Some name \<Rightarrow> if name \<noteq> [] then Some name else None | None \<Rightarrow> None)"

definition relative_path_to_string :: "component list \<Rightarrow> path_error + string" where
  "relative_path_to_string path =
    (let np = from_local path in
     case validate_relative np of Inl e \<Rightarrow> Inl e | Inr _ \<Rightarrow> Inr (to_string_normalized np))"

definition validate_relative_path :: "component list \<Rightarrow> path_error + unit" where
  "validate_relative_path path = validate_relative (from_local path)"

definition join_relative_path :: "component list \<Rightarrow> string \<Rightarrow> component list" where
  "join_relative_path root relative_path =
    to_local (path_join (from_local root) relative_path)"

section \<open>Operands of the form \<^verbatim>\<open>host:path\<close>\<close>

record remote_spec =
  target :: string
  spec_path :: normalized_path

definition looks_like_unambiguous_path_start :: "string \<Rightarrow> bool" where
  "looks_like_unambiguous_path_start s \<longleftrightarrow>
    s \<noteq> [] \<and> (hd s = CHR ''/'' \<or> hd s = CHR ''~'' \<or> is_drive_prefix s)"

definition is_host_char :: "char \<Rightarrow> bool" where
  "is_host_char c \<longleftrightarrow> is_ascii_alphanumeric c \<or> c \<in> set ''._-''"

definition is_valid_target :: "string \<Rightarrow> bool" where
  "is_valid_target tgt \<longleftrightarrow>
    \<not> (tgt = [] \<or> tgt = ''.'' \<or> tgt = ''..'') \<and>
    \<not> (contains_sub tgt ''/'' \<or> contains_sub tgt [backslash]) \<and>
    list_all (\<lambda>seg. seg \<noteq> [] \<and> list_all is_host_char seg) (split_on (CHR '':'') tgt)"

fun last_boundary :: "nat \<Rightarrow> string \<Rightarrow> nat option \<Rightarrow> nat option" where
  "last_boundary idx [] best = best"
| "last_boundary idx (c # rest) best =
    last_boundary (Suc idx) rest
      (if c = CHR '':'' \<and> rest \<noteq> [] \<and> looks_like_unambiguous_path_start rest
       then Some idx else best)"

definition parse_remote :: "string \<Rightarrow> remote_spec option" where
  "parse_remote v =
    (if is_drive_prefix v then None
     else (case last_boundary 0 v None of
         None \<Rightarrow> None
       | Some colon_pos \<Rightarrow>
          (let tgt = take colon_pos v; path_str = drop (colon_pos + 1) v
           in if \<not> is_valid_target tgt \<or> path_str = [] then None
              else Some \<lparr>target = tgt, spec_path = from_str path_str\<rparr>)))"

text \<open>\<^verbatim>\<open>expand_tilde\<close>; the home directory is an argument, since \<^verbatim>\<open>home_dir\<close> reads the
  environment.\<close>

definition os_path_join :: "string \<Rightarrow> string \<Rightarrow> string" where
  "os_path_join base rest =
    (if starts_with rest ''/'' then rest
     else if base = [] \<or> ends_with base ''/'' then base @ rest else base @ ''/'' @ rest)"

definition expand_tilde :: "string option \<Rightarrow> string \<Rightarrow> string option" where
  "expand_tilde home_dir v =
    (if v = ''~'' then home_dir
     else (case strip_prefix ''~/'' v of
         Some rest \<Rightarrow> map_option (\<lambda>home. os_path_join home rest) home_dir
       | None \<Rightarrow> Some v))"

section \<open>Segments\<close>

lemma split_segments_plain:
  "seg \<in> set (split_segments s) \<Longrightarrow> seg \<noteq> [] \<and> CHR ''/'' \<notin> set seg"
  by (auto simp: split_segments_def Let_def dest: split_on_no_sep split_on_set split: if_splits)

lemma from_str_segments:
  "seg \<in> set (segments (from_str s)) \<Longrightarrow> seg \<noteq> [] \<and> CHR ''/'' \<notin> set seg"
  by (auto simp: from_str_def Let_def dest: split_segments_plain split: if_splits)

lemma starts_with_single [simp]: "starts_with s [c] \<longleftrightarrow> s \<noteq> [] \<and> hd s = c"
  by (cases s) (auto simp: starts_with_iff)

lemma components_name:
  "CHR ''/'' \<notin> set seg \<Longrightarrow> components seg = (if seg = ''.'' then [CurDir] else name_component seg)"
  by (cases seg) (auto simp: components_def split_on_id name_component_def)

lemma path_push_name:
  assumes "seg \<noteq> []" "CHR ''/'' \<notin> set seg" "seg \<noteq> ''..''"
  shows "path_push pb seg =
    (if seg = ''.'' then (if pb = [] then [CurDir] else pb) else pb @ [Normal seg])"
proof -
  have "hd seg \<noteq> CHR ''/''" using assms by (cases seg) auto
  with assms show ?thesis
    by (auto simp: path_push_def components_name name_component_def)
qed

text \<open>What a sequence of segments without \<^verbatim>\<open>..\<close> adds to a path.\<close>

lemma to_local_step_extends:
  assumes "list_all (\<lambda>s. s \<noteq> [] \<and> CHR ''/'' \<notin> set s \<and> s \<noteq> ''..'') segs"
  shows "\<exists>ext. foldl to_local_step pb segs = pb @ ext \<and> set ext \<subseteq> insert CurDir (Normal ` set segs)"
  using assms
proof (induction segs arbitrary: pb)
  case (Cons s segs)
  then have step: "to_local_step pb s = path_push pb s" by (simp add: to_local_step_def)
  have "\<exists>e. path_push pb s = pb @ e \<and> set e \<subseteq> insert CurDir {Normal s}"
    using Cons.prems by (auto simp: path_push_name)
  then obtain e where e: "path_push pb s = pb @ e" "set e \<subseteq> insert CurDir {Normal s}" by blast
  from Cons obtain ext where "foldl to_local_step (pb @ e) segs = (pb @ e) @ ext"
    "set ext \<subseteq> insert CurDir (Normal ` set segs)" by fastforce
  with e step show ?case by (intro exI [of _ "e @ ext"]) auto
qed simp

lemma validate_relative_Inr:
  "validate_relative np = Inr () \<longleftrightarrow> kind np = Relative \<and> ''..'' \<notin> set (segments np)"
  by (auto simp: validate_relative_def list_ex_iff)

lemma to_local_path_join:
  "to_local (path_join np rel) = foldl to_local_step (to_local np) (segments (from_str rel))"
  by (simp add: to_local_def path_join_def)

lemma join_relative_path_validated:
  assumes "validate_relative (from_str rel) = Inr ()"
  shows "\<exists>ext. join_relative_path root rel = to_local (from_local root) @ ext
    \<and> set ext \<subseteq> insert CurDir (range Normal)"
proof -
  have "list_all (\<lambda>s. s \<noteq> [] \<and> CHR ''/'' \<notin> set s \<and> s \<noteq> ''..'') (segments (from_str rel))"
    using assms from_str_segments by (auto simp: list_all_iff validate_relative_Inr)
  from to_local_step_extends [OF this] show ?thesis
    unfolding join_relative_path_def to_local_path_join by blast
qed

definition plain_name :: "string \<Rightarrow> bool" where
  "plain_name s \<longleftrightarrow> s \<noteq> [] \<and> s \<noteq> ''.'' \<and> s \<noteq> ''..'' \<and> CHR ''/'' \<notin> set s"

lemma to_local_step_plain:
  "list_all plain_name segs \<Longrightarrow> foldl to_local_step pb segs = pb @ map Normal segs"
  by (induction segs arbitrary: pb) (auto simp: to_local_step_def path_push_name plain_name_def)

lemma from_local_normals:
  "foldl from_local_step np (map Normal names) = np\<lparr>segments := segments np @ names\<rparr>"
  by (induction names arbitrary: np) auto

lemma from_local_absolute:
  "from_local (RootDir # map Normal names) = \<lparr>segments = names, kind = Absolute\<rparr>"
  by (simp add: from_local_def from_local_normals)

text \<open>An absolute path of plain names survives the conversion to segments and back.\<close>

lemma to_local_from_local_absolute:
  "list_all plain_name names \<Longrightarrow>
    to_local (from_local (RootDir # map Normal names)) = RootDir # map Normal names"
  by (simp add: from_local_absolute to_local_def to_local_step_plain)

lemma to_local_step_up:
  "n \<le> length names \<Longrightarrow> foldl to_local_step (RootDir # map Normal names) (replicate n ''..'')
    = RootDir # map Normal (take (length names - n) names)"
proof (induction n arbitrary: names)
  case (Suc n)
  then have ne: "names \<noteq> []" by auto
  then have pop: "to_local_step (RootDir # map Normal names) ''..''
      = RootDir # map Normal (butlast names)"
    by (simp add: to_local_step_def path_pop_def last_map map_butlast)
  have "foldl to_local_step (RootDir # map Normal (butlast names)) (replicate n ''..'')
      = RootDir # map Normal (take (length (butlast names) - n) (butlast names))"
    using Suc ne by (intro Suc.IH) simp
  moreover have "take (length (butlast names) - n) (butlast names) = take (length names - Suc n) names"
    by (simp add: take_butlast butlast_conv_take)
  ultimately show ?case using pop by simp
qed simp

section \<open>Wire form\<close>

lemma split_segments_slash:
  "CHR ''/'' \<in> set s \<Longrightarrow> split_segments s = filter (\<lambda>p. p \<noteq> []) (split_on (CHR ''/'') s)"
  by (simp add: split_segments_def Let_def)

lemma join_with_slash_mem: "2 \<le> length segs \<Longrightarrow> c \<in> set (join_with [c] segs)"
  by (cases segs; cases "tl segs") auto

lemma filter_nonempty: "list_all (\<lambda>s. s \<noteq> [] \<and> P s) segs \<Longrightarrow> filter (\<lambda>p. p \<noteq> []) segs = segs"
  by (induction segs) auto

lemma split_segments_join:
  assumes "list_all (\<lambda>s. s \<noteq> [] \<and> CHR ''/'' \<notin> set s) segs" "segs \<noteq> []"
    and "length segs = 1 \<Longrightarrow> backslash \<notin> set (hd segs)"
  shows "split_segments (join_with ''/'' segs) = segs"
proof -
  have split: "split_on (CHR ''/'') (join_with ''/'' segs) = segs"
    using assms by (intro split_on_join) (auto simp: list_all_iff)
  show ?thesis
  proof (cases "length segs = 1")
    case True
    with assms obtain s where "segs = [s]" by (cases segs) auto
    with assms split show ?thesis by (simp add: split_segments_def)
  next
    case False
    with assms(2) have "2 \<le> length segs" by (cases segs; cases "tl segs") auto
    with split assms show ?thesis
      by (simp add: split_segments_slash join_with_slash_mem filter_nonempty)
  qed
qed

lemma split_segments_root:
  assumes "list_all (\<lambda>s. s \<noteq> [] \<and> CHR ''/'' \<notin> set s) segs"
  shows "split_segments (CHR ''/'' # join_with ''/'' segs) = segs"
proof (cases "segs = []")
  case True
  then show ?thesis by (simp add: split_segments_slash)
next
  case False
  then have "split_on (CHR ''/'') (join_with ''/'' segs) = segs"
    using assms by (intro split_on_join) (auto simp: list_all_iff)
  with assms show ?thesis by (simp add: split_segments_slash filter_nonempty)
qed

lemma concat_slash: "segs \<noteq> [] \<Longrightarrow>
    concat (map (\<lambda>seg. ''/'' @ seg) segs) = CHR ''/'' # join_with ''/'' segs"
  by (cases segs) (simp_all add: join_with_concat)

text \<open>The paths whose wire form says what they are: no empty segment, no separator in one,
  no white space at the ends, and the beginning is not taken for another kind.\<close>

definition wire_path :: "normalized_path \<Rightarrow> bool" where
  "wire_path np \<longleftrightarrow>
    list_all (\<lambda>s. s \<noteq> [] \<and> CHR ''/'' \<notin> set s) (segments np) \<and>
    trimmed (to_string_normalized np) \<and>
    (case kind np of
       Absolute \<Rightarrow> True
     | WindowsDrive d \<Rightarrow> is_ascii_upper d \<and> segments np \<noteq> []
     | Relative \<Rightarrow>
         (segments np \<noteq> [] \<longrightarrow>
           \<not> is_drive_prefix (to_string_normalized np) \<and>
           \<not> starts_with (to_string_normalized np) ''./'' \<and>
           \<not> starts_with (to_string_normalized np) [CHR ''.'', backslash] \<and>
           (length (segments np) = 1 \<longrightarrow> backslash \<notin> set (hd (segments np)))))"

lemma join_with_hd:
  "segs \<noteq> [] \<Longrightarrow> hd segs \<noteq> [] \<Longrightarrow> join_with sep segs \<noteq> [] \<and> hd (join_with sep segs) = hd (hd segs)"
  by (cases segs; cases "tl segs") auto

lemma from_str_relative:
  assumes "wire_path \<lparr>segments = segs, kind = Relative\<rparr>" "segs \<noteq> []"
  shows "from_str (join_with ''/'' segs) = \<lparr>segments = segs, kind = Relative\<rparr>"
proof -
  let ?s = "join_with ''/'' segs"
  have ts: "to_string_normalized \<lparr>segments = segs, kind = Relative\<rparr> = ?s"
    by (simp add: to_string_normalized_def)
  have hd: "hd segs \<noteq> []" "hd (hd segs) \<noteq> CHR ''/''"
    using assms by (cases segs; cases "hd segs"; auto simp: wire_path_def)+
  from join_with_hd [OF assms(2) hd(1)] hd(2) have "?s \<noteq> []" "hd ?s \<noteq> CHR ''/''" by auto
  moreover have "split_segments ?s = segs"
    using assms by (intro split_segments_join) (auto simp: wire_path_def)
  ultimately show ?thesis
    using assms ts by (auto simp: from_str_def Let_def wire_path_def)
qed

lemma from_str_to_string:
  assumes "wire_path np"
  shows "from_str (to_string_normalized np) = np"
proof (cases "kind np")
  case Absolute
  then have ts: "to_string_normalized np = CHR ''/'' # join_with ''/'' (segments np)"
    by (simp add: to_string_normalized_def)
  have nd: "\<not> is_drive_prefix (CHR ''/'' # r)" for r
    by (cases r; cases "tl r") (auto simp: char_class_defs)
  show ?thesis
    using assms Absolute ts nd
    by (simp add: from_str_def Let_def wire_path_def split_segments_root)
next
  case (WindowsDrive d)
  with assms have ts: "to_string_normalized np
      = [d, CHR '':'', CHR ''/''] @ join_with ''/'' (segments np)"
    by (simp add: to_string_normalized_def wire_path_def concat_slash)
  with assms WindowsDrive have "is_drive_prefix (to_string_normalized np)"
    by (auto simp: wire_path_def is_ascii_alphabetic_def)
  with assms WindowsDrive ts show ?thesis
    by (simp add: from_str_def Let_def wire_path_def split_segments_root)
next
  case Relative
  show ?thesis
  proof (cases "segments np = []")
    case True
    with Relative show ?thesis by (simp add: to_string_normalized_def from_str_def)
  next
    case False
    have np: "np = \<lparr>segments = segments np, kind = Relative\<rparr>" using Relative by simp
    with assms False from_str_relative [of "segments np"] show ?thesis
      by (simp add: to_string_normalized_def Relative)
  qed
qed

lemma join_with_last:
  "segs \<noteq> [] \<Longrightarrow> last segs \<noteq> [] \<Longrightarrow> join_with sep segs \<noteq> [] \<and> last (join_with sep segs) = last (last segs)"
  by (induction sep segs rule: join_with.induct) auto

lemma dotdot_start:
  "\<not> is_drive_prefix (''../'' @ t)" "\<not> starts_with (''../'' @ t) ''./''"
  "\<not> starts_with (''../'' @ t) [CHR ''.'', backslash]"
  by (simp_all add: starts_with_def char_class_defs)

lemma dotdot_join:
  "segs \<noteq> [] \<Longrightarrow> join_with ''/'' (replicate (Suc m) ''..'' @ segs)
    = ''../'' @ join_with ''/'' (replicate m ''..'' @ segs)"
  by (cases "replicate m ''..'' @ segs") (auto simp del: replicate.simps simp: replicate_Suc)

lemma parents_wire_path:
  assumes n: "n = Suc m" and segs: "list_all plain_name segs" "segs \<noteq> []" "\<not> ws_byte (last (last segs))"
  shows "wire_path \<lparr>segments = replicate n ''..'' @ segs, kind = Relative\<rparr>"
proof -
  define all where "all = replicate n ''..'' @ segs"
  define t where "t = join_with ''/'' (replicate m ''..'' @ segs)"
  have str: "join_with ''/'' all = ''../'' @ t"
    unfolding all_def t_def n using segs(2) by (rule dotdot_join)
  have "last segs \<noteq> []"
    using segs(1,2) last_in_set [OF segs(2)] unfolding list_all_iff plain_name_def by blast
  then have last: "all \<noteq> []" "last all = last segs" "last all \<noteq> []"
    using segs(2) by (simp_all add: all_def)
  have "\<not> ws_byte (last (join_with ''/'' all))"
    using join_with_last [OF last(1,3)] last(2) segs(3) by simp
  then have "trimmed (join_with ''/'' all)"
    by (intro trimmedI) (simp_all add: str ws_byte_def)
  moreover have "list_all (\<lambda>s. s \<noteq> [] \<and> CHR ''/'' \<notin> set s) all"
    using segs(1) unfolding all_def list_all_append by (simp add: list_all_iff plain_name_def)
  moreover have "length all \<noteq> 1" using segs(2) by (simp add: all_def n)
  ultimately have "wire_path \<lparr>segments = all, kind = Relative\<rparr>"
    using dotdot_start [of t]
    unfolding wire_path_def to_string_normalized_def by (simp add: str)
  then show ?thesis by (simp only: all_def)
qed

section \<open>The boundary of an operand\<close>

lemma last_boundary_best:
  "last_boundary i s best = (case last_boundary i s None of None \<Rightarrow> best | Some k \<Rightarrow> Some k)"
proof (induction s arbitrary: i best)
  case (Cons c s)
  let ?hit = "c = CHR '':'' \<and> s \<noteq> [] \<and> looks_like_unambiguous_path_start s"
  have "last_boundary i (c # s) b = (case last_boundary (Suc i) s None of
      None \<Rightarrow> (if ?hit then Some i else b) | Some k \<Rightarrow> Some k)" for b
    using Cons.IH [of "Suc i" "if ?hit then Some i else b"] by (auto split: option.splits)
  then show ?case by (cases "last_boundary (Suc i) s None") auto
qed simp

lemma last_boundary_Cons:
  "last_boundary i (c # s) None =
    (case last_boundary (Suc i) s None of
       Some k \<Rightarrow> Some k
     | None \<Rightarrow> if c = CHR '':'' \<and> looks_like_unambiguous_path_start s then Some i else None)"
  by (subst last_boundary.simps, subst last_boundary_best)
    (auto simp: looks_like_unambiguous_path_start_def split: option.splits)

lemma last_boundary_shift:
  "last_boundary (i + d) s None = map_option (\<lambda>k. k + d) (last_boundary i s None)"
proof (induction s arbitrary: i)
  case (Cons c s)
  then show ?case
    using Cons.IH [of "Suc i"] by (simp del: last_boundary.simps add: last_boundary_Cons
        split: option.splits)
qed simp

lemma last_boundary_complete:
  assumes "looks_like_unambiguous_path_start p" "last_boundary 0 p None = None"
  shows "last_boundary i (a @ CHR '':'' # p) None = Some (i + length a)"
proof (induction a arbitrary: i)
  case Nil
  have "last_boundary (Suc i) p None = None"
    using last_boundary_shift [of 0 "Suc i" p] assms(2) by simp
  with assms(1) show ?case by (simp del: last_boundary.simps add: last_boundary_Cons)
next
  case (Cons c a)
  then show ?case by (simp del: last_boundary.simps add: last_boundary_Cons)
qed

lemma last_boundary_sound:
  "last_boundary 0 s None = Some k \<Longrightarrow>
    s = take k s @ CHR '':'' # drop (k + 1) s
    \<and> looks_like_unambiguous_path_start (drop (k + 1) s) \<and> last_boundary 0 (drop (k + 1) s) None = None"
proof (induction s arbitrary: k)
  case (Cons c s)
  have sh: "last_boundary (Suc 0) s None = map_option Suc (last_boundary 0 s None)"
    using last_boundary_shift [of 0 1 s] by simp
  show ?case
  proof (cases "last_boundary 0 s None")
    case None
    with Cons.prems sh show ?thesis
      by (auto simp del: last_boundary.simps simp add: last_boundary_Cons split: if_splits)
  next
    case (Some j)
    with Cons.prems sh have "k = Suc j"
      by (simp del: last_boundary.simps add: last_boundary_Cons)
    with Cons.IH [OF Some] show ?thesis by simp
  qed
qed simp

section \<open>Properties\<close>

text \<open>Reading a path back from its wire form gives the same path, for every path whose
  wire form is not ambiguous.\<close>

theorem wire_roundtrip:
  assumes "wire_path np"
  shows "from_str (to_string_normalized np) = np"
  using assms by (rule from_str_to_string)

theorem wire_roundtrip_witness:
  "from_str (to_string_normalized \<lparr>segments = [''Users'', ''me'', ''a.txt''], kind = WindowsDrive CHR ''C''\<rparr>)
    = \<lparr>segments = [''Users'', ''me'', ''a.txt''], kind = WindowsDrive CHR ''C''\<rparr>"
  by (rule wire_roundtrip) code_simp

text \<open>A drive root is not among them: \<^verbatim>\<open>C:/\<close> is written to the wire as \<^verbatim>\<open>C:\<close>, which
  reads back as a relative path with the segment \<^verbatim>\<open>C:\<close>, for every drive letter.\<close>

theorem drive_root_wire_form:
  assumes "is_ascii_upper d"
  shows "from_str [d, CHR '':'', CHR ''/''] = \<lparr>segments = [], kind = WindowsDrive d\<rparr>
    \<and> from_str (to_string_normalized \<lparr>segments = [], kind = WindowsDrive d\<rparr>)
      = \<lparr>segments = [[d, CHR '':'']], kind = Relative\<rparr>"
proof -
  have d: "\<not> ws_byte d" "d \<noteq> CHR ''/''" "d \<noteq> CHR ''.''" "d \<noteq> backslash" "is_ascii_alphabetic d"
    using assms by (auto simp: ws_byte_def char_class_defs)
  then have t: "trimmed [d, CHR '':'', CHR ''/'']" "trimmed [d, CHR '':'']"
    by (intro trimmedI; simp add: ws_byte_def)+
  have "from_str [d, CHR '':'', CHR ''/''] = \<lparr>segments = [], kind = WindowsDrive d\<rparr>"
    using t d assms by (simp add: from_str_def Let_def split_segments_slash)
  moreover have "from_str (to_string_normalized \<lparr>segments = [], kind = WindowsDrive d\<rparr>)
      = \<lparr>segments = [[d, CHR '':'']], kind = Relative\<rparr>"
    using t d by (simp add: from_str_def to_string_normalized_def Let_def starts_with_iff
        split_segments_def)
  ultimately show ?thesis ..
qed

theorem drive_root_wire_form_witness:
  "from_str (to_string_normalized \<lparr>segments = [], kind = WindowsDrive CHR ''C''\<rparr>)
      = \<lparr>segments = [''C:''], kind = Relative\<rparr>"
  using drive_root_wire_form [of "CHR ''C''"] by (simp add: is_ascii_upper_def)

text \<open>C34. A relative path that passes \<^verbatim>\<open>validate_relative\<close> stays below an absolute root it is
  joined to: the result is the root followed by plain names.\<close>

theorem join_validated_below_root:
  assumes "list_all plain_name names" "validate_relative (from_str rel) = Inr ()"
  shows "\<exists>ext. join_relative_path (RootDir # map Normal names) rel = RootDir # map Normal names @ ext
    \<and> set ext \<subseteq> insert CurDir (range Normal)"
  using join_relative_path_validated [OF assms(2), of "RootDir # map Normal names"]
  by (simp add: to_local_from_local_absolute [OF assms(1)])

theorem join_validated_below_root_witness:
  "\<exists>ext. join_relative_path (RootDir # map Normal [''home'', ''me'']) ''src/./main.rs''
      = RootDir # map Normal [''home'', ''me''] @ ext \<and> set ext \<subseteq> insert CurDir (range Normal)"
  by (rule join_validated_below_root) code_simp+

text \<open>\<^verbatim>\<open>join_relative_path\<close> does not validate.  With as many \<^verbatim>\<open>..\<close> segments as the root has
  names, the joined path is any absolute path the sender of the relative path chooses.\<close>

theorem join_unvalidated_escapes:
  assumes "list_all plain_name names" "names \<noteq> []"
    and "list_all plain_name segs" "segs \<noteq> []" "\<not> ws_byte (last (last segs))"
  shows "join_relative_path (RootDir # map Normal names)
      (join_with ''/'' (replicate (length names) ''..'' @ segs)) = RootDir # map Normal segs"
proof -
  let ?rel = "replicate (length names) ''..'' @ segs"
  have "wire_path \<lparr>segments = ?rel, kind = Relative\<rparr>"
    using assms by (intro parents_wire_path [of _ "length names - 1"]) auto
  then have "from_str (join_with ''/'' ?rel) = \<lparr>segments = ?rel, kind = Relative\<rparr>"
    using assms(4) by (intro from_str_relative) auto
  then show ?thesis
    using assms to_local_step_up [of "length names" names]
    by (simp add: join_relative_path_def to_local_path_join to_local_from_local_absolute
        to_local_step_plain)
qed

theorem join_unvalidated_escapes_witness:
  "join_relative_path (RootDir # map Normal [''home'', ''me''])
      (join_with ''/'' (replicate (length [''home'', ''me'']) ''..'' @ [''etc'', ''cron.d'', ''x'']))
    = RootDir # map Normal [''etc'', ''cron.d'', ''x'']"
  by (rule join_unvalidated_escapes) code_simp+

text \<open>An operand \<^verbatim>\<open>target:path\<close> is parsed into the target and the path whenever the target
  is a valid host chain, the path begins with an unambiguous indicator and no later colon
  is followed by one; and nothing else is accepted.  The one exception is a one-letter
  target, whose operand is a local drive path.\<close>

theorem parse_remote_iff:
  "parse_remote v = Some r \<longleftrightarrow>
    (\<exists>p. v = target r @ '':'' @ p \<and> r = \<lparr>target = target r, spec_path = from_str p\<rparr>
      \<and> is_valid_target (target r) \<and> looks_like_unambiguous_path_start p
      \<and> last_boundary 0 p None = None \<and> \<not> is_drive_prefix v)"
proof
  assume "parse_remote v = Some r"
  then obtain k where k: "last_boundary 0 v None = Some k" "\<not> is_drive_prefix v"
    "is_valid_target (take k v)" "r = \<lparr>target = take k v, spec_path = from_str (drop (k + 1) v)\<rparr>"
    by (auto simp: parse_remote_def Let_def split: if_splits option.splits)
  with last_boundary_sound [OF k(1)]
  show "\<exists>p. v = target r @ '':'' @ p \<and> r = \<lparr>target = target r, spec_path = from_str p\<rparr>
      \<and> is_valid_target (target r) \<and> looks_like_unambiguous_path_start p
      \<and> last_boundary 0 p None = None \<and> \<not> is_drive_prefix v"
    by (intro exI [of _ "drop (k + 1) v"]) simp
next
  assume "\<exists>p. v = target r @ '':'' @ p \<and> r = \<lparr>target = target r, spec_path = from_str p\<rparr>
      \<and> is_valid_target (target r) \<and> looks_like_unambiguous_path_start p
      \<and> last_boundary 0 p None = None \<and> \<not> is_drive_prefix v"
  then obtain p where p: "v = target r @ '':'' @ p" "r = \<lparr>target = target r, spec_path = from_str p\<rparr>"
      "is_valid_target (target r)" "looks_like_unambiguous_path_start p"
      "last_boundary 0 p None = None" "\<not> is_drive_prefix v" by blast
  from last_boundary_complete [OF p(4,5), of 0 "target r"] p(1)
  have "last_boundary 0 v None = Some (length (target r))" by simp
  moreover have "p \<noteq> []" using p(4) by (simp add: looks_like_unambiguous_path_start_def)
  ultimately have "parse_remote v = Some \<lparr>target = target r, spec_path = from_str p\<rparr>"
    using p(1,3,6) by (simp add: parse_remote_def Let_def)
  with p(2) show "parse_remote v = Some r" by simp
qed

end
