(* ===== verification/Base64_Codec.thy ===== *)
theory Base64_Codec
  imports Rust_Prelude "HOL-Library.Word"
begin

unbundle bit_operations_syntax

text \<open>
  The streaming base64 codec of bastion-relayed transfers:
  \<^verbatim>\<open>src/src/daemon/session/b64.rs\<close>.  Bytes are \<^typ>\<open>8 word\<close>, the sextet arithmetic of the
  decoder is at its width, \<^typ>\<open>32 word\<close>.  The encoder calls the \<^verbatim>\<open>STANDARD\<close> engine of the
  \<^verbatim>\<open>base64\<close> crate, which is an argument here; the locale \<^verbatim>\<open>base64_engine\<close> states what RFC 4648
  says of it.
\<close>

type_synonym u8 = "8 word"

section \<open>Wire length\<close>

definition div_ceil :: "nat \<Rightarrow> nat \<Rightarrow> nat" where
  "div_ceil a b = (a + b - 1) div b"

definition wire_len_for :: "nat \<Rightarrow> nat" where
  "wire_len_for decoded =
    (let chars = wrap_u64 (div_ceil decoded 3 * 4);
         lines = div_ceil chars 76
     in wrap_u64 (chars + lines))"

section \<open>Decoder\<close>

datatype b64_error =
    InvalidCharacter | InvalidPaddingOrder | InvalidQuadPadding | InvalidPaddingPosition
  | LargerThanExpected nat nat | LengthMismatch nat nat

record b64_decoder =
  expected :: nat
  decoded :: nat
  quad :: "u8 list"
  quad_len :: nat
  stopped :: bool

definition decoder_new :: "nat \<Rightarrow> b64_decoder" where
  "decoder_new n = \<lparr>expected = n, decoded = 0, quad = [0, 0, 0, 0], quad_len = 0, stopped = False\<rparr>"

definition decoder_finish :: "b64_decoder \<Rightarrow> b64_error + unit" where
  "decoder_finish d =
    (if decoded d \<noteq> expected d then Inl (LengthMismatch (expected d) (decoded d)) else Inr ())"

definition quad_value :: "u8 \<Rightarrow> b64_error + 32 word" where
  "quad_value c =
    (if 65 \<le> c \<and> c \<le> 90 then Inr (ucast (c - 65))
     else if 97 \<le> c \<and> c \<le> 122 then Inr (ucast (c - 97 + 26))
     else if 48 \<le> c \<and> c \<le> 57 then Inr (ucast (c - 48 + 52))
     else if c = 43 then Inr 62
     else if c = 47 then Inr 63
     else Inl InvalidCharacter)"

definition bind_res :: "'e + 'a \<Rightarrow> ('a \<Rightarrow> 'e + 'b) \<Rightarrow> 'e + 'b" where
  "bind_res r f = (case r of Inl e \<Rightarrow> Inl e | Inr x \<Rightarrow> f x)"

definition decode_quad :: "u8 list \<Rightarrow> b64_error + u8 list" where
  "decode_quad q =
    (let pad = length (filter (\<lambda>c. c = 61) q) in
     bind_res (quad_value (q ! 0)) (\<lambda>a.
     bind_res (quad_value (q ! 1)) (\<lambda>b.
     bind_res
       (if pad = 0 then
          bind_res (quad_value (q ! 2)) (\<lambda>c.
          bind_res (quad_value (q ! 3)) (\<lambda>d.
            Inr [ucast (push_bit 2 a OR drop_bit 4 b), ucast (push_bit 4 b OR drop_bit 2 c),
                 ucast (push_bit 6 c OR d)]))
        else if pad = 1 then
          (if q ! 3 \<noteq> 61 then Inl InvalidPaddingOrder
           else bind_res (quad_value (q ! 2)) (\<lambda>c.
             Inr [ucast (push_bit 2 a OR drop_bit 4 b), ucast (push_bit 4 b OR drop_bit 2 c), 0]))
        else if pad = 2 then Inr [ucast (push_bit 2 a OR drop_bit 4 b), 0, 0]
        else Inl InvalidQuadPadding)
       (\<lambda>triple. Inr (take (3 - pad) triple)))))"

definition is_alphabet :: "u8 \<Rightarrow> bool" where
  "is_alphabet b \<longleftrightarrow>
    65 \<le> b \<and> b \<le> 90 \<or> 97 \<le> b \<and> b \<le> 122 \<or> 48 \<le> b \<and> b \<le> 57 \<or> b = 43 \<or> b = 47"

text \<open>The \<^verbatim>\<open>while\<close> loop that completes a quad with padding.\<close>

definition fill_padding :: "b64_decoder \<Rightarrow> b64_decoder" where
  "fill_padding d = d\<lparr>quad := take (quad_len d) (quad d) @ replicate (4 - quad_len d) 61, quad_len := 4\<rparr>"

definition check_expected :: "b64_decoder \<Rightarrow> u8 list \<Rightarrow> b64_error + b64_decoder \<times> u8 list" where
  "check_expected d out =
    (if decoded d > expected d then Inl (LargerThanExpected (decoded d) (expected d))
     else Inr (d, out))"

definition feed_byte :: "b64_decoder \<Rightarrow> u8 \<Rightarrow> b64_error + b64_decoder \<times> u8 list" where
  "feed_byte d b =
    (if stopped d then Inr (d, [])
     else if b = 13 \<or> b = 10 then Inr (d, [])
     else if is_alphabet b then
       (let d = d\<lparr>quad := (quad d)[quad_len d := b], quad_len := quad_len d + 1\<rparr>
        in if quad_len d = 4 then
             bind_res (decode_quad (quad d)) (\<lambda>bytes.
               check_expected (d\<lparr>decoded := decoded d + 3, quad_len := 0\<rparr>) bytes)
           else Inr (d, []))
     else if b = 61 then
       (if quad_len d < 2 then Inl InvalidPaddingPosition
        else (let d = fill_padding d in
          bind_res (decode_quad (quad d)) (\<lambda>bytes.
          bind_res (check_expected (d\<lparr>decoded := decoded d + length bytes, quad_len := 0\<rparr>) bytes)
            (\<lambda>(d, out). Inr (d\<lparr>stopped := True\<rparr>, out)))))
     else Inr (d\<lparr>stopped := True\<rparr>, []))"

fun feed :: "b64_decoder \<Rightarrow> u8 list \<Rightarrow> b64_error + b64_decoder \<times> u8 list" where
  "feed d [] = Inr (d, [])"
| "feed d (b # chunk) =
    bind_res (feed_byte d b) (\<lambda>(d', out).
    bind_res (feed d' chunk) (\<lambda>(d'', out'). Inr (d'', out @ out')))"

text \<open>One \<^verbatim>\<open>feed\<close> call per received chunk.\<close>

fun feed_chunks :: "b64_decoder \<Rightarrow> u8 list list \<Rightarrow> b64_error + b64_decoder \<times> u8 list" where
  "feed_chunks d [] = Inr (d, [])"
| "feed_chunks d (c # cs) =
    bind_res (feed d c) (\<lambda>(d', out).
    bind_res (feed_chunks d' cs) (\<lambda>(d'', out'). Inr (d'', out @ out')))"

section \<open>Encoder\<close>

record b64_encoder =
  pending :: "u8 list"
  encoded_total :: nat

definition encoder_new :: b64_encoder where
  "encoder_new = \<lparr>pending = [], encoded_total = 0\<rparr>"

definition GROUP :: nat where "GROUP = 57"

definition encode_group :: "(u8 list \<Rightarrow> u8 list) \<Rightarrow> u8 list \<Rightarrow> u8 list" where
  "encode_group engine grp = engine grp"

fun encode_loop :: "(u8 list \<Rightarrow> u8 list) \<Rightarrow> nat \<Rightarrow> b64_encoder \<Rightarrow> u8 list \<Rightarrow> b64_encoder \<times> u8 list" where
  "encode_loop engine 0 e out = (e, out)"
| "encode_loop engine (Suc n) e out =
    (let grp = take GROUP (pending e)
     in encode_loop engine n
          (e\<lparr>pending := drop GROUP (pending e), encoded_total := encoded_total e + 77\<rparr>)
          (out @ encode_group engine grp @ [10]))"

definition encode :: "(u8 list \<Rightarrow> u8 list) \<Rightarrow> b64_encoder \<Rightarrow> u8 list \<Rightarrow> b64_encoder \<times> u8 list" where
  "encode engine e data =
    (let e = e\<lparr>pending := pending e @ data\<rparr>; groups = length (pending e) div GROUP
     in encode_loop engine groups e [])"

definition encoder_finish :: "(u8 list \<Rightarrow> u8 list) \<Rightarrow> b64_encoder \<Rightarrow> b64_encoder \<times> u8 list" where
  "encoder_finish engine e =
    (if pending e \<noteq> [] then
       (let out = encode_group engine (pending e) @ [10]
        in (e\<lparr>pending := [], encoded_total := encoded_total e + length out\<rparr>, out))
     else (e, []))"

text \<open>A whole upload: one \<^verbatim>\<open>encode\<close> call per source chunk, then \<^verbatim>\<open>finish\<close>.\<close>

fun encode_chunks :: "(u8 list \<Rightarrow> u8 list) \<Rightarrow> b64_encoder \<Rightarrow> u8 list list \<Rightarrow> b64_encoder \<times> u8 list" where
  "encode_chunks engine e [] = encoder_finish engine e"
| "encode_chunks engine e (c # cs) =
    (let (e', out) = encode engine e c; (e'', out') = encode_chunks engine e' cs
     in (e'', out @ out'))"

section \<open>RFC 4648\<close>

definition alphabet :: "u8 list" where
  "alphabet = map (\<lambda>n. word_of_nat n) ([65..<91] @ [97..<123] @ [48..<58] @ [43, 47])"

definition sextet :: "u8 \<Rightarrow> u8" where
  "sextet s = alphabet ! unat s"

definition quad3 :: "u8 \<Rightarrow> u8 \<Rightarrow> u8 \<Rightarrow> u8 list" where
  "quad3 x y z =
    [sextet (drop_bit 2 x), sextet (push_bit 4 (take_bit 2 x) OR drop_bit 4 y),
     sextet (push_bit 2 (take_bit 4 y) OR drop_bit 6 z), sextet (take_bit 6 z)]"

definition quad2 :: "u8 \<Rightarrow> u8 \<Rightarrow> u8 list" where
  "quad2 x y =
    [sextet (drop_bit 2 x), sextet (push_bit 4 (take_bit 2 x) OR drop_bit 4 y),
     sextet (push_bit 2 (take_bit 4 y)), 61]"

definition quad1 :: "u8 \<Rightarrow> u8 list" where
  "quad1 x = [sextet (drop_bit 2 x), sextet (push_bit 4 (take_bit 2 x)), 61, 61]"

fun rfc4648 :: "u8 list \<Rightarrow> u8 list" where
  "rfc4648 [] = []"
| "rfc4648 [x] = quad1 x"
| "rfc4648 [x, y] = quad2 x y"
| "rfc4648 (x # y # z # r) = quad3 x y z @ rfc4648 r"

text \<open>The line layout of \<^verbatim>\<open>base64(1)\<close>: 57 source bytes per line, every line ended.\<close>

function wire_lines :: "(u8 list \<Rightarrow> u8 list) \<Rightarrow> u8 list \<Rightarrow> u8 list" where
  "wire_lines engine xs =
    (if xs = [] then [] else engine (take 57 xs) @ [10] @ wire_lines engine (drop 57 xs))"
  by pat_completeness auto
termination
  by (relation "measure (length \<circ> snd)") auto

declare wire_lines.simps [simp del]

section \<open>Bit arithmetic of a quad\<close>

lemma u8_eqI:
  fixes a b :: u8
  assumes "\<And>n. n \<in> {0, 1, 2, 3, 4, 5, 6, 7} \<Longrightarrow> bit a n = bit b n"
  shows "a = b"
proof (rule bit_word_eqI)
  fix n assume "n < LENGTH(8)"
  then have "n \<in> {0, 1, 2, 3, 4, 5, 6, 7}" by auto
  then show "bit a n = bit b n" by (rule assms)
qed

lemma bit_u8_high: "8 \<le> n \<Longrightarrow> \<not> bit x n" for x :: u8
  by (auto dest: bit_imp_le_length)

lemma join_first:
  "ucast (push_bit 2 (ucast (drop_bit 2 x) :: 32 word)
      OR drop_bit 4 (ucast (push_bit 4 (take_bit 2 x) OR drop_bit 4 y))) = x" for x y :: u8
  by (rule u8_eqI) (auto simp: bit_simps bit_u8_high simp flip: numeral_2_eq_2 numeral_3_eq_3)

lemma join_second:
  "ucast (push_bit 4 (ucast (push_bit 4 (take_bit 2 x) OR drop_bit 4 y) :: 32 word)
      OR drop_bit 2 (ucast (push_bit 2 (take_bit 4 y) OR drop_bit 6 z))) = y" for x y z :: u8
  by (rule u8_eqI) (auto simp: bit_simps bit_u8_high simp flip: numeral_2_eq_2 numeral_3_eq_3)

lemma join_third:
  "ucast (push_bit 6 (ucast (push_bit 2 (take_bit 4 y) OR drop_bit 6 z) :: 32 word)
      OR ucast (take_bit 6 z)) = z" for y z :: u8
  by (rule u8_eqI) (auto simp: bit_simps bit_u8_high simp flip: numeral_2_eq_2 numeral_3_eq_3)

lemma six_bits:
  fixes s :: u8
  assumes "\<And>n. 6 \<le> n \<Longrightarrow> \<not> bit s n"
  shows "unat s < 64"
proof -
  have "take_bit 6 s = s"
    by (rule bit_word_eqI) (simp add: bit_simps, metis assms not_le)
  then have "unat s = unat (take_bit 6 s)" by simp
  also have "\<dots> < 2 ^ 6" unfolding unsigned_take_bit_eq by (rule take_bit_nat_less_exp)
  finally show ?thesis by simp
qed

lemma sextet_ranges:
  fixes x y z :: u8
  shows "unat (drop_bit 2 x) < 64" "unat (push_bit 4 (take_bit 2 x) OR drop_bit 4 y) < 64"
    "unat (push_bit 2 (take_bit 4 y) OR drop_bit 6 z) < 64" "unat (take_bit 6 z) < 64"
    "unat (push_bit 4 (take_bit 2 x)) < 64" "unat (push_bit 2 (take_bit 4 y)) < 64"
  by (rule six_bits; force simp: bit_simps bit_u8_high)+

lemma alphabet_table:
  "list_all (\<lambda>n. quad_value (alphabet ! n) = Inr (word_of_nat n) \<and> is_alphabet (alphabet ! n)) [0..<64]"
  by code_simp

lemma sextet_value:
  assumes "unat s < 64"
  shows "quad_value (sextet s) = Inr (ucast s)" and "is_alphabet (sextet s)"
proof -
  have "quad_value (alphabet ! unat s) = Inr (word_of_nat (unat s)) \<and> is_alphabet (alphabet ! unat s)"
    using alphabet_table assms by (simp add: list_all_iff)
  moreover have "word_of_nat (unat s) = (ucast s :: 32 word)" by simp
  ultimately show "quad_value (sextet s) = Inr (ucast s)" "is_alphabet (sextet s)"
    by (simp_all add: sextet_def)
qed

lemma alphabet_not_special: "is_alphabet c \<Longrightarrow> c \<noteq> 61 \<and> c \<noteq> 10 \<and> c \<noteq> 13"
  by (auto simp: is_alphabet_def)

lemmas sextet_facts = sextet_value [OF sextet_ranges(1)] sextet_value [OF sextet_ranges(2)]
  sextet_value [OF sextet_ranges(3)] sextet_value [OF sextet_ranges(4)]
  sextet_value [OF sextet_ranges(5)] sextet_value [OF sextet_ranges(6)]

lemmas sextet_not_pad = sextet_facts(2,4,6,8,10,12) [THEN alphabet_not_special]

lemma decode_quad3: "decode_quad (quad3 x y z) = Inr [x, y, z]"
  using sextet_not_pad
  by (simp add: decode_quad_def quad3_def bind_res_def sextet_facts join_first join_second join_third)

lemma decode_quad2: "decode_quad (quad2 x y) = Inr [x, y]"
  using sextet_not_pad join_second [of x y 0]
  by (simp add: decode_quad_def quad2_def bind_res_def sextet_facts join_first)

lemma decode_quad1: "decode_quad (quad1 x) = Inr [x]"
  using sextet_not_pad join_first [of x 0]
  by (simp add: decode_quad_def quad1_def bind_res_def sextet_facts)

section \<open>Feeding\<close>

lemma bind_res_Inr [simp]: "bind_res (Inr x) f = f x" "bind_res (Inl e) f = Inl e"
  by (simp_all add: bind_res_def)

lemma bind_res_InrE:
  assumes "bind_res r f = Inr y"
  obtains x where "r = Inr x" "f x = Inr y"
  using assms by (cases r) (auto simp: bind_res_def)

lemma feed_append:
  "feed d (a @ b) = bind_res (feed d a) (\<lambda>(d', out).
    bind_res (feed d' b) (\<lambda>(d'', out'). Inr (d'', out @ out')))"
proof (induction a arbitrary: d)
  case Nil
  show ?case by (cases "feed d b") auto
next
  case (Cons x a)
  show ?case
  proof (cases "feed_byte d x")
    case (Inr r)
    then obtain d' out where r: "feed_byte d x = Inr (d', out)" by (cases r) auto
    show ?thesis
      using Cons [of d'] by (cases "feed d' a") (auto simp: r bind_res_def split: sum.splits)
  qed simp
qed

lemma feed_chunks_concat: "feed_chunks d cs = feed d (concat cs)"
  by (induction cs arbitrary: d) (auto simp: feed_append)

lemma feed_stopped: "stopped d \<Longrightarrow> feed d c = Inr (d, [])"
  by (induction c) (auto simp: feed_byte_def)

definition ready :: "nat \<Rightarrow> nat \<Rightarrow> b64_decoder \<Rightarrow> bool" where
  "ready n k d \<longleftrightarrow>
    expected d = n \<and> decoded d = k \<and> quad_len d = 0 \<and> \<not> stopped d \<and> length (quad d) = 4"

definition closed :: "nat \<Rightarrow> nat \<Rightarrow> b64_decoder \<Rightarrow> bool" where
  "closed n k d \<longleftrightarrow> expected d = n \<and> decoded d = k \<and> quad_len d = 0 \<and> stopped d"

lemma length_4E:
  assumes "length xs = 4"
  obtains a b c d where "xs = [a, b, c, d]"
proof -
  from assms have "length xs = Suc (Suc (Suc (Suc 0)))" by simp
  then show ?thesis using that by (auto simp: length_Suc_conv)
qed

lemma feed_full_quad:
  assumes "ready n k d" "list_all is_alphabet [a, b, c, e]" "decode_quad [a, b, c, e] = Inr bytes"
    and "k + 3 \<le> n"
  shows "\<exists>d'. feed d [a, b, c, e] = Inr (d', bytes) \<and> ready n (k + 3) d'"
proof -
  obtain q0 q1 q2 q3 where "quad d = [q0, q1, q2, q3]"
    using assms(1) by (auto simp: ready_def elim: length_4E)
  then show ?thesis
    using assms alphabet_not_special [of a] alphabet_not_special [of b]
      alphabet_not_special [of c] alphabet_not_special [of e]
    by (auto simp: ready_def feed_byte_def check_expected_def Let_def)
qed

lemma feed_padded_quad2:
  assumes "ready n k d" "list_all is_alphabet [a, b, c]" "decode_quad [a, b, c, 61] = Inr bytes"
    and "k + length bytes \<le> n"
  shows "\<exists>d'. feed d [a, b, c, 61] = Inr (d', bytes) \<and> closed n (k + length bytes) d'"
proof -
  obtain q0 q1 q2 q3 where "quad d = [q0, q1, q2, q3]"
    using assms(1) by (auto simp: ready_def elim: length_4E)
  moreover have "\<not> is_alphabet 61" "(61 :: u8) \<noteq> 13" "(61 :: u8) \<noteq> 10"
    by (simp_all add: is_alphabet_def)
  ultimately show ?thesis
    using assms alphabet_not_special [of a] alphabet_not_special [of b] alphabet_not_special [of c]
    by (auto simp: ready_def closed_def feed_byte_def check_expected_def fill_padding_def Let_def
        numeral_2_eq_2 numeral_3_eq_3)
qed

lemma feed_padded_quad1:
  assumes "ready n k d" "list_all is_alphabet [a, b]" "decode_quad [a, b, 61, 61] = Inr bytes"
    and "k + length bytes \<le> n"
  shows "\<exists>d'. feed d [a, b, 61, 61] = Inr (d', bytes) \<and> closed n (k + length bytes) d'"
proof -
  obtain q0 q1 q2 q3 where "quad d = [q0, q1, q2, q3]"
    using assms(1) by (auto simp: ready_def elim: length_4E)
  moreover have "\<not> is_alphabet 61" "(61 :: u8) \<noteq> 13" "(61 :: u8) \<noteq> 10"
    by (simp_all add: is_alphabet_def)
  ultimately show ?thesis
    using assms alphabet_not_special [of a] alphabet_not_special [of b]
    by (auto simp: ready_def closed_def feed_byte_def check_expected_def fill_padding_def Let_def
        numeral_2_eq_2 numeral_3_eq_3)
qed

lemma feed_rfc4648:
  assumes "ready n k d" "k + length xs \<le> n"
  shows "\<exists>d'. feed d (rfc4648 xs) = Inr (d', xs) \<and>
    (if length xs mod 3 = 0 then ready n (k + length xs) d' else closed n (k + length xs) d')"
  using assms
proof (induction xs arbitrary: d k rule: rfc4648.induct)
  case 1
  then show ?case by simp
next
  case (2 x)
  then show ?case
    using feed_padded_quad1 [OF 2(1) _ decode_quad1 [unfolded quad1_def, of x]] sextet_facts
    by (simp add: quad1_def)
next
  case (3 x y)
  then show ?case
    using feed_padded_quad2 [OF 3(1) _ decode_quad2 [unfolded quad2_def, of x y]] sextet_facts
    by (simp add: quad2_def)
next
  case (4 x y z r)
  have "\<exists>d1. feed d (quad3 x y z) = Inr (d1, [x, y, z]) \<and> ready n (k + 3) d1"
    using feed_full_quad [OF 4(2) _ decode_quad3 [unfolded quad3_def, of x y z]] sextet_facts 4(3)
    by (simp add: quad3_def)
  then obtain d1 where d1: "feed d (quad3 x y z) = Inr (d1, [x, y, z])" "ready n (k + 3) d1" by blast
  from 4(1) [OF d1(2)] 4(3) obtain d2 where d2: "feed d1 (rfc4648 r) = Inr (d2, r)"
    "if length r mod 3 = 0 then ready n (k + 3 + length r) d2 else closed n (k + 3 + length r) d2"
    by auto
  have len: "length (x # y # z # r) mod 3 = length r mod 3" "k + length (x # y # z # r) = k + 3 + length r"
    using mod_add_self1 [of 3 "length r"] by (simp_all add: add.commute)
  have "feed d (rfc4648 (x # y # z # r)) = Inr (d2, x # y # z # r)"
    using d1(1) d2(1) by (simp add: feed_append)
  with d2(2) show ?case unfolding len by blast
qed

section \<open>The engine and the encoder\<close>

lemma div_ceil_step: "0 < b \<Longrightarrow> div_ceil (b + a) b = Suc (div_ceil a b)"
proof -
  assume "0 < b"
  then have "b + a + b - 1 = b + (a + b - 1)" by simp
  then have "(b + a + b - 1) div b = (b + (a + b - 1)) div b" by (rule arg_cong)
  with \<open>0 < b\<close> show ?thesis unfolding div_ceil_def by (simp only: div_add_self1)
qed

lemma div_ceil_0 [simp]: "0 < b \<Longrightarrow> div_ceil 0 b = 0"
  by (simp add: div_ceil_def)

lemma div_ceil_mult: "0 < b \<Longrightarrow> div_ceil (b * k) b = k"
  by (induction k) (simp_all add: div_ceil_step)

text \<open>RFC 4648 section 4 of the engine: whole groups of three bytes give four characters
  each, and a final group of one or two bytes is padded.\<close>

locale base64_engine =
  fixes engine :: "u8 list \<Rightarrow> u8 list"
  assumes engine_Nil: "engine [] = []"
    and engine_one: "engine [x] = quad1 x"
    and engine_two: "engine [x, y] = quad2 x y"
    and engine_group: "engine (x # y # z # r) = quad3 x y z @ engine r"
begin

lemma engine_rfc4648: "engine xs = rfc4648 xs"
  by (induction xs rule: rfc4648.induct)
    (simp_all add: engine_Nil engine_one engine_two engine_group)

lemma length_engine: "length (engine xs) = 4 * div_ceil (length xs) 3"
proof (induction xs rule: rfc4648.induct)
  case (4 x y z r)
  then show ?case
    using div_ceil_step [of 3 "length r"]
    by (simp add: engine_group quad3_def numeral_3_eq_3)
qed (simp_all add: engine_Nil engine_one engine_two quad1_def quad2_def div_ceil_def)

lemma wire_lines_append:
  "57 dvd length a \<Longrightarrow> wire_lines engine (a @ b) = wire_lines engine a @ wire_lines engine b"
proof (induction engine a rule: wire_lines.induct)
  case (1 engine a)
  show ?case
  proof (cases "a = []")
    case True
    then show ?thesis by (simp add: wire_lines.simps)
  next
    case False
    with 1(2) have len: "57 \<le> length a" by (simp add: dvd_imp_le)
    with 1 False have "wire_lines engine (drop 57 a @ b) = wire_lines engine (drop 57 a) @ wire_lines engine b"
      by (simp add: dvd_diff_nat)
    with False len show ?thesis
      by (subst (1 2) wire_lines.simps) simp
  qed
qed

lemma wire_lines_line: "xs \<noteq> [] \<Longrightarrow> length xs \<le> 57 \<Longrightarrow> wire_lines engine xs = engine xs @ [10]"
  by (subst wire_lines.simps) (simp add: wire_lines.simps)

lemma encode_loop_lines:
  "57 * n \<le> length (pending e) \<Longrightarrow> encode_loop engine n e out =
    (e\<lparr>pending := drop (57 * n) (pending e), encoded_total := encoded_total e + 77 * n\<rparr>,
     out @ wire_lines engine (take (57 * n) (pending e)))"
proof (induction n arbitrary: e out)
  case 0
  then show ?case by (simp add: wire_lines.simps)
next
  case (Suc n)
  let ?p = "pending e"
  have "wire_lines engine (take (57 + 57 * n) ?p)
      = engine (take 57 ?p) @ [10] @ wire_lines engine (take (57 * n) (drop 57 ?p))"
    using Suc.prems
    by (subst wire_lines.simps) (auto simp: take_take drop_take min_def)
  with Suc show ?case
    by (simp add: Let_def GROUP_def encode_group_def drop_drop add.commute)
qed

lemma length_wire_lines:
  "length (wire_lines engine xs) = div_ceil (length xs) 3 * 4 + div_ceil (div_ceil (length xs) 3 * 4) 76"
proof (induction xs rule: measure_induct_rule [of length])
  case (less xs)
  consider "xs = []" | "xs \<noteq> []" "length xs \<le> 57" | "57 < length xs" by linarith
  then show ?case
  proof cases
    case 2
    then have "1 \<le> length xs" by (cases xs) auto
    then have "1 \<le> div_ceil (length xs) 3 * 4" "div_ceil (length xs) 3 * 4 \<le> 76"
      using 2(2) div_le_mono [of "length xs + 3 - 1" 59 3] unfolding div_ceil_def by simp_all
    then have "div_ceil (div_ceil (length xs) 3 * 4) 76 = 1"
      by (auto simp: div_ceil_def[of _ 76])
    with 2 show ?thesis by (simp add: wire_lines_line length_engine)
  next
    case 3
    define m where "m = length xs - 57"
    have xs: "xs \<noteq> []" "length xs = 57 + m" "length (take 57 xs) = 57" using 3 by (auto simp: m_def)
    have "length (wire_lines engine (drop 57 xs)) = div_ceil m 3 * 4 + div_ceil (div_ceil m 3 * 4) 76"
      using less [of "drop 57 xs"] 3 by (simp add: m_def)
    moreover have "div_ceil (57 + m) 3 = 19 + div_ceil m 3" by (simp add: div_ceil_def)
    moreover have "div_ceil ((19 + c) * 4) 76 = Suc (div_ceil (c * 4) 76)" for c
      using div_ceil_step [of 76 "c * 4"] by (simp add: algebra_simps)
    moreover have "length (wire_lines engine xs)
        = length (engine (take 57 xs)) + 1 + length (wire_lines engine (drop 57 xs))"
      using xs by (subst wire_lines.simps) simp
    moreover have "length (engine (take 57 xs)) = 76"
      unfolding length_engine xs(3) by (simp add: div_ceil_def)
    ultimately show ?thesis by (simp add: xs(2))
  qed (simp add: wire_lines.simps)
qed

lemma encode_chunks_lines:
  "length (pending e) < 57 \<Longrightarrow> encode_chunks engine e cs =
    (e\<lparr>pending := [],
       encoded_total := encoded_total e + length (wire_lines engine (pending e @ concat cs))\<rparr>,
     wire_lines engine (pending e @ concat cs))"
proof (induction cs arbitrary: e)
  case Nil
  then show ?case
    by (cases "pending e = []")
      (simp_all add: encoder_finish_def Let_def encode_group_def wire_lines_line wire_lines.simps)
next
  case (Cons c cs)
  define p where "p = pending e @ c"
  define g where "g = length p div 57"
  define a where "a = take (57 * g) p"
  define b where "b = drop (57 * g) p"
  have len: "57 * g \<le> length p" by (simp add: g_def)
  have enc: "encode engine e c
      = (e\<lparr>pending := b, encoded_total := encoded_total e + 77 * g\<rparr>, wire_lines engine a)"
    using encode_loop_lines [of g "e\<lparr>pending := p\<rparr>" "[]"] len
    by (simp add: encode_def Let_def GROUP_def p_def g_def a_def b_def)
  have b: "length b < 57" by (simp add: b_def g_def)
  have "length a = 57 * g" using len by (simp add: a_def)
  then have dvd: "57 dvd length a" by simp
  have "length (wire_lines engine a) = 77 * g"
    using div_ceil_mult [of 3 "19 * g"] div_ceil_mult [of 76 g]
    by (simp add: length_wire_lines \<open>length a = 57 * g\<close> mult.commute)
  moreover have "a @ b = p" by (simp add: a_def b_def)
  then have conc: "pending e @ concat (c # cs) = a @ b @ concat cs"
    by (simp add: p_def)
  ultimately show ?case
    unfolding conc using Cons.IH [of "e\<lparr>pending := b, encoded_total := encoded_total e + 77 * g\<rparr>"] b
    by (simp add: enc wire_lines_append [OF dvd])
qed

lemma feed_wire_lines:
  assumes "ready n k d" "k + length xs \<le> n"
  shows "\<exists>d'. feed d (wire_lines engine xs) = Inr (d', xs) \<and>
    (ready n (k + length xs) d' \<or> closed n (k + length xs) d')"
  using assms
proof (induction xs arbitrary: d k rule: measure_induct_rule [of length])
  case (less xs)
  have newline: "feed d' [10] = Inr (d', [])" for d'
    by (simp add: feed_byte_def)
  consider "xs = []" | "xs \<noteq> []" "length xs \<le> 57" | "57 < length xs" by linarith
  then show ?case
  proof cases
    case 1
    with less.prems show ?thesis by (auto simp: wire_lines.simps)
  next
    case 2
    from feed_rfc4648 [OF less.prems] obtain d' where "feed d (engine xs) = Inr (d', xs)"
      "ready n (k + length xs) d' \<or> closed n (k + length xs) d'"
      unfolding engine_rfc4648 by (meson)
    with 2 newline show ?thesis by (simp add: wire_lines_line feed_append)
  next
    case 3
    define t where "t = take 57 xs"
    define u where "u = drop 57 xs"
    have t: "length t = 57" and xs: "xs = t @ u" using 3 by (auto simp: t_def u_def)
    have ku: "k + 57 + length u \<le> n" "k + length t \<le> n" using less.prems(2) t xs by auto
    from feed_rfc4648 [OF less.prems(1) ku(2)] t obtain d' where
      d': "feed d (engine t) = Inr (d', t)" "ready n (k + 57) d'"
      unfolding engine_rfc4648 by auto
    have "length u < length xs" using t xs by simp
    from less.IH [OF this d'(2) ku(1)] obtain d'' where
      d'': "feed d' (wire_lines engine u) = Inr (d'', u)"
        "ready n (k + 57 + length u) d'' \<or> closed n (k + 57 + length u) d''" by blast
    have "wire_lines engine xs = engine t @ [10] @ wire_lines engine u"
      using 3 by (subst wire_lines.simps) (auto simp: t_def u_def)
    then have "feed d (wire_lines engine xs) = Inr (d'', xs)"
      using d' d'' feed_append [of d' "[10]" "wire_lines engine u"]
      by (simp add: feed_append [of d "engine t"] xs newline del: feed.simps)
    moreover have "k + length xs = k + 57 + length u" using t xs by simp
    ultimately show ?thesis using d''(2) by metis
  qed
qed

end

interpretation rfc: base64_engine rfc4648
  by unfold_locales simp_all

section \<open>What the decoder guarantees of any input\<close>

text \<open>\<^verbatim>\<open>decoded\<close> counts the bytes handed out, and never passes \<^verbatim>\<open>expected\<close>.\<close>

lemma decode_quad_length:
  "decode_quad q = Inr bytes \<Longrightarrow> length bytes = 3 - length (filter (\<lambda>c. c = 61) q)"
  by (auto simp: decode_quad_def Let_def elim!: bind_res_InrE split: if_splits)

definition decoder_inv :: "b64_decoder \<Rightarrow> bool" where
  "decoder_inv d \<longleftrightarrow>
    length (quad d) = 4 \<and> quad_len d < 4 \<and> list_all is_alphabet (take (quad_len d) (quad d))
    \<and> decoded d \<le> expected d"

lemma decoder_new_inv: "decoder_inv (decoder_new n)"
  by (simp add: decoder_inv_def decoder_new_def)

lemma no_pad_in_alphabet: "list_all is_alphabet q \<Longrightarrow> filter (\<lambda>c. c = 61) q = []"
  using alphabet_not_special by (induction q) auto

lemma take_update_Suc:
  "i < length xs \<Longrightarrow> take (Suc i) (xs[i := x]) = take i xs @ [x]"
  by (simp add: take_Suc_conv_app_nth)

lemma feed_byte_inv:
  assumes "decoder_inv d" "feed_byte d b = Inr (d', out)"
  shows "decoder_inv d' \<and> decoded d' = decoded d + length out \<and> expected d' = expected d"
proof -
  consider (skip) "stopped d \<or> b = 13 \<or> b = 10"
    | (alpha) "\<not> stopped d" "is_alphabet b" "b \<noteq> 13" "b \<noteq> 10"
    | (pad) "\<not> stopped d" "\<not> is_alphabet b" "b = 61"
    | (other) "\<not> stopped d" "\<not> is_alphabet b" "b \<noteq> 61" "b \<noteq> 13" "b \<noteq> 10" by blast
  then show ?thesis
  proof cases
    case skip
    then have "feed_byte d b = Inr (d, [])" by (auto simp: feed_byte_def)
    with assms show ?thesis by simp
  next
    case other
    then have "feed_byte d b = Inr (d\<lparr>stopped := True\<rparr>, [])" by (simp add: feed_byte_def)
    with assms show ?thesis by (auto simp: decoder_inv_def)
  next
    case alpha
    let ?q = "(quad d)[quad_len d := b]"
    have q: "length ?q = 4" "list_all is_alphabet (take (Suc (quad_len d)) ?q)"
      using assms(1) alpha(2) by (auto simp: decoder_inv_def take_update_Suc)
    show ?thesis
    proof (cases "Suc (quad_len d) = 4")
      case True
      with q have all: "list_all is_alphabet ?q" by simp
      from assms(2) alpha True obtain bytes where bytes: "decode_quad ?q = Inr bytes"
        "check_expected (d\<lparr>quad := ?q, decoded := decoded d + 3, quad_len := 0\<rparr>) bytes = Inr (d', out)"
        by (auto simp: feed_byte_def Let_def elim!: bind_res_InrE)
      moreover have "length bytes = 3"
        using decode_quad_length [OF bytes(1)] no_pad_in_alphabet [OF all] by simp
      ultimately show ?thesis
        using q by (auto simp: check_expected_def decoder_inv_def split: if_splits)
    next
      case False
      with assms alpha q show ?thesis
        by (auto simp: feed_byte_def Let_def decoder_inv_def)
    qed
  next
    case pad
    then have len: "quad_len d \<ge> 2" using assms by (auto simp: feed_byte_def split: if_splits)
    from pad assms len obtain bytes where "decode_quad (quad (fill_padding d)) = Inr bytes"
      "decoded d + length bytes \<le> expected d" "out = bytes"
      "d' = (fill_padding d)\<lparr>decoded := decoded d + length bytes, quad_len := 0, stopped := True\<rparr>"
      by (auto simp: feed_byte_def Let_def check_expected_def fill_padding_def
          elim!: bind_res_InrE split: if_splits)
    with assms(1) show ?thesis
      by (auto simp: decoder_inv_def fill_padding_def)
  qed
qed

lemma feed_inv:
  "decoder_inv d \<Longrightarrow> feed d c = Inr (d', out) \<Longrightarrow>
    decoder_inv d' \<and> decoded d' = decoded d + length out \<and> expected d' = expected d"
proof (induction c arbitrary: d out)
  case (Cons b c)
  from Cons.prems(2) obtain d1 o1 o2 where 1: "feed_byte d b = Inr (d1, o1)"
    "feed d1 c = Inr (d', o2)" "out = o1 @ o2"
    by (auto elim!: bind_res_InrE)
  from feed_byte_inv [OF Cons.prems(1) 1(1)] have 2: "decoder_inv d1"
    "decoded d1 = decoded d + length o1" "expected d1 = expected d" by auto
  from Cons.IH [OF 2(1) 1(2)] 2 1(3) show ?case by simp
qed simp

lemma feed_wire_tail:
  assumes "base64_engine engine" "tail = [] \<or> hd tail = 95"
  shows "\<exists>d. feed (decoder_new (length xs)) (wire_lines engine xs @ tail) = Inr (d, xs)
    \<and> decoder_finish d = Inr ()"
proof -
  have "ready (length xs) 0 (decoder_new (length xs))"
    by (simp add: ready_def decoder_new_def)
  from base64_engine.feed_wire_lines [OF assms(1) this, of xs] obtain d where
    d: "feed (decoder_new (length xs)) (wire_lines engine xs) = Inr (d, xs)"
      "ready (length xs) (length xs) d \<or> closed (length xs) (length xs) d" by auto
  have "\<exists>d'. feed d tail = Inr (d', []) \<and> decoded d' = decoded d \<and> expected d' = expected d"
  proof (cases "stopped d \<or> tail = []")
    case True
    then show ?thesis by (auto simp: feed_stopped)
  next
    case False
    then obtain t where "tail = 95 # t" using assms(2) by (cases tail) auto
    moreover have "feed (d\<lparr>stopped := True\<rparr>) t = Inr (d\<lparr>stopped := True\<rparr>, [])"
      by (simp add: feed_stopped)
    ultimately show ?thesis using False by (simp add: feed_byte_def is_alphabet_def)
  qed
  then obtain d' where d': "feed d tail = Inr (d', [])" "decoded d' = decoded d"
    "expected d' = expected d" by blast
  have "feed (decoder_new (length xs)) (wire_lines engine xs @ tail) = Inr (d', xs)"
    using d(1) d'(1) by (simp add: feed_append)
  moreover have "decoder_finish d' = Inr ()"
    using d(2) d'(2,3) by (auto simp: decoder_finish_def ready_def closed_def)
  ultimately show ?thesis by blast
qed

section \<open>Properties\<close>

text \<open>C28. Round trip through the codec, for every payload, every chunking of it on the
  sending side and every chunking of the wire bytes on the receiving side: the decoder
  hands out exactly the payload and its final check passes, also when the end sentinel
  (which begins with an underscore) and more output follow.\<close>

theorem b64_roundtrip:
  assumes "base64_engine engine"
    and "concat wire = snd (encode_chunks engine encoder_new data) @ tail"
    and "tail = [] \<or> hd tail = 95"
  shows "\<exists>d. feed_chunks (decoder_new (length (concat data))) wire = Inr (d, concat data)
    \<and> decoder_finish d = Inr ()"
proof -
  have out: "snd (encode_chunks engine encoder_new data) = wire_lines engine (concat data)"
    using base64_engine.encode_chunks_lines [OF assms(1), of encoder_new data]
    by (simp add: encoder_new_def)
  show ?thesis
    using feed_wire_tail [OF assms(1,3), of "concat data"] assms(2) by (simp add: feed_chunks_concat out)
qed

theorem b64_roundtrip_witness:
  "\<exists>d. feed_chunks (decoder_new (length (concat [[72, 101 :: u8], [121, 33]])))
      [[83, 71, 86], [53, 73, 81, 61, 61], [10, 95, 95]] = Inr (d, concat [[72, 101 :: u8], [121, 33]])
    \<and> decoder_finish d = Inr ()"
proof (rule b64_roundtrip [where engine = rfc4648 and tail = "[95, 95]"])
  show "base64_engine rfc4648" by (rule rfc.base64_engine_axioms)
  show "concat [[83, 71, 86], [53, 73, 81, 61, 61], [10, 95, 95]]
      = snd (encode_chunks rfc4648 encoder_new [[72, 101], [121, 33]]) @ [95, 95]"
    by code_simp
qed simp

text \<open>The number of bytes the encoder puts on the wire is \<^verbatim>\<open>wire_len_for\<close> of the payload
  length, independently of the chunking, and its running total says so: the remote
  \<^verbatim>\<open>head -c\<close> that is started with this length reads the payload to its last byte and no
  further.\<close>

theorem b64_wire_length:
  assumes "base64_engine engine" "length (concat data) < 2 ^ 62"
  shows "length (snd (encode_chunks engine encoder_new data)) = wire_len_for (length (concat data))
    \<and> encoded_total (fst (encode_chunks engine encoder_new data)) = wire_len_for (length (concat data))"
proof -
  define n where "n = length (concat data)"
  have "(n + 3 - 1) div 3 \<le> (2 ^ 62 + 2) div 3"
    using assms(2) by (intro div_le_mono) (simp add: n_def)
  then have "div_ceil n 3 * 4 < 2 ^ 63" by (simp add: div_ceil_def)
  moreover have "div_ceil c 76 \<le> c" for c by (simp add: div_ceil_def)
  then have "div_ceil (div_ceil n 3 * 4) 76 \<le> div_ceil n 3 * 4" .
  ultimately have "wire_len_for n = div_ceil n 3 * 4 + div_ceil (div_ceil n 3 * 4) 76"
    by (simp add: wire_len_for_def wrap_u64_def Let_def)
  then show ?thesis
    using base64_engine.encode_chunks_lines [OF assms(1), of encoder_new data]
      base64_engine.length_wire_lines [OF assms(1), of "concat data"]
    by (simp add: encoder_new_def n_def)
qed

theorem b64_wire_length_witness:
  "length (snd (encode_chunks rfc4648 encoder_new [[1, 2], [3, 4]])) = wire_len_for (length (concat [[1, 2 :: u8], [3, 4]]))
    \<and> encoded_total (fst (encode_chunks rfc4648 encoder_new [[1, 2], [3, 4]]))
      = wire_len_for (length (concat [[1, 2 :: u8], [3, 4]]))"
  by (rule b64_wire_length) (simp_all add: rfc.base64_engine_axioms)

text \<open>C35. Whatever arrives on the wire, in whatever chunks: if no error is raised, the decoder
  has handed out as many bytes as it counts and at most as many as were announced, and the
  final check accepts exactly when all announced bytes were handed out.\<close>

theorem b64_decoder_bounded:
  assumes "feed_chunks (decoder_new n) wire = Inr (d, out)"
  shows "length out = decoded d \<and> length out \<le> n
    \<and> (decoder_finish d = Inr () \<longleftrightarrow> length out = n)"
  using feed_inv [OF decoder_new_inv, of n "concat wire" d out] assms
  by (auto simp: feed_chunks_concat decoder_inv_def decoder_new_def decoder_finish_def)

theorem b64_decoder_bounded_witness:
  "length [72, 101, 121 :: u8] = decoded
      \<lparr>expected = 3, decoded = 3, quad = [83, 71, 86, 53], quad_len = 0, stopped = True\<rparr>
    \<and> length [72, 101, 121 :: u8] \<le> 3
    \<and> (decoder_finish
        \<lparr>expected = 3, decoded = 3, quad = [83, 71, 86, 53], quad_len = 0, stopped = True\<rparr> = Inr ()
      \<longleftrightarrow> length [72, 101, 121 :: u8] = 3)"
  by (rule b64_decoder_bounded [where wire = "[[83, 71], [86, 53, 95]]"]) code_simp

text \<open>The final check looks at the byte count only: up to three alphabet characters behind
  a complete payload are left in the unfinished quad and accepted without an error.\<close>

theorem b64_trailing_partial_quad:
  assumes "base64_engine engine" "length xs mod 3 = 0"
    and "list_all is_alphabet extra" "length extra < 4"
  shows "\<exists>d. feed (decoder_new (length xs)) (engine xs @ extra) = Inr (d, xs)
    \<and> quad_len d = length extra \<and> decoder_finish d = Inr ()"
proof -
  have "ready (length xs) 0 (decoder_new (length xs))"
    by (simp add: ready_def decoder_new_def)
  from feed_rfc4648 [OF this, of xs] assms(2) obtain d where
    d: "feed (decoder_new (length xs)) (rfc4648 xs) = Inr (d, xs)" "ready (length xs) (length xs) d"
    by auto
  have "\<exists>d'. feed d c = Inr (d', []) \<and> quad_len d' = quad_len d + length c
      \<and> decoded d' = decoded d \<and> expected d' = expected d"
    if "list_all is_alphabet c" "quad_len d + length c < 4" "\<not> stopped d" for c d
    using that
  proof (induction c arbitrary: d)
    case (Cons b c)
    let ?d = "d\<lparr>quad := (quad d)[quad_len d := b], quad_len := quad_len d + 1\<rparr>"
    have "feed_byte d b = Inr (?d, [])"
      using Cons.prems alphabet_not_special [of b] by (simp add: feed_byte_def Let_def)
    with Cons.IH [of ?d] Cons.prems show ?case by auto
  qed simp
  from this [OF assms(3), of d] assms(4) d(2) obtain d' where
    d': "feed d extra = Inr (d', [])" "quad_len d' = length extra" "decoded d' = expected d'"
    by (auto simp: ready_def)
  then have "feed (decoder_new (length xs)) (engine xs @ extra) = Inr (d', xs)"
    using d(1) by (simp add: base64_engine.engine_rfc4648 [OF assms(1)] feed_append)
  with d' show ?thesis by (auto simp: decoder_finish_def)
qed

theorem b64_trailing_partial_quad_witness:
  "\<exists>d. feed (decoder_new (length [65, 66, 67 :: u8])) (rfc4648 [65, 66, 67] @ [81, 82]) = Inr (d, [65, 66, 67])
    \<and> quad_len d = length [81, 82 :: u8] \<and> decoder_finish d = Inr ()"
  by (rule b64_trailing_partial_quad) (simp_all add: rfc.base64_engine_axioms is_alphabet_def)

end
