(* ===== verification/Sentinel_Scanner.thy ===== *)
theory Sentinel_Scanner
  imports Rust_Prelude
begin

text \<open>
  The exit-code sentinel of commands run through a bastion's PTY:
  \<^verbatim>\<open>extract_marker\<close>, \<^verbatim>\<open>find_subslice\<close>, \<^verbatim>\<open>partial_suffix_match\<close>, \<^verbatim>\<open>SentinelScanner\<close>,
  \<^verbatim>\<open>find_sentinel\<close> and \<^verbatim>\<open>lookahead_sentinel\<close> of \<^verbatim>\<open>src/src/daemon/jumpserver_engine.rs\<close>.
  The output stream arrives in chunks that may be cut at any byte; the theorems say that the
  scanner loses and invents nothing, that what it takes for the sentinel is one, and that
  it finds the real sentinel under every chunking.
\<close>

section \<open>The scanner\<close>

definition find_subslice :: "string \<Rightarrow> string \<Rightarrow> nat option" where
  "find_subslice haystack needle =
    (if needle = [] \<or> length needle > length haystack then None else find_sub needle haystack)"

definition extract_marker :: "string \<Rightarrow> string \<Rightarrow> int \<times> string" where
  "extract_marker buf marker =
    (case find_subslice buf marker of
       None \<Rightarrow> (0, buf)
     | Some pos \<Rightarrow>
        (let after_marker = drop (pos + length marker) buf in
         case after_marker of
           [] \<Rightarrow> (0, buf)
         | c # status_start \<Rightarrow>
            if c = CHR '':'' then
              (let code_str = trim (takeWhile (\<lambda>b. b \<noteq> CHR 0x0A) status_start)
               in (case parse_i32 code_str of Some code \<Rightarrow> code | None \<Rightarrow> 0, take pos buf))
            else (0, buf)))"

text \<open>The longest proper prefix of the pattern that ends the buffer: the search runs over
  the lengths \<^verbatim>\<open>max\<close> down to 1.\<close>

fun longest_suffix_match :: "nat \<Rightarrow> string \<Rightarrow> string \<Rightarrow> nat" where
  "longest_suffix_match 0 buf pattern = 0"
| "longest_suffix_match (Suc n) buf pattern =
    (if drop (length buf - Suc n) buf = take (Suc n) pattern then Suc n
     else longest_suffix_match n buf pattern)"

definition partial_suffix_match :: "string \<Rightarrow> string \<Rightarrow> nat" where
  "partial_suffix_match buf pattern =
    (if length pattern \<le> 1 \<or> buf = [] then 0
     else longest_suffix_match (min (length buf) (length pattern - 1)) buf pattern)"

datatype lookahead = is_LConfirmed: LConfirmed (l_code: int) (l_consumed: nat) | LIncomplete | LMismatch

definition exit_code_of :: "string \<Rightarrow> int" where
  "exit_code_of ds = (case parse_i32 ds of Some code \<Rightarrow> code | None \<Rightarrow> 0)"

text \<open>The terminator behind the digits: \<^verbatim>\<open>\\n\<close> or \<^verbatim>\<open>\\r\\n\<close>.\<close>

fun eol_verdict :: "string \<Rightarrow> string \<Rightarrow> lookahead" where
  "eol_verdict ds [] = LIncomplete"
| "eol_verdict ds (t # ts) =
    (if t = CHR 0x0A then LConfirmed (exit_code_of ds) (1 + length ds + 1)
     else if t = CHR 0x0D then
       (case ts of
          [] \<Rightarrow> LIncomplete
        | u # _ \<Rightarrow> if u = CHR 0x0A then LConfirmed (exit_code_of ds) (1 + length ds + 2) else LMismatch)
     else LMismatch)"

definition lookahead_sentinel :: "string \<Rightarrow> lookahead" where
  "lookahead_sentinel aft =
    (case aft of
       [] \<Rightarrow> LIncomplete
     | c # rest \<Rightarrow>
        if c \<noteq> CHR '':'' then LMismatch
        else
          (let ds = takeWhile is_ascii_digit rest; ts = dropWhile is_ascii_digit rest
           in if ds = [] then (if ts \<noteq> [] then LMismatch else LIncomplete) else eol_verdict ds ts))"

datatype sentinel_find = Confirmed nat int nat | Incomplete nat | NotFound

lemma find_subslice_Some:
  "find_subslice h n = Some i \<Longrightarrow> n \<noteq> [] \<and> (\<exists>a b. h = a @ n @ b \<and> length a = i)"
  using find_sub_Some [of n h i] by (auto simp: find_subslice_def split: if_splits)

function find_sentinel_loop :: "string \<Rightarrow> string \<Rightarrow> nat \<Rightarrow> sentinel_find" where
  "find_sentinel_loop buf marker search_from =
    (case find_subslice (drop search_from buf) marker of
       None \<Rightarrow> NotFound
     | Some rel \<Rightarrow>
        (let pos = search_from + rel;
             aft = drop (pos + length marker) buf
         in case lookahead_sentinel aft of
              LConfirmed code consumed \<Rightarrow> Confirmed pos code (pos + length marker + consumed)
            | LIncomplete \<Rightarrow> Incomplete pos
            | LMismatch \<Rightarrow> find_sentinel_loop buf marker (pos + length marker)))"
  by pat_completeness auto
termination
proof (relation "measure (\<lambda>(buf, marker, search_from). length buf - search_from)")
  fix buf marker :: string and search_from rel x xa
  assume "find_subslice (drop search_from buf) marker = Some rel"
    and "x = search_from + rel" and "xa = drop (x + length marker) buf"
  then obtain a b where "marker \<noteq> []" "drop search_from buf = a @ marker @ b"
    by (auto dest: find_subslice_Some)
  then have "length (drop search_from buf) = length a + length marker + length b" "0 < length marker"
    by auto
  then have "search_from < length buf" "0 < length marker" by (simp_all, linarith)
  then show "((buf, marker, x + length marker), buf, marker, search_from)
      \<in> measure (\<lambda>(buf, marker, search_from). length buf - search_from)"
    using \<open>x = search_from + rel\<close> by (cases marker) auto
qed simp

declare find_sentinel_loop.simps [simp del]

definition find_sentinel :: "string \<Rightarrow> string \<Rightarrow> sentinel_find" where
  "find_sentinel buf marker = (if marker = [] then NotFound else find_sentinel_loop buf marker 0)"

record sentinel_scanner =
  marker :: string
  hold :: string
  leftover :: string
  finished :: bool
  exit_code :: int

definition scanner_new :: "string \<Rightarrow> sentinel_scanner" where
  "scanner_new m = \<lparr>marker = m, hold = [], leftover = [], finished = False, exit_code = 0\<rparr>"

definition scanner_feed :: "sentinel_scanner \<Rightarrow> string \<Rightarrow> sentinel_scanner \<times> string \<times> bool" where
  "scanner_feed s chunk =
    (if finished s then (s, [], True)
     else
       (let h = hold s @ chunk in
        case find_sentinel h (marker s) of
          Confirmed pos code e \<Rightarrow>
            (s\<lparr>leftover := drop e h, hold := [], exit_code := code, finished := True\<rparr>, take pos h, True)
        | Incomplete pos \<Rightarrow> (s\<lparr>hold := drop pos h\<rparr>, take pos h, False)
        | NotFound \<Rightarrow>
            (let pm = partial_suffix_match h (marker s); safe = length h - pm
             in (s\<lparr>hold := drop safe h\<rparr>, take safe h, False))))"

definition take_leftover :: "sentinel_scanner \<Rightarrow> sentinel_scanner \<times> string" where
  "take_leftover s = (s\<lparr>leftover := []\<rparr>, leftover s)"

text \<open>The receive loop: one \<^verbatim>\<open>feed\<close> per chunk until the sentinel is found; the chunks behind
  it are not consumed.\<close>

fun scan_chunks :: "sentinel_scanner \<Rightarrow> string list \<Rightarrow> sentinel_scanner \<times> string \<times> string list" where
  "scan_chunks s [] = (s, [], [])"
| "scan_chunks s (c # cs) =
    (let (s', fwd, fin) = scanner_feed s c
     in if fin then (s', fwd, cs)
        else (let (s'', fwd', rest) = scan_chunks s' cs in (s'', fwd @ fwd', rest)))"

section \<open>The sentinel\<close>

definition sentinel_tail :: "string \<Rightarrow> string \<Rightarrow> bool" where
  "sentinel_tail ds eol \<longleftrightarrow>
    ds \<noteq> [] \<and> list_all is_ascii_digit ds \<and> (eol = [CHR 0x0A] \<or> eol = [CHR 0x0D, CHR 0x0A])"

lemma not_digit_eol: "\<not> is_ascii_digit (CHR 0x0A)" "\<not> is_ascii_digit (CHR 0x0D)"
  by (simp_all add: is_ascii_digit_def)

lemma lookahead_other: "c \<noteq> CHR '':'' \<Longrightarrow> lookahead_sentinel (c # rest) = LMismatch"
  by (simp add: lookahead_sentinel_def)

lemma lookahead_colon:
  assumes "\<forall>c \<in> set ds. is_ascii_digit c" "ts = [] \<or> \<not> is_ascii_digit (hd ts)"
  shows "lookahead_sentinel (CHR '':'' # ds @ ts) =
    (if ds = [] then (if ts \<noteq> [] then LMismatch else LIncomplete) else eol_verdict ds ts)"
proof -
  have "takeWhile is_ascii_digit ts = []" "dropWhile is_ascii_digit ts = ts"
    using assms(2) by (cases ts; auto)+
  then have td: "takeWhile is_ascii_digit (ds @ ts) = ds" "dropWhile is_ascii_digit (ds @ ts) = ts"
    using assms(1) by (simp_all add: takeWhile_append2 dropWhile_append2)
  show ?thesis unfolding lookahead_sentinel_def list.case Let_def td by simp
qed

lemma digits_split:
  obtains ds ts where "rest = ds @ ts" "\<forall>c \<in> set ds. is_ascii_digit c"
    "ts = [] \<or> \<not> is_ascii_digit (hd ts)"
proof (rule that [of "takeWhile is_ascii_digit rest" "dropWhile is_ascii_digit rest"])
  show "\<forall>c \<in> set (takeWhile is_ascii_digit rest). is_ascii_digit c"
    by (auto dest: set_takeWhileD)
  show "dropWhile is_ascii_digit rest = [] \<or> \<not> is_ascii_digit (hd (dropWhile is_ascii_digit rest))"
    using hd_dropWhile by blast
qed simp

lemma eol_verdict_Confirmed:
  "eol_verdict ds ts = LConfirmed code n \<Longrightarrow>
    \<exists>eol ts'. ts = eol @ ts' \<and> (eol = [CHR 0x0A] \<or> eol = [CHR 0x0D, CHR 0x0A])
      \<and> code = exit_code_of ds \<and> n = 1 + length ds + length eol"
proof (induction ds ts rule: eol_verdict.induct)
  case (2 ds t ts)
  then consider "t = CHR 0x0A" "code = exit_code_of ds" "n = 1 + length ds + 1"
    | u where "t = CHR 0x0D" "ts = CHR 0x0A # u" "code = exit_code_of ds" "n = 1 + length ds + 2"
    by (auto split: if_splits list.splits)
  then show ?case
  proof cases
    case 1
    then have "t # ts = [CHR 0x0A] @ ts \<and> n = 1 + length ds + length [CHR 0x0A]" by simp
    with 1 show ?thesis by blast
  next
    case (2 u)
    then have "t # ts = [CHR 0x0D, CHR 0x0A] @ u \<and> n = 1 + length ds + length [CHR 0x0D, CHR 0x0A]"
      by simp
    with 2 show ?thesis by blast
  qed
qed simp

lemma eol_verdict_stable:
  "eol_verdict ds ts \<noteq> LIncomplete \<Longrightarrow> eol_verdict ds (ts @ ext) = eol_verdict ds ts"
  by (cases "(ds, ts)" rule: eol_verdict.cases) (auto split: list.splits)

lemma eol_verdict_Incomplete:
  "eol_verdict ds ts = LIncomplete \<Longrightarrow> ts = [] \<or> ts = [CHR 0x0D]"
  by (cases "(ds, ts)" rule: eol_verdict.cases) (auto split: list.splits if_splits)

lemma lookahead_Confirmed:
  assumes "lookahead_sentinel aft = LConfirmed code n"
  shows "\<exists>ds eol ts. sentinel_tail ds eol \<and> aft = '':'' @ ds @ eol @ ts \<and> code = exit_code_of ds
      \<and> n = 1 + length ds + length eol"
proof (cases aft)
  case Nil
  with assms show ?thesis by (simp add: lookahead_sentinel_def)
next
  case (Cons c rest)
  obtain ds ts where rest: "rest = ds @ ts" "\<forall>c \<in> set ds. is_ascii_digit c"
    "ts = [] \<or> \<not> is_ascii_digit (hd ts)" by (rule digits_split)
  have c: "c = CHR '':''" using assms Cons lookahead_other by fastforce
  with assms Cons rest have "ds \<noteq> []" "eol_verdict ds ts = LConfirmed code n"
    using lookahead_colon [OF rest(2,3)] by (auto split: if_splits)
  with eol_verdict_Confirmed [OF this(2)] Cons c rest show ?thesis
    by (auto simp: sentinel_tail_def list_all_iff)
qed

lemma lookahead_real:
  assumes "sentinel_tail ds eol"
  shows "lookahead_sentinel ('':'' @ ds @ eol @ post)
    = LConfirmed (exit_code_of ds) (1 + length ds + length eol)"
proof -
  have ds: "ds \<noteq> []" "\<forall>c \<in> set ds. is_ascii_digit c" "\<not> is_ascii_digit (hd (eol @ post))"
    using assms not_digit_eol by (auto simp: sentinel_tail_def list_all_iff)
  then have "lookahead_sentinel (CHR '':'' # ds @ eol @ post) = eol_verdict ds (eol @ post)"
    by (subst lookahead_colon) auto
  also have "\<dots> = LConfirmed (exit_code_of ds) (1 + length ds + length eol)"
    using assms by (auto simp: sentinel_tail_def)
  finally show ?thesis by simp
qed

text \<open>A verdict on a part of the stream stays the same when more bytes arrive.\<close>

lemma lookahead_stable:
  assumes "lookahead_sentinel aft \<noteq> LIncomplete"
  shows "lookahead_sentinel (aft @ ext) = lookahead_sentinel aft"
proof (cases aft)
  case Nil
  with assms show ?thesis by (simp add: lookahead_sentinel_def)
next
  case (Cons c rest)
  obtain ds ts where rest: "rest = ds @ ts" "\<forall>c \<in> set ds. is_ascii_digit c"
    "ts = [] \<or> \<not> is_ascii_digit (hd ts)" by (rule digits_split)
  show ?thesis
  proof (cases "c = CHR '':''")
    case False
    with Cons show ?thesis by (simp add: lookahead_other)
  next
    case True
    with assms Cons rest lookahead_colon [OF rest(2,3)] have "ts \<noteq> []"
      by (auto split: if_splits)
    with rest(3) have "\<not> is_ascii_digit (hd (ts @ ext))" by auto
    with True Cons rest lookahead_colon [OF rest(2,3)] lookahead_colon [OF rest(2), of "ts @ ext"] assms
    show ?thesis using \<open>ts \<noteq> []\<close> eol_verdict_stable [of ds ts ext] by (auto split: if_splits)
  qed
qed

lemma lookahead_Incomplete_no_newline:
  assumes "lookahead_sentinel aft = LIncomplete"
  shows "CHR 0x0A \<notin> set aft"
proof (cases aft)
  case (Cons c rest)
  obtain ds ts where rest: "rest = ds @ ts" "\<forall>c \<in> set ds. is_ascii_digit c"
    "ts = [] \<or> \<not> is_ascii_digit (hd ts)" by (rule digits_split)
  have c: "c = CHR '':''" using assms Cons lookahead_other by fastforce
  with assms Cons rest lookahead_colon [OF rest(2,3)] have "ts = [] \<or> ts = [CHR 0x0D]"
    by (auto split: if_splits dest: eol_verdict_Incomplete)
  moreover have "CHR 0x0A \<notin> set ds" using not_digit_eol rest(2) by blast
  ultimately show ?thesis using Cons c rest by auto
qed simp

section \<open>Occurrences\<close>

definition occurs_at :: "string \<Rightarrow> string \<Rightarrow> nat \<Rightarrow> bool" where
  "occurs_at m s p \<longleftrightarrow> take (length m) (drop p s) = m \<and> p + length m \<le> length s"

lemma occurs_at_iff: "occurs_at m s p \<longleftrightarrow> (\<exists>a b. s = a @ m @ b \<and> length a = p)"
proof
  assume o: "occurs_at m s p"
  then have "drop p s = m @ drop (length m) (drop p s)"
    by (metis append_take_drop_id occurs_at_def)
  then have "s = take p s @ m @ drop (length m) (drop p s)"
    by (metis append_take_drop_id)
  with o show "\<exists>a b. s = a @ m @ b \<and> length a = p"
    by (intro exI [of _ "take p s"] exI [of _ "drop (length m) (drop p s)"])
      (auto simp: occurs_at_def)
qed (auto simp: occurs_at_def)

lemma occurs_at_drop: "m \<noteq> [] \<Longrightarrow> occurs_at m (drop k s) p \<longleftrightarrow> occurs_at m s (k + p)"
  by (cases m) (auto simp: occurs_at_def add.commute)

lemma occurs_at_prefix: "occurs_at m a p \<Longrightarrow> occurs_at m (a @ b) p"
  by (auto simp: occurs_at_def)

lemma find_subslice_least:
  assumes "m \<noteq> []"
  shows "find_subslice s m = Some i \<longleftrightarrow> occurs_at m s i \<and> (\<forall>j < i. \<not> occurs_at m s j)"
    and "find_subslice s m = None \<longleftrightarrow> (\<forall>j. \<not> occurs_at m s j)"
proof -
  have none: "(\<forall>j. \<not> occurs_at m s j)" if "find_subslice s m = None"
  proof (cases "length m > length s")
    case True
    then show ?thesis by (auto simp: occurs_at_def)
  next
    case False
    with that assms have "find_sub m s = None" by (simp add: find_subslice_def)
    then show ?thesis by (auto simp: occurs_at_iff dest: find_sub_None)
  qed
  have some: "occurs_at m s i \<and> (\<forall>j < i. \<not> occurs_at m s j)" if "find_subslice s m = Some i" for i
  proof -
    have f: "find_sub m s = Some i" using that by (auto simp: find_subslice_def split: if_splits)
    then have "occurs_at m s i" using find_sub_Some [of m s i] by (auto simp: occurs_at_iff)
    moreover have "\<not> occurs_at m s j" if "j < i" for j
      using find_sub_least [OF f] that by (fastforce simp: occurs_at_iff)
    ultimately show ?thesis by blast
  qed
  show "find_subslice s m = None \<longleftrightarrow> (\<forall>j. \<not> occurs_at m s j)"
    using none some by (cases "find_subslice s m") auto
  show "find_subslice s m = Some i \<longleftrightarrow> occurs_at m s i \<and> (\<forall>j < i. \<not> occurs_at m s j)"
    using none some by (cases "find_subslice s m") (auto, metis linorder_neqE_nat)
qed

section \<open>One scan of the buffer\<close>

abbreviation verdict :: "string \<Rightarrow> string \<Rightarrow> nat \<Rightarrow> lookahead" where
  "verdict m s p \<equiv> lookahead_sentinel (drop (p + length m) s)"

lemma loop_unfold:
  assumes "m \<noteq> []" "occurs_at m buf pos" "start \<le> pos" "\<forall>j. start \<le> j \<and> j < pos \<longrightarrow> \<not> occurs_at m buf j"
  shows "find_sentinel_loop buf m start =
    (case verdict m buf pos of
       LConfirmed code n \<Rightarrow> Confirmed pos code (pos + length m + n)
     | LIncomplete \<Rightarrow> Incomplete pos
     | LMismatch \<Rightarrow> find_sentinel_loop buf m (pos + length m))"
proof -
  have "find_subslice (drop start buf) m = Some (pos - start)"
    using assms by (auto simp: find_subslice_least occurs_at_drop)
  with assms(3) show ?thesis
    by (subst find_sentinel_loop.simps) (simp add: Let_def)
qed

lemma loop_none: "m \<noteq> [] \<Longrightarrow> \<forall>j \<ge> start. \<not> occurs_at m buf j \<Longrightarrow> find_sentinel_loop buf m start = NotFound"
  using find_subslice_least(2) [of m "drop start buf"]
  by (subst find_sentinel_loop.simps) (simp add: occurs_at_drop)

lemma first_occurrence:
  assumes "occurs_at m buf r" "start \<le> r"
  obtains pos where "occurs_at m buf pos" "start \<le> pos" "pos \<le> r"
    "\<forall>j. start \<le> j \<and> j < pos \<longrightarrow> \<not> occurs_at m buf j"
proof -
  let ?P = "\<lambda>j. start \<le> j \<and> occurs_at m buf j"
  have "?P (LEAST j. ?P j)" using assms by (intro LeastI [of ?P r]) simp
  moreover have "(LEAST j. ?P j) \<le> r" using assms by (intro Least_le) simp
  ultimately show thesis using that [of "LEAST j. ?P j"] not_less_Least [of _ ?P] by blast
qed

text \<open>What a scan that starts at \<^verbatim>\<open>from\<close> can answer when a real sentinel candidate is at
  \<^verbatim>\<open>r\<close>: nothing before it is confirmed, and occurrences up to it do not overlap.\<close>

lemma loop_up_to:
  assumes "m \<noteq> []" "occurs_at m buf r" "start \<le> r" "verdict m buf r \<noteq> LMismatch"
    and "\<forall>p. occurs_at m buf p \<and> p < r \<longrightarrow> p + length m \<le> r"
    and "\<forall>p. occurs_at m buf p \<and> p < r \<longrightarrow> \<not> is_LConfirmed (verdict m buf p)"
  shows "(\<exists>pos \<le> r. find_sentinel_loop buf m start = Incomplete pos \<and> verdict m buf pos = LIncomplete
        \<and> occurs_at m buf pos)
    \<or> (\<exists>code n. verdict m buf r = LConfirmed code n
        \<and> find_sentinel_loop buf m start = Confirmed r code (r + length m + n))"
  using assms(3)
proof (induction "r - start" arbitrary: start rule: less_induct)
  case less
  obtain pos where pos: "occurs_at m buf pos" "start \<le> pos" "pos \<le> r"
    "\<forall>j. start \<le> j \<and> j < pos \<longrightarrow> \<not> occurs_at m buf j"
    using first_occurrence [OF assms(2) less.prems] .
  note unfold = loop_unfold [OF assms(1) pos(1,2,4)]
  show ?case
  proof (cases "pos = r")
    case True
    then show ?thesis using unfold assms(2,4) by (cases "verdict m buf r") auto
  next
    case False
    with pos have lt: "pos < r" by simp
    show ?thesis
    proof (cases "verdict m buf pos")
      case (LConfirmed code n)
      with assms(6) pos(1) lt show ?thesis by auto
    next
      case LIncomplete
      then have "find_sentinel_loop buf m start = Incomplete pos" using unfold by simp
      with LIncomplete pos(1,3) show ?thesis by blast
    next
      case LMismatch
      have "pos + length m \<le> r" using assms(5) pos(1) lt by blast
      moreover have "r - (pos + length m) < r - start"
        using pos(2) lt assms(1) by (cases m) auto
      ultimately show ?thesis using less.hyps LMismatch unfold by simp
    qed
  qed
qed

lemma loop_none_confirmed:
  assumes "m \<noteq> []" "\<forall>p. occurs_at m buf p \<longrightarrow> \<not> is_LConfirmed (verdict m buf p)"
  shows "find_sentinel_loop buf m start = NotFound
    \<or> (\<exists>pos. occurs_at m buf pos \<and> find_sentinel_loop buf m start = Incomplete pos)"
proof (induction "length buf - start" arbitrary: start rule: less_induct)
  case less
  show ?case
  proof (cases "\<exists>j \<ge> start. occurs_at m buf j")
    case False
    then show ?thesis using loop_none [OF assms(1)] by blast
  next
    case True
    then obtain r where r: "start \<le> r" "occurs_at m buf r" by blast
    obtain pos where pos: "occurs_at m buf pos" "start \<le> pos" "pos \<le> r"
      "\<forall>j. start \<le> j \<and> j < pos \<longrightarrow> \<not> occurs_at m buf j"
      using first_occurrence [OF r(2,1)] .
    note unfold = loop_unfold [OF assms(1) pos(1,2,4)]
    show ?thesis
    proof (cases "verdict m buf pos")
      case (LConfirmed code n)
      with assms(2) pos(1) show ?thesis by auto
    next
      case LIncomplete
      then show ?thesis using unfold pos(1) by auto
    next
      case LMismatch
      have "pos + length m \<le> length buf" using pos(1) by (simp add: occurs_at_def)
      then have "length buf - (pos + length m) < length buf - start"
        using pos(2) assms(1) by (cases m) auto
      then show ?thesis using less LMismatch unfold by simp
    qed
  qed
qed

text \<open>What a confirmed scan says of the buffer, without any assumption on it.\<close>

lemma loop_sound:
  assumes "m \<noteq> []" "find_sentinel_loop buf m start = Confirmed pos code e"
  shows "occurs_at m buf pos \<and> (\<exists>n. verdict m buf pos = LConfirmed code n \<and> e = pos + length m + n)"
  using assms(2)
proof (induction "length buf - start" arbitrary: start rule: less_induct)
  case less
  show ?case
  proof (cases "\<exists>j \<ge> start. occurs_at m buf j")
    case False
    then show ?thesis using loop_none [OF assms(1)] less.prems by auto
  next
    case True
    then obtain r where r: "start \<le> r" "occurs_at m buf r" by blast
    obtain pos' where pos: "occurs_at m buf pos'" "start \<le> pos'" "pos' \<le> r"
      "\<forall>j. start \<le> j \<and> j < pos' \<longrightarrow> \<not> occurs_at m buf j"
      using first_occurrence [OF r(2,1)] .
    note unfold = loop_unfold [OF assms(1) pos(1,2,4)]
    show ?thesis
    proof (cases "verdict m buf pos'")
      case (LConfirmed c n)
      then show ?thesis using unfold less.prems pos(1) by auto
    next
      case LIncomplete
      then show ?thesis using unfold less.prems by auto
    next
      case LMismatch
      have "pos' + length m \<le> length buf" using pos(1) by (simp add: occurs_at_def)
      then have "length buf - (pos' + length m) < length buf - start"
        using pos(2) assms(1) by (cases m) auto
      then show ?thesis using less LMismatch unfold by simp
    qed
  qed
qed

section \<open>Feeding the scanner\<close>

lemma longest_suffix_match_le: "longest_suffix_match n buf m \<le> n"
  by (induction n buf m rule: longest_suffix_match.induct) auto

lemma partial_suffix_match_le: "partial_suffix_match buf m \<le> length buf"
  using longest_suffix_match_le [of "min (length buf) (length m - 1)" buf m]
  by (auto simp: partial_suffix_match_def)

lemma longest_suffix_match_ge:
  "k \<le> n \<Longrightarrow> drop (length buf - k) buf = take k m \<Longrightarrow> k \<le> longest_suffix_match n buf m"
  by (induction n) (auto simp: le_Suc_eq)

lemma partial_suffix_match_ge:
  "k < length m \<Longrightarrow> k \<le> length buf \<Longrightarrow> drop (length buf - k) buf = take k m \<Longrightarrow>
    k \<le> partial_suffix_match buf m"
  by (cases "k = 0") (auto simp: partial_suffix_match_def intro!: longest_suffix_match_ge)

lemma scanner_feed_more:
  assumes "scanner_feed s c = (s', fwd, False)"
  shows "\<not> finished s \<and> \<not> finished s' \<and> marker s' = marker s \<and> fwd @ hold s' = hold s @ c"
  using assms
  by (auto simp: scanner_feed_def Let_def simp del: take_append drop_append
      split: if_splits sentinel_find.splits)

lemma scanner_feed_fin:
  assumes "scanner_feed s c = (s', fwd, True)" "\<not> finished s" "marker s \<noteq> []"
  shows "finished s' \<and> (\<exists>ds eol. sentinel_tail ds eol \<and> exit_code s' = exit_code_of ds
    \<and> hold s @ c = fwd @ marker s @ '':'' @ ds @ eol @ leftover s')"
proof -
  define h where "h = hold s @ c"
  from assms obtain pos code e where f: "find_sentinel_loop h (marker s) 0 = Confirmed pos code e"
    "s' = s\<lparr>leftover := drop e h, hold := [], exit_code := code, finished := True\<rparr>" "fwd = take pos h"
    unfolding scanner_feed_def find_sentinel_def h_def [symmetric]
    by (cases "find_sentinel_loop h (marker s) 0") (auto simp: Let_def)
  from loop_sound [OF assms(3) f(1)] obtain n where n: "occurs_at (marker s) h pos"
    "verdict (marker s) h pos = LConfirmed code n" "e = pos + length (marker s) + n" by blast
  from lookahead_Confirmed [OF n(2)] obtain ds eol ts where t: "sentinel_tail ds eol"
    "drop (pos + length (marker s)) h = '':'' @ ds @ eol @ ts" "code = exit_code_of ds"
    "n = 1 + length ds + length eol" by blast
  have "drop e h = drop n (drop (pos + length (marker s)) h)"
    by (simp only: n(3) drop_drop add.commute)
  also have "\<dots> = ts" by (simp only: t(2,4)) simp
  finally have ts: "drop e h = ts" .
  have "h = take pos h @ take (length (marker s)) (drop pos h) @ drop (pos + length (marker s)) h"
    by (metis add.commute append_take_drop_id drop_drop)
  then have "h = fwd @ marker s @ '':'' @ ds @ eol @ leftover s'"
    using n(1) ts f(2,3) unfolding t(2) by (simp add: occurs_at_def)
  moreover have "finished s'" "exit_code s' = exit_code_of ds" using f(2) t(3) by simp_all
  ultimately show ?thesis using t(1) unfolding h_def [symmetric] by blast
qed

lemma scan_chunks_sound:
  assumes "scan_chunks s cs = (s', out, rest)" "\<not> finished s" "marker s \<noteq> []"
  shows "if finished s'
    then \<exists>ds eol. sentinel_tail ds eol \<and> exit_code s' = exit_code_of ds
      \<and> hold s @ concat cs = out @ marker s @ '':'' @ ds @ eol @ leftover s' @ concat rest
    else rest = [] \<and> hold s @ concat cs = out @ hold s'"
  using assms
proof (induction cs arbitrary: s out)
  case (Cons c cs)
  obtain s1 fwd fin where f: "scanner_feed s c = (s1, fwd, fin)" by (cases "scanner_feed s c") auto
  show ?case
  proof (cases fin)
    case True
    with Cons.prems f have "s' = s1" "out = fwd" "rest = cs" by auto
    with scanner_feed_fin [OF f [unfolded eqTrueI [OF True]] Cons.prems(2,3)] show ?thesis by fastforce
  next
    case False
    with f have sf: "scanner_feed s c = (s1, fwd, False)" by simp
    obtain out' where o: "scan_chunks s1 cs = (s', out', rest)" "out = fwd @ out'"
      using Cons.prems(1) sf by (auto split: prod.splits)
    note step = scanner_feed_more [OF sf]
    have "\<not> finished s1" "marker s1 \<noteq> []" "marker s1 = marker s" using step Cons.prems(3) by auto
    from Cons.IH [OF o(1) this(1,2), unfolded this(3)] have "if finished s'
      then \<exists>ds eol. sentinel_tail ds eol \<and> exit_code s' = exit_code_of ds
        \<and> hold s1 @ concat cs = out' @ marker s @ '':'' @ ds @ eol @ leftover s' @ concat rest
      else rest = [] \<and> hold s1 @ concat cs = out' @ hold s'" .
    moreover have conc: "hold s @ concat (c # cs) = fwd @ (hold s1 @ concat cs)"
      using step by simp
    ultimately show ?thesis unfolding conc o(2) by (auto split: if_splits)
  qed
qed simp

section \<open>Finding the real sentinel\<close>

text \<open>The sentinel of the stream \<^verbatim>\<open>S\<close> is at \<^verbatim>\<open>r\<close>: an occurrence of the marker that is confirmed,
  and every earlier occurrence ends before it and is a false one.\<close>

definition sentinel_at :: "string \<Rightarrow> string \<Rightarrow> nat \<Rightarrow> bool" where
  "sentinel_at m S r \<longleftrightarrow>
    occurs_at m S r \<and> is_LConfirmed (verdict m S r)
    \<and> list_all (\<lambda>p. occurs_at m S p \<longrightarrow> p + length m \<le> r \<and> verdict m S p = LMismatch) [0..<r]"

lemma sentinel_atD:
  assumes "sentinel_at m S r"
  shows "occurs_at m S r" "is_LConfirmed (verdict m S r)"
    and "\<And>p. p < r \<Longrightarrow> occurs_at m S p \<Longrightarrow> p + length m \<le> r"
    and "\<And>p. p < r \<Longrightarrow> occurs_at m S p \<Longrightarrow> verdict m S p = LMismatch"
  using assms by (auto simp: sentinel_at_def list_all_iff)

text \<open>The stream, cut into what was forwarded, the buffer and what is still to come.\<close>

definition split_stream :: "string \<Rightarrow> string \<Rightarrow> string \<Rightarrow> string \<Rightarrow> string \<Rightarrow> nat \<Rightarrow> bool" where
  "split_stream m S fwd h rest r \<longleftrightarrow>
    m \<noteq> [] \<and> S = fwd @ h @ rest \<and> length fwd \<le> r \<and> sentinel_at m S r"

lemma split_streamD:
  assumes "split_stream m S fwd h rest r"
  shows "m \<noteq> []" "S = fwd @ h @ rest" "length fwd \<le> r" "sentinel_at m S r"
  using assms by (auto simp: split_stream_def)

lemma occurs_in_stream:
  assumes ss: "split_stream m S fwd h rest r" and "occurs_at m h p"
  shows "occurs_at m S (length fwd + p)"
proof -
  note m = split_streamD(1) [OF ss] and S = split_streamD(2) [OF ss]
    and r = split_streamD(3) [OF ss] and real = split_streamD(4) [OF ss]
  from assms obtain a b where "h = a @ m @ b" "length a = p" by (auto simp: occurs_at_iff)
  then have "S = (fwd @ a) @ m @ (b @ rest)" "length (fwd @ a) = length fwd + p"
    by (simp_all add: S)
  then show ?thesis unfolding occurs_at_iff by blast
qed

lemma verdict_in_stream:
  assumes ss: "split_stream m S fwd h rest r" and "occurs_at m h p" "verdict m h p \<noteq> LIncomplete"
  shows "verdict m S (length fwd + p) = verdict m h p"
proof -
  note m = split_streamD(1) [OF ss] and S = split_streamD(2) [OF ss]
    and r = split_streamD(3) [OF ss] and real = split_streamD(4) [OF ss]
  have "drop (length fwd + p + length m) S = drop (p + length m) h @ rest"
    using assms(2) by (simp add: S occurs_at_def)
  with assms(3) show ?thesis by (simp add: lookahead_stable)
qed

lemma not_confirmed_before:
  assumes ss: "split_stream m S fwd h rest r" and "occurs_at m h p" "length fwd + p < r"
  shows "\<not> is_LConfirmed (verdict m h p)"
proof
  note real = split_streamD(4) [OF ss]
  assume "is_LConfirmed (verdict m h p)"
  then have "verdict m h p \<noteq> LIncomplete" by auto
  with verdict_in_stream [OF ss assms(2)] have "verdict m S (length fwd + p) = verdict m h p" by simp
  with sentinel_atD(4) [OF real assms(3) occurs_in_stream [OF ss assms(2)]]
    \<open>is_LConfirmed (verdict m h p)\<close> show False by auto
qed

lemma sentinel_in_buffer:
  assumes ss: "split_stream m S fwd h rest r" and "r + length m \<le> length (fwd @ h)"
  shows "occurs_at m h (r - length fwd)" "verdict m h (r - length fwd) \<noteq> LMismatch"
proof -
  note m = split_streamD(1) [OF ss] and S = split_streamD(2) [OF ss]
    and r = split_streamD(3) [OF ss] and real = split_streamD(4) [OF ss]
  have "take (length m) (drop r S) = m" using sentinel_atD(1) [OF real] by (simp add: occurs_at_def)
  moreover have "take (length m) (drop r S) = take (length m) (drop (r - length fwd) h)"
    using assms r by (simp add: S)
  ultimately show o: "occurs_at m h (r - length fwd)"
    using assms r by (simp add: occurs_at_def)
  show "verdict m h (r - length fwd) \<noteq> LMismatch"
    using verdict_in_stream [OF ss o] sentinel_atD(2) [OF real] r by auto
qed

text \<open>The scan of the buffer, in the three ways the real sentinel can lie to it.\<close>

lemma scan_with_sentinel:
  assumes ss: "split_stream m S fwd h rest r" and "r + length m \<le> length (fwd @ h)"
  shows "(\<exists>pos \<le> r - length fwd. find_sentinel h m = Incomplete pos \<and> rest \<noteq> [])
    \<or> (\<exists>n. find_sentinel h m
        = Confirmed (r - length fwd) (l_code (verdict m S r)) (r - length fwd + length m + n))"
proof -
  note m = split_streamD(1) [OF ss] and S = split_streamD(2) [OF ss]
    and r = split_streamD(3) [OF ss] and real = split_streamD(4) [OF ss]
  let ?r = "r - length fwd"
  note buf = sentinel_in_buffer [OF ss assms(2)]
  have before: "p + length m \<le> ?r" if "occurs_at m h p" "p < ?r" for p
  proof -
    have "length fwd + p < r" using that(2) by linarith
    from sentinel_atD(3) [OF real this occurs_in_stream [OF ss that(1)]] r show ?thesis by linarith
  qed
  have unconfirmed: "\<not> is_LConfirmed (verdict m h p)" if "occurs_at m h p" "p < ?r" for p
    using not_confirmed_before [OF ss that(1)] that(2) by auto
  from loop_up_to [OF m buf(1) _ buf(2), of 0] before unconfirmed
  consider pos where "pos \<le> ?r" "find_sentinel_loop h m 0 = Incomplete pos"
      "verdict m h pos = LIncomplete" "occurs_at m h pos"
    | code n where "verdict m h ?r = LConfirmed code n"
      "find_sentinel_loop h m 0 = Confirmed ?r code (?r + length m + n)" by blast
  then show ?thesis
  proof cases
    case 1
    have "rest \<noteq> []"
    proof
      assume "rest = []"
      then have v: "verdict m S (length fwd + pos) = LIncomplete" using 1(3) by (simp add: S)
      show False
      proof (cases "pos = ?r")
        case True
        with v sentinel_atD(2) [OF real] r show False by simp
      next
        case False
        with 1(1) have "length fwd + pos < r" by simp
        from sentinel_atD(4) [OF real this occurs_in_stream [OF ss 1(4)]] v show False by simp
      qed
    qed
    with 1 m show ?thesis by (auto simp: find_sentinel_def)
  next
    case 2
    then have "verdict m S r = LConfirmed code n"
      using verdict_in_stream [OF ss buf(1)] r by simp
    with 2 m show ?thesis by (auto simp: find_sentinel_def)
  qed
qed

lemma scan_without_sentinel:
  assumes ss: "split_stream m S fwd h rest r" and "length (fwd @ h) < r + length m"
  shows "rest \<noteq> [] \<and> ((\<exists>pos. find_sentinel h m = Incomplete pos \<and> length fwd + pos \<le> r)
    \<or> find_sentinel h m = NotFound \<and> length fwd + (length h - partial_suffix_match h m) \<le> r)"
proof -
  note m = split_streamD(1) [OF ss] and S = split_streamD(2) [OF ss]
    and r = split_streamD(3) [OF ss] and real = split_streamD(4) [OF ss]
  have "r + length m \<le> length S" using sentinel_atD(1) [OF real] by (simp add: occurs_at_def)
  with assms have ne: "rest \<noteq> []" by (auto simp: S)
  have early: "length fwd + p < r" if "occurs_at m h p" for p
    using that assms by (simp add: occurs_at_def)
  from loop_none_confirmed [OF m] not_confirmed_before [OF ss] early
  consider "find_sentinel_loop h m 0 = NotFound"
    | pos where "occurs_at m h pos" "find_sentinel_loop h m 0 = Incomplete pos" by blast
  then show ?thesis
  proof cases
    case 1
    have "length fwd + (length h - partial_suffix_match h m) \<le> r"
    proof (cases "length (fwd @ h) \<le> r")
      case True
      then show ?thesis by simp
    next
      case False
      define q where "q = length (fwd @ h) - r"
      have q: "q < length m" "q \<le> length h" "length h - q = r - length fwd"
        using assms r False by (auto simp: q_def)
      have "take q m = take q (take (length m) (drop r S))"
        using sentinel_atD(1) [OF real] by (simp add: occurs_at_def)
      also have "\<dots> = drop (r - length fwd) h"
        using q(1) r False by (simp add: S q_def min_def)
      finally have "drop (length h - q) h = take q m" using q(3) by simp
      from partial_suffix_match_ge [OF q(1,2) this] show ?thesis using q(3) r by linarith
    qed
    with 1 ne m show ?thesis by (simp add: find_sentinel_def)
  next
    case 2
    with early [OF 2(1)] ne m show ?thesis by (auto simp: find_sentinel_def)
  qed
qed

lemma scanner_feed_step:
  assumes "split_stream (marker s) S fwd (hold s @ c) rest r" "\<not> finished s"
    and "scanner_feed s c = (s', f, fin)"
  shows "if fin then fwd @ f = take r S \<and> exit_code s' = l_code (verdict (marker s) S r)
    else \<not> finished s' \<and> marker s' = marker s \<and> length (fwd @ f) \<le> r \<and> rest \<noteq> []"
proof -
  define h where "h = hold s @ c"
  note ss = assms(1) [folded h_def]
  note S = split_streamD(2) [OF ss] and r = split_streamD(3) [OF ss]
  have feed: "(case find_sentinel h (marker s) of
          Confirmed pos code e \<Rightarrow>
            (s\<lparr>leftover := drop e h, hold := [], exit_code := code, finished := True\<rparr>, take pos h, True)
        | Incomplete pos \<Rightarrow> (s\<lparr>hold := drop pos h\<rparr>, take pos h, False)
        | NotFound \<Rightarrow>
            (s\<lparr>hold := drop (length h - partial_suffix_match h (marker s)) h\<rparr>,
             take (length h - partial_suffix_match h (marker s)) h, False)) = (s', f, fin)"
    using assms(2,3) unfolding scanner_feed_def h_def [symmetric]
    by (cases "find_sentinel h (marker s)") (simp_all add: Let_def)
  show ?thesis
  proof (cases "r + length (marker s) \<le> length (fwd @ h)")
    case True
    from scan_with_sentinel [OF ss True] consider
        pos where "pos \<le> r - length fwd" "find_sentinel h (marker s) = Incomplete pos" "rest \<noteq> []"
      | n where "find_sentinel h (marker s)
          = Confirmed (r - length fwd) (l_code (verdict (marker s) S r)) (r - length fwd + length (marker s) + n)"
      by blast
    then show ?thesis
    proof cases
      case 1
      with feed assms(2) r show ?thesis by auto
    next
      case 2
      have "fwd @ take (r - length fwd) h = take r S"
        using True r by (simp add: S)
      with 2 feed show ?thesis by auto
    qed
  next
    case False
    with scan_without_sentinel [OF ss] feed assms(2) show ?thesis by auto
  qed
qed

lemma scan_chunks_complete:
  assumes "m \<noteq> []" "sentinel_at m S r"
  shows "\<lbrakk>\<not> finished s; marker s = m; fwd @ hold s @ concat cs = S; length fwd \<le> r; cs \<noteq> []\<rbrakk> \<Longrightarrow>
    \<exists>s' out rest. scan_chunks s cs = (s', out, rest) \<and> finished s' \<and> fwd @ out = take r S
      \<and> exit_code s' = l_code (verdict m S r)"
proof (induction cs arbitrary: s fwd)
  case (Cons c cs)
  obtain s1 f fin where f: "scanner_feed s c = (s1, f, fin)" by (cases "scanner_feed s c") auto
  have "split_stream (marker s) S fwd (hold s @ c) (concat cs) r"
    using assms Cons.prems by (simp add: split_stream_def)
  note step = scanner_feed_step [OF this Cons.prems(1) f]
  show ?case
  proof (cases fin)
    case True
    with f have sf: "scanner_feed s c = (s1, f, True)" by simp
    have "finished s1" using scanner_feed_fin [OF sf Cons.prems(1)] assms(1) Cons.prems(2) by simp
    with True sf step Cons.prems(2) show ?thesis by auto
  next
    case False
    with f have sf: "scanner_feed s c = (s1, f, False)" by simp
    have "f @ hold s1 = hold s @ c" using scanner_feed_more [OF sf] by simp
    then have "(fwd @ f) @ hold s1 @ concat cs = S"
      using Cons.prems(3) by (metis append.assoc concat.simps(2))
    moreover have "\<not> finished s1" "marker s1 = m" "length (fwd @ f) \<le> r" "cs \<noteq> []"
      using step False Cons.prems(2) by auto
    ultimately obtain s' out rest where "scan_chunks s1 cs = (s', out, rest)" "finished s'"
      "(fwd @ f) @ out = take r S" "exit_code s' = l_code (verdict m S r)"
      using Cons.IH [of s1 "fwd @ f"] by blast
    with sf show ?thesis by auto
  qed
qed simp

lemma scan_chunks_finds:
  assumes "m \<noteq> []" "sentinel_tail ds eol" "concat cs = pre @ m @ '':'' @ ds @ eol @ post"
    and "list_all (\<lambda>p. occurs_at m (concat cs) p \<longrightarrow>
        p + length m \<le> length pre \<and> verdict m (concat cs) p = LMismatch) [0..<length pre]"
  shows "\<exists>s rest. scan_chunks (scanner_new m) cs = (s, pre, rest) \<and> finished s
    \<and> exit_code s = exit_code_of ds \<and> leftover s @ concat rest = post"
proof -
  have v: "verdict m (concat cs) (length pre) = LConfirmed (exit_code_of ds) (1 + length ds + length eol)"
    using lookahead_real [OF assms(2), of post] by (simp add: assms(3))
  moreover have "occurs_at m (concat cs) (length pre)" by (simp add: occurs_at_def assms(3))
  ultimately have at: "sentinel_at m (concat cs) (length pre)"
    using assms(4) by (simp add: sentinel_at_def)
  have "cs \<noteq> []" using assms(1,3) by auto
  with scan_chunks_complete [OF assms(1) at, of "scanner_new m" "[]" cs] v obtain s rest where
    s: "scan_chunks (scanner_new m) cs = (s, pre, rest)" "finished s" "exit_code s = exit_code_of ds"
    by (auto simp: scanner_new_def assms(3))
  from scan_chunks_sound [OF s(1)] s(2) assms(1) obtain ds' eol' where
    t: "sentinel_tail ds' eol'" "concat cs = pre @ m @ '':'' @ ds' @ eol' @ leftover s @ concat rest"
    by (auto simp: scanner_new_def)
  then have eq: "'':'' @ ds' @ eol' @ (leftover s @ concat rest) = '':'' @ ds @ eol @ post"
    using assms(3) by simp
  with lookahead_real [OF t(1), of "leftover s @ concat rest"] lookahead_real [OF assms(2), of post]
  have "length (ds' @ eol') = length (ds @ eol)" by simp
  with eq have "leftover s @ concat rest = post" by (metis append.assoc append_eq_append_conv)
  with s show ?thesis by blast
qed

section \<open>Properties\<close>

text \<open>Nothing is lost and nothing is invented, for every marker, every stream and every
  chunking: as long as no sentinel was found, what was forwarded and what is held back is
  the stream; when one was found, the stream is what was forwarded, the marker with a
  colon, digits and a line end, the leftover and the chunks not yet read, and the exit code
  is that of the digits.\<close>

theorem scanner_conserves_stream:
  assumes "m \<noteq> []" "scan_chunks (scanner_new m) cs = (s, out, rest)"
  shows "if finished s
    then \<exists>ds eol. sentinel_tail ds eol \<and> exit_code s = exit_code_of ds
      \<and> concat cs = out @ m @ '':'' @ ds @ eol @ leftover s @ concat rest
    else rest = [] \<and> concat cs = out @ hold s"
  using scan_chunks_sound [OF assms(2)] assms(1)
  by (cases "finished s") (simp_all add: scanner_new_def)

theorem scanner_conserves_stream_witness:
  "if finished \<lparr>marker = ''__M__'', hold = [], leftover = ''$ '', finished = True, exit_code = 7\<rparr>
    then \<exists>ds eol. sentinel_tail ds eol
      \<and> exit_code \<lparr>marker = ''__M__'', hold = [], leftover = ''$ '', finished = True, exit_code = 7\<rparr>
        = exit_code_of ds
      \<and> concat [''hi__'', ''M__:7'', [CHR 0x0D, CHR 0x0A] @ ''$ ''] = ''hi'' @ ''__M__'' @ '':'' @ ds @ eol
        @ leftover \<lparr>marker = ''__M__'', hold = [], leftover = ''$ '', finished = True, exit_code = 7\<rparr>
        @ concat []
    else [] = ([] :: string list) \<and> concat [''hi__'', ''M__:7'', [CHR 0x0D, CHR 0x0A] @ ''$ '']
      = ''hi'' @ hold \<lparr>marker = ''__M__'', hold = [], leftover = ''$ '', finished = True, exit_code = 7\<rparr>"
  by (rule scanner_conserves_stream) code_simp+

text \<open>C27. The sentinel is found under every chunking of the stream: if the marker with a colon,
  an exit code and a line end follows \<^verbatim>\<open>pre\<close>, and each earlier occurrence of the marker (such as
  the echo of the command line) ends before it and is not followed by an exit code, then
  exactly \<^verbatim>\<open>pre\<close> is forwarded, the exit code is reported, and everything behind the
  sentinel is left for the next reader.\<close>

theorem scanner_finds_sentinel:
  assumes "m \<noteq> []" "sentinel_tail ds eol" "concat cs = pre @ m @ '':'' @ ds @ eol @ post"
    and "list_all (\<lambda>p. occurs_at m (concat cs) p \<longrightarrow>
        p + length m \<le> length pre \<and> verdict m (concat cs) p = LMismatch) [0..<length pre]"
  shows "\<exists>s rest. scan_chunks (scanner_new m) cs = (s, pre, rest) \<and> finished s
    \<and> exit_code s = exit_code_of ds \<and> leftover s @ concat rest = post"
  using assms by (rule scan_chunks_finds)

theorem scanner_finds_sentinel_witness:
  "\<exists>s rest. scan_chunks (scanner_new ''__M__'') [''echo __M_'', ''_:%s; hi_'', ''_M__:'', ''42'' @ [CHR 0x0D], [CHR 0x0A]]
      = (s, ''echo __M__:%s; hi'', rest) \<and> finished s
    \<and> exit_code s = exit_code_of ''42'' \<and> leftover s @ concat rest = []"
  by (rule scanner_finds_sentinel [where eol = "[CHR 0x0D, CHR 0x0A]"]) code_simp+

end
