(* ===== verification/Token_Store.thy ===== *)
theory Token_Store
  imports Rust_Prelude
begin

text \<open>
  The bootstrap token store: \<^verbatim>\<open>src/src/daemon/token_store.rs\<close>.  Each operation of the source
  holds the write lock from its first access to its last, so a run of the daemon is a
  sequence of whole operations.  The current time is an argument of every operation that
  reads the clock, SHA-256 (in lower-case hexadecimal) and the base64url encoding of the
  random bytes are arguments as well.  The hash map is an association list with distinct
  keys, in an arbitrary order.
\<close>

section \<open>The store\<close>

record token_entry =
  prefix :: string
  hash :: string
  expires_at :: nat
  once :: bool
  consumed :: bool
  created_at :: nat
  label :: "string option"

type_synonym token_store = "(string \<times> token_entry) list"

definition PREFIX_LEN :: nat where "PREFIX_LEN = 8"

definition is_expired :: "nat \<Rightarrow> token_entry \<Rightarrow> bool" where
  "is_expired now e \<longleftrightarrow> now > expires_at e"

definition store_new :: token_store where
  "store_new = []"

definition generate ::
  "(string \<Rightarrow> string) \<Rightarrow> (string \<Rightarrow> string) \<Rightarrow> nat \<Rightarrow> string \<Rightarrow> nat \<Rightarrow> bool \<Rightarrow> string option
    \<Rightarrow> token_store \<Rightarrow> token_store \<times> string" where
  "generate hex_sha256 url_encode now bytes ttl one_time lbl m =
    (let token = url_encode bytes;
         h = hex_sha256 token;
         entry = \<lparr>prefix = take PREFIX_LEN token, hash = h, expires_at = now + ttl, once = one_time,
                  consumed = False, created_at = now, label = lbl\<rparr>
     in (al_put h entry m, token))"

definition validate :: "(string \<Rightarrow> string) \<Rightarrow> nat \<Rightarrow> string \<Rightarrow> token_store \<Rightarrow> token_store \<times> bool" where
  "validate hex_sha256 now raw m =
    (let h = hex_sha256 raw in
     case map_of m h of
       None \<Rightarrow> (m, False)
     | Some entry \<Rightarrow>
        if is_expired now entry then (al_del h m, False)
        else if once entry \<and> consumed entry then (m, False)
        else if once entry then (al_put h (entry\<lparr>consumed := True\<rparr>) m, True)
        else (m, True))"

definition invalidate :: "(string \<Rightarrow> string) \<Rightarrow> string \<Rightarrow> token_store \<Rightarrow> token_store \<times> bool" where
  "invalidate hex_sha256 token_or_prefix m =
    (let needle = trim token_or_prefix; h = hex_sha256 needle in
     if map_of m h \<noteq> None then (al_del h m, True)
     else
       (let to_remove = map fst (filter (\<lambda>(k, v). prefix v = needle) m);
            removed = to_remove \<noteq> []
        in (fold al_del to_remove m, removed)))"

definition list_tokens :: "nat \<Rightarrow> token_store \<Rightarrow> token_store \<times> token_entry list" where
  "list_tokens now m =
    (let expired = map fst (filter (\<lambda>(k, v). is_expired now v) m);
         m = fold al_del expired m
     in (m, sort_key expires_at (map snd m)))"

section \<open>Runs\<close>

datatype token_op =
    Generate nat string nat bool "string option"
  | Validate nat string
  | Invalidate string
  | List nat

datatype token_result = Token string | Accepted bool | Removed bool | Entries "token_entry list"

fun token_step ::
  "(string \<Rightarrow> string) \<Rightarrow> (string \<Rightarrow> string) \<Rightarrow> token_op \<Rightarrow> token_store \<Rightarrow> token_store \<times> token_result" where
  "token_step sha enc (Generate now bytes ttl one_time lbl) m =
    (let (m', t) = generate sha enc now bytes ttl one_time lbl m in (m', Token t))"
| "token_step sha enc (Validate now raw) m = (let (m', b) = validate sha now raw m in (m', Accepted b))"
| "token_step sha enc (Invalidate needle) m = (let (m', b) = invalidate sha needle m in (m', Removed b))"
| "token_step sha enc (List now) m = (let (m', es) = list_tokens now m in (m', Entries es))"

fun token_run ::
  "(string \<Rightarrow> string) \<Rightarrow> (string \<Rightarrow> string) \<Rightarrow> token_op list \<Rightarrow> token_store
    \<Rightarrow> token_store \<times> (token_op \<times> token_result) list" where
  "token_run sha enc [] m = (m, [])"
| "token_run sha enc (op # ops) m =
    (let (m', r) = token_step sha enc op m; (m'', rs) = token_run sha enc ops m'
     in (m'', (op, r) # rs))"

text \<open>The successful validations of tokens with a given hash in a log.\<close>

definition acceptances :: "(string \<Rightarrow> string) \<Rightarrow> string \<Rightarrow> (token_op \<times> token_result) list \<Rightarrow> nat" where
  "acceptances sha h log =
    length (filter (\<lambda>(op, r). (case op of Validate _ raw \<Rightarrow> sha raw = h | _ \<Rightarrow> False) \<and> r = Accepted True) log)"

definition generates :: "(string \<Rightarrow> string) \<Rightarrow> (string \<Rightarrow> string) \<Rightarrow> string \<Rightarrow> token_op \<Rightarrow> bool" where
  "generates sha enc h op = (case op of Generate _ bytes _ _ _ \<Rightarrow> sha (enc bytes) = h | _ \<Rightarrow> False)"

section \<open>Map laws of the store\<close>

text \<open>What the operations need of the hash map.\<close>

locale key_value_store =
  fixes lookup :: "'m \<Rightarrow> 'k \<Rightarrow> 'v option"
    and put :: "'k \<Rightarrow> 'v \<Rightarrow> 'm \<Rightarrow> 'm"
    and del :: "'k \<Rightarrow> 'm \<Rightarrow> 'm"
    and invar :: "'m \<Rightarrow> bool"
  assumes lookup_put: "lookup (put k v m) = (lookup m)(k \<mapsto> v)"
    and lookup_del: "lookup (del k m) = (lookup m)(k := None)"
    and invar_put: "invar m \<Longrightarrow> invar (put k v m)"
    and invar_del: "invar m \<Longrightarrow> invar (del k m)"
begin

lemma lookup_del_all:
  "lookup (fold del ks m) k = (if k \<in> set ks then None else lookup m k)"
  by (induction ks arbitrary: m) (auto simp: lookup_del)

lemma invar_del_all: "invar m \<Longrightarrow> invar (fold del ks m)"
  by (induction ks arbitrary: m) (auto simp: invar_del)

end

interpretation kv: key_value_store map_of al_put al_del "\<lambda>m. distinct (map fst m)"
  by unfold_locales (simp_all add: distinct_al_put distinct_al_del)

lemma token_step_invar:
  "distinct (map fst m) \<Longrightarrow> distinct (map fst (fst (token_step sha enc op m)))"
  by (cases op)
    (auto simp: generate_def validate_def invalidate_def list_tokens_def Let_def distinct_al_put
      distinct_al_del kv.invar_del_all split: option.splits)

text \<open>An entry that can no longer be accepted under its hash, and one that can once.\<close>

definition spent :: "string \<Rightarrow> token_store \<Rightarrow> bool" where
  "spent h m = (case map_of m h of None \<Rightarrow> True | Some e \<Rightarrow> once e \<and> consumed e)"

definition one_time :: "string \<Rightarrow> token_store \<Rightarrow> bool" where
  "one_time h m = (case map_of m h of None \<Rightarrow> True | Some e \<Rightarrow> once e)"

lemma lookup_shrinks:
  assumes "\<not> generates sha enc h op"
  shows "map_of (fst (token_step sha enc op m)) h = None
    \<or> map_of (fst (token_step sha enc op m)) h = map_of m h
    \<or> (\<exists>e. map_of m h = Some e \<and> once e \<and> map_of (fst (token_step sha enc op m)) h = Some (e\<lparr>consumed := True\<rparr>)
        \<and> \<not> consumed e \<and> (\<exists>now raw. op = Validate now raw \<and> sha raw = h \<and> \<not> is_expired now e))"
  using assms
  by (cases op)
    (auto simp: generate_def validate_def invalidate_def list_tokens_def generates_def Let_def
      kv.lookup_del_all split: option.splits if_splits)

lemma acceptances_Cons:
  "acceptances sha h ((op, r) # log) =
    (if (\<exists>now raw. op = Validate now raw \<and> sha raw = h) \<and> r = Accepted True then 1 else 0)
      + acceptances sha h log"
  by (cases op) (auto simp: acceptances_def)

lemma step_accepts:
  assumes "op = Validate now raw" "sha raw = h" "snd (token_step sha enc op m) = Accepted True"
  shows "\<exists>e. map_of m h = Some e \<and> \<not> is_expired now e \<and> \<not> (once e \<and> consumed e)
    \<and> (once e \<longrightarrow> map_of (fst (token_step sha enc op m)) h = Some (e\<lparr>consumed := True\<rparr>))"
  using assms by (auto simp: validate_def Let_def split: option.splits if_splits)

lemma spent_step:
  assumes "spent h m" "\<not> generates sha enc h op"
  shows "spent h (fst (token_step sha enc op m))"
  using lookup_shrinks [OF assms(2), of m] assms(1) by (auto simp: spent_def split: option.splits)

lemma one_time_step:
  assumes "one_time h m" "\<not> generates sha enc h op"
  shows "one_time h (fst (token_step sha enc op m))"
  using lookup_shrinks [OF assms(2), of m] assms(1) by (auto simp: one_time_def split: option.splits)

lemma spent_run:
  assumes "list_all (\<lambda>op. \<not> generates sha enc h op) ops"
  shows "spent h m \<Longrightarrow> acceptances sha h (snd (token_run sha enc ops m)) = 0"
  using assms
proof (induction ops arbitrary: m)
  case (Cons op ops)
  obtain m' r where step: "token_step sha enc op m = (m', r)" by fastforce
  have "spent h m'" using spent_step [of h m sha enc op] Cons.prems step by simp
  with Cons have "acceptances sha h (snd (token_run sha enc ops m')) = 0" by simp
  moreover have "\<not> ((\<exists>now raw. op = Validate now raw \<and> sha raw = h) \<and> r = Accepted True)"
    using step_accepts [of op _ _ sha h enc m] Cons.prems(1) step by (auto simp: spent_def)
  ultimately show ?case
    using step by (auto simp: acceptances_Cons split: prod.splits)
qed (simp add: acceptances_def)

lemma one_time_run:
  assumes "list_all (\<lambda>op. \<not> generates sha enc h op) ops"
  shows "one_time h m \<Longrightarrow> acceptances sha h (snd (token_run sha enc ops m)) \<le> 1"
  using assms
proof (induction ops arbitrary: m)
  case (Cons op ops)
  obtain m' r where step: "token_step sha enc op m = (m', r)" by fastforce
  have one: "one_time h m'" using one_time_step [of h m sha enc op] Cons.prems step by simp
  have log: "snd (token_run sha enc (op # ops) m) = (op, r) # snd (token_run sha enc ops m')"
    using step by (simp split: prod.splits)
  show ?case
  proof (cases "(\<exists>now raw. op = Validate now raw \<and> sha raw = h) \<and> r = Accepted True")
    case True
    then obtain now raw where "op = Validate now raw" "sha raw = h" "r = Accepted True" by blast
    with step_accepts [of op now raw sha h enc m] step Cons.prems(1) have "spent h m'"
      by (auto simp: spent_def one_time_def)
    with spent_run [of sha enc h ops m'] Cons.prems(2) True show ?thesis
      unfolding log by (simp add: acceptances_Cons)
  next
    case False
    have "acceptances sha h (snd (token_run sha enc ops m')) \<le> 1" using Cons one by simp
    then show ?thesis unfolding log acceptances_Cons if_not_P [OF False] by simp
  qed
qed (simp add: acceptances_def)

lemma list_tokens_store:
  "map_of (fst (list_tokens now m)) k =
    (case map_of m k of Some e \<Rightarrow> if is_expired now e then None else Some e | None \<Rightarrow> None)"
  if "distinct (map fst m)"
proof -
  have "k \<in> fst ` {x \<in> set m. is_expired now (snd x)} \<longleftrightarrow> (\<exists>e. map_of m k = Some e \<and> is_expired now e)"
    using that by (force simp: map_of_eq_Some_iff)
  then show ?thesis
    by (auto simp: list_tokens_def Let_def kv.lookup_del_all case_prod_beta split: option.splits)
qed

lemma invalidate_lookup:
  assumes "distinct (map fst m)"
  shows "map_of (fst (invalidate sha s m)) k =
    (if map_of m (sha (trim s)) \<noteq> None
     then (if k = sha (trim s) then None else map_of m k)
     else (case map_of m k of Some e \<Rightarrow> if prefix e = trim s then None else Some e | None \<Rightarrow> None))"
proof -
  have "k \<in> fst ` {x \<in> set m. prefix (snd x) = trim s} \<longleftrightarrow> (\<exists>e. map_of m k = Some e \<and> prefix e = trim s)"
    using assms by (force simp: map_of_eq_Some_iff)
  then show ?thesis
    by (auto simp: invalidate_def Let_def kv.lookup_del_all case_prod_beta split: option.splits)
qed

section \<open>Properties\<close>

text \<open>C15. A one-time token is accepted at most once, whatever sequence of generations,
  validations, invalidations and listings follows its generation, at whatever times, as long
  as no later token has the same hash.\<close>

theorem once_token_single_use:
  assumes "list_all (\<lambda>op. \<not> generates sha enc (sha (enc bytes)) op) ops"
  shows "acceptances sha (sha (enc bytes))
      (snd (token_run sha enc ops (fst (generate sha enc now bytes ttl True lbl m)))) \<le> 1"
  by (rule one_time_run [OF assms]) (simp add: one_time_def generate_def Let_def)

theorem once_token_single_use_witness:
  "acceptances (\<lambda>s. CHR ''#'' # s) ((\<lambda>s. CHR ''#'' # s) ((\<lambda>b. b) ''abcdefghij''))
      (snd (token_run (\<lambda>s. CHR ''#'' # s) (\<lambda>b. b)
        [Validate 3 ''abcdefghij'', Generate 4 ''zz'' 5 True None, Validate 5 ''abcdefghij'']
        (fst (generate (\<lambda>s. CHR ''#'' # s) (\<lambda>b. b) 1 ''abcdefghij'' 60 True None [])))) \<le> 1"
  by (rule once_token_single_use) (simp add: generates_def)

text \<open>A fresh token is accepted exactly until its time to live has passed, whether it is a
  one-time token or not; and a token that is not a one-time token is accepted again.\<close>

theorem fresh_token_accepted:
  "let (m1, token) = generate sha enc now bytes ttl one lbl m;
       (m2, first) = validate sha t1 token m1;
       (m3, second) = validate sha t2 token m2
   in first = (t1 \<le> now + ttl) \<and> second = (t1 \<le> now + ttl \<and> t2 \<le> now + ttl \<and> \<not> one)"
  by (auto simp: generate_def validate_def is_expired_def Let_def split: prod.splits)

text \<open>Listing returns exactly the unexpired entries, in the order of their expiry, and
  leaves exactly these in the store.\<close>

theorem list_tokens_unexpired:
  assumes "distinct (map fst m)" "list_tokens now m = (m', es)"
  shows "sorted (map expires_at es) \<and> set es = {e \<in> snd ` set m. \<not> is_expired now e}
    \<and> snd ` set m' = set es
    \<and> (\<forall>k. map_of m' k = (case map_of m k of
          Some e \<Rightarrow> if is_expired now e then None else Some e | None \<Rightarrow> None))"
proof -
  have m': "m' = fst (list_tokens now m)" and es: "es = sort_key expires_at (map snd m')"
    using assms(2) by (auto simp: list_tokens_def Let_def)
  have d: "distinct (map fst m')"
    unfolding m' using assms(1) by (simp add: list_tokens_def Let_def kv.invar_del_all)
  have look: "map_of m' k = (case map_of m k of
      Some e \<Rightarrow> if is_expired now e then None else Some e | None \<Rightarrow> None)" for k
    unfolding m' by (rule list_tokens_store [OF assms(1)])
  have "snd ` set m' = ran (map_of m')" "snd ` set m = ran (map_of m)"
    using d assms(1) by (simp_all add: ran_distinct)
  moreover have "ran (map_of m') = {e \<in> ran (map_of m). \<not> is_expired now e}"
    by (auto simp: ran_def look split: option.splits if_splits)
  ultimately show ?thesis using look es by (simp add: sorted_sort_key)
qed

theorem list_tokens_unexpired_witness:
  "let e1 = \<lparr>prefix = ''a'', hash = ''x'', expires_at = 9, once = False, consumed = False, created_at = 0, label = None\<rparr>;
       e2 = \<lparr>prefix = ''b'', hash = ''y'', expires_at = 5, once = True, consumed = False, created_at = 0, label = None\<rparr>;
       e3 = \<lparr>prefix = ''c'', hash = ''z'', expires_at = 2, once = True, consumed = False, created_at = 0, label = None\<rparr>;
       m = [(''x'', e1), (''y'', e2), (''z'', e3)]; m' = [(''x'', e1), (''y'', e2)]; es = [e2, e1]
   in sorted (map expires_at es) \<and> set es = {e \<in> snd ` set m. \<not> is_expired 3 e}
    \<and> snd ` set m' = set es
    \<and> (\<forall>k. map_of m' k = (case map_of m k of
          Some e \<Rightarrow> if is_expired 3 e then None else Some e | None \<Rightarrow> None))"
  unfolding Let_def
  by (rule list_tokens_unexpired) (simp_all add: list_tokens_def is_expired_def al_del_def)

text \<open>Invalidation by the full hash of a token, which the documentation offers, does
  nothing: the argument is hashed once more, and an eight-character prefix never equals it.\<close>

theorem invalidate_by_hash_ignored:
  assumes "distinct (map fst m)" "\<forall>e \<in> snd ` set m. length (prefix e) \<le> PREFIX_LEN"
    and "trimmed h" "length h > PREFIX_LEN" "sha h \<notin> fst ` set m"
  shows "invalidate sha h m = (m, False)"
proof -
  have "map_of m (sha h) = None" using assms(5) by (simp add: map_of_eq_None_iff)
  moreover have "filter (\<lambda>(k, v). prefix v = h) m = []"
    using assms(2,4) by (fastforce simp: filter_empty_conv)
  ultimately show ?thesis using assms(3) by (simp add: invalidate_def Let_def)
qed

theorem invalidate_by_hash_ignored_witness:
  "let m = fst (generate (\<lambda>s. CHR ''#'' # s) (\<lambda>b. b) 1 ''abcdefghij'' 60 True None [])
   in map_of m ''#abcdefghij'' \<noteq> None
    \<and> invalidate (\<lambda>s. CHR ''#'' # s) ''#abcdefghij'' m = (m, False)"
  unfolding Let_def
proof (rule conjI)
  show "invalidate (\<lambda>s. CHR ''#'' # s) ''#abcdefghij''
      (fst (generate (\<lambda>s. CHR ''#'' # s) (\<lambda>b. b) 1 ''abcdefghij'' 60 True None []))
    = (fst (generate (\<lambda>s. CHR ''#'' # s) (\<lambda>b. b) 1 ''abcdefghij'' 60 True None []), False)"
    by (rule invalidate_by_hash_ignored)
      (simp_all add: generate_def PREFIX_LEN_def trimmedI ws_byte_def Let_def)
qed (simp add: generate_def Let_def)

end
