(* ===== verification/Connection_Pool.thy ===== *)
theory Connection_Pool
  imports Rust_Prelude
begin

text \<open>
  Connection reuse: \<^verbatim>\<open>src/src/daemon/connection_manager.rs\<close>.

  The first part is the pool of one gateway, \<^verbatim>\<open>ManagedPool\<close>: a map from keys to pool states,
  each with a semaphore for its capacity and a notifier.  A semaphore and the notifier
  created with it are one index into \<^verbatim>\<open>sems\<close>.  The semaphore operations of \<^verbatim>\<open>tokio\<close> are
  arguments, with their documented laws in the locale \<^verbatim>\<open>counting_semaphore\<close>.  A pool operation
  returns the notifications it sends.

  The second part composes the operations into tasks: every phase of a task is one access
  to the shared state (one section under the lock, one semaphore call), and tasks
  interleave at these points.  Of \<^verbatim>\<open>tokio::sync::Notify\<close> the model uses only that a
  task behind \<^verbatim>\<open>notified().await\<close> goes on because of a notification that no other task
  used up: \<^verbatim>\<open>credits\<close> counts these, and counts at least what the library would deliver.

  The third part is \<^verbatim>\<open>ManagedSingleton\<close>.
\<close>

section \<open>Retry decision and snapshots\<close>

datatype connection_stage = Connect | Prepare | Started

datatype retry_decision = Retry | DoNotRetry

fun stage_retry_decision :: "connection_stage \<Rightarrow> retry_decision" where
  "stage_retry_decision Connect = Retry"
| "stage_retry_decision Prepare = Retry"
| "stage_retry_decision Started = DoNotRetry"

record connection_status_snapshot =
  snap_key :: string
  snap_generation :: nat
  snap_active :: nat
  snap_idle :: nat
  snap_capacity :: nat

section \<open>The pool\<close>

record 's sem_ops =
  sem_new :: "nat \<Rightarrow> 's"
  sem_try :: "'s \<Rightarrow> 's option"
  sem_release :: "'s \<Rightarrow> 's"
  sem_avail :: "'s \<Rightarrow> nat"

record 'r pool_entry =
  resource :: 'r
  generation :: nat
  created_at :: nat
  last_used :: nat
  permit :: nat

record 'r pool_state =
  semaphore :: nat
  idle :: "'r pool_entry list"
  active :: nat
  latest_generation :: nat

record ('k, 'r, 's) pool =
  inner :: "('k \<times> 'r pool_state) list"
  sems :: "'s list"
  next_generation :: nat
  max_idle :: nat
  capacity :: nat

record ('k, 'r) pool_lease =
  lease_key :: 'k
  lease_resource :: 'r
  lease_generation :: nat
  lease_permit :: nat

datatype notification = NotifyOne nat | NotifyWaiters nat

definition pool_new :: "nat \<Rightarrow> nat \<Rightarrow> ('k, 'r, 's) pool" where
  "pool_new cap mi = \<lparr>inner = [], sems = [], next_generation = 1, max_idle = mi, capacity = max cap 1\<rparr>"

text \<open>\<^verbatim>\<open>PoolState::new\<close>; the semaphore itself is put at the index by \<^verbatim>\<open>state_or_insert\<close>.\<close>

definition pool_state_new :: "nat \<Rightarrow> 'r pool_state" where
  "pool_state_new sid = \<lparr>semaphore = sid, idle = [], active = 0, latest_generation = 0\<rparr>"

definition state_or_insert ::
  "'s sem_ops \<Rightarrow> 'k \<Rightarrow> ('k, 'r, 's) pool \<Rightarrow> ('k, 'r, 's) pool \<times> 'r pool_state" where
  "state_or_insert S k p =
    (case map_of (inner p) k of
       Some st \<Rightarrow> (p, st)
     | None \<Rightarrow>
        (let st = pool_state_new (length (sems p))
         in (p\<lparr>inner := al_put k st (inner p), sems := sems p @ [sem_new S (max (capacity p) 1)]\<rparr>, st)))"

definition put_state :: "'k \<Rightarrow> 'r pool_state \<Rightarrow> ('k, 'r, 's) pool \<Rightarrow> ('k, 'r, 's) pool" where
  "put_state k st p = p\<lparr>inner := al_put k st (inner p)\<rparr>"

definition checkout_idle ::
  "'k \<Rightarrow> ('k, 'r, 's) pool \<Rightarrow> ('k, 'r, 's) pool \<times> ('k, 'r) pool_lease option" where
  "checkout_idle k p =
    (case map_of (inner p) k of
       None \<Rightarrow> (p, None)
     | Some st \<Rightarrow>
        if idle st = [] then (p, None)
        else
          (let e = last (idle st);
               st' = st\<lparr>idle := butlast (idle st), active := active st + 1,
                        latest_generation := max (latest_generation st) (generation e)\<rparr>
           in (put_state k st' p,
               Some \<lparr>lease_key = k, lease_resource = resource e, lease_generation = generation e,
                     lease_permit = permit e\<rparr>)))"

definition pool_handles :: "'s sem_ops \<Rightarrow> 'k \<Rightarrow> ('k, 'r, 's) pool \<Rightarrow> ('k, 'r, 's) pool \<times> nat" where
  "pool_handles S k p = (let (p', st) = state_or_insert S k p in (p', semaphore st))"

definition try_acquire :: "'s sem_ops \<Rightarrow> nat \<Rightarrow> ('k, 'r, 's) pool \<Rightarrow> ('k, 'r, 's) pool option" where
  "try_acquire S sid p =
    (case sem_try S (sems p ! sid) of
       Some s \<Rightarrow> Some (p\<lparr>sems := (sems p)[sid := s]\<rparr>) | None \<Rightarrow> None)"

text \<open>Dropping an \<^verbatim>\<open>OwnedSemaphorePermit\<close>.\<close>

definition release :: "'s sem_ops \<Rightarrow> nat \<Rightarrow> ('k, 'r, 's) pool \<Rightarrow> ('k, 'r, 's) pool" where
  "release S sid p = p\<lparr>sems := (sems p)[sid := sem_release S (sems p ! sid)]\<rparr>"

definition mark_active :: "'s sem_ops \<Rightarrow> 'k \<Rightarrow> ('k, 'r, 's) pool \<Rightarrow> ('k, 'r, 's) pool" where
  "mark_active S k p =
    (let (p', st) = state_or_insert S k p in put_state k (st\<lparr>active := active st + 1\<rparr>) p')"

definition unmark_active_and_notify ::
  "'k \<Rightarrow> ('k, 'r, 's) pool \<Rightarrow> ('k, 'r, 's) pool \<times> notification list" where
  "unmark_active_and_notify k p =
    (case map_of (inner p) k of
       Some st \<Rightarrow> (put_state k (st\<lparr>active := active st - 1\<rparr>) p, [NotifyOne (semaphore st)])
     | None \<Rightarrow> (p, []))"

definition record_generation :: "'s sem_ops \<Rightarrow> 'k \<Rightarrow> nat \<Rightarrow> ('k, 'r, 's) pool \<Rightarrow> ('k, 'r, 's) pool" where
  "record_generation S k g p =
    (let (p', st) = state_or_insert S k p
     in put_state k (st\<lparr>latest_generation := max (latest_generation st) g\<rparr>) p')"

definition allocate_generation :: "('k, 'r, 's) pool \<Rightarrow> ('k, 'r, 's) pool \<times> nat" where
  "allocate_generation p =
    (p\<lparr>next_generation := sat_add (2 ^ 64 - 1) (next_generation p) 1\<rparr>, next_generation p)"

definition return_healthy ::
  "'s sem_ops \<Rightarrow> nat \<Rightarrow> ('k, 'r) pool_lease \<Rightarrow> ('k, 'r, 's) pool
    \<Rightarrow> ('k, 'r, 's) pool \<times> notification list" where
  "return_healthy S now l p =
    (let (p', st) = state_or_insert S (lease_key l) p;
         e = \<lparr>resource = lease_resource l, generation = lease_generation l, created_at = now,
              last_used = now, permit = lease_permit l\<rparr>;
         st' = st\<lparr>active := active st - 1,
                  latest_generation := max (latest_generation st) (lease_generation l),
                  idle := idle st @ [e]\<rparr>
     in (put_state (lease_key l) st' p', [NotifyOne (semaphore st)]))"

text \<open>\<^verbatim>\<open>discard\<close> and \<^verbatim>\<open>Drop for PoolLease\<close> drop the permit first, then do this under the lock.\<close>

definition forget_active :: "'k \<Rightarrow> ('k, 'r, 's) pool \<Rightarrow> ('k, 'r, 's) pool \<times> notification list" where
  "forget_active k p =
    (case map_of (inner p) k of
       Some st \<Rightarrow>
        (let st' = st\<lparr>active := active st - 1\<rparr>;
             p' = put_state k st' p
         in (if active st' = 0 \<and> idle st' = [] then p'\<lparr>inner := al_del k (inner p')\<rparr> else p',
             [NotifyOne (semaphore st)]))
     | None \<Rightarrow> (p, []))"

definition discard ::
  "'s sem_ops \<Rightarrow> ('k, 'r) pool_lease \<Rightarrow> ('k, 'r, 's) pool \<Rightarrow> ('k, 'r, 's) pool \<times> notification list" where
  "discard S l p = forget_active (lease_key l) (release S (lease_permit l) p)"

text \<open>Keeping the idle entries that satisfy a predicate in every state, as
  \<^verbatim>\<open>discard_idle_where\<close> and \<^verbatim>\<open>prune_idle_with\<close> do: the permits of the removed entries are
  dropped, waiters of a changed state are notified, states with nothing left are removed.\<close>

definition retain_idle ::
  "'s sem_ops \<Rightarrow> ('r pool_entry \<Rightarrow> bool) \<Rightarrow> ('k, 'r, 's) pool
    \<Rightarrow> ('k, 'r, 's) pool \<times> notification list" where
  "retain_idle S keep p =
    (let removed = concat (map (\<lambda>(k, st). filter (\<lambda>e. \<not> keep e) (idle st)) (inner p));
         changed = filter (\<lambda>(k, st). filter keep (idle st) \<noteq> idle st) (inner p);
         states = map (\<lambda>(k, st). (k, st\<lparr>idle := filter keep (idle st)\<rparr>)) (inner p);
         p' = fold (release S) (map permit removed) p
     in (p'\<lparr>inner := filter (\<lambda>(k, st). active st > 0 \<or> idle st \<noteq> []) states\<rparr>,
         map (\<lambda>(k, st). NotifyWaiters (semaphore st)) changed))"

definition discard_idle_where ::
  "'s sem_ops \<Rightarrow> ('r \<Rightarrow> bool) \<Rightarrow> ('k, 'r, 's) pool \<Rightarrow> ('k, 'r, 's) pool \<times> notification list \<times> nat" where
  "discard_idle_where S should_discard p =
    (let (p', ns) = retain_idle S (\<lambda>e. \<not> should_discard (resource e)) p
     in (p', ns, length (concat (map (\<lambda>(k, st). filter (\<lambda>e. should_discard (resource e)) (idle st)) (inner p)))))"

definition prune_idle_with ::
  "'s sem_ops \<Rightarrow> nat \<Rightarrow> ('r \<Rightarrow> bool) \<Rightarrow> ('k, 'r, 's) pool \<Rightarrow> ('k, 'r, 's) pool \<times> notification list" where
  "prune_idle_with S now is_alive p =
    retain_idle S (\<lambda>e. now - last_used e < max_idle p \<and> is_alive (resource e)) p"

definition invalidate_generation ::
  "'s sem_ops \<Rightarrow> 'k \<Rightarrow> nat \<Rightarrow> ('k, 'r, 's) pool \<Rightarrow> ('k, 'r, 's) pool \<times> notification list \<times> bool" where
  "invalidate_generation S k g p =
    (case map_of (inner p) k of
       None \<Rightarrow> (p, [], False)
     | Some st \<Rightarrow>
        (let kept = filter (\<lambda>e. generation e \<noteq> g) (idle st);
             removed = filter (\<lambda>e. generation e = g) (idle st);
             changed = length (idle st) \<noteq> length kept;
             p' = fold (release S) (map permit removed) (put_state k (st\<lparr>idle := kept\<rparr>) p)
         in (p', if changed then [NotifyWaiters (semaphore st)] else [], changed)))"

definition total_entries :: "('k, 'r, 's) pool \<Rightarrow> nat" where
  "total_entries p = sum_list (map (\<lambda>(k, st). active st + length (idle st)) (inner p))"

definition status_snapshot_with ::
  "('k \<Rightarrow> string) \<Rightarrow> ('k, 'r, 's) pool \<Rightarrow> connection_status_snapshot list" where
  "status_snapshot_with key_label p =
    map (\<lambda>(k, st). \<lparr>snap_key = key_label k, snap_generation = latest_generation st,
                     snap_active = active st, snap_idle = length (idle st), snap_capacity = capacity p\<rparr>)
      (inner p)"

section \<open>Tasks\<close>

text \<open>The places between two accesses of \<^verbatim>\<open>checkout_or_create_with\<close> and of the life of a
  lease.  A natural number is a semaphore index; from \<^verbatim>\<open>Marking\<close> to \<^verbatim>\<open>Releasing\<close> the task
  holds a permit of it.\<close>

datatype ('k, 'r) phase =
    Looking 'k
  | Handling 'k
  | Acquiring 'k nat
  | Marking 'k nat
  | Creating 'k nat
  | Recording 'k nat nat 'r
  | Unmarking 'k nat
  | Releasing nat
  | Rechecking 'k nat
  | Counting 'k nat
  | Awaiting 'k nat
  | Leased "('k, 'r) pool_lease"
  | Dropping 'k
  | Finished

record ('k, 'r, 's) pool_system =
  shared :: "('k, 'r, 's) pool"
  tasks :: "('k, 'r) phase list"
  credits :: "nat \<Rightarrow> nat"

datatype ('k, 'r) pool_event =
    Spawn 'k
  | Step nat
  | CreateOk nat 'r
  | CreateErr nat
  | Cancel nat
  | Return nat nat
  | Drop nat
  | Retain "'r pool_entry \<Rightarrow> bool"
  | Invalidate 'k nat

fun notify :: "nat \<Rightarrow> notification \<Rightarrow> (nat \<Rightarrow> nat) \<Rightarrow> nat \<Rightarrow> nat" where
  "notify n (NotifyOne sid) c = c(sid := c sid + 1)"
| "notify n (NotifyWaiters sid) c = c(sid := c sid + n)"

definition set_task :: "nat \<Rightarrow> ('k, 'r) phase \<Rightarrow> ('k, 'r, 's) pool_system \<Rightarrow> ('k, 'r, 's) pool_system" where
  "set_task i ph s = s\<lparr>tasks := (tasks s)[i := ph]\<rparr>"

definition update_pool ::
  "('k, 'r, 's) pool \<times> notification list \<Rightarrow> ('k, 'r, 's) pool_system \<Rightarrow> ('k, 'r, 's) pool_system" where
  "update_pool r s =
    s\<lparr>shared := fst r, credits := fold (notify (length (tasks s))) (snd r) (credits s)\<rparr>"

text \<open>One access of task \<^verbatim>\<open>i\<close>; \<^verbatim>\<open>create()\<close> and the use of a lease are events of their own.\<close>

fun task_step ::
  "'s sem_ops \<Rightarrow> nat \<Rightarrow> ('k, 'r) phase \<Rightarrow> ('k, 'r, 's) pool_system \<Rightarrow> ('k, 'r, 's) pool_system option" where
  "task_step S i (Looking k) s =
    (let (p, l) = checkout_idle k (shared s)
     in Some (set_task i (case l of Some l \<Rightarrow> Leased l | None \<Rightarrow> Handling k) (update_pool (p, []) s)))"
| "task_step S i (Handling k) s =
    (let (p, sid) = pool_handles S k (shared s)
     in Some (set_task i (Acquiring k sid) (update_pool (p, []) s)))"
| "task_step S i (Acquiring k sid) s =
    (case try_acquire S sid (shared s) of
       Some p \<Rightarrow> Some (set_task i (Marking k sid) (update_pool (p, []) s))
     | None \<Rightarrow> Some (set_task i (Rechecking k sid) s))"
| "task_step S i (Marking k sid) s =
    Some (set_task i (Creating k sid) (update_pool (mark_active S k (shared s), []) s))"
| "task_step S i (Recording k sid g r) s =
    Some (set_task i
      (Leased \<lparr>lease_key = k, lease_resource = r, lease_generation = g, lease_permit = sid\<rparr>)
      (update_pool (record_generation S k g (shared s), []) s))"
| "task_step S i (Unmarking k sid) s =
    Some (set_task i (Releasing sid) (update_pool (unmark_active_and_notify k (shared s)) s))"
| "task_step S i (Releasing sid) s =
    Some (set_task i Finished (update_pool (release S sid (shared s), []) s))"
| "task_step S i (Rechecking k sid) s =
    (let (p, l) = checkout_idle k (shared s)
     in Some (set_task i (case l of Some l \<Rightarrow> Leased l | None \<Rightarrow> Counting k sid) (update_pool (p, []) s)))"
| "task_step S i (Counting k sid) s =
    Some (set_task i (if sem_avail S (sems (shared s) ! sid) > 0 then Looking k else Awaiting k sid) s)"
| "task_step S i (Awaiting k sid) s =
    (if credits s sid > 0
     then Some (set_task i (Looking k) (s\<lparr>credits := (credits s)(sid := credits s sid - 1)\<rparr>))
     else None)"
| "task_step S i (Dropping k) s =
    Some (set_task i Finished (update_pool (forget_active k (shared s)) s))"
| "task_step S i _ s = None"

fun exec_event ::
  "'s sem_ops \<Rightarrow> ('k, 'r) pool_event \<Rightarrow> ('k, 'r, 's) pool_system \<Rightarrow> ('k, 'r, 's) pool_system option" where
  "exec_event S (Spawn k) s = Some (s\<lparr>tasks := tasks s @ [Looking k]\<rparr>)"
| "exec_event S (Step i) s =
    (if i < length (tasks s) then task_step S i (tasks s ! i) s else None)"
| "exec_event S (CreateOk i r) s =
    (if i < length (tasks s) then
       (case tasks s ! i of
          Creating k sid \<Rightarrow>
            (let (p, g) = allocate_generation (shared s)
             in Some (set_task i (Recording k sid g r) (update_pool (p, []) s)))
        | _ \<Rightarrow> None)
     else None)"
| "exec_event S (CreateErr i) s =
    (if i < length (tasks s) then
       (case tasks s ! i of Creating k sid \<Rightarrow> Some (set_task i (Unmarking k sid) s) | _ \<Rightarrow> None)
     else None)"
| "exec_event S (Cancel i) s =
    (if i < length (tasks s) then
       (case tasks s ! i of
          Creating k sid \<Rightarrow> Some (set_task i Finished (update_pool (release S sid (shared s), []) s))
        | _ \<Rightarrow> None)
     else None)"
| "exec_event S (Return i now) s =
    (if i < length (tasks s) then
       (case tasks s ! i of
          Leased l \<Rightarrow> Some (set_task i Finished (update_pool (return_healthy S now l (shared s)) s))
        | _ \<Rightarrow> None)
     else None)"
| "exec_event S (Drop i) s =
    (if i < length (tasks s) then
       (case tasks s ! i of
          Leased l \<Rightarrow>
            Some (set_task i (Dropping (lease_key l)) (update_pool (release S (lease_permit l) (shared s), []) s))
        | _ \<Rightarrow> None)
     else None)"
| "exec_event S (Retain keep) s = Some (update_pool (retain_idle S keep (shared s)) s)"
| "exec_event S (Invalidate k g) s =
    (let (p, ns, _) = invalidate_generation S k g (shared s) in Some (update_pool (p, ns) s))"

definition system_init :: "nat \<Rightarrow> nat \<Rightarrow> ('k, 'r, 's) pool_system" where
  "system_init cap mi = \<lparr>shared = pool_new cap mi, tasks = [], credits = (\<lambda>_. 0)\<rparr>"

inductive reachable :: "'s sem_ops \<Rightarrow> nat \<Rightarrow> nat \<Rightarrow> (('k, 'r) pool_event \<Rightarrow> bool) \<Rightarrow> ('k, 'r, 's) pool_system \<Rightarrow> bool"
  for S cap mi allowed where
  reachable_init: "reachable S cap mi allowed (system_init cap mi)"
| reachable_step: "reachable S cap mi allowed s \<Longrightarrow> allowed ev \<Longrightarrow> exec_event S ev s = Some s'
    \<Longrightarrow> reachable S cap mi allowed s'"

fun run_events ::
  "'s sem_ops \<Rightarrow> ('k, 'r) pool_event list \<Rightarrow> ('k, 'r, 's) pool_system \<Rightarrow> ('k, 'r, 's) pool_system option" where
  "run_events S [] s = Some s"
| "run_events S (e # es) s = (case exec_event S e s of Some s' \<Rightarrow> run_events S es s' | None \<Rightarrow> None)"

section \<open>The singleton\<close>

text \<open>\<^verbatim>\<open>ManagedSingleton\<close>: the lock is held over \<^verbatim>\<open>create().await\<close>, so an operation is atomic.
  \<^verbatim>\<open>holders\<close> is the number of leases that share the resource, \<^verbatim>\<open>Arc::strong_count\<close> less one.\<close>

record 'r singleton_entry =
  s_resource :: 'r
  s_generation :: nat
  s_created_at :: nat
  s_last_used :: nat

record 'r singleton =
  entry :: "'r singleton_entry option"
  s_next_generation :: nat

definition singleton_new :: "'r singleton" where
  "singleton_new = \<lparr>entry = None, s_next_generation = 1\<rparr>"

definition checkout_or_insert_with ::
  "nat \<Rightarrow> 'e + 'r \<Rightarrow> 'r singleton \<Rightarrow> 'r singleton \<times> ('e + 'r \<times> nat)" where
  "checkout_or_insert_with now created s =
    (case entry s of
       Some e \<Rightarrow> (s\<lparr>entry := Some (e\<lparr>s_last_used := now\<rparr>)\<rparr>, Inr (s_resource e, s_generation e))
     | None \<Rightarrow>
        (case created of
           Inl err \<Rightarrow> (s, Inl err)
         | Inr r \<Rightarrow>
            (let g = s_next_generation s
             in (s\<lparr>entry := Some \<lparr>s_resource = r, s_generation = g, s_created_at = now, s_last_used = now\<rparr>,
                    s_next_generation := sat_add (2 ^ 64 - 1) g 1\<rparr>, Inr (r, g)))))"

definition singleton_invalidate_generation :: "nat \<Rightarrow> 'r singleton \<Rightarrow> 'r singleton \<times> bool" where
  "singleton_invalidate_generation g s =
    (let should_clear = (case entry s of Some e \<Rightarrow> s_generation e = g | None \<Rightarrow> False)
     in (if should_clear then s\<lparr>entry := None\<rparr> else s, should_clear))"

definition current_generation :: "'r singleton \<Rightarrow> nat option" where
  "current_generation s = map_option s_generation (entry s)"

definition checkout_generation :: "nat \<Rightarrow> nat \<Rightarrow> 'r singleton \<Rightarrow> 'r singleton \<times> ('r \<times> nat) option" where
  "checkout_generation now g s =
    (case entry s of
       None \<Rightarrow> (s, None)
     | Some e \<Rightarrow>
        if s_generation e \<noteq> g then (s, None)
        else (s\<lparr>entry := Some (e\<lparr>s_last_used := now\<rparr>)\<rparr>, Some (s_resource e, s_generation e)))"

definition singleton_prune_idle :: "nat \<Rightarrow> nat \<Rightarrow> nat \<Rightarrow> 'r singleton \<Rightarrow> 'r singleton \<times> bool" where
  "singleton_prune_idle now mi holders s =
    (let should_clear = (case entry s of
         Some e \<Rightarrow> holders + 1 = 1 \<and> now - s_last_used e > mi | None \<Rightarrow> False)
     in (if should_clear then s\<lparr>entry := None\<rparr> else s, should_clear))"

definition singleton_status_snapshot :: "string \<Rightarrow> nat \<Rightarrow> 'r singleton \<Rightarrow> connection_status_snapshot" where
  "singleton_status_snapshot key holders s =
    (case entry s of
       Some e \<Rightarrow> \<lparr>snap_key = key, snap_generation = s_generation e, snap_active = holders + 1 - 1,
                  snap_idle = 1, snap_capacity = 1\<rparr>
     | None \<Rightarrow> \<lparr>snap_key = key, snap_generation = 0, snap_active = 0, snap_idle = 0, snap_capacity = 1\<rparr>)"

section \<open>Counting permits\<close>

lemma sum_al_put:
  fixes f :: "'k \<times> 'v \<Rightarrow> nat"
  shows "sum_list (map f (al_put k v m)) + (case map_of m k of None \<Rightarrow> 0 | Some v' \<Rightarrow> f (k, v'))
    = sum_list (map f m) + f (k, v)"
  by (induction k v m rule: al_put.induct) auto

lemma sum_al_del:
  fixes f :: "'k \<times> 'v \<Rightarrow> nat"
  assumes "distinct (map fst m)"
  shows "sum_list (map f (al_del k m)) + (case map_of m k of None \<Rightarrow> 0 | Some v' \<Rightarrow> f (k, v'))
    = sum_list (map f m)"
  using assms
proof (induction m)
  case (Cons x m)
  obtain k' v where x: "x = (k', v)" by (cases x)
  show ?case
  proof (cases "k' = k")
    case True
    with Cons.prems x have "k \<notin> fst ` set m" by simp
    then have "al_del k m = m" by (force simp: al_del_def filter_id_conv)
    with True x show ?thesis by (simp add: al_del_def)
  next
    case False
    with Cons x show ?thesis by (simp add: al_del_def)
  qed
qed (simp add: al_del_def)

lemma sum_list_update:
  fixes f :: "'a \<Rightarrow> nat"
  shows "i < length xs \<Longrightarrow> sum_list (map f (xs[i := x])) + f (xs ! i) = sum_list (map f xs) + f x"
  by (induction xs arbitrary: i) (auto split: nat.splits)

definition holds :: "nat \<Rightarrow> ('k, 'r) phase \<Rightarrow> nat" where
  "holds sid ph =
    (case ph of
       Marking _ x \<Rightarrow> if x = sid then 1 else 0
     | Creating _ x \<Rightarrow> if x = sid then 1 else 0
     | Recording _ x _ _ \<Rightarrow> if x = sid then 1 else 0
     | Unmarking _ x \<Rightarrow> if x = sid then 1 else 0
     | Releasing x \<Rightarrow> if x = sid then 1 else 0
     | Leased l \<Rightarrow> if lease_permit l = sid then 1 else 0
     | _ \<Rightarrow> 0)"

definition refers :: "('k, 'r) phase \<Rightarrow> nat option" where
  "refers ph =
    (case ph of
       Acquiring _ x \<Rightarrow> Some x | Marking _ x \<Rightarrow> Some x | Creating _ x \<Rightarrow> Some x
     | Recording _ x _ _ \<Rightarrow> Some x | Unmarking _ x \<Rightarrow> Some x | Releasing x \<Rightarrow> Some x
     | Rechecking _ x \<Rightarrow> Some x | Counting _ x \<Rightarrow> Some x | Awaiting _ x \<Rightarrow> Some x
     | Leased l \<Rightarrow> Some (lease_permit l) | _ \<Rightarrow> None)"

definition idle_holds :: "nat \<Rightarrow> 'r pool_state \<Rightarrow> nat" where
  "idle_holds sid st = length (filter (\<lambda>e. permit e = sid) (idle st))"

definition idle_holders :: "nat \<Rightarrow> ('k, 'r, 's) pool \<Rightarrow> nat" where
  "idle_holders sid p = sum_list (map (\<lambda>(k, st). idle_holds sid st) (inner p))"

definition task_holders :: "nat \<Rightarrow> ('k, 'r, 's) pool_system \<Rightarrow> nat" where
  "task_holders sid s = sum_list (map (holds sid) (tasks s))"

text \<open>The permits of a semaphore that are free or with an idle connection.\<close>

definition unleased :: "'s sem_ops \<Rightarrow> nat \<Rightarrow> ('k, 'r, 's) pool \<Rightarrow> nat" where
  "unleased S sid p = sem_avail S (sems p ! sid) + idle_holders sid p"

definition pool_ok :: "('k, 'r, 's) pool \<Rightarrow> bool" where
  "pool_ok p \<longleftrightarrow>
    distinct (map fst (inner p)) \<and> 1 \<le> capacity p \<and>
    (\<forall>(k, st) \<in> set (inner p). semaphore st < length (sems p)
      \<and> (\<forall>e \<in> set (idle st). permit e < length (sems p)))"

text \<open>\<^verbatim>\<open>pool_change S d p p'\<close>: an operation that adds \<^verbatim>\<open>d sid\<close> permits to what is free or idle,
  and may add fresh semaphores.\<close>

definition pool_change :: "'s sem_ops \<Rightarrow> (nat \<Rightarrow> int) \<Rightarrow> ('k, 'r, 's) pool \<Rightarrow> ('k, 'r, 's) pool \<Rightarrow> bool" where
  "pool_change S d p p' \<longleftrightarrow>
    pool_ok p' \<and> capacity p' = capacity p \<and> length (sems p) \<le> length (sems p')
    \<and> (\<forall>sid < length (sems p). int (unleased S sid p') = int (unleased S sid p) + d sid)
    \<and> (\<forall>sid < length (sems p'). length (sems p) \<le> sid \<longrightarrow> unleased S sid p' = capacity p)"

lemma pool_okD:
  assumes "pool_ok p" "map_of (inner p) k = Some st"
  shows "semaphore st < length (sems p)" "\<forall>e \<in> set (idle st). permit e < length (sems p)"
  using assms map_of_SomeD [OF assms(2)] by (auto simp: pool_ok_def)

lemma idle_holders_put:
  "idle_holders sid (put_state k st' p)
      + (case map_of (inner p) k of None \<Rightarrow> 0 | Some st \<Rightarrow> idle_holds sid st)
    = idle_holders sid p + idle_holds sid st'"
  using sum_al_put [of "\<lambda>(k, st). idle_holds sid st" k st' "inner p"]
  by (simp add: idle_holders_def put_state_def split: option.splits)

lemma al_put_set: "distinct (map fst m) \<Longrightarrow> x \<in> set (al_put k v m) \<Longrightarrow> x = (k, v) \<or> x \<in> set m"
  by (induction k v m rule: al_put.induct) (auto split: if_splits)

lemma pool_ok_put:
  assumes "pool_ok p" "semaphore st < length (sems p)" "\<forall>e \<in> set (idle st). permit e < length (sems p)"
  shows "pool_ok (put_state k st p)"
  using assms al_put_set [of "inner p" _ k st]
  by (fastforce simp: pool_ok_def put_state_def distinct_al_put)

lemma pool_change_put:
  assumes "pool_ok p" "map_of (inner p) k = Some st" "semaphore st' = semaphore st"
    and "\<forall>e \<in> set (idle st'). permit e < length (sems p)"
    and "\<And>sid. int (idle_holds sid st') = int (idle_holds sid st) + d sid"
  shows "pool_change S d p (put_state k st' p)"
proof -
  have "pool_ok (put_state k st' p)"
    using assms pool_okD [OF assms(1,2)] by (intro pool_ok_put) auto
  moreover have "int (idle_holders sid (put_state k st' p)) = int (idle_holders sid p) + d sid" for sid
    using idle_holders_put [of sid k st' p] assms(2) assms(5) [of sid] by simp
  ultimately show ?thesis by (simp add: pool_change_def unleased_def put_state_def)
qed

lemma pool_change_refl: "pool_ok p \<Longrightarrow> pool_change S (\<lambda>_. 0) p p"
  by (simp add: pool_change_def)

lemma pool_change_trans:
  assumes "pool_change S d1 p p1" "pool_change S d2 p1 p2"
    and "\<And>sid. length (sems p) \<le> sid \<Longrightarrow> sid < length (sems p1) \<Longrightarrow> d2 sid = 0"
  shows "pool_change S (\<lambda>sid. d1 sid + d2 sid) p p2"
proof -
  have "unleased S sid p2 = capacity p" if "sid < length (sems p2)" "length (sems p) \<le> sid" for sid
    using assms that unfolding pool_change_def by (cases "sid < length (sems p1)") auto
  with assms show ?thesis unfolding pool_change_def by auto
qed

text \<open>What the pool relies on in a semaphore.\<close>

locale counting_semaphore =
  fixes S :: "'s sem_ops"
  assumes avail_new: "sem_avail S (sem_new S n) = n"
    and try_None: "sem_try S x = None \<longleftrightarrow> sem_avail S x = 0"
    and try_Some: "sem_try S x = Some y \<Longrightarrow> sem_avail S x = sem_avail S y + 1"
    and avail_release: "sem_avail S (sem_release S x) = sem_avail S x + 1"
begin

lemma state_or_insert_change:
  assumes "pool_ok p" "state_or_insert S k p = (p', st)"
  shows "pool_change S (\<lambda>_. 0) p p' \<and> map_of (inner p') k = Some st"
proof (cases "map_of (inner p) k")
  case (Some st')
  with assms show ?thesis by (simp add: state_or_insert_def pool_change_refl)
next
  case None
  let ?sid = "length (sems p)"
  have p': "p' = p\<lparr>inner := al_put k (pool_state_new ?sid) (inner p), sems := sems p @ [sem_new S (max (capacity p) 1)]\<rparr>"
    and st: "st = pool_state_new ?sid"
    using assms(2) None by (auto simp: state_or_insert_def Let_def)
  have ih: "idle_holders sid p' = idle_holders sid p" for sid
    using sum_al_put [of "\<lambda>(k, st). idle_holds sid st" k "pool_state_new ?sid" "inner p"] None
    by (simp add: p' idle_holders_def idle_holds_def pool_state_new_def)
  have "idle_holders ?sid p = 0"
    using assms(1) by (fastforce simp: idle_holders_def idle_holds_def pool_ok_def filter_empty_conv)
  moreover have "pool_ok p'"
    using assms(1) al_put_set [of "inner p" _ k "pool_state_new ?sid"]
    by (fastforce simp: pool_ok_def p' distinct_al_put pool_state_new_def)
  ultimately show ?thesis
    using ih assms(1) by (auto simp: pool_change_def unleased_def p' st nth_append avail_new pool_ok_def
        less_Suc_eq_le)
qed

lemma release_change:
  assumes "pool_ok p" "sid < length (sems p)"
  shows "pool_change S (\<lambda>x. if x = sid then 1 else 0) p (release S sid p)"
  using assms
  by (auto simp: pool_change_def release_def unleased_def idle_holders_def pool_ok_def avail_release
      nth_list_update)

lemma try_acquire_change:
  assumes "pool_ok p" "sid < length (sems p)" "try_acquire S sid p = Some p'"
  shows "pool_change S (\<lambda>x. if x = sid then - 1 else 0) p p'"
proof -
  obtain y where y: "sem_try S (sems p ! sid) = Some y" "p' = p\<lparr>sems := (sems p)[sid := y]\<rparr>"
    using assms(3) by (auto simp: try_acquire_def split: option.splits)
  from try_Some [OF y(1)] assms(1,2) show ?thesis
    by (auto simp: pool_change_def y(2) unleased_def idle_holders_def pool_ok_def nth_list_update)
qed

lemma checkout_idle_change:
  assumes "pool_ok p" "checkout_idle k p = (p', Some l)"
  shows "pool_change S (\<lambda>x. if x = lease_permit l then - 1 else 0) p p'
    \<and> lease_permit l < length (sems p) \<and> lease_key l = k"
proof -
  obtain st where st: "map_of (inner p) k = Some st" "idle st \<noteq> []"
    using assms(2) by (auto simp: checkout_idle_def Let_def split: option.splits if_splits)
  let ?e = "last (idle st)"
  have split: "idle st = butlast (idle st) @ [?e]" using st(2) by simp
  have e: "permit ?e < length (sems p)" using pool_okD(2) [OF assms(1) st(1)] st(2) by simp
  have "filter P (idle st) = filter P (butlast (idle st)) @ filter P [?e]" for P
    by (subst split) (simp only: filter_append)
  then have "int (idle_holds sid (st\<lparr>idle := butlast (idle st), active := a, latest_generation := g\<rparr>))
      = int (idle_holds sid st) + (if sid = permit ?e then - 1 else 0)" for sid a g
    by (simp add: idle_holds_def)
  moreover have "p' = put_state k (st\<lparr>idle := butlast (idle st), active := active st + 1,
      latest_generation := max (latest_generation st) (generation ?e)\<rparr>) p"
    and l: "lease_permit l = permit ?e" "lease_key l = k"
    using assms(2) st by (auto simp: checkout_idle_def Let_def)
  moreover have "\<forall>e \<in> set (butlast (idle st)). permit e < length (sems p)"
    using pool_okD(2) [OF assms(1) st(1)] by (auto dest: in_set_butlastD)
  ultimately show ?thesis
    using e pool_change_put [OF assms(1) st(1), of "st\<lparr>idle := butlast (idle st), active := active st + 1,
      latest_generation := max (latest_generation st) (generation ?e)\<rparr>"] by simp
qed

end

definition nat_semaphore :: "nat sem_ops" where
  "nat_semaphore = \<lparr>sem_new = (\<lambda>n. n), sem_try = (\<lambda>n. if n = 0 then None else Some (n - 1)),
    sem_release = (\<lambda>n. n + 1), sem_avail = (\<lambda>n. n)\<rparr>"

interpretation nat_sem: counting_semaphore nat_semaphore
  by unfold_locales (auto simp: nat_semaphore_def split: if_splits)

lemma retain_count:
  "length (filter P (filter keep xs)) + length (filter P (filter (\<lambda>x. \<not> keep x) xs)) = length (filter P xs)"
  by (induction xs) auto

definition retained :: "('r pool_entry \<Rightarrow> bool) \<Rightarrow> ('k \<times> 'r pool_state) list \<Rightarrow> ('k \<times> 'r pool_state) list" where
  "retained keep m = filter (\<lambda>(k, st). active st > 0 \<or> idle st \<noteq> [])
    (map (\<lambda>(k, st). (k, st\<lparr>idle := filter keep (idle st)\<rparr>)) m)"

definition removed_permits :: "('r pool_entry \<Rightarrow> bool) \<Rightarrow> ('k \<times> 'r pool_state) list \<Rightarrow> nat list" where
  "removed_permits keep m =
    map permit (concat (map (\<lambda>(k, st). filter (\<lambda>e. \<not> keep e) (idle st)) m))"

lemma count_permit: "count_list (map permit xs) sid = length (filter (\<lambda>e. permit e = sid) xs)"
  by (induction xs) auto

lemma retained_Cons:
  "retained keep ((k, st) # m) =
    (if active st > 0 \<or> filter keep (idle st) \<noteq> [] then [(k, st\<lparr>idle := filter keep (idle st)\<rparr>)] else [])
      @ retained keep m"
  by (simp add: retained_def)

lemma removed_permits_Cons:
  "removed_permits keep ((k, st) # m) = map permit (filter (\<lambda>e. \<not> keep e) (idle st)) @ removed_permits keep m"
  by (simp add: removed_permits_def)

lemma retained_count:
  "sum_list (map (\<lambda>(k, st). idle_holds sid st) (retained keep m)) + count_list (removed_permits keep m) sid
    = sum_list (map (\<lambda>(k, st). idle_holds sid st) m)"
proof (induction m)
  case (Cons x m)
  obtain k st where x: "x = (k, st)" by (cases x)
  let ?kept = "filter (\<lambda>e. permit e = sid) (filter keep (idle st))"
  let ?gone = "filter (\<lambda>e. permit e = sid) (filter (\<lambda>e. \<not> keep e) (idle st))"
  have "length ?kept + length ?gone = idle_holds sid st"
    using retain_count [of "\<lambda>e. permit e = sid" keep "idle st"] by (simp only: idle_holds_def)
  moreover have "sum_list (map (\<lambda>(k, st). idle_holds sid st) (retained keep (x # m)))
      = length ?kept + sum_list (map (\<lambda>(k, st). idle_holds sid st) (retained keep m))"
    unfolding x retained_Cons by (cases "filter keep (idle st) = []") (simp_all del: filter_filter add: idle_holds_def)
  moreover have "count_list (removed_permits keep (x # m)) sid
      = length ?gone + count_list (removed_permits keep m) sid"
    unfolding x removed_permits_Cons by (simp only: count_list_append count_permit)
  ultimately show ?case using Cons by (simp add: x)
qed (simp add: retained_def removed_permits_def)

lemma retained_keys:
  assumes "distinct (map fst m)"
  shows "distinct (map fst (retained keep m))"
proof -
  have "map fst (map (\<lambda>(k, st). (k, st\<lparr>idle := filter keep (idle st)\<rparr>)) m) = map fst m"
    by (induction m) auto
  with assms have "distinct (map fst (map (\<lambda>(k, st). (k, st\<lparr>idle := filter keep (idle st)\<rparr>)) m))"
    by (simp only:)
  then show ?thesis unfolding retained_def by (rule distinct_map_filter)
qed

lemma release_fold:
  obtains q where "fold (release S) ps p = p\<lparr>sems := q\<rparr>" "length q = length (sems p)"
proof -
  have "\<exists>q. fold (release S) ps p = p\<lparr>sems := q\<rparr> \<and> length q = length (sems p)"
  proof (induction ps arbitrary: p)
    case (Cons a ps)
    from Cons [of "release S a p"] show ?case by (auto simp: release_def)
  next
    case Nil
    show ?case by (intro exI [of _ "sems p"]) simp
  qed
  with that show thesis by blast
qed

context counting_semaphore
begin

lemma avail_fold:
  "\<forall>x \<in> set ps. x < length (sems p) \<Longrightarrow> sid < length (sems p) \<Longrightarrow>
    sem_avail S (sems (fold (release S) ps p) ! sid) = sem_avail S (sems p ! sid) + count_list ps sid"
  by (induction ps arbitrary: p) (auto simp: release_def avail_release nth_list_update)

lemma retain_idle_change:
  assumes "pool_ok p"
  shows "pool_change S (\<lambda>_. 0) p (fst (retain_idle S keep p))"
proof -
  let ?ps = "removed_permits keep (inner p)"
  obtain q where q: "fold (release S) ?ps p = p\<lparr>sems := q\<rparr>" "length q = length (sems p)"
    by (rule release_fold)
  have res: "fst (retain_idle S keep p) = p\<lparr>inner := retained keep (inner p), sems := q\<rparr>"
    using q(1) by (simp add: retain_idle_def Let_def retained_def removed_permits_def)
  have valid: "\<forall>x \<in> set ?ps. x < length (sems p)"
    using assms by (fastforce simp: removed_permits_def pool_ok_def)
  have "unleased S sid (p\<lparr>inner := retained keep (inner p), sems := q\<rparr>) = unleased S sid p"
    if "sid < length (sems p)" for sid
    using avail_fold [OF valid that] retained_count [of sid keep "inner p"]
    by (simp add: unleased_def idle_holders_def q)
  moreover have "semaphore st < length (sems p) \<and> (\<forall>e \<in> set (idle st). permit e < length (sems p))"
    if "(k, st) \<in> set (retained keep (inner p))" for k st
    using that assms by (fastforce simp: retained_def pool_ok_def)
  then have "pool_ok (p\<lparr>inner := retained keep (inner p), sems := q\<rparr>)"
    using assms q(2) by (auto simp: pool_ok_def retained_keys)
  ultimately show ?thesis
    using q(2) unfolding res by (simp add: pool_change_def)
qed

lemma invalidate_generation_change:
  assumes "pool_ok p"
  shows "pool_change S (\<lambda>_. 0) p (fst (invalidate_generation S k g p))"
proof (cases "map_of (inner p) k")
  case None
  then show ?thesis using assms by (simp add: invalidate_generation_def pool_change_refl)
next
  case (Some st)
  let ?kept = "filter (\<lambda>e. generation e \<noteq> g) (idle st)"
  let ?ps = "map permit (filter (\<lambda>e. generation e = g) (idle st))"
  define p1 where "p1 = put_state k (st\<lparr>idle := ?kept\<rparr>) p"
  note ok = pool_okD [OF assms Some]
  have p1: "pool_ok p1" "sems p1 = sems p" "capacity p1 = capacity p"
    unfolding p1_def using ok by (auto simp: put_state_def intro!: pool_ok_put [OF assms, unfolded put_state_def])
  obtain q where q: "fold (release S) ?ps p1 = p1\<lparr>sems := q\<rparr>" "length q = length (sems p1)"
    by (rule release_fold)
  have res: "fst (invalidate_generation S k g p) = p1\<lparr>sems := q\<rparr>"
    using q(1) Some by (simp add: invalidate_generation_def Let_def p1_def)
  have "unleased S sid (p1\<lparr>sems := q\<rparr>) = unleased S sid p" if sid: "sid < length (sems p)" for sid
  proof -
    have "count_list ?ps sid + idle_holds sid (st\<lparr>idle := ?kept\<rparr>) = idle_holds sid st"
      using retain_count [of "\<lambda>e. permit e = sid" "\<lambda>e. generation e \<noteq> g" "idle st"]
      by (simp add: idle_holds_def count_permit)
    moreover have "sem_avail S (q ! sid) = sem_avail S (sems p ! sid) + count_list ?ps sid"
      using avail_fold [of ?ps p1 sid] sid ok(2) p1(2) q(1) by simp
    moreover have "idle_holders sid (p1\<lparr>sems := q\<rparr>) + idle_holds sid st
        = idle_holders sid p + idle_holds sid (st\<lparr>idle := ?kept\<rparr>)"
      using idle_holders_put [of sid k "st\<lparr>idle := ?kept\<rparr>" p] Some
      by (simp add: idle_holders_def p1_def)
    ultimately show ?thesis by (simp add: unleased_def)
  qed
  moreover have "pool_ok (p1\<lparr>sems := q\<rparr>)" using p1(1) q(2) by (simp add: pool_ok_def)
  ultimately show ?thesis
    unfolding res using q(2) p1 by (simp add: pool_change_def)
qed

lemma put_after_insert:
  assumes "pool_ok p" "state_or_insert S k p = (p', st)" "semaphore st' = semaphore st"
    and "\<forall>e \<in> set (idle st'). permit e < length (sems p)
      \<or> e \<in> set (idle st)"
    and "\<And>sid. int (idle_holds sid st') = int (idle_holds sid st) + d sid"
    and "\<And>sid. length (sems p) \<le> sid \<Longrightarrow> d sid = 0"
  shows "pool_change S d p (put_state k st' p')"
proof -
  note ins = state_or_insert_change [OF assms(1,2)]
  then have p': "pool_ok p'" "map_of (inner p') k = Some st" "length (sems p) \<le> length (sems p')"
    by (auto simp: pool_change_def)
  have "pool_change S d p' (put_state k st' p')"
  proof (rule pool_change_put [OF p'(1,2) assms(3) _ assms(5)])
    show "\<forall>e \<in> set (idle st'). permit e < length (sems p')"
      using assms(4) pool_okD(2) [OF p'(1,2)] p'(3) by fastforce
  qed
  with ins assms(6) have "pool_change S (\<lambda>sid. 0 + d sid) p (put_state k st' p')"
    by (intro pool_change_trans [of S _ p p']) auto
  then show ?thesis by simp
qed

lemma put_same_idle:
  assumes "pool_ok p" "state_or_insert S k p = (p', st)" "semaphore st' = semaphore st" "idle st' = idle st"
  shows "pool_change S (\<lambda>_. 0) p (put_state k st' p')"
  by (rule put_after_insert [OF assms(1,2,3)]) (simp_all add: assms(4) idle_holds_def)

lemma mark_active_change:
  assumes "pool_ok p"
  shows "pool_change S (\<lambda>_. 0) p (mark_active S k p)"
proof -
  obtain p' st where i: "state_or_insert S k p = (p', st)" by fastforce
  show ?thesis
    unfolding mark_active_def i Let_def prod.case by (rule put_same_idle [OF assms i]) simp_all
qed

lemma record_generation_change:
  assumes "pool_ok p"
  shows "pool_change S (\<lambda>_. 0) p (record_generation S k g p)"
proof -
  obtain p' st where i: "state_or_insert S k p = (p', st)" by fastforce
  show ?thesis
    unfolding record_generation_def i Let_def prod.case by (rule put_same_idle [OF assms i]) simp_all
qed

lemma pool_handles_change:
  assumes "pool_ok p" "pool_handles S k p = (p', sid)"
  shows "pool_change S (\<lambda>_. 0) p p' \<and> sid < length (sems p')"
proof -
  obtain q st where q: "state_or_insert S k p = (q, st)" by fastforce
  with assms have "p' = q" "sid = semaphore st" by (auto simp: pool_handles_def)
  with state_or_insert_change [OF assms(1) q] pool_okD(1) [of q k st] show ?thesis
    by (auto simp: pool_change_def)
qed

lemma return_healthy_change:
  assumes "pool_ok p" "lease_permit l < length (sems p)"
  shows "pool_change S (\<lambda>x. if x = lease_permit l then 1 else 0) p (fst (return_healthy S now l p))"
proof -
  obtain q st where q: "state_or_insert S (lease_key l) p = (q, st)" by fastforce
  show ?thesis
    unfolding return_healthy_def q Let_def prod.case fst_conv
    by (rule put_after_insert [OF assms(1) q]) (use assms(2) in \<open>auto simp: idle_holds_def\<close>)
qed

lemma unmark_change:
  assumes "pool_ok p"
  shows "pool_change S (\<lambda>_. 0) p (fst (unmark_active_and_notify k p))"
proof (cases "map_of (inner p) k")
  case None
  then show ?thesis using assms by (simp add: unmark_active_and_notify_def pool_change_refl)
next
  case (Some st)
  have "pool_change S (\<lambda>_. 0) p (put_state k (st\<lparr>active := active st - 1\<rparr>) p)"
    by (rule pool_change_put [OF assms Some])
      (use pool_okD(2) [OF assms Some] in \<open>simp_all add: idle_holds_def\<close>)
  then show ?thesis unfolding unmark_active_and_notify_def Some by simp
qed

lemma forget_active_change:
  assumes "pool_ok p"
  shows "pool_change S (\<lambda>_. 0) p (fst (forget_active k p))"
proof (cases "map_of (inner p) k")
  case None
  then show ?thesis using assms by (simp add: forget_active_def pool_change_refl)
next
  case (Some st)
  let ?st = "st\<lparr>active := active st - 1\<rparr>"
  let ?p = "put_state k ?st p"
  have put: "pool_change S (\<lambda>_. 0) p ?p"
    by (rule pool_change_put [OF assms Some])
      (use pool_okD(2) [OF assms Some] in \<open>simp_all add: idle_holds_def\<close>)
  show ?thesis
  proof (cases "active ?st = 0 \<and> idle ?st = []")
    case False
    then have "fst (forget_active k p) = ?p" using Some unfolding forget_active_def Let_def by auto
    with put show ?thesis by simp
  next
    case True
    have ok: "pool_ok ?p" using put by (simp add: pool_change_def)
    then have "pool_ok (?p\<lparr>inner := al_del k (inner ?p)\<rparr>)"
      by (auto simp: pool_ok_def distinct_al_del) (auto simp: al_del_def)
    moreover have "map_of (inner ?p) k = Some ?st" by (simp add: put_state_def)
    then have "idle_holders sid (?p\<lparr>inner := al_del k (inner ?p)\<rparr>) = idle_holders sid ?p" for sid
      using sum_al_del [of "inner ?p" "\<lambda>(k, st). idle_holds sid st" k] ok True
      by (simp add: idle_holders_def pool_ok_def idle_holds_def)
    ultimately have "pool_change S (\<lambda>_. 0) p (?p\<lparr>inner := al_del k (inner ?p)\<rparr>)"
      using put by (simp add: pool_change_def unleased_def)
    moreover have "fst (forget_active k p) = ?p\<lparr>inner := al_del k (inner ?p)\<rparr>"
      using Some True unfolding forget_active_def Let_def by auto
    ultimately show ?thesis by simp
  qed
qed

end

section \<open>The system invariant\<close>

definition refers_ok :: "nat \<Rightarrow> ('k, 'r) phase \<Rightarrow> bool" where
  "refers_ok n ph = (case refers ph of None \<Rightarrow> True | Some sid \<Rightarrow> sid < n)"

definition system_ok :: "'s sem_ops \<Rightarrow> ('k, 'r, 's) pool_system \<Rightarrow> bool" where
  "system_ok S s \<longleftrightarrow>
    pool_ok (shared s) \<and> list_all (refers_ok (length (sems (shared s)))) (tasks s)
    \<and> (\<forall>sid < length (sems (shared s)).
        unleased S sid (shared s) + task_holders sid s = capacity (shared s))"

lemma refers_holds: "refers_ok n ph \<Longrightarrow> n \<le> sid \<Longrightarrow> holds sid ph = 0"
  by (cases ph) (auto simp: refers_ok_def refers_def holds_def)

lemma refers_ok_mono: "refers_ok n ph \<Longrightarrow> n \<le> m \<Longrightarrow> refers_ok m ph"
  by (auto simp: refers_ok_def split: option.splits)

lemma task_holders_fresh:
  assumes "list_all (refers_ok n) (tasks s)" "n \<le> sid"
  shows "task_holders sid s = 0"
  using assms by (auto simp: task_holders_def list_all_iff refers_holds)

text \<open>A task that moves from one phase to the next while the pool changes by what it gives up.\<close>

lemma system_ok_move:
  assumes ok: "system_ok S s" and i: "i < length (tasks s)"
    and change: "pool_change S d (shared s) p'"
    and ph: "refers_ok (length (sems p')) ph"
    and fresh: "\<And>sid. length (sems (shared s)) \<le> sid \<Longrightarrow> holds sid ph = 0"
    and bal: "\<And>sid. sid < length (sems p') \<Longrightarrow> int (holds sid ph) + d sid = int (holds sid (tasks s ! i))"
    and s': "shared s' = p'" "tasks s' = (tasks s)[i := ph]"
  shows "system_ok S s'"
proof -
  let ?n = "length (sems (shared s))"
  have refs: "list_all (refers_ok ?n) (tasks s)" and po: "pool_ok p'" "?n \<le> length (sems p')"
    and cap: "capacity p' = capacity (shared s)"
    using ok change by (auto simp: system_ok_def pool_change_def)
  have "refers_ok (length (sems p')) x" if "x \<in> set (tasks s')" for x
  proof (cases "x = ph")
    case False
    with that have "x \<in> set (tasks s)" unfolding s' using set_update_subset_insert by fastforce
    with refs po(2) show ?thesis by (auto simp: list_all_iff intro: refers_ok_mono)
  qed (use ph in simp)
  moreover have "unleased S sid p' + task_holders sid s' = capacity p'" if sid: "sid < length (sems p')" for sid
  proof -
    have th: "int (task_holders sid s') = int (task_holders sid s) - d sid"
      using sum_list_update [OF i, of "holds sid" ph] bal [OF sid] by (simp add: task_holders_def s')
    show ?thesis
    proof (cases "sid < ?n")
      case True
      then have "int (unleased S sid p') = int (unleased S sid (shared s)) + d sid"
        using change by (simp add: pool_change_def)
      moreover have "unleased S sid (shared s) + task_holders sid s = capacity (shared s)"
        using True ok by (simp add: system_ok_def)
      ultimately show ?thesis using th cap by linarith
    next
      case False
      then have "unleased S sid p' = capacity (shared s)" using change sid by (simp add: pool_change_def)
      moreover have "task_holders sid s = 0" using False refs by (intro task_holders_fresh) auto
      moreover have "holds sid (tasks s ! i) = 0" using False refs i by (intro refers_holds) (auto simp: list_all_length)
      moreover have "holds sid ph = 0" using False by (intro fresh) simp
      ultimately show ?thesis using th cap bal [OF sid] by simp
    qed
  qed
  ultimately show ?thesis using po by (simp add: system_ok_def s' list_all_iff)
qed

text \<open>Work of the pool on its own behalf.\<close>

lemma system_ok_pool:
  assumes "system_ok S s" "pool_change S (\<lambda>_. 0) (shared s) p'" "shared s' = p'" "tasks s' = tasks s"
  shows "system_ok S s'"
proof -
  have refs: "list_all (refers_ok (length (sems (shared s)))) (tasks s)"
    using assms(1) by (simp add: system_ok_def)
  have "unleased S sid p' + task_holders sid s' = capacity p'" if "sid < length (sems p')" for sid
    using assms that task_holders_fresh [OF refs, of sid]
    by (cases "sid < length (sems (shared s))") (auto simp: system_ok_def pool_change_def task_holders_def)
  moreover have "list_all (refers_ok (length (sems p'))) (tasks s')"
    using assms(2,4) refs by (auto simp: list_all_iff pool_change_def intro: refers_ok_mono)
  ultimately show ?thesis using assms(2,3) by (simp add: system_ok_def pool_change_def)
qed

lemma set_task_simps [simp]:
  "shared (set_task i ph s) = shared s" "tasks (set_task i ph s) = (tasks s)[i := ph]"
  by (simp_all add: set_task_def)

lemma update_pool_simps [simp]:
  "shared (update_pool r s) = fst r" "tasks (update_pool r s) = tasks s"
  by (simp_all add: update_pool_def)

lemma checkout_idle_None: "checkout_idle k p = (p', None) \<Longrightarrow> p' = p"
  by (auto simp: checkout_idle_def Let_def split: option.splits if_splits)

lemma allocate_generation_change:
  "pool_ok p \<Longrightarrow> pool_change S (\<lambda>_. 0) p (fst (allocate_generation p))"
  by (auto simp: allocate_generation_def pool_change_def pool_ok_def unleased_def idle_holders_def)

lemma system_okD:
  assumes "system_ok S s"
  shows "pool_ok (shared s)"
    "i < length (tasks s) \<Longrightarrow> refers (tasks s ! i) = Some sid \<Longrightarrow> sid < length (sems (shared s))"
proof -
  show "pool_ok (shared s)" using assms by (simp add: system_ok_def)
  assume "i < length (tasks s)" "refers (tasks s ! i) = Some sid"
  moreover have "list_all (refers_ok (length (sems (shared s)))) (tasks s)" using assms by (simp add: system_ok_def)
  ultimately show "sid < length (sems (shared s))" by (auto simp: list_all_length refers_ok_def)
qed

context counting_semaphore
begin

lemma looking_ok:
  assumes ok: "system_ok S s" and i: "i < length (tasks s)"
    and c: "checkout_idle k (shared s) = (p, l)" and none: "\<And>sid. holds sid (tasks s ! i) = 0"
    and ph: "refers_ok (length (sems (shared s))) ph" "\<And>sid. holds sid ph = 0"
  shows "system_ok S (set_task i (case l of Some l \<Rightarrow> Leased l | None \<Rightarrow> ph) (update_pool (p, []) s))"
proof (cases l)
  case None
  with c have "p = shared s" using checkout_idle_None [of k "shared s" p] by simp
  with None ph none show ?thesis
    by (intro system_ok_move [OF ok i pool_change_refl [OF system_okD(1) [OF ok]], where ph = ph]) simp_all
next
  case (Some l')
  note ch = checkout_idle_change [OF system_okD(1) [OF ok] c [unfolded Some]]
  then have "length (sems (shared s)) \<le> length (sems p)" by (simp add: pool_change_def)
  moreover have "holds sid (Leased l') = (if sid = lease_permit l' then 1 else 0)" for sid
    by (simp add: holds_def)
  moreover have "refers_ok (length (sems p)) (Leased l')"
    using ch calculation(1) by (simp add: refers_ok_def refers_def)
  ultimately show ?thesis
    using ch none Some
    by (intro system_ok_move [OF ok i conjunct1 [OF ch], where ph = "Leased l'"]) simp_all
qed

lemma keep_ok:
  assumes ok: "system_ok S s" and i: "i < length (tasks s)"
    and ch: "pool_change S (\<lambda>_. 0) (shared s) (shared s')"
    and s': "tasks s' = (tasks s)[i := ph]"
    and ph: "\<And>sid. refers ph = Some sid \<Longrightarrow> refers (tasks s ! i) = Some sid"
      "\<And>sid. holds sid ph = holds sid (tasks s ! i)"
  shows "system_ok S s'"
proof (rule system_ok_move [OF ok i ch _ _ _ refl s'])
  have le: "length (sems (shared s)) \<le> length (sems (shared s'))" using ch by (simp add: pool_change_def)
  have "sid < length (sems (shared s'))" if "refers ph = Some sid" for sid
    using system_okD(2) [OF ok i ph(1) [OF that]] le by simp
  then show "refers_ok (length (sems (shared s'))) ph" by (auto simp: refers_ok_def split: option.splits)
  fix sid
  have "refers_ok (length (sems (shared s))) (tasks s ! i)"
    using ok i by (simp add: system_ok_def list_all_length)
  then show "holds sid ph = 0" if "length (sems (shared s)) \<le> sid" using that ph(2) refers_holds by metis
  show "int (holds sid ph) + 0 = int (holds sid (tasks s ! i))" using ph(2) by simp
qed

lemma give_up_ok:
  assumes ok: "system_ok S s" and i: "i < length (tasks s)"
    and ch: "pool_change S (\<lambda>x. if x = sid then 1 else 0) (shared s) (shared s')"
    and s': "tasks s' = (tasks s)[i := ph]"
    and ph: "refers ph = None" "\<And>x. holds x (tasks s ! i) = (if x = sid then 1 else 0)"
  shows "system_ok S s'"
proof (rule system_ok_move [OF ok i ch _ _ _ refl s'])
  have none: "holds x ph = 0" for x using ph(1) by (cases ph) (auto simp: refers_def holds_def)
  show "refers_ok (length (sems (shared s'))) ph" using ph(1) by (simp add: refers_ok_def)
  fix x
  show "holds x ph = 0" by (rule none)
  show "int (holds x ph) + (if x = sid then 1 else 0) = int (holds x (tasks s ! i))"
    using none ph(2) by simp
qed

lemma acquire_ok:
  assumes ok: "system_ok S s" and i: "i < length (tasks s)" and t: "tasks s ! i = Acquiring k sid"
    and a: "try_acquire S sid (shared s) = Some p"
  shows "system_ok S (set_task i (Marking k sid) (update_pool (p, []) s))"
proof -
  have sid: "sid < length (sems (shared s))" using system_okD(2) [OF ok i] t by (simp add: refers_def)
  note ch = try_acquire_change [OF system_okD(1) [OF ok] sid a]
  then have le: "length (sems (shared s)) \<le> length (sems p)" by (simp add: pool_change_def)
  show ?thesis
  proof (rule system_ok_move [OF ok i ch])
    show "refers_ok (length (sems p)) (Marking k sid)"
      using sid le by (simp add: refers_ok_def refers_def)
    show "holds x (Marking k sid) = 0" if "length (sems (shared s)) \<le> x" for x
      using that sid by (simp add: holds_def)
    show "int (holds x (Marking k sid)) + (if x = sid then - 1 else 0) = int (holds x (tasks s ! i))" for x
      by (simp add: holds_def t)
  qed simp_all
qed

lemma handles_ok:
  assumes ok: "system_ok S s" and i: "i < length (tasks s)" and t: "tasks s ! i = Handling k"
    and h: "pool_handles S k (shared s) = (p, sid)"
  shows "system_ok S (set_task i (Acquiring k sid) (update_pool (p, []) s))"
proof -
  note ch = pool_handles_change [OF system_okD(1) [OF ok] h]
  show ?thesis
    by (rule system_ok_move [OF ok i conjunct1 [OF ch], where ph = "Acquiring k sid"])
      (use ch in \<open>simp_all add: refers_ok_def refers_def holds_def t\<close>)
qed

lemma task_step_ok:
  assumes ok: "system_ok S s" and i: "i < length (tasks s)" and st: "task_step S i (tasks s ! i) s = Some s'"
  shows "system_ok S s'"
proof -
  note po = system_okD(1) [OF ok] and refd = system_okD(2) [OF ok i]
  note keep = keep_ok [OF ok i]
  show ?thesis
  proof (cases "tasks s ! i")
    case (Looking k)
    obtain p l where "checkout_idle k (shared s) = (p, l)" by fastforce
    with looking_ok [OF ok i this, of "Handling k"] st Looking show ?thesis
      by (simp add: holds_def refers_ok_def refers_def)
  next
    case (Handling k)
    obtain p sid where "pool_handles S k (shared s) = (p, sid)" by fastforce
    with handles_ok [OF ok i Handling this] st Handling show ?thesis by simp
  next
    case (Acquiring k sid)
    show ?thesis
    proof (cases "try_acquire S sid (shared s)")
      case None
      with st Acquiring have "s' = set_task i (Rechecking k sid) s" by simp
      then show ?thesis
        by (intro keep [where ph = "Rechecking k sid"]) (simp_all add: po pool_change_refl Acquiring refers_def holds_def)
    next
      case (Some p)
      with acquire_ok [OF ok i Acquiring this] st Acquiring show ?thesis by simp
    qed
  next
    case (Marking k sid)
    with st have "s' = set_task i (Creating k sid) (update_pool (mark_active S k (shared s), []) s)" by simp
    then show ?thesis
      by (intro keep [where ph = "Creating k sid"]) (simp_all add: po mark_active_change Marking refers_def holds_def)
  next
    case (Recording k sid g r)
    let ?l = "Leased \<lparr>lease_key = k, lease_resource = r, lease_generation = g, lease_permit = sid\<rparr>"
    from Recording st have "s' = set_task i ?l (update_pool (record_generation S k g (shared s), []) s)" by simp
    then show ?thesis
      by (intro keep [where ph = ?l]) (simp_all add: po record_generation_change Recording refers_def holds_def)
  next
    case (Unmarking k sid)
    with st have "s' = set_task i (Releasing sid) (update_pool (unmark_active_and_notify k (shared s)) s)" by simp
    then show ?thesis
      by (intro keep [where ph = "Releasing sid"]) (simp_all add: po unmark_change Unmarking refers_def holds_def)
  next
    case (Releasing sid)
    with st have "s' = set_task i Finished (update_pool (release S sid (shared s), []) s)" by simp
    moreover have "sid < length (sems (shared s))" using refd Releasing by (simp add: refers_def)
    ultimately show ?thesis
      by (intro give_up_ok [OF ok i, where ph = Finished and sid = sid])
        (simp_all add: po release_change Releasing refers_def holds_def)
  next
    case (Rechecking k sid)
    obtain p l where c: "checkout_idle k (shared s) = (p, l)" by fastforce
    moreover have "sid < length (sems (shared s))" using refd Rechecking by (simp add: refers_def)
    ultimately show ?thesis
      using looking_ok [OF ok i c, of "Counting k sid"] st Rechecking by (simp add: holds_def refers_ok_def refers_def)
  next
    case (Counting k sid)
    let ?ph = "if sem_avail S (sems (shared s) ! sid) > 0 then Looking k else Awaiting k sid"
    from st Counting have "s' = set_task i ?ph s" by simp
    then show ?thesis
      by (intro keep [where ph = ?ph]) (auto simp: po pool_change_refl Counting refers_def holds_def split: if_splits)
  next
    case (Awaiting k sid)
    with st have "s' = set_task i (Looking k) (s\<lparr>credits := (credits s)(sid := credits s sid - 1)\<rparr>)"
      by (simp split: if_splits)
    then show ?thesis
      by (intro keep [where ph = "Looking k"]) (simp_all add: po pool_change_refl Awaiting refers_def holds_def)
  next
    case (Dropping k)
    with st have "s' = set_task i Finished (update_pool (forget_active k (shared s)) s)" by simp
    then show ?thesis
      by (intro keep [where ph = Finished]) (simp_all add: po forget_active_change Dropping refers_def holds_def)
  qed (use st in simp_all)
qed

lemma leased_ok:
  assumes ok: "system_ok S s" and i: "i < length (tasks s)" and t: "tasks s ! i = Leased l"
    and ph: "refers ph = None"
    and s': "tasks s' = (tasks s)[i := ph]"
      "shared s' = release S (lease_permit l) (shared s) \<or> shared s' = fst (return_healthy S now l (shared s))"
  shows "system_ok S s'"
proof (rule give_up_ok [OF ok i _ s'(1) ph])
  have "lease_permit l < length (sems (shared s))" using system_okD(2) [OF ok i] t by (simp add: refers_def)
  with s'(2) system_okD(1) [OF ok]
  show "pool_change S (\<lambda>x. if x = lease_permit l then 1 else 0) (shared s) (shared s')"
    using release_change return_healthy_change by metis
  show "holds x (tasks s ! i) = (if x = lease_permit l then 1 else 0)" for x by (simp add: t holds_def)
qed

lemma creating_ok:
  assumes ok: "system_ok S s" and i: "i < length (tasks s)" and t: "tasks s ! i = Creating k sid"
  shows "system_ok S (set_task i (Recording k sid g r) (update_pool (fst (allocate_generation (shared s)), []) s))"
    and "system_ok S (set_task i (Unmarking k sid) s)"
    and "system_ok S (set_task i Finished (update_pool (release S sid (shared s), []) s))"
proof -
  note po = system_okD(1) [OF ok]
  have sid: "sid < length (sems (shared s))" using system_okD(2) [OF ok i] t by (simp add: refers_def)
  show "system_ok S (set_task i (Recording k sid g r) (update_pool (fst (allocate_generation (shared s)), []) s))"
    by (rule keep_ok [OF ok i, where ph = "Recording k sid g r"])
      (simp_all add: po allocate_generation_change t refers_def holds_def)
  show "system_ok S (set_task i (Unmarking k sid) s)"
    by (rule keep_ok [OF ok i, where ph = "Unmarking k sid"])
      (simp_all add: po pool_change_refl t refers_def holds_def)
  show "system_ok S (set_task i Finished (update_pool (release S sid (shared s), []) s))"
    by (rule give_up_ok [OF ok i, where ph = Finished and sid = sid])
      (simp_all add: po sid release_change t refers_def holds_def)
qed

lemma exec_event_ok:
  assumes ok: "system_ok S s" and st: "exec_event S ev s = Some s'"
  shows "system_ok S s'"
proof (cases ev)
  case (Spawn k)
  with ok st show ?thesis
    by (auto simp: system_ok_def task_holders_def holds_def refers_ok_def refers_def)
next
  case (Step i)
  with ok st show ?thesis by (auto split: if_splits intro: task_step_ok)
next
  case (CreateOk i r)
  with ok st show ?thesis by (auto simp: Let_def split: if_splits phase.splits prod.splits dest: creating_ok(1))
next
  case (CreateErr i)
  with ok st show ?thesis by (auto split: if_splits phase.splits intro: creating_ok(2))
next
  case (Cancel i)
  with ok st show ?thesis by (auto split: if_splits phase.splits intro: creating_ok(3))
next
  case (Return i now)
  then obtain l where l: "i < length (tasks s)" "tasks s ! i = Leased l"
      "s' = set_task i Finished (update_pool (return_healthy S now l (shared s)) s)"
    using st by (auto split: if_splits phase.splits)
  show ?thesis
    by (rule leased_ok [OF ok l(1,2), where ph = Finished and now = now]) (simp_all add: l(3) refers_def)
next
  case (Drop i)
  then obtain l where l: "i < length (tasks s)" "tasks s ! i = Leased l"
      "s' = set_task i (Dropping (lease_key l)) (update_pool (release S (lease_permit l) (shared s), []) s)"
    using st by (auto split: if_splits phase.splits)
  show ?thesis
    by (rule leased_ok [OF ok l(1,2), where ph = "Dropping (lease_key l)" and now = 0]) (simp_all add: l(3) refers_def)
next
  case (Retain keep)
  with st have "s' = update_pool (retain_idle S keep (shared s)) s" by simp
  with system_ok_pool [OF ok retain_idle_change [OF system_okD(1) [OF ok]]] show ?thesis by simp
next
  case (Invalidate k g)
  with st have "shared s' = fst (invalidate_generation S k g (shared s))" "tasks s' = tasks s"
    by (auto simp: Let_def split: prod.splits)
  with system_ok_pool [OF ok invalidate_generation_change [OF system_okD(1) [OF ok]]] show ?thesis by simp
qed

end

lemma fold_release_capacity: "capacity (fold (release S) ps p) = capacity p"
  by (rule release_fold [of S ps p]) simp

lemmas pool_op_defs =
  checkout_idle_def pool_handles_def mark_active_def record_generation_def unmark_active_and_notify_def
  forget_active_def return_healthy_def retain_idle_def invalidate_generation_def allocate_generation_def
  release_def put_state_def state_or_insert_def

lemma capacity_put_insert:
  "capacity (put_state k st p) = capacity p" "capacity (fst (state_or_insert S k p)) = capacity p"
  by (auto simp: put_state_def state_or_insert_def Let_def split: option.splits)

lemma op_capacity [simp]:
  "capacity (fst (checkout_idle k p)) = capacity p"
  "capacity (fst (pool_handles S k p)) = capacity p"
  "capacity (mark_active S k p) = capacity p"
  "capacity (record_generation S k g p) = capacity p"
  "capacity (fst (unmark_active_and_notify k p)) = capacity p"
  "capacity (fst (forget_active k p)) = capacity p"
  "capacity (fst (return_healthy S now l p)) = capacity p"
  "capacity (fst (allocate_generation p)) = capacity p"
  "capacity (release S sid p) = capacity p"
  by (auto simp: pool_op_defs Let_def split: option.splits prod.splits)

lemma op_capacity_fold [simp]:
  "capacity (fst (retain_idle S keep p)) = capacity p"
  "capacity (fst (invalidate_generation S k g p)) = capacity p"
  by (auto simp: retain_idle_def invalidate_generation_def Let_def fold_release_capacity put_state_def
      split: option.splits)

lemma op_capacity_pair:
  "checkout_idle k p = (p', l) \<Longrightarrow> capacity p' = capacity p"
  "pool_handles S k p = (p', sid) \<Longrightarrow> capacity p' = capacity p"
  "allocate_generation p = (p', g) \<Longrightarrow> capacity p' = capacity p"
  "invalidate_generation S k g p = (p', r) \<Longrightarrow> capacity p' = capacity p"
  using op_capacity(1) [of k p] op_capacity(2) [of S k p] op_capacity(8) [of p]
    op_capacity_fold(2) [of S k g p] by (metis fst_conv)+

lemma try_acquire_capacity: "try_acquire S sid p = Some p' \<Longrightarrow> capacity p' = capacity p"
  by (auto simp: try_acquire_def split: option.splits)

lemma task_step_capacity:
  assumes "task_step S i ph s = Some s'"
  shows "capacity (shared s') = capacity (shared s)"
proof (cases ph)
  case (Looking k)
  with assms show ?thesis by (auto simp: Let_def op_capacity_pair split: prod.splits)
next
  case (Handling k)
  with assms show ?thesis by (auto simp: Let_def op_capacity_pair split: prod.splits)
next
  case (Rechecking k sid)
  with assms show ?thesis by (auto simp: Let_def op_capacity_pair split: prod.splits)
qed (use assms in \<open>auto simp: try_acquire_capacity split: option.splits if_splits\<close>)

lemma exec_event_capacity:
  assumes "exec_event S ev s = Some s'"
  shows "capacity (shared s') = capacity (shared s)"
proof (cases ev)
  case (Step i)
  with assms show ?thesis by (auto split: if_splits intro: task_step_capacity)
next
  case (CreateOk i r)
  with assms show ?thesis
    by (auto simp: Let_def op_capacity_pair split: if_splits phase.splits prod.splits)
next
  case (Invalidate k g)
  with assms show ?thesis by (auto simp: Let_def op_capacity_pair split: prod.splits)
qed (use assms in \<open>auto split: if_splits phase.splits\<close>)

lemma system_init_ok: "system_ok S (system_init cap mi)"
  by (simp add: system_init_def system_ok_def pool_new_def pool_ok_def)

context counting_semaphore
begin

lemma reachable_ok:
  "reachable S cap mi allowed s \<Longrightarrow> system_ok S s \<and> capacity (shared s) = max cap 1"
proof (induction rule: reachable.induct)
  case reachable_init
  show ?case using system_init_ok by (simp add: system_init_def pool_new_def)
next
  case (reachable_step s ev s')
  then show ?case using exec_event_ok exec_event_capacity by metis
qed

end

section \<open>The active counter\<close>

text \<open>The tasks that \<^verbatim>\<open>active\<close> of a key should count: from \<^verbatim>\<open>mark_active\<close>, or the checkout of an
  idle entry, to \<^verbatim>\<open>unmark_active_and_notify\<close>, \<^verbatim>\<open>return_healthy\<close> or the end of a drop.\<close>

definition counted :: "'k \<Rightarrow> ('k, 'r) phase \<Rightarrow> nat" where
  "counted k ph =
    (case ph of
       Creating k' _ \<Rightarrow> if k' = k then 1 else 0
     | Recording k' _ _ _ \<Rightarrow> if k' = k then 1 else 0
     | Unmarking k' _ \<Rightarrow> if k' = k then 1 else 0
     | Leased l \<Rightarrow> if lease_key l = k then 1 else 0
     | Dropping k' \<Rightarrow> if k' = k then 1 else 0
     | _ \<Rightarrow> 0)"

definition active_of :: "'k \<Rightarrow> ('k, 'r, 's) pool \<Rightarrow> nat" where
  "active_of k p = (case map_of (inner p) k of None \<Rightarrow> 0 | Some st \<Rightarrow> active st)"

definition counted_tasks :: "'k \<Rightarrow> ('k, 'r, 's) pool_system \<Rightarrow> nat" where
  "counted_tasks k s = sum_list (map (counted k) (tasks s))"

lemma active_of_put: "active_of k' (put_state k st p) = (if k' = k then active st else active_of k' p)"
  by (simp add: active_of_def put_state_def)

lemma active_of_lookup:
  "map_of (inner p) k = Some st \<Longrightarrow> active_of k p = active st"
  "map_of (inner p) k = None \<Longrightarrow> active_of k p = 0"
  by (simp_all add: active_of_def)

lemma active_of_insert:
  assumes "state_or_insert S k p = (p', st)"
  shows "active_of k' p' = active_of k' p \<and> active st = active_of k p"
  using assms
  by (cases "map_of (inner p) k") (auto simp: state_or_insert_def Let_def active_of_def pool_state_new_def)

lemma active_of_sems: "active_of k (p\<lparr>sems := q\<rparr>) = active_of k p"
  by (simp add: active_of_def)

lemma active_of_release: "active_of k (release S sid p) = active_of k p"
  by (simp add: active_of_def release_def)

lemma active_of_fold_release: "active_of k (fold (release S) ps p) = active_of k p"
  by (rule release_fold [of S ps p]) (simp add: active_of_sems)

lemma active_of_checkout:
  assumes "checkout_idle k p = (p', l)"
  shows "active_of k' p' = active_of k' p + (if k' = k \<and> l \<noteq> None then 1 else 0)
    \<and> (\<forall>l'. l = Some l' \<longrightarrow> lease_key l' = k)"
  using assms
  by (cases "map_of (inner p) k")
    (auto simp: checkout_idle_def Let_def active_of_put active_of_lookup split: if_splits)

lemma active_of_handles: "pool_handles S k p = (p', sid) \<Longrightarrow> active_of k' p' = active_of k' p"
  by (auto simp: pool_handles_def active_of_insert Let_def split: prod.splits)

lemma active_of_mark: "active_of k' (mark_active S k p) = active_of k' p + (if k' = k then 1 else 0)"
  by (cases "state_or_insert S k p")
    (auto simp: mark_active_def active_of_put dest: active_of_insert [of S k p _ _ k'])

lemma active_of_record: "active_of k' (record_generation S k g p) = active_of k' p"
  by (cases "state_or_insert S k p")
    (auto simp: record_generation_def active_of_put dest: active_of_insert [of S k p _ _ k'])

lemma active_of_return:
  "active_of k' (fst (return_healthy S now l p)) = active_of k' p - (if k' = lease_key l then 1 else 0)"
  by (cases "state_or_insert S (lease_key l) p")
    (auto simp: return_healthy_def Let_def active_of_put dest: active_of_insert [of S "lease_key l" p _ _ k'])

lemma active_of_unmark:
  "active_of k' (fst (unmark_active_and_notify k p)) = active_of k' p - (if k' = k then 1 else 0)"
  by (cases "map_of (inner p) k") (auto simp: unmark_active_and_notify_def active_of_put active_of_lookup)

lemma active_of_forget:
  "active_of k' (fst (forget_active k p)) = active_of k' p - (if k' = k then 1 else 0)"
  by (cases "map_of (inner p) k")
    (auto simp: forget_active_def Let_def active_of_def put_state_def)

lemma active_of_invalidate: "active_of k' (fst (invalidate_generation S k g p)) = active_of k' p"
  by (cases "map_of (inner p) k")
    (auto simp: invalidate_generation_def Let_def active_of_fold_release active_of_put active_of_lookup)

lemma active_of_retained:
  assumes "distinct (map fst m)"
  shows "(case map_of (retained keep m) k of None \<Rightarrow> 0 | Some st \<Rightarrow> active st)
    = (case map_of m k of None \<Rightarrow> 0 | Some st \<Rightarrow> active st)"
  using assms
proof (induction m)
  case (Cons x m)
  obtain k' st where x: "x = (k', st)" by (cases x)
  have "k' \<notin> fst ` set (retained keep m)"
    using Cons.prems x by (force simp: retained_def)
  then have none: "map_of (retained keep m) k' = None" by (simp add: map_of_eq_None_iff)
  show ?case
    using Cons none unfolding x retained_Cons by auto
qed (simp add: retained_def)

lemma active_of_retain:
  assumes "distinct (map fst (inner p))"
  shows "active_of k (fst (retain_idle S keep p)) = active_of k p"
  using active_of_retained [OF assms, of keep k]
  by (simp add: active_of_def retain_idle_def Let_def retained_def)

definition active_exact :: "('k, 'r, 's) pool_system \<Rightarrow> bool" where
  "active_exact s \<longleftrightarrow> (\<forall>k. active_of k (shared s) = counted_tasks k s)"

lemma active_exact_move:
  assumes ex: "active_exact s" and i: "i < length (tasks s)"
    and s': "tasks s' = (tasks s)[i := ph]"
    and ch: "\<And>k. active_of k (shared s') = active_of k (shared s) + counted k ph - counted k (tasks s ! i)"
  shows "active_exact s'"
  unfolding active_exact_def
proof
  fix k
  have "counted_tasks k s' + counted k (tasks s ! i) = counted_tasks k s + counted k ph"
    using sum_list_update [OF i, of "counted k" ph] by (simp add: counted_tasks_def s')
  moreover have "active_of k (shared s) = counted_tasks k s" using ex by (simp add: active_exact_def)
  ultimately show "active_of k (shared s') = counted_tasks k s'" using ch [of k] by linarith
qed

lemma active_exact_look:
  assumes "active_exact s" "i < length (tasks s)" "checkout_idle k (shared s) = (p, l)"
    and "\<And>k. counted k (tasks s ! i) = 0" "\<And>k. counted k ph = 0"
  shows "active_exact (set_task i (case l of Some l \<Rightarrow> Leased l | None \<Rightarrow> ph) (update_pool (p, []) s))"
proof -
  let ?ph = "case l of Some l \<Rightarrow> Leased l | None \<Rightarrow> ph"
  have "counted k' ?ph = (if k' = k \<and> l \<noteq> None then 1 else 0)" for k'
    using active_of_checkout [OF assms(3)] assms(5) by (cases l) (auto simp: counted_def)
  then show ?thesis
    using active_of_checkout [OF assms(3)] assms(4)
    by (intro active_exact_move [OF assms(1,2), where ph = ?ph]) simp_all
qed

lemma task_step_exact:
  assumes ex: "active_exact s" and i: "i < length (tasks s)" and st: "task_step S i (tasks s ! i) s = Some s'"
  shows "active_exact s'"
proof -
  note move = active_exact_move [OF ex i]
  show ?thesis
  proof (cases "tasks s ! i")
    case (Looking k)
    obtain p l where "checkout_idle k (shared s) = (p, l)" by fastforce
    with active_exact_look [OF ex i this, of "Handling k"] st Looking show ?thesis by (simp add: counted_def)
  next
    case (Rechecking k sid)
    obtain p l where "checkout_idle k (shared s) = (p, l)" by fastforce
    with active_exact_look [OF ex i this, of "Counting k sid"] st Rechecking show ?thesis by (simp add: counted_def)
  next
    case (Handling k)
    obtain p sid where p: "pool_handles S k (shared s) = (p, sid)" by fastforce
    with st Handling show ?thesis
      by (intro move [where ph = "Acquiring k sid"]) (auto simp: counted_def active_of_handles [OF p])
  next
    case (Acquiring k sid)
    with st show ?thesis
      by (intro move [where ph = "if try_acquire S sid (shared s) = None then Rechecking k sid else Marking k sid"])
        (auto simp: counted_def try_acquire_def active_of_sems split: option.splits)
  next
    case (Counting k sid)
    with st show ?thesis
      by (intro move [where ph = "if sem_avail S (sems (shared s) ! sid) > 0 then Looking k else Awaiting k sid"])
        (auto simp: counted_def)
  next
    case (Marking k sid)
    with st show ?thesis
      by (intro move [where ph = "Creating k sid"]) (auto simp: counted_def active_of_mark)
  next
    case (Recording k sid g r)
    with st show ?thesis
      by (intro move [where ph = "Leased \<lparr>lease_key = k, lease_resource = r, lease_generation = g, lease_permit = sid\<rparr>"])
        (auto simp: counted_def active_of_record)
  next
    case (Unmarking k sid)
    with st show ?thesis
      by (intro move [where ph = "Releasing sid"]) (auto simp: counted_def active_of_unmark)
  next
    case (Releasing sid)
    with st show ?thesis by (intro move [where ph = Finished]) (auto simp: counted_def active_of_release)
  next
    case (Awaiting k sid)
    with st show ?thesis by (intro move [where ph = "Looking k"]) (auto simp: counted_def split: if_splits)
  next
    case (Dropping k)
    with st show ?thesis by (intro move [where ph = Finished]) (auto simp: counted_def active_of_forget)
  qed (use st in simp_all)
qed

fun is_cancel :: "('k, 'r) pool_event \<Rightarrow> bool" where
  "is_cancel (Cancel i) = True"
| "is_cancel _ = False"

lemma exec_event_exact:
  assumes ex: "active_exact s" and st: "exec_event S ev s = Some s'" and nc: "\<not> is_cancel ev"
    and d: "distinct (map fst (inner (shared s)))"
  shows "active_exact s'"
proof (cases ev)
  case (Spawn k)
  with ex st show ?thesis by (auto simp: active_exact_def counted_tasks_def counted_def)
next
  case (Step i)
  with ex st show ?thesis by (auto split: if_splits intro: task_step_exact)
next
  case (CreateOk i r)
  then obtain k sid where c: "i < length (tasks s)" "tasks s ! i = Creating k sid"
      "tasks s' = (tasks s)[i := Recording k sid (snd (allocate_generation (shared s))) r]"
      "shared s' = fst (allocate_generation (shared s))"
    using st by (auto simp: Let_def split: if_splits phase.splits prod.splits)
  show ?thesis
    by (rule active_exact_move [OF ex c(1,3)]) (simp add: c counted_def allocate_generation_def active_of_def)
next
  case (CreateErr i)
  then obtain k sid where c: "i < length (tasks s)" "tasks s ! i = Creating k sid"
      "s' = set_task i (Unmarking k sid) s"
    using st by (auto split: if_splits phase.splits)
  show ?thesis
    by (rule active_exact_move [OF ex c(1), where ph = "Unmarking k sid"]) (simp_all add: c counted_def)
next
  case (Return i now)
  then obtain l where l: "i < length (tasks s)" "tasks s ! i = Leased l"
      "s' = set_task i Finished (update_pool (return_healthy S now l (shared s)) s)"
    using st by (auto split: if_splits phase.splits)
  show ?thesis
    by (rule active_exact_move [OF ex l(1), where ph = Finished]) (auto simp: l counted_def active_of_return)
next
  case (Drop i)
  then obtain l where l: "i < length (tasks s)" "tasks s ! i = Leased l"
      "s' = set_task i (Dropping (lease_key l)) (update_pool (release S (lease_permit l) (shared s), []) s)"
    using st by (auto split: if_splits phase.splits)
  show ?thesis
    by (rule active_exact_move [OF ex l(1), where ph = "Dropping (lease_key l)"])
      (auto simp: l counted_def active_of_release)
next
  case (Retain keep)
  with ex st d show ?thesis by (auto simp: active_exact_def counted_tasks_def active_of_retain)
next
  case (Invalidate k g)
  with st have "shared s' = fst (invalidate_generation S k g (shared s))" "tasks s' = tasks s"
    by (auto simp: Let_def split: prod.splits)
  with ex show ?thesis by (simp add: active_exact_def counted_tasks_def active_of_invalidate)
qed (use nc in simp)

context counting_semaphore
begin

lemma reachable_exact:
  "reachable S cap mi (\<lambda>ev. \<not> is_cancel ev) s \<Longrightarrow> active_exact s"
proof (induction rule: reachable.induct)
  case reachable_init
  show ?case by (simp add: active_exact_def system_init_def pool_new_def active_of_def counted_tasks_def)
next
  case (reachable_step s ev s')
  have "distinct (map fst (inner (shared s)))"
    using reachable_ok [OF reachable_step(1)] by (simp add: system_ok_def pool_ok_def)
  with reachable_step show ?case using exec_event_exact by blast
qed

end

section \<open>Properties\<close>

lemma run_events_reachable:
  "run_events S es s = Some s' \<Longrightarrow> list_all allowed es \<Longrightarrow> reachable S cap mi allowed s
    \<Longrightarrow> reachable S cap mi allowed s'"
  by (induction es arbitrary: s) (auto split: option.splits intro: reachable_step)

text \<open>A schedule: two tasks of one key and a pool of capacity two; one connection is
  returned, the other in use.\<close>

definition demo_events :: "(nat, nat) pool_event list" where
  "demo_events =
    [Spawn 7, Step 0, Step 0, Step 0, Step 0, CreateOk 0 10, Step 0,
     Spawn 7, Step 1, Step 1, Step 1, Step 1, CreateOk 1 11, Step 1, Return 0 5]"

definition demo_state :: "(nat, nat, nat) pool_system" where
  "demo_state = the (run_events nat_semaphore demo_events (system_init 2 60))"

lemmas run_simps =
  system_init_def pool_new_def checkout_idle_def pool_handles_def try_acquire_def release_def
  mark_active_def unmark_active_and_notify_def record_generation_def allocate_generation_def
  return_healthy_def forget_active_def retain_idle_def put_state_def state_or_insert_def pool_state_new_def
  set_task_def update_pool_def nat_semaphore_def sat_add_def Let_def

lemma demo_run: "run_events nat_semaphore demo_events (system_init 2 60) = Some demo_state"
  by (simp add: demo_state_def demo_events_def run_simps)

lemma demo_reachable: "list_all allowed demo_events \<Longrightarrow> reachable nat_semaphore 2 60 allowed demo_state"
  by (rule run_events_reachable [OF demo_run]) (auto intro: reachable_init)

lemma demo_values:
  "sems (shared demo_state) = [0]" "idle_holders 0 (shared demo_state) = 1"
  "task_holders 0 demo_state = 1" "active_of 7 (shared demo_state) = 1" "counted_tasks 7 demo_state = 1"
  by (simp_all add: demo_state_def demo_events_def run_simps idle_holders_def idle_holds_def task_holders_def
      holds_def active_of_def counted_tasks_def counted_def)

text \<open>C14. In every state that any interleaving of pool operations reaches, the free permits of
  a semaphore, those kept by idle connections and those held by tasks add up to the capacity
  of the pool: no schedule loses or duplicates a permit.\<close>

theorem pool_permits_conserved:
  assumes "counting_semaphore S" "reachable S cap mi allowed s" "sid < length (sems (shared s))"
  shows "sem_avail S (sems (shared s) ! sid) + idle_holders sid (shared s) + task_holders sid s = max cap 1"
  using counting_semaphore.reachable_ok [OF assms(1,2)] assms(3) by (simp add: system_ok_def unleased_def)

theorem pool_permits_conserved_witness:
  "sem_avail nat_semaphore (sems (shared demo_state) ! 0) + idle_holders 0 (shared demo_state)
      + task_holders 0 demo_state = 2"
  using pool_permits_conserved [OF nat_sem.counting_semaphore_axioms demo_reachable [of "\<lambda>_. True"], of 0]
  by (simp add: demo_events_def demo_values)

text \<open>In every state reached without cancelling a task inside \<^verbatim>\<open>create\<close>, the \<^verbatim>\<open>active\<close> counter
  of a key is exactly the number of tasks that create, lease or are dropping one of its
  connections, also over removals and re-creations of the key's state.\<close>

theorem active_counter_exact:
  assumes "counting_semaphore S" "reachable S cap mi (\<lambda>ev. \<not> is_cancel ev) s"
  shows "active_of k (shared s) = counted_tasks k s"
  using counting_semaphore.reachable_exact [OF assms] by (simp add: active_exact_def)

theorem active_counter_exact_witness:
  "active_of 7 (shared demo_state) = counted_tasks 7 demo_state \<and> counted_tasks 7 demo_state = 1"
  using active_counter_exact [OF nat_sem.counting_semaphore_axioms demo_reachable, of 7]
  by (simp add: demo_events_def demo_values)

text \<open>A cleanup between \<^verbatim>\<open>try_acquire_owned\<close> and \<^verbatim>\<open>mark_active\<close> removes the key's state,
  semaphore and all, while a permit of it is held; the next checkout creates a second
  semaphore, and a pool of capacity one leases two connections of one key.\<close>

theorem capacity_exceeded_after_prune:
  "\<exists>s l l'. reachable nat_semaphore 1 60 (\<lambda>ev. \<not> is_cancel ev) s \<and> tasks s = [Leased l, Leased l']
    \<and> lease_key l = (7::nat) \<and> lease_key l' = 7 \<and> lease_resource l = (10::nat)
    \<and> lease_resource l' = 11 \<and> active_of 7 (shared s) = 2 \<and> capacity (shared s) = 1"
proof -
  let ?es = "[Spawn 7, Step 0, Step 0, Step 0, Retain (\<lambda>_. True), Spawn 7, Step 1, Step 1, Step 1,
    Step 0, CreateOk 0 10, Step 0, Step 1, CreateOk 1 11, Step 1] :: (nat, nat) pool_event list"
  obtain s where r: "run_events nat_semaphore ?es (system_init 1 60) = Some s"
    by (simp add: run_simps)
  have "reachable nat_semaphore 1 60 (\<lambda>ev. \<not> is_cancel ev) s"
    by (rule run_events_reachable [OF r]) (auto intro: reachable_init)
  moreover have "\<exists>l l'. tasks s = [Leased l, Leased l'] \<and> lease_key l = 7 \<and> lease_key l' = 7
      \<and> lease_resource l = 10 \<and> lease_resource l' = 11" "active_of 7 (shared s) = 2" "capacity (shared s) = 1"
    using r by (auto simp: run_simps active_of_def)
  ultimately show ?thesis by blast
qed

text \<open>C37. A failed creation notifies before it drops its permit, and the wake-up is lost.  In every reachable state of any pool in which a creation has
  just failed while another task waits for a permit of that key, none is free, nothing is idle and no notification is outstanding, the
  schedule in which the waiter runs between the notification and the release is possible: the waiter finds no permit and waits again, then the permit becomes
  free, and in the state reached, with the other tasks as they were, the waiter can take no step.\<close>

theorem create_failure_wakeup_lost:
  assumes "counting_semaphore S" "reachable S cap mi allowed s" "\<forall>n. allowed (Step n)"
    and "i < length (tasks s)" "j < length (tasks s)" "tasks s ! i = Unmarking k sid" "tasks s ! j = Awaiting k sid"
    and "map_of (inner (shared s)) k = Some st" "semaphore st = sid" "idle st = []" "sid < length (sems (shared s))"
    and "sem_avail S (sems (shared s) ! sid) = 0" "credits s sid = 0"
  shows "\<exists>s'. run_events S [Step i, Step j, Step j, Step j, Step j, Step j, Step j, Step i] s = Some s' \<and> reachable S cap mi allowed s'
    \<and> tasks s' = (tasks s)[i := Finished] \<and> sem_avail S (sems (shared s') ! sid) = 1 \<and> exec_event S (Step j) s' = None"
proof -
  let ?p = "put_state k (st\<lparr>active := active st - 1\<rparr>) (shared s)"
  have ij: "i \<noteq> j" using assms(6,7) by auto
  have full: "sem_try S (sems (shared s) ! sid) = None" using assms(1,12) by (simp add: counting_semaphore.try_None)
  have p: "map_of (inner ?p) k = Some (st\<lparr>active := active st - 1\<rparr>)" "sems ?p = sems (shared s)" by (simp_all add: put_state_def)
  have same: "(tasks s)[i := x, j := Awaiting k sid] = (tasks s)[i := x]" for x
    using assms(5,7) ij by (metis list_update_id list_update_swap)
  let ?s' = "s\<lparr>shared := release S sid ?p, tasks := (tasks s)[i := Finished], credits := (credits s)(sid := 0)\<rparr>"
  have run: "run_events S [Step i, Step j, Step j, Step j, Step j, Step j, Step j, Step i] s = Some ?s'"
    using assms(4-7,8-10,13) ij full p assms(12) same
    by (simp add: unmark_active_and_notify_def update_pool_def set_task_def checkout_idle_def pool_handles_def state_or_insert_def try_acquire_def
      nth_list_update)
  moreover have "reachable S cap mi allowed ?s'"
    by (rule run_events_reachable [OF run _ assms(2)]) (use assms(3) in simp)
  moreover have "sem_avail S (sems (shared ?s') ! sid) = 1"
    using assms(1,11,12) by (simp add: release_def put_state_def counting_semaphore.avail_release)
  moreover have "exec_event S (Step j) ?s' = None" using assms(5,7) ij by simp
  ultimately show ?thesis by (intro exI[of _ ?s']) simp
qed

definition failing_events :: "(nat, nat) pool_event list" where
  "failing_events =
    [Spawn 7, Step 0, Step 0, Step 0, Step 0, Spawn 7, Step 1, Step 1, Step 1, Step 1, Step 1, CreateErr 0]"

theorem create_failure_wakeup_lost_witness:
  "\<exists>s. reachable nat_semaphore 1 60 (\<lambda>ev. \<not> is_cancel ev) s
    \<and> tasks s = [Finished, Awaiting (7::nat) 0 :: (nat, nat) phase]
    \<and> sem_avail nat_semaphore (sems (shared s) ! 0) = 1 \<and> exec_event nat_semaphore (Step 1) s = None"
proof -
  obtain s where r: "run_events nat_semaphore failing_events (system_init 1 60) = Some s"
    by (simp add: failing_events_def run_simps)
  have reach: "reachable nat_semaphore 1 60 (\<lambda>ev. \<not> is_cancel ev) s"
    by (rule run_events_reachable [OF r]) (auto intro: reachable_init simp: failing_events_def)
  have t: "tasks s = [Unmarking 7 0, Awaiting 7 0]" "sem_avail nat_semaphore (sems (shared s) ! 0) = 0" "0 < length (sems (shared s))"
    "credits s 0 = 0" "\<exists>st. map_of (inner (shared s)) 7 = Some st \<and> semaphore st = 0 \<and> idle st = []"
    using r by (auto simp: failing_events_def run_simps)
  then obtain st where "map_of (inner (shared s)) 7 = Some st" "semaphore st = 0" "idle st = []" by blast
  from create_failure_wakeup_lost [OF nat_sem.counting_semaphore_axioms reach _ _ _ _ _ this _ t(2,4), of 0 1] t(1,3)
  show ?thesis by auto
qed

end
