(* ===== verification/Inventory.thy ===== *)
theory Inventory
  imports File_Path "HOL-Library.Char_ord" "HOL-Library.List_Lexorder" "HOL-Library.Multiset"
begin

text \<open>
  The server inventory and the OpenSSH client configuration:
  \<^verbatim>\<open>src/src/config/inventory.rs\<close>.

  A \<^verbatim>\<open>HashMap\<close> is an association list with distinct keys, whose order is the iteration
  order.  The file system and the TOML parser are arguments; a secret is a value of a type
  variable, and its resolution an argument of \<^verbatim>\<open>resolve_server_entry\<close>.

  The lemmas show what a glob matches, that the settings of a host are taken from the first
  matching block that has them, and that a configuration that loads can be listed.
\<close>

section \<open>Globs\<close>

text \<open>\<^verbatim>\<open>glob_match_inner\<close> on the rest of the pattern and the rest of the text.\<close>

fun glob_match_inner :: "string list \<Rightarrow> string list \<Rightarrow> bool" where
  "glob_match_inner [] t \<longleftrightarrow> t = []"
| "glob_match_inner (p # ps) t \<longleftrightarrow>
    (if p = ''*'' then list_ex (\<lambda>n. glob_match_inner ps (drop n t)) [0..<Suc (length t)]
     else if p = ''?'' then t \<noteq> [] \<and> glob_match_inner ps (tl t)
     else t \<noteq> [] \<and> p = hd t \<and> glob_match_inner ps (tl t))"

definition glob_match :: "string \<Rightarrow> string \<Rightarrow> bool" where
  "glob_match pat s \<longleftrightarrow> glob_match_inner (utf8_chars pat) (utf8_chars s)"

section \<open>Configuration data\<close>

record server_defaults =
  sd_identity_file :: "string option"
  sd_shell :: string

record 'sec server_host_config =
  sh_host :: string
  sh_port :: "nat option"
  sh_user :: string
  sh_identity_file :: "string option"
  sh_password :: "'sec option"
  sh_shell :: "string option"

record 'sec server_config_file =
  defaults :: server_defaults
  servers :: "(string \<times> 'sec server_host_config) list"

datatype direct_auth = KeyAuth string | PasswordAuth string | NoAuth | ReverseProxyAuth

record server_entry =
  se_alias :: string
  se_host :: string
  se_port :: nat
  se_user :: string
  se_auth :: direct_auth

definition auth_kind :: "server_entry \<Rightarrow> string" where
  "auth_kind e =
    (case se_auth e of
       KeyAuth _ \<Rightarrow> ''key'' | PasswordAuth _ \<Rightarrow> ''password'' | NoAuth \<Rightarrow> ''none''
     | ReverseProxyAuth \<Rightarrow> ''reverse_proxy'')"

record ssh_host_entry =
  patterns :: "string list"
  host_name :: "string option"
  sshe_port :: "nat option"
  sshe_user :: "string option"
  sshe_identity_file :: "string option"
  proxy_command :: "string option"
  pubkey_accepted_algorithms :: "string option"

definition ssh_host_default :: ssh_host_entry where
  "ssh_host_default = \<lparr>patterns = [], host_name = None, sshe_port = None, sshe_user = None,
    sshe_identity_file = None, proxy_command = None, pubkey_accepted_algorithms = None\<rparr>"

definition ssh_entry_matches :: "ssh_host_entry \<Rightarrow> string \<Rightarrow> bool" where
  "ssh_entry_matches e host \<longleftrightarrow> list_ex (\<lambda>pat. glob_match pat host) (patterns e)"

datatype config_error =
    ReadFailed
  | ParseFailed
  | NoHomeDir
  | MissingHost string
  | MissingUser string
  | PasswordAndKey string
  | SecretFailed string
  | MissingAuth string

datatype file_state = Absent | Unreadable | Contents string

section \<open>The OpenSSH configuration\<close>

definition ssh_config_step ::
  "string option \<Rightarrow> string \<Rightarrow> ssh_host_entry list \<times> ssh_host_entry
    \<Rightarrow> config_error + ssh_host_entry list \<times> ssh_host_entry" where
  "ssh_config_step home raw_line st =
    (let (entries, current) = st;
         line = trim raw_line
     in if line = [] \<or> starts_with line ''#'' then Inr st
        else
          (let (key, rest) = split_ws_once line;
               v = trim (case rest of Some r \<Rightarrow> r | None \<Rightarrow> [])
           in if eq_ignore_ascii_case key ''Host''
              then Inr (if patterns current \<noteq> [] then entries @ [current] else entries,
                        ssh_host_default\<lparr>patterns := split_whitespace v\<rparr>)
              else
                (let k = lowercase key
                 in if k = ''hostname'' then Inr (entries, current\<lparr>host_name := Some v\<rparr>)
                    else if k = ''port'' then Inr (entries, current\<lparr>sshe_port := parse_uint u16_max v\<rparr>)
                    else if k = ''user'' then Inr (entries, current\<lparr>sshe_user := Some v\<rparr>)
                    else if k = ''identityfile'' then
                      (case expand_tilde home v of
                         Some f \<Rightarrow> Inr (entries, current\<lparr>sshe_identity_file := Some f\<rparr>)
                       | None \<Rightarrow> Inl NoHomeDir)
                    else if k = ''proxycommand'' then Inr (entries, current\<lparr>proxy_command := Some v\<rparr>)
                    else if k = ''pubkeyacceptedalgorithms''
                      then Inr (entries, current\<lparr>pubkey_accepted_algorithms := Some v\<rparr>)
                    else Inr st)))"

fun ssh_config_loop ::
  "string option \<Rightarrow> string list \<Rightarrow> ssh_host_entry list \<times> ssh_host_entry
    \<Rightarrow> config_error + ssh_host_entry list \<times> ssh_host_entry" where
  "ssh_config_loop home [] st = Inr st"
| "ssh_config_loop home (l # ls) st =
    (case ssh_config_step home l st of Inl e \<Rightarrow> Inl e | Inr st' \<Rightarrow> ssh_config_loop home ls st')"

definition parse_ssh_config :: "string option \<Rightarrow> file_state \<Rightarrow> config_error + ssh_host_entry list" where
  "parse_ssh_config home file =
    (case file of
       Absent \<Rightarrow> Inr []
     | Unreadable \<Rightarrow> Inl ReadFailed
     | Contents content \<Rightarrow>
        (case ssh_config_loop home (rust_lines content) ([], ssh_host_default) of
           Inl e \<Rightarrow> Inl e
         | Inr (entries, current) \<Rightarrow>
            Inr (if patterns current \<noteq> [] then entries @ [current] else entries)))"

definition or_set :: "'a option \<Rightarrow> 'a option \<Rightarrow> 'a option" where
  "or_set old new = (case old of None \<Rightarrow> new | Some _ \<Rightarrow> old)"

definition merge_ssh_entry :: "ssh_host_entry \<Rightarrow> ssh_host_entry \<Rightarrow> ssh_host_entry" where
  "merge_ssh_entry e r =
    r\<lparr>host_name := or_set (host_name r) (host_name e),
      sshe_port := or_set (sshe_port r) (sshe_port e),
      sshe_user := or_set (sshe_user r) (sshe_user e),
      sshe_identity_file := or_set (sshe_identity_file r) (sshe_identity_file e),
      proxy_command := or_set (proxy_command r) (proxy_command e),
      pubkey_accepted_algorithms :=
        or_set (pubkey_accepted_algorithms r) (pubkey_accepted_algorithms e)\<rparr>"

definition resolve_ssh_host :: "ssh_host_entry list \<Rightarrow> string \<Rightarrow> ssh_host_entry option" where
  "resolve_ssh_host entries host =
    (let hits = filter (\<lambda>e. ssh_entry_matches e host) entries
     in if hits = [] then None
        else Some (fold merge_ssh_entry hits (ssh_host_default\<lparr>patterns := [host]\<rparr>)))"

section \<open>The server inventory\<close>

definition resolve_server_entry ::
  "string \<Rightarrow> 'sec server_host_config \<Rightarrow> server_defaults \<Rightarrow> ('sec \<Rightarrow> string option) option
    \<Rightarrow> config_error + server_entry" where
  "resolve_server_entry alias server dflt resolver =
    (let auth =
       (case sh_password server of
          Some password \<Rightarrow>
            (case resolver of
               Some resolve \<Rightarrow>
                 (case resolve password of
                    Some plain \<Rightarrow> Inr (PasswordAuth plain) | None \<Rightarrow> Inl (SecretFailed alias))
             | None \<Rightarrow> Inr (PasswordAuth []))
        | None \<Rightarrow>
            (case sh_identity_file server of
               Some f \<Rightarrow> Inr (KeyAuth f)
             | None \<Rightarrow>
                (case sd_identity_file dflt of
                   Some f \<Rightarrow> Inr (KeyAuth f) | None \<Rightarrow> Inl (MissingAuth alias))))
     in case auth of
          Inl e \<Rightarrow> Inl e
        | Inr a \<Rightarrow>
            Inr \<lparr>se_alias = alias, se_host = sh_host server,
                 se_port = (case sh_port server of Some p \<Rightarrow> p | None \<Rightarrow> 22),
                 se_user = sh_user server, se_auth = a\<rparr>)"

fun expand_server_paths ::
  "string option \<Rightarrow> (string \<times> 'sec server_host_config) list
    \<Rightarrow> config_error + (string \<times> 'sec server_host_config) list" where
  "expand_server_paths home [] = Inr []"
| "expand_server_paths home ((alias, s) # rest) =
    (case (case sh_identity_file s of
             None \<Rightarrow> Some s
           | Some f \<Rightarrow> map_option (\<lambda>g. s\<lparr>sh_identity_file := Some g\<rparr>) (expand_tilde home f)) of
       None \<Rightarrow> Inl NoHomeDir
     | Some s' \<Rightarrow>
        (case expand_server_paths home rest of
           Inl e \<Rightarrow> Inl e | Inr rest' \<Rightarrow> Inr ((alias, s') # rest')))"

definition expand_server_config_paths ::
  "string option \<Rightarrow> 'sec server_config_file \<Rightarrow> config_error + 'sec server_config_file" where
  "expand_server_config_paths home cfg =
    (case (case sd_identity_file (defaults cfg) of
             None \<Rightarrow> Some (defaults cfg)
           | Some f \<Rightarrow>
              map_option (\<lambda>g. (defaults cfg)\<lparr>sd_identity_file := Some g\<rparr>) (expand_tilde home f)) of
       None \<Rightarrow> Inl NoHomeDir
     | Some d \<Rightarrow>
        (case expand_server_paths home (servers cfg) of
           Inl e \<Rightarrow> Inl e
         | Inr ss \<Rightarrow> Inr (cfg\<lparr>defaults := d, servers := ss\<rparr>)))"

fun validate_servers ::
  "server_defaults \<Rightarrow> (string \<times> 'sec server_host_config) list \<Rightarrow> config_error option" where
  "validate_servers dflt [] = None"
| "validate_servers dflt ((alias, s) # rest) =
    (if trim (sh_host s) = [] then Some (MissingHost alias)
     else if trim (sh_user s) = [] then Some (MissingUser alias)
     else if sh_password s \<noteq> None \<and> sh_identity_file s \<noteq> None then Some (PasswordAndKey alias)
     else (case resolve_server_entry alias s dflt None of
             Inl e \<Rightarrow> Some e | Inr _ \<Rightarrow> validate_servers dflt rest))"

definition validate_server_config :: "'sec server_config_file \<Rightarrow> config_error option" where
  "validate_server_config cfg = validate_servers (defaults cfg) (servers cfg)"

definition empty_server_config :: "'sec server_config_file" where
  "empty_server_config = \<lparr>defaults = \<lparr>sd_identity_file = None, sd_shell = []\<rparr>, servers = []\<rparr>"

definition load_server_config ::
  "(string \<Rightarrow> 'sec server_config_file option) \<Rightarrow> string option \<Rightarrow> file_state
    \<Rightarrow> config_error + 'sec server_config_file" where
  "load_server_config from_toml home file =
    (case file of
       Absent \<Rightarrow> Inr empty_server_config
     | Unreadable \<Rightarrow> Inl ReadFailed
     | Contents raw \<Rightarrow>
        (case from_toml raw of
           None \<Rightarrow> Inl ParseFailed
         | Some cfg \<Rightarrow>
            (case expand_server_config_paths home cfg of
               Inl e \<Rightarrow> Inl e
             | Inr cfg' \<Rightarrow>
                (case validate_server_config cfg' of Some e \<Rightarrow> Inl e | None \<Rightarrow> Inr cfg'))))"

fun resolve_all ::
  "server_defaults \<Rightarrow> (string \<times> 'sec server_host_config) list \<Rightarrow> config_error + server_entry list" where
  "resolve_all dflt [] = Inr []"
| "resolve_all dflt ((alias, s) # rest) =
    (case resolve_server_entry alias s dflt None of
       Inl e \<Rightarrow> Inl e
     | Inr x \<Rightarrow> (case resolve_all dflt rest of Inl e \<Rightarrow> Inl e | Inr xs \<Rightarrow> Inr (x # xs)))"

definition list_server_entries ::
  "(string \<Rightarrow> 'sec server_config_file option) \<Rightarrow> string option \<Rightarrow> file_state
    \<Rightarrow> config_error + server_entry list" where
  "list_server_entries from_toml home file =
    (case load_server_config from_toml home file of
       Inl e \<Rightarrow> Inl e
     | Inr cfg \<Rightarrow>
        (case resolve_all (defaults cfg) (servers cfg) of
           Inl e \<Rightarrow> Inl e | Inr es \<Rightarrow> Inr (sort_key se_alias es)))"

section \<open>What a glob matches\<close>

text \<open>The laws that a glob matcher over code points gives its callers; \<^verbatim>\<open>wild\<close> are the
  characters besides the star that do not stand for themselves.\<close>

locale glob_matcher =
  fixes matcher :: "string list \<Rightarrow> string list \<Rightarrow> bool" and wild :: "string \<Rightarrow> bool"
  assumes match_Nil: "matcher [] t \<longleftrightarrow> t = []"
    and match_star: "matcher (''*'' # ps) t \<longleftrightarrow> (\<exists>u v. t = u @ v \<and> matcher ps v)"
    and match_literal: "p \<noteq> ''*'' \<Longrightarrow> \<not> wild p \<Longrightarrow> matcher (p # ps) t \<longleftrightarrow> (\<exists>v. t = p # v \<and> matcher ps v)"
begin

definition literal :: "string list \<Rightarrow> bool" where
  "literal ps \<longleftrightarrow> (\<forall>p \<in> set ps. p \<noteq> ''*'' \<and> \<not> wild p)"

lemma literal_append: "literal ps \<Longrightarrow> matcher (ps @ qs) t \<longleftrightarrow> (\<exists>v. t = ps @ v \<and> matcher qs v)"
  by (induction ps arbitrary: t) (auto simp: literal_def match_literal)

lemma literal_iff: "literal ps \<Longrightarrow> matcher ps t \<longleftrightarrow> t = ps"
  using literal_append [of ps "[]" t] by (simp add: match_Nil)

lemma star_matches_all: "matcher [''*''] t"
  by (simp add: match_star match_Nil)

lemma literal_star: "literal ps \<Longrightarrow> matcher (ps @ [''*'']) t \<longleftrightarrow> prefix ps t"
  by (simp add: literal_append star_matches_all prefix_def)

lemma star_literal: "literal ps \<Longrightarrow> matcher (''*'' # ps) t \<longleftrightarrow> suffix ps t"
  by (auto simp: match_star literal_iff suffix_def)

end

lemma list_ex_drop: "list_ex (\<lambda>n. P (drop n t)) [0..<Suc (length t)] \<longleftrightarrow> (\<exists>u v. t = u @ v \<and> P v)"
proof -
  have "(\<exists>n < Suc (length t). P (drop n t)) \<longleftrightarrow> (\<exists>u v. t = u @ v \<and> P v)"
    by (metis append_eq_conv_conj append_take_drop_id length_append less_Suc_eq_le le_add1)
  then show ?thesis by (auto simp: list_ex_iff simp del: upt_Suc)
qed

interpretation ssh_glob: glob_matcher glob_match_inner "\<lambda>p. p = ''?''"
proof
  fix p :: string and ps t :: "string list"
  show "glob_match_inner [] t \<longleftrightarrow> t = []" by simp
  show "glob_match_inner (''*'' # ps) t \<longleftrightarrow> (\<exists>u v. t = u @ v \<and> glob_match_inner ps v)"
    by (simp add: list_ex_drop del: upt_Suc)
  show "p \<noteq> ''*'' \<Longrightarrow> \<not> p = ''?'' \<Longrightarrow> glob_match_inner (p # ps) t \<longleftrightarrow> (\<exists>v. t = p # v \<and> glob_match_inner ps v)"
    by (cases t) auto
qed

lemma glob_question: "glob_match_inner (''?'' # ps) t \<longleftrightarrow> (\<exists>c v. t = c # v \<and> glob_match_inner ps v)"
  by (cases t) auto

section \<open>First match wins\<close>

definition first_some :: "('a \<Rightarrow> 'b option) \<Rightarrow> 'a list \<Rightarrow> 'b option" where
  "first_some f xs = (case find (\<lambda>x. f x \<noteq> None) xs of None \<Rightarrow> None | Some x \<Rightarrow> f x)"

lemma first_some_simps [simp]:
  "first_some f [] = None"
  "first_some f (x # xs) = or_set (f x) (first_some f xs)"
  by (auto simp: first_some_def or_set_def split: option.splits)

lemma or_set_assoc: "or_set (or_set a b) c = or_set a (or_set b c)"
  by (cases a) (simp_all add: or_set_def)

lemma or_set_None [simp]: "or_set None b = b" "or_set a None = a"
  by (simp_all add: or_set_def split: option.splits)

lemma fold_merge:
  "fold merge_ssh_entry es r =
    r\<lparr>host_name := or_set (host_name r) (first_some host_name es),
      sshe_port := or_set (sshe_port r) (first_some sshe_port es),
      sshe_user := or_set (sshe_user r) (first_some sshe_user es),
      sshe_identity_file := or_set (sshe_identity_file r) (first_some sshe_identity_file es),
      proxy_command := or_set (proxy_command r) (first_some proxy_command es),
      pubkey_accepted_algorithms :=
        or_set (pubkey_accepted_algorithms r) (first_some pubkey_accepted_algorithms es)\<rparr>"
  by (induction es arbitrary: r) (simp_all add: merge_ssh_entry_def or_set_assoc)

section \<open>Properties\<close>

text \<open>The settings of a host: every one is taken from the first matching block that has
  it, a later block only fills what is still open, and there is a result exactly when some
  block matches.\<close>

theorem resolve_ssh_host_first_match:
  "resolve_ssh_host entries host =
    (let hits = filter (\<lambda>e. ssh_entry_matches e host) entries
     in if hits = [] then None
        else Some \<lparr>patterns = [host], host_name = first_some host_name hits,
          sshe_port = first_some sshe_port hits, sshe_user = first_some sshe_user hits,
          sshe_identity_file = first_some sshe_identity_file hits,
          proxy_command = first_some proxy_command hits,
          pubkey_accepted_algorithms = first_some pubkey_accepted_algorithms hits\<rparr>)"
  by (simp add: resolve_ssh_host_def Let_def fold_merge ssh_host_default_def)

lemma validate_servers_ok:
  assumes "validate_servers dflt ss = None"
  shows "\<exists>es. resolve_all dflt ss = Inr es \<and> map se_alias es = map fst ss
    \<and> map se_host es = map (sh_host \<circ> snd) ss
    \<and> (\<forall>e \<in> set es. trim (se_host e) \<noteq> [] \<and> trim (se_user e) \<noteq> []
        \<and> (\<exists>f. se_auth e = KeyAuth f \<or> se_auth e = PasswordAuth []))"
  using assms
proof (induction ss)
  case (Cons x ss)
  obtain al s where x: "x = (al, s)" by (cases x)
  obtain e where e: "resolve_server_entry al s dflt None = Inr e"
    using Cons.prems x by (auto split: if_splits sum.splits)
  then have "se_alias e = al" "se_host e = sh_host s" "se_user e = sh_user s"
      "\<exists>f. se_auth e = KeyAuth f \<or> se_auth e = PasswordAuth []"
    by (auto simp: resolve_server_entry_def Let_def split: option.splits)
  with Cons e x show ?case by (fastforce split: if_splits)
qed simp

text \<open>An inventory that loads can be listed: every server gives one entry, in the order
  of the aliases, with a host, a user and a way to authenticate.\<close>

theorem loaded_inventory_lists:
  assumes "load_server_config from_toml home file = Inr cfg"
  shows "\<exists>es. list_server_entries from_toml home file = Inr es \<and> sorted (map se_alias es)
    \<and> mset (map se_alias es) = mset (map fst (servers cfg))
    \<and> (\<forall>e \<in> set es. trim (se_host e) \<noteq> [] \<and> trim (se_user e) \<noteq> []
        \<and> (\<exists>f. se_auth e = KeyAuth f \<or> se_auth e = PasswordAuth []))"
proof -
  have "validate_server_config cfg = None"
    using assms
    by (auto simp: load_server_config_def validate_server_config_def empty_server_config_def
        split: file_state.splits option.splits sum.splits)
  from validate_servers_ok [OF this [unfolded validate_server_config_def]]
  obtain es where es: "resolve_all (defaults cfg) (servers cfg) = Inr es"
      "map se_alias es = map fst (servers cfg)"
      "\<forall>e \<in> set es. trim (se_host e) \<noteq> [] \<and> trim (se_user e) \<noteq> []
        \<and> (\<exists>f. se_auth e = KeyAuth f \<or> se_auth e = PasswordAuth [])"
    by blast
  from es(1) assms have "list_server_entries from_toml home file = Inr (sort_key se_alias es)"
    by (simp add: list_server_entries_def)
  moreover have "mset (map se_alias (sort_key se_alias es)) = mset (map fst (servers cfg))"
    unfolding mset_map mset_sort es(2) [symmetric] by simp
  ultimately show ?thesis using es(3) by auto
qed

definition demo_inventory :: "unit server_config_file" where
  "demo_inventory = \<lparr>defaults = \<lparr>sd_identity_file = Some ''/k'', sd_shell = []\<rparr>,
    servers = [(''web'', \<lparr>sh_host = ''h2'', sh_port = None, sh_user = ''u'', sh_identity_file = None,
                  sh_password = None, sh_shell = None\<rparr>),
               (''db'', \<lparr>sh_host = ''h1'', sh_port = Some 2222, sh_user = ''u'', sh_identity_file = None,
                  sh_password = Some (), sh_shell = None\<rparr>)]\<rparr>"

lemma demo_trims: "trim ''h1'' = ''h1''" "trim ''h2'' = ''h2''" "trim ''u'' = ''u''"
  by (auto intro!: trim_trimmed trimmedI simp: ws_byte_def)

lemma demo_inventory_loads:
  "load_server_config (\<lambda>_. Some demo_inventory) None (Contents []) = Inr demo_inventory"
  by (simp add: load_server_config_def demo_inventory_def expand_server_config_paths_def expand_tilde_def
      validate_server_config_def resolve_server_entry_def demo_trims)

theorem loaded_inventory_lists_witness:
  "\<exists>es. list_server_entries (\<lambda>_. Some demo_inventory) None (Contents []) = Inr es
    \<and> sorted (map se_alias es) \<and> mset (map se_alias es) = {#''web'', ''db''#}"
  using loaded_inventory_lists [OF demo_inventory_loads] by (auto simp: demo_inventory_def add_mset_commute)

end
