(* ===== verification/Shared_Types.thy ===== *)
theory Shared_Types
  imports Rust_Prelude
begin

text \<open>
  Types shared by the client and the daemon, and the small decisions on them:
  \<^verbatim>\<open>src/src/types.rs\<close>, \<^verbatim>\<open>src/src/exit_codes.rs\<close>, \<^verbatim>\<open>src/src/config/duration.rs\<close> and the error
  and timeout handling of \<^verbatim>\<open>src/src/cli/mod.rs\<close>.

  A \<^verbatim>\<open>u64\<close> product wraps, as it does in a release build.  The lemmas show that addresses and
  durations read back what is written, where the exit codes of remote commands and of the
  tool itself can coincide, and what an overlong duration turns into.
\<close>

section \<open>Exit codes\<close>

definition EXIT_SUCCESS :: int where "EXIT_SUCCESS = 0"

definition EXIT_GENERAL_ERROR :: int where "EXIT_GENERAL_ERROR = 1"

definition EXIT_USAGE_ERROR :: int where "EXIT_USAGE_ERROR = 2"

definition EXIT_TIMEOUT :: int where "EXIT_TIMEOUT = 124"

definition EXIT_INTERNAL :: int where "EXIT_INTERNAL = 125"

definition EXIT_CANNOT_EXECUTE :: int where "EXIT_CANNOT_EXECUTE = 126"

definition EXIT_TARGET_NOT_FOUND :: int where "EXIT_TARGET_NOT_FOUND = 127"

lemmas exit_defs = EXIT_SUCCESS_def EXIT_GENERAL_ERROR_def EXIT_USAGE_ERROR_def EXIT_TIMEOUT_def
  EXIT_INTERNAL_def EXIT_CANNOT_EXECUTE_def EXIT_TARGET_NOT_FOUND_def

definition cap_remote_exit_code :: "int \<Rightarrow> int" where
  "cap_remote_exit_code c = (if c < 0 then EXIT_INTERNAL else if c \<ge> 124 then 123 else c)"

datatype xho_error =
    Timeout string
  | Internal string
  | UsageError string
  | CannotExecute string
  | TargetNotFound string
  | General string

fun exit_code :: "xho_error \<Rightarrow> int" where
  "exit_code (Timeout _) = EXIT_TIMEOUT"
| "exit_code (Internal _) = EXIT_INTERNAL"
| "exit_code (UsageError _) = EXIT_USAGE_ERROR"
| "exit_code (CannotExecute _) = EXIT_CANNOT_EXECUTE"
| "exit_code (TargetNotFound _) = EXIT_TARGET_NOT_FOUND"
| "exit_code (General _) = EXIT_GENERAL_ERROR"

fun xho_message :: "xho_error \<Rightarrow> string" where
  "xho_message (Timeout detail) =
    (if trim detail = [] then ''operation timed out'' else ''operation timed out: '' @ detail)"
| "xho_message (Internal msg) = msg"
| "xho_message (UsageError msg) = msg"
| "xho_message (CannotExecute msg) = msg"
| "xho_message (TargetNotFound msg) = msg"
| "xho_message (General msg) = msg"

definition classify_daemon_error :: "string \<Rightarrow> xho_error" where
  "classify_daemon_error msg =
    (let lower = lowercase msg; has = contains_sub lower
     in if has ''[resolution]'' \<or> has ''not found'' \<or> has ''unknown target'' \<or> has ''[unsupported]''
          \<or> has ''no route'' then TargetNotFound msg
        else if has ''auth'' \<or> has ''denied'' \<or> has ''review'' \<or> has ''host key'' \<or> has ''permission denied''
          then CannotExecute msg
        else if has ''timed out'' \<or> has ''timeout'' then Timeout msg
        else if has ''[transport]'' \<or> has ''connection'' then Internal msg
        else General msg)"

section \<open>Durations\<close>

text \<open>A duration is its number of seconds; the fields here never have a fraction.\<close>

definition mul_u64 :: "nat \<Rightarrow> nat \<Rightarrow> nat" where
  "mul_u64 a b = wrap_u64 (a * b)"

definition parse_duration :: "string \<Rightarrow> string + nat" where
  "parse_duration v =
    (if v = [] then Inl ''duration is empty''
     else
       (case parse_uint u64_max v of
          Some seconds \<Rightarrow> Inr seconds
        | None \<Rightarrow>
           (if list_all is_ascii_digit v then Inl (''invalid duration '' @ v)
            else
              (let unit = dropWhile is_ascii_digit v
               in case parse_uint u64_max (takeWhile is_ascii_digit v) of
                    None \<Rightarrow> Inl (''invalid duration number '' @ v)
                  | Some amount \<Rightarrow>
                     if unit = ''s'' then Inr amount
                     else if unit = ''m'' then Inr (mul_u64 amount 60)
                     else if unit = ''h'' then Inr (mul_u64 (mul_u64 amount 60) 60)
                     else if unit = ''d'' then Inr (mul_u64 (mul_u64 (mul_u64 amount 60) 60) 24)
                     else Inl (''invalid duration unit '' @ unit)))))"

definition serialize_duration :: "nat \<Rightarrow> string" where
  "serialize_duration secs = show_nat secs @ ''s''"

text \<open>The values a configuration file can give for a duration.\<close>

datatype config_value = IntValue int | StrValue string | NullValue | OtherValue

definition deserialize_duration :: "config_value \<Rightarrow> string + nat" where
  "deserialize_duration v =
    (case v of
       IntValue i \<Rightarrow> if i < 0 then Inl ''duration must be positive'' else Inr (nat i)
     | StrValue s \<Rightarrow> parse_duration s
     | _ \<Rightarrow> Inl ''an integer number of seconds or a duration string like 10s'')"

text \<open>The callbacks a deserializer makes for an optional duration: formats with options report
  presence, others the value itself.\<close>

datatype visit = VisitNone | VisitUnit | VisitSome config_value | VisitU64 nat | VisitStr string

fun deserialize_optional_duration :: "visit \<Rightarrow> string + nat option" where
  "deserialize_optional_duration VisitNone = Inr None"
| "deserialize_optional_duration VisitUnit = Inr None"
| "deserialize_optional_duration (VisitSome v) =
    (case deserialize_duration v of Inl e \<Rightarrow> Inl e | Inr d \<Rightarrow> Inr (Some d))"
| "deserialize_optional_duration (VisitU64 n) = Inr (Some n)"
| "deserialize_optional_duration (VisitStr s) =
    (if s = [] then Inr None else (case parse_duration s of Inl e \<Rightarrow> Inl e | Inr d \<Rightarrow> Inr (Some d)))"

definition serialize_optional_duration :: "nat option \<Rightarrow> string option" where
  "serialize_optional_duration d = map_option serialize_duration d"

definition parse_timeout_ms :: "string option \<Rightarrow> nat option" where
  "parse_timeout_ms timeout =
    (case timeout of
       None \<Rightarrow> Some 0
     | Some s \<Rightarrow>
        (case parse_duration s of
           Inr secs \<Rightarrow> if secs < 1 \<or> secs > 86400 then None else Some (secs * 1000)
         | Inl _ \<Rightarrow> None))"

section \<open>Addresses\<close>

record address_defaults =
  ad_user :: string
  ad_port :: nat

record remote_address =
  ra_user :: string
  ra_host :: string
  ra_port :: nat

datatype address_error = EmptyAddress string | InvalidPort string | EmptyHost string

definition parse_address :: "string \<Rightarrow> address_defaults \<Rightarrow> address_error + remote_address" where
  "parse_address input dflt =
    (let trimmed_input = trim input
     in if trimmed_input = [] then Inl (EmptyAddress input)
        else
          (let (user, host_port) =
                 (case split_once (CHR ''@'') trimmed_input of Some (u, r) \<Rightarrow> (u, r) | None \<Rightarrow> ([], trimmed_input));
               host_and_port =
                 (case rsplit_once (CHR '':'') host_port of
                    Some (h, p) \<Rightarrow>
                      (case parse_uint u16_max p of Some n \<Rightarrow> Inr (h, Some n) | None \<Rightarrow> Inl (InvalidPort input))
                  | None \<Rightarrow> Inr (host_port, None))
           in case host_and_port of
                Inl e \<Rightarrow> Inl e
              | Inr (host, port) \<Rightarrow>
                 if host = [] then Inl (EmptyHost input)
                 else Inr \<lparr>ra_user = (if user = [] then ad_user dflt else user), ra_host = host,
                           ra_port = (case port of Some n \<Rightarrow> n | None \<Rightarrow> ad_port dflt)\<rparr>))"

definition format_address :: "remote_address \<Rightarrow> string" where
  "format_address a = ra_user a @ ''@'' @ ra_host a @ '':'' @ show_nat (ra_port a)"

section \<open>Terminal and standard input\<close>

record exec_tty_flags =
  force_tty :: bool
  force_no_tty :: bool

record exec_stdin_flags =
  force_stdin :: bool
  force_no_stdin :: bool

datatype flag_intent = IntentDefault | IntentEnable | IntentDisable

definition from_force_pair :: "bool \<Rightarrow> bool \<Rightarrow> flag_intent" where
  "from_force_pair enable disable =
    (if disable then IntentDisable else if enable then IntentEnable else IntentDefault)"

definition is_disable :: "flag_intent \<Rightarrow> bool" where
  "is_disable i \<longleftrightarrow> i = IntentDisable"

definition tty_intent_from_flags :: "exec_tty_flags \<Rightarrow> flag_intent" where
  "tty_intent_from_flags f = from_force_pair (force_tty f) (force_no_tty f)"

definition stdin_intent_from_flags :: "exec_stdin_flags \<Rightarrow> flag_intent" where
  "stdin_intent_from_flags f = from_force_pair (force_stdin f) (force_no_stdin f)"

record ssh_tty_config =
  cfg_tty :: bool
  cfg_stdin :: bool
  auto_tty_detect :: bool

definition effective_tty_decision :: "exec_tty_flags \<Rightarrow> ssh_tty_config \<Rightarrow> bool \<Rightarrow> bool" where
  "effective_tty_decision f cfg stdout_is_tty =
    (if force_no_tty f then False
     else if force_tty f then True
     else if auto_tty_detect cfg \<and> \<not> stdout_is_tty then False
     else cfg_tty cfg)"

definition effective_stdin_decision :: "exec_stdin_flags \<Rightarrow> ssh_tty_config \<Rightarrow> bool" where
  "effective_stdin_decision f cfg =
    (if force_no_stdin f then False else if force_stdin f then True else cfg_stdin cfg)"

definition should_use_interactive_mode :: "bool \<Rightarrow> bool \<Rightarrow> bool \<Rightarrow> bool \<Rightarrow> bool" where
  "should_use_interactive_mode resolved_tty resolved_stdin stdin_is_tty stdout_is_tty \<longleftrightarrow>
    resolved_tty \<and> resolved_stdin \<and> stdin_is_tty \<and> stdout_is_tty"

section \<open>Copies\<close>

datatype copy_direction = Upload | Download

datatype copy_frame =
    BeginFile (bf_path: string) (bf_mode: nat) (bf_size: nat) (bf_mtime: int) (bf_start: nat)
  | FileData string
  | EndFile
  | BeginDirectory string nat int
  | Symlink string string
  | EndOfStream

record resume_entry =
  re_path :: string
  re_offset :: nat
  re_size :: nat
  re_mtime :: int
  re_sha256 :: string

text \<open>A specification without its two frame channels.\<close>

record copy_spec =
  cs_direction :: copy_direction
  cs_remote_path :: string
  cs_recursive :: bool
  cs_source_name :: string
  cs_resume :: "resume_entry list"

section \<open>Properties\<close>

text \<open>Exit codes: a remote command's code below 124 is forwarded, a higher one is cut to
  123, and only a negative one gives a code of the reserved range; the tool's own errors
  use six different codes, of which only those of general and usage errors can also come
  from a remote command.\<close>

theorem exit_code_bands:
  "(0 \<le> c \<and> c < 124 \<longrightarrow> cap_remote_exit_code c = c)
    \<and> (cap_remote_exit_code c \<in> {0..123} \<union> {EXIT_INTERNAL})
    \<and> (cap_remote_exit_code c = EXIT_INTERNAL \<longleftrightarrow> c < 0)
    \<and> (0 \<le> c \<and> cap_remote_exit_code c = exit_code e \<longrightarrow> (\<exists>m. e = General m \<or> e = UsageError m))
    \<and> (exit_code e = exit_code e' \<longleftrightarrow> (case (e, e') of
          (Timeout _, Timeout _) \<Rightarrow> True | (Internal _, Internal _) \<Rightarrow> True
        | (UsageError _, UsageError _) \<Rightarrow> True | (CannotExecute _, CannotExecute _) \<Rightarrow> True
        | (TargetNotFound _, TargetNotFound _) \<Rightarrow> True | (General _, General _) \<Rightarrow> True | _ \<Rightarrow> False))"
proof -
  have "exit_code e = exit_code e' \<longleftrightarrow> (case (e, e') of
          (Timeout _, Timeout _) \<Rightarrow> True | (Internal _, Internal _) \<Rightarrow> True
        | (UsageError _, UsageError _) \<Rightarrow> True | (CannotExecute _, CannotExecute _) \<Rightarrow> True
        | (TargetNotFound _, TargetNotFound _) \<Rightarrow> True | (General _, General _) \<Rightarrow> True | _ \<Rightarrow> False)"
    by (cases e; cases e') (simp_all add: exit_defs)
  moreover have "0 \<le> c \<and> cap_remote_exit_code c = exit_code e \<longrightarrow> (\<exists>m. e = General m \<or> e = UsageError m)"
    by (cases e) (auto simp: cap_remote_exit_code_def exit_defs split: if_splits)
  ultimately show ?thesis by (auto simp: cap_remote_exit_code_def exit_defs split: if_splits)
qed

theorem exit_code_bands_witness:
  "cap_remote_exit_code 7 = 7 \<and> cap_remote_exit_code 130 \<noteq> exit_code (Timeout [])"
  using exit_code_bands [of 7 "Timeout []" "Timeout []"] exit_code_bands [of 130 "Timeout []" "Timeout []"]
  by auto

lemma trim_head_last:
  assumes "s \<noteq> []" "\<not> ws_byte (hd s)" "is_ascii_digit (last s)"
  shows "trim s = s"
  using assms by (intro trim_trimmed trimmedI) (auto simp: ws_byte_def is_ascii_digit_def)

lemma show_nat_last: "is_ascii_digit (last (show_nat n))"
  using show_nat_digits [of n] by (metis last_in_set list_all_iff show_nat_not_Nil)

lemma rsplit_once_app: "c \<notin> set b \<Longrightarrow> rsplit_once c (a @ c # b) = Some (a, b)"
  by (simp add: rsplit_once_def)

text \<open>An address with a user that has no \<^verbatim>\<open>@\<close> and does not begin with white space, and a
  host, reads back from its canonical form, whatever the defaults.\<close>

theorem address_roundtrip:
  assumes "ra_user a \<noteq> []" "CHR ''@'' \<notin> set (ra_user a)" "\<not> ws_byte (hd (ra_user a))"
    and "ra_host a \<noteq> []" "ra_port a < 65536"
  shows "parse_address (format_address a) dflt = Inr a"
proof -
  let ?p = "show_nat (ra_port a)"
  have no_colon: "CHR '':'' \<notin> set ?p"
    using show_nat_digits by (rule digits_no_char) (simp add: is_ascii_digit_def)
  have "hd (format_address a) = hd (ra_user a)" "last (format_address a) = last ?p" "format_address a \<noteq> []"
    using assms(1) by (simp_all add: format_address_def)
  then have t: "trim (format_address a) = format_address a"
    using assms(3) show_nat_last [of "ra_port a"] by (intro trim_head_last) auto
  have at: "split_once (CHR ''@'') (format_address a) = Some (ra_user a, ra_host a @ CHR '':'' # ?p)"
    using assms(2) by (simp add: format_address_def)
  have "parse_uint u16_max ?p = Some (ra_port a)"
    using assms(5) by (intro parse_uint_show_nat) (simp add: u16_max_def)
  then show ?thesis
    using assms(1,4) \<open>format_address a \<noteq> []\<close>
    by (simp add: parse_address_def t at rsplit_once_app [OF no_colon])
qed

theorem address_roundtrip_witness:
  "parse_address (format_address \<lparr>ra_user = ''u'', ra_host = ''::1'', ra_port = 22\<rparr>) \<lparr>ad_user = [], ad_port = 0\<rparr>
    = Inr \<lparr>ra_user = ''u'', ra_host = ''::1'', ra_port = 22\<rparr>"
  by (rule address_roundtrip) (simp_all add: ws_byte_def)

definition duration_units :: "(char \<times> nat) list" where
  "duration_units = [(CHR ''s'', 1), (CHR ''m'', 60), (CHR ''h'', 3600), (CHR ''d'', 86400)]"

lemma mul_u64_exact: "a * b < 2 ^ 64 \<Longrightarrow> mul_u64 a b = a * b"
  by (simp add: mul_u64_def wrap_u64_def)

lemma parse_duration_unit:
  assumes "n < 2 ^ 64" "\<not> is_ascii_digit u"
  shows "parse_duration (show_nat n @ [u]) =
    (if u = CHR ''s'' then Inr n
     else if u = CHR ''m'' then Inr (mul_u64 n 60)
     else if u = CHR ''h'' then Inr (mul_u64 (mul_u64 n 60) 60)
     else if u = CHR ''d'' then Inr (mul_u64 (mul_u64 (mul_u64 n 60) 60) 24)
     else Inl (''invalid duration unit '' @ [u]))"
proof -
  let ?v = "show_nat n @ [u]"
  have all: "\<forall>c \<in> set (show_nat n). is_ascii_digit c" using show_nat_digits [of n] by (simp add: list_all_iff)
  have plus: "strip_prefix ''+'' ?v = None"
    using all assms(2)
    by (cases "show_nat n") (auto simp: is_ascii_digit_def)
  then have none: "parse_uint u64_max ?v = None"
    using assms(2) by (simp add: parse_uint_def)
  have tw: "takeWhile is_ascii_digit ?v = show_nat n" "dropWhile is_ascii_digit ?v = [u]"
    using all assms(2) by (simp_all add: takeWhile_append2 dropWhile_append2)
  have "parse_uint u64_max (show_nat n) = Some n"
    using assms(1) by (intro parse_uint_show_nat) (simp add: u64_max_def)
  then show ?thesis using none tw assms(2) by (simp add: parse_duration_def Let_def)
qed

text \<open>A number and a unit read as that many seconds, as long as the product fits 64 bits;
  in particular a serialized duration reads back.\<close>

theorem parse_duration_exact:
  assumes "(u, k) \<in> set duration_units" "n * k < 2 ^ 64"
  shows "parse_duration (show_nat n @ [u]) = Inr (n * k)"
proof -
  have "1 \<le> k" "\<not> is_ascii_digit u" using assms(1) by (auto simp: duration_units_def is_ascii_digit_def)
  then have "n \<le> n * k" by simp
  with assms(2) have "n < 2 ^ 64" by linarith
  with \<open>\<not> is_ascii_digit u\<close> assms show ?thesis
    by (auto simp: parse_duration_unit duration_units_def mul_u64_exact)
qed

theorem parse_duration_exact_witness:
  "parse_duration (show_nat 90 @ [CHR ''m'']) = Inr 5400 \<and> parse_duration (serialize_duration 10) = Inr 10"
  using parse_duration_exact [of "CHR ''m''" 60 90] parse_duration_exact [of "CHR ''s''" 1 10]
  by (simp add: duration_units_def serialize_duration_def)

text \<open>A duration beyond 64 bits is not rejected: the product wraps, and a timeout of more
  than five thousand million million hours passes the check for one day as 3584 seconds.\<close>

theorem timeout_overflow_accepted:
  "parse_timeout_ms (Some (show_nat 5124095576030432 @ ''h'')) = Some 3584000"
proof -
  have "mul_u64 (mul_u64 5124095576030432 60) 60 = 3584"
    by (simp add: mul_u64_def wrap_u64_def)
  then have "parse_duration (show_nat 5124095576030432 @ ''h'') = Inr 3584"
    by (subst parse_duration_unit) (simp_all add: is_ascii_digit_def)
  then show ?thesis by (simp add: parse_timeout_ms_def)
qed

end
