(* ===== verification/Review.thy ===== *)
theory Review
  imports Shared_Types Inventory
begin

text \<open>
  Review of operations before they run: \<^verbatim>\<open>src/src/config/review.rs\<close>,
  \<^verbatim>\<open>src/src/oversight/review.rs\<close> and the operation types of \<^verbatim>\<open>src/src/oversight/mod.rs\<close>.

  The language model behind the reviewer is an argument (what the endpoint answers to a
  system and a user prompt), and so are the JSON reader and writer.

  The lemmas show what the local lists decide without the model, in which order, how the
  model's answer is unwrapped, and what the two glob matchers of the program have in common.
\<close>

section \<open>Configuration\<close>

datatype review_action = Allow | Warn | Confirm | Deny

datatype risk_level = Safe | Risky | Dangerous

fun show_action :: "review_action \<Rightarrow> string" where
  "show_action Allow = ''allow''"
| "show_action Warn = ''warn''"
| "show_action Confirm = ''confirm''"
| "show_action Deny = ''deny''"

fun show_risk :: "risk_level \<Rightarrow> string" where
  "show_risk Safe = ''safe''"
| "show_risk Risky = ''risky''"
| "show_risk Dangerous = ''dangerous''"

record review_policy =
  pol_safe :: review_action
  pol_risky :: review_action
  pol_dangerous :: review_action

definition default_review_policy :: review_policy where
  "default_review_policy = \<lparr>pol_safe = Allow, pol_risky = Confirm, pol_dangerous = Deny\<rparr>"

fun action_for :: "review_policy \<Rightarrow> risk_level \<Rightarrow> review_action" where
  "action_for p Safe = pol_safe p"
| "action_for p Risky = pol_risky p"
| "action_for p Dangerous = pol_dangerous p"

record review_prompts =
  rp_system :: string
  rp_template :: string

record fast_allowlist_config =
  fa_enable :: bool
  fa_commands :: "string list"

definition default_fast_allowlist :: fast_allowlist_config where
  "default_fast_allowlist = \<lparr>fa_enable = True, fa_commands = []\<rparr>"

record semantic_whitelist_entry =
  sw_name :: string
  sw_description :: string
  sw_examples :: "string list"

record review_exec_config =
  ex_enable :: bool
  ex_prompts :: review_prompts
  ex_policy :: review_policy
  ex_fast_allowlist :: fast_allowlist_config
  ex_semantic_whitelist :: "semantic_whitelist_entry list"

record review_copy_config =
  cp_enable :: bool
  cp_prompts :: review_prompts
  cp_policy :: review_policy
  cp_allowlist :: "string list"
  cp_blocklist :: "string list"

definition default_copy_blocklist :: "string list" where
  "default_copy_blocklist =
    [''.ssh'', ''.aws'', ''.gnupg'', ''.kube'', ''/etc/shadow'', ''/etc/ssh'']"

text \<open>The connection settings that only the HTTP client reads (key, timeout, headers) belong
  to the model's argument.\<close>

record review_config =
  rc_endpoint :: string
  rc_model :: string
  rc_failure_action :: review_action
  rc_exec :: review_exec_config
  rc_copy :: review_copy_config

section \<open>Operations\<close>

datatype operation_kind = OpExec | OpExecInteractive | OpCopy | OpSession | OpProxy

fun kind_str :: "operation_kind \<Rightarrow> string" where
  "kind_str OpExec = ''exec''"
| "kind_str OpExecInteractive = ''exec-interactive''"
| "kind_str OpCopy = ''copy''"
| "kind_str OpSession = ''session''"
| "kind_str OpProxy = ''proxy''"

datatype session_kind = SkExec | SkShell | SkSubsystem

fun session_kind_str :: "session_kind \<Rightarrow> string" where
  "session_kind_str SkExec = ''exec''"
| "session_kind_str SkShell = ''shell''"
| "session_kind_str SkSubsystem = ''subsystem''"

datatype operation_detail =
    ExecDetail (od_argv: "string list") (od_command: string) (od_interactive: bool) (od_tty: bool)
      (od_shell: bool) (od_no_shell: bool)
  | CopyDetail (od_direction: copy_direction) (od_remote_path: string) (od_recursive: bool)
      (od_source_name: string)
  | SessionOp session_kind string

record review_decision =
  rd_risk :: risk_level
  rd_action :: review_action
  rd_reason :: string
  rd_matched :: "string option"

datatype review_outcome = Skipped | Decision review_decision | Failed string

section \<open>Local lists\<close>

text \<open>The reviewer's own \<^verbatim>\<open>glob_match_inner\<close>, in which only the star is special.\<close>

fun review_glob_inner :: "string list \<Rightarrow> string list \<Rightarrow> bool" where
  "review_glob_inner [] t \<longleftrightarrow> t = []"
| "review_glob_inner (p # ps) t \<longleftrightarrow>
    (if p = ''*'' then list_ex (\<lambda>n. review_glob_inner ps (drop n t)) [0..<Suc (length t)]
     else t \<noteq> [] \<and> p = hd t \<and> review_glob_inner ps (tl t))"

definition review_glob_match :: "string \<Rightarrow> string \<Rightarrow> bool" where
  "review_glob_match pat s \<longleftrightarrow> review_glob_inner (utf8_chars pat) (utf8_chars s)"

definition is_complex_script :: "string list \<Rightarrow> bool" where
  "is_complex_script argv =
    (if argv = [] then False
     else if hd argv \<in> set [''bash'', ''sh'', ''zsh'', ''python'', ''python3'', ''perl'', ''ruby''] then True
     else list_ex (\<lambda>arg. contains_sub arg ''&&'' \<or> contains_sub arg ''||'' \<or> contains_sub arg '';''
            \<or> contains_sub arg ''$('' \<or> CHR 0x60 \<in> set arg \<or> CHR 0x0A \<in> set arg) argv)"

definition matches_fast_pattern :: "string \<Rightarrow> string list \<Rightarrow> string \<Rightarrow> bool" where
  "matches_fast_pattern pat argv raw_command =
    (if CHR ''*'' \<in> set pat then review_glob_match pat raw_command
     else if length argv = 1 then hd argv = pat
     else raw_command = pat)"

definition matches_fast_allowlist :: "string list \<Rightarrow> string list \<Rightarrow> string \<Rightarrow> bool" where
  "matches_fast_allowlist pats argv raw_command \<longleftrightarrow>
    list_ex (\<lambda>pat. matches_fast_pattern pat argv raw_command) pats"

definition fast_allow :: "review_exec_config \<Rightarrow> string list \<Rightarrow> review_decision option" where
  "fast_allow cfg argv =
    (if \<not> fa_enable (ex_fast_allowlist cfg) \<or> argv = [] then None
     else if is_complex_script argv then None
     else if matches_fast_allowlist (fa_commands (ex_fast_allowlist cfg)) argv (join_with '' '' argv)
       then Some \<lparr>rd_risk = Safe, rd_action = action_for (ex_policy cfg) Safe,
                  rd_reason = ''Matched local fast allowlist for a simple command.'',
                  rd_matched = Some ''fast_allowlist''\<rparr>
     else None)"

definition path_matches :: "string \<Rightarrow> string \<Rightarrow> bool" where
  "path_matches pat path =
    (if review_glob_match pat path then True
     else if (case strip_prefix pat path of Some rest \<Rightarrow> rest = [] \<or> starts_with rest ''/'' | None \<Rightarrow> False)
       then True
     else
       (let segments = split_on (CHR ''/'') path
        in if list_ex (\<lambda>seg. seg = pat) segments then True
           else list_ex (\<lambda>seg. CHR ''*'' \<in> set pat \<and> review_glob_match pat seg) segments))"

definition matches_any :: "string list \<Rightarrow> string \<Rightarrow> string \<Rightarrow> bool" where
  "matches_any pats remote_path source_name \<longleftrightarrow>
    list_ex (\<lambda>pat. path_matches pat remote_path \<or> path_matches pat source_name) pats"

section \<open>The model\<close>

record review_model_result =
  rm_risk :: risk_level
  rm_reason :: string
  rm_matched :: "string option"

definition fence :: string where
  "fence = [CHR 0x60, CHR 0x60, CHR 0x60]"

definition unfence :: "string \<Rightarrow> string \<Rightarrow> string option" where
  "unfence opening s =
    (case strip_prefix opening s of Some r \<Rightarrow> strip_suffix fence r | None \<Rightarrow> None)"

definition normalize_json_content :: "string \<Rightarrow> string" where
  "normalize_json_content content =
    (let t = trim content
     in case unfence (fence @ ''json'') t of
          Some body \<Rightarrow> trim body
        | None \<Rightarrow> (case unfence fence t of Some body \<Rightarrow> trim body | None \<Rightarrow> t))"

definition render_semantic_whitelist :: "semantic_whitelist_entry list \<Rightarrow> string" where
  "render_semantic_whitelist entries =
    (if entries = [] then ''None.''
     else join_with [CHR 0x0A]
       (map (\<lambda>e. ''- '' @ sw_name e @ '': '' @ sw_description e @
          (if sw_examples e = [] then [] else ''; examples: '' @ join_with '' | '' (sw_examples e))) entries))"

text \<open>What the reviewer uses of the world: whether it has an HTTP client, the endpoint's
  answer to a system and a user prompt (the text of the first choice, or an error), the JSON
  reader for that text, and the JSON form of an argument vector.\<close>

record llm =
  has_client :: bool
  complete :: "string \<Rightarrow> string \<Rightarrow> string + string"
  read_result :: "string \<Rightarrow> review_model_result option"
  json_argv :: "string list \<Rightarrow> string"

definition call_llm :: "llm \<Rightarrow> string \<Rightarrow> string \<Rightarrow> string + review_model_result" where
  "call_llm m system user_prompt =
    (if \<not> has_client m then Inl ''reviewer is disabled (no HTTP client)''
     else
       (case complete m system user_prompt of
          Inl e \<Rightarrow> Inl e
        | Inr content \<Rightarrow>
           (case read_result m (normalize_json_content content) of
              None \<Rightarrow> Inl ''failed to parse review result JSON''
            | Some r \<Rightarrow> Inr r)))"

definition decide :: "review_policy \<Rightarrow> review_model_result \<Rightarrow> review_decision" where
  "decide p r = \<lparr>rd_risk = rm_risk r, rd_action = action_for p (rm_risk r), rd_reason = rm_reason r,
    rd_matched = rm_matched r\<rparr>"

definition nl :: string where "nl = [CHR 0x0A]"

definition exec_prompt :: "llm \<Rightarrow> review_exec_config \<Rightarrow> string \<Rightarrow> string list \<Rightarrow> string \<Rightarrow> string" where
  "exec_prompt m cfg tgt argv shell_command =
    rp_template (ex_prompts cfg) @ nl @ nl @ ''Target host: '' @ tgt @ nl @ ''Argv JSON: '' @ json_argv m argv
      @ nl @ ''Shell command: '' @ shell_command @ nl @ nl @ ''Semantic whitelist intents:'' @ nl
      @ render_semantic_whitelist (ex_semantic_whitelist cfg) @ nl @ nl @ ''Return JSON only.''"

definition call_llm_exec ::
  "llm \<Rightarrow> review_config \<Rightarrow> string \<Rightarrow> string list \<Rightarrow> string \<Rightarrow> string + review_decision" where
  "call_llm_exec m cfg tgt argv shell_command =
    (if rc_endpoint cfg = [] \<or> rc_model cfg = [] then Inl ''review is enabled but endpoint/model is missing''
     else
       (case call_llm m (rp_system (ex_prompts (rc_exec cfg)))
               (exec_prompt m (rc_exec cfg) tgt argv shell_command) of
          Inl e \<Rightarrow> Inl e | Inr r \<Rightarrow> Inr (decide (ex_policy (rc_exec cfg)) r)))"

definition direction_prompt :: "copy_direction \<Rightarrow> string" where
  "direction_prompt d =
    (case d of
       Upload \<Rightarrow> ''upload (local '' @ [CHR 0xE2, CHR 0x86, CHR 0x92] @ '' target)''
     | Download \<Rightarrow> ''download (target '' @ [CHR 0xE2, CHR 0x86, CHR 0x92] @ '' local)'')"

definition copy_prompt :: "review_copy_config \<Rightarrow> string \<Rightarrow> copy_direction \<Rightarrow> string \<Rightarrow> string \<Rightarrow> string" where
  "copy_prompt cfg tgt d remote_path source_name =
    rp_template (cp_prompts cfg) @ nl @ nl @ ''Target host: '' @ tgt @ nl @ ''Direction: ''
      @ direction_prompt d @ nl @ ''Remote path: '' @ remote_path @ nl @ ''Source name: '' @ source_name
      @ nl @ nl @ ''Return JSON only.''"

definition call_llm_copy ::
  "llm \<Rightarrow> review_config \<Rightarrow> string \<Rightarrow> copy_direction \<Rightarrow> string \<Rightarrow> string \<Rightarrow> string + review_decision" where
  "call_llm_copy m cfg tgt d remote_path source_name =
    (if rc_endpoint cfg = [] \<or> rc_model cfg = [] then Inl ''review is enabled but endpoint/model is missing''
     else
       (case call_llm m (rp_system (cp_prompts (rc_copy cfg)))
               (copy_prompt (rc_copy cfg) tgt d remote_path source_name) of
          Inl e \<Rightarrow> Inl e | Inr r \<Rightarrow> Inr (decide (cp_policy (rc_copy cfg)) r)))"

definition outcome_of :: "string + review_decision \<Rightarrow> review_outcome" where
  "outcome_of r = (case r of Inl e \<Rightarrow> Failed e | Inr d \<Rightarrow> Decision d)"

section \<open>Review\<close>

definition review_exec :: "llm \<Rightarrow> review_config \<Rightarrow> string \<Rightarrow> operation_detail \<Rightarrow> review_outcome" where
  "review_exec m cfg end_target detail =
    (if \<not> ex_enable (rc_exec cfg) then Skipped
     else
       (case detail of
          ExecDetail argv command _ _ _ _ \<Rightarrow>
            (case fast_allow (rc_exec cfg) argv of
               Some d \<Rightarrow> Decision d
             | None \<Rightarrow> outcome_of (call_llm_exec m cfg end_target argv command))
        | _ \<Rightarrow> Skipped))"

definition review_copy :: "llm \<Rightarrow> review_config \<Rightarrow> string \<Rightarrow> operation_detail \<Rightarrow> review_outcome" where
  "review_copy m cfg end_target detail =
    (if \<not> cp_enable (rc_copy cfg) then Skipped
     else
       (case detail of
          CopyDetail d remote_path _ source_name \<Rightarrow>
            (if matches_any (cp_blocklist (rc_copy cfg)) remote_path source_name
             then Decision \<lparr>rd_risk = Dangerous, rd_action = Deny,
                            rd_reason = ''copy path matched blocklist pattern'', rd_matched = Some ''blocklist''\<rparr>
             else if matches_any (cp_allowlist (rc_copy cfg)) remote_path source_name
             then Decision \<lparr>rd_risk = Safe, rd_action = action_for (cp_policy (rc_copy cfg)) Safe,
                            rd_reason = ''copy path matched allowlist pattern'', rd_matched = Some ''allowlist''\<rparr>
             else outcome_of (call_llm_copy m cfg end_target d remote_path source_name))
        | _ \<Rightarrow> Skipped))"

fun review :: "llm \<Rightarrow> review_config \<Rightarrow> operation_kind \<Rightarrow> string \<Rightarrow> operation_detail \<Rightarrow> review_outcome" where
  "review m cfg OpExec t d = review_exec m cfg t d"
| "review m cfg OpExecInteractive t d = review_exec m cfg t d"
| "review m cfg OpCopy t d = review_copy m cfg t d"
| "review m cfg OpSession t d = Skipped"
| "review m cfg OpProxy t d = Skipped"

section \<open>Globs of the reviewer\<close>

interpretation review_glob: glob_matcher review_glob_inner "\<lambda>_. False"
proof
  fix p :: string and ps t :: "string list"
  show "review_glob_inner [] t \<longleftrightarrow> t = []" by simp
  show "review_glob_inner (''*'' # ps) t \<longleftrightarrow> (\<exists>u v. t = u @ v \<and> review_glob_inner ps v)"
    by (simp add: list_ex_drop del: upt_Suc)
  show "p \<noteq> ''*'' \<Longrightarrow> \<not> False \<Longrightarrow> review_glob_inner (p # ps) t \<longleftrightarrow> (\<exists>v. t = p # v \<and> review_glob_inner ps v)"
    by (cases t) auto
qed

lemma utf8_chars_member: "[c] \<in> set (utf8_chars s) \<Longrightarrow> c \<in> set s"
  using concat_utf8_chars [of s] by (metis UN_iff list.set_intros(1) set_concat)

lemma no_star_literal: "CHR ''*'' \<notin> set pat \<Longrightarrow> review_glob.literal (utf8_chars pat)"
  using utf8_chars_member by (fastforce simp: review_glob.literal_def)

lemma review_glob_literal: "CHR ''*'' \<notin> set pat \<Longrightarrow> review_glob_match pat s \<longleftrightarrow> s = pat"
  by (simp add: review_glob_match_def review_glob.literal_iff no_star_literal)

lemma utf8_chars_star: "utf8_chars (pat @ ''*'') = utf8_chars pat @ [''*'']"
  by (subst utf8_chars_append) (simp_all add: is_continuation_def)

lemma utf8_chars_prefix:
  assumes "t = [] \<or> \<not> is_continuation (hd t)"
  shows "prefix (utf8_chars s) (utf8_chars (s @ t))"
  using utf8_chars_append [OF assms, of s] by simp

lemma review_glob_prefix:
  assumes "CHR ''*'' \<notin> set pat"
  shows "review_glob_match (pat @ ''*'') s \<longleftrightarrow> prefix (utf8_chars pat) (utf8_chars s)"
  by (simp add: review_glob_match_def utf8_chars_star review_glob.literal_star no_star_literal assms)

lemma utf8_prefix_ascii:
  assumes "prefix (utf8_chars pat) (utf8_chars s)"
  shows "prefix pat s"
  using assms by (metis concat_append concat_utf8_chars prefix_def)

lemma globs_agree:
  "''?'' \<notin> set ps \<Longrightarrow> review_glob_inner ps t \<longleftrightarrow> glob_match_inner ps t"
  by (induction ps arbitrary: t) (auto simp: list_ex_iff)

lemma path_matches_literal:
  assumes "CHR ''*'' \<notin> set pat"
  shows "path_matches pat path \<longleftrightarrow> path = pat \<or> prefix (pat @ ''/'') path \<or> pat \<in> set (split_on (CHR ''/'') path)"
  using assms
  by (auto simp: path_matches_def review_glob_literal Let_def list_ex_iff strip_prefix_Some starts_with_iff
      prefix_def split: option.splits)

section \<open>Properties\<close>

text \<open>C33. Copy review, where it is enabled (by default it is not): a path or source name that is a blocked literal pattern, lies below it or
  has it as one of the segments between slashes is denied, whatever the model answers, the allowlist contains and the
  policy says.\<close>

theorem copy_blocklist_denies:
  assumes "cp_enable (rc_copy cfg)" "pat \<in> set (cp_blocklist (rc_copy cfg))" "CHR ''*'' \<notin> set pat"
    and "path \<in> {remote_path, source_name}"
    and "path = pat \<or> prefix (pat @ ''/'') path \<or> pat \<in> set (split_on (CHR ''/'') path)"
  shows "\<exists>d. review m cfg OpCopy t (CopyDetail dir remote_path rec source_name) = Decision d
    \<and> rd_action d = Deny"
proof -
  have "path_matches pat path" using assms(3,5) by (simp add: path_matches_literal)
  then have "matches_any (cp_blocklist (rc_copy cfg)) remote_path source_name"
    using assms(2,4) by (auto simp: matches_any_def list_ex_iff)
  with assms(1) show ?thesis by (simp add: review_copy_def)
qed

definition demo_prompts :: review_prompts where
  "demo_prompts = \<lparr>rp_system = [], rp_template = []\<rparr>"

definition demo_review_config :: review_config where
  "demo_review_config = \<lparr>rc_endpoint = ''e'', rc_model = ''m'', rc_failure_action = Deny,
    rc_exec = \<lparr>ex_enable = True, ex_prompts = demo_prompts, ex_policy = default_review_policy,
      ex_fast_allowlist = \<lparr>fa_enable = True, fa_commands = [''cat /var/log/*'']\<rparr>, ex_semantic_whitelist = []\<rparr>,
    rc_copy = \<lparr>cp_enable = True, cp_prompts = demo_prompts, cp_policy = default_review_policy,
      cp_allowlist = [''*''], cp_blocklist = default_copy_blocklist\<rparr>\<rparr>"

definition demo_llm :: llm where
  "demo_llm = \<lparr>has_client = True, complete = (\<lambda>_ _. Inr []),
    read_result = (\<lambda>_. Some \<lparr>rm_risk = Safe, rm_reason = [], rm_matched = None\<rparr>), json_argv = (\<lambda>_. [])\<rparr>"

theorem copy_blocklist_denies_witness:
  "\<exists>d. review demo_llm demo_review_config OpCopy []
      (CopyDetail Download ''/home/u/.ssh/id_rsa'' False ''id_rsa'') = Decision d \<and> rd_action d = Deny"
  by (rule copy_blocklist_denies [where pat = "''.ssh''" and path = "''/home/u/.ssh/id_rsa''"])
    (simp_all add: demo_review_config_def default_copy_blocklist_def)

text \<open>The blocklist compares spelled paths: a doubled slash names the same file and passes the
  default blocklist, so that a copy of the shadow file is left to the allowlist and the model.\<close>

theorem blocklist_double_slash:
  "\<not> matches_any default_copy_blocklist ''/etc//shadow'' ''shadow''
    \<and> matches_any default_copy_blocklist ''/etc/shadow'' ''shadow''
    \<and> (\<exists>d. review demo_llm demo_review_config OpCopy []
        (CopyDetail Download ''/etc//shadow'' False ''shadow'') = Decision d \<and> rd_action d = Allow)"
proof -
  have no: "\<not> matches_any default_copy_blocklist ''/etc//shadow'' ''shadow''"
    by (simp add: matches_any_def default_copy_blocklist_def path_matches_literal prefix_def)
  moreover have "path_matches ''/etc/shadow'' ''/etc/shadow''" by (simp add: path_matches_literal)
  then have "matches_any default_copy_blocklist ''/etc/shadow'' ''shadow''"
    by (simp add: matches_any_def default_copy_blocklist_def)
  moreover have "path_matches ''*'' ''/etc//shadow''"
    using review_glob.star_matches_all by (simp add: path_matches_def review_glob_match_def)
  then have "matches_any [''*''] ''/etc//shadow'' ''shadow''" by (simp add: matches_any_def)
  ultimately show ?thesis
    by (simp add: review_copy_def demo_review_config_def default_review_policy_def)
qed

text \<open>A star at the end of an allowlist pattern admits every command line that begins with
  the rest of the pattern, further arguments included; without a star only the pattern
  itself, and a script is never admitted.\<close>

theorem fast_allow_iff:
  assumes "CHR ''*'' \<notin> set pat"
  shows "(fast_allow (cfg\<lparr>ex_fast_allowlist := \<lparr>fa_enable = True, fa_commands = [pat @ ''*'']\<rparr>\<rparr>) argv \<noteq> None
      \<longleftrightarrow> argv \<noteq> [] \<and> \<not> is_complex_script argv \<and> prefix (utf8_chars pat) (utf8_chars (join_with '' '' argv)))
    \<and> (fast_allow (cfg\<lparr>ex_fast_allowlist := \<lparr>fa_enable = True, fa_commands = [pat]\<rparr>\<rparr>) argv \<noteq> None
      \<longleftrightarrow> argv \<noteq> [] \<and> \<not> is_complex_script argv \<and> join_with '' '' argv = pat)"
proof -
  have "length argv = Suc 0 \<Longrightarrow> join_with '' '' argv = hd argv" by (cases argv) auto
  with assms show ?thesis
    by (auto simp: fast_allow_def matches_fast_allowlist_def matches_fast_pattern_def review_glob_prefix)
qed

theorem fast_allow_iff_witness:
  "fast_allow ((rc_exec demo_review_config)\<lparr>ex_fast_allowlist := \<lparr>fa_enable = True, fa_commands = [''cat /var/log/'' @ ''*'']\<rparr>\<rparr>)
    [''cat'', ''/var/log/x'', ''/etc/shadow''] \<noteq> None"
proof -
  have "\<not> is_complex_script [''cat'', ''/var/log/x'', ''/etc/shadow'']"
    by code_simp
  moreover have "prefix (utf8_chars ''cat /var/log/'') (utf8_chars (join_with '' '' [''cat'', ''/var/log/x'', ''/etc/shadow'']))"
    by (simp add: is_continuation_def)
  ultimately show ?thesis
    using fast_allow_iff [of "''cat /var/log/''" "rc_exec demo_review_config" "[''cat'', ''/var/log/x'', ''/etc/shadow'']"]
    by simp
qed

text \<open>An answer in a Markdown fence, with or without the language tag, is read as what the
  fence encloses.\<close>

theorem normalize_fenced:
  "normalize_json_content (fence @ ''json'' @ body @ fence) = trim body
    \<and> (\<not> prefix ''json'' body \<longrightarrow> normalize_json_content (fence @ body @ fence) = trim body)"
proof -
  have t: "trim (fence @ x @ fence) = fence @ x @ fence" for x
    by (intro trim_trimmed trimmedI) (simp_all add: fence_def ws_byte_def)
  have tagged: "unfence (fence @ ''json'') (fence @ ''json'' @ body @ fence) = Some body"
    using strip_prefix_app [of "fence @ ''json''" "body @ fence"] by (simp add: unfence_def)
  have "unfence (fence @ ''json'') (fence @ body @ fence) = None" if "\<not> prefix ''json'' body"
  proof (cases "strip_prefix (fence @ ''json'') (fence @ body @ fence)")
    case (Some r)
    then have eq: "body @ fence = ''json'' @ r" by (simp add: strip_prefix_Some)
    have "r \<noteq> r' @ fence" for r'
    proof
      assume "r = r' @ fence"
      with eq have "body = ''json'' @ r'" by simp
      with that show False by simp
    qed
    then have "strip_suffix fence r = None" by (cases "strip_suffix fence r") (auto simp: strip_suffix_Some)
    with Some show ?thesis by (simp add: unfence_def)
  qed (simp add: unfence_def)
  moreover have "unfence fence (fence @ body @ fence) = Some body" by (simp add: unfence_def)
  ultimately show ?thesis
    using tagged t [of "''json'' @ body"] t [of body]
    by (auto simp: normalize_json_content_def Let_def)
qed

theorem normalize_fenced_witness:
  "normalize_json_content (fence @ ''{}'' @ fence) = trim ''{}''"
  using normalize_fenced [of "''{}''"] by simp

text \<open>The two glob matchers of the program, one for host patterns and one for review lists,
  agree on every pattern without a question mark.\<close>

theorem glob_matchers_agree:
  assumes "CHR ''?'' \<notin> set pat"
  shows "review_glob_match pat s \<longleftrightarrow> glob_match pat s"
  using assms utf8_chars_member [of "CHR ''?''" pat]
  unfolding review_glob_match_def glob_match_def by (intro globs_agree) blast

theorem glob_matchers_agree_witness:
  "review_glob_match ''*.pem'' ''a.pem'' \<longleftrightarrow> glob_match ''*.pem'' ''a.pem''"
  by (rule glob_matchers_agree) simp

text \<open>A reviewer without an HTTP client does not skip reviews: with review of commands enabled,
  a command that the local list does not decide fails its review.\<close>

theorem disabled_reviewer_fails:
  assumes "\<not> has_client m" "ex_enable (rc_exec cfg)" "fast_allow (rc_exec cfg) argv = None"
  shows "\<exists>e. review m cfg OpExec t (ExecDetail argv cmd i y sh nsh) = Failed e"
  using assms by (auto simp: review_exec_def outcome_of_def call_llm_exec_def call_llm_def)

theorem disabled_reviewer_fails_witness:
  "\<exists>e. review (demo_llm\<lparr>has_client := False\<rparr>) demo_review_config OpExec [] (ExecDetail [''sh''] ''sh'' False False False False)
    = Failed e"
  by (rule disabled_reviewer_fails)
    (simp_all add: demo_review_config_def fast_allow_def is_complex_script_def)

end
