(* ===== verification/Wire_Protocol.thy ===== *)
theory Wire_Protocol
  imports Review
begin

text \<open>
  The conversions between domain values and RPC messages: \<^verbatim>\<open>src/src/protocol.rs\<close>, with the
  messages of \<^verbatim>\<open>src/proto/xho.proto\<close> as datatypes and records.

  An optional message field of Protocol Buffers is an \<^verbatim>\<open>option\<close>, an enumeration field is an
  integer.  A \<^verbatim>\<open>Uuid\<close> is its canonical text; reading one is an argument.

  The lemmas show what survives the wire: frames and copy requests entirely, server lists up
  to credentials, which are not sent at all.
\<close>

section \<open>Flags\<close>

datatype rpc_flag_intent = RpcDefault | RpcEnable | RpcDisable

fun flag_intent_to_rpc :: "flag_intent \<Rightarrow> rpc_flag_intent" where
  "flag_intent_to_rpc IntentDefault = RpcDefault"
| "flag_intent_to_rpc IntentEnable = RpcEnable"
| "flag_intent_to_rpc IntentDisable = RpcDisable"

fun flag_intent_from_rpc :: "rpc_flag_intent \<Rightarrow> flag_intent" where
  "flag_intent_from_rpc RpcEnable = IntentEnable"
| "flag_intent_from_rpc RpcDisable = IntentDisable"
| "flag_intent_from_rpc RpcDefault = IntentDefault"

record exec_request =
  xr_target :: string
  xr_argv :: "string list"
  xr_tty :: bool
  xr_tty_intent :: flag_intent
  xr_stdin :: bool
  xr_stdin_intent :: flag_intent
  xr_timeout_ms :: nat
  xr_interactive :: bool
  xr_term_cols :: nat
  xr_term_rows :: nat
  xr_shell :: string
  xr_no_shell :: bool

section \<open>Copy messages\<close>

record rpc_resume_entry =
  rre_path :: string
  rre_offset :: nat
  rre_size :: nat
  rre_mtime :: int
  rre_sha256 :: string

record rpc_copy_start =
  rcs_target :: string
  rcs_remote_path :: string
  rcs_recursive :: bool
  rcs_direction :: int
  rcs_timeout_ms :: nat
  rcs_source_name :: string
  rcs_resume :: "rpc_resume_entry list"

datatype rpc_frame =
    RpcBeginFile string nat nat int nat
  | RpcFileData string
  | RpcEndFile
  | RpcBeginDirectory string nat int
  | RpcSymlink string string
  | RpcEndOfStream

datatype copy_request =
    CopyStart rpc_copy_start
  | CopyAuthInput string string
  | CopyFrameMsg "rpc_frame option"
  | CopyConfirm string bool

record rpc_review_result =
  rrr_execution_id :: string
  rrr_risk :: string
  rrr_action :: string
  rrr_reason :: string
  rrr_matched :: string

record auth_prompt_message =
  ap_prompt_id :: string
  ap_target_label :: string
  ap_kind :: string
  ap_secret :: bool
  ap_message :: string

datatype copy_response =
    CopyInfo string
  | CopyErrorMsg string
  | CopyAuthPrompt auth_prompt_message
  | CopyComplete string
  | CopyFrameResponse "rpc_frame option"
  | CopyReviewResult rpc_review_result
  | CopyConfirmRequired string string
  | CopyResumeAck "rpc_resume_entry list"

definition resume_entry_to_rpc :: "resume_entry \<Rightarrow> rpc_resume_entry" where
  "resume_entry_to_rpc e = \<lparr>rre_path = re_path e, rre_offset = re_offset e, rre_size = re_size e,
    rre_mtime = re_mtime e, rre_sha256 = re_sha256 e\<rparr>"

definition resume_entry_from_rpc :: "rpc_resume_entry \<Rightarrow> resume_entry" where
  "resume_entry_from_rpc e = \<lparr>re_path = rre_path e, re_offset = rre_offset e, re_size = rre_size e,
    re_mtime = rre_mtime e, re_sha256 = rre_sha256 e\<rparr>"

definition copy_spec_to_rpc :: "string \<Rightarrow> copy_spec \<Rightarrow> nat \<Rightarrow> resume_entry list \<Rightarrow> copy_request" where
  "copy_spec_to_rpc tgt spec timeout_ms resume =
    CopyStart \<lparr>rcs_target = tgt, rcs_remote_path = cs_remote_path spec, rcs_recursive = cs_recursive spec,
      rcs_direction = (case cs_direction spec of Upload \<Rightarrow> 1 | Download \<Rightarrow> 2), rcs_timeout_ms = timeout_ms,
      rcs_source_name = cs_source_name spec, rcs_resume = map resume_entry_to_rpc resume\<rparr>"

definition copy_spec_from_rpc :: "rpc_copy_start \<Rightarrow> string + string \<times> copy_spec \<times> nat" where
  "copy_spec_from_rpc r =
    (let spec = (\<lambda>d. (rcs_target r,
           \<lparr>cs_direction = d, cs_remote_path = rcs_remote_path r, cs_recursive = rcs_recursive r,
            cs_source_name = rcs_source_name r, cs_resume = map resume_entry_from_rpc (rcs_resume r)\<rparr>,
           rcs_timeout_ms r))
     in if rcs_direction r = 1 then Inr (spec Upload)
        else if rcs_direction r = 2 then Inr (spec Download)
        else Inl ''copy direction is required'')"

fun copy_frame_to_rpc :: "copy_frame \<Rightarrow> rpc_frame option" where
  "copy_frame_to_rpc (BeginFile p m sz t off) = Some (RpcBeginFile p m sz t off)"
| "copy_frame_to_rpc (FileData d) = Some (RpcFileData d)"
| "copy_frame_to_rpc EndFile = Some RpcEndFile"
| "copy_frame_to_rpc (BeginDirectory p m t) = Some (RpcBeginDirectory p m t)"
| "copy_frame_to_rpc (Symlink p t) = Some (RpcSymlink p t)"
| "copy_frame_to_rpc EndOfStream = Some RpcEndOfStream"

fun copy_frame_from_rpc :: "rpc_frame option \<Rightarrow> string + copy_frame" where
  "copy_frame_from_rpc None = Inl ''empty copy frame''"
| "copy_frame_from_rpc (Some (RpcBeginFile p m sz t off)) = Inr (BeginFile p m sz t off)"
| "copy_frame_from_rpc (Some (RpcFileData d)) = Inr (FileData d)"
| "copy_frame_from_rpc (Some RpcEndFile) = Inr EndFile"
| "copy_frame_from_rpc (Some (RpcBeginDirectory p m t)) = Inr (BeginDirectory p m t)"
| "copy_frame_from_rpc (Some (RpcSymlink p t)) = Inr (Symlink p t)"
| "copy_frame_from_rpc (Some RpcEndOfStream) = Inr EndOfStream"

definition copy_frame_request :: "copy_frame \<Rightarrow> copy_request" where
  "copy_frame_request f = CopyFrameMsg (copy_frame_to_rpc f)"

definition copy_frame_response :: "copy_frame \<Rightarrow> copy_response" where
  "copy_frame_response f = CopyFrameResponse (copy_frame_to_rpc f)"

definition copy_auth_input_request :: "string \<Rightarrow> string \<Rightarrow> copy_request" where
  "copy_auth_input_request prompt_id v = CopyAuthInput prompt_id v"

definition copy_auth_prompt_response :: "auth_prompt_message \<Rightarrow> copy_response" where
  "copy_auth_prompt_response msg = CopyAuthPrompt msg"

definition copy_complete_response :: "string \<Rightarrow> copy_response" where
  "copy_complete_response msg = CopyComplete msg"

definition copy_resume_ack_response :: "resume_entry list \<Rightarrow> copy_response" where
  "copy_resume_ack_response es = CopyResumeAck (map resume_entry_to_rpc es)"

definition copy_error_response :: "string \<Rightarrow> copy_response" where
  "copy_error_response msg = CopyErrorMsg msg"

definition copy_info_response :: "string \<Rightarrow> copy_response" where
  "copy_info_response msg = CopyInfo msg"

definition copy_review_result_response ::
  "string \<Rightarrow> risk_level \<Rightarrow> review_action \<Rightarrow> string \<Rightarrow> string option \<Rightarrow> copy_response" where
  "copy_review_result_response execution_id risk action reason matched =
    CopyReviewResult \<lparr>rrr_execution_id = execution_id, rrr_risk = show_risk risk,
      rrr_action = show_action action, rrr_reason = reason,
      rrr_matched = (case matched of Some r \<Rightarrow> r | None \<Rightarrow> [])\<rparr>"

definition copy_confirm_required_response :: "string \<Rightarrow> string \<Rightarrow> copy_response" where
  "copy_confirm_required_response execution_id reason = CopyConfirmRequired execution_id reason"

definition copy_confirm_request :: "string \<Rightarrow> bool \<Rightarrow> copy_request" where
  "copy_confirm_request execution_id allow = CopyConfirm execution_id allow"

section \<open>Execution messages\<close>

datatype server_event =
    EvReviewResult string risk_level review_action string "string option"
  | EvConfirmRequired string string
  | EvAuthPrompt auth_prompt_message
  | EvStdout string
  | EvStderr string
  | EvExitStatus int
  | EvInfo string
  | EvError string

datatype execute_response =
    RspReviewResult rpc_review_result
  | RspConfirmRequired string string
  | RspAuthPrompt auth_prompt_message
  | RspStdout string
  | RspStderr string
  | RspExitStatus int
  | RspInfo string
  | RspError string

datatype execute_request =
    ReqStart exec_request
  | ReqConfirm string bool
  | ReqAuthInput string string
  | ReqStdinData string
  | ReqWindowResize nat nat

fun server_event_to_rpc :: "server_event \<Rightarrow> execute_response" where
  "server_event_to_rpc (EvReviewResult i risk action reason matched) =
    RspReviewResult \<lparr>rrr_execution_id = i, rrr_risk = show_risk risk, rrr_action = show_action action,
      rrr_reason = reason, rrr_matched = (case matched of Some r \<Rightarrow> r | None \<Rightarrow> [])\<rparr>"
| "server_event_to_rpc (EvConfirmRequired i reason) = RspConfirmRequired i reason"
| "server_event_to_rpc (EvAuthPrompt m) = RspAuthPrompt m"
| "server_event_to_rpc (EvStdout d) = RspStdout d"
| "server_event_to_rpc (EvStderr d) = RspStderr d"
| "server_event_to_rpc (EvExitStatus c) = RspExitStatus c"
| "server_event_to_rpc (EvInfo m) = RspInfo m"
| "server_event_to_rpc (EvError m) = RspError m"

definition error_response :: "string \<Rightarrow> execute_response" where
  "error_response msg = RspError msg"

definition execute_auth_input_request :: "string \<Rightarrow> string \<Rightarrow> execute_request" where
  "execute_auth_input_request prompt_id v = ReqAuthInput prompt_id v"

definition parse_execution_id :: "(string \<Rightarrow> string option) \<Rightarrow> string \<Rightarrow> string + string" where
  "parse_execution_id parse_uuid v =
    (case parse_uuid v of Some u \<Rightarrow> Inr u | None \<Rightarrow> Inl (''invalid execution_id '' @ v))"

section \<open>Gateway status and server lists\<close>

record 'st gateway_status =
  gs_name :: string
  gs_kind :: string
  gs_address :: string
  gs_sub_status :: "'st option"

record 'st rpc_gateway_status =
  rgs_name :: string
  rgs_kind :: string
  rgs_address :: string
  rgs_sub_status :: "'st option"

definition gateway_status_to_rpc :: "'st gateway_status \<Rightarrow> 'st rpc_gateway_status" where
  "gateway_status_to_rpc s = \<lparr>rgs_name = gs_name s, rgs_kind = gs_kind s, rgs_address = gs_address s,
    rgs_sub_status = gs_sub_status s\<rparr>"

definition gateway_status_from_rpc :: "'st rpc_gateway_status \<Rightarrow> 'st gateway_status" where
  "gateway_status_from_rpc s = \<lparr>gs_name = rgs_name s, gs_kind = rgs_kind s, gs_address = rgs_address s,
    gs_sub_status = rgs_sub_status s\<rparr>"

record rpc_server_entry =
  rse_alias :: string
  rse_host :: string
  rse_port :: nat
  rse_user :: string
  rse_auth_kind :: string

definition server_entry_to_rpc :: "server_entry \<Rightarrow> rpc_server_entry" where
  "server_entry_to_rpc e = \<lparr>rse_alias = se_alias e, rse_host = se_host e, rse_port = se_port e,
    rse_user = se_user e, rse_auth_kind = auth_kind e\<rparr>"

definition server_entry_from_rpc :: "rpc_server_entry \<Rightarrow> server_entry" where
  "server_entry_from_rpc e =
    \<lparr>se_alias = rse_alias e, se_host = rse_host e, se_port = rse_port e mod 2 ^ 16, se_user = rse_user e,
     se_auth =
       (if rse_auth_kind e = ''password'' then PasswordAuth []
        else if rse_auth_kind e = ''none'' then NoAuth
        else if rse_auth_kind e = ''reverse_proxy'' then ReverseProxyAuth
        else KeyAuth [])\<rparr>"

datatype server_list_source = LocalSource | GatewaySource string

datatype source_status = StatusOk | StatusUnsupported | StatusError string

record server_list_row =
  row_source :: server_list_source
  row_server :: server_entry

record merged_server_list =
  ml_rows :: "server_list_row list"
  ml_source_status :: "(server_list_source \<times> source_status) list"

record rpc_source_status =
  rss_source :: string
  rss_status :: string
  rss_detail :: string

record rpc_server_list_row =
  rrow_server :: "rpc_server_entry option"
  rrow_source :: string

record rpc_merged_server_list =
  rml_rows :: "rpc_server_list_row list"
  rml_source_status :: "rpc_source_status list"

definition server_list_source_to_string :: "server_list_source \<Rightarrow> string" where
  "server_list_source_to_string src = (case src of LocalSource \<Rightarrow> ''local'' | GatewaySource a \<Rightarrow> a)"

definition server_list_source_from_string :: "string \<Rightarrow> server_list_source" where
  "server_list_source_from_string s = (if s = ''local'' then LocalSource else GatewaySource s)"

definition source_status_to_rpc :: "server_list_source \<Rightarrow> source_status \<Rightarrow> rpc_source_status" where
  "source_status_to_rpc src st =
    (let (status_str, detail) =
       (case st of StatusOk \<Rightarrow> (''ok'', []) | StatusUnsupported \<Rightarrow> (''unsupported'', [])
        | StatusError msg \<Rightarrow> (''error'', msg))
     in \<lparr>rss_source = server_list_source_to_string src, rss_status = status_str, rss_detail = detail\<rparr>)"

definition source_status_from_rpc :: "rpc_source_status \<Rightarrow> server_list_source \<times> source_status" where
  "source_status_from_rpc r =
    (server_list_source_from_string (rss_source r),
     if rss_status r = ''ok'' then StatusOk
     else if rss_status r = ''unsupported'' then StatusUnsupported
     else StatusError (rss_detail r))"

definition server_list_row_to_rpc :: "server_list_row \<Rightarrow> rpc_server_list_row" where
  "server_list_row_to_rpc row = \<lparr>rrow_server = Some (server_entry_to_rpc (row_server row)),
    rrow_source = server_list_source_to_string (row_source row)\<rparr>"

definition server_list_row_from_rpc :: "rpc_server_list_row \<Rightarrow> server_list_row option" where
  "server_list_row_from_rpc row =
    (case rrow_server row of
       None \<Rightarrow> None
     | Some e \<Rightarrow> Some \<lparr>row_source = server_list_source_from_string (rrow_source row),
                       row_server = server_entry_from_rpc e\<rparr>)"

definition merged_server_list_to_rpc :: "merged_server_list \<Rightarrow> rpc_merged_server_list" where
  "merged_server_list_to_rpc l = \<lparr>rml_rows = map server_list_row_to_rpc (ml_rows l),
    rml_source_status = map (\<lambda>(src, st). source_status_to_rpc src st) (ml_source_status l)\<rparr>"

definition merged_server_list_from_rpc :: "rpc_merged_server_list \<Rightarrow> merged_server_list" where
  "merged_server_list_from_rpc l = \<lparr>ml_rows = List.map_filter server_list_row_from_rpc (rml_rows l),
    ml_source_status = map source_status_from_rpc (rml_source_status l)\<rparr>"

section \<open>Round trips\<close>

lemma flag_intent_roundtrip: "flag_intent_from_rpc (flag_intent_to_rpc i) = i"
  by (cases i) simp_all

lemma resume_entry_roundtrip [simp]: "resume_entry_from_rpc (resume_entry_to_rpc e) = e"
  by (simp add: resume_entry_from_rpc_def resume_entry_to_rpc_def)

lemma resume_entries_roundtrip [simp]: "map (resume_entry_from_rpc \<circ> resume_entry_to_rpc) es = es"
  by (simp add: map_idI)

lemma copy_frame_roundtrip: "copy_frame_from_rpc (copy_frame_to_rpc f) = Inr f"
  by (cases f) simp_all

text \<open>Credentials are blanked: what is left of an authentication is its kind.\<close>

fun blank_auth :: "direct_auth \<Rightarrow> direct_auth" where
  "blank_auth (KeyAuth _) = KeyAuth []"
| "blank_auth (PasswordAuth _) = PasswordAuth []"
| "blank_auth a = a"

definition blank_entry :: "server_entry \<Rightarrow> server_entry" where
  "blank_entry e = e\<lparr>se_auth := blank_auth (se_auth e)\<rparr>"

definition blank_row :: "server_list_row \<Rightarrow> server_list_row" where
  "blank_row row = row\<lparr>row_server := blank_entry (row_server row)\<rparr>"

lemma server_entry_roundtrip:
  "se_port e < 2 ^ 16 \<Longrightarrow> server_entry_from_rpc (server_entry_to_rpc e) = blank_entry e"
  by (cases "se_auth e")
    (simp_all add: server_entry_from_rpc_def server_entry_to_rpc_def blank_entry_def auth_kind_def)

lemma source_roundtrip:
  "src \<noteq> GatewaySource ''local'' \<Longrightarrow>
    server_list_source_from_string (server_list_source_to_string src) = src"
  by (cases src) (auto simp: server_list_source_from_string_def server_list_source_to_string_def)

lemma source_status_roundtrip:
  "src \<noteq> GatewaySource ''local'' \<Longrightarrow> source_status_from_rpc (source_status_to_rpc src st) = (src, st)"
  by (cases st) (simp_all add: source_status_from_rpc_def source_status_to_rpc_def source_roundtrip)

lemma row_roundtrip:
  assumes "row_source row \<noteq> GatewaySource ''local''" "se_port (row_server row) < 2 ^ 16"
  shows "server_list_row_from_rpc (server_list_row_to_rpc row) = Some (blank_row row)"
  using assms
  by (simp add: server_list_row_from_rpc_def server_list_row_to_rpc_def blank_row_def source_roundtrip
      server_entry_roundtrip)

section \<open>Properties\<close>

text \<open>A copy request and the frames behind it survive the wire: the daemon reads the target,
  the specification with its resume hints, the timeout and every frame that the client sent.\<close>

theorem copy_messages_roundtrip:
  "(\<forall>r. copy_spec_to_rpc tgt spec timeout_ms (cs_resume spec) = CopyStart r
      \<longrightarrow> copy_spec_from_rpc r = Inr (tgt, spec, timeout_ms))
    \<and> map (\<lambda>f. case copy_frame_request f of CopyFrameMsg m \<Rightarrow> copy_frame_from_rpc m | _ \<Rightarrow> Inl []) frames
      = map Inr frames"
  by (cases "cs_direction spec")
    (auto simp: copy_spec_to_rpc_def copy_spec_from_rpc_def copy_frame_request_def copy_frame_roundtrip)

theorem copy_messages_roundtrip_witness:
  "copy_spec_from_rpc (case copy_spec_to_rpc ''t'' \<lparr>cs_direction = Download, cs_remote_path = ''/x'',
      cs_recursive = False, cs_source_name = ''x'', cs_resume = []\<rparr> 5 [] of CopyStart r \<Rightarrow> r)
    = Inr (''t'', \<lparr>cs_direction = Download, cs_remote_path = ''/x'', cs_recursive = False,
      cs_source_name = ''x'', cs_resume = []\<rparr>, 5)"
  using copy_messages_roundtrip [of "''t''" "\<lparr>cs_direction = Download, cs_remote_path = ''/x'',
      cs_recursive = False, cs_source_name = ''x'', cs_resume = []\<rparr>" 5 "[]"]
  by (simp add: copy_spec_to_rpc_def)

text \<open>A merged server list survives the wire row by row and status by status, except that a
  row carries no credentials: the message is the same for every password and key file.\<close>

theorem merged_list_roundtrip:
  assumes "list_all (\<lambda>row. row_source row \<noteq> GatewaySource ''local'' \<and> se_port (row_server row) < 2 ^ 16) (ml_rows l)"
    and "list_all (\<lambda>(src, st). src \<noteq> GatewaySource ''local'') (ml_source_status l)"
  shows "merged_server_list_from_rpc (merged_server_list_to_rpc l) = l\<lparr>ml_rows := map blank_row (ml_rows l)\<rparr>
    \<and> merged_server_list_to_rpc (l\<lparr>ml_rows := map blank_row (ml_rows l)\<rparr>) = merged_server_list_to_rpc l"
proof -
  have "List.map_filter server_list_row_from_rpc (map server_list_row_to_rpc rows) = map blank_row rows"
    if "list_all (\<lambda>row. row_source row \<noteq> GatewaySource ''local'' \<and> se_port (row_server row) < 2 ^ 16) rows" for rows
    using that by (induction rows) (simp_all add: row_roundtrip List.map_filter_simps)
  moreover have "map source_status_from_rpc (map (\<lambda>(src, st). source_status_to_rpc src st) ss) = ss"
    if "list_all (\<lambda>(src, st). src \<noteq> GatewaySource ''local'') ss" for ss
    using that by (induction ss) (auto simp: source_status_roundtrip)
  moreover have "server_list_row_to_rpc (blank_row row) = server_list_row_to_rpc row" for row
    by (cases "se_auth (row_server row)")
      (simp_all add: server_list_row_to_rpc_def blank_row_def blank_entry_def server_entry_to_rpc_def auth_kind_def)
  ultimately show ?thesis
    using assms by (simp add: merged_server_list_to_rpc_def merged_server_list_from_rpc_def)
qed

definition demo_merged :: merged_server_list where
  "demo_merged = \<lparr>ml_rows = [\<lparr>row_source = GatewaySource ''gw'', row_server =
      \<lparr>se_alias = ''a'', se_host = ''h'', se_port = 22, se_user = ''u'', se_auth = PasswordAuth ''pw''\<rparr>\<rparr>],
    ml_source_status = [(GatewaySource ''gw'', StatusOk)]\<rparr>"

theorem merged_list_roundtrip_witness:
  "merged_server_list_from_rpc (merged_server_list_to_rpc demo_merged)
    = demo_merged\<lparr>ml_rows := map blank_row (ml_rows demo_merged)\<rparr>"
  using merged_list_roundtrip [of demo_merged] by (simp add: demo_merged_def)

end
