(* ===== verification/Gateway_Config.thy ===== *)
theory Gateway_Config
  imports Rust_Prelude
begin

text \<open>
  Gateway kinds, errors and configuration: \<^verbatim>\<open>src/src/daemon/gateway/mod.rs\<close> (types),
  \<^verbatim>\<open>src/src/config/gateway.rs\<close> and the fallback entries of \<^verbatim>\<open>src/src/config/ssh.rs\<close>.

  The lemmas show exactly which gateway lists the validation accepts, and that a validated
  fallback list only names gateways that exist.
\<close>

section \<open>Kinds, capabilities and errors\<close>

datatype gateway_kind = KXhod | KJumpserver | KDirect | KReverseProxy | KLocalhost

fun show_gateway_kind :: "gateway_kind \<Rightarrow> string" where
  "show_gateway_kind KDirect = ''direct''"
| "show_gateway_kind KJumpserver = ''jumpserver''"
| "show_gateway_kind KXhod = ''xhod''"
| "show_gateway_kind KReverseProxy = ''reverse_proxy''"
| "show_gateway_kind KLocalhost = ''localhost''"

record capabilities =
  cap_exec :: bool
  cap_copy :: bool
  cap_proxy :: bool
  cap_list :: bool

datatype error_kind = EResolution | ETransport | EExecution | EUnsupported

fun show_error_kind :: "error_kind \<Rightarrow> string" where
  "show_error_kind EResolution = ''resolution''"
| "show_error_kind ETransport = ''transport''"
| "show_error_kind EExecution = ''execution''"
| "show_error_kind EUnsupported = ''unsupported''"

record gateway_error =
  ge_kind :: error_kind
  ge_source :: string

definition gateway_error_to_string :: "gateway_error \<Rightarrow> string" where
  "gateway_error_to_string e = ''['' @ show_error_kind (ge_kind e) @ ''] '' @ ge_source e"

definition user_message :: "gateway_error \<Rightarrow> string" where
  "user_message e =
    (if ge_kind e = ETransport
     then gateway_error_to_string e @ ''; please retry the operation to open a fresh connection''
     else gateway_error_to_string e)"

text \<open>\<^verbatim>\<open>is_transport_error\<close> asks for two error types of libraries before it reads the message:
  the status code of \<^verbatim>\<open>tonic\<close>, and any error of \<^verbatim>\<open>russh\<close>.\<close>

datatype status_code = CodeUnavailable | CodeCancelled | CodeUnknown | CodeInternal | CodeOther

datatype error_cause = TonicStatus status_code | RusshError | OtherCause

definition is_transport_error :: "error_cause \<Rightarrow> string \<Rightarrow> bool" where
  "is_transport_error cause msg =
    (case cause of
       TonicStatus c \<Rightarrow> c \<noteq> CodeOther
     | RusshError \<Rightarrow> True
     | OtherCause \<Rightarrow>
        (let m = lowercase msg
         in contains_sub m ''channel closed'' \<or> contains_sub m ''closed unexpectedly''
          \<or> contains_sub m ''broken pipe'' \<or> contains_sub m ''connection reset'' \<or> contains_sub m ''send error''))"

definition is_resolution_error :: "string \<Rightarrow> bool" where
  "is_resolution_error msg =
    (let m = lowercase msg
     in contains_sub m ''not found'' \<or> contains_sub m ''no match'' \<or> contains_sub m ''unknown target'')"

section \<open>Configuration\<close>

record xhod_gateway_config =
  xg_name :: string
  xg_address :: string
  xg_identity_file :: string
  xg_known_hosts_path :: string

record jumpserver_gateway_config =
  jg_name :: string
  jg_host :: string
  jg_port :: nat
  jg_user :: string
  jg_identity_file :: string
  jg_pubkey_accepted_algorithms :: "string option"
  jg_totp_secret_base32 :: string
  jg_totp_digits :: nat
  jg_totp_period :: nat
  jg_max_cached_sessions :: "nat option"
  jg_session_idle_timeout :: nat
  jg_suppress_history :: bool

record direct_gateway_config =
  dg_name :: string
  dg_host :: string
  dg_port :: nat
  dg_user :: string
  dg_identity_file :: string
  dg_password :: "string option"

datatype gateway_config =
    XhodConfig xhod_gateway_config
  | JumpserverConfig jumpserver_gateway_config
  | DirectConfig direct_gateway_config

fun gc_name :: "gateway_config \<Rightarrow> string" where
  "gc_name (XhodConfig c) = xg_name c"
| "gc_name (JumpserverConfig c) = jg_name c"
| "gc_name (DirectConfig c) = dg_name c"

fun gc_kind :: "gateway_config \<Rightarrow> gateway_kind" where
  "gc_kind (XhodConfig _) = KXhod"
| "gc_kind (JumpserverConfig _) = KJumpserver"
| "gc_kind (DirectConfig _) = KDirect"

definition RESERVED_NAMES :: "string list" where
  "RESERVED_NAMES = [''local'']"

datatype gateway_validation_error =
    EmptyName
  | ReservedName string
  | NameCollision string gateway_kind
  | EmptyRequiredField string string

fun required_field_error :: "gateway_config \<Rightarrow> gateway_validation_error option" where
  "required_field_error (XhodConfig c) =
    (if xg_address c = [] then Some (EmptyRequiredField (xg_name c) ''address'') else None)"
| "required_field_error (JumpserverConfig c) =
    (if jg_host c = [] then Some (EmptyRequiredField (jg_name c) ''host'') else None)"
| "required_field_error (DirectConfig c) =
    (if dg_host c = [] then Some (EmptyRequiredField (dg_name c) ''host'') else None)"

fun validate_gateways_loop ::
  "(string \<times> gateway_kind) list \<Rightarrow> gateway_config list \<Rightarrow> gateway_validation_error option" where
  "validate_gateways_loop seen [] = None"
| "validate_gateways_loop seen (g # gs) =
    (if gc_name g = [] then Some EmptyName
     else if gc_name g \<in> set RESERVED_NAMES then Some (ReservedName (gc_name g))
     else
       (case map_of seen (gc_name g) of
          Some k \<Rightarrow> Some (NameCollision (gc_name g) k)
        | None \<Rightarrow>
           (case required_field_error g of
              Some e \<Rightarrow> Some e
            | None \<Rightarrow> validate_gateways_loop (al_put (gc_name g) (gc_kind g) seen) gs)))"

definition validate_gateways :: "gateway_config list \<Rightarrow> gateway_validation_error option" where
  "validate_gateways gs = validate_gateways_loop [] gs"

datatype fallback_entry = FallbackLocal | FallbackGateway string

definition fallback_from_string :: "string \<Rightarrow> fallback_entry" where
  "fallback_from_string s = (if s = ''local'' then FallbackLocal else FallbackGateway s)"

fun fallback_to_string :: "fallback_entry \<Rightarrow> string" where
  "fallback_to_string FallbackLocal = ''local''"
| "fallback_to_string (FallbackGateway n) = n"

fun validate_fallback_references :: "fallback_entry list \<Rightarrow> gateway_config list \<Rightarrow> string option" where
  "validate_fallback_references [] gs = None"
| "validate_fallback_references (FallbackLocal # es) gs = validate_fallback_references es gs"
| "validate_fallback_references (FallbackGateway n # es) gs =
    (if n = ''local'' then validate_fallback_references es gs
     else if list_ex (\<lambda>g. gc_name g = n) gs then validate_fallback_references es gs
     else Some n)"

section \<open>Which lists are valid\<close>

definition gateway_fields_ok :: "gateway_config \<Rightarrow> bool" where
  "gateway_fields_ok g \<longleftrightarrow> gc_name g \<noteq> [] \<and> gc_name g \<noteq> ''local''
    \<and> (case g of XhodConfig c \<Rightarrow> xg_address c \<noteq> [] | JumpserverConfig c \<Rightarrow> jg_host c \<noteq> []
       | DirectConfig c \<Rightarrow> dg_host c \<noteq> [])"

lemma required_field_error_None:
  "required_field_error g = None \<longleftrightarrow>
    (case g of XhodConfig c \<Rightarrow> xg_address c \<noteq> [] | JumpserverConfig c \<Rightarrow> jg_host c \<noteq> []
     | DirectConfig c \<Rightarrow> dg_host c \<noteq> [])"
  by (cases g) auto

lemma validate_gateways_loop_iff:
  "validate_gateways_loop seen gs = None \<longleftrightarrow>
    list_all gateway_fields_ok gs \<and> distinct (map gc_name gs) \<and> set (map gc_name gs) \<inter> fst ` set seen = {}"
proof (induction seen gs rule: validate_gateways_loop.induct)
  case (2 seen g gs)
  have seen: "map_of seen n = None \<longleftrightarrow> n \<notin> fst ` set seen" for n by (simp add: map_of_eq_None_iff)
  show ?case
  proof (cases "gc_name g = [] \<or> gc_name g = ''local'' \<or> map_of seen (gc_name g) \<noteq> None \<or> required_field_error g \<noteq> None")
    case True
    then show ?thesis
      using seen required_field_error_None [of g]
      by (auto simp: RESERVED_NAMES_def gateway_fields_ok_def split: option.splits)
  next
    case False
    then have g: "map_of seen (gc_name g) = None" "required_field_error g = None" "gc_name g \<notin> set RESERVED_NAMES"
        "gc_name g \<noteq> []"
      by (auto simp: RESERVED_NAMES_def)
    have "validate_gateways_loop seen (g # gs) = validate_gateways_loop (al_put (gc_name g) (gc_kind g) seen) gs"
      using g by simp
    moreover have "gateway_fields_ok g"
      using g required_field_error_None [of g] by (simp add: gateway_fields_ok_def RESERVED_NAMES_def)
    moreover have "gc_name g \<notin> fst ` set seen" using g(1) by (simp add: map_of_eq_None_iff)
    ultimately show ?thesis using 2 [OF g(4,3,1,2)] by (auto simp: keys_al_put)
  qed
qed simp

lemma validate_fallback_None:
  "validate_fallback_references es gs = None \<longleftrightarrow>
    (\<forall>n. FallbackGateway n \<in> set es \<longrightarrow> n = ''local'' \<or> n \<in> set (map gc_name gs))"
  by (induction es gs rule: validate_fallback_references.induct) (auto simp: list_ex_iff)

lemma fallback_roundtrip: "fallback_from_string s \<noteq> FallbackGateway ''local''"
  by (simp add: fallback_from_string_def)

section \<open>Properties\<close>

text \<open>The validation accepts exactly the gateway lists whose names are not empty, not reserved and
  pairwise different and whose entries have the field their kind requires.\<close>

theorem validate_gateways_iff:
  "validate_gateways gs = None \<longleftrightarrow> list_all gateway_fields_ok gs \<and> distinct (map gc_name gs)"
  by (simp add: validate_gateways_def validate_gateways_loop_iff)

end
