(* ===== verification/Target_Resolver.thy ===== *)
theory Target_Resolver
  imports Wire_Protocol Gateway_Config
begin

text \<open>
  From a target on the command line to a route: \<^verbatim>\<open>src/src/daemon/resolver.rs\<close>, the merged
  server list of \<^verbatim>\<open>src/src/daemon/rpc.rs\<close>, and their use in \<^verbatim>\<open>src/src/daemon/mod.rs\<close>.

  The configuration files are arguments (the state of the file, as in the inventory); what
  a gateway answers to \<^verbatim>\<open>list_servers\<close> is part of the gateway's description.

  The lemmas show that a route always names a gateway that exists, that the qualified name
  of a listed server leads to that server, and where the outcome depends on the order of a
  hash map.
\<close>

section \<open>Data\<close>

definition LOCAL_SOURCE_ALIAS :: string where "LOCAL_SOURCE_ALIAS = ''local''"

definition SELF_TARGET :: string where "SELF_TARGET = ''_self''"

definition SELF_GATEWAY_NAME :: string where "SELF_GATEWAY_NAME = ''_self''"

record route =
  gateway_name :: string
  end_target :: string

record resolve_result =
  rr_routes :: "route list"
  rr_warning :: "string option"

record 'sec resolver =
  rs_fallback :: "fallback_entry list"
  rs_ssh_config :: file_state
  rs_home :: "string option"
  rs_server_config :: "'sec server_config_file"
  rs_gateways :: "gateway_config list"
  rs_merged_rows :: "server_list_row list"
  rs_source_status :: "(server_list_source \<times> source_status) list"
  rs_dynamic :: "string list"

datatype resolve_error =
    SelfUnavailable
  | NoMatch string
  | AliasNotLocal string
  | GatewayUnknown string
  | NotInMergedList string
  | FallbackUndefined string
  | ProxyCommandUnsupported
  | SshConfigError config_error
  | EmptyGateway string
  | NoCandidates

section \<open>Parsing\<close>

definition parse_explicit_qualified :: "string \<Rightarrow> (string \<times> string) option" where
  "parse_explicit_qualified input =
    (case split_once (CHR '':'') input of
       None \<Rightarrow> None
     | Some (gw, rest) \<Rightarrow>
        if gw = [] \<or> rest = [] then None
        else if starts_with rest '':'' then None
        else if list_all is_ascii_digit rest then None
        else Some (gw, rest))"

definition derive_target_ip :: "string \<Rightarrow> string" where
  "derive_target_ip input =
    (let parts = split_on (CHR ''-'') input
     in if length parts \<ge> 4 \<and> list_all (list_all is_ascii_digit) (drop (length parts - 4) parts)
        then join_with ''.'' (drop (length parts - 4) parts)
        else input)"

definition explicit_source_path :: "string \<Rightarrow> string \<Rightarrow> string" where
  "explicit_source_path jump_name server_alias =
    (case rsplit_once (CHR '':'') server_alias of
       Some (nested, _) \<Rightarrow> jump_name @ '':'' @ nested
     | None \<Rightarrow> jump_name)"

definition full_target_name :: "server_list_source \<Rightarrow> string \<Rightarrow> string" where
  "full_target_name src a =
    (case src of LocalSource \<Rightarrow> LOCAL_SOURCE_ALIAS @ '':'' @ a | GatewaySource path \<Rightarrow> path @ '':'' @ a)"

definition full_target_name_strip_local :: "string \<Rightarrow> string" where
  "full_target_name_strip_local n = (case strip_prefix ''local:'' n of Some r \<Rightarrow> r | None \<Rightarrow> n)"

definition user_friendly_target_name :: "string \<Rightarrow> string" where
  "user_friendly_target_name n = full_target_name_strip_local n"

definition route_from_source :: "server_list_source \<Rightarrow> string \<Rightarrow> resolve_error + route" where
  "route_from_source src a =
    (case src of
       LocalSource \<Rightarrow> Inr \<lparr>gateway_name = LOCAL_SOURCE_ALIAS, end_target = a\<rparr>
     | GatewaySource path \<Rightarrow>
        (let (gw, rest) = (case split_once (CHR '':'') path of None \<Rightarrow> (path, None) | Some (f, r) \<Rightarrow> (f, Some r))
         in if gw = [] then Inl (EmptyGateway path)
            else Inr \<lparr>gateway_name = gw,
                      end_target = (case rest of Some r \<Rightarrow> if r \<noteq> [] then r @ '':'' @ a else a | None \<Rightarrow> a)\<rparr>))"

section \<open>Lookups\<close>

definition is_any_gateway_name :: "'sec resolver \<Rightarrow> string \<Rightarrow> bool" where
  "is_any_gateway_name r n \<longleftrightarrow>
    list_ex (\<lambda>g. gc_name g = n) (rs_gateways r) \<or> List.member (rs_dynamic r) n"

definition gateway_source_status :: "'sec resolver \<Rightarrow> string \<Rightarrow> source_status option" where
  "gateway_source_status r path =
    map_option snd (find (\<lambda>(src, _). src = GatewaySource path) (rs_source_status r))"

definition explicit_source_reported_ok :: "'sec resolver \<Rightarrow> string \<Rightarrow> string \<Rightarrow> bool" where
  "explicit_source_reported_ok r jump_name server_alias =
    (let exact = explicit_source_path jump_name server_alias
     in case gateway_source_status r exact of
          Some st \<Rightarrow> st = StatusOk
        | None \<Rightarrow>
           if exact \<noteq> jump_name then
             (case gateway_source_status r jump_name of Some st \<Rightarrow> st = StatusOk | None \<Rightarrow> False)
           else False)"

definition lookup_local_server :: "'sec resolver \<Rightarrow> string \<Rightarrow> route option" where
  "lookup_local_server r a =
    (case map_of (servers (rs_server_config r)) a of
       None \<Rightarrow> None
     | Some server \<Rightarrow>
        (case resolve_server_entry a server (defaults (rs_server_config r)) None of
           Inl _ \<Rightarrow> None
         | Inr e \<Rightarrow> Some \<lparr>gateway_name = ''local'', end_target = se_alias e\<rparr>))"

definition lookup_local_server_by_host :: "'sec resolver \<Rightarrow> string \<Rightarrow> route option" where
  "lookup_local_server_by_host r host =
    (case find (\<lambda>(_, s). sh_host s = host) (servers (rs_server_config r)) of
       None \<Rightarrow> None
     | Some (a, server) \<Rightarrow>
        (case resolve_server_entry a server (defaults (rs_server_config r)) None of
           Inl _ \<Rightarrow> None
         | Inr e \<Rightarrow> Some \<lparr>gateway_name = ''local'', end_target = se_alias e\<rparr>))"

definition resolve_ssh_config_route ::
  "'sec resolver \<Rightarrow> string \<Rightarrow> string \<Rightarrow> resolve_error + route option" where
  "resolve_ssh_config_route r input ip =
    (case parse_ssh_config (rs_home r) (rs_ssh_config r) of
       Inl e \<Rightarrow> Inl (SshConfigError e)
     | Inr entries \<Rightarrow>
        (case resolve_ssh_host entries ip of
           None \<Rightarrow> Inr None
         | Some e \<Rightarrow>
            if proxy_command e \<noteq> None then Inl ProxyCommandUnsupported
            else if sshe_user e = None then Inr None
            else if sshe_identity_file e = None then Inr None
            else Inr (Some \<lparr>gateway_name = ''local'', end_target = input\<rparr>)))"

section \<open>Resolution\<close>

definition append_server_config_routes :: "'sec resolver \<Rightarrow> string \<Rightarrow> route list" where
  "append_server_config_routes r input =
    (case lookup_local_server r input of
       Some x \<Rightarrow> [x]
     | None \<Rightarrow>
        (case lookup_local_server_by_host r input of
           Some x \<Rightarrow> [x]
         | None \<Rightarrow>
            (let ip = derive_target_ip input
             in if ip \<noteq> input then
                  (case lookup_local_server_by_host r ip of Some x \<Rightarrow> [x] | None \<Rightarrow> [])
                else [])))"

fun append_fallback_loop ::
  "'sec resolver \<Rightarrow> string \<Rightarrow> string \<Rightarrow> fallback_entry list \<Rightarrow> resolve_error + route list" where
  "append_fallback_loop r input ip [] = Inr []"
| "append_fallback_loop r input ip (FallbackLocal # es) =
    (case resolve_ssh_config_route r input ip of
       Inl e \<Rightarrow> Inl e
     | Inr x \<Rightarrow>
        (case append_fallback_loop r input ip es of
           Inl e \<Rightarrow> Inl e
         | Inr rest \<Rightarrow> Inr ((case x of Some y \<Rightarrow> [y] | None \<Rightarrow> []) @ rest)))"
| "append_fallback_loop r input ip (FallbackGateway n # es) =
    (if list_ex (\<lambda>g. gc_name g = n) (rs_gateways r) then
       (case append_fallback_loop r input ip es of
          Inl e \<Rightarrow> Inl e
        | Inr rest \<Rightarrow> Inr (\<lparr>gateway_name = n, end_target = input\<rparr> # rest))
     else Inl (FallbackUndefined n))"

definition append_fallback_routes :: "'sec resolver \<Rightarrow> string \<Rightarrow> resolve_error + route list" where
  "append_fallback_routes r input =
    append_fallback_loop r input (derive_target_ip input) (rs_fallback r)"

definition resolve_explicit :: "'sec resolver \<Rightarrow> string \<Rightarrow> string \<Rightarrow> resolve_error + route list" where
  "resolve_explicit r jump_name server_alias =
    (if jump_name = LOCAL_SOURCE_ALIAS then
       (case lookup_local_server r server_alias of
          Some x \<Rightarrow> Inr [x] | None \<Rightarrow> Inl (AliasNotLocal server_alias))
     else if \<not> list_ex (\<lambda>g. gc_name g = jump_name) (rs_gateways r) then
       (if List.member (rs_dynamic r) jump_name
        then Inr [\<lparr>gateway_name = jump_name, end_target = server_alias\<rparr>]
        else Inl (GatewayUnknown jump_name))
     else
       (let display = jump_name @ '':'' @ server_alias
        in if explicit_source_reported_ok r jump_name server_alias
              \<and> \<not> list_ex (\<lambda>row. full_target_name (row_source row) (se_alias (row_server row)) = display)
                   (rs_merged_rows r)
           then Inl (NotInMergedList display)
           else Inr [\<lparr>gateway_name = jump_name, end_target = server_alias\<rparr>]))"

fun collect_matches ::
  "string \<Rightarrow> server_list_row list \<Rightarrow> (string \<times> route) list \<Rightarrow> resolve_error + (string \<times> route) list" where
  "collect_matches a [] acc = Inr acc"
| "collect_matches a (row # rows) acc =
    (let display = full_target_name (row_source row) a
     in if list_ex (\<lambda>(n, _). n = display) acc then collect_matches a rows acc
        else
          (case route_from_source (row_source row) a of
             Inl e \<Rightarrow> Inl e
           | Inr x \<Rightarrow> collect_matches a rows (acc @ [(display, x)])))"

definition ambiguity_warning :: "string \<Rightarrow> (string \<times> route) list \<Rightarrow> string" where
  "ambiguity_warning a ms =
    ''warning: target '' @ [CHR 0x27] @ a @ [CHR 0x27] @ '' matched multiple sources; using ''
      @ user_friendly_target_name (fst (hd ms)) @ ''; also found ''
      @ join_with '', '' (map (\<lambda>(n, _). user_friendly_target_name n) (tl ms))"

definition resolve_bare_from_merged_view ::
  "'sec resolver \<Rightarrow> string \<Rightarrow> resolve_error + resolve_result option" where
  "resolve_bare_from_merged_view r a =
    (let rows = filter (\<lambda>row. se_alias (row_server row) = a) (rs_merged_rows r)
     in if rows = [] then Inr None
        else
          (case collect_matches a rows [] of
             Inl e \<Rightarrow> Inl e
           | Inr [] \<Rightarrow> Inl NoCandidates
           | Inr (m # ms) \<Rightarrow>
              Inr (Some \<lparr>rr_routes = [snd m],
                rr_warning = (if ms \<noteq> [] then Some (ambiguity_warning a (m # ms)) else None)\<rparr>)))"

definition resolve_with_warning :: "'sec resolver \<Rightarrow> string \<Rightarrow> resolve_error + resolve_result" where
  "resolve_with_warning r input =
    (if input = SELF_TARGET then
       (if is_any_gateway_name r SELF_GATEWAY_NAME
        then Inr \<lparr>rr_routes = [\<lparr>gateway_name = SELF_GATEWAY_NAME, end_target = SELF_TARGET\<rparr>], rr_warning = None\<rparr>
        else Inl SelfUnavailable)
     else
       (case parse_explicit_qualified input of
          Some (jump_name, server_alias) \<Rightarrow>
            (case resolve_explicit r jump_name server_alias of
               Inl e \<Rightarrow> Inl e | Inr xs \<Rightarrow> Inr \<lparr>rr_routes = xs, rr_warning = None\<rparr>)
        | None \<Rightarrow>
           if is_any_gateway_name r input \<and> input \<noteq> LOCAL_SOURCE_ALIAS
           then Inr \<lparr>rr_routes = [\<lparr>gateway_name = input, end_target = SELF_TARGET\<rparr>], rr_warning = None\<rparr>
           else
             (let fallback =
                (case append_fallback_routes r input of
                   Inl e \<Rightarrow> Inl e
                 | Inr [] \<Rightarrow> Inl (NoMatch input)
                 | Inr (x # xs) \<Rightarrow> Inr \<lparr>rr_routes = x # xs, rr_warning = None\<rparr>)
              in if rs_merged_rows r \<noteq> [] then
                   (case resolve_bare_from_merged_view r input of
                      Inl e \<Rightarrow> Inl e | Inr (Some res) \<Rightarrow> Inr res | Inr None \<Rightarrow> fallback)
                 else
                   (case append_server_config_routes r input of
                      [] \<Rightarrow> fallback
                    | x # xs \<Rightarrow> Inr \<lparr>rr_routes = x # xs, rr_warning = None\<rparr>))))"

section \<open>The merged server list\<close>

definition prefix_source :: "string \<Rightarrow> string \<Rightarrow> server_list_source" where
  "prefix_source gw remote_source =
    (if remote_source = ''local'' \<or> remote_source = [] then GatewaySource gw
     else GatewaySource (gw @ '':'' @ remote_source))"

record server_list_response =
  slr_servers :: "rpc_server_entry list"
  slr_merged :: "rpc_merged_server_list option"

text \<open>\<^verbatim>\<open>list_servers\<close> of the two gateways that ask another daemon.\<close>

definition rows_from_response :: "string \<Rightarrow> server_list_response \<Rightarrow> server_list_row list" where
  "rows_from_response gw resp =
    (let flat = map (\<lambda>s. \<lparr>row_source = GatewaySource gw, row_server = server_entry_from_rpc s\<rparr>) (slr_servers resp)
     in case slr_merged resp of
          Some merged \<Rightarrow>
            if rml_rows merged \<noteq> [] then
              List.map_filter (\<lambda>row.
                map_option (\<lambda>s. \<lparr>row_source = prefix_source gw (rrow_source row), row_server = server_entry_from_rpc s\<rparr>)
                  (rrow_server row)) (rml_rows merged)
            else flat
        | None \<Rightarrow> flat)"

text \<open>\<^verbatim>\<open>list_servers\<close> of a direct gateway.\<close>

definition direct_list_servers :: "config_error + server_entry list \<Rightarrow> gateway_error + server_list_row list" where
  "direct_list_servers entries =
    (case entries of
       Inl _ \<Rightarrow> Inl \<lparr>ge_kind = EResolution, ge_source = ''failed to list servers''\<rparr>
     | Inr es \<Rightarrow> Inr (map (\<lambda>e. \<lparr>row_source = LocalSource, row_server = e\<rparr>) es))"

datatype list_outcome = ListOk "server_list_row list" | ListErr gateway_error | ListTimeout

record gateway_view =
  gv_kind :: gateway_kind
  gv_caps :: capabilities
  gv_list :: list_outcome

record node_info =
  ni_name :: string
  ni_hostname :: string
  ni_user :: string

record daemon_view =
  dv_gateways :: "(string \<times> gateway_view) list"
  dv_nodes :: "(string \<times> node_info \<times> gateway_view) list"

definition make_source :: "string \<Rightarrow> server_list_source" where
  "make_source n = (if n = ''local'' then LocalSource else GatewaySource n)"

type_synonym listing = "(server_entry \<times> server_list_source) list \<times> (server_list_source \<times> source_status) list"

definition add_rows :: "server_list_row list \<Rightarrow> (server_entry \<times> server_list_source) list" where
  "add_rows rows = map (\<lambda>row. (row_server row, row_source row)) rows"

definition list_static_gateway :: "bool \<Rightarrow> string \<times> gateway_view \<Rightarrow> listing \<Rightarrow> listing" where
  "list_static_gateway no_recurse g acc =
    (let (n, gv) = g; (results, statuses) = acc; tag = make_source n
     in if no_recurse \<and> gv_kind gv = KXhod then acc
        else if \<not> cap_list (gv_caps gv) then acc
        else
          (case gv_list gv of
             ListOk rows \<Rightarrow> (results @ add_rows rows, statuses @ [(tag, StatusOk)])
           | ListErr e \<Rightarrow>
              (results, statuses @ [(tag, if ge_kind e = EUnsupported then StatusUnsupported
                                          else StatusError (gateway_error_to_string e))])
           | ListTimeout \<Rightarrow> (results, statuses @ [(tag, StatusError ''timeout'')])))"

definition node_entry :: "node_info \<Rightarrow> server_entry" where
  "node_entry i = \<lparr>se_alias = ni_name i, se_host = (if ni_hostname i = [] then ni_name i else ni_hostname i),
    se_port = 0, se_user = ni_user i, se_auth = ReverseProxyAuth\<rparr>"

definition list_node :: "(string \<times> node_info \<times> gateway_view) list \<Rightarrow> node_info \<Rightarrow> listing \<Rightarrow> listing" where
  "list_node nodes i acc =
    (let (results, statuses) = acc;
         tag = GatewaySource (ni_name i);
         results' = results @ [(node_entry i, LocalSource)]
     in case map_of nodes (ni_name i) of
          Some (_, gv) \<Rightarrow>
            (case gv_list gv of
               ListOk rows \<Rightarrow> (results' @ add_rows rows, statuses @ [(tag, StatusOk)])
             | ListErr e \<Rightarrow> (results', statuses @ [(tag, StatusError (gateway_error_to_string e))])
             | ListTimeout \<Rightarrow> (results', statuses @ [(tag, StatusError ''timeout'')]))
        | None \<Rightarrow> (results', statuses @ [(tag, StatusOk)]))"

definition process_list_servers :: "daemon_view \<Rightarrow> bool \<Rightarrow> listing" where
  "process_list_servers d no_recurse =
    fold (list_node (dv_nodes d)) (map (\<lambda>(_, i, _). i) (dv_nodes d))
      (fold (list_static_gateway no_recurse) (dv_gateways d) ([], []))"

section \<open>Use in the daemon\<close>

definition find_gateway :: "daemon_view \<Rightarrow> string \<Rightarrow> gateway_view option" where
  "find_gateway d n = map_option snd (find (\<lambda>(m, _). m = n) (dv_gateways d))"

definition find_gateway_any :: "daemon_view \<Rightarrow> string \<Rightarrow> gateway_view option" where
  "find_gateway_any d n =
    (case find_gateway d n of
       Some g \<Rightarrow> Some g
     | None \<Rightarrow> map_option (\<lambda>(_, gv). gv) (map_of (dv_nodes d) n))"

definition all_gateway_names :: "daemon_view \<Rightarrow> string list" where
  "all_gateway_names d = map fst (dv_gateways d) @ map fst (dv_nodes d)"

text \<open>What the daemon reads of its configuration for a resolution; the server file is loaded
  anew, and one that does not load counts as empty.\<close>

record 'sec resolve_config =
  rcf_fallback :: "fallback_entry list"
  rcf_ssh_config :: file_state
  rcf_home :: "string option"
  rcf_server_file :: "config_error + 'sec server_config_file"
  rcf_gateways :: "gateway_config list"

definition base_resolver :: "'sec resolve_config \<Rightarrow> daemon_view \<Rightarrow> 'sec resolver" where
  "base_resolver c d =
    \<lparr>rs_fallback = rcf_fallback c, rs_ssh_config = rcf_ssh_config c, rs_home = rcf_home c,
     rs_server_config = (case rcf_server_file c of Inr s \<Rightarrow> s | Inl _ \<Rightarrow> empty_server_config),
     rs_gateways = rcf_gateways c, rs_merged_rows = [], rs_source_status = [],
     rs_dynamic = map fst (dv_nodes d)\<rparr>"

definition resolve_target_with_merged_view ::
  "'sec resolve_config \<Rightarrow> daemon_view \<Rightarrow> string \<Rightarrow> resolve_error + resolve_result" where
  "resolve_target_with_merged_view c d tgt =
    (if (List.member (map fst (dv_gateways d)) tgt \<or> List.member (map fst (dv_nodes d)) tgt) \<and> tgt \<noteq> ''local''
     then Inr \<lparr>rr_routes = [\<lparr>gateway_name = tgt, end_target = ''_self''\<rparr>], rr_warning = None\<rparr>
     else if CHR '':'' \<in> set tgt \<and> \<not> starts_with tgt ''[''
     then resolve_with_warning (base_resolver c d) tgt
     else
       (let (tagged, statuses) = process_list_servers d False;
            rows = map (\<lambda>(server, src). \<lparr>row_source = src, row_server = server\<rparr>) tagged
        in resolve_with_warning
             ((base_resolver c d)\<lparr>rs_merged_rows := rows, rs_source_status := statuses\<rparr>) tgt))"

section \<open>Sources and their gateways\<close>

text \<open>A source that a gateway may report: the local inventory, or a path that begins with the
  gateway's name.\<close>

definition rooted :: "string \<Rightarrow> server_list_source \<Rightarrow> bool" where
  "rooted n src \<longleftrightarrow> src = LocalSource \<or> src = GatewaySource n \<or> (\<exists>r. src = GatewaySource (n @ '':'' @ r))"

lemma prefix_source_rooted: "rooted n (prefix_source n remote)"
  by (auto simp: rooted_def prefix_source_def)

lemma rows_from_response_rooted: "row \<in> set (rows_from_response n resp) \<Longrightarrow> rooted n (row_source row)"
  by (auto simp: rows_from_response_def Let_def map_filter_def prefix_source_rooted
      split: option.splits if_splits) (auto simp: rooted_def)

lemma direct_rows_rooted:
  "direct_list_servers es = Inr rows \<Longrightarrow> row \<in> set rows \<Longrightarrow> rooted n (row_source row)"
  by (auto simp: direct_list_servers_def rooted_def split: sum.splits)

lemma route_from_rooted:
  assumes "rooted n src" "CHR '':'' \<notin> set n" "route_from_source src a = Inr x"
  shows "gateway_name x = ''local'' \<or> gateway_name x = n"
  using assms
  by (auto simp: rooted_def route_from_source_def LOCAL_SOURCE_ALIAS_def Let_def split_once_Some
      split: option.splits prod.splits if_splits)

definition rows_ok :: "string list \<Rightarrow> server_list_row list \<Rightarrow> bool" where
  "rows_ok names rows \<longleftrightarrow> (\<forall>row \<in> set rows. \<exists>n \<in> set names. CHR '':'' \<notin> set n \<and> rooted n (row_source row))"

lemma collect_matches_known:
  assumes "collect_matches a rows acc = Inr ms" "rows_ok names rows"
    and "\<forall>(n, x) \<in> set acc. gateway_name x \<in> insert ''local'' (set names)"
  shows "\<forall>(n, x) \<in> set ms. gateway_name x \<in> insert ''local'' (set names)"
  using assms
proof (induction a rows acc rule: collect_matches.induct)
  case (2 a row rows acc)
  have rest: "rows_ok names rows" using 2(4) by (simp add: rows_ok_def)
  let ?display = "full_target_name (row_source row) a"
  show ?case
  proof (cases "list_ex (\<lambda>(n, _). n = ?display) acc")
    case True
    with 2 rest show ?thesis by (simp add: Let_def)
  next
    case False
    with 2(3) obtain x where x: "route_from_source (row_source row) a = Inr x"
        "collect_matches a rows (acc @ [(?display, x)]) = Inr ms"
      by (auto simp: Let_def split: sum.splits)
    have "gateway_name x \<in> insert ''local'' (set names)"
      using 2(4) route_from_rooted [OF _ _ x(1)] by (auto simp: rows_ok_def)
    with 2(5) have "\<forall>(n, y) \<in> set (acc @ [(?display, x)]). gateway_name y \<in> insert ''local'' (set names)"
      by auto
    with 2(2) [OF refl False x(1)] x(2) rest show ?thesis by blast
  qed
qed simp

lemma fallback_known:
  "append_fallback_loop r input ip es = Inr xs \<Longrightarrow>
    \<forall>x \<in> set xs. gateway_name x \<in> insert ''local'' (set (map gc_name (rs_gateways r)))"
proof (induction r input ip es arbitrary: xs rule: append_fallback_loop.induct)
  case (2 r input ip es)
  obtain o1 rest where o: "resolve_ssh_config_route r input ip = Inr o1" "append_fallback_loop r input ip es = Inr rest"
      "xs = (case o1 of Some y \<Rightarrow> [y] | None \<Rightarrow> []) @ rest"
    using "2.prems" by (auto split: sum.splits)
  have "gateway_name y = ''local''" if "o1 = Some y" for y
    using o(1) that by (auto simp: resolve_ssh_config_route_def split: sum.splits option.splits if_splits)
  moreover have "\<forall>x \<in> set rest. gateway_name x \<in> insert ''local'' (set (map gc_name (rs_gateways r)))"
    using "2.IH" [OF o(1,2)] .
  ultimately show ?case unfolding o(3) by (cases o1) auto
qed (auto simp: list_ex_iff split: sum.splits if_splits)

lemma lookup_local_known:
  "lookup_local_server r a = Some x \<Longrightarrow> gateway_name x = ''local''"
  "lookup_local_server_by_host r a = Some x \<Longrightarrow> gateway_name x = ''local''"
  by (auto simp: lookup_local_server_def lookup_local_server_by_host_def split: option.splits sum.splits)

lemma server_config_routes_known:
  "x \<in> set (append_server_config_routes r input) \<Longrightarrow> gateway_name x = ''local''"
  unfolding append_server_config_routes_def Let_def
  using lookup_local_known [of r]
  by (cases "lookup_local_server r input"; cases "lookup_local_server_by_host r input";
      cases "lookup_local_server_by_host r (derive_target_ip input)"; cases "derive_target_ip input = input") simp_all

lemma resolve_explicit_known:
  assumes "resolve_explicit r jump a = Inr xs"
  shows "xs \<noteq> [] \<and> (\<forall>x \<in> set xs. gateway_name x \<in> {''local''} \<union> set (map gc_name (rs_gateways r)) \<union> set (rs_dynamic r))"
  using assms
  by (auto simp: resolve_explicit_def Let_def LOCAL_SOURCE_ALIAS_def list_ex_iff
      dest: lookup_local_known split: option.splits if_splits)

lemma bare_known:
  assumes "resolve_bare_from_merged_view r a = Inr (Some res)" "rows_ok names (rs_merged_rows r)"
  shows "rr_routes res \<noteq> [] \<and> (\<forall>x \<in> set (rr_routes res). gateway_name x \<in> insert ''local'' (set names))"
proof -
  let ?rows = "filter (\<lambda>row. se_alias (row_server row) = a) (rs_merged_rows r)"
  obtain m ms where m: "collect_matches a ?rows [] = Inr (m # ms)" "rr_routes res = [snd m]"
    using assms(1) by (auto simp: resolve_bare_from_merged_view_def Let_def split: if_splits sum.splits list.splits)
  have "rows_ok names ?rows" using assms(2) by (auto simp: rows_ok_def)
  from collect_matches_known [OF m(1) this] have "gateway_name (snd m) \<in> insert ''local'' (set names)" by auto
  with m(2) show ?thesis by simp
qed

lemma is_any_gateway_name_iff:
  "is_any_gateway_name r n \<longleftrightarrow> n \<in> set (map gc_name (rs_gateways r)) \<union> set (rs_dynamic r)"
  by (auto simp: is_any_gateway_name_def list_ex_iff)

lemma resolve_known:
  assumes "resolve_with_warning r input = Inr res" "rows_ok names (rs_merged_rows r)"
  shows "rr_routes res \<noteq> [] \<and> (\<forall>x \<in> set (rr_routes res). gateway_name x \<in>
    {''local''} \<union> set (map gc_name (rs_gateways r)) \<union> set (rs_dynamic r) \<union> set names)"
proof (cases "input = SELF_TARGET")
  case True
  with assms(1) show ?thesis
    by (auto simp: resolve_with_warning_def is_any_gateway_name_iff split: if_splits)
next
  case False
  note res = assms(1) [unfolded resolve_with_warning_def] False
  show ?thesis
  proof (cases "parse_explicit_qualified input")
    case (Some p)
    with res obtain xs where "resolve_explicit r (fst p) (snd p) = Inr xs" "rr_routes res = xs"
      by (auto split: sum.splits prod.splits)
    with resolve_explicit_known show ?thesis by blast
  next
    case None
    show ?thesis
    proof (cases "is_any_gateway_name r input \<and> input \<noteq> LOCAL_SOURCE_ALIAS")
      case True
      with res None show ?thesis by (auto simp: is_any_gateway_name_iff)
    next
      case not_gw: False
      have fb: "?thesis" if "append_fallback_routes r input = Inr (rr_routes res)" "rr_routes res \<noteq> []"
        using fallback_known [OF that(1) [unfolded append_fallback_routes_def]] that(2) by auto
      show ?thesis
      proof (cases "rs_merged_rows r = []")
        case True
        with res None not_gw have "append_server_config_routes r input = rr_routes res \<and> rr_routes res \<noteq> []
            \<or> append_fallback_routes r input = Inr (rr_routes res) \<and> rr_routes res \<noteq> []"
          by (auto simp: Let_def split: list.splits sum.splits)
        then show ?thesis
        proof
          assume "append_server_config_routes r input = rr_routes res \<and> rr_routes res \<noteq> []"
          then show ?thesis using server_config_routes_known [of _ r input] by auto
        qed (use fb in blast)
      next
        case False
        with res None not_gw have "resolve_bare_from_merged_view r input = Inr (Some res)
            \<or> append_fallback_routes r input = Inr (rr_routes res) \<and> rr_routes res \<noteq> []"
          by (auto simp: Let_def split: list.splits sum.splits option.splits)
        then show ?thesis
        proof
          assume "resolve_bare_from_merged_view r input = Inr (Some res)"
          from bare_known [OF this assms(2)] show ?thesis by auto
        qed (use fb in blast)
      qed
    qed
  qed
qed

section \<open>The listing\<close>

definition gateway_rooted :: "string \<Rightarrow> gateway_view \<Rightarrow> bool" where
  "gateway_rooted n gv \<longleftrightarrow> CHR '':'' \<notin> set n
    \<and> (case gv_list gv of ListOk rows \<Rightarrow> list_all (\<lambda>row. rooted n (row_source row)) rows | _ \<Rightarrow> True)"

definition view_ok :: "daemon_view \<Rightarrow> bool" where
  "view_ok d \<longleftrightarrow> ''local'' \<in> set (map fst (dv_gateways d))
    \<and> list_all (\<lambda>(n, gv). gateway_rooted n gv) (dv_gateways d)
    \<and> list_all (\<lambda>(n, i, gv). ni_name i = n \<and> gateway_rooted n gv) (dv_nodes d)"

definition sources_ok :: "string list \<Rightarrow> (server_entry \<times> server_list_source) list \<Rightarrow> bool" where
  "sources_ok names xs \<longleftrightarrow> (\<forall>(e, src) \<in> set xs. \<exists>n \<in> set names. CHR '':'' \<notin> set n \<and> rooted n src)"

lemma sources_ok_Nil [simp]: "sources_ok names []"
  by (simp add: sources_ok_def)

lemma sources_ok_Cons [simp]:
  "sources_ok names ((e, src) # xs) \<longleftrightarrow> (\<exists>n \<in> set names. CHR '':'' \<notin> set n \<and> rooted n src) \<and> sources_ok names xs"
  by (simp add: sources_ok_def)

lemma sources_ok_append [simp]: "sources_ok names (xs @ ys) \<longleftrightarrow> sources_ok names xs \<and> sources_ok names ys"
  by (induction xs) auto

lemma add_rows_ok: "gateway_rooted n gv \<Longrightarrow> gv_list gv = ListOk rows \<Longrightarrow> n \<in> set names \<Longrightarrow> sources_ok names (add_rows rows)"
  by (auto simp: sources_ok_def add_rows_def gateway_rooted_def list_all_iff)

lemma list_static_ok:
  assumes "list_all (\<lambda>(n, gv). gateway_rooted n gv \<and> n \<in> set names) gs" "sources_ok names (fst acc)"
  shows "sources_ok names (fst (fold (list_static_gateway nr) gs acc))"
  using assms
proof (induction gs arbitrary: acc)
  case (Cons g gs)
  have "sources_ok names (fst (list_static_gateway nr g acc))"
    using Cons.prems add_rows_ok
    by (cases g; cases acc) (auto simp: list_static_gateway_def Let_def split: list_outcome.splits)
  with Cons show ?case by simp
qed simp

lemma list_node_ok:
  assumes "list_all (\<lambda>(n, i, gv). gateway_rooted n gv \<and> n \<in> set names) nodes" "''local'' \<in> set names"
    and "sources_ok names (fst acc)"
  shows "sources_ok names (fst (fold (list_node nodes) infos acc))"
  using assms(3)
proof (induction infos arbitrary: acc)
  case (Cons i infos)
  have loc: "\<exists>n \<in> set names. CHR '':'' \<notin> set n \<and> rooted n LocalSource"
    using assms(2) by (intro bexI [of _ "''local''"]) (simp_all add: rooted_def)
  have "sources_ok names (add_rows rows)" if "map_of nodes (ni_name i) = Some (x, gv)" "gv_list gv = ListOk rows" for x gv rows
    using map_of_SomeD [OF that(1)] assms(1) add_rows_ok [OF _ that(2)] by (fastforce simp: list_all_iff)
  with Cons.prems loc have "sources_ok names (fst (list_node nodes i acc))"
    by (cases acc; cases "map_of nodes (ni_name i)")
      (auto simp: list_node_def Let_def split: list_outcome.splits)
  with Cons show ?case by simp
qed simp

lemma listing_sources_ok:
  assumes "view_ok d"
  shows "sources_ok (all_gateway_names d) (fst (process_list_servers d nr))"
  unfolding process_list_servers_def
proof (rule list_node_ok, goal_cases)
  case 1
  have "list_all (\<lambda>(n, i, gv). ni_name i = n \<and> gateway_rooted n gv) (dv_nodes d)"
    using assms by (simp add: view_ok_def)
  then show ?case
    by (rule list.pred_mono_strong) (auto simp: all_gateway_names_def intro: rev_image_eqI)
next
  case 2
  show ?case using assms by (simp add: view_ok_def all_gateway_names_def)
next
  case 3
  have "list_all (\<lambda>(n, gv). gateway_rooted n gv) (dv_gateways d)"
    using assms by (simp add: view_ok_def)
  then have "list_all (\<lambda>(n, gv). gateway_rooted n gv \<and> n \<in> set (all_gateway_names d)) (dv_gateways d)"
    by (rule list.pred_mono_strong) (auto simp: all_gateway_names_def intro: rev_image_eqI)
  then show ?case by (rule list_static_ok) simp
qed

lemma find_gateway_iff: "find_gateway d n = None \<longleftrightarrow> n \<notin> fst ` set (dv_gateways d)"
  by (force simp: find_gateway_def find_None_iff)

lemma find_gateway_any_iff: "find_gateway_any d n \<noteq> None \<longleftrightarrow> n \<in> set (all_gateway_names d)"
proof (cases "find_gateway d n")
  case None
  moreover have "map_of (dv_nodes d) n = None \<longleftrightarrow> n \<notin> fst ` set (dv_nodes d)" by (rule map_of_eq_None_iff)
  ultimately show ?thesis
    using find_gateway_iff [of d n] by (cases "map_of (dv_nodes d) n") (auto simp: find_gateway_any_def all_gateway_names_def)
next
  case (Some g)
  with find_gateway_iff [of d n] show ?thesis by (auto simp: find_gateway_any_def all_gateway_names_def)
qed

section \<open>Properties\<close>

text \<open>C31. Every target that resolves has a first route, and every route names a gateway that the
  daemon has, static or registered, provided that the configured gateways are running, that
  gateways report sources below their own name, as they do, and that no name of a gateway or node holds a colon, which neither the validation of the
  configuration nor the handshake checks.\<close>

theorem resolved_routes_exist:
  assumes "view_ok d" "set (map gc_name (rcf_gateways c)) \<subseteq> set (map fst (dv_gateways d))"
    and "resolve_target_with_merged_view c d tgt = Inr res"
  shows "rr_routes res \<noteq> [] \<and> (\<forall>x \<in> set (rr_routes res). find_gateway_any d (gateway_name x) \<noteq> None)"
proof -
  let ?names = "all_gateway_names d"
  have known: "n \<in> set ?names"
    if "n \<in> {''local''} \<union> set (map gc_name (rcf_gateways c)) \<union> set (map fst (dv_nodes d)) \<union> set ?names" for n
    using that assms(1,2) by (auto simp: view_ok_def all_gateway_names_def)
  show ?thesis
  proof (cases "(List.member (map fst (dv_gateways d)) tgt \<or> List.member (map fst (dv_nodes d)) tgt) \<and> tgt \<noteq> ''local''")
    case True
    then have "find_gateway_any d tgt \<noteq> None"
      unfolding find_gateway_any_iff by (auto simp: all_gateway_names_def)
    with True assms(3) show ?thesis by (auto simp: resolve_target_with_merged_view_def)
  next
    case not_gw: False
    define r where "r = (if CHR '':'' \<in> set tgt \<and> \<not> starts_with tgt ''['' then base_resolver c d
      else (base_resolver c d)\<lparr>rs_merged_rows := map (\<lambda>(server, src). \<lparr>row_source = src, row_server = server\<rparr>)
              (fst (process_list_servers d False)), rs_source_status := snd (process_list_servers d False)\<rparr>)"
    have "resolve_with_warning r tgt = Inr res"
      using assms(3) not_gw by (auto simp: resolve_target_with_merged_view_def r_def Let_def split: prod.splits if_splits)
    moreover have "rows_ok ?names (rs_merged_rows r)"
      using listing_sources_ok [OF assms(1), of False]
      by (fastforce simp: r_def rows_ok_def sources_ok_def base_resolver_def)
    moreover have "rs_gateways r = rcf_gateways c" "rs_dynamic r = map fst (dv_nodes d)"
      by (simp_all add: r_def base_resolver_def)
    ultimately show ?thesis
      using resolve_known [of r tgt res ?names] known find_gateway_any_iff by (metis (no_types, lifting))
  qed
qed

definition demo_caps :: capabilities where
  "demo_caps = \<lparr>cap_exec = True, cap_copy = True, cap_proxy = True, cap_list = True\<rparr>"

definition demo_view :: daemon_view where
  "demo_view = \<lparr>dv_gateways =
      [(''local'', \<lparr>gv_kind = KDirect, gv_caps = demo_caps, gv_list = ListOk []\<rparr>),
       (''hop'', \<lparr>gv_kind = KXhod, gv_caps = demo_caps, gv_list = ListOk
          [\<lparr>row_source = GatewaySource ''hop:far'', row_server = \<lparr>se_alias = ''web'', se_host = ''h'', se_port = 22,
             se_user = ''u'', se_auth = NoAuth\<rparr>\<rparr>]\<rparr>)],
    dv_nodes = []\<rparr>"

definition demo_resolve_config :: "unit resolve_config" where
  "demo_resolve_config = \<lparr>rcf_fallback = [], rcf_ssh_config = Absent, rcf_home = None, rcf_server_file = Inl ReadFailed,
    rcf_gateways = [XhodConfig \<lparr>xg_name = ''hop'', xg_address = ''a'', xg_identity_file = [], xg_known_hosts_path = []\<rparr>]\<rparr>"

lemma demo_resolves:
  "resolve_target_with_merged_view demo_resolve_config demo_view ''web''
    = Inr \<lparr>rr_routes = [\<lparr>gateway_name = ''hop'', end_target = ''far:web''\<rparr>], rr_warning = None\<rparr>"
  by (simp add: resolve_target_with_merged_view_def demo_view_def demo_resolve_config_def demo_caps_def
      process_list_servers_def list_static_gateway_def add_rows_def resolve_with_warning_def base_resolver_def
      SELF_TARGET_def parse_explicit_qualified_def is_any_gateway_name_def resolve_bare_from_merged_view_def
      full_target_name_def route_from_source_def make_source_def)

theorem resolved_routes_exist_witness:
  "find_gateway_any demo_view ''hop'' \<noteq> None"
  using resolved_routes_exist [OF _ _ demo_resolves]
  by (simp add: view_ok_def demo_view_def gateway_rooted_def rooted_def demo_resolve_config_def)

text \<open>The qualified name under which a server is listed leads to it: reading the display name of
  a listed server as an explicit target gives the gateway and the end target of its route.\<close>

theorem qualified_name_leads_to_route:
  assumes "route_from_source (GatewaySource path) a = Inr x"
    and "list_all (\<lambda>seg. seg \<noteq> []) (split_on (CHR '':'') path)"
    and "a \<noteq> []" "CHR '':'' \<notin> set a" "\<not> list_all is_ascii_digit a"
  shows "parse_explicit_qualified (full_target_name (GatewaySource path) a) = Some (gateway_name x, end_target x)"
proof (cases "split_once (CHR '':'') path")
  case None
  then have "CHR '':'' \<notin> set path" by simp
  with assms None show ?thesis
    by (auto simp: parse_explicit_qualified_def full_target_name_def route_from_source_def starts_with_iff
        Let_def split: if_splits)
next
  case (Some p)
  obtain gw rest where p: "p = (gw, rest)" by (cases p)
  with Some have path: "path = gw @ CHR '':'' # rest" "CHR '':'' \<notin> set gw" by (auto simp: split_once_Some)
  have segs: "split_on (CHR '':'') path = gw # split_on (CHR '':'') rest"
    using path split_on_append_sep [of "CHR '':''" gw rest] by simp
  have "rest \<noteq> []" "\<not> starts_with rest '':''"
    using assms(2) unfolding segs by (auto simp: starts_with_iff)
  moreover have "gw \<noteq> []" using assms(2) unfolding segs by simp
  moreover have "\<not> is_ascii_digit (CHR '':'')" by (simp add: is_ascii_digit_def)
  ultimately show ?thesis
    using assms(1) Some p path
    by (cases rest) (auto simp: parse_explicit_qualified_def full_target_name_def route_from_source_def starts_with_iff)
qed

theorem qualified_name_leads_to_route_witness:
  "parse_explicit_qualified (full_target_name (GatewaySource ''hop:far'') ''web'') = Some (''hop'', ''far:web'')"
  using qualified_name_leads_to_route [of "''hop:far''" "''web''" "\<lparr>gateway_name = ''hop'', end_target = ''far:web''\<rparr>"]
  by (simp add: route_from_source_def is_ascii_digit_def)

lemma fallback_loop_defined:
  assumes "\<forall>n. FallbackGateway n \<in> set es \<longrightarrow> n \<in> set (map gc_name (rs_gateways r))"
  shows "append_fallback_loop r input ip es \<noteq> Inl (FallbackUndefined n)"
  using assms
proof (induction r input ip es rule: append_fallback_loop.induct)
  case (2 r input ip es)
  have "resolve_ssh_config_route r input ip \<noteq> Inl (FallbackUndefined n)"
    by (auto simp: resolve_ssh_config_route_def split: sum.splits option.splits)
  with 2 show ?case by (auto split: sum.splits)
qed (auto simp: list_ex_iff split: sum.splits)

text \<open>A fallback list that is read from a configuration file and passes the validation never
  leads a resolution to a gateway that is not configured.\<close>

theorem validated_fallback_defined:
  assumes "validate_fallback_references (rs_fallback r) (rs_gateways r) = None"
    and "rs_fallback r = map fallback_from_string names"
  shows "append_fallback_routes r input \<noteq> Inl (FallbackUndefined n)"
  unfolding append_fallback_routes_def
proof (rule fallback_loop_defined, intro allI impI)
  fix m
  assume m: "FallbackGateway m \<in> set (rs_fallback r)"
  with assms(2) have "m \<noteq> ''local''" by (auto simp: fallback_from_string_def split: if_splits)
  with m assms(1) show "m \<in> set (map gc_name (rs_gateways r))" by (auto simp: validate_fallback_None)
qed

theorem validated_fallback_defined_witness:
  "append_fallback_routes ((base_resolver demo_resolve_config demo_view)\<lparr>rs_fallback := map fallback_from_string [''local'', ''hop'']\<rparr>) ''x''
    \<noteq> Inl (FallbackUndefined ''hop'')"
  by (rule validated_fallback_defined [where names = "[''local'', ''hop'']"])
    (simp_all add: base_resolver_def demo_resolve_config_def fallback_from_string_def)

definition twin :: "string \<Rightarrow> unit server_host_config" where
  "twin u = \<lparr>sh_host = ''fe80::1'', sh_port = None, sh_user = u, sh_identity_file = Some ''k'', sh_password = None,
    sh_shell = None\<rparr>"

definition twin_resolver :: "(string \<times> unit server_host_config) list \<Rightarrow> unit resolver" where
  "twin_resolver ss = \<lparr>rs_fallback = [], rs_ssh_config = Absent, rs_home = None,
    rs_server_config = \<lparr>defaults = \<lparr>sd_identity_file = None, sd_shell = []\<rparr>, servers = ss\<rparr>, rs_gateways = [],
    rs_merged_rows = [], rs_source_status = [], rs_dynamic = []\<rparr>"

text \<open>Resolution of a host that two servers of the inventory share depends on the iteration order of
  the hash map: the same inventory, in two orders, gives two different routes.\<close>

theorem resolution_depends_on_map_order:
  "\<exists>ss ss'. distinct (map fst ss) \<and> map_of ss = map_of ss' \<and> mset ss = mset ss'
    \<and> resolve_with_warning (twin_resolver ss) ''fe80::1'' \<noteq> resolve_with_warning (twin_resolver ss') ''fe80::1''"
proof -
  let ?ss = "[(''a'', twin ''u''), (''b'', twin ''v'')]" and ?ss' = "[(''b'', twin ''v''), (''a'', twin ''u'')]"
  have "map_of ?ss = map_of ?ss'" by auto
  moreover have "resolve_with_warning (twin_resolver ?ss) ''fe80::1'' \<noteq> resolve_with_warning (twin_resolver ?ss') ''fe80::1''"
    by (simp add: resolve_with_warning_def twin_resolver_def twin_def SELF_TARGET_def parse_explicit_qualified_def
        starts_with_iff is_any_gateway_name_def append_server_config_routes_def lookup_local_server_def
        lookup_local_server_by_host_def resolve_server_entry_def)
  ultimately show ?thesis by (intro exI [of _ ?ss] exI [of _ ?ss']) simp
qed

end
