(* ===== verification/Audit_Log.thy ===== *)
theory Audit_Log
  imports Review Target_Resolver
begin

text \<open>
  The audit log (\<^verbatim>\<open>oversight/audit.rs\<close>), the identity of callers
  (\<^verbatim>\<open>oversight/mod.rs\<close>) and the events the daemon builds
  (\<^verbatim>\<open>audit_started\<close>, \<^verbatim>\<open>audit_event_result\<close>,
  \<^verbatim>\<open>audit_event_review\<close> and \<^verbatim>\<open>audit_session_op\<close> of
  \<^verbatim>\<open>daemon/mod.rs\<close>).  The clock and the fresh identifier of an event are a
  \<^verbatim>\<open>stamp\<close>; the file appender is a parameter that says whether the file opens, and the
  log is the list of the events written.
\<close>

section \<open>Callers\<close>

record caller =
  cl_source :: string
  cl_peer_addr :: "string option"
  cl_ssh_user :: "string option"
  cl_key_fingerprint :: "string option"
  cl_via_token :: bool

definition caller_local :: caller where
  "caller_local = \<lparr>cl_source = ''control-plane'', cl_peer_addr = None, cl_ssh_user = None,
    cl_key_fingerprint = None, cl_via_token = False\<rparr>"

definition caller_proxy :: "string option \<Rightarrow> string \<Rightarrow> string option \<Rightarrow> caller" where
  "caller_proxy peer ssh_user key_fingerprint = \<lparr>cl_source = ''proxy-ssh'', cl_peer_addr = peer,
    cl_ssh_user = Some ssh_user, cl_key_fingerprint = key_fingerprint, cl_via_token = False\<rparr>"

record remote_connect_info =
  ci_peer_addr :: "string option"
  ci_ssh_user :: string
  ci_public_key_fingerprint :: string
  ci_via_token :: bool

definition extract_caller :: "remote_connect_info option \<Rightarrow> caller" where
  "extract_caller info =
    (case info of
       Some i \<Rightarrow> \<lparr>cl_source = ''control-plane'', cl_peer_addr = ci_peer_addr i, cl_ssh_user = Some (ci_ssh_user i),
                   cl_key_fingerprint = Some (ci_public_key_fingerprint i), cl_via_token = ci_via_token i\<rparr>
     | None \<Rightarrow> caller_local)"

section \<open>Events\<close>

record stamp =
  st_epoch_ms :: int
  st_ts :: string
  st_event_id :: string

record audit_event =
  ae_ts_epoch_ms :: int
  ae_ts :: string
  ae_event_id :: string
  ae_source :: string
  ae_op :: string
  ae_status :: string
  ae_execution_id :: "string option"
  ae_target_input :: "string option"
  ae_gateway :: "string option"
  ae_end_target :: "string option"
  ae_gateway_kind :: "string option"
  ae_argv :: "string list option"
  ae_command :: "string option"
  ae_interactive :: "bool option"
  ae_tty :: "bool option"
  ae_shell :: "bool option"
  ae_no_shell :: "bool option"
  ae_direction :: "string option"
  ae_remote_path :: "string option"
  ae_recursive :: "bool option"
  ae_source_name :: "string option"
  ae_session_kind :: "string option"
  ae_exit_code :: "int option"
  ae_duration_ms :: "nat option"
  ae_timeout_ms :: "nat option"
  ae_error :: "string option"
  ae_caller_source :: "string option"
  ae_caller_peer :: "string option"
  ae_caller_ssh_user :: "string option"
  ae_caller_key_fingerprint :: "string option"
  ae_caller_via_token :: "bool option"
  ae_review_risk :: "string option"
  ae_review_action :: "string option"
  ae_review_reason :: "string option"

definition audit_new :: "stamp \<Rightarrow> string \<Rightarrow> string \<Rightarrow> string \<Rightarrow> audit_event" where
  "audit_new st src op status =
    \<lparr>ae_ts_epoch_ms = st_epoch_ms st, ae_ts = st_ts st, ae_event_id = st_event_id st,
     ae_source = src, ae_op = op, ae_status = status,
     ae_execution_id = None, ae_target_input = None, ae_gateway = None, ae_end_target = None,
     ae_gateway_kind = None, ae_argv = None, ae_command = None, ae_interactive = None, ae_tty = None,
     ae_shell = None, ae_no_shell = None, ae_direction = None, ae_remote_path = None,
     ae_recursive = None, ae_source_name = None, ae_session_kind = None, ae_exit_code = None,
     ae_duration_ms = None, ae_timeout_ms = None, ae_error = None, ae_caller_source = None,
     ae_caller_peer = None, ae_caller_ssh_user = None, ae_caller_key_fingerprint = None,
     ae_caller_via_token = None, ae_review_risk = None, ae_review_action = None,
     ae_review_reason = None\<rparr>"

section \<open>The sink\<close>

record audit_config =
  ac_enabled :: bool
  ac_path :: "string option"
  ac_include_identity :: bool

definition default_audit_config :: audit_config where
  "default_audit_config = \<lparr>ac_enabled = True, ac_path = None, ac_include_identity = True\<rparr>"

record audit_state =
  as_enabled :: bool
  as_include_identity :: bool
  as_path :: string

text \<open>The two globals, the state that is set once and the flag, and the events written so far.\<close>

record audit_sink =
  sk_state :: "audit_state option"
  sk_flag :: bool
  sk_log :: "audit_event list"

definition default_audit_log_path :: "bool \<Rightarrow> string" where
  "default_audit_log_path root = (if root then ''/var/log/xho/audit.jsonl'' else ''~/.xho/audit.jsonl'')"

definition resolve_audit_path :: "bool \<Rightarrow> string option \<Rightarrow> audit_config \<Rightarrow> string option" where
  "resolve_audit_path root home config =
    expand_tilde home
      (case ac_path config of
         Some p \<Rightarrow> if trim p = [] then default_audit_log_path root else p
       | None \<Rightarrow> default_audit_log_path root)"

text \<open>\<^verbatim>\<open>build\<close> is \<^verbatim>\<open>build_appender_at\<close>: it creates the directory and opens the
  file, or fails.\<close>

definition init_audit ::
  "(string \<Rightarrow> bool) \<Rightarrow> bool \<Rightarrow> string option \<Rightarrow> audit_config \<Rightarrow> audit_sink \<Rightarrow> audit_sink option" where
  "init_audit build root home config s =
    (case resolve_audit_path root home config of
       None \<Rightarrow> None
     | Some path \<Rightarrow>
         if \<not> build path then None
         else
           (let st = \<lparr>as_enabled = ac_enabled config, as_include_identity = ac_include_identity config, as_path = path\<rparr>
            in Some (s\<lparr>sk_flag := ac_enabled config,
                       sk_state := (case sk_state s of None \<Rightarrow> Some st | Some old \<Rightarrow> Some old)\<rparr>)))"

text \<open>The rotation hook opens the stored path anew; path and flags stay, the log continues in the
  new file.\<close>

definition reopen_audit_output :: "(string \<Rightarrow> bool) \<Rightarrow> audit_sink \<Rightarrow> audit_sink option" where
  "reopen_audit_output build s =
    (case sk_state s of
       None \<Rightarrow> None
     | Some st \<Rightarrow> if build (as_path st) then Some s else None)"

definition apply_audit_config :: "audit_config \<Rightarrow> audit_sink \<Rightarrow> audit_sink" where
  "apply_audit_config config s =
    s\<lparr>sk_flag := ac_enabled config,
      sk_state := map_option (\<lambda>st. st\<lparr>as_enabled := ac_enabled config,
        as_include_identity := ac_include_identity config\<rparr>) (sk_state s)\<rparr>"

definition record_event :: "audit_event \<Rightarrow> audit_sink \<Rightarrow> audit_sink" where
  "record_event e s =
    (if \<not> sk_flag s then s
     else case sk_state s of None \<Rightarrow> s | Some _ \<Rightarrow> s\<lparr>sk_log := sk_log s @ [e]\<rparr>)"

definition include_identity :: "audit_sink \<Rightarrow> bool" where
  "include_identity s = (case sk_state s of Some st \<Rightarrow> as_include_identity st | None \<Rightarrow> True)"

section \<open>Events of the daemon\<close>

definition fill_caller :: "bool \<Rightarrow> caller \<Rightarrow> audit_event \<Rightarrow> audit_event" where
  "fill_caller identity c e =
    (if \<not> identity then e
     else e\<lparr>ae_caller_source := Some (cl_source c), ae_caller_peer := cl_peer_addr c,
            ae_caller_ssh_user := cl_ssh_user c, ae_caller_key_fingerprint := cl_key_fingerprint c,
            ae_caller_via_token := Some (cl_via_token c)\<rparr>)"

fun direction_label :: "copy_direction \<Rightarrow> string" where
  "direction_label Upload = ''upload''"
| "direction_label Download = ''download''"

fun fill_detail :: "operation_detail \<Rightarrow> audit_event \<Rightarrow> audit_event" where
  "fill_detail (ExecDetail argv command interactive tty shell no_shell) e =
    e\<lparr>ae_argv := Some argv, ae_command := Some command, ae_interactive := Some interactive,
      ae_tty := Some tty, ae_shell := Some shell, ae_no_shell := Some no_shell\<rparr>"
| "fill_detail (CopyDetail direction remote_path recursive source_name) e =
    e\<lparr>ae_direction := Some (direction_label direction), ae_remote_path := Some remote_path,
      ae_recursive := Some recursive, ae_source_name := Some source_name\<rparr>"
| "fill_detail (SessionOp sk command_or_name) e =
    e\<lparr>ae_session_kind := Some (session_kind_str sk), ae_command := Some command_or_name\<rparr>"

text \<open>What the events of one operation have in common: its kind, its caller, the route with the kind
  of its gateway, the identifier, the target as the client named it and the timeout.\<close>

record operation =
  op_kind :: operation_kind
  op_caller :: caller
  op_route :: route
  op_gateway_kind :: "gateway_kind option"
  op_execution_id :: string
  op_target_input :: string
  op_timeout_ms :: nat

definition audit_started :: "stamp \<Rightarrow> operation \<Rightarrow> operation_detail \<Rightarrow> audit_sink \<Rightarrow> audit_sink" where
  "audit_started st o' detail s =
    (let e = audit_new st (cl_source (op_caller o')) (kind_str (op_kind o')) ''started'';
         e = e\<lparr>ae_execution_id := Some (op_execution_id o'), ae_target_input := Some (op_target_input o'),
               ae_gateway := Some (gateway_name (op_route o')), ae_end_target := Some (end_target (op_route o')),
               ae_gateway_kind := map_option show_gateway_kind (op_gateway_kind o'),
               ae_timeout_ms := Some (op_timeout_ms o')\<rparr>
     in record_event (fill_detail detail (fill_caller (include_identity s) (op_caller o') e)) s)"

definition audit_event_result ::
  "stamp \<Rightarrow> bool \<Rightarrow> operation \<Rightarrow> string \<Rightarrow> int option \<Rightarrow> string option \<Rightarrow> audit_event" where
  "audit_event_result st identity o' status code err =
    (let e = audit_new st (cl_source (op_caller o')) (kind_str (op_kind o')) status;
         e = e\<lparr>ae_execution_id := Some (op_execution_id o'), ae_target_input := Some (op_target_input o'),
               ae_gateway := Some (gateway_name (op_route o')), ae_end_target := Some (end_target (op_route o')),
               ae_gateway_kind := map_option show_gateway_kind (op_gateway_kind o'),
               ae_timeout_ms := Some (op_timeout_ms o'), ae_exit_code := code, ae_error := err\<rparr>
     in fill_caller identity (op_caller o') e)"

definition audit_event_review ::
  "stamp \<Rightarrow> bool \<Rightarrow> operation \<Rightarrow> risk_level option \<Rightarrow> review_action option \<Rightarrow> string option \<Rightarrow> audit_event" where
  "audit_event_review st identity o' risk act reason =
    (let e = audit_new st (cl_source (op_caller o')) (kind_str (op_kind o')) ''reviewed'';
         e = e\<lparr>ae_execution_id := Some (op_execution_id o'),
               ae_gateway := Some (gateway_name (op_route o')), ae_end_target := Some (end_target (op_route o')),
               ae_gateway_kind := map_option show_gateway_kind (op_gateway_kind o'),
               ae_review_risk := map_option show_risk risk, ae_review_action := map_option show_action act,
               ae_review_reason := reason\<rparr>
     in fill_caller identity (op_caller o') e)"

definition audit_session_op ::
  "stamp \<Rightarrow> string \<Rightarrow> caller \<Rightarrow> route \<Rightarrow> gateway_kind option \<Rightarrow> string \<Rightarrow> session_kind \<Rightarrow> string \<Rightarrow> string
    \<Rightarrow> audit_sink \<Rightarrow> audit_sink" where
  "audit_session_op st fresh_id c r gk target_input sk command_or_name status s =
    (let e = audit_new st (cl_source c) (kind_str OpSession) status;
         e = e\<lparr>ae_execution_id := Some fresh_id, ae_target_input := Some target_input,
               ae_gateway := Some (gateway_name r), ae_end_target := Some (end_target r),
               ae_gateway_kind := map_option show_gateway_kind gk,
               ae_session_kind := Some (session_kind_str sk), ae_command := Some command_or_name\<rparr>
     in record_event (fill_caller (include_identity s) c e) s)"

section \<open>Facts shared by the handlers\<close>

lemma record_event_flag [simp]:
  "sk_flag (record_event e s) = sk_flag s" "sk_state (record_event e s) = sk_state s"
  by (simp_all add: record_event_def split: option.split)

definition recording :: "audit_sink \<Rightarrow> bool" where
  "recording s = (sk_flag s \<and> sk_state s \<noteq> None)"

lemma recording_record [simp]: "recording (record_event e s) = recording s"
  by (simp add: recording_def)

lemma record_event_log: "sk_log (record_event e s) = sk_log s @ (if recording s then [e] else [])"
  by (auto simp: record_event_def recording_def split: option.split)

lemma fill_caller_kept [simp]:
  "ae_status (fill_caller i c e) = ae_status e" "ae_execution_id (fill_caller i c e) = ae_execution_id e"
  "ae_exit_code (fill_caller i c e) = ae_exit_code e" "ae_error (fill_caller i c e) = ae_error e"
  by (simp_all add: fill_caller_def)

lemma fill_detail_kept [simp]:
  "ae_status (fill_detail d e) = ae_status e" "ae_execution_id (fill_detail d e) = ae_execution_id e"
  "ae_exit_code (fill_detail d e) = ae_exit_code e" "ae_error (fill_detail d e) = ae_error e"
  by (cases d; simp)+

lemma audit_event_result_fields [simp]:
  "ae_status (audit_event_result st i o' status code err) = status"
  "ae_execution_id (audit_event_result st i o' status code err) = Some (op_execution_id o')"
  "ae_exit_code (audit_event_result st i o' status code err) = code"
  "ae_error (audit_event_result st i o' status code err) = err"
  by (simp_all add: audit_event_result_def audit_new_def Let_def)

lemma audit_event_review_fields [simp]:
  "ae_status (audit_event_review st i o' risk act reason) = ''reviewed''"
  "ae_execution_id (audit_event_review st i o' risk act reason) = Some (op_execution_id o')"
  by (simp_all add: audit_event_review_def audit_new_def Let_def)

end
