(* ===== verification/Execution.thy ===== *)
theory Execution
  imports Audit_Log Wire_Protocol
begin

text \<open>
  The execute RPC of the daemon (\<^verbatim>\<open>daemon/mod.rs\<close>: \<^verbatim>\<open>execute\<close>,
  \<^verbatim>\<open>process_execute\<close>, \<^verbatim>\<open>run_review\<close>, \<^verbatim>\<open>run_decision\<close>,
  \<^verbatim>\<open>wait_for_confirmation\<close>) and the driver of a session
  (\<^verbatim>\<open>daemon/session/mod.rs\<close>: \<^verbatim>\<open>gateway_with_capability\<close>,
  \<^verbatim>\<open>open_exec_session\<close>, \<^verbatim>\<open>drive_exec\<close>).

  A handler runs in a \<^verbatim>\<open>world\<close>: the responses it has sent, how many more the client
  takes before it closes its side (\<^verbatim>\<open>None\<close>: it never does), the requests still to
  arrive, and the audit sink with the supply of stamps.  The loop of
  \<^verbatim>\<open>process_execute\<close> waits on five futures at once; a schedule lists which of them
  completes next and what the spawned tasks do in between, and a run is a function of the
  schedule.  A step whose future is not ready gives \<^verbatim>\<open>None\<close>.
\<close>

section \<open>The world of a handler\<close>

datatype 'q inbound_item = Message "'q option" | StreamError string

record ('q, 'p) world =
  w_takes :: "nat option"
  w_sent :: "'p list"
  w_inbound :: "'q inbound_item list"
  w_stamps :: "nat \<Rightarrow> stamp"
  w_built :: nat
  w_sink :: audit_sink

definition send_msg :: "'p \<Rightarrow> ('q, 'p) world \<Rightarrow> ('q, 'p) world option" where
  "send_msg p w =
    (if w_takes w = Some 0 then None
     else Some (w\<lparr>w_sent := w_sent w @ [p], w_takes := map_option (\<lambda>n. n - 1) (w_takes w)\<rparr>))"

definition try_send :: "'p \<Rightarrow> ('q, 'p) world \<Rightarrow> ('q, 'p) world" where
  "try_send p w = (case send_msg p w of Some w' \<Rightarrow> w' | None \<Rightarrow> w)"

fun next_message :: "('q, 'p) world \<Rightarrow> (string + 'q option option) \<times> ('q, 'p) world" where
  "next_message w =
    (case w_inbound w of
       [] \<Rightarrow> (Inr None, w)
     | Message m # ms \<Rightarrow> (Inr (Some m), w\<lparr>w_inbound := ms\<rparr>)
     | StreamError e # ms \<Rightarrow> (Inl e, w\<lparr>w_inbound := ms\<rparr>))"

text \<open>Building an event takes a stamp; every event that is built is recorded.\<close>

definition audit_record :: "(stamp \<Rightarrow> bool \<Rightarrow> audit_event) \<Rightarrow> ('q, 'p) world \<Rightarrow> ('q, 'p) world" where
  "audit_record mk w =
    w\<lparr>w_sink := record_event (mk (w_stamps w (w_built w)) (include_identity (w_sink w))) (w_sink w),
      w_built := w_built w + 1\<rparr>"

definition audit_start :: "operation \<Rightarrow> operation_detail \<Rightarrow> ('q, 'p) world \<Rightarrow> ('q, 'p) world" where
  "audit_start o' detail w =
    w\<lparr>w_sink := audit_started (w_stamps w (w_built w)) o' detail (w_sink w), w_built := w_built w + 1\<rparr>"

section \<open>Review and confirmation\<close>

datatype enforced = Proceed | ConfirmFirst string | Denied string

definition run_decision ::
  "operation \<Rightarrow> review_decision \<Rightarrow> ('q, 'p) world \<Rightarrow> enforced \<times> ('q, 'p) world" where
  "run_decision o' d w =
    (let w = audit_record (\<lambda>st i. audit_event_review st i o' (Some (rd_risk d)) (Some (rd_action d)) (Some (rd_reason d))) w
     in (case rd_action d of
           Allow \<Rightarrow> Proceed
         | Warn \<Rightarrow> Proceed
         | Confirm \<Rightarrow> ConfirmFirst (rd_reason d)
         | Deny \<Rightarrow> Denied (rd_reason d), w))"

definition run_review ::
  "llm \<Rightarrow> review_config \<Rightarrow> operation \<Rightarrow> operation_detail \<Rightarrow> ('q, 'p) world \<Rightarrow> enforced \<times> ('q, 'p) world" where
  "run_review m cfg o' detail w =
    (case review m cfg (op_kind o') (end_target (op_route o')) detail of
       Skipped \<Rightarrow> (Proceed, w)
     | Failed e \<Rightarrow>
         (let act = rc_failure_action cfg;
              w = audit_record (\<lambda>st i. audit_event_review st i o' (Some Dangerous) (Some act)
                    (Some (''review failed: '' @ e))) w
          in (case act of
                Allow \<Rightarrow> Proceed
              | Warn \<Rightarrow> Proceed
              | Confirm \<Rightarrow> ConfirmFirst (''review service failed: '' @ e)
              | Deny \<Rightarrow> Denied (''review failed and policy is deny: '' @ e), w))
     | Decision d \<Rightarrow> run_decision o' d w)"

type_synonym exec_world = "(execute_request, execute_response) world"

definition send_execute_event :: "server_event \<Rightarrow> exec_world \<Rightarrow> exec_world option" where
  "send_execute_event ev w = send_msg (server_event_to_rpc ev) w"

definition wait_for_confirmation ::
  "(string \<Rightarrow> string option) \<Rightarrow> string \<Rightarrow> string \<Rightarrow> exec_world \<Rightarrow> (string + unit) \<times> exec_world" where
  "wait_for_confirmation parse_uuid execution_id reason w =
    (case send_execute_event (EvConfirmRequired execution_id reason) w of
       None \<Rightarrow> (Inl ''client receive stream closed'', w)
     | Some w \<Rightarrow>
         (case next_message w of
            (Inl e, w) \<Rightarrow> (Inl e, w)
          | (Inr None, w) \<Rightarrow> (Inl ''client disconnected before confirmation'', w)
          | (Inr (Some (Some (ReqConfirm i allow))), w) \<Rightarrow>
              (case parse_execution_id parse_uuid i of
                 Inl e \<Rightarrow> (Inl e, w)
               | Inr response_id \<Rightarrow>
                   (if response_id = execution_id \<and> allow then Inr () else Inl ''execution not confirmed'', w))
          | (Inr (Some _), w) \<Rightarrow> (Inl ''unexpected request while awaiting confirmation'', w)))"

section \<open>Sessions\<close>

datatype session_event =
    SeStdout string | SeStderr string | SeExitStatus int | SeExitSignal string | SeEof

text \<open>A session that a gateway opened: the answers to the start requests and the events it yields
  for a command (\<^verbatim>\<open>None\<close>: a login shell).\<close>

record session =
  ss_pty :: "nat \<Rightarrow> nat \<Rightarrow> string option"
  ss_start :: "string option \<Rightarrow> string option"
  ss_events :: "string option \<Rightarrow> session_event list"

record 'sec exec_env =
  en_config :: "'sec resolve_config"
  en_view :: daemon_view
  en_llm :: llm
  en_review :: review_config
  en_uuid :: string
  en_parse_uuid :: "string \<Rightarrow> string option"
  en_error_text :: "resolve_error \<Rightarrow> string"
  en_open :: "string \<Rightarrow> string \<Rightarrow> string list \<Rightarrow> string \<Rightarrow> bool \<Rightarrow> gateway_error + session \<times> string"

definition unsupported :: "string \<Rightarrow> string" where
  "unsupported what = ''unsupported operation for this transport: '' @ what"

definition gateway_with_capability ::
  "daemon_view \<Rightarrow> route \<Rightarrow> (capabilities \<Rightarrow> bool) \<Rightarrow> string + gateway_view" where
  "gateway_with_capability d r needed =
    (case find_gateway_any d (gateway_name r) of
       None \<Rightarrow> Inl (''gateway '' @ [CHR 0x27] @ gateway_name r @ [CHR 0x27] @ '' not found'')
     | Some g \<Rightarrow>
         if \<not> needed (gv_caps g)
         then Inl (unsupported (''gateway '' @ [CHR 0x27] @ gateway_name r @ [CHR 0x27] @ '' ('' @ show_gateway_kind (gv_kind g)
                     @ '') does not support this operation''))
         else Inr g)"

definition open_exec_session ::
  "'sec exec_env \<Rightarrow> route \<Rightarrow> string list \<Rightarrow> string \<Rightarrow> bool \<Rightarrow> string + session \<times> string" where
  "open_exec_session env r argv cli_shell no_shell =
    (case gateway_with_capability (en_view env) r cap_exec of
       Inl e \<Rightarrow> Inl e
     | Inr _ \<Rightarrow>
         (case en_open env (gateway_name r) (end_target r) argv cli_shell no_shell of
            Inl e \<Rightarrow> Inl (user_message e)
          | Inr s \<Rightarrow> Inr s))"

fun pump_events :: "session_event list \<Rightarrow> server_event list \<times> int" where
  "pump_events [] = ([], 0)"
| "pump_events (SeStdout d # es) = (let (out, c) = pump_events es in (EvStdout d # out, c))"
| "pump_events (SeStderr d # es) = (let (out, c) = pump_events es in (EvStderr d # out, c))"
| "pump_events (SeExitStatus c # es) = ([], c)"
| "pump_events (SeExitSignal s # es) = ([EvStderr (''killed by signal '' @ s @ [CHR 0x0A])], 255)"
| "pump_events (SeEof # es) = ([], 0)"

text \<open>What \<^verbatim>\<open>drive_exec\<close> sends over its event channel and what it returns; the answer to
  the terminal request is ignored.  The bytes of standard input travel over the channel of
  the loop below.\<close>

definition drive_exec :: "session \<Rightarrow> string \<Rightarrow> server_event list \<times> (string + int)" where
  "drive_exec s command =
    (case ss_start s (Some command) of
       Some e \<Rightarrow> ([], Inl e)
     | None \<Rightarrow> (let (out, c) = pump_events (ss_events s (Some command)) in (out, Inr c)))"

section \<open>The loop of an execution\<close>

datatype task_result = TaskOk int | TaskErr string | TaskPanic string

text \<open>What the task still emits and then returns, the event channel, the channel of standard input
  (32 chunks: its sending end, its contents, its receiving end, the chunk a full channel
  makes the loop wait with) and the chunks the session has been given.\<close>

record loop_state =
  ls_pending :: "server_event list"
  ls_result :: task_result
  ls_queue :: "server_event list"
  ls_tx :: bool
  ls_chan :: "string list"
  ls_rx :: bool
  ls_parked :: "string option"
  ls_fed :: "string list"
  ls_inbound_closed :: bool
  ls_expired :: bool

definition exec_task :: "'sec exec_env \<Rightarrow> route \<Rightarrow> exec_request \<Rightarrow> server_event list \<times> task_result" where
  "exec_task env r rq =
    (case open_exec_session env r (xr_argv rq) (xr_shell rq) (xr_no_shell rq) of
       Inl e \<Rightarrow> ([], TaskErr e)
     | Inr (s, command) \<Rightarrow>
         (case drive_exec s command of
            (out, Inl e) \<Rightarrow> (out, TaskErr e)
          | (out, Inr c) \<Rightarrow> (out, TaskOk c)))"

definition loop_init :: "bool \<Rightarrow> server_event list \<times> task_result \<Rightarrow> loop_state" where
  "loop_init stdin_on task =
    \<lparr>ls_pending = fst task, ls_result = snd task, ls_queue = [], ls_tx = stdin_on, ls_chan = [],
     ls_rx = stdin_on, ls_parked = None, ls_fed = [], ls_inbound_closed = False, ls_expired = False\<rparr>"

datatype exec_step_choice =
    TaskEmits | SessionTakesStdin | SessionDropsStdin | DeadlinePasses | SpaceForStdin
  | OnEvent | OnClientGone | OnInbound | OnDeadline | OnTaskDone

datatype loop_out = Looping loop_state | Finished | FailedWith string

fun drain :: "server_event list \<Rightarrow> exec_world \<Rightarrow> bool \<times> exec_world" where
  "drain [] w = (True, w)"
| "drain (ev # evs) w =
    (case send_execute_event ev w of Some w' \<Rightarrow> drain evs w' | None \<Rightarrow> (False, w))"

definition stdin_capacity :: nat where "stdin_capacity = 32"

definition push_stdin :: "string \<Rightarrow> loop_state \<Rightarrow> loop_state" where
  "push_stdin d l =
    (if \<not> ls_rx l then l\<lparr>ls_parked := None\<rparr>
     else if length (ls_chan l) < stdin_capacity then l\<lparr>ls_chan := ls_chan l @ [d], ls_parked := None\<rparr>
     else l\<lparr>ls_parked := Some d\<rparr>)"

definition on_inbound :: "bool \<Rightarrow> loop_state \<Rightarrow> exec_world \<Rightarrow> loop_state \<times> exec_world" where
  "on_inbound stdin_on l w =
    (case next_message w of
       (Inr (Some (Some (ReqStdinData d))), w) \<Rightarrow>
         (if stdin_on then (if d = [] then l\<lparr>ls_tx := False\<rparr> else if ls_tx l then push_stdin d l else l) else l, w)
     | (Inr (Some _), w) \<Rightarrow> (l, w)
     | (Inr None, w) \<Rightarrow> (l\<lparr>ls_tx := False, ls_inbound_closed := True\<rparr>, w)
     | (Inl _, w) \<Rightarrow> (l\<lparr>ls_tx := False, ls_inbound_closed := True\<rparr>, w))"

definition on_deadline :: "operation \<Rightarrow> loop_state \<Rightarrow> exec_world \<Rightarrow> exec_world" where
  "on_deadline o' l w =
    (case drain (ls_queue l) w of
       (False, w) \<Rightarrow> w
     | (True, w) \<Rightarrow>
         try_send (server_event_to_rpc (EvExitStatus 124))
           (audit_record (\<lambda>st i. audit_event_result st i o' ''timeout'' (Some 124) None) w))"

definition on_task_done :: "operation \<Rightarrow> loop_state \<Rightarrow> exec_world \<Rightarrow> loop_out \<times> exec_world" where
  "on_task_done o' l w =
    (case ls_result l of
       TaskPanic e \<Rightarrow> (FailedWith e, w)
     | TaskErr e \<Rightarrow>
         (Finished, try_send (server_event_to_rpc (EvError e))
            (audit_record (\<lambda>st i. audit_event_result st i o' ''failed'' None (Some e)) w))
     | TaskOk c \<Rightarrow>
         (case drain (ls_queue l) w of
            (False, w) \<Rightarrow> (Finished, w)
          | (True, w) \<Rightarrow>
              (Finished, try_send (server_event_to_rpc (EvExitStatus c))
                 (audit_record (\<lambda>st i. audit_event_result st i o' ''completed'' (Some c) None) w))))"

text \<open>The steps of the spawned tasks and of time come first; the branches of the select are ready
  only while the loop is not waiting for space in the channel of standard input, which it
  does inside the branch for requests.\<close>

fun exec_step ::
  "operation \<Rightarrow> bool \<Rightarrow> exec_step_choice \<Rightarrow> loop_state \<Rightarrow> exec_world \<Rightarrow> (loop_out \<times> exec_world) option" where
  "exec_step o' stdin_on TaskEmits l w =
    (case ls_pending l of
       [] \<Rightarrow> None
     | ev # evs \<Rightarrow> Some (Looping (l\<lparr>ls_pending := evs, ls_queue := ls_queue l @ [ev]\<rparr>), w))"
| "exec_step o' stdin_on SessionTakesStdin l w =
    (case ls_chan l of
       [] \<Rightarrow> None
     | d # ds \<Rightarrow> if ls_rx l then Some (Looping (l\<lparr>ls_chan := ds, ls_fed := ls_fed l @ [d]\<rparr>), w) else None)"
| "exec_step o' stdin_on SessionDropsStdin l w =
    (if ls_rx l then Some (Looping (l\<lparr>ls_rx := False, ls_chan := []\<rparr>), w) else None)"
| "exec_step o' stdin_on DeadlinePasses l w = Some (Looping (l\<lparr>ls_expired := True\<rparr>), w)"
| "exec_step o' stdin_on SpaceForStdin l w =
    (case ls_parked l of
       None \<Rightarrow> None
     | Some d \<Rightarrow> if ls_rx l \<and> stdin_capacity \<le> length (ls_chan l) then None else Some (Looping (push_stdin d l), w))"
| "exec_step o' stdin_on OnEvent l w =
    (case (ls_parked l, ls_queue l) of
       (None, ev # evs) \<Rightarrow>
         (case send_execute_event ev w of
            Some w' \<Rightarrow> Some (Looping (l\<lparr>ls_queue := evs\<rparr>), w')
          | None \<Rightarrow> Some (Finished, w))
     | _ \<Rightarrow> None)"
| "exec_step o' stdin_on OnClientGone l w =
    (if ls_parked l = None \<and> w_takes w = Some 0 then Some (Finished, w) else None)"
| "exec_step o' stdin_on OnInbound l w =
    (if ls_parked l = None \<and> \<not> ls_inbound_closed l
     then (let (l', w') = on_inbound stdin_on l w in Some (Looping l', w')) else None)"
| "exec_step o' stdin_on OnDeadline l w =
    (if ls_parked l = None \<and> 0 < op_timeout_ms o' \<and> ls_expired l then Some (Finished, on_deadline o' l w) else None)"
| "exec_step o' stdin_on OnTaskDone l w =
    (if ls_parked l = None \<and> ls_pending l = [] then Some (on_task_done o' l w) else None)"

fun exec_loop ::
  "operation \<Rightarrow> bool \<Rightarrow> exec_step_choice list \<Rightarrow> loop_out \<times> exec_world \<Rightarrow> (loop_out \<times> exec_world) option" where
  "exec_loop o' stdin_on [] x = Some x"
| "exec_loop o' stdin_on (c # cs) (out, w) =
    (case out of
       Looping l \<Rightarrow> (case exec_step o' stdin_on c l w of Some x \<Rightarrow> exec_loop o' stdin_on cs x | None \<Rightarrow> None)
     | _ \<Rightarrow> None)"

section \<open>Interactive sessions\<close>

text \<open>\<^verbatim>\<open>drive_interactive\<close>: the pump task turns the session's events into output chunks
  and one exit code; the input task hands chunks of standard input (channel of 32) and
  window sizes (channel of 8) to the session and ends when the session refuses a chunk.\<close>

record inter_state =
  is_events :: "session_event list"
  is_out :: "string list"
  is_exit :: "int option"
  is_chan :: "string list"
  is_sizes :: "(nat \<times> nat) list"
  is_input :: bool
  is_parked :: "(string + nat \<times> nat) option"
  is_fed :: "string list"

definition drive_interactive ::
  "session \<Rightarrow> string option \<Rightarrow> nat \<Rightarrow> nat \<Rightarrow> string + inter_state" where
  "drive_interactive s exec_command cols rows =
    (case ss_pty s cols rows of
       Some e \<Rightarrow> Inl e
     | None \<Rightarrow>
         (case ss_start s exec_command of
            Some e \<Rightarrow> Inl e
          | None \<Rightarrow> Inr \<lparr>is_events = ss_events s exec_command, is_out = [], is_exit = None, is_chan = [],
              is_sizes = [], is_input = True, is_parked = None, is_fed = []\<rparr>))"

fun pump_step :: "inter_state \<Rightarrow> inter_state" where
  "pump_step l =
    (case is_events l of
       [] \<Rightarrow> l\<lparr>is_exit := Some 0\<rparr>
     | SeStdout d # es \<Rightarrow> l\<lparr>is_events := es, is_out := is_out l @ [d]\<rparr>
     | SeStderr d # es \<Rightarrow> l\<lparr>is_events := es, is_out := is_out l @ [d]\<rparr>
     | SeExitStatus c # es \<Rightarrow> l\<lparr>is_events := es, is_exit := Some c\<rparr>
     | SeExitSignal _ # es \<Rightarrow> l\<lparr>is_events := es, is_exit := Some 255\<rparr>
     | SeEof # es \<Rightarrow> l\<lparr>is_events := es, is_exit := Some 0\<rparr>)"

datatype inter_step_choice =
    PumpsEvent | InputTakesStdin | InputTakesResize | InputEnds | SpaceForInput
  | OnStdout | OnRequest | OnExit

datatype inter_out = InterLooping inter_state | InterFinished

definition push_input :: "string + nat \<times> nat \<Rightarrow> inter_state \<Rightarrow> inter_out" where
  "push_input x l =
    (case x of
       Inl d \<Rightarrow>
         if \<not> is_input l then InterFinished
         else if length (is_chan l) < 32 then InterLooping (l\<lparr>is_chan := is_chan l @ [d], is_parked := None\<rparr>)
         else InterLooping (l\<lparr>is_parked := Some (Inl d)\<rparr>)
     | Inr z \<Rightarrow>
         if \<not> is_input l then InterLooping (l\<lparr>is_parked := None\<rparr>)
         else if length (is_sizes l) < 8 then InterLooping (l\<lparr>is_sizes := is_sizes l @ [z], is_parked := None\<rparr>)
         else InterLooping (l\<lparr>is_parked := Some (Inr z)\<rparr>))"

definition on_exit :: "operation \<Rightarrow> int \<Rightarrow> inter_state \<Rightarrow> exec_world \<Rightarrow> exec_world" where
  "on_exit o' c l w =
    (case drain (map EvStdout (is_out l)) w of
       (False, w) \<Rightarrow> w
     | (True, w) \<Rightarrow>
         try_send (server_event_to_rpc (EvExitStatus c))
           (audit_record (\<lambda>st i. audit_event_result st i o' ''completed'' (Some c) None) w))"

text \<open>The output channel is closed when the pump task has ended, at the moment the exit code is
  there; a loop that sees the closed channel reads the code and ends the same way.\<close>

fun inter_step ::
  "operation \<Rightarrow> inter_step_choice \<Rightarrow> inter_state \<Rightarrow> exec_world \<Rightarrow> (inter_out \<times> exec_world) option" where
  "inter_step o' PumpsEvent l w = (if is_exit l = None then Some (InterLooping (pump_step l), w) else None)"
| "inter_step o' InputTakesStdin l w =
    (case is_chan l of
       d # ds \<Rightarrow> if is_input l then Some (InterLooping (l\<lparr>is_chan := ds, is_fed := is_fed l @ [d]\<rparr>), w) else None
     | [] \<Rightarrow> None)"
| "inter_step o' InputTakesResize l w =
    (case is_sizes l of
       z # zs \<Rightarrow> if is_input l then Some (InterLooping (l\<lparr>is_sizes := zs\<rparr>), w) else None
     | [] \<Rightarrow> None)"
| "inter_step o' InputEnds l w =
    (if is_input l \<and> is_chan l \<noteq> [] then Some (InterLooping (l\<lparr>is_input := False, is_chan := [], is_sizes := []\<rparr>), w)
     else None)"
| "inter_step o' SpaceForInput l w =
    (case is_parked l of
       None \<Rightarrow> None
     | Some x \<Rightarrow> if push_input x l = InterLooping (l\<lparr>is_parked := Some x\<rparr>) then None else Some (push_input x l, w))"
| "inter_step o' OnStdout l w =
    (if is_parked l \<noteq> None then None
     else
       (case (is_out l, is_exit l) of
          (d # ds, _) \<Rightarrow>
            (case send_execute_event (EvStdout d) w of
               Some w' \<Rightarrow> Some (InterLooping (l\<lparr>is_out := ds\<rparr>), w')
             | None \<Rightarrow> Some (InterFinished, w))
        | ([], Some c) \<Rightarrow> Some (InterFinished, on_exit o' c l w)
        | ([], None) \<Rightarrow> None))"
| "inter_step o' OnRequest l w =
    (if is_parked l \<noteq> None then None
     else
       (case next_message w of
          (Inr (Some (Some (ReqStdinData d))), w) \<Rightarrow> Some (push_input (Inl d) l, w)
        | (Inr (Some (Some (ReqWindowResize cols rows))), w) \<Rightarrow> Some (push_input (Inr (cols, rows)) l, w)
        | (Inr (Some _), w) \<Rightarrow> Some (InterLooping l, w)
        | (Inr None, w) \<Rightarrow> Some (InterFinished, w)
        | (Inl _, w) \<Rightarrow> Some (InterFinished, w)))"
| "inter_step o' OnExit l w =
    (if is_parked l \<noteq> None then None
     else (case is_exit l of Some c \<Rightarrow> Some (InterFinished, on_exit o' c l w) | None \<Rightarrow> None))"

fun inter_loop ::
  "operation \<Rightarrow> inter_step_choice list \<Rightarrow> inter_out \<times> exec_world \<Rightarrow> (inter_out \<times> exec_world) option" where
  "inter_loop o' [] x = Some x"
| "inter_loop o' (c # cs) (out, w) =
    (case out of
       InterLooping l \<Rightarrow> (case inter_step o' c l w of Some x \<Rightarrow> inter_loop o' cs x | None \<Rightarrow> None)
     | InterFinished \<Rightarrow> None)"

section \<open>The handler\<close>

datatype start_result =
    StartErr string
  | StartDone
  | StartLoop operation bool loop_state
  | StartInteractive operation inter_state

definition exec_detail :: "exec_request \<Rightarrow> bool \<Rightarrow> operation_detail" where
  "exec_detail rq interactive =
    ExecDetail (xr_argv rq) (join_with '' '' (xr_argv rq)) interactive (xr_tty rq) (xr_shell rq \<noteq> []) (xr_no_shell rq)"

definition exec_operation :: "'sec exec_env \<Rightarrow> caller \<Rightarrow> operation_kind \<Rightarrow> exec_request \<Rightarrow> route \<Rightarrow> operation" where
  "exec_operation env c k rq r =
    \<lparr>op_kind = k, op_caller = c, op_route = r,
     op_gateway_kind = map_option gv_kind (find_gateway_any (en_view env) (gateway_name r)),
     op_execution_id = en_uuid env, op_target_input = xr_target rq, op_timeout_ms = xr_timeout_ms rq\<rparr>"

text \<open>What follows on a review: the operation goes on, waits for the client's confirmation, or is
  denied; \<^verbatim>\<open>Inr None\<close> is the return after a denial.\<close>

definition enforce ::
  "'sec exec_env \<Rightarrow> operation \<Rightarrow> enforced \<times> exec_world \<Rightarrow> (string + operation option) \<times> exec_world" where
  "enforce env o' decision =
    (case decision of
       (Proceed, w) \<Rightarrow> (Inr (Some o'), w)
     | (ConfirmFirst reason, w) \<Rightarrow>
         (case wait_for_confirmation (en_parse_uuid env) (en_uuid env) reason w of
            (Inl e, w) \<Rightarrow> (Inl e, w)
          | (Inr _, w) \<Rightarrow> (Inr (Some o'), w))
     | (Denied reason, w) \<Rightarrow>
         (case send_execute_event (EvError (''command denied: '' @ reason)) w of
            None \<Rightarrow> (Inl ''client receive stream closed'', w)
          | Some w \<Rightarrow> (Inr None, w)))"

text \<open>What both kinds of execution do first: resolve the target, report a warning, record the start,
  review and enforce.\<close>

definition exec_prologue ::
  "'sec exec_env \<Rightarrow> caller \<Rightarrow> operation_kind \<Rightarrow> exec_request \<Rightarrow> exec_world
    \<Rightarrow> (string + operation option) \<times> exec_world" where
  "exec_prologue env c k rq w =
    (case resolve_target_with_merged_view (en_config env) (en_view env) (xr_target rq) of
       Inl e \<Rightarrow> (Inl (en_error_text env e), w)
     | Inr res \<Rightarrow>
         (case rr_routes res of
            [] \<Rightarrow> (Inl ''no resolved target candidates'', w)
          | r # _ \<Rightarrow>
              (case (case rr_warning res of None \<Rightarrow> Some w | Some m \<Rightarrow> send_execute_event (EvInfo m) w) of
                 None \<Rightarrow> (Inl ''client receive stream closed'', w)
               | Some w \<Rightarrow>
                   (let o' = exec_operation env c k rq r;
                        detail = exec_detail rq (k = OpExecInteractive)
                    in enforce env o' (run_review (en_llm env) (en_review env) o' detail (audit_start o' detail w))))))"

definition process_interactive_execute ::
  "'sec exec_env \<Rightarrow> caller \<Rightarrow> exec_request \<Rightarrow> exec_world \<Rightarrow> start_result \<times> exec_world" where
  "process_interactive_execute env c rq w =
    (case exec_prologue env c OpExecInteractive rq w of
       (Inl e, w) \<Rightarrow> (StartErr e, w)
     | (Inr None, w) \<Rightarrow> (StartDone, w)
     | (Inr (Some o'), w) \<Rightarrow>
         (case open_exec_session env (op_route o') (xr_argv rq) (xr_shell rq) (xr_no_shell rq) of
            Inl e \<Rightarrow> (StartErr e, w)
          | Inr (s, command) \<Rightarrow>
              (case drive_interactive s (if xr_argv rq = [] then None else Some command)
                      (xr_term_cols rq) (xr_term_rows rq) of
                 Inl e \<Rightarrow> (StartErr e, w)
               | Inr l \<Rightarrow> (StartInteractive o' l, w))))"

definition process_execute ::
  "'sec exec_env \<Rightarrow> caller \<Rightarrow> exec_request \<Rightarrow> exec_world \<Rightarrow> start_result \<times> exec_world" where
  "process_execute env c rq w =
    (if xr_argv rq = [] then (StartErr ''argv must not be empty'', w)
     else if xr_interactive rq then
       (if \<not> xr_tty rq then
          (case send_execute_event (EvError ''interactive mode requires tty (--tty)'') w of
             None \<Rightarrow> (StartErr ''client receive stream closed'', w) | Some w \<Rightarrow> (StartDone, w))
        else if xr_term_cols rq = 0 \<or> xr_term_rows rq = 0 then
          (case send_execute_event (EvError ''interactive mode requires term_cols > 0 and term_rows > 0'') w of
             None \<Rightarrow> (StartErr ''client receive stream closed'', w) | Some w \<Rightarrow> (StartDone, w))
        else process_interactive_execute env c rq w)
     else
       (case exec_prologue env c OpExec rq w of
          (Inl e, w) \<Rightarrow> (StartErr e, w)
        | (Inr None, w) \<Rightarrow> (StartDone, w)
        | (Inr (Some o'), w) \<Rightarrow>
            (StartLoop o' (xr_stdin rq) (loop_init (xr_stdin rq) (exec_task env (op_route o') rq)), w)))"

definition execute_start ::
  "'sec exec_env \<Rightarrow> caller \<Rightarrow> exec_world \<Rightarrow> start_result \<times> exec_world" where
  "execute_start env c w =
    (case next_message w of
       (Inl e, w) \<Rightarrow> (StartErr e, w)
     | (Inr None, w) \<Rightarrow> (StartErr ''client disconnected before start request'', w)
     | (Inr (Some (Some (ReqStart rq))), w) \<Rightarrow> process_execute env c rq w
     | (Inr (Some _), w) \<Rightarrow> (StartErr ''first execute stream message must be start'', w))"

text \<open>The task of the execute RPC as a whole, for a schedule of the loop it reaches;
  \<^verbatim>\<open>None\<close> where the schedule does not fit or does not end.\<close>

definition execute ::
  "'sec exec_env \<Rightarrow> caller \<Rightarrow> exec_step_choice list \<Rightarrow> inter_step_choice list \<Rightarrow> exec_world \<Rightarrow> exec_world option" where
  "execute env c sched isched w =
    (case execute_start env c w of
       (StartErr e, w) \<Rightarrow> Some (try_send (error_response e) w)
     | (StartDone, w) \<Rightarrow> Some w
     | (StartLoop o' stdin_on l, w) \<Rightarrow>
         (case exec_loop o' stdin_on sched (Looping l, w) of
            Some (Finished, w) \<Rightarrow> Some w
          | Some (FailedWith e, w) \<Rightarrow> Some (try_send (error_response e) w)
          | _ \<Rightarrow> None)
     | (StartInteractive o' l, w) \<Rightarrow>
         (case inter_loop o' isched (InterLooping l, w) of
            Some (InterFinished, w) \<Rightarrow> Some w
          | _ \<Rightarrow> None))"

section \<open>Sending and recording\<close>

lemma send_open:
  "w_takes w = None \<Longrightarrow> send_msg p w = Some (w\<lparr>w_sent := w_sent w @ [p]\<rparr>)"
  by (simp add: send_msg_def)

lemma try_send_open: "w_takes w = None \<Longrightarrow> try_send p w = w\<lparr>w_sent := w_sent w @ [p]\<rparr>"
  by (simp add: try_send_def send_open)

lemma send_event_open:
  "w_takes w = None \<Longrightarrow> send_execute_event ev w = Some (w\<lparr>w_sent := w_sent w @ [server_event_to_rpc ev]\<rparr>)"
  by (simp add: send_execute_event_def send_open)

lemma drain_open:
  "w_takes w = None \<Longrightarrow> drain evs w = (True, w\<lparr>w_sent := w_sent w @ map server_event_to_rpc evs\<rparr>)"
  by (induction evs arbitrary: w) (simp_all add: send_event_open)

lemma audit_record_kept [simp]:
  "w_takes (audit_record mk w) = w_takes w" "w_sent (audit_record mk w) = w_sent w"
  "w_inbound (audit_record mk w) = w_inbound w" "sk_flag (w_sink (audit_record mk w)) = sk_flag (w_sink w)"
  "sk_state (w_sink (audit_record mk w)) = sk_state (w_sink w)"
  by (simp_all add: audit_record_def)

lemma audit_start_kept [simp]:
  "w_takes (audit_start o' d w) = w_takes w" "w_sent (audit_start o' d w) = w_sent w"
  "w_inbound (audit_start o' d w) = w_inbound w"
  by (simp_all add: audit_start_def)

lemma next_message_kept:
  assumes "next_message w = (r, w')"
  shows "w_takes w' = w_takes w" "w_sent w' = w_sent w" "w_sink w' = w_sink w"
  using assms by (auto split: list.splits inbound_item.splits)

lemmas open_simps = send_open try_send_open send_event_open drain_open

section \<open>Output\<close>

definition out_of :: "loop_state \<Rightarrow> server_event list" where
  "out_of l = ls_queue l @ ls_pending l"

lemma push_stdin_kept [simp]:
  "ls_pending (push_stdin d l) = ls_pending l" "ls_queue (push_stdin d l) = ls_queue l"
  "ls_result (push_stdin d l) = ls_result l" "ls_rx (push_stdin d l) = ls_rx l"
  "ls_fed (push_stdin d l) = ls_fed l" "ls_tx (push_stdin d l) = ls_tx l"
  by (simp_all add: push_stdin_def)

lemma on_inbound_kept [simp]:
  "out_of (fst (on_inbound b l w)) = out_of l" "ls_result (fst (on_inbound b l w)) = ls_result l"
  "w_takes (snd (on_inbound b l w)) = w_takes w" "w_sent (snd (on_inbound b l w)) = w_sent w"
  "w_sink (snd (on_inbound b l w)) = w_sink w"
  by (auto simp: on_inbound_def out_of_def split: list.split inbound_item.split option.split
      execute_request.split)

text \<open>A step of the loop moves events from the session to the client and keeps their order.\<close>

lemma exec_step_looping:
  assumes "exec_step o' b ch l w = Some (Looping l', w')" "w_takes w = None"
  shows "w_takes w' = None \<and> w_sink w' = w_sink w \<and> ls_result l' = ls_result l
    \<and> (\<exists>q. w_sent w' = w_sent w @ map server_event_to_rpc q \<and> out_of l = q @ out_of l')"
proof (cases ch)
  case OnInbound
  with assms show ?thesis by (auto simp: split_beta split: if_splits)
next
  case OnEvent
  with assms show ?thesis by (auto simp: open_simps out_of_def split: option.splits list.splits)
qed (use assms in \<open>auto simp: out_of_def on_task_done_def push_stdin_def open_simps
   split: list.splits if_splits option.splits task_result.splits bool.splits\<close>)

text \<open>What a run has sent when it ends: all events and the task's own exit code, or a part of them
  and the code of a timeout, or the task's error.\<close>

definition audited :: "exec_world \<Rightarrow> exec_world \<Rightarrow> string \<Rightarrow> int option \<Rightarrow> bool" where
  "audited w w' status code \<longleftrightarrow>
    (\<exists>e. sk_log (w_sink w') = sk_log (w_sink w) @ (if recording (w_sink w) then [e] else [])
       \<and> ae_status e = status \<and> ae_exit_code e = code)"

fun run_ends :: "operation \<Rightarrow> exec_world \<Rightarrow> server_event list \<Rightarrow> task_result \<Rightarrow> loop_out \<times> exec_world \<Rightarrow> bool" where
  "run_ends o' w out r (Looping l, w') \<longleftrightarrow> True"
| "run_ends o' w out r (FailedWith e, w') \<longleftrightarrow>
    r = TaskPanic e \<and> (\<exists>n. w_sent w' = w_sent w @ map server_event_to_rpc (take n out)) \<and> w_takes w' = None"
| "run_ends o' w out r (Finished, w') \<longleftrightarrow>
    (\<exists>c. r = TaskOk c \<and> w_sent w' = w_sent w @ map server_event_to_rpc out @ [RspExitStatus c]
       \<and> audited w w' ''completed'' (Some c))
    \<or> (0 < op_timeout_ms o' \<and> (\<exists>n. w_sent w' = w_sent w @ map server_event_to_rpc (take n out) @ [RspExitStatus 124])
       \<and> audited w w' ''timeout'' (Some 124))
    \<or> (\<exists>e n. r = TaskErr e \<and> w_sent w' = w_sent w @ map server_event_to_rpc (take n out) @ [RspError e]
       \<and> audited w w' ''failed'' None)"

lemma audited_record:
  assumes "w_sink w1 = w_sink w" "\<And>st i. ae_status (mk st i) = status" "\<And>st i. ae_exit_code (mk st i) = code"
  shows "audited w (audit_record mk w1\<lparr>w_sent := xs\<rparr>) status code"
  unfolding audited_def using assms
  by (intro exI[of _ "mk (w_stamps w1 (w_built w1)) (include_identity (w_sink w))"])
    (simp add: audit_record_def record_event_log)

lemma run_ends_timeout:
  assumes "0 < op_timeout_ms o'" "w_sent w' = w_sent w @ map server_event_to_rpc q @ [RspExitStatus 124]"
    "out = q @ p" "audited w w' ''timeout'' (Some 124)"
  shows "run_ends o' w out r (Finished, w')"
proof -
  have "w_sent w' = w_sent w @ map server_event_to_rpc (take (length q) out) @ [RspExitStatus 124]"
    using assms(2,3) by simp
  with assms(1,4) show ?thesis by auto
qed

lemma run_ends_failed:
  assumes "r = TaskErr e" "w_sent w' = w_sent w @ map server_event_to_rpc q @ [RspError e]"
    "out = q @ p" "audited w w' ''failed'' None"
  shows "run_ends o' w out r (Finished, w')"
proof -
  have "w_sent w' = w_sent w @ map server_event_to_rpc (take (length q) out) @ [RspError e]"
    using assms(2,3) by simp
  with assms(1,4) show ?thesis by auto
qed

lemma on_task_done_ends:
  assumes "ls_pending l = []" "w_takes w = None"
  shows "run_ends o' w (out_of l) (ls_result l) (on_task_done o' l w)"
proof (cases "ls_result l")
  case (TaskErr e)
  then show ?thesis using assms
    by (simp add: on_task_done_def open_simps del: run_ends.simps)
      (rule run_ends_failed[where q = "[]"]; simp add: audited_record)
next
  case (TaskPanic e)
  then show ?thesis using assms by (auto simp: on_task_done_def intro: exI[of _ 0])
qed (use assms in \<open>simp add: on_task_done_def open_simps out_of_def audited_record\<close>)

lemma on_deadline_ends:
  assumes "0 < op_timeout_ms o'" "w_takes w = None"
  shows "run_ends o' w (out_of l) (ls_result l) (Finished, on_deadline o' l w)"
  using assms
  by (intro run_ends_timeout[where q = "ls_queue l" and p = "ls_pending l"])
    (simp_all add: on_deadline_def open_simps out_of_def audited_record)

lemma exec_step_ends:
  assumes "exec_step o' b ch l w = Some x" "w_takes w = None"
  shows "run_ends o' w (out_of l) (ls_result l) x"
  by (cases ch) (use assms on_task_done_ends[of l w o'] on_deadline_ends[of o' w l] in
    \<open>auto simp: open_simps split_beta simp del: run_ends.simps(2,3) split: list.splits option.splits if_splits\<close>)

text \<open>Runs from a later state end as runs from the earlier one do.\<close>

lemma run_ends_later:
  assumes "run_ends o' v rest r x" "w_sink v = w_sink w"
    "w_sent v = w_sent w @ map server_event_to_rpc q" "out = q @ rest"
  shows "run_ends o' w out r x"
proof -
  obtain lo w' where x: "x = (lo, w')" by (cases x)
  have a: "audited w w' s c = audited v w' s c" for s c using assms(2) by (simp add: audited_def)
  have t: "w_sent v @ map server_event_to_rpc (take n rest) @ ys
      = w_sent w @ map server_event_to_rpc (take (length q + n) out) @ ys" for n ys
    using assms(3,4) by simp
  show ?thesis
  proof (cases lo)
    case Finished
    consider c where "r = TaskOk c" "w_sent w' = w_sent v @ map server_event_to_rpc rest @ [RspExitStatus c]"
        "audited v w' ''completed'' (Some c)"
      | n where "0 < op_timeout_ms o'" "audited v w' ''timeout'' (Some 124)"
        "w_sent w' = w_sent v @ map server_event_to_rpc (take n rest) @ [RspExitStatus 124]"
      | e n where "r = TaskErr e" "audited v w' ''failed'' None"
        "w_sent w' = w_sent v @ map server_event_to_rpc (take n rest) @ [RspError e]"
      using assms(1) unfolding x Finished run_ends.simps(3) by blast
    then show ?thesis
    proof cases
      case 1
      then show ?thesis using assms(3,4) by (simp add: x Finished a)
    next
      case 2
      then show ?thesis using t[of n] by (auto simp: x Finished a)
    next
      case 3
      then show ?thesis using t[of n] by (auto simp: x Finished a)
    qed
  next
    case (FailedWith e)
    with assms(1) x t[where ys = "[]"] show ?thesis by auto
  qed (use x in simp)
qed

lemma exec_loop_ends:
  assumes "exec_loop o' b sched (Looping l, w) = Some x" "w_takes w = None"
  shows "run_ends o' w (out_of l) (ls_result l) x"
  using assms
proof (induction sched arbitrary: l w)
  case Nil
  then have "x = (Looping l, w)" by simp
  then show ?case by (simp only: run_ends.simps)
next
  case (Cons ch cs)
  from Cons.prems(1) obtain y where y: "exec_step o' b ch l w = Some y" "exec_loop o' b cs y = Some x"
    by (cases "exec_step o' b ch l w") simp_all
  obtain lo w1 where yy: "y = (lo, w1)" by (cases y)
  show ?case
  proof (cases lo)
    case (Looping l1)
    with y(1) yy have "exec_step o' b ch l w = Some (Looping l1, w1)" by simp
    from exec_step_looping[OF this Cons.prems(2)]
    obtain q where "w_takes w1 = None" "w_sink w1 = w_sink w" "ls_result l1 = ls_result l"
      "w_sent w1 = w_sent w @ map server_event_to_rpc q" "out_of l = q @ out_of l1" by blast
    moreover have "run_ends o' w1 (out_of l1) (ls_result l1) x"
      using y(2) yy Looping \<open>w_takes w1 = None\<close> by (intro Cons.IH) simp_all
    ultimately show ?thesis by (metis run_ends_later)
  next
    case Finished
    with y(2) yy have "y = x" by (cases cs) simp_all
    with exec_step_ends[OF y(1) Cons.prems(2)] show ?thesis by (simp only:)
  next
    case (FailedWith e)
    with y(2) yy have "y = x" by (cases cs) simp_all
    with exec_step_ends[OF y(1) Cons.prems(2)] show ?thesis by (simp only:)
  qed
qed

section \<open>The start of a handler\<close>

fun terminal :: "execute_response \<Rightarrow> bool" where
  "terminal (RspExitStatus _) = True"
| "terminal (RspError _) = True"
| "terminal _ = False"

definition plain :: "execute_response list \<Rightarrow> bool" where
  "plain xs = list_all (\<lambda>x. \<not> terminal x) xs"

lemma plain_simps [simp]:
  "plain []" "plain (x # xs) \<longleftrightarrow> \<not> terminal x \<and> plain xs" "plain (xs @ ys) \<longleftrightarrow> plain xs \<and> plain ys"
  by (auto simp: plain_def)

definition one_terminal :: "execute_response list \<Rightarrow> bool" where
  "one_terminal xs \<longleftrightarrow> (\<exists>ys t. xs = ys @ [t] \<and> plain ys \<and> terminal t)"

lemma one_terminal_snoc [simp]: "one_terminal (xs @ [t]) \<longleftrightarrow> plain xs \<and> terminal t"
  by (simp add: one_terminal_def)

text \<open>A condition on the review that lets an operation start: no confirmation asked, or the
  confirmation received.\<close>

fun action_admits :: "bool \<Rightarrow> review_action \<Rightarrow> bool" where
  "action_admits confirmed Allow \<longleftrightarrow> True"
| "action_admits confirmed Warn \<longleftrightarrow> True"
| "action_admits confirmed Confirm \<longleftrightarrow> confirmed"
| "action_admits confirmed Deny \<longleftrightarrow> False"

fun outcome_admits :: "review_action \<Rightarrow> bool \<Rightarrow> review_outcome \<Rightarrow> bool" where
  "outcome_admits failure confirmed Skipped \<longleftrightarrow> True"
| "outcome_admits failure confirmed (Failed e) \<longleftrightarrow> action_admits confirmed failure"
| "outcome_admits failure confirmed (Decision d) \<longleftrightarrow> action_admits confirmed (rd_action d)"

fun enforced_admits :: "bool \<Rightarrow> enforced \<Rightarrow> bool" where
  "enforced_admits confirmed Proceed \<longleftrightarrow> True"
| "enforced_admits confirmed (ConfirmFirst _) \<longleftrightarrow> confirmed"
| "enforced_admits confirmed (Denied _) \<longleftrightarrow> False"

lemma run_review_kept:
  assumes "run_review m cfg o' d w = (r, w')"
  shows "w_takes w' = w_takes w \<and> w_sent w' = w_sent w \<and> w_inbound w' = w_inbound w"
  using assms
  by (auto simp: run_review_def run_decision_def Let_def split: review_outcome.splits)

lemma run_review_admits:
  assumes "run_review m cfg o' d w = (r, w')"
  shows "enforced_admits cf r
    = outcome_admits (rc_failure_action cfg) cf (review m cfg (op_kind o') (end_target (op_route o')) d)"
  using assms
  by (auto simp: run_review_def run_decision_def Let_def split: review_outcome.splits review_action.splits)

text \<open>The one message that confirms an operation.\<close>

definition confirms :: "(string \<Rightarrow> string option) \<Rightarrow> string \<Rightarrow> execute_request inbound_item list \<Rightarrow> bool" where
  "confirms parse_uuid execution_id ms \<longleftrightarrow>
    (\<exists>i rest. ms = Message (Some (ReqConfirm i True)) # rest \<and> parse_uuid i = Some execution_id)"

lemma wait_for_confirmation_ok:
  assumes "wait_for_confirmation p i reason w = (Inr (), w')"
  shows "confirms p i (w_inbound w) \<and> RspConfirmRequired i reason \<in> set (w_sent w')"
  using assms
  by (auto simp: wait_for_confirmation_def confirms_def send_execute_event_def send_msg_def parse_execution_id_def
      split: option.splits if_splits list.splits inbound_item.splits execute_request.splits)

lemma wait_for_confirmation_sent:
  assumes "wait_for_confirmation p i reason w = (r, w')" "w_takes w = None"
  shows "w_sent w' = w_sent w @ [RspConfirmRequired i reason] \<and> w_takes w' = None"
  using assms
  by (auto simp: wait_for_confirmation_def open_simps parse_execution_id_def
      split: option.splits if_splits list.splits inbound_item.splits execute_request.splits)

text \<open>What a handler has sent when its prologue ends: nothing terminal, unless it was denied.\<close>

definition prologue_sent :: "exec_world \<Rightarrow> (string + operation option) \<times> exec_world \<Rightarrow> bool" where
  "prologue_sent w x \<longleftrightarrow> w_takes (snd x) = None \<and> (\<exists>xs. plain xs \<and>
    (if fst x = Inr None then \<exists>m. w_sent (snd x) = w_sent w @ xs @ [RspError m] else w_sent (snd x) = w_sent w @ xs))"

lemma prologue_sentI:
  "w_takes (snd x) = None \<Longrightarrow> fst x \<noteq> Inr None \<Longrightarrow> w_sent (snd x) = w_sent w @ xs \<Longrightarrow> plain xs \<Longrightarrow> prologue_sent w x"
  by (auto simp: prologue_sent_def)

lemma enforce_sent:
  assumes "w_takes w1 = None" "w_sent w1 = w_sent w @ xs" "plain xs"
  shows "prologue_sent w (enforce env o' (dec, w1))"
proof (cases dec)
  case (ConfirmFirst reason)
  obtain r2 w3 where wc: "wait_for_confirmation (en_parse_uuid env) (en_uuid env) reason w1 = (r2, w3)"
    by (cases "wait_for_confirmation (en_parse_uuid env) (en_uuid env) reason w1")
  from wait_for_confirmation_sent[OF wc assms(1)] show ?thesis using ConfirmFirst wc assms
    by (intro prologue_sentI[where xs = "xs @ [RspConfirmRequired (en_uuid env) reason]"])
      (auto simp: enforce_def split: sum.split)
qed (use assms in \<open>auto simp: enforce_def open_simps prologue_sent_def\<close>)

lemma send_execute_event_inbound: "send_execute_event ev w = Some w' \<Longrightarrow> w_inbound w' = w_inbound w"
  by (auto simp: send_execute_event_def send_msg_def split: if_splits)

text \<open>The ways through the prologue.\<close>

lemma exec_prologue_cases:
  obtains (error) e where "exec_prologue env c k rq w = (Inl e, w)"
  | (enforced) res r rs w1 where
      "resolve_target_with_merged_view (en_config env) (en_view env) (xr_target rq) = Inr res"
      "rr_routes res = r # rs"
      "w1 = w \<and> rr_warning res = None \<or> (\<exists>m. send_execute_event (EvInfo m) w = Some w1)"
      "exec_prologue env c k rq w = enforce env (exec_operation env c k rq r)
         (run_review (en_llm env) (en_review env) (exec_operation env c k rq r) (exec_detail rq (k = OpExecInteractive))
           (audit_start (exec_operation env c k rq r) (exec_detail rq (k = OpExecInteractive)) w1))"
proof (cases "resolve_target_with_merged_view (en_config env) (en_view env) (xr_target rq)")
  case (Inl e)
  then show ?thesis using error by (simp add: exec_prologue_def)
next
  case (Inr res)
  show ?thesis
  proof (cases "rr_routes res")
    case Nil
    then show ?thesis using Inr error by (simp add: exec_prologue_def)
  next
    case (Cons r rs)
    show ?thesis
    proof (cases "case rr_warning res of None \<Rightarrow> Some w | Some m \<Rightarrow> send_execute_event (EvInfo m) w")
      case None
      then show ?thesis using Inr Cons error by (simp add: exec_prologue_def)
    next
      case (Some w1)
      then have "w1 = w \<and> rr_warning res = None \<or> (\<exists>m. send_execute_event (EvInfo m) w = Some w1)"
        by (cases "rr_warning res") auto
      then show ?thesis using Inr Cons Some enforced by (simp add: exec_prologue_def Let_def)
    qed
  qed
qed

lemma exec_prologue_sent:
  assumes "w_takes w = None"
  shows "prologue_sent w (exec_prologue env c k rq w)"
proof (cases rule: exec_prologue_cases[of env c k rq w])
  case (error e)
  then show ?thesis using assms by (simp add: prologue_sentI[where xs = "[]"])
next
  case (enforced res r rs w1)
  let ?o = "exec_operation env c k rq r" and ?d = "exec_detail rq (k = OpExecInteractive)"
  obtain dec w2 where rr: "run_review (en_llm env) (en_review env) ?o ?d (audit_start ?o ?d w1) = (dec, w2)"
    by (meson surj_pair)
  from enforced(3) assms obtain xs where "w_takes w1 = None" "w_sent w1 = w_sent w @ xs" "plain xs"
    by (auto simp: open_simps)
  with run_review_kept[OF rr] enforced(4) show ?thesis
    by (simp add: rr enforce_sent)
qed

lemma exec_prologue_gate:
  assumes "exec_prologue env c k rq w = (Inr (Some o'), w')"
  shows "(\<exists>res. resolve_target_with_merged_view (en_config env) (en_view env) (xr_target rq) = Inr res
      \<and> rr_routes res \<noteq> [] \<and> o' = exec_operation env c k rq (hd (rr_routes res)))
    \<and> outcome_admits (rc_failure_action (en_review env)) (confirms (en_parse_uuid env) (en_uuid env) (w_inbound w))
        (review (en_llm env) (en_review env) k (end_target (op_route o')) (exec_detail rq (k = OpExecInteractive)))"
proof (cases rule: exec_prologue_cases[of env c k rq w])
  case (error e)
  with assms show ?thesis by simp
next
  case (enforced res r rs w1)
  let ?o = "exec_operation env c k rq r" and ?d = "exec_detail rq (k = OpExecInteractive)"
  obtain dec w2 where rr: "run_review (en_llm env) (en_review env) ?o ?d (audit_start ?o ?d w1) = (dec, w2)"
    by (meson surj_pair)
  have "w_inbound w1 = w_inbound w" using enforced(3) by (auto dest: send_execute_event_inbound)
  with run_review_kept[OF rr] have w2: "w_inbound w2 = w_inbound w" by simp
  from enforced(4) assms rr have en: "enforce env ?o (dec, w2) = (Inr (Some o'), w')" by simp
  have o': "o' = ?o" "enforced_admits (confirms (en_parse_uuid env) (en_uuid env) (w_inbound w2)) dec"
    by (cases dec; use en wait_for_confirmation_ok[of "en_parse_uuid env" "en_uuid env" _ w2] in
      \<open>auto simp: enforce_def split: sum.splits prod.splits option.splits\<close>)+
  have "outcome_admits (rc_failure_action (en_review env)) (confirms (en_parse_uuid env) (en_uuid env) (w_inbound w))
        (review (en_llm env) (en_review env) k (end_target (op_route ?o)) ?d)"
    using run_review_admits[OF rr] o'(2) w2 by (simp add: exec_operation_def)
  with o'(1) enforced(1,2) show ?thesis by simp
qed

lemma execute_start_eq:
  "w_inbound w = Message (Some (ReqStart rq)) # ms
    \<Longrightarrow> execute_start env c w = process_execute env c rq (w\<lparr>w_inbound := ms\<rparr>)"
  by (simp add: execute_start_def)

lemma exec_operation_open [simp]: "exec_operation (env\<lparr>en_open := f\<rparr>) = exec_operation env"
  by (intro ext) (simp add: exec_operation_def)

lemma enforce_open [simp]: "enforce (env\<lparr>en_open := f\<rparr>) = enforce env"
  by (intro ext) (auto simp: enforce_def split: enforced.split)

lemma exec_prologue_open [simp]: "exec_prologue (env\<lparr>en_open := f\<rparr>) = exec_prologue env"
  by (intro ext) (simp add: exec_prologue_def Let_def split: sum.split list.split option.split)

lemma open_exec_session_at:
  assumes "f (gateway_name r) (end_target r) argv sh no = en_open env (gateway_name r) (end_target r) argv sh no"
  shows "open_exec_session (env\<lparr>en_open := f\<rparr>) r argv sh no = open_exec_session env r argv sh no"
  using assms by (simp add: open_exec_session_def split: sum.split)

text \<open>The handler opens a session only behind the prologue, and only the one on the route of the operation.\<close>

lemma process_execute_at:
  assumes "\<And>o' w1. exec_prologue env c (if xr_interactive rq then OpExecInteractive else OpExec) rq w = (Inr (Some o'), w1) \<Longrightarrow>
      f (gateway_name (op_route o')) (end_target (op_route o')) (xr_argv rq) (xr_shell rq) (xr_no_shell rq)
        = en_open env (gateway_name (op_route o')) (end_target (op_route o')) (xr_argv rq) (xr_shell rq) (xr_no_shell rq)"
  shows "process_execute (env\<lparr>en_open := f\<rparr>) c rq w = process_execute env c rq w"
proof -
  have "open_exec_session (env\<lparr>en_open := f\<rparr>) (op_route o') (xr_argv rq) (xr_shell rq) (xr_no_shell rq)
      = open_exec_session env (op_route o') (xr_argv rq) (xr_shell rq) (xr_no_shell rq)"
    if "exec_prologue env c (if xr_interactive rq then OpExecInteractive else OpExec) rq w = (Inr (Some o'), w1)" for o' w1
    using open_exec_session_at assms[OF that] by metis
  then show ?thesis
    by (auto simp: process_execute_def process_interactive_execute_def exec_task_def split: sum.split option.split prod.split)
qed

text \<open>The operation whose session the handler drives, if it gets that far.\<close>

definition started_operation :: "start_result \<Rightarrow> operation option" where
  "started_operation r = (case r of StartLoop o' _ _ \<Rightarrow> Some o' | StartInteractive o' _ \<Rightarrow> Some o' | _ \<Rightarrow> None)"

lemma process_execute_started:
  assumes "started_operation (fst (process_execute env c rq w)) = Some o'"
  shows "\<exists>w1. exec_prologue env c (if xr_interactive rq then OpExecInteractive else OpExec) rq w = (Inr (Some o'), w1)"
  using assms
  by (auto simp: process_execute_def process_interactive_execute_def started_operation_def
      split: if_splits option.splits prod.splits sum.splits)

lemma execute_at:
  "execute_start env' c w = execute_start env c w \<Longrightarrow> execute env' c sched isched w = execute env c sched isched w"
  by (simp add: execute_def)

lemma process_execute_open [consumes 3]:
  assumes "process_execute env c rq w = (r, w')" "w_takes w = None" "\<not> xr_interactive rq"
  obtains (err) e where "r = StartErr e" "w_takes w' = None" "\<exists>xs. plain xs \<and> w_sent w' = w_sent w @ xs"
  | (denied) m where "r = StartDone" "\<exists>xs. plain xs \<and> w_sent w' = w_sent w @ xs @ [RspError m]"
  | (loop) o' where "r = StartLoop o' (xr_stdin rq) (loop_init (xr_stdin rq) (exec_task env (op_route o') rq))"
      "op_timeout_ms o' = xr_timeout_ms rq" "w_takes w' = None" "\<exists>xs. plain xs \<and> w_sent w' = w_sent w @ xs"
proof (cases "xr_argv rq = []")
  case True
  with assms show ?thesis by (intro err) (auto simp: process_execute_def intro: exI[of _ "[]"])
next
  case False
  obtain p w1 where p: "exec_prologue env c OpExec rq w = (p, w1)" by (meson surj_pair)
  from exec_prologue_sent[OF assms(2), of env c OpExec rq] p
  have ps: "prologue_sent w (p, w1)" by simp
  have eq: "(r, w') = (case p of Inl e \<Rightarrow> (StartErr e, w1) | Inr None \<Rightarrow> (StartDone, w1)
      | Inr (Some o') \<Rightarrow> (StartLoop o' (xr_stdin rq) (loop_init (xr_stdin rq) (exec_task env (op_route o') rq)), w1))"
    using assms False p by (auto simp: process_execute_def split: sum.split option.split)
  show ?thesis
  proof (cases p)
    case (Inl e)
    then show ?thesis using eq ps err by (auto simp: prologue_sent_def)
  next
    case (Inr oo)
    show ?thesis
    proof (cases oo)
      case None
      then show ?thesis using eq ps Inr denied by (auto simp: prologue_sent_def)
    next
      case (Some o')
      have "op_timeout_ms o' = xr_timeout_ms rq"
        using exec_prologue_gate[of env c OpExec rq w o' w1] p Inr Some by (auto simp: exec_operation_def)
      then show ?thesis using eq ps Inr Some loop by (auto simp: prologue_sent_def)
    qed
  qed
qed

lemma pump_plain: "plain (map server_event_to_rpc (fst (pump_events es)))"
  by (induction es rule: pump_events.induct) (auto simp: split_beta)

lemma exec_task_plain: "plain (map server_event_to_rpc (fst (exec_task env r rq)))"
  using pump_plain
  by (auto simp: exec_task_def drive_exec_def split: sum.split option.split prod.splits) (metis fst_conv)+

lemma plain_take: "plain (map server_event_to_rpc xs) \<Longrightarrow> plain (map server_event_to_rpc (take n xs))"
  by (auto simp: plain_def list_all_iff dest: in_set_takeD)

lemma run_ends_terminal:
  assumes "run_ends o' w out r (Finished, w')" "plain (map server_event_to_rpc out)" "plain (w_sent w)"
  shows "one_terminal (w_sent w')"
  using assms(1) unfolding run_ends.simps(3)
proof (elim disjE exE conjE)
qed (use assms(2,3) plain_take[OF assms(2)] in \<open>simp_all flip: append_assoc\<close>)

section \<open>Standard input\<close>

fun stdin_of :: "execute_request inbound_item list \<Rightarrow> string list" where
  "stdin_of (Message (Some (ReqStdinData d)) # ms) = (if d = [] then [] else d # stdin_of ms)"
| "stdin_of (Message _ # ms) = stdin_of ms"
| "stdin_of _ = []"

definition parked_list :: "loop_state \<Rightarrow> string list" where
  "parked_list l = (case ls_parked l of Some d \<Rightarrow> [d] | None \<Rightarrow> [])"

text \<open>Before the session gives up its input, what it took, what waits and what will arrive is the
  client's input; afterwards what it took stays a part of it.\<close>

definition stdin_inv :: "string list \<Rightarrow> loop_state \<Rightarrow> exec_world \<Rightarrow> bool" where
  "stdin_inv S l w \<longleftrightarrow>
    (if ls_rx l
     then ls_fed l @ ls_chan l @ parked_list l @ (if ls_tx l then stdin_of (w_inbound w) else []) = S
     else \<exists>rest. ls_fed l @ rest = S)
    \<and> length (ls_chan l) \<le> stdin_capacity"

lemma stdin_inv_prefix: "stdin_inv S l w \<Longrightarrow> \<exists>rest. ls_fed l @ rest = S"
  by (auto simp: stdin_inv_def split: if_splits)

lemma push_stdin_inv:
  assumes "stdin_inv S l w" "ls_parked l = None" "ls_tx l"
    "stdin_of (w_inbound w) = d # stdin_of (w_inbound w')"
  shows "stdin_inv S (push_stdin d l) w'"
  using assms by (auto simp: stdin_inv_def push_stdin_def parked_list_def)

lemma stdin_inv_same:
  assumes "stdin_inv S l w" "ls_tx l \<longrightarrow> stdin_of (w_inbound w') = stdin_of (w_inbound w)"
  shows "stdin_inv S l w'"
  using assms by (auto simp: stdin_inv_def)

lemma stdin_inv_closed:
  assumes "stdin_inv S l w" "ls_tx l \<longrightarrow> stdin_of (w_inbound w) = []" "ls_tx l' = False"
    "ls_rx l' = ls_rx l" "ls_fed l' = ls_fed l" "ls_chan l' = ls_chan l" "ls_parked l' = ls_parked l"
  shows "stdin_inv S l' w'"
  using assms by (auto simp: stdin_inv_def parked_list_def split: if_splits)

lemma stdin_inv_off: "stdin_inv S l w \<Longrightarrow> \<not> ls_rx l \<Longrightarrow> stdin_inv S l w'"
  by (simp add: stdin_inv_def)

lemma stdin_inv_useless:
  assumes "stdin_inv S l w" "\<not> ls_tx l \<or> \<not> ls_rx l"
  shows "stdin_inv S l w'" "stdin_inv S (l\<lparr>ls_tx := False\<rparr>) w'"
  using assms by (auto simp: stdin_inv_def parked_list_def)

lemma on_stdin_data:
  assumes "stdin_inv S l w" "ls_parked l = None" "\<not> b \<longrightarrow> \<not> ls_rx l"
    and "w_inbound w = Message (Some (ReqStdinData d)) # ms"
  shows "stdin_inv S (fst (on_inbound b l w)) (snd (on_inbound b l w))"
proof (cases "b \<and> ls_tx l")
  case True
  show ?thesis
  proof (cases "d = []")
    case True
    with \<open>b \<and> ls_tx l\<close> assms(4) show ?thesis
      by (simp add: on_inbound_def) (rule stdin_inv_closed[OF assms(1)]; simp)
  next
    case False
    with \<open>b \<and> ls_tx l\<close> assms(4) show ?thesis
      by (simp add: on_inbound_def) (rule push_stdin_inv[OF assms(1,2)]; simp)
  qed
next
  case False
  then have "\<not> ls_tx l \<or> \<not> ls_rx l" using assms(3) by auto
  with False assms(4) show ?thesis by (simp add: on_inbound_def stdin_inv_useless[OF assms(1)])
qed

lemma on_inbound_stdin:
  assumes "stdin_inv S l w" "ls_parked l = None" "\<not> b \<longrightarrow> \<not> ls_rx l"
  shows "stdin_inv S (fst (on_inbound b l w)) (snd (on_inbound b l w))"
proof (cases "w_inbound w")
  case Nil
  then show ?thesis by (simp add: on_inbound_def) (rule stdin_inv_closed[OF assms(1)]; simp)
next
  case (Cons m ms)
  show ?thesis
  proof (cases m)
    case (StreamError e)
    then show ?thesis using Cons by (simp add: on_inbound_def) (rule stdin_inv_closed[OF assms(1)]; simp)
  next
    case (Message mo)
    show ?thesis
    proof (cases "\<exists>d. mo = Some (ReqStdinData d)")
      case True
      with Message Cons assms show ?thesis by (auto intro: on_stdin_data)
    next
      case False
      with Message Cons show ?thesis
        by (cases "mo"; cases "the mo") (simp_all add: on_inbound_def stdin_inv_same[OF assms(1)])
    qed
  qed
qed

lemma exec_step_stdin:
  assumes "exec_step o' b ch l w = Some (Looping l', w')" "stdin_inv S l w" "\<not> b \<longrightarrow> \<not> ls_rx l"
  shows "stdin_inv S l' w' \<and> (\<not> b \<longrightarrow> \<not> ls_rx l')"
proof (cases ch)
  case OnInbound
  have "ls_rx (fst (on_inbound b l w)) = ls_rx l"
    by (auto simp: on_inbound_def split: list.split inbound_item.split option.split execute_request.split)
  with OnInbound assms on_inbound_stdin[OF assms(2) _ assms(3)] show ?thesis
    by (auto simp: split_beta split: if_splits)
next
  case OnEvent
  with assms show ?thesis
    by (auto simp: stdin_inv_def parked_list_def dest: send_execute_event_inbound split: option.splits list.splits)
next
  case SpaceForStdin
  with assms show ?thesis
    by (auto simp: stdin_inv_def push_stdin_def parked_list_def split: option.splits if_splits)
next
  case SessionTakesStdin
  with assms show ?thesis
    by (auto simp: stdin_inv_def parked_list_def split: list.splits if_splits)
next
  case SessionDropsStdin
  with assms stdin_inv_prefix[OF assms(2)] show ?thesis
    by (auto simp: stdin_inv_def split: if_splits)
next
  case OnTaskDone
  with assms show ?thesis
    by (auto simp: on_task_done_def split: if_splits task_result.splits prod.splits bool.splits)
qed (use assms in \<open>auto simp: stdin_inv_def parked_list_def split: list.splits if_splits\<close>)

lemma exec_loop_stdin:
  assumes "exec_loop o' b sched (Looping l, w) = Some (Looping l', w')" "stdin_inv S l w" "\<not> b \<longrightarrow> \<not> ls_rx l"
  shows "stdin_inv S l' w' \<and> (\<not> b \<longrightarrow> \<not> ls_rx l')"
  using assms
proof (induction sched arbitrary: l w)
  case Nil
  then show ?case by simp
next
  case (Cons ch cs)
  from Cons.prems(1) obtain lo w1 where y: "exec_step o' b ch l w = Some (lo, w1)"
      "exec_loop o' b cs (lo, w1) = Some (Looping l', w')"
    by (cases "exec_step o' b ch l w") auto
  then obtain l1 where "lo = Looping l1" by (cases lo; cases cs) auto
  with y exec_step_stdin[of o' b ch l w l1 w1 S] Cons.prems(2,3) Cons.IH[of l1 w1] show ?case by simp
qed

lemma on_inbound_room:
  assumes "w_inbound w = Message (Some (ReqStdinData d)) # ms" "d \<noteq> []" "ls_tx l" "ls_rx l"
    "length (ls_chan l) < stdin_capacity" "ls_parked l = None"
  shows "on_inbound True l w = (l\<lparr>ls_chan := ls_chan l @ [d]\<rparr>, w\<lparr>w_inbound := ms\<rparr>)"
  using assms by (cases l) (simp add: on_inbound_def push_stdin_def)

lemma exec_loop_fills:
  assumes "w_inbound w = replicate n (Message (Some (ReqStdinData d))) @ ms" "d \<noteq> []" "ls_tx l" "ls_rx l"
    "length (ls_chan l) + n \<le> stdin_capacity" "ls_parked l = None" "\<not> ls_inbound_closed l"
  shows "exec_loop o' True (replicate n OnInbound @ cs) (Looping l, w)
    = exec_loop o' True cs (Looping (l\<lparr>ls_chan := ls_chan l @ replicate n d\<rparr>), w\<lparr>w_inbound := ms\<rparr>)"
  using assms
proof (induction n arbitrary: l w)
  case 0
  then have "w\<lparr>w_inbound := ms\<rparr> = w" by (cases w) simp
  then show ?case by simp
next
  case (Suc n)
  then have "on_inbound True l w = (l\<lparr>ls_chan := ls_chan l @ [d]\<rparr>, w\<lparr>w_inbound := replicate n (Message (Some (ReqStdinData d))) @ ms\<rparr>)"
    by (intro on_inbound_room) simp_all
  with Suc show ?case by simp
qed

section \<open>Interactive runs\<close>

fun session_output :: "session_event list \<Rightarrow> string list \<times> int" where
  "session_output [] = ([], 0)"
| "session_output (SeStdout d # es) = (let (out, c) = session_output es in (d # out, c))"
| "session_output (SeStderr d # es) = (let (out, c) = session_output es in (d # out, c))"
| "session_output (SeExitStatus c # es) = ([], c)"
| "session_output (SeExitSignal _ # es) = ([], 255)"
| "session_output (SeEof # es) = ([], 0)"

definition inter_rest :: "inter_state \<Rightarrow> string list \<times> int" where
  "inter_rest l =
    (case is_exit l of
       Some c \<Rightarrow> (is_out l, c)
     | None \<Rightarrow> (let (out, c) = session_output (is_events l) in (is_out l @ out, c)))"

fun inter_ends :: "exec_world \<Rightarrow> string list \<times> int \<Rightarrow> inter_out \<times> exec_world \<Rightarrow> bool" where
  "inter_ends w (out, c) (InterLooping l, w') \<longleftrightarrow> True"
| "inter_ends w (out, c) (InterFinished, w') \<longleftrightarrow>
    (w_sent w' = w_sent w @ map RspStdout out @ [RspExitStatus c] \<and> audited w w' ''completed'' (Some c))
    \<or> ((\<exists>n. w_sent w' = w_sent w @ map RspStdout (take n out)) \<and> w_sink w' = w_sink w)"

lemma on_exit_ends:
  assumes "w_takes w = None" "is_exit l = Some c"
  shows "inter_ends w (inter_rest l) (InterFinished, on_exit o' c l w)"
  using assms by (simp add: on_exit_def open_simps inter_rest_def audited_record comp_def)

lemma inter_finished_now: "w_sent w' = w_sent w \<Longrightarrow> w_sink w' = w_sink w \<Longrightarrow> inter_ends w x (InterFinished, w')"
  by (cases x) (auto intro: exI[of _ 0])

lemma push_input_rest:
  "push_input x l = InterLooping l' \<Longrightarrow> inter_rest l' = inter_rest l"
  by (auto simp: push_input_def inter_rest_def split: sum.splits if_splits option.split)

lemma pump_step_rest: "is_exit l = None \<Longrightarrow> inter_rest (pump_step l) = inter_rest l"
  by (auto simp: inter_rest_def split: list.split session_event.split prod.splits)

lemma inter_step_looping:
  assumes "inter_step o' ch l w = Some (InterLooping l', w')" "w_takes w = None"
  shows "w_takes w' = None \<and> w_sink w' = w_sink w
    \<and> (\<exists>q. w_sent w' = w_sent w @ map RspStdout q
         \<and> inter_rest l = (q @ fst (inter_rest l'), snd (inter_rest l')))"
proof (cases ch)
  case OnRequest
  with assms have "(\<exists>x. push_input x l = InterLooping l') \<or> l' = l" "w_takes w' = None" "w_sink w' = w_sink w"
      "w_sent w' = w_sent w"
    by (auto split: if_splits list.splits inbound_item.splits option.splits execute_request.splits)
  then show ?thesis using push_input_rest[of _ l l'] by (auto intro: exI[of _ "[]"])
next
  case OnStdout
  with assms show ?thesis
    by (auto simp: open_simps inter_rest_def split_beta split: if_splits list.splits option.splits)
next
  case PumpsEvent
  with assms pump_step_rest[of l] show ?thesis by (auto split: if_splits simp del: pump_step.simps)
next
  case SpaceForInput
  with assms push_input_rest[of _ l l'] show ?thesis by (auto split: option.splits if_splits)
qed (use assms in \<open>auto simp: inter_rest_def split: list.splits if_splits option.splits\<close>)

lemma inter_step_ends:
  assumes "inter_step o' ch l w = Some x" "w_takes w = None"
  shows "inter_ends w (inter_rest l) x"
proof (cases x)
  case (Pair lo w')
  show ?thesis
  proof (cases lo)
    case (InterLooping l')
    then show ?thesis using Pair by (cases "inter_rest l") simp
  next
    case InterFinished
    show ?thesis
    proof (cases ch)
      case OnRequest
      with assms Pair InterFinished show ?thesis
        by (auto intro!: inter_finished_now split: if_splits list.splits inbound_item.splits option.splits
            execute_request.splits)
    next
      case OnStdout
      with assms Pair InterFinished on_exit_ends[of w l _ o'] show ?thesis
        by (auto simp: open_simps simp del: inter_ends.simps split: if_splits list.splits option.splits)
    next
      case OnExit
      with assms Pair InterFinished on_exit_ends[of w l _ o'] show ?thesis
        by (auto simp del: inter_ends.simps split: if_splits option.splits)
    qed (use assms Pair InterFinished in \<open>auto intro!: inter_finished_now split: if_splits list.splits option.splits\<close>)
  qed
qed

lemma inter_ends_later:
  assumes "inter_ends v (out, c) x" "w_sink v = w_sink w" "w_sent v = w_sent w @ map RspStdout q"
  shows "inter_ends w (q @ out, c) x"
proof -
  obtain lo w' where x: "x = (lo, w')" by (cases x)
  show ?thesis
  proof (cases lo)
    case InterFinished
    have t: "w_sent v @ map RspStdout (take n out) = w_sent w @ map RspStdout (take (length q + n) (q @ out))" for n
      using assms(3) by simp
    from assms(1) consider "w_sent w' = w_sent v @ map RspStdout out @ [RspExitStatus c]" "audited v w' ''completed'' (Some c)"
      | n where "w_sent w' = w_sent v @ map RspStdout (take n out)" "w_sink w' = w_sink v"
      unfolding x InterFinished inter_ends.simps by blast
    then show ?thesis
    proof cases
      case 1
      then show ?thesis using assms(2,3) by (simp add: x InterFinished audited_def)
    next
      case 2
      then have "w_sent w' = w_sent w @ map RspStdout (take (length q + n) (q @ out))" "w_sink w' = w_sink w"
        using t[of n] assms(2) by (simp_all only:)
      then show ?thesis unfolding x InterFinished inter_ends.simps by blast
    qed
  qed (simp add: x)
qed

lemma inter_loop_ends:
  assumes "inter_loop o' sched (InterLooping l, w) = Some x" "w_takes w = None"
  shows "inter_ends w (inter_rest l) x"
  using assms
proof (induction sched arbitrary: l w)
  case Nil
  then have "x = (InterLooping l, w)" by simp
  then show ?case by (cases "inter_rest l") simp
next
  case (Cons ch cs)
  from Cons.prems(1) obtain lo w1 where y: "inter_step o' ch l w = Some (lo, w1)" "inter_loop o' cs (lo, w1) = Some x"
    by (cases "inter_step o' ch l w") auto
  show ?case
  proof (cases lo)
    case (InterLooping l1)
    with y(1) have st: "inter_step o' ch l w = Some (InterLooping l1, w1)" by simp
    from inter_step_looping[OF st Cons.prems(2)]
    obtain q where q: "w_takes w1 = None" "w_sink w1 = w_sink w" "w_sent w1 = w_sent w @ map RspStdout q"
      "inter_rest l = (q @ fst (inter_rest l1), snd (inter_rest l1))" by blast
    have "inter_ends w1 (inter_rest l1) x" using Cons.IH[of l1 w1] y(2) InterLooping q(1) by (simp only:)
    then show ?thesis using inter_ends_later[of w1 "fst (inter_rest l1)" "snd (inter_rest l1)" x w q] q by simp
  next
    case InterFinished
    with y(2) have "(lo, w1) = x" by (cases cs) simp_all
    with inter_step_ends[OF y(1) Cons.prems(2)] show ?thesis by (simp only:)
  qed
qed

definition demo_session :: session where
  "demo_session = \<lparr>ss_pty = (\<lambda>_ _. None), ss_start = (\<lambda>_. None),
    ss_events = (\<lambda>_. [SeStdout ''hi'', SeExitStatus 3])\<rparr>"

definition demo_env :: "unit exec_env" where
  "demo_env = \<lparr>en_config = demo_resolve_config, en_view = demo_view, en_llm = demo_llm\<lparr>has_client := False\<rparr>,
    en_review = demo_review_config\<lparr>rc_failure_action := Confirm\<rparr>, en_uuid = ''id'', en_parse_uuid = Some,
    en_error_text = (\<lambda>_. []), en_open = (\<lambda>_ _ argv _ _. Inr (demo_session, join_with '' '' argv))\<rparr>"

definition demo_request :: exec_request where
  "demo_request = \<lparr>xr_target = ''web'', xr_argv = [''ls''], xr_tty = False, xr_tty_intent = IntentDefault,
    xr_stdin = False, xr_stdin_intent = IntentDefault, xr_timeout_ms = 0, xr_interactive = False,
    xr_term_cols = 0, xr_term_rows = 0, xr_shell = [], xr_no_shell = False\<rparr>"

definition demo_sink :: audit_sink where
  "demo_sink = \<lparr>sk_state = Some \<lparr>as_enabled = True, as_include_identity = False, as_path = ''audit''\<rparr>,
    sk_flag = True, sk_log = []\<rparr>"

definition demo_world :: exec_world where
  "demo_world = \<lparr>w_takes = None, w_sent = [],
    w_inbound = [Message (Some (ReqStart demo_request)), Message (Some (ReqConfirm ''id'' True))],
    w_stamps = (\<lambda>_. \<lparr>st_epoch_ms = 0, st_ts = [], st_event_id = []\<rparr>), w_built = 0, w_sink = demo_sink\<rparr>"

definition demo_operation :: operation where
  "demo_operation = exec_operation demo_env caller_local OpExec demo_request \<lparr>gateway_name = ''hop'', end_target = ''far:web''\<rparr>"

lemma demo_review_fails:
  "\<exists>e. review (en_llm demo_env) (en_review demo_env) OpExec t (exec_detail demo_request False) = Failed e"
  by (simp add: demo_env_def demo_review_config_def demo_llm_def review_exec_def exec_detail_def demo_request_def
      fast_allow_def is_complex_script_def matches_fast_allowlist_def matches_fast_pattern_def
      review_glob_match_def call_llm_exec_def call_llm_def outcome_of_def)

lemma demo_opens:
  "open_exec_session demo_env (op_route demo_operation) [''ls''] [] False = Inr (demo_session, ''ls'')"
  by (simp add: open_exec_session_def gateway_with_capability_def demo_env_def demo_operation_def exec_operation_def
      demo_view_def demo_caps_def find_gateway_any_def find_gateway_def)

lemma demo_start:
  "\<exists>w1. execute_start demo_env caller_local demo_world
    = (StartLoop demo_operation False (loop_init False ([EvStdout ''hi''], TaskOk 3)), w1)
    \<and> w_takes w1 = None"
proof -
  let ?d = "exec_detail demo_request False"
  obtain e where e: "review (en_llm demo_env) (en_review demo_env) OpExec ''far:web'' ?d = Failed e"
    using demo_review_fails by blast
  have t: "exec_task demo_env (op_route demo_operation) demo_request = ([EvStdout ''hi''], TaskOk 3)"
    using demo_opens by (simp add: exec_task_def demo_request_def drive_exec_def demo_session_def)
  have r: "resolve_target_with_merged_view (en_config demo_env) (en_view demo_env) (xr_target demo_request)
      = Inr \<lparr>rr_routes = [\<lparr>gateway_name = ''hop'', end_target = ''far:web''\<rparr>], rr_warning = None\<rparr>"
    using demo_resolves by (simp add: demo_env_def demo_request_def)
  have k: "op_kind demo_operation = OpExec" "end_target (op_route demo_operation) = ''far:web''"
    by (simp_all add: demo_operation_def exec_operation_def)
  define w where "w = audit_start demo_operation ?d (demo_world\<lparr>w_inbound := [Message (Some (ReqConfirm ''id'' True))]\<rparr>)"
  obtain w2 where rr: "run_review (en_llm demo_env) (en_review demo_env) demo_operation ?d w
      = (ConfirmFirst (''review service failed: '' @ e), w2)" "w_takes w2 = None" 
      "w_inbound w2 = [Message (Some (ReqConfirm ''id'' True))]"
    using e k by (simp add: run_review_def w_def demo_world_def) (simp add: demo_env_def)
  have "enforce demo_env demo_operation (ConfirmFirst (''review service failed: '' @ e), w2)
      = (Inr (Some demo_operation), w2\<lparr>w_sent := w_sent w2 @ [RspConfirmRequired ''id'' (''review service failed: '' @ e)], w_inbound := []\<rparr>)"
    using rr(2,3) by (simp add: enforce_def wait_for_confirmation_def open_simps demo_env_def parse_execution_id_def)
  then have "exec_prologue demo_env caller_local OpExec demo_request (demo_world\<lparr>w_inbound := [Message (Some (ReqConfirm ''id'' True))]\<rparr>)
      = (Inr (Some demo_operation), w2\<lparr>w_sent := w_sent w2 @ [RspConfirmRequired ''id'' (''review service failed: '' @ e)], w_inbound := []\<rparr>)"
    using r rr(1) by (simp add: exec_prologue_def Let_def w_def flip: demo_operation_def)
  then show ?thesis
    using rr(2) t by (simp add: execute_start_def process_execute_def) (simp add: demo_world_def process_execute_def demo_request_def t)
qed

lemma demo_runs:
  assumes "w_takes w1 = None"
  shows "\<exists>w2. exec_loop demo_operation False [TaskEmits, OnEvent, OnTaskDone]
    (Looping (loop_init False ([EvStdout ''hi''], TaskOk 3)), w1) = Some (Finished, w2)"
  using assms by (simp add: loop_init_def open_simps on_task_done_def)

lemma demo_inbound: "w_inbound demo_world = Message (Some (ReqStart demo_request)) # [Message (Some (ReqConfirm ''id'' True))]"
  by (simp add: demo_world_def)

lemma demo_takes: "w_takes demo_world = None" "w_sent demo_world = []"
  by (simp_all add: demo_world_def)

section \<open>Properties\<close>

text \<open>C3. No command runs without the review's consent, and only where it was reviewed.  Either the review of this command on the
  first route of the resolved target was skipped, allowed it or warned, or failed while the configured failure action is one of
  these, or it (or the failure action) asked for a confirmation that the client then gave with its next message for this very execution; and then the
  only session the handler asks a gateway for is the one for this command on this route: whatever the gateways would do for
  another gateway, target, command or shell, the whole execution is the same.  Or the handler opens no session at all: the
  execution is the same whatever the gateways would do.\<close>

theorem execution_needs_admission:
  assumes "w_inbound w = Message (Some (ReqStart rq)) # ms"
  shows "(\<exists>res r rs. resolve_target_with_merged_view (en_config env) (en_view env) (xr_target rq) = Inr res \<and> rr_routes res = r # rs
      \<and> outcome_admits (rc_failure_action (en_review env)) (confirms (en_parse_uuid env) (en_uuid env) ms)
          (review (en_llm env) (en_review env) (if xr_interactive rq then OpExecInteractive else OpExec) (end_target r)
            (exec_detail rq (xr_interactive rq)))
      \<and> (\<forall>o'. started_operation (fst (execute_start env c w)) = Some o' \<longrightarrow> op_route o' = r)
      \<and> (\<forall>f. f (gateway_name r) (end_target r) (xr_argv rq) (xr_shell rq) (xr_no_shell rq)
            = en_open env (gateway_name r) (end_target r) (xr_argv rq) (xr_shell rq) (xr_no_shell rq)
          \<longrightarrow> execute (env\<lparr>en_open := f\<rparr>) c sched isched w = execute env c sched isched w))
    \<or> (started_operation (fst (execute_start env c w)) = None
      \<and> (\<forall>f. execute (env\<lparr>en_open := f\<rparr>) c sched isched w = execute env c sched isched w))"
proof -
  let ?k = "if xr_interactive rq then OpExecInteractive else OpExec" and ?w = "w\<lparr>w_inbound := ms\<rparr>"
  obtain x w1 where pr: "exec_prologue env c ?k rq ?w = (x, w1)" by (meson surj_pair)
  note eq = execute_start_eq[OF assms] 
  show ?thesis
  proof (cases "\<exists>o'. x = Inr (Some o')")
    case True
    then obtain o' where o: "x = Inr (Some o')" by blast
    from exec_prologue_gate[OF pr[unfolded o]] obtain res where res:
      "resolve_target_with_merged_view (en_config env) (en_view env) (xr_target rq) = Inr res" "rr_routes res \<noteq> []"
      "op_route o' = hd (rr_routes res)"
      "outcome_admits (rc_failure_action (en_review env)) (confirms (en_parse_uuid env) (en_uuid env) ms)
        (review (en_llm env) (en_review env) ?k (end_target (op_route o')) (exec_detail rq (xr_interactive rq)))"
      by (auto simp: exec_operation_def split: if_splits)
    have "op_route o2 = op_route o'" if "started_operation (fst (execute_start env c w)) = Some o2" for o2
      using process_execute_started[OF that[unfolded eq]] pr o by auto
    moreover have "execute (env\<lparr>en_open := f\<rparr>) c sched isched w = execute env c sched isched w"
      if "f (gateway_name (op_route o')) (end_target (op_route o')) (xr_argv rq) (xr_shell rq) (xr_no_shell rq)
        = en_open env (gateway_name (op_route o')) (end_target (op_route o')) (xr_argv rq) (xr_shell rq) (xr_no_shell rq)" for f
      using that pr o by (intro execute_at, unfold eq, intro process_execute_at) simp
    ultimately show ?thesis using res by (cases "rr_routes res") auto
  next
    case False
    then have "execute (env\<lparr>en_open := f\<rparr>) c sched isched w = execute env c sched isched w" for f
      using pr by (intro execute_at, unfold eq, intro process_execute_at) auto
    moreover have "started_operation (fst (execute_start env c w)) = None"
      using process_execute_started[of env c rq ?w] pr False unfolding eq by (cases "started_operation (fst (process_execute env c rq ?w))") auto
    ultimately show ?thesis by blast
  qed
qed

theorem execution_needs_admission_witness:
  "execute (demo_env\<lparr>en_open := \<lambda>g t argv sh no. if g = ''hop'' \<and> t = ''far:web'' then en_open demo_env g t argv sh no
        else Inl \<lparr>ge_kind = ETransport, ge_source = []\<rparr>\<rparr>) caller_local [TaskEmits, OnEvent, OnTaskDone] [] demo_world
    = execute demo_env caller_local [TaskEmits, OnEvent, OnTaskDone] [] demo_world"
proof -
  from demo_start obtain w1 where s: "execute_start demo_env caller_local demo_world
    = (StartLoop demo_operation False (loop_init False ([EvStdout ''hi''], TaskOk 3)), w1)" by blast
  have r: "op_route demo_operation = \<lparr>gateway_name = ''hop'', end_target = ''far:web''\<rparr>"
    by (simp add: demo_operation_def exec_operation_def)
  have "started_operation (fst (execute_start demo_env caller_local demo_world)) = Some demo_operation"
    unfolding s by (simp add: started_operation_def)
  with execution_needs_admission[OF demo_inbound, of demo_env caller_local "[TaskEmits, OnEvent, OnTaskDone]" "[]"] r
  show ?thesis by auto
qed

text \<open>C11. Whatever the client sends, whatever the review says and however the loop is scheduled, an
  execution that is not interactive and whose client keeps listening ends with exactly one exit status or
  error, as its last response.\<close>

theorem execute_one_terminal:
  assumes "w_takes w = None" "w_sent w = []"
    and "\<And>rq ms. w_inbound w = Message (Some (ReqStart rq)) # ms \<Longrightarrow> \<not> xr_interactive rq"
    and "execute env c sched isched w = Some w'"
  shows "one_terminal (w_sent w')"
proof (cases "\<exists>rq ms. w_inbound w = Message (Some (ReqStart rq)) # ms")
  case True
  then obtain rq ms where i: "w_inbound w = Message (Some (ReqStart rq)) # ms" by blast
  obtain r w1 where p: "process_execute env c rq (w\<lparr>w_inbound := ms\<rparr>) = (r, w1)" by (meson surj_pair)
  note ex = assms(4)[unfolded execute_def execute_start_eq[OF i] p]
  have open1: "w_takes (w\<lparr>w_inbound := ms\<rparr>) = None" using assms(1) by simp
  from p open1 assms(3)[OF i] show ?thesis
  proof (cases rule: process_execute_open)
    case (err e)
    with ex assms(2) show ?thesis by (auto simp: open_simps error_response_def)
  next
    case (denied m)
    with ex assms(2) show ?thesis by (auto simp flip: append_assoc)
  next
    case (loop o')
    from loop(4) assms(2) have pl: "plain (w_sent w1)" by auto
    let ?l = "loop_init (xr_stdin rq) (exec_task env (op_route o') rq)"
    have out: "out_of ?l = fst (exec_task env (op_route o') rq)" by (simp add: out_of_def loop_init_def)
    from ex loop(1) obtain lo w2 where l: "exec_loop o' (xr_stdin rq) sched (Looping ?l, w1) = Some (lo, w2)"
        "(lo = Finished \<and> w' = w2) \<or> (\<exists>e. lo = FailedWith e \<and> w' = try_send (error_response e) w2)"
      by (auto split: option.splits loop_out.splits prod.splits)
    note re = exec_loop_ends[OF l(1) loop(3), unfolded out]
    from l(2) show ?thesis
    proof (elim disjE exE conjE)
      assume "lo = Finished" "w' = w2"
      with re have "run_ends o' w1 (fst (exec_task env (op_route o') rq)) (ls_result ?l) (Finished, w')"
        by (simp only:)
      then show ?thesis by (rule run_ends_terminal[OF _ exec_task_plain pl])
    next
      fix e assume e: "lo = FailedWith e" "w' = try_send (error_response e) w2"
      with re obtain n where "w_takes w2 = None"
        "w_sent w2 = w_sent w1 @ map server_event_to_rpc (take n (fst (exec_task env (op_route o') rq)))" by auto
      with e pl plain_take[OF exec_task_plain[of env "op_route o'" rq], of n] show ?thesis
        by (simp add: open_simps error_response_def flip: append_assoc)
    qed
  qed
next
  case False
  then have "\<exists>e w1. execute_start env c w = (StartErr e, w1) \<and> w_takes w1 = None \<and> w_sent w1 = []"
    using assms(1,2)
    by (auto simp: execute_start_def split: list.split inbound_item.split option.split execute_request.split)
  with assms(4) show ?thesis by (auto simp: execute_def open_simps error_response_def one_terminal_def)
qed

theorem execute_one_terminal_witness:
  "\<exists>w'. execute demo_env caller_local [TaskEmits, OnEvent, OnTaskDone] [] demo_world = Some w' \<and> one_terminal (w_sent w')"
proof -
  from demo_start obtain w1 where s: "execute_start demo_env caller_local demo_world
    = (StartLoop demo_operation False (loop_init False ([EvStdout ''hi''], TaskOk 3)), w1)" "w_takes w1 = None" by blast
  from demo_runs[OF s(2)] obtain w2 where "execute demo_env caller_local [TaskEmits, OnEvent, OnTaskDone] [] demo_world = Some w2"
    by (auto simp: execute_def s(1) simp del: exec_loop.simps)
  then show ?thesis
    using execute_one_terminal[OF demo_takes, of demo_env caller_local "[TaskEmits, OnEvent, OnTaskDone]" "[]"]
    by (auto simp: demo_inbound demo_request_def)
qed

text \<open>The client gets the output of the command: when the loop ends, all output events of the
  session have been sent in their order, followed by the session's exit code and recorded as completed; or,
  only if a timeout was asked for, an initial part of them followed by the code 124 and recorded as a
  timeout.\<close>

theorem exec_output_delivered:
  assumes "w_inbound w = Message (Some (ReqStart rq)) # ms" "w_takes w = None" "\<not> xr_interactive rq"
    and "execute_start env c w = (StartLoop o' b l, w1)"
    and "exec_loop o' b sched (Looping l, w1) = Some (Finished, w2)"
    and "open_exec_session env (op_route o') (xr_argv rq) (xr_shell rq) (xr_no_shell rq) = Inr (s, command)"
    and "ss_start s (Some command) = None"
    and "pump_events (ss_events s (Some command)) = (out, code)"
  shows "(w_sent w2 = w_sent w1 @ map server_event_to_rpc out @ [RspExitStatus code]
      \<and> audited w1 w2 ''completed'' (Some code))
    \<or> (0 < xr_timeout_ms rq \<and> audited w1 w2 ''timeout'' (Some 124)
      \<and> (\<exists>n. w_sent w2 = w_sent w1 @ map server_event_to_rpc (take n out) @ [RspExitStatus 124]))"
proof -
  have p: "process_execute env c rq (w\<lparr>w_inbound := ms\<rparr>) = (StartLoop o' b l, w1)"
    using assms(4) by (simp only: execute_start_eq[OF assms(1)])
  have o: "w_takes (w\<lparr>w_inbound := ms\<rparr>) = None" using assms(2) by simp
  from p o assms(3) have l: "l = loop_init b (exec_task env (op_route o') rq)" "w_takes w1 = None"
      "op_timeout_ms o' = xr_timeout_ms rq"
    by (cases rule: process_execute_open; simp)+
  have t: "exec_task env (op_route o') rq = (out, TaskOk code)"
    using assms(6-8) by (simp add: exec_task_def drive_exec_def)
  from exec_loop_ends[OF assms(5) l(2)] t l(3) show ?thesis
    by (simp add: l(1) out_of_def loop_init_def) blast
qed

theorem exec_output_delivered_witness:
  "\<exists>l w1 w2. execute_start demo_env caller_local demo_world = (StartLoop demo_operation False l, w1)
    \<and> exec_loop demo_operation False [TaskEmits, OnEvent, OnTaskDone] (Looping l, w1) = Some (Finished, w2)
    \<and> w_sent w2 = w_sent w1 @ [RspStdout ''hi'', RspExitStatus 3]"
proof -
  from demo_start obtain w1 where s: "execute_start demo_env caller_local demo_world
    = (StartLoop demo_operation False (loop_init False ([EvStdout ''hi''], TaskOk 3)), w1)" "w_takes w1 = None" by blast
  from demo_runs[OF s(2)] obtain w2 where l: "exec_loop demo_operation False [TaskEmits, OnEvent, OnTaskDone]
    (Looping (loop_init False ([EvStdout ''hi''], TaskOk 3)), w1) = Some (Finished, w2)" by blast
  have "w_sent w2 = w_sent w1 @ [RspStdout ''hi'', RspExitStatus 3]"
    using exec_output_delivered[OF demo_inbound demo_takes(1) _ s(1) l, of demo_session "''ls''" "[EvStdout ''hi'']" 3] demo_opens
    by (simp add: demo_request_def demo_session_def)
  with s(1) l show ?thesis by blast
qed

text \<open>C29. Standard input reaches the session in order: at every moment of a run the chunks the session
  has taken are an initial part of the client's data up to its end mark, none if the request has no standard
  input; as long as the session has not given up its input, so are these chunks followed by those in the channel and the one that waits
  for room, and once the input has ended and the channel is empty, they are all of it.  The channel never holds more
  than 32 chunks.\<close>

theorem stdin_forwarded:
  assumes "exec_loop o' b sched (Looping (loop_init b task), w) = Some (Looping l, w')"
  shows "(\<exists>rest. ls_fed l @ rest = (if b then stdin_of (w_inbound w) else []))
    \<and> (ls_rx l \<longrightarrow> (\<exists>rest. ls_fed l @ ls_chan l @ parked_list l @ rest = (if b then stdin_of (w_inbound w) else [])))
    \<and> (ls_rx l \<and> \<not> ls_tx l \<and> ls_chan l = [] \<and> ls_parked l = None \<longrightarrow> ls_fed l = stdin_of (w_inbound w))
    \<and> length (ls_chan l) \<le> stdin_capacity"
proof -
  have i: "stdin_inv (if b then stdin_of (w_inbound w) else []) (loop_init b task) w"
    by (simp add: stdin_inv_def loop_init_def parked_list_def)
  have r: "\<not> b \<longrightarrow> \<not> ls_rx (loop_init b task)" by (simp add: loop_init_def)
  note inv = exec_loop_stdin[OF assms i r]
  then show ?thesis using stdin_inv_prefix[OF conjunct1[OF inv]] by (auto simp: stdin_inv_def parked_list_def)
qed

theorem stdin_forwarded_witness:
  "\<exists>l w'. exec_loop demo_operation True [OnInbound, OnInbound, SessionTakesStdin]
      (Looping (loop_init True ([], TaskOk 0)), demo_world\<lparr>w_inbound := [Message (Some (ReqStdinData ''x'')), Message (Some (ReqStdinData []))]\<rparr>)
      = Some (Looping l, w') \<and> ls_fed l = [''x'']"
proof -
  let ?w = "demo_world\<lparr>w_inbound := [Message (Some (ReqStdinData ''x'')), Message (Some (ReqStdinData []))]\<rparr>"
  have "\<exists>l w'. exec_loop demo_operation True [OnInbound, OnInbound, SessionTakesStdin]
      (Looping (loop_init True ([], TaskOk 0)), ?w) = Some (Looping l, w') \<and> ls_rx l \<and> \<not> ls_tx l \<and> ls_chan l = [] \<and> ls_parked l = None"
    by (simp add: loop_init_def on_inbound_def push_stdin_def stdin_capacity_def)
  then obtain l w' where r: "exec_loop demo_operation True [OnInbound, OnInbound, SessionTakesStdin]
      (Looping (loop_init True ([], TaskOk 0)), ?w) = Some (Looping l, w')"
    "ls_rx l" "\<not> ls_tx l" "ls_chan l = []" "ls_parked l = None" by blast
  from stdin_forwarded[OF r(1)] r(2-5) have "ls_fed l = [''x'']" by simp
  with r(1) show ?thesis by blast
qed

text \<open>The timeout is not enforced while standard input is blocked: after 33 chunks that the session
  does not take, the loop waits inside the branch for requests, and although the deadline has passed only a
  step of the session can go on.\<close>

theorem deadline_waits_for_stdin:
  assumes "0 < op_timeout_ms o'" "w_inbound w = replicate 33 (Message (Some (ReqStdinData d))) @ ms" "d \<noteq> []"
  shows "\<exists>l w'. exec_loop o' True (replicate 33 OnInbound @ [DeadlinePasses]) (Looping (loop_init True task), w) = Some (Looping l, w')
    \<and> ls_expired l
    \<and> (\<forall>ch. exec_step o' True ch l w' \<noteq> None \<longrightarrow> ch \<in> {TaskEmits, SessionTakesStdin, SessionDropsStdin, DeadlinePasses})"
proof -
  let ?l = "loop_init True task" and ?m = "Message (Some (ReqStdinData d))"
  let ?l1 = "?l\<lparr>ls_chan := replicate 32 d\<rparr>" and ?l2 = "?l\<lparr>ls_chan := replicate 32 d, ls_parked := Some d, ls_expired := True\<rparr>"
  have r: "replicate 33 x = replicate 32 x @ [x]" for x :: 'z
    by (simp add: numeral_eq_Suc replicate_app_Cons_same)
  have a: "exec_loop o' True (replicate 33 OnInbound @ [DeadlinePasses]) (Looping ?l, w)
      = exec_loop o' True [OnInbound, DeadlinePasses] (Looping ?l1, w\<lparr>w_inbound := ?m # ms\<rparr>)"
    unfolding r append_assoc using assms(2,3)
    by (subst exec_loop_fills[where d = d and ms = "?m # ms"]) (simp_all add: r loop_init_def stdin_capacity_def)
  have b: "on_inbound True ?l1 (w\<lparr>w_inbound := ?m # ms\<rparr>) = (?l1\<lparr>ls_parked := Some d\<rparr>, w\<lparr>w_inbound := ms\<rparr>)"
    using assms(3) by (simp add: on_inbound_def push_stdin_def loop_init_def stdin_capacity_def)
  have c: "exec_step o' True OnInbound ?l1 (w\<lparr>w_inbound := ?m # ms\<rparr>)
      = Some (Looping (?l1\<lparr>ls_parked := Some d\<rparr>), w\<lparr>w_inbound := ms\<rparr>)"
    by (simp add: b) (simp add: loop_init_def)
  have "exec_loop o' True (replicate 33 OnInbound @ [DeadlinePasses]) (Looping ?l, w) = Some (Looping ?l2, w\<lparr>w_inbound := ms\<rparr>)"
    by (simp add: a c del: exec_step.simps(8))
  moreover have "ch \<in> {TaskEmits, SessionTakesStdin, SessionDropsStdin, DeadlinePasses}"
    if "exec_step o' True ch ?l2 (w\<lparr>w_inbound := ms\<rparr>) \<noteq> None" for ch
    using that by (cases ch) (simp_all add: loop_init_def stdin_capacity_def)
  ultimately show ?thesis by (intro exI conjI) auto
qed

theorem deadline_waits_for_stdin_witness:
  "\<exists>l w'. exec_loop (demo_operation\<lparr>op_timeout_ms := 5\<rparr>) True (replicate 33 OnInbound @ [DeadlinePasses])
      (Looping (loop_init True ([], TaskOk 0)), demo_world\<lparr>w_inbound := replicate 33 (Message (Some (ReqStdinData ''x'')))\<rparr>)
      = Some (Looping l, w')
    \<and> ls_expired l \<and> exec_step (demo_operation\<lparr>op_timeout_ms := 5\<rparr>) True OnDeadline l w' = None"
proof -
  let ?o = "demo_operation\<lparr>op_timeout_ms := 5\<rparr>"
    and ?w = "demo_world\<lparr>w_inbound := replicate 33 (Message (Some (ReqStdinData ''x'')))\<rparr>"
  have "0 < op_timeout_ms ?o" "w_inbound ?w = replicate 33 (Message (Some (ReqStdinData ''x''))) @ []" by simp_all
  from deadline_waits_for_stdin[OF this, of "([], TaskOk 0)"] obtain l w' where
    "exec_loop ?o True (replicate 33 OnInbound @ [DeadlinePasses]) (Looping (loop_init True ([], TaskOk 0)), ?w) = Some (Looping l, w')"
    "ls_expired l" "exec_step ?o True OnDeadline l w' = None" by blast
  then show ?thesis by blast
qed

text \<open>An interactive run ends in one of two ways: with all output in order, the exit code and a
  record of it, or, when a side is gone, after an initial part of the output and without either.\<close>

theorem interactive_output:
  assumes "w_takes w = None" "drive_interactive s cmd cols rows = Inr l"
    and "session_output (ss_events s cmd) = (out, c)"
    and "inter_loop o' sched (InterLooping l, w) = Some (InterFinished, w')"
  shows "(w_sent w' = w_sent w @ map RspStdout out @ [RspExitStatus c] \<and> audited w w' ''completed'' (Some c))
    \<or> ((\<exists>n. w_sent w' = w_sent w @ map RspStdout (take n out)) \<and> w_sink w' = w_sink w)"
proof -
  have "inter_rest l = (out, c)"
    using assms(2,3) by (auto simp: drive_interactive_def inter_rest_def split: option.splits)
  with inter_loop_ends[OF assms(4,1)] show ?thesis by (simp only: inter_ends.simps)
qed

theorem interactive_output_witness:
  "\<exists>w'. inter_loop demo_operation [PumpsEvent, PumpsEvent, OnExit]
      (InterLooping \<lparr>is_events = [SeStdout ''hi'', SeExitStatus 3], is_out = [], is_exit = None, is_chan = [],
         is_sizes = [], is_input = True, is_parked = None, is_fed = []\<rparr>, demo_world) = Some (InterFinished, w')
    \<and> w_sent w' = [RspStdout ''hi'', RspExitStatus 3] \<and> audited demo_world w' ''completed'' (Some 3)"
proof -
  let ?l = "\<lparr>is_events = [SeStdout ''hi'', SeExitStatus 3], is_out = [], is_exit = None, is_chan = [],
         is_sizes = [], is_input = True, is_parked = None, is_fed = []\<rparr>"
  have d: "drive_interactive demo_session None 80 24 = Inr ?l" by (simp add: drive_interactive_def demo_session_def)
  have o: "session_output (ss_events demo_session None) = ([''hi''], 3)" by (simp add: demo_session_def)
  have "\<exists>w'. inter_loop demo_operation [PumpsEvent, PumpsEvent, OnExit] (InterLooping ?l, demo_world) = Some (InterFinished, w')
      \<and> w_sent w' = [RspStdout ''hi'', RspExitStatus 3]"
    using demo_takes by (simp add: on_exit_def open_simps)
  then obtain w' where r: "inter_loop demo_operation [PumpsEvent, PumpsEvent, OnExit] (InterLooping ?l, demo_world) = Some (InterFinished, w')"
    "w_sent w' = [RspStdout ''hi'', RspExitStatus 3]" by blast
  from interactive_output[OF demo_takes(1) d o r(1)] r(2) have "audited demo_world w' ''completed'' (Some 3)"
    using demo_takes by auto
  with r show ?thesis by blast
qed

text \<open>The second way also happens to a client that stays: with the exit code of the session at hand, a
  keystroke that finds the input task gone ends the loop, and the client never gets the code.\<close>

theorem interactive_exit_status_lost:
  assumes "w_inbound w = Message (Some (ReqStdinData d)) # Message (Some (ReqStdinData d')) # ms"
    and "drive_interactive s cmd cols rows = Inr l" "ss_events s cmd = [SeExitStatus c]"
  shows "inter_loop o' [PumpsEvent, OnRequest, InputEnds] (InterLooping l, w)
      = Some (InterLooping (l\<lparr>is_events := [], is_exit := Some c, is_input := False\<rparr>), w\<lparr>w_inbound := Message (Some (ReqStdinData d')) # ms\<rparr>)
    \<and> inter_loop o' [PumpsEvent, OnRequest, InputEnds, OnRequest] (InterLooping l, w)
      = Some (InterFinished, w\<lparr>w_inbound := ms\<rparr>)"
proof -
  have "l = \<lparr>is_events = [SeExitStatus c], is_out = [], is_exit = None, is_chan = [],
              is_sizes = [], is_input = True, is_parked = None, is_fed = []\<rparr>"
    using assms(2,3) by (auto simp: drive_interactive_def split: option.splits)
  then show ?thesis using assms(1) by (simp add: push_input_def)
qed

theorem interactive_exit_status_lost_witness:
  "\<exists>l. drive_interactive (demo_session\<lparr>ss_events := (\<lambda>_. [SeExitStatus 7])\<rparr>) (Some ''sh'') 80 24 = Inr l
    \<and> inter_loop demo_operation [PumpsEvent, OnRequest, InputEnds, OnRequest]
        (InterLooping l, demo_world\<lparr>w_inbound := [Message (Some (ReqStdinData ''x'')), Message (Some (ReqStdinData ''y''))]\<rparr>)
      = Some (InterFinished, demo_world\<lparr>w_inbound := []\<rparr>)"
proof -
  have "\<exists>l. drive_interactive (demo_session\<lparr>ss_events := (\<lambda>_. [SeExitStatus 7])\<rparr>) (Some ''sh'') 80 24 = Inr l"
    by (simp add: drive_interactive_def demo_session_def)
  then obtain l where l: "drive_interactive (demo_session\<lparr>ss_events := (\<lambda>_. [SeExitStatus 7])\<rparr>) (Some ''sh'') 80 24 = Inr l"
    by blast
  from interactive_exit_status_lost[OF _ l, where w = "demo_world\<lparr>w_inbound := [Message (Some (ReqStdinData ''x'')), Message (Some (ReqStdinData ''y''))]\<rparr>"]
  show ?thesis using l by (simp del: inter_loop.simps)
qed

end
