(* ===== verification/Sftp_Copy.thy ===== *)
theory Sftp_Copy
  imports File_Path Shared_Types Gateway_Config
begin

text \<open>
  Copying over the SFTP subsystem (\<^verbatim>\<open>daemon/session/sftp_copy.rs\<close>: \<^verbatim>\<open>upload\<close>,
  \<^verbatim>\<open>download\<close>, \<^verbatim>\<open>probe_upload_resume\<close> and their helpers) and the retry loop around
  it (\<^verbatim>\<open>Gateway::copy\<close>, \<^verbatim>\<open>Gateway::probe_upload_resume\<close> and
  \<^verbatim>\<open>fresh_resume_entries\<close> of \<^verbatim>\<open>daemon/gateway/mod.rs\<close>).

  The file server is a parameter, a record \<^verbatim>\<open>store\<close> of the operations the code calls; every one
  returns whether it succeeded and the state of the server afterwards.  What the code relies on
  is \<^verbatim>\<open>store_laws\<close>: for a set of paths that name different files, how each operation changes the
  contents of these files.  A failed operation may have done part of its work on its own file.
\<close>

section \<open>File servers\<close>

record ('p, 's) store =
  so_is_dir :: "'p \<Rightarrow> 's \<Rightarrow> bool option"
  so_len :: "'p \<Rightarrow> 's \<Rightarrow> nat option"
  so_exists :: "'p \<Rightarrow> 's \<Rightarrow> bool option"
  so_read :: "'p \<Rightarrow> 's \<Rightarrow> string option"
  so_create :: "'p \<Rightarrow> 's \<Rightarrow> bool \<times> 's"
  so_open :: "'p \<Rightarrow> 's \<Rightarrow> bool \<times> 's"
  so_write :: "'p \<Rightarrow> nat \<Rightarrow> string \<Rightarrow> 's \<Rightarrow> bool \<times> 's"
  so_append :: "'p \<Rightarrow> string \<Rightarrow> 's \<Rightarrow> bool \<times> 's"
  so_close :: "'p \<Rightarrow> 's \<Rightarrow> bool \<times> 's"
  so_remove :: "'p \<Rightarrow> 's \<Rightarrow> bool \<times> 's"
  so_rename :: "'p \<Rightarrow> 'p \<Rightarrow> 's \<Rightarrow> bool \<times> 's"
  so_symlink :: "'p \<Rightarrow> string \<Rightarrow> 's \<Rightarrow> bool \<times> 's"
  so_mkdir :: "'p \<Rightarrow> 's \<Rightarrow> bool \<times> 's"

text \<open>Writing at a position past the end fills the gap with zero bytes.\<close>

definition write_at :: "string \<Rightarrow> nat \<Rightarrow> string \<Rightarrow> string" where
  "write_at c k d = take k (c @ replicate (k - length c) (CHR 0x00)) @ d @ drop (k + length d) c"

definition only_at :: "'p set \<Rightarrow> ('s \<Rightarrow> 'p \<Rightarrow> string option) \<Rightarrow> 'p \<Rightarrow> 's \<Rightarrow> 's \<Rightarrow> bool" where
  "only_at P view p s s' \<longleftrightarrow> (\<forall>q\<in>P. q \<noteq> p \<longrightarrow> view s' q = view s q)"

definition read_laws :: "'p set \<Rightarrow> ('s \<Rightarrow> 'p \<Rightarrow> string option) \<Rightarrow> ('p, 's) store \<Rightarrow> bool" where
  "read_laws P view st \<longleftrightarrow> (\<forall>p\<in>P. \<forall>s n c.
    (so_len st p s = Some n \<longrightarrow> (\<exists>c. view s p = Some c \<and> n = length c))
    \<and> (so_read st p s = Some c \<longrightarrow> view s p = Some c))"

definition open_laws :: "'p set \<Rightarrow> ('s \<Rightarrow> 'p \<Rightarrow> string option) \<Rightarrow> ('p, 's) store \<Rightarrow> bool" where
  "open_laws P view st \<longleftrightarrow> (\<forall>p\<in>P. \<forall>s ok s'.
    (so_create st p s = (ok, s') \<longrightarrow> 
         only_at P view p s s' \<and> (view s' p = Some [] \<or> \<not> ok \<and> view s' p = view s p))
    \<and> (so_open st p s = (ok, s') \<longrightarrow>
         only_at P view p s s'
         \<and> view s' p = (if ok then Some (case view s p of Some c \<Rightarrow> c | None \<Rightarrow> []) else view s p))
    \<and> (so_close st p s = (ok, s') \<longrightarrow>
         only_at P view p s s' \<and> (ok \<longrightarrow> view s' p = view s p)
         \<and> (\<forall>c. view s p = Some c \<longrightarrow> (\<exists>n. view s' p = Some (take n c)))))"

definition write_law :: "'p set \<Rightarrow> ('s \<Rightarrow> 'p \<Rightarrow> string option) \<Rightarrow> ('p, 's) store \<Rightarrow> bool" where
  "write_law P view st \<longleftrightarrow> (\<forall>p\<in>P. \<forall>s ok s' k d. so_write st p k d s = (ok, s') \<longrightarrow>
    only_at P view p s s' \<and> (\<forall>c. view s p = Some c \<longrightarrow>
      (\<exists>n. view s' p = Some (write_at c k (take n d))) \<and> (ok \<longrightarrow> view s' p = Some (write_at c k d))))"

definition append_law :: "'p set \<Rightarrow> ('s \<Rightarrow> 'p \<Rightarrow> string option) \<Rightarrow> ('p, 's) store \<Rightarrow> bool" where
  "append_law P view st \<longleftrightarrow> (\<forall>p\<in>P. \<forall>s ok s' d c. so_append st p d s = (ok, s') \<longrightarrow>
    only_at P view p s s'
    \<and> (view s p = Some c \<longrightarrow> (\<exists>n. view s' p = Some (c @ take n d)) \<and> (ok \<longrightarrow> view s' p = Some (c @ d))))"

definition remove_law :: "'p set \<Rightarrow> ('s \<Rightarrow> 'p \<Rightarrow> string option) \<Rightarrow> ('p, 's) store \<Rightarrow> bool" where
  "remove_law P view st \<longleftrightarrow> (\<forall>p\<in>P. \<forall>s ok s'. so_remove st p s = (ok, s') \<longrightarrow>
    only_at P view p s s' \<and> (view s' p = None \<or> \<not> ok \<and> view s' p = view s p))"

text \<open>A rename is atomic: one that fails leaves every file as it was.\<close>

definition rename_law :: "'p set \<Rightarrow> ('s \<Rightarrow> 'p \<Rightarrow> string option) \<Rightarrow> ('p, 's) store \<Rightarrow> bool" where
  "rename_law P view st \<longleftrightarrow> (\<forall>p\<in>P. \<forall>q\<in>P. \<forall>s ok s'. so_rename st p q s = (ok, s') \<longrightarrow> p \<noteq> q \<longrightarrow>
    (ok \<longrightarrow> view s' q = view s p \<and> (\<forall>r\<in>P. r \<noteq> p \<and> r \<noteq> q \<longrightarrow> view s' r = view s r))
    \<and> (\<not> ok \<longrightarrow> (\<forall>r\<in>P. view s' r = view s r)))"

definition mkdir_law :: "'p set \<Rightarrow> ('s \<Rightarrow> 'p \<Rightarrow> string option) \<Rightarrow> ('p, 's) store \<Rightarrow> bool" where
  "mkdir_law P view st \<longleftrightarrow> (\<forall>d s ok s'. so_mkdir st d s = (ok, s') \<longrightarrow> (\<forall>q\<in>P. view s' q = view s q))"

definition store_laws :: "'p set \<Rightarrow> ('s \<Rightarrow> 'p \<Rightarrow> string option) \<Rightarrow> ('p, 's) store \<Rightarrow> bool" where
  "store_laws P view st \<longleftrightarrow> read_laws P view st \<and> open_laws P view st \<and> write_law P view st
    \<and> append_law P view st \<and> remove_law P view st \<and> rename_law P view st \<and> mkdir_law P view st"

section \<open>Upload\<close>

function ancestors :: "normalized_path \<Rightarrow> normalized_path list" where
  "ancestors p =
    (if segment_count p = 0 \<and> \<not> is_absolute p then []
     else p # (case path_parent p of None \<Rightarrow> [] | Some q \<Rightarrow> ancestors q))"
  by auto
termination
  by (relation "measure (\<lambda>p. length (segments p))")
    (auto simp: path_parent_def segment_count_def split: if_splits)

fun make_dirs :: "(string, 's) store \<Rightarrow> normalized_path list \<Rightarrow> 's \<Rightarrow> (string + unit) \<times> 's" where
  "make_dirs st [] s = (Inr (), s)"
| "make_dirs st (p # ps) s =
    (let path = to_string_normalized p
     in if path = [] \<or> path = ''/'' then make_dirs st ps s
        else
          (case so_exists st path s of
             None \<Rightarrow> (Inl ''sftp error'', s)
           | Some True \<Rightarrow> make_dirs st ps s
           | Some False \<Rightarrow>
               (case so_mkdir st path s of
                  (True, s) \<Rightarrow> make_dirs st ps s
                | (False, s) \<Rightarrow> (Inl (''failed to create remote dir '' @ path), s))))"

definition create_remote_dirs :: "(string, 's) store \<Rightarrow> normalized_path \<Rightarrow> 's \<Rightarrow> (string + unit) \<times> 's" where
  "create_remote_dirs st p s = make_dirs st (rev (ancestors p)) s"

definition create_parent :: "(string, 's) store \<Rightarrow> normalized_path \<Rightarrow> 's \<Rightarrow> (string + unit) \<times> 's" where
  "create_parent st p s = (case path_parent p of Some q \<Rightarrow> create_remote_dirs st q s | None \<Rightarrow> (Inr (), s))"

definition remote_path_is_dir :: "(string, 's) store \<Rightarrow> normalized_path \<Rightarrow> 's \<Rightarrow> bool" where
  "remote_path_is_dir st p s \<longleftrightarrow> so_is_dir st (to_string_normalized p) s = Some True"

text \<open>The file being written, with the position of the next write, and the path it is published to.\<close>

record upload_state =
  up_file :: "(string \<times> nat) option"
  up_dest :: "string option"

definition upload_path :: "copy_spec \<Rightarrow> normalized_path \<Rightarrow> bool \<Rightarrow> string \<Rightarrow> normalized_path" where
  "upload_path spec root root_is_dir rel =
    (if cs_recursive spec then path_join root rel
     else if root_is_dir then path_join root (copy_entry_name rel (cs_source_name spec) ''copy'')
     else root)"

definition tmp_path :: "string \<Rightarrow> string" where
  "tmp_path dest = dest @ ''.xho_tmp''"

definition begin_file ::
  "(string, 's) store \<Rightarrow> normalized_path \<Rightarrow> nat \<Rightarrow> nat \<Rightarrow> 's \<Rightarrow> (string + upload_state) \<times> 's" where
  "begin_file st path sz start s =
    (case create_parent st path s of
       (Inl e, s) \<Rightarrow> (Inl e, s)
     | (Inr _, s) \<Rightarrow>
         (let dest = to_string_normalized path;
              tmp = tmp_path dest;
              skip = min start sz;
              skip = (if 0 < skip \<and> so_len st tmp s \<noteq> Some skip then 0 else skip)
          in if 0 < skip
             then (case so_open st tmp s of
                     (True, s) \<Rightarrow> (Inr \<lparr>up_file = Some (tmp, skip), up_dest = Some dest\<rparr>, s)
                   | (False, s) \<Rightarrow> (Inl (''failed to open remote partial '' @ tmp), s))
             else (case so_create st tmp s of
                     (True, s) \<Rightarrow> (Inr \<lparr>up_file = Some (tmp, 0), up_dest = Some dest\<rparr>, s)
                   | (False, s) \<Rightarrow> (Inl (''failed to create remote '' @ tmp), s))))"

definition end_file :: "(string, 's) store \<Rightarrow> string \<times> nat \<Rightarrow> string option \<Rightarrow> 's \<Rightarrow> (string + upload_state) \<times> 's" where
  "end_file st file dest s =
    (case so_close st (fst file) s of
       (False, s) \<Rightarrow> (Inl ''sftp error'', s)
     | (True, s) \<Rightarrow>
         (case dest of
            None \<Rightarrow> (Inl ''copy stream sent EndFile before BeginFile'', s)
          | Some dest \<Rightarrow>
              (let (_, s) = so_remove st dest s
               in case so_rename st (tmp_path dest) dest s of
                    (True, s) \<Rightarrow> (Inr \<lparr>up_file = None, up_dest = None\<rparr>, s)
                  | (False, s) \<Rightarrow> (Inl (''failed to publish remote '' @ dest), s))))"

definition upload_symlink :: "(string, 's) store \<Rightarrow> normalized_path \<Rightarrow> string \<Rightarrow> 's \<Rightarrow> (string + unit) \<times> 's" where
  "upload_symlink st path tgt s =
    (case create_parent st path s of
       (Inl e, s) \<Rightarrow> (Inl e, s)
     | (Inr _, s) \<Rightarrow>
         (let (_, s) = so_remove st (to_string_normalized path) s
          in case so_symlink st (to_string_normalized path) tgt s of
               (True, s) \<Rightarrow> (Inr (), s)
             | (False, s) \<Rightarrow> (Inl (''failed to create remote symlink '' @ to_string_normalized path), s)))"

fun upload_step ::
  "(string, 's) store \<Rightarrow> copy_spec \<Rightarrow> normalized_path \<Rightarrow> bool \<Rightarrow> copy_frame \<Rightarrow> upload_state \<Rightarrow> 's \<Rightarrow> (string + upload_state) \<times> 's" where
  "upload_step st spec root root_is_dir (BeginFile rel mode sz mtime start) u s =
    (if up_file u \<noteq> None then (Inl ''copy stream began a new file before ending the previous file'', s)
     else begin_file st (upload_path spec root root_is_dir rel) sz start s)"
| "upload_step st spec root root_is_dir (FileData d) u s =
    (case up_file u of
       None \<Rightarrow> (Inl ''copy stream sent file data before BeginFile'', s)
     | Some (p, k) \<Rightarrow>
         (case so_write st p k d s of
            (True, s) \<Rightarrow> (Inr (u\<lparr>up_file := Some (p, k + length d)\<rparr>), s)
          | (False, s) \<Rightarrow> (Inl ''sftp error'', s)))"
| "upload_step st spec root root_is_dir EndFile u s =
    (case up_file u of
       None \<Rightarrow> (Inl ''copy stream sent EndFile before BeginFile'', s)
     | Some f \<Rightarrow> end_file st f (up_dest u) s)"
| "upload_step st spec root root_is_dir (BeginDirectory rel mode mtime) u s =
    (if \<not> cs_recursive spec then (Inl ''remote directory frame requires recursive copy'', s)
     else (case create_remote_dirs st (path_join root rel) s of (Inl e, s) \<Rightarrow> (Inl e, s) | (Inr _, s) \<Rightarrow> (Inr u, s)))"
| "upload_step st spec root root_is_dir (Symlink rel tgt) u s =
    (case upload_symlink st (upload_path spec root root_is_dir rel) tgt s of
       (Inl e, s) \<Rightarrow> (Inl e, s) | (Inr _, s) \<Rightarrow> (Inr u, s))"
| "upload_step st spec root root_is_dir EndOfStream u s = (Inr u, s)"

text \<open>The list is what the frame channel delivers before its sender is gone.\<close>

fun upload_loop ::
  "(string, 's) store \<Rightarrow> copy_spec \<Rightarrow> normalized_path \<Rightarrow> bool \<Rightarrow> copy_frame list \<Rightarrow> upload_state \<Rightarrow> 's \<Rightarrow> (string + unit) \<times> 's" where
  "upload_loop st spec root root_is_dir [] u s =
    (if up_file u \<noteq> None then Inl ''copy stream ended before EndFile'' else Inr (), s)"
| "upload_loop st spec root root_is_dir (f # fs) u s =
    (if f = EndOfStream then (if up_file u \<noteq> None then Inl ''copy stream ended before EndFile'' else Inr (), s)
     else
       (case upload_step st spec root root_is_dir f u s of
          (Inl e, s) \<Rightarrow> (Inl e, s)
        | (Inr u, s) \<Rightarrow> upload_loop st spec root root_is_dir fs u s))"

definition upload :: "(string, 's) store \<Rightarrow> copy_spec \<Rightarrow> copy_frame list \<Rightarrow> 's \<Rightarrow> (string + unit) \<times> 's" where
  "upload st spec frames s =
    (let root = from_str (cs_remote_path spec)
     in upload_loop st spec root (remote_path_is_dir st root s) frames \<lparr>up_file = None, up_dest = None\<rparr> s)"

section \<open>Probing for a partial upload\<close>

definition rsplit_name :: "string \<Rightarrow> string" where
  "rsplit_name v =
    (let trimmed = rev (dropWhile (\<lambda>c. c = CHR ''/'') (rev v));
         n = last (split_on (CHR ''/'') trimmed)
     in if n = [] then ''upload'' else n)"

text \<open>A single file in a directory is probed, and later written, under the source's name there.\<close>

definition probe_spec :: "(string, 's) store \<Rightarrow> copy_spec \<Rightarrow> 's \<Rightarrow> copy_spec" where
  "probe_spec st spec s =
    (if \<not> cs_recursive spec \<and> remote_path_is_dir st (from_str (cs_remote_path spec)) s
     then spec\<lparr>cs_remote_path := to_string_normalized (from_local
                  (components (os_path_join (cs_remote_path spec) (rsplit_name (cs_source_name spec)))))\<rparr>
     else spec)"

text \<open>\<^verbatim>\<open>sha256\<close> is the digest in hexadecimal; \<^verbatim>\<open>so_read\<close> reads the whole file.\<close>

definition probe_entry ::
  "(string \<Rightarrow> string) \<Rightarrow> (string, 's) store \<Rightarrow> copy_spec \<Rightarrow> 's \<Rightarrow> resume_entry \<Rightarrow> resume_entry" where
  "probe_entry sha256 st spec s e =
    (let fresh = e\<lparr>re_offset := 0, re_sha256 := []\<rparr>;
         tmp = tmp_path (cs_remote_path spec)
     in if cs_recursive spec then fresh
        else
          (case so_len st tmp s of
             None \<Rightarrow> fresh
           | Some n \<Rightarrow>
               if 0 < n \<and> n \<le> re_size e
               then (case so_read st tmp s of
                       None \<Rightarrow> fresh
                     | Some c \<Rightarrow> if length c = n then e\<lparr>re_offset := n, re_sha256 := sha256 c\<rparr> else fresh)
               else fresh))"

definition sftp_probe_upload_resume ::
  "(string \<Rightarrow> string) \<Rightarrow> (string, 's) store \<Rightarrow> copy_spec \<Rightarrow> 's \<Rightarrow> resume_entry list \<times> copy_spec" where
  "sftp_probe_upload_resume sha256 st spec s =
    (let spec = probe_spec st spec s in (map (probe_entry sha256 st spec s) (cs_resume spec), spec))"

definition fresh_resume_entries :: "resume_entry list \<Rightarrow> resume_entry list" where
  "fresh_resume_entries es = map (\<lambda>e. e\<lparr>re_offset := 0\<rparr>) es"

definition gateway_probe_upload_resume ::
  "(string \<Rightarrow> string) \<Rightarrow> gateway_error + (string, 's) store \<Rightarrow> copy_spec \<Rightarrow> 's \<Rightarrow> gateway_error + resume_entry list \<times> copy_spec" where
  "gateway_probe_upload_resume sha256 opened spec s =
    (if cs_resume spec = [] \<or> cs_recursive spec then Inr (fresh_resume_entries (cs_resume spec), spec)
     else (case opened of Inl e \<Rightarrow> Inl e | Inr st \<Rightarrow> Inr (sftp_probe_upload_resume sha256 st spec s)))"

section \<open>Download\<close>

text \<open>What a path on a file system holds: a file with its mode, time and contents, a directory with its
  listing, a link, something else, or a file or directory that cannot be read to its end.
  Reads return between one byte and 64 KiB; the list of sizes says how many.\<close>

datatype entry =
    FileEntry nat "int option" string
  | DirEntry nat "int option" "(string \<times> entry) list"
  | LinkEntry "string option"
  | OtherEntry
  | BrokenFile nat "int option" nat string
  | BrokenDir nat "int option"

definition CHUNK_SIZE :: nat where "CHUNK_SIZE = 64 * 1024"

function read_chunks :: "nat list \<Rightarrow> string \<Rightarrow> string list" where
  "read_chunks ns c =
    (if c = [] then []
     else (let n = (case ns of [] \<Rightarrow> CHUNK_SIZE | m # _ \<Rightarrow> max 1 (min m CHUNK_SIZE))
           in take n c # read_chunks (tl ns) (drop n c)))"
  by auto
termination
  by (relation "measure (\<lambda>(_, c). length c)") (auto simp: CHUNK_SIZE_def split: list.split)

declare ancestors.simps [simp del] read_chunks.simps [simp del]

definition mtime_or_zero :: "int option \<Rightarrow> int" where
  "mtime_or_zero t = (case t of Some t \<Rightarrow> t | None \<Rightarrow> 0)"

definition file_frames :: "nat list \<Rightarrow> normalized_path \<Rightarrow> nat \<Rightarrow> int option \<Rightarrow> nat \<Rightarrow> string \<Rightarrow> nat \<Rightarrow> copy_frame list" where
  "file_frames ns rel mode mtime len c start =
    BeginFile (to_string_normalized rel) mode len (mtime_or_zero mtime) start
      # map FileData (read_chunks ns (drop start c))"

text \<open>The frames of an entry, and the error behind them where the walk fails.\<close>

fun send_remote_entry_frame :: "nat list \<Rightarrow> normalized_path \<Rightarrow> entry \<Rightarrow> nat \<Rightarrow> copy_frame list \<times> string option"
and send_remote_dir_frames :: "nat list \<Rightarrow> normalized_path \<Rightarrow> (string \<times> entry) list \<Rightarrow> copy_frame list \<times> string option" where
  "send_remote_entry_frame ns rel (DirEntry mode mtime es) start =
    (let (fs, err) = send_remote_dir_frames ns rel es
     in (BeginDirectory (to_string_normalized rel) 0 0 # fs, err))"
| "send_remote_entry_frame ns rel (BrokenDir mode mtime) start =
    ([BeginDirectory (to_string_normalized rel) 0 0], Some (''failed to read remote dir''))"
| "send_remote_entry_frame ns rel (LinkEntry (Some tgt)) start = ([Symlink (to_string_normalized rel) tgt], None)"
| "send_remote_entry_frame ns rel (LinkEntry None) start = ([], Some ''failed to read remote symlink'')"
| "send_remote_entry_frame ns rel OtherEntry start = ([], Some ''unsupported remote file type for copy'')"
| "send_remote_entry_frame ns rel (FileEntry mode mtime c) start =
    (file_frames ns rel mode mtime (length c) c start @ [EndFile], None)"
| "send_remote_entry_frame ns rel (BrokenFile mode mtime len c) start =
    (file_frames ns rel mode mtime len c start, Some ''sftp error'')"
| "send_remote_dir_frames ns rel [] = ([], None)"
| "send_remote_dir_frames ns rel ((name, e) # es) =
    (if name = ''.'' \<or> name = ''..'' then send_remote_dir_frames ns rel es
     else
       (case send_remote_entry_frame ns (path_join rel name) e 0 of
          (fs, Some err) \<Rightarrow> (fs, Some err)
        | (fs, None) \<Rightarrow> (let (fs', err) = send_remote_dir_frames ns rel es in (fs @ fs', err))))"

fun entry_stat :: "entry \<Rightarrow> (nat \<times> int) option" where
  "entry_stat (FileEntry mode mtime c) = Some (length c, mtime_or_zero mtime)"
| "entry_stat (BrokenFile mode mtime len c) = Some (len, mtime_or_zero mtime)"
| "entry_stat _ = None"

definition download_start :: "resume_entry list \<Rightarrow> string \<Rightarrow> entry \<Rightarrow> nat" where
  "download_start resume rel e =
    (case (find (\<lambda>r. re_path r = rel) resume, entry_stat e) of
       (Some r, Some (len, mtime)) \<Rightarrow>
         if re_size r = len \<and> re_mtime r = mtime \<and> 0 < re_offset r \<and> re_offset r \<le> len then re_offset r else 0
     | _ \<Rightarrow> 0)"

fun is_dir_entry :: "entry \<Rightarrow> bool" where
  "is_dir_entry (DirEntry mode mtime es) = True"
| "is_dir_entry (BrokenDir mode mtime) = True"
| "is_dir_entry _ = False"

text \<open>The frames sent and the error of the transfer; \<^verbatim>\<open>None\<close> as entry is a path that cannot be
  inspected.\<close>

definition download :: "nat list \<Rightarrow> copy_spec \<Rightarrow> entry option \<Rightarrow> copy_frame list \<times> string option" where
  "download ns spec found =
    (case found of
       None \<Rightarrow> ([], Some (''failed to stat remote path '' @ to_string_normalized (from_str (cs_remote_path spec))))
     | Some e \<Rightarrow>
         if is_dir_entry e \<and> \<not> cs_recursive spec then ([], Some ''copying a remote directory requires -r'')
         else
           (let rel = copy_entry_name [] (cs_source_name spec) ''copy'';
                (fs, err) = (if is_dir_entry e then send_remote_entry_frame ns (from_str []) e 0
                             else send_remote_entry_frame ns (from_str rel) e (download_start (cs_resume spec) rel e))
            in case err of Some m \<Rightarrow> (fs, Some m) | None \<Rightarrow> (fs @ [EndOfStream], None)))"

section \<open>Retries\<close>

text \<open>One attempt of \<^verbatim>\<open>Gateway::copy\<close>: opening the session fails with an error of the gateway, the
  subsystem and the transfer fail with errors that become execution errors.\<close>

datatype attempt = OpenFails gateway_error | SubsystemFails string | RunFails string | Copied

fun attempt_result :: "attempt \<Rightarrow> gateway_error + unit" where
  "attempt_result (OpenFails e) = Inl e"
| "attempt_result (SubsystemFails m) = Inl \<lparr>ge_kind = EExecution, ge_source = m\<rparr>"
| "attempt_result (RunFails m) = Inl \<lparr>ge_kind = EExecution, ge_source = m\<rparr>"
| "attempt_result Copied = Inr ()"

function gateway_copy_from :: "nat \<Rightarrow> copy_direction \<Rightarrow> (nat \<Rightarrow> attempt) \<Rightarrow> gateway_error + unit" where
  "gateway_copy_from attempt d attempts =
    (case attempt_result (attempts attempt) of
       Inr _ \<Rightarrow> Inr ()
     | Inl e \<Rightarrow>
         if attempt < 2 \<and> d = Download \<and> ge_kind e = ETransport
         then gateway_copy_from (Suc attempt) d attempts else Inl e)"
  by auto
termination by (relation "measure (\<lambda>(attempt, _). 2 - attempt)") auto

declare gateway_copy_from.simps [simp del]

definition gateway_copy :: "copy_direction \<Rightarrow> (nat \<Rightarrow> attempt) \<Rightarrow> gateway_error + unit" where
  "gateway_copy d attempts = gateway_copy_from 0 d attempts"

section \<open>Laws of a file server\<close>

lemma law_len: "store_laws P view st \<Longrightarrow> p \<in> P \<Longrightarrow> so_len st p s = Some n \<Longrightarrow> \<exists>c. view s p = Some c \<and> n = length c"
  unfolding store_laws_def read_laws_def by blast

lemma law_read: "store_laws P view st \<Longrightarrow> p \<in> P \<Longrightarrow> so_read st p s = Some c \<Longrightarrow> view s p = Some c"
  unfolding store_laws_def read_laws_def by blast

lemma law_create: "store_laws P view st \<Longrightarrow> p \<in> P \<Longrightarrow> so_create st p s = (ok, s')
    \<Longrightarrow> only_at P view p s s' \<and> (view s' p = Some [] \<or> \<not> ok \<and> view s' p = view s p)"
  unfolding store_laws_def open_laws_def by blast

lemma law_open: "store_laws P view st \<Longrightarrow> p \<in> P \<Longrightarrow> so_open st p s = (ok, s')
    \<Longrightarrow> only_at P view p s s' \<and> view s' p = (if ok then Some (case view s p of Some c \<Rightarrow> c | None \<Rightarrow> []) else view s p)"
  unfolding store_laws_def open_laws_def by blast

lemma law_close: "store_laws P view st \<Longrightarrow> p \<in> P \<Longrightarrow> so_close st p s = (ok, s')
    \<Longrightarrow> only_at P view p s s' \<and> (ok \<longrightarrow> view s' p = view s p)
      \<and> (\<forall>c. view s p = Some c \<longrightarrow> (\<exists>n. view s' p = Some (take n c)))"
  unfolding store_laws_def open_laws_def by blast

lemma law_write: "store_laws P view st \<Longrightarrow> p \<in> P \<Longrightarrow> so_write st p k d s = (ok, s')
    \<Longrightarrow> only_at P view p s s' \<and> (\<forall>c. view s p = Some c \<longrightarrow>
      (\<exists>n. view s' p = Some (write_at c k (take n d))) \<and> (ok \<longrightarrow> view s' p = Some (write_at c k d)))"
  unfolding store_laws_def write_law_def by blast

lemma law_append: "store_laws P view st \<Longrightarrow> p \<in> P \<Longrightarrow> so_append st p d s = (ok, s') \<Longrightarrow> view s p = Some c
    \<Longrightarrow> only_at P view p s s' \<and> (\<exists>n. view s' p = Some (c @ take n d)) \<and> (ok \<longrightarrow> view s' p = Some (c @ d))"
  unfolding store_laws_def append_law_def by blast

lemma law_remove: "store_laws P view st \<Longrightarrow> p \<in> P \<Longrightarrow> so_remove st p s = (ok, s')
    \<Longrightarrow> only_at P view p s s' \<and> (view s' p = None \<or> \<not> ok \<and> view s' p = view s p)"
  unfolding store_laws_def remove_law_def by blast

lemma law_rename: "store_laws P view st \<Longrightarrow> p \<in> P \<Longrightarrow> q \<in> P \<Longrightarrow> p \<noteq> q \<Longrightarrow> so_rename st p q s = (ok, s')
    \<Longrightarrow> (ok \<longrightarrow> view s' q = view s p \<and> (\<forall>r\<in>P. r \<noteq> p \<and> r \<noteq> q \<longrightarrow> view s' r = view s r))
      \<and> (\<not> ok \<longrightarrow> (\<forall>r\<in>P. view s' r = view s r))"
  unfolding store_laws_def rename_law_def by blast

lemma law_mkdir: "store_laws P view st \<Longrightarrow> so_mkdir st d s = (ok, s') \<Longrightarrow> q \<in> P \<Longrightarrow> view s' q = view s q"
  unfolding store_laws_def mkdir_law_def by blast

lemma only_atD: "only_at P view p s s' \<Longrightarrow> q \<in> P \<Longrightarrow> q \<noteq> p \<Longrightarrow> view s' q = view s q"
  by (simp add: only_at_def)

lemma write_at_append: "write_at c (length c) d = c @ d"
  by (simp add: write_at_def)

lemma make_dirs_view:
  assumes "store_laws P view st" "make_dirs st ps s = (r, s')" "q \<in> P"
  shows "view s' q = view s q"
  using assms(2)
proof (induction ps arbitrary: s)
  case (Cons p ps)
  let ?n = "to_string_normalized p"
  show ?case
  proof (cases "?n = [] \<or> ?n = ''/'' \<or> so_exists st ?n s = Some True")
    case True
    with Cons show ?thesis by (auto simp: Let_def split: if_splits)
  next
    case False
    obtain ok s1 where m: "so_mkdir st ?n s = (ok, s1)" by (meson surj_pair)
    from law_mkdir[OF assms(1) m assms(3)] Cons False m show ?thesis
      by (cases "so_exists st ?n s"; cases ok) (auto simp: Let_def split: bool.splits)
  qed
qed simp

lemma create_parent_view:
  assumes "store_laws P view st" "create_parent st p s = (r, s')" "q \<in> P"
  shows "view s' q = view s q"
  using assms make_dirs_view[OF assms(1) _ assms(3)]
  by (auto simp: create_parent_def create_remote_dirs_def split: option.splits)

text \<open>What the temporary file of an upload starts from: the partial file that the client
  asked to continue, if it still has the length the client was told and the server reports it, and nothing otherwise.  With nothing to start
  from although the client left out a beginning, the file is published without it: a server that does not always report
  the length (\<^verbatim>\<open>len_total\<close> fails) may do so at any time.\<close>

definition len_total :: "('s \<Rightarrow> 'p \<Rightarrow> string option) \<Rightarrow> ('p, 's) store \<Rightarrow> 'p \<Rightarrow> bool" where
  "len_total view st p \<longleftrightarrow> (\<forall>s c. view s p = Some c \<longrightarrow> so_len st p s = Some (length c))"

definition resumes_from ::
  "('s \<Rightarrow> string \<Rightarrow> string option) \<Rightarrow> (string, 's) store \<Rightarrow> 's \<Rightarrow> string \<Rightarrow> nat \<Rightarrow> string \<Rightarrow> bool" where
  "resumes_from view st s tmp skip c \<longleftrightarrow>
    (if 0 < skip \<and> map_option length (view s tmp) = Some skip
     then view s tmp = Some c \<or> c = [] \<and> \<not> len_total view st tmp else c = [])"

lemma begin_file_view:
  assumes laws: "store_laws P view st" "dest \<in> P" "tmp_path dest \<in> P"
    and d: "dest = to_string_normalized path" and b: "begin_file st path sz start s = (r, s')"
  shows "view s' dest = view s dest
    \<and> (case r of Inl _ \<Rightarrow> True
       | Inr u \<Rightarrow> \<exists>c. resumes_from view st s (tmp_path dest) (min start sz) c \<and> view s' (tmp_path dest) = Some c
           \<and> u = \<lparr>up_file = Some (tmp_path dest, length c), up_dest = Some dest\<rparr>)"
proof -
  let ?t = "tmp_path dest"
  have ne: "dest \<noteq> ?t" by (simp add: tmp_path_def)
  obtain r1 s1 where cp: "create_parent st path s = (r1, s1)" by (meson surj_pair)
  note v1 = create_parent_view[OF laws(1) cp]
  show ?thesis
  proof (cases r1)
    case (Inl e)
    with b cp v1[OF laws(2)] show ?thesis by (auto simp: begin_file_def)
  next
    case (Inr x)
    show ?thesis
    proof (cases "0 < min start sz \<and> so_len st ?t s1 = Some (min start sz)")
      case True
      with law_len[OF laws(1,3), of s1 "min start sz"] v1[OF laws(3)]
      obtain c where c: "view s ?t = Some c" "length c = min start sz" by auto
      obtain ok s2 where o: "so_open st ?t s1 = (ok, s2)" by (meson surj_pair)
      from law_open[OF laws(1,3) o] v1 laws(2,3) c ne have "view s2 dest = view s dest" "ok \<longrightarrow> view s2 ?t = Some c"
        by (auto simp: only_at_def)
      with b cp Inr True o c d show ?thesis
        by (cases ok) (auto simp: begin_file_def Let_def resumes_from_def)
    next
      case False
      obtain ok s2 where o: "so_create st ?t s1 = (ok, s2)" by (meson surj_pair)
      from law_create[OF laws(1,3) o] v1 laws(2,3) ne have "view s2 dest = view s dest" "ok \<longrightarrow> view s2 ?t = Some []"
        by (auto simp: only_at_def)
      moreover have "resumes_from view st s ?t (min start sz) []"
        using False v1[OF laws(3)] by (auto simp: resumes_from_def len_total_def)
      ultimately show ?thesis using b cp Inr False o d
        by (cases ok) (auto simp: begin_file_def Let_def split: if_splits)
    qed
  qed
qed


text \<open>Data frames extend the temporary file; where one fails, the destination is as it was.\<close>

lemma upload_data:
  assumes laws: "store_laws P view st" "dest \<in> P" "tmp_path dest \<in> P"
    and "up_file u = Some (tmp_path dest, length c)" "view s (tmp_path dest) = Some c"
    and "upload_loop st spec root isdir (map FileData ds @ fs) u s = (r, s')"
  obtains (failed) e where "r = Inl e" "view s' dest = view s dest"
  | (written) s1 where "view s1 dest = view s dest" "view s1 (tmp_path dest) = Some (c @ concat ds)"
      "upload_loop st spec root isdir fs (u\<lparr>up_file := Some (tmp_path dest, length (c @ concat ds))\<rparr>) s1 = (r, s')"
  using assms(4-)
proof (induction ds arbitrary: u s c thesis)
  case Nil
  have "u\<lparr>up_file := Some (tmp_path dest, length c)\<rparr> = u" using Nil.prems(3) by (cases u) simp
  with Nil show ?case by simp
next
  case (Cons d ds)
  let ?t = "tmp_path dest"
  have ne: "dest \<noteq> ?t" by (simp add: tmp_path_def)
  obtain ok s1 where w: "so_write st ?t (length c) d s = (ok, s1)" by (meson surj_pair)
  from law_write[OF laws(1,3) w] laws(2) ne Cons.prems(4)
  have v: "view s1 dest = view s dest" "ok \<longrightarrow> view s1 ?t = Some (c @ d)"
    by (auto simp: only_at_def write_at_append)
  show ?case
  proof (cases ok)
    case False
    with Cons.prems(3,5) w v show ?thesis by (intro Cons.prems(1)) auto
  next
    case True
    let ?u = "u\<lparr>up_file := Some (?t, length (c @ d))\<rparr>"
    have "upload_loop st spec root isdir (map FileData ds @ fs) ?u s1 = (r, s')"
      using Cons.prems(3,5) w True by simp
    moreover have "up_file ?u = Some (?t, length (c @ d))" by simp
    moreover have "view s1 ?t = Some (c @ d)" using v True by simp
    ultimately show ?thesis
      using Cons.prems(1,2) v(1) by (elim Cons.IH[rotated 2]) auto
  qed
qed

lemma upload_end:
  assumes laws: "store_laws P view st" "dest \<in> P" "tmp_path dest \<in> P"
    and "up_file u = Some (tmp_path dest, k)" "up_dest u = Some dest" "view s (tmp_path dest) = Some c"
    and e: "upload_step st spec root isdir EndFile u s = (r, s')"
  shows "(\<exists>e. r = Inl e \<and> (view s' dest = view s dest \<or> view s' dest = None))
    \<or> (r = Inr \<lparr>up_file = None, up_dest = None\<rparr> \<and> view s' dest = Some c)"
proof -
  let ?t = "tmp_path dest"
  have ne: "dest \<noteq> ?t" "?t \<noteq> dest" by (simp_all add: tmp_path_def)
  obtain ok s1 where c: "so_close st ?t s = (ok, s1)" by (meson surj_pair)
  obtain ok2 s2 where rm: "so_remove st dest s1 = (ok2, s2)" by (meson surj_pair)
  obtain ok3 s3 where rn: "so_rename st ?t dest s2 = (ok3, s3)" by (meson surj_pair)
  from law_close[OF laws(1,3) c] law_remove[OF laws(1,2) rm] law_rename[OF laws(1,3,2) ne(2) rn] laws(2,3) ne assms(6)
  have v: "view s1 dest = view s dest" "ok \<longrightarrow> view s2 ?t = Some c" "view s2 dest = view s dest \<or> view s2 dest = None"
    "ok3 \<longrightarrow> view s3 dest = view s2 ?t" "\<not> ok3 \<longrightarrow> view s3 dest = view s2 dest"
    by (auto simp: only_at_def)
  show ?thesis using e assms(4,5) c rm rn v
    by (cases ok; cases ok3) (auto simp: end_file_def)
qed


definition published :: "('s \<Rightarrow> string \<Rightarrow> string option) \<Rightarrow> (string, 's) store \<Rightarrow> 's \<Rightarrow> string \<Rightarrow> nat \<Rightarrow> string \<Rightarrow> 's \<Rightarrow> bool" where
  "published view st s dest skip data s' \<longleftrightarrow>
    (\<exists>c. resumes_from view st s (tmp_path dest) skip c \<and> view s' dest = Some (c @ data))"

lemma upload_file_loop:
  assumes laws: "store_laws P view st" "dest \<in> P" "tmp_path dest \<in> P"
    and d: "dest = to_string_normalized (upload_path spec root isdir rel)"
    and l: "upload_loop st spec root isdir (BeginFile rel mode sz mtime start # map FileData ds @ fs)
      \<lparr>up_file = None, up_dest = None\<rparr> s = (r, s')"
    and fs: "fs = [] \<or> fs = [EndFile] \<or> fs = [EndFile, EndOfStream]"
  shows "(\<exists>e. r = Inl e \<and> (view s' dest = view s dest \<or> view s' dest = None))
    \<or> (r = Inr () \<and> fs \<noteq> [] \<and> published view st s dest (min start sz) (concat ds) s')"
proof -
  let ?t = "tmp_path dest" and ?p = "upload_path spec root isdir rel"
  obtain r1 s1 where b: "begin_file st ?p sz start s = (r1, s1)" by (meson surj_pair)
  note bv = begin_file_view[OF laws d b]
  show ?thesis
  proof (cases r1)
    case (Inl e)
    then show ?thesis using l b bv by auto
  next
    case (Inr u)
    with bv obtain c where c: "resumes_from view st s ?t (min start sz) c" "view s1 ?t = Some c"
      "u = \<lparr>up_file = Some (?t, length c), up_dest = Some dest\<rparr>" "view s1 dest = view s dest" by auto
    have l1: "upload_loop st spec root isdir (map FileData ds @ fs) u s1 = (r, s')" using l b Inr by simp
    have uf: "up_file u = Some (?t, length c)" using c(3) by simp
    show ?thesis
    proof (cases rule: upload_data[OF laws uf c(2) l1])
      case (1 e)
      then show ?thesis using c(4) by simp
    next
      case (2 s2)
      let ?u = "u\<lparr>up_file := Some (?t, length (c @ concat ds))\<rparr>"
      obtain r3 s3 where e: "upload_step st spec root isdir EndFile ?u s2 = (r3, s3)" by (meson surj_pair)
      have "up_file ?u = Some (?t, length (c @ concat ds))" "up_dest ?u = Some dest" using c(3) by simp_all
      from upload_end[OF laws this 2(2) e] 2(1) c(4)
      consider x where "r3 = Inl x" "view s3 dest = view s dest \<or> view s3 dest = None"
        | "r3 = Inr \<lparr>up_file = None, up_dest = None\<rparr>" "view s3 dest = Some (c @ concat ds)" by auto
      note cs = this
      show ?thesis
      proof (cases "fs = []")
        case True
        then show ?thesis using 2 c(4) by auto
      next
        case False
        with fs 2(3) e have l3: "(case r3 of Inl x \<Rightarrow> (Inl x, s3) | Inr u' \<Rightarrow> upload_loop st spec root isdir (tl fs) u' s3) = (r, s')"
          by (cases r3) (auto simp del: upload_step.simps)
        from cs show ?thesis
        proof cases
          case 1
          then show ?thesis using l3 by auto
        next
          case 2
          then show ?thesis using l3 fs False c(1) by (auto simp: published_def)
        qed
      qed
    qed
  qed
qed

lemma take_data_frames:
  "take m (map FileData ds @ [EndFile, EndOfStream]) = map FileData (take m ds) @ take (m - length ds) [EndFile, EndOfStream]"
  by (simp add: take_map)

lemma upload_stream:
  assumes "store_laws {dest, tmp_path dest} view st"
    and "dest = to_string_normalized (upload_path spec (from_str (cs_remote_path spec))
        (remote_path_is_dir st (from_str (cs_remote_path spec)) s) rel)"
    and "upload st spec (take n (BeginFile rel mode sz mtime start # map FileData ds @ [EndFile, EndOfStream])) s = (r, s')"
  shows "(view s' dest = view s dest \<or> view s' dest = None
      \<or> length ds + 2 \<le> n \<and> published view st s dest (min start sz) (concat ds) s')
    \<and> (r = Inr () \<and> 0 < n \<longrightarrow> published view st s dest (min start sz) (concat ds) s')"
proof (cases n)
  case 0
  then show ?thesis using assms(3) by (auto simp: upload_def Let_def)
next
  case (Suc m)
  let ?root = "from_str (cs_remote_path spec)"
  let ?fs = "take (m - length ds) [EndFile, EndOfStream]"
  have l: "upload_loop st spec ?root (remote_path_is_dir st ?root s)
      (BeginFile rel mode sz mtime start # map FileData (take m ds) @ ?fs) \<lparr>up_file = None, up_dest = None\<rparr> s = (r, s')"
    using assms(3) Suc by (simp add: upload_def Let_def take_map)
  have fs: "?fs = [] \<or> ?fs = [EndFile] \<or> ?fs = [EndFile, EndOfStream]"
    by (cases "m - length ds"; cases "m - length ds - 1") auto
  from upload_file_loop[OF assms(1) _ _ assms(2) l fs]
  consider e where "r = Inl e" "view s' dest = view s dest \<or> view s' dest = None"
    | "r = Inr ()" "?fs \<noteq> []" "published view st s dest (min start sz) (concat (take m ds)) s'" by auto
  then show ?thesis
  proof cases
    case 2
    then have "length ds < m" by auto
    with 2 Suc show ?thesis by simp
  qed auto
qed

text \<open>A file server that keeps the contents in memory and never fails; it satisfies the laws.\<close>

definition mem_store :: "('p, 'p \<rightharpoonup> string) store" where
  "mem_store =
    \<lparr>so_is_dir = (\<lambda>p s. Some False),
     so_len = (\<lambda>p s. map_option length (s p)),
     so_exists = (\<lambda>p s. Some (s p \<noteq> None)),
     so_read = (\<lambda>p s. s p),
     so_create = (\<lambda>p s. (True, s(p \<mapsto> []))),
     so_open = (\<lambda>p s. (True, s(p \<mapsto> case s p of Some c \<Rightarrow> c | None \<Rightarrow> []))),
     so_write = (\<lambda>p k d s. case s p of None \<Rightarrow> (False, s) | Some c \<Rightarrow> (True, s(p \<mapsto> write_at c k d))),
     so_append = (\<lambda>p d s. case s p of None \<Rightarrow> (False, s) | Some c \<Rightarrow> (True, s(p \<mapsto> c @ d))),
     so_close = (\<lambda>p s. (True, s)),
     so_remove = (\<lambda>p s. (s p \<noteq> None, s(p := None))),
     so_rename = (\<lambda>p q s. case s p of None \<Rightarrow> (False, s) | Some c \<Rightarrow> (True, s(p := None, q \<mapsto> c))),
     so_symlink = (\<lambda>p t s. (True, s)),
     so_mkdir = (\<lambda>p s. (True, s))\<rparr>"

lemma take_self [simp]: "\<exists>n. c = take n c"
  by (rule exI[of _ "length c"]) simp

lemma write_at_self: "\<exists>n. write_at c k d = write_at c k (take n d)"
  by (rule exI[of _ "length d"]) simp

lemma mem_store_laws: "store_laws P (\<lambda>s. s) mem_store"
proof -
  have "read_laws P (\<lambda>s. s) mem_store" by (auto simp: read_laws_def mem_store_def)
  moreover have "open_laws P (\<lambda>s. s) mem_store"
    by (auto simp: open_laws_def mem_store_def only_at_def take_self)
  moreover have "write_law P (\<lambda>s. s) mem_store"
    by (auto simp: write_law_def mem_store_def only_at_def write_at_self split: option.splits)
  moreover have "append_law P (\<lambda>s. s) mem_store"
    by (auto simp: append_law_def mem_store_def only_at_def take_self split: option.splits)
  moreover have "remove_law P (\<lambda>s. s) mem_store" by (auto simp: remove_law_def mem_store_def only_at_def)
  moreover have "rename_law P (\<lambda>s. s) mem_store" by (auto simp: rename_law_def mem_store_def split: option.splits)
  moreover have "mkdir_law P (\<lambda>s. s) mem_store" by (auto simp: mkdir_law_def mem_store_def)
  ultimately show ?thesis by (simp add: store_laws_def)
qed

lemma mem_len_total: "len_total (\<lambda>s. s) mem_store p"
  by (simp add: len_total_def mem_store_def)

definition ex_upload_spec :: copy_spec where
  "ex_upload_spec = \<lparr>cs_direction = Upload, cs_remote_path = ''/d'', cs_recursive = False, cs_source_name = ''f'', cs_resume = []\<rparr>"

text \<open>C6. An upload of one file never leaves a part of it at the destination.  A fresh upload, cut off after any number of frames and with
  failures of the server anywhere, leaves the destination as before, gone (the
  old file was removed and the publishing rename failed), or, once the end-of-file frame arrived, holding the whole source file; if it
  reports success, it is the whole source file.  The same holds for an upload that resumes, if the partial file holds the beginning that the client
  left out and the server reports the length of an existing partial file; every other call of the server may still fail.\<close>

theorem upload_never_partial:
  assumes "store_laws {dest, tmp_path dest} view st"
    and "dest = to_string_normalized (upload_path spec (from_str (cs_remote_path spec))
        (remote_path_is_dir st (from_str (cs_remote_path spec)) s) rel)"
    and "concat ds = drop start src"
    and "0 < start \<Longrightarrow> view s (tmp_path dest) = Some (take start src) \<and> len_total view st (tmp_path dest)"
    and "upload st spec (take n (BeginFile rel mode (length src) mtime start # map FileData ds @ [EndFile, EndOfStream])) s = (r, s')"
  shows "(view s' dest = view s dest \<or> view s' dest = None \<or> length ds + 2 \<le> n \<and> view s' dest = Some src)
    \<and> (r = Inr () \<and> 0 < n \<longrightarrow> view s' dest = Some src)"
proof -
  have "view s' dest = Some src" if "published view st s dest (min start (length src)) (concat ds) s'"
    using that assms(3,4) by (cases "start = 0") (auto simp: published_def resumes_from_def min_def split: if_splits)
  with upload_stream[OF assms(1,2,5)] show ?thesis by blast
qed

theorem upload_never_partial_witness:
  "snd (upload mem_store ex_upload_spec (take 4 (BeginFile ''f'' 420 (length ''abcde'') 0 2 # map FileData [''cd'', ''e''] @ [EndFile, EndOfStream]))
      [''/d'' \<mapsto> ''old'', ''/d.xho_tmp'' \<mapsto> ''ab'']) ''/d'' = Some ''abcde''"
proof -
  let ?s = "[''/d'' \<mapsto> ''old'', ''/d.xho_tmp'' \<mapsto> ''ab'']"
  let ?u = "upload mem_store ex_upload_spec (take 4 (BeginFile ''f'' 420 (length ''abcde'') 0 2 # map FileData [''cd'', ''e''] @ [EndFile, EndOfStream])) ?s"
  have d: "''/d'' = to_string_normalized (upload_path ex_upload_spec (from_str (cs_remote_path ex_upload_spec))
        (remote_path_is_dir mem_store (from_str (cs_remote_path ex_upload_spec)) ?s) ''f'')"
    by code_simp
  have "fst ?u = Inr ()" by code_simp
  then show ?thesis using upload_never_partial[OF mem_store_laws d _ _ prod.collapse[symmetric],
        where n = 4 and mode = 420 and src = "''abcde''" and mtime = 0 and start = 2 and ds = "[''cd'', ''e'']"]
    by (simp add: tmp_path_def mem_len_total)
qed

section \<open>Attempts\<close>

lemma gateway_copy_from_attempts:
  "\<exists>k. attempt \<le> k \<and> k \<le> max attempt 2 \<and> gateway_copy_from attempt d attempts = attempt_result (attempts k)
    \<and> (\<forall>j. attempt \<le> j \<and> j < k \<longrightarrow> (\<exists>e. attempts j = OpenFails e \<and> ge_kind e = ETransport) \<and> d = Download)"
proof (induction attempt d attempts rule: gateway_copy_from.induct)
  case (1 attempt d attempts)
  show ?case
  proof (cases "attempt < 2 \<and> d = Download \<and> (\<exists>e. attempt_result (attempts attempt) = Inl e \<and> ge_kind e = ETransport)")
    case True
    then obtain e where e: "attempt < 2" "d = Download" "attempt_result (attempts attempt) = Inl e" "ge_kind e = ETransport" by blast
    then have o: "\<exists>e. attempts attempt = OpenFails e \<and> ge_kind e = ETransport" by (cases "attempts attempt") auto
    from "1.IH"[OF e(3)] e obtain k where k: "Suc attempt \<le> k" "k \<le> max (Suc attempt) 2"
      "gateway_copy_from (Suc attempt) d attempts = attempt_result (attempts k)"
      "\<forall>j. Suc attempt \<le> j \<and> j < k \<longrightarrow> (\<exists>e. attempts j = OpenFails e \<and> ge_kind e = ETransport) \<and> d = Download" by auto
    moreover have "gateway_copy_from attempt d attempts = gateway_copy_from (Suc attempt) d attempts"
      using e by (simp add: gateway_copy_from.simps[of attempt])
    moreover have "\<forall>j. attempt \<le> j \<and> j < k \<longrightarrow> (\<exists>e. attempts j = OpenFails e \<and> ge_kind e = ETransport) \<and> d = Download"
      using k(4) o e(2) by (metis Suc_leI le_neq_implies_less)
    ultimately show ?thesis using e(1) by (intro exI[of _ k]) auto
  next
    case False
    then have "gateway_copy_from attempt d attempts = attempt_result (attempts attempt)"
      by (auto simp: gateway_copy_from.simps[of attempt] split: sum.split)
    then show ?thesis by (intro exI[of _ attempt]) auto
  qed
qed

text \<open>A copy through a gateway ends after at most three attempts, with the result of the last one.  Only downloads are tried
  again, and only after the session could not be opened because of the transport: a
  transport that breaks while the subsystem starts or while data flow counts as an execution error
  and is not tried again.\<close>

theorem gateway_copy_attempts:
  "\<exists>k. k \<le> 2 \<and> gateway_copy d attempts = attempt_result (attempts k)
    \<and> (\<forall>j. j < k \<longrightarrow> (\<exists>e. attempts j = OpenFails e \<and> ge_kind e = ETransport) \<and> d = Download)"
  using gateway_copy_from_attempts[of 0 d attempts] by (simp add: gateway_copy_def)

theorem gateway_copy_attempts_witness:
  "\<exists>k. k \<le> 2 \<and> gateway_copy Download (\<lambda>n. if n = 0 then OpenFails \<lparr>ge_kind = ETransport, ge_source = []\<rparr> else RunFails [])
      = attempt_result ((\<lambda>n. if n = (0::nat) then OpenFails \<lparr>ge_kind = ETransport, ge_source = []\<rparr> else RunFails []) k)"
  using gateway_copy_attempts by blast

end
