(* ===== verification/Copy_Client.thy ===== *)
theory Copy_Client
  imports Sftp_Copy Wire_Protocol
begin

text \<open>
  The copy command of the client (\<^verbatim>\<open>cli/copy.rs\<close>): reading the operands, sending the frames of
  a local file or tree, writing the frames of a download, and the loop of \<^verbatim>\<open>run_copy\<close> with its
  resume files.  The local file system is a \<^verbatim>\<open>store\<close> over path components, the tree to upload an
  \<^verbatim>\<open>entry\<close>; the digest, the JSON form of the resume files and the answers at the prompts are
  arguments.  Progress output is left out.
\<close>

section \<open>Operands\<close>

record copy_cli_plan =
  pl_target :: string
  pl_spec :: copy_spec
  pl_local_path :: string

definition parse_remote_spec :: "string \<Rightarrow> (string \<times> string) option" where
  "parse_remote_spec v = map_option (\<lambda>r. (target r, to_string_normalized (spec_path r))) (parse_remote v)"

definition remote_source_name :: "string \<Rightarrow> string" where
  "remote_source_name remote_path =
    (let trimmed = rev (dropWhile (\<lambda>c. c = CHR ''/'') (rev remote_path))
     in case file_name (components trimmed) of
          Some name \<Rightarrow> if name \<noteq> [] then name else ''download''
        | None \<Rightarrow> ''download'')"

definition parse_copy_operands :: "string option \<Rightarrow> bool \<Rightarrow> string \<Rightarrow> string \<Rightarrow> string + copy_cli_plan" where
  "parse_copy_operands home recursive source dest =
    (case (parse_remote_spec source, parse_remote_spec dest) of
       (Some (tgt, remote_path), None) \<Rightarrow>
         (case expand_tilde home dest of
            None \<Rightarrow> Inl ''home directory is unknown''
          | Some local_path \<Rightarrow>
              Inr \<lparr>pl_target = tgt,
                   pl_spec = \<lparr>cs_direction = Download, cs_remote_path = remote_path, cs_recursive = recursive,
                     cs_source_name = remote_source_name remote_path, cs_resume = []\<rparr>,
                   pl_local_path = local_path\<rparr>)
     | (None, Some (tgt, remote_path)) \<Rightarrow>
         (case expand_tilde home source of
            None \<Rightarrow> Inl ''home directory is unknown''
          | Some local_path \<Rightarrow>
              (case local_basename (components local_path) of
                 None \<Rightarrow> Inl (''failed to derive basename from '' @ local_path)
               | Some name \<Rightarrow>
                   Inr \<lparr>pl_target = tgt,
                        pl_spec = \<lparr>cs_direction = Upload, cs_remote_path = remote_path, cs_recursive = recursive,
                          cs_source_name = name, cs_resume = []\<rparr>,
                        pl_local_path = local_path\<rparr>))
     | (Some _, Some _) \<Rightarrow> Inl ''copy supports exactly one remote operand''
     | (None, None) \<Rightarrow> Inl ''copy requires one remote operand like host:/path'')"

section \<open>Sending a file or a tree\<close>

text \<open>Each function gives the frames sent and the error that ended the sending, if any; the client's
  request channel takes every frame.\<close>

definition path_text :: "path_error \<Rightarrow> string" where
  "path_text e = (case e of AbsolutePath p \<Rightarrow> p | ParentSegment p \<Rightarrow> p)"

fun send_path_entry_frame_with_metadata ::
  "nat list \<Rightarrow> component list \<Rightarrow> entry \<Rightarrow> copy_frame list \<times> string option" where
  "send_path_entry_frame_with_metadata ns rel e =
    (case relative_path_to_string rel of
       Inl err \<Rightarrow> ([], Some (path_text err))
     | Inr p \<Rightarrow>
         (case e of
            LinkEntry None \<Rightarrow> ([], Some ''failed to read symlink'')
          | LinkEntry (Some tgt) \<Rightarrow> ([Symlink p (to_string_normalized (from_local (components tgt)))], None)
          | DirEntry mode mtime es \<Rightarrow> ([BeginDirectory p mode (mtime_or_zero mtime)], None)
          | BrokenDir mode mtime \<Rightarrow> ([BeginDirectory p mode (mtime_or_zero mtime)], None)
          | OtherEntry \<Rightarrow> ([], Some ''unsupported file type for copy'')
          | FileEntry mode mtime c \<Rightarrow>
              (BeginFile p mode (length c) (mtime_or_zero mtime) 0 # map FileData (read_chunks ns c) @ [EndFile], None)
          | BrokenFile mode mtime len c \<Rightarrow>
              (BeginFile p mode len (mtime_or_zero mtime) 0 # map FileData (read_chunks ns c), Some ''failed to read'')))"

text \<open>One directory: the frames of its entries in listing order, and the subdirectories to visit,
  the last one first, as the stack returns them.\<close>

fun dir_frames ::
  "nat list \<Rightarrow> component list \<Rightarrow> (string \<times> entry) list
    \<Rightarrow> (component list \<times> entry) list \<Rightarrow> copy_frame list \<times> (component list \<times> entry) list \<times> string option" where
  "dir_frames ns rel [] stack = ([], stack, None)"
| "dir_frames ns rel ((name, e) # es) stack =
    (case send_path_entry_frame_with_metadata ns (rel @ [Normal name]) e of
       (fs, Some err) \<Rightarrow> (fs, stack, Some err)
     | (fs, None) \<Rightarrow>
         (let (fs', stack', err) =
            dir_frames ns rel es (if is_dir_entry e then (rel @ [Normal name], e) # stack else stack)
          in (fs @ fs', stack', err)))"

fun entry_weight :: "entry \<Rightarrow> nat"
and listing_weight :: "(string \<times> entry) list \<Rightarrow> nat" where
  "entry_weight (DirEntry _ _ es) = Suc (listing_weight es)"
| "entry_weight (BrokenDir _ _) = 1"
| "entry_weight _ = 0"
| "listing_weight [] = 0"
| "listing_weight ((_, e) # es) = entry_weight e + listing_weight es"

lemma dir_frames_weight:
  "dir_frames ns rel es stack = (fs, stack', err)
    \<Longrightarrow> sum_list (map (entry_weight \<circ> snd) stack') \<le> listing_weight es + sum_list (map (entry_weight \<circ> snd) stack)"
proof (induction ns rel es stack arbitrary: fs stack' err rule: dir_frames.induct)
  case (2 ns rel name e es stack)
  then show ?case
    by (fastforce simp: comp_def simp del: send_path_entry_frame_with_metadata.simps split: prod.splits option.splits if_splits)
qed simp

function send_directory_contents_frames ::
  "nat list \<Rightarrow> (component list \<times> entry) list \<Rightarrow> copy_frame list \<times> string option" where
  "send_directory_contents_frames ns [] = ([], None)"
| "send_directory_contents_frames ns ((rel, DirEntry mode mtime es) # stack) =
    (case dir_frames ns rel es stack of
       (fs, stack', Some err) \<Rightarrow> (fs, Some err)
     | (fs, stack', None) \<Rightarrow>
         (let (fs', err) = send_directory_contents_frames ns stack' in (fs @ fs', err)))"
| "send_directory_contents_frames ns ((rel, BrokenDir mode mtime) # stack) = ([], Some ''failed to read directory'')"
| "send_directory_contents_frames ns ((rel, FileEntry mode mtime c) # stack) = ([], Some ''failed to read directory'')"
| "send_directory_contents_frames ns ((rel, LinkEntry tgt) # stack) = ([], Some ''failed to read directory'')"
| "send_directory_contents_frames ns ((rel, OtherEntry) # stack) = ([], Some ''failed to read directory'')"
| "send_directory_contents_frames ns ((rel, BrokenFile mode mtime len c) # stack) = ([], Some ''failed to read directory'')"
  by pat_completeness auto
termination
  by (relation "measure (\<lambda>(_, stack). sum_list (map (entry_weight \<circ> snd) stack))")
    (auto dest!: dir_frames_weight[OF sym])

definition send_path_entry_frame_from ::
  "nat list \<Rightarrow> string \<Rightarrow> entry \<Rightarrow> nat \<Rightarrow> copy_frame list \<times> string option" where
  "send_path_entry_frame_from ns name e skip =
    (case (entry_stat e, relative_path_to_string (components name)) of
       (Some (len, mtime), Inr p) \<Rightarrow>
         if len < skip then ([], Some ''resume offset beyond local file size'')
         else
           (case e of
              FileEntry mode _ c \<Rightarrow>
                (BeginFile p mode len mtime skip # map FileData (read_chunks ns (drop skip c)) @ [EndFile], None)
            | BrokenFile mode _ _ c \<Rightarrow>
                (BeginFile p mode len mtime skip # map FileData (read_chunks ns (drop skip c)), Some ''failed to read'')
            | _ \<Rightarrow> ([], Some ''failed to open''))
     | (Some _, Inl err) \<Rightarrow> ([], Some (path_text err))
     | (None, _) \<Rightarrow> ([], Some ''failed to open''))"

definition send_path_copy_frames ::
  "nat list \<Rightarrow> string \<Rightarrow> entry option \<Rightarrow> bool \<Rightarrow> nat \<Rightarrow> copy_frame list \<times> string option" where
  "send_path_copy_frames ns local_path found recursive skip =
    (case found of
       None \<Rightarrow> ([], Some (''failed to inspect '' @ local_path))
     | Some e \<Rightarrow>
         (let (fs, err) =
            (if is_dir_entry e
             then (if \<not> recursive then ([], Some (local_path @ '' is a directory; use -r to copy directories''))
                   else
                     (let (mode, mtime) = (case e of DirEntry m t _ \<Rightarrow> (m, t) | BrokenDir m t \<Rightarrow> (m, t) | _ \<Rightarrow> (0, None));
                          (fs, err) = send_directory_contents_frames ns [([], e)]
                      in (BeginDirectory [] mode (mtime_or_zero mtime) # fs, err)))
             else
               (case local_basename (components local_path) of
                  None \<Rightarrow> ([], Some (''failed to derive basename from '' @ local_path))
                | Some name \<Rightarrow>
                    if 0 < skip then send_path_entry_frame_from ns name e skip
                    else send_path_entry_frame_with_metadata ns (components name) e))
          in case err of Some m \<Rightarrow> (fs, Some m) | None \<Rightarrow> (fs @ [EndOfStream], None)))"

section \<open>Resume files\<close>

record download_sidecar =
  sc_target :: string
  sc_remote_path :: string
  sc_relative_path :: string
  sc_offset :: nat
  sc_size :: nat
  sc_mtime :: int

record upload_sidecar =
  us_target :: string
  us_remote_path :: string
  us_size :: nat
  us_mtime :: int

text \<open>What the client takes from outside: the file system, the digest, the JSON form of the resume
  files, the answers to prompts, the parser of identifiers and the sizes of reads.\<close>

record 's cli_env =
  ce_store :: "(local_path, 's) store"
  ce_sha256 :: "string \<Rightarrow> string"
  ce_write_sidecar :: "download_sidecar \<Rightarrow> string"
  ce_read_sidecar :: "string \<Rightarrow> download_sidecar option"
  ce_write_upload :: "upload_sidecar \<Rightarrow> string"
  ce_read_upload :: "string \<Rightarrow> upload_sidecar option"
  ce_confirm :: "string \<Rightarrow> string + bool"
  ce_auth :: "string \<Rightarrow> bool \<Rightarrow> string + string"
  ce_parse_uuid :: "string \<Rightarrow> string option"
  ce_reads :: "nat list"

definition download_part_paths :: "string \<Rightarrow> local_path \<times> local_path" where
  "download_part_paths dest = (components (dest @ ''.part''), components (dest @ ''.part.meta''))"

definition read_download_sidecar ::
  "'s cli_env \<Rightarrow> string \<Rightarrow> string \<Rightarrow> string \<Rightarrow> 's \<Rightarrow> download_sidecar option" where
  "read_download_sidecar env dest tgt remote_path s =
    (let (part, meta) = download_part_paths dest
     in case so_read (ce_store env) meta s of
          None \<Rightarrow> None
        | Some txt \<Rightarrow>
            (case ce_read_sidecar env txt of
               None \<Rightarrow> None
             | Some sc \<Rightarrow>
                 if sc_target sc \<noteq> tgt \<or> sc_remote_path sc \<noteq> remote_path \<or> sc_offset sc = 0 then None
                 else if so_len (ce_store env) part s = Some (sc_offset sc) then Some sc else None))"

definition prefix_sha256 :: "(string \<Rightarrow> string) \<Rightarrow> entry option \<Rightarrow> nat \<Rightarrow> string option" where
  "prefix_sha256 sha256 found len =
    (case found of
       Some (FileEntry _ _ c) \<Rightarrow> if len \<le> length c then Some (sha256 (take len c)) else None
     | _ \<Rightarrow> None)"

text \<open>\<^verbatim>\<open>tokio::fs::write\<close>.\<close>

definition write_file :: "('p, 's) store \<Rightarrow> 'p \<Rightarrow> string \<Rightarrow> 's \<Rightarrow> bool \<times> 's" where
  "write_file st p d s = (case so_create st p s of (True, s) \<Rightarrow> so_write st p 0 d s | (False, s) \<Rightarrow> (False, s))"

section \<open>Writing a download\<close>

record download_resume_ctx =
  rx_part :: local_path
  rx_meta :: local_path
  rx_expected_offset :: nat
  rx_target :: string
  rx_remote_path :: string

datatype open_file = AtPosition local_path nat | Appending local_path

record copy_download_writer =
  dw_dest :: local_path
  dw_recursive :: bool
  dw_source_name :: string
  dw_root :: "local_path option"
  dw_current_file :: "open_file option"
  dw_incomplete_path :: "local_path option"
  dw_resume :: "download_resume_ctx option"
  dw_applied :: nat
  dw_current_size :: nat
  dw_current_mtime :: int
  dw_current_relative_path :: string

definition writer_new :: "local_path \<Rightarrow> bool \<Rightarrow> string \<Rightarrow> download_resume_ctx option \<Rightarrow> copy_download_writer" where
  "writer_new dest recursive source_name resume =
    \<lparr>dw_dest = dest, dw_recursive = recursive, dw_source_name = source_name, dw_root = None,
     dw_current_file = None, dw_incomplete_path = None, dw_resume = resume, dw_applied = 0,
     dw_current_size = 0, dw_current_mtime = 0, dw_current_relative_path = []\<rparr>"

fun open_path :: "open_file \<Rightarrow> local_path" where
  "open_path (AtPosition p k) = p"
| "open_path (Appending p) = p"

text \<open>Results of the writer: an error or none, the writer and the file system, all of which later
  steps see.\<close>

type_synonym 's write_result = "string option \<times> copy_download_writer \<times> 's"

definition download_root ::
  "(local_path, 's) store \<Rightarrow> copy_download_writer \<Rightarrow> 's \<Rightarrow> (string + local_path) \<times> copy_download_writer" where
  "download_root st w s =
    (case dw_root w of
       Some r \<Rightarrow> (Inr r, w)
     | None \<Rightarrow>
         (case so_is_dir st (dw_dest w) s of
            None \<Rightarrow> (Inl ''failed to inspect'', w)
          | Some d \<Rightarrow>
              (let r = (if d then path_push (dw_dest w) (non_empty_name (dw_source_name w) ''download'') else dw_dest w)
               in (Inr r, w\<lparr>dw_root := Some r\<rparr>))))"

definition destination_for_single_entry ::
  "(local_path, 's) store \<Rightarrow> copy_download_writer \<Rightarrow> string \<Rightarrow> 's \<Rightarrow> string + local_path" where
  "destination_for_single_entry st w rel s =
    (case so_is_dir st (dw_dest w) s of
       None \<Rightarrow> Inl ''failed to inspect''
     | Some d \<Rightarrow>
         Inr (if d then path_push (dw_dest w) (copy_entry_name rel (dw_source_name w) ''download'') else dw_dest w))"

definition destination_for_file ::
  "(local_path, 's) store \<Rightarrow> copy_download_writer \<Rightarrow> string \<Rightarrow> 's \<Rightarrow> (string + local_path) \<times> copy_download_writer" where
  "destination_for_file st w rel s =
    (if dw_recursive w
     then (case download_root st w s of
             (Inl e, w) \<Rightarrow> (Inl e, w)
           | (Inr r, w) \<Rightarrow> (Inr (join_relative_path r rel), w))
     else (destination_for_single_entry st w rel s, w))"

definition create_parent_dirs :: "(local_path, 's) store \<Rightarrow> local_path \<Rightarrow> 's \<Rightarrow> bool \<times> 's" where
  "create_parent_dirs st p s = (if butlast p = [] then (True, s) else so_mkdir st (butlast p) s)"

definition begin_download ::
  "(local_path, 's) store \<Rightarrow> string \<Rightarrow> nat \<Rightarrow> int \<Rightarrow> nat \<Rightarrow> copy_download_writer \<Rightarrow> 's \<Rightarrow> 's write_result" where
  "begin_download st rel sz mtime start w s =
    (let finish = (\<lambda>w p f baseline s.
           (None, w\<lparr>dw_applied := baseline, dw_current_size := sz, dw_current_mtime := mtime,
                    dw_current_relative_path := rel, dw_current_file := Some f, dw_incomplete_path := Some p\<rparr>, s))
     in case dw_resume w of
          Some ctx \<Rightarrow>
            if 0 < start
            then (if start \<noteq> rx_expected_offset ctx then (Some ''daemon resumed at another byte than the local partial holds'', w, s)
                  else (case so_open st (rx_part ctx) s of
                          (False, s) \<Rightarrow> (Some ''failed to append'', w, s)
                        | (True, s) \<Rightarrow> finish w (rx_part ctx) (Appending (rx_part ctx)) start s))
            else (case so_create st (rx_part ctx) s of
                    (False, s) \<Rightarrow> (Some ''failed to create'', w, s)
                  | (True, s) \<Rightarrow> finish w (rx_part ctx) (AtPosition (rx_part ctx) 0) start s)
        | None \<Rightarrow>
            (case destination_for_file st w rel s of
               (Inl e, w) \<Rightarrow> (Some e, w, s)
             | (Inr p, w) \<Rightarrow>
                 (case create_parent_dirs st p s of
                    (False, s) \<Rightarrow> (Some ''failed to create directory'', w, s)
                  | (True, s) \<Rightarrow>
                      (case so_create st p s of
                         (False, s) \<Rightarrow> (Some ''failed to create'', w, s)
                       | (True, s) \<Rightarrow> finish w p (AtPosition p 0) 0 s))))"

definition write_data ::
  "(local_path, 's) store \<Rightarrow> string \<Rightarrow> copy_download_writer \<Rightarrow> 's \<Rightarrow> 's write_result" where
  "write_data st d w s =
    (case dw_current_file w of
       None \<Rightarrow> (Some ''copy stream sent file data before BeginFile'', w, s)
     | Some (AtPosition p k) \<Rightarrow>
         (case so_write st p k d s of
            (False, s) \<Rightarrow> (Some ''failed to write'', w, s)
          | (True, s) \<Rightarrow>
              (None, w\<lparr>dw_current_file := Some (AtPosition p (k + length d)), dw_applied := dw_applied w + length d\<rparr>, s))
     | Some (Appending p) \<Rightarrow>
         (case so_append st p d s of
            (False, s) \<Rightarrow> (Some ''failed to write'', w, s)
          | (True, s) \<Rightarrow> (None, w\<lparr>dw_applied := dw_applied w + length d\<rparr>, s)))"

definition flush_current :: "(local_path, 's) store \<Rightarrow> copy_download_writer \<Rightarrow> 's \<Rightarrow> 's write_result" where
  "flush_current st w s =
    (case dw_current_file w of
       None \<Rightarrow> (None, w, s)
     | Some f \<Rightarrow>
         (case so_close st (open_path f) s of
            (ok, s) \<Rightarrow> (if ok then None else Some ''failed to flush'', w\<lparr>dw_current_file := None\<rparr>, s)))"

definition write_directory ::
  "(local_path, 's) store \<Rightarrow> string \<Rightarrow> copy_download_writer \<Rightarrow> 's \<Rightarrow> 's write_result" where
  "write_directory st rel w s =
    (if \<not> dw_recursive w then (Some ''remote source is a directory; use -r to copy directories'', w, s)
     else
       (case download_root st w s of
          (Inl e, w) \<Rightarrow> (Some e, w, s)
        | (Inr r, w) \<Rightarrow>
            (case so_mkdir st (join_relative_path r rel) s of
               (ok, s) \<Rightarrow> (if ok then None else Some ''failed to create directory'', w, s))))"

definition write_symlink ::
  "(local_path, 's) store \<Rightarrow> string \<Rightarrow> string \<Rightarrow> copy_download_writer \<Rightarrow> 's \<Rightarrow> 's write_result" where
  "write_symlink st rel tgt w s =
    (case destination_for_file st w rel s of
       (Inl e, w) \<Rightarrow> (Some e, w, s)
     | (Inr p, w) \<Rightarrow>
         (case create_parent_dirs st p s of
            (False, s) \<Rightarrow> (Some ''failed to create directory'', w, s)
          | (True, s) \<Rightarrow>
              (let (_, s) = so_remove st p s
               in case so_symlink st p tgt s of
                    (ok, s) \<Rightarrow> (if ok then None else Some ''failed to create symlink'', w, s))))"

fun writer_apply ::
  "(local_path, 's) store \<Rightarrow> copy_frame \<Rightarrow> copy_download_writer \<Rightarrow> 's \<Rightarrow> 's write_result" where
  "writer_apply st (BeginFile rel mode sz mtime start) w s = begin_download st rel sz mtime start w s"
| "writer_apply st (FileData d) w s = write_data st d w s"
| "writer_apply st EndFile w s =
    (case flush_current st w s of
       (Some e, w, s) \<Rightarrow> (Some e, w, s)
     | (None, w, s) \<Rightarrow> (None, w\<lparr>dw_incomplete_path := None\<rparr>, s))"
| "writer_apply st (BeginDirectory rel mode mtime) w s = write_directory st rel w s"
| "writer_apply st (Symlink rel tgt) w s = write_symlink st rel tgt w s"
| "writer_apply st EndOfStream w s = flush_current st w s"

definition cleanup_incomplete :: "(local_path, 's) store \<Rightarrow> copy_download_writer \<Rightarrow> 's \<Rightarrow> copy_download_writer \<times> 's" where
  "cleanup_incomplete st w s =
    (let w = w\<lparr>dw_current_file := None\<rparr>
     in case dw_incomplete_path w of
          None \<Rightarrow> (w, s)
        | Some p \<Rightarrow> (w\<lparr>dw_incomplete_path := None\<rparr>, snd (so_remove st p s)))"

definition handle_failure :: "'s cli_env \<Rightarrow> copy_download_writer \<Rightarrow> 's \<Rightarrow> copy_download_writer \<times> 's" where
  "handle_failure env w s =
    (case dw_resume w of
       None \<Rightarrow> cleanup_incomplete (ce_store env) w s
     | Some ctx \<Rightarrow>
         (let (_, w, s) = flush_current (ce_store env) w s;
              s = (if 0 < dw_applied w
                   then snd (write_file (ce_store env) (rx_meta ctx)
                          (ce_write_sidecar env \<lparr>sc_target = rx_target ctx, sc_remote_path = rx_remote_path ctx,
                             sc_relative_path = dw_current_relative_path w, sc_offset = dw_applied w,
                             sc_size = dw_current_size w, sc_mtime = dw_current_mtime w\<rparr>) s)
                   else s)
          in (w\<lparr>dw_incomplete_path := None\<rparr>, s)))"

definition publish :: "'s cli_env \<Rightarrow> copy_download_writer \<Rightarrow> 's \<Rightarrow> string option \<times> 's" where
  "publish env w s =
    (case dw_resume w of
       None \<Rightarrow> (None, s)
     | Some ctx \<Rightarrow>
         (case so_rename (ce_store env) (rx_part ctx) (dw_dest w) s of
            (False, s) \<Rightarrow> (Some ''failed to publish'', s)
          | (True, s) \<Rightarrow> (None, snd (so_remove (ce_store env) (rx_meta ctx) s))))"

section \<open>The copy command\<close>

text \<open>What the loop has done: the requests sent, the offset the upload was started with (none as long
  as it was not), the writer of a download.\<close>

record cli_state =
  cl_sent :: "copy_request list"
  cl_upload :: "nat option"
  cl_writer :: "copy_download_writer option"

datatype cli_out = CliContinue | CliBreak | CliFail string

text \<open>The answers of the daemon: responses, possibly without an event, or an error of the transport.\<close>

datatype cli_input = CliResponse "copy_response option" | CliTransport string

definition upload_skip :: "(string \<Rightarrow> string) \<Rightarrow> entry option \<Rightarrow> string \<Rightarrow> rpc_resume_entry list \<Rightarrow> nat" where
  "upload_skip sha256 found source_name acks =
    (case find (\<lambda>e. rre_path e = source_name) acks of
       None \<Rightarrow> 0
     | Some e \<Rightarrow>
         if 0 < rre_offset e \<and> rre_sha256 e \<noteq> [] \<and> prefix_sha256 sha256 found (rre_offset e) = Some (rre_sha256 e)
         then rre_offset e else 0)"

definition start_upload :: "copy_spec \<Rightarrow> nat \<Rightarrow> cli_state \<Rightarrow> cli_state" where
  "start_upload spec skip c =
    (if cs_direction spec = Upload \<and> cl_upload c = None then c\<lparr>cl_upload := Some skip\<rparr> else c)"

definition cli_frame ::
  "'s cli_env \<Rightarrow> copy_spec \<Rightarrow> rpc_frame option \<Rightarrow> cli_state \<Rightarrow> 's \<Rightarrow> cli_out \<times> cli_state \<times> 's" where
  "cli_frame env spec frame c s =
    (let c = start_upload spec 0 c
     in case copy_frame_from_rpc frame of
          Inl e \<Rightarrow> (CliFail e, c, s)
        | Inr f \<Rightarrow>
            (case cl_writer c of
               None \<Rightarrow> (CliContinue, c, s)
             | Some w \<Rightarrow>
                 (case writer_apply (ce_store env) f w s of
                    (err, w, s) \<Rightarrow>
                      (case err of Some e \<Rightarrow> CliFail e | None \<Rightarrow> CliContinue, c\<lparr>cl_writer := Some w\<rparr>, s))))"

fun cli_response ::
  "'s cli_env \<Rightarrow> copy_spec \<Rightarrow> entry option \<Rightarrow> copy_response \<Rightarrow> cli_state \<Rightarrow> 's \<Rightarrow> cli_out \<times> cli_state \<times> 's" where
  "cli_response env spec found (CopyAuthPrompt m) c s =
    (case ce_auth env (ap_message m) (ap_secret m) of
       Inl e \<Rightarrow> (CliFail e, c, s)
     | Inr v \<Rightarrow> (CliContinue, c\<lparr>cl_sent := cl_sent c @ [copy_auth_input_request (ap_prompt_id m) v]\<rparr>, s))"
| "cli_response env spec found (CopyErrorMsg m) c s = (CliFail (xho_message (classify_daemon_error m)), c, s)"
| "cli_response env spec found (CopyComplete m) c s = (CliBreak, c, s)"
| "cli_response env spec found (CopyInfo m) c s = (CliContinue, c, s)"
| "cli_response env spec found (CopyFrameResponse f) c s = cli_frame env spec f c s"
| "cli_response env spec found (CopyResumeAck acks) c s =
    (CliContinue, start_upload spec (upload_skip (ce_sha256 env) found (cs_source_name spec) acks) c, s)"
| "cli_response env spec found (CopyReviewResult r) c s = (CliContinue, c, s)"
| "cli_response env spec found (CopyConfirmRequired i reason) c s =
    (case ce_confirm env reason of
       Inl e \<Rightarrow> (CliFail e, c, s)
     | Inr allow \<Rightarrow>
         (case parse_execution_id (ce_parse_uuid env) i of
            Inl e \<Rightarrow> (CliFail e, c, s)
          | Inr u \<Rightarrow>
              (if allow then CliContinue else CliBreak, c\<lparr>cl_sent := cl_sent c @ [copy_confirm_request u allow]\<rparr>, s)))"

fun cli_loop ::
  "'s cli_env \<Rightarrow> copy_spec \<Rightarrow> entry option \<Rightarrow> cli_input list \<Rightarrow> cli_state \<Rightarrow> 's \<Rightarrow> string option \<times> cli_state \<times> 's" where
  "cli_loop env spec found [] c s = (None, c, s)"
| "cli_loop env spec found (CliTransport e # ms) c s = (Some e, c, s)"
| "cli_loop env spec found (CliResponse None # ms) c s = (Some ''copy stream returned empty event'', c, s)"
| "cli_loop env spec found (CliResponse (Some r) # ms) c s =
    (case cli_response env spec found r c s of
       (CliContinue, c, s) \<Rightarrow> cli_loop env spec found ms c s
     | (CliBreak, c, s) \<Rightarrow> (None, c, s)
     | (CliFail e, c, s) \<Rightarrow> (Some e, c, s))"

text \<open>The preparation of a resumable transfer: the hints for the daemon, the context of the download
  writer, the resume file of an upload.\<close>

definition prepare_download ::
  "'s cli_env \<Rightarrow> copy_cli_plan \<Rightarrow> 's \<Rightarrow> resume_entry list \<times> download_resume_ctx" where
  "prepare_download env plan s =
    (let (part, meta) = download_part_paths (pl_local_path plan);
         found = read_download_sidecar env (pl_local_path plan) (pl_target plan) (cs_remote_path (pl_spec plan)) s
     in (case found of
           None \<Rightarrow> []
         | Some sc \<Rightarrow> [\<lparr>re_path = sc_relative_path sc, re_offset = sc_offset sc, re_size = sc_size sc,
                        re_mtime = sc_mtime sc, re_sha256 = []\<rparr>],
         \<lparr>rx_part = part, rx_meta = meta,
          rx_expected_offset = (case found of None \<Rightarrow> 0 | Some sc \<Rightarrow> sc_offset sc),
          rx_target = pl_target plan, rx_remote_path = cs_remote_path (pl_spec plan)\<rparr>))"

definition upload_meta_path :: "string \<Rightarrow> local_path" where
  "upload_meta_path local = components (local @ ''.xho_resume'')"

definition prepare_upload ::
  "'s cli_env \<Rightarrow> copy_cli_plan \<Rightarrow> entry option \<Rightarrow> 's \<Rightarrow> (resume_entry list \<times> bool) \<times> 's" where
  "prepare_upload env plan found s =
    (case Option.bind found entry_stat of
       None \<Rightarrow> (([], False), s)
     | Some (len, mtime) \<Rightarrow>
         (([\<lparr>re_path = cs_source_name (pl_spec plan), re_offset = 0, re_size = len, re_mtime = mtime, re_sha256 = []\<rparr>], True),
          snd (write_file (ce_store env) (upload_meta_path (pl_local_path plan))
            (ce_write_upload env \<lparr>us_target = pl_target plan, us_remote_path = cs_remote_path (pl_spec plan),
               us_size = len, us_mtime = mtime\<rparr>) s)))"

definition read_upload_sidecar ::
  "'s cli_env \<Rightarrow> string \<Rightarrow> string \<Rightarrow> string \<Rightarrow> entry option \<Rightarrow> 's \<Rightarrow> upload_sidecar option" where
  "read_upload_sidecar env local tgt remote_path found s =
    (case so_read (ce_store env) (upload_meta_path local) s of
       None \<Rightarrow> None
     | Some txt \<Rightarrow>
         (case ce_read_upload env txt of
            None \<Rightarrow> None
          | Some sc \<Rightarrow>
              if us_target sc \<noteq> tgt \<or> us_remote_path sc \<noteq> remote_path then None
              else if Option.bind found entry_stat = Some (us_size sc, us_mtime sc) then Some sc else None))"

definition validate_upload_source :: "entry option \<Rightarrow> bool \<Rightarrow> string option" where
  "validate_upload_source found recursive =
    (case found of
       None \<Rightarrow> Some ''failed to inspect upload source''
     | Some e \<Rightarrow> if is_dir_entry e \<and> \<not> recursive then Some ''is a directory; use -r to copy directories'' else None)"

text \<open>Before the loop: the request that starts the copy, and the state the loop begins with.\<close>

definition cli_begin ::
  "'s cli_env \<Rightarrow> copy_cli_plan \<Rightarrow> bool \<Rightarrow> nat \<Rightarrow> entry option \<Rightarrow> 's \<Rightarrow> (cli_state \<times> bool) \<times> 's" where
  "cli_begin env plan resume timeout_ms found s =
    (let spec = pl_spec plan;
         resumable = (resume \<and> \<not> cs_recursive spec);
         ((hints, sidecar), ctx, s) =
           (if resumable \<and> cs_direction spec = Download
            then (let (hints, ctx) = prepare_download env plan s in ((hints, False), Some ctx, s))
            else if resumable then (let (x, s) = prepare_upload env plan found s in (x, None, s))
            else (([], False), None, s))
     in ((\<lparr>cl_sent = [copy_spec_to_rpc (pl_target plan) spec timeout_ms hints],
           cl_upload = (if cs_direction spec = Upload \<and> \<not> sidecar then Some 0 else None),
           cl_writer = (if cs_direction spec = Download
                        then Some (writer_new (components (pl_local_path plan)) (cs_recursive spec) (cs_source_name spec) ctx)
                        else None)\<rparr>, sidecar), s))"

text \<open>After the loop: a failed download is cleaned up or recorded, a successful one published; the
  resume file of a successful upload is removed.\<close>

definition cli_finish ::
  "'s cli_env \<Rightarrow> copy_cli_plan \<Rightarrow> bool \<Rightarrow> string option \<times> cli_state \<times> 's \<Rightarrow> string option \<times> cli_state \<times> 's" where
  "cli_finish env plan sidecar result =
    (case result of
       (Some e, c, s) \<Rightarrow>
         (case cl_writer c of
            Some w \<Rightarrow> (let (w, s) = handle_failure env w s in (Some e, c\<lparr>cl_writer := Some w\<rparr>, s))
          | None \<Rightarrow> (Some e, c, s))
     | (None, c, s) \<Rightarrow>
         (case (case cl_writer c of Some w \<Rightarrow> publish env w s | None \<Rightarrow> (None, s)) of
            (Some e, s) \<Rightarrow> (Some e, c, s)
          | (None, s) \<Rightarrow>
              (None, c, if sidecar then snd (so_remove (ce_store env) (upload_meta_path (pl_local_path plan)) s) else s)))"

definition run_copy ::
  "'s cli_env \<Rightarrow> copy_cli_plan \<Rightarrow> bool \<Rightarrow> nat \<Rightarrow> entry option \<Rightarrow> cli_input list \<Rightarrow> 's \<Rightarrow> string option \<times> cli_state \<times> 's" where
  "run_copy env plan resume timeout_ms found answers s =
    (if cs_direction (pl_spec plan) = Upload \<and> validate_upload_source found (cs_recursive (pl_spec plan)) \<noteq> None
     then (validate_upload_source found (cs_recursive (pl_spec plan)), \<lparr>cl_sent = [], cl_upload = None, cl_writer = None\<rparr>, s)
     else
       (let ((c, sidecar), s) = cli_begin env plan resume timeout_ms found s
        in cli_finish env plan sidecar (cli_loop env (pl_spec plan) found answers c s)))"

section \<open>The walk over a tree\<close>

text \<open>Every entry below a directory, as a recursive walk lists them.\<close>

fun entries_below :: "component list \<Rightarrow> entry \<Rightarrow> (component list \<times> entry) list"
and listing_entries :: "component list \<Rightarrow> (string \<times> entry) list \<Rightarrow> (component list \<times> entry) list" where
  "entries_below rel (DirEntry mode mtime es) = listing_entries rel es"
| "entries_below rel _ = []"
| "listing_entries rel [] = []"
| "listing_entries rel ((name, e) # es) =
    (rel @ [Normal name], e) # entries_below (rel @ [Normal name]) e @ listing_entries rel es"

fun parents_first :: "component list set \<Rightarrow> (component list \<times> entry) list \<Rightarrow> bool" where
  "parents_first known [] = True"
| "parents_first known ((p, e) # es) =
    (butlast p \<in> known \<and> parents_first (if is_dir_entry e then insert p known else known) es)"

abbreviation entry_frames :: "nat list \<Rightarrow> component list \<times> entry \<Rightarrow> copy_frame list" where
  "entry_frames ns x \<equiv> fst (send_path_entry_frame_with_metadata ns (fst x) (snd x))"

abbreviation children :: "component list \<Rightarrow> (string \<times> entry) list \<Rightarrow> (component list \<times> entry) list" where
  "children rel es \<equiv> map (\<lambda>(name, e). (rel @ [Normal name], e)) es"

lemma parents_first_append:
  "parents_first known (xs @ ys)
    \<longleftrightarrow> parents_first known xs \<and> parents_first (known \<union> fst ` set (filter (is_dir_entry \<circ> snd) xs)) ys"
  by (induction known xs rule: parents_first.induct) auto

lemma children_parents_first: "rel \<in> known \<Longrightarrow> parents_first known (children rel es)"
  by (induction es arbitrary: known) auto

lemma dir_frames_children:
  "dir_frames ns rel es stack = (fs, stack', None)
    \<Longrightarrow> fs = concat (map (entry_frames ns) (children rel es))
      \<and> stack' = rev (filter (is_dir_entry \<circ> snd) (children rel es)) @ stack"
proof (induction ns rel es stack arbitrary: fs stack' rule: dir_frames.induct)
  case (2 ns rel name e es stack)
  obtain f err where h: "send_path_entry_frame_with_metadata ns (rel @ [Normal name]) e = (f, err)" by (meson surj_pair)
  obtain fs2 stack2 err2 where d: "dir_frames ns rel es (if is_dir_entry e then (rel @ [Normal name], e) # stack else stack)
      = (fs2, stack2, err2)" by (metis prod_cases3)
  from "2.prems" h d have "err = None" "err2 = None" "fs = f @ fs2" "stack' = stack2"
    by (auto simp del: send_path_entry_frame_with_metadata.simps split: option.splits)
  with "2.IH"[OF h[symmetric]] d h show ?case
    by (auto simp del: send_path_entry_frame_with_metadata.simps)
qed simp

lemma listing_entries_mset:
  "mset (listing_entries rel es)
    = mset (children rel es) + mset (concat (map (\<lambda>(p, e). entries_below p e) (filter (is_dir_entry \<circ> snd) (children rel es))))"
proof (induction es)
  case (Cons x es)
  obtain name e where x: "x = (name, e)" by (cases x)
  show ?case by (cases e) (simp_all add: x Cons.IH)
qed simp

lemma walk_order:
  "send_directory_contents_frames ns stack = (fs, None) \<Longrightarrow> fst ` set stack \<subseteq> known \<Longrightarrow>
    \<exists>order. mset order = mset (concat (map (\<lambda>(p, e). entries_below p e) stack))
      \<and> fs = concat (map (entry_frames ns) order) \<and> parents_first known order"
proof (induction ns stack arbitrary: fs known rule: send_directory_contents_frames.induct)
  case (2 ns rel mode mtime es stack)
  obtain fs1 stack1 err1 where d: "dir_frames ns rel es stack = (fs1, stack1, err1)" by (metis prod_cases3)
  obtain fs2 err2 where s: "send_directory_contents_frames ns stack1 = (fs2, err2)" by (meson surj_pair)
  from "2.prems"(1) d s have e: "err1 = None" "err2 = None" "fs = fs1 @ fs2" by (auto split: option.splits)
  let ?cs = "children rel es" and ?ds = "filter (is_dir_entry \<circ> snd) (children rel es)"
  from dir_frames_children d e have c: "fs1 = concat (map (entry_frames ns) ?cs)" "stack1 = rev ?ds @ stack" by auto
  have "fst ` set stack1 \<subseteq> known \<union> fst ` set ?ds" using "2.prems"(2) c(2) by auto
  from "2.IH"[OF d[symmetric] _ _ _ this] s e obtain order where
    o: "mset order = mset (concat (map (\<lambda>(p, e). entries_below p e) stack1))" "fs2 = concat (map (entry_frames ns) order)"
      "parents_first (known \<union> fst ` set ?ds) order" by auto
  have "mset (?cs @ order) = mset (concat (map (\<lambda>(p, e). entries_below p e) ((rel, DirEntry mode mtime es) # stack)))"
    using o(1) c(2) by (simp add: listing_entries_mset mset_concat rev_map[symmetric] sum_mset_sum_list[symmetric] del: sum_mset_sum_list)
  moreover have "fs = concat (map (entry_frames ns) (?cs @ order))" using e(3) c(1) o(2) by simp
  moreover have "parents_first known (?cs @ order)"
    using o(3) children_parents_first[of rel known es] "2.prems"(2) by (simp add: parents_first_append)
  ultimately show ?case by blast
qed (auto intro: exI[of _ "[]"])

text \<open>An entry that can be sent: its path is relative, it is a file read to its end, a link that can be
  read or a directory that can be listed.\<close>

definition sendable :: "nat list \<Rightarrow> component list \<times> entry \<Rightarrow> bool" where
  "sendable ns x \<longleftrightarrow> snd (send_path_entry_frame_with_metadata ns (fst x) (snd x)) = None
    \<and> (case snd x of BrokenDir _ _ \<Rightarrow> False | _ \<Rightarrow> True)"

lemma dir_frames_sendable:
  "list_all (sendable ns) (children rel es) \<Longrightarrow> snd (snd (dir_frames ns rel es stack)) = None"
proof (induction ns rel es stack rule: dir_frames.induct)
  case (2 ns rel name e es stack)
  obtain f err where h: "send_path_entry_frame_with_metadata ns (rel @ [Normal name]) e = (f, err)" by (meson surj_pair)
  with "2.prems" have n: "err = None" by (simp add: sendable_def del: send_path_entry_frame_with_metadata.simps)
  have "snd (snd (dir_frames ns rel es (if is_dir_entry e then (rel @ [Normal name], e) # stack else stack))) = None"
    using "2.IH"[OF h[symmetric] n] "2.prems" by simp
  with h n show ?case by (simp add: case_prod_unfold Let_def del: send_path_entry_frame_with_metadata.simps)
qed simp

lemma sendable_below:
  assumes "list_all (sendable ns) (listing_entries rel es)"
  shows "list_all (sendable ns) (children rel es)"
    "list_all (\<lambda>x. is_dir_entry (snd x) \<longrightarrow> sendable ns x \<and> list_all (sendable ns) (entries_below (fst x) (snd x))) (children rel es)"
  using assms by (induction es) auto

lemma sendable_dir: "is_dir_entry e \<Longrightarrow> sendable ns (p, e) \<Longrightarrow> \<exists>mode mtime es. e = DirEntry mode mtime es"
  by (cases e) (simp_all add: sendable_def)

lemma walk_sendable:
  "\<forall>x\<in>set stack. (\<exists>mode mtime es. snd x = DirEntry mode mtime es) \<and> list_all (sendable ns) (entries_below (fst x) (snd x))
    \<Longrightarrow> snd (send_directory_contents_frames ns stack) = None"
proof (induction ns stack rule: send_directory_contents_frames.induct)
  case (2 ns rel mode mtime es stack)
  have l: "list_all (sendable ns) (listing_entries rel es)" using "2.prems" by simp
  obtain fs1 stack1 err1 where d: "dir_frames ns rel es stack = (fs1, stack1, err1)" by (metis prod_cases3)
  with dir_frames_sendable[OF sendable_below(1)[OF l]] have n: "err1 = None" by (metis snd_conv)
  with dir_frames_children d have st: "stack1 = rev (filter (is_dir_entry \<circ> snd) (children rel es)) @ stack" by blast
  have "\<forall>x\<in>set stack1. (\<exists>mode mtime es. snd x = DirEntry mode mtime es) \<and> list_all (sendable ns) (entries_below (fst x) (snd x))"
  proof
    fix x assume "x \<in> set stack1"
    then consider "x \<in> set stack" | "x \<in> set (children rel es)" "is_dir_entry (snd x)"
      unfolding st set_append set_rev set_filter comp_def by blast
    then show "(\<exists>mode mtime es. snd x = DirEntry mode mtime es) \<and> list_all (sendable ns) (entries_below (fst x) (snd x))"
    proof cases
      case 1
      then show ?thesis using "2.prems" by simp
    next
      case 2
      with bspec[OF sendable_below(2)[OF l, unfolded list_all_iff] 2(1)] sendable_dir[of "snd x" ns "fst x"] show ?thesis by (simp add: list_all_iff)
    qed
  qed
  from "2.IH"[OF d[symmetric] _ n this] d n show ?case by (simp add: case_prod_unfold)
qed auto

text \<open>C26. A recursive upload of a tree whose entries can all be read sends every entry below the root exactly once, each with its
  frames in one piece and every directory before what it contains, framed by the root directory and
  the end of the stream: the walk with an explicit stack visits what a recursive walk visits.\<close>

theorem upload_tree_complete:
  assumes "list_all (sendable ns) (listing_entries [] es)"
  shows "\<exists>order. mset order = mset (listing_entries [] es) \<and> parents_first {[]} order
    \<and> send_path_copy_frames ns local_path (Some (DirEntry mode mtime es)) True skip
      = (BeginDirectory [] mode (mtime_or_zero mtime) # concat (map (entry_frames ns) order) @ [EndOfStream], None)"
proof -
  let ?stack = "[([], DirEntry mode mtime es)]"
  obtain fs err where w: "send_directory_contents_frames ns ?stack = (fs, err)" by (meson surj_pair)
  have "snd (send_directory_contents_frames ns ?stack) = None" using assms by (intro walk_sendable) simp
  with w have n: "err = None" by simp
  from walk_order[of ns ?stack fs "{[]}"] w n obtain order where
    o: "mset order = mset (listing_entries [] es)" "fs = concat (map (entry_frames ns) order)" "parents_first {[]} order" by auto
  then have "send_path_copy_frames ns local_path (Some (DirEntry mode mtime es)) True skip
      = (BeginDirectory [] mode (mtime_or_zero mtime) # concat (map (entry_frames ns) order) @ [EndOfStream], None)"
    using w n by (simp add: send_path_copy_frames_def Let_def del: send_directory_contents_frames.simps)
  with o show ?thesis by blast
qed

definition ex_tree :: "(string \<times> entry) list" where
  "ex_tree = [(''d'', DirEntry 493 None [(''e'', DirEntry 493 None [(''g'', FileEntry 420 None ''xyz'')]), (''l'', LinkEntry (Some ''a''))]),
    (''a'', FileEntry 420 (Some 7) ''hello'')]"

theorem upload_tree_complete_witness:
  "list_all (sendable []) (listing_entries [] ex_tree)
    \<and> (\<exists>order. mset order = mset (listing_entries [] ex_tree) \<and> parents_first {[]} order
      \<and> send_path_copy_frames [] ''/t'' (Some (DirEntry 493 None ex_tree)) True 0
        = (BeginDirectory [] 493 (mtime_or_zero None) # concat (map (entry_frames []) order) @ [EndOfStream], None))"
proof -
  have "relative_path_to_string [Normal ''d''] = Inr ''d''" "relative_path_to_string [Normal ''a''] = Inr ''a''"
    "relative_path_to_string [Normal ''d'', Normal ''e''] = Inr ''d/e''"
    "relative_path_to_string [Normal ''d'', Normal ''l''] = Inr ''d/l''"
    "relative_path_to_string [Normal ''d'', Normal ''e'', Normal ''g''] = Inr ''d/e/g''"
    by code_simp+
  then have s: "list_all (sendable []) (listing_entries [] ex_tree)" by (simp add: ex_tree_def sendable_def)
  with upload_tree_complete[OF s, of "''/t''" 493 None 0] show ?thesis by blast
qed

section \<open>Resumed uploads\<close>

lemma concat_read_chunks: "concat (read_chunks ns c) = c"
proof (induction ns c rule: read_chunks.induct)
  case (1 ns c)
  then show ?case by (subst read_chunks.simps) (auto simp: Let_def)
qed


lemma send_single_file:
  assumes "send_path_copy_frames ns local_path (Some (FileEntry mode mtime src)) False skip = (frames, None)"
    "skip \<le> length src"
  shows "\<exists>rel. frames = BeginFile rel mode (length src) (mtime_or_zero mtime) skip
    # map FileData (read_chunks ns (drop skip src)) @ [EndFile, EndOfStream]"
  using assms
  by (auto simp: send_path_copy_frames_def send_path_entry_frame_from_def Let_def
      split: option.splits if_splits sum.splits)

lemma probe_entry_offset:
  assumes "store_laws P view st" "tmp_path (cs_remote_path spec) \<in> P"
    and "0 < re_offset (probe_entry sha256 st spec s e)"
  shows "\<exists>c. view s (tmp_path (cs_remote_path spec)) = Some c \<and> length c = re_offset (probe_entry sha256 st spec s e)
    \<and> length c \<le> re_size e \<and> re_sha256 (probe_entry sha256 st spec s e) = sha256 c"
  using assms(3) law_read[OF assms(1,2)]
  by (auto simp: probe_entry_def Let_def split: if_splits option.splits)

text \<open>C17. A resumed upload of one file over SFTP to a path that is no directory publishes exactly the source file: the daemon probes the partial file and answers with its
  length and digest, the client skips that much only if the digest is that of its own beginning, sends the rest,
  and the daemon appends it to the partial file.  This holds if the partial file does not change between the probe and the
  transfer, the server reports its length, and the digest does not collide for it; otherwise a truncated file can be
  reported as a success (\<^verbatim>\<open>stale_partial_truncates\<close>).\<close>

theorem resumed_upload_exact:
  assumes laws: "store_laws {dest, tmp_path dest} view st" "len_total view st (tmp_path dest)"
    and sha: "\<And>c. view s0 (tmp_path dest) = Some c \<Longrightarrow> sha256 (take (length c) src) = sha256 c \<Longrightarrow> take (length c) src = c"
    and spec: "cs_remote_path spec = dest" "to_string_normalized (from_str dest) = dest" "\<not> cs_recursive spec"
      "so_is_dir st dest s0 \<noteq> Some True" "so_is_dir st dest s \<noteq> Some True"
      "cs_resume spec = [\<lparr>re_path = cs_source_name spec, re_offset = 0, re_size = length src, re_mtime = mt, re_sha256 = []\<rparr>]"
    and probe: "sftp_probe_upload_resume sha256 st spec s0 = (acks, spec')"
    and skip: "skip = upload_skip sha256 (Some (FileEntry mode mtime src)) (cs_source_name spec) (map resume_entry_to_rpc acks)"
    and same: "view s (tmp_path dest) = view s0 (tmp_path dest)"
    and frames: "send_path_copy_frames ns local_path (Some (FileEntry mode mtime src)) False skip = (frames, None)"
    and up: "upload st spec' frames s = (Inr (), s')"
  shows "view s' dest = Some src"
proof -
  let ?e = "\<lparr>re_path = cs_source_name spec, re_offset = 0, re_size = length src, re_mtime = mt, re_sha256 = []\<rparr>"
  let ?a = "probe_entry sha256 st spec s0 ?e"
  have p: "spec' = spec" "acks = [?a]"
    using probe spec by (auto simp: sftp_probe_upload_resume_def probe_spec_def remote_path_is_dir_def)
  have path: "re_path ?a = cs_source_name spec" by (simp add: probe_entry_def Let_def split: option.split)
  have sk: "skip = 0 \<or> (\<exists>c. view s (tmp_path dest) = Some c \<and> length c = skip \<and> 0 < skip \<and> skip \<le> length src \<and> take skip src = c)"
  proof (cases "skip = 0")
    case False
    with skip p path have k: "skip = re_offset ?a" "0 < re_offset ?a" "skip \<le> length src"
        "sha256 (take skip src) = re_sha256 ?a"
      by (auto simp: upload_skip_def resume_entry_to_rpc_def prefix_sha256_def split: if_splits)
    from probe_entry_offset[OF laws(1) _ k(2)] spec(1) obtain c where c: "view s0 (tmp_path dest) = Some c"
        "length c = skip" "re_sha256 ?a = sha256 c" using k(1) by auto
    with sha[OF c(1)] k same show ?thesis by auto
  qed simp
  then have "skip \<le> length src" by auto
  from send_single_file[OF frames this] obtain rel where f: "frames = BeginFile rel mode (length src) (mtime_or_zero mtime) skip
    # map FileData (read_chunks ns (drop skip src)) @ [EndFile, EndOfStream]" by blast
  have d: "dest = to_string_normalized (upload_path spec (from_str (cs_remote_path spec))
        (remote_path_is_dir st (from_str (cs_remote_path spec)) s) rel)"
    using spec by (simp add: upload_path_def remote_path_is_dir_def)
  have up': "upload st spec (take (length frames) (BeginFile rel mode (length src) (mtime_or_zero mtime) skip
    # map FileData (read_chunks ns (drop skip src)) @ [EndFile, EndOfStream])) s = (Inr (), s')"
    using up p f by simp
  have "0 < length frames" using f by simp
  with upload_stream[OF laws(1) d up'] \<open>skip \<le> length src\<close>
  obtain c where c: "resumes_from view st s (tmp_path dest) skip c" "view s' dest = Some (c @ drop skip src)"
    by (auto simp: published_def concat_read_chunks min_def)
  from sk show ?thesis
  proof (elim disjE exE conjE)
    assume "skip = 0"
    then show ?thesis using c by (simp add: resumes_from_def)
  next
    fix c' assume "view s (tmp_path dest) = Some c'" "length c' = skip" "0 < skip" "take skip src = c'"
    with c laws(2) have "c = take skip src" by (simp add: resumes_from_def)
    with c show ?thesis by simp
  qed
qed

definition ex_resume_spec :: copy_spec where
  "ex_resume_spec = ex_upload_spec\<lparr>cs_resume :=
    [\<lparr>re_path = ''f'', re_offset = 0, re_size = 4, re_mtime = 7, re_sha256 = []\<rparr>]\<rparr>"

lemma ex_upload_frames:
  "send_path_copy_frames [] ''/f'' (Some (FileEntry 420 (Some 7) ''abcd'')) False 2
    = ([BeginFile ''f'' 420 4 7 2, FileData ''cd'', EndFile, EndOfStream], None)"
proof -
  have "local_basename (components ''/f'') = Some ''f''" "relative_path_to_string (components ''f'') = Inr ''f''" by code_simp+
  then show ?thesis
    by (simp add: send_path_copy_frames_def send_path_entry_frame_from_def Let_def mtime_or_zero_def read_chunks.simps CHUNK_SIZE_def)
qed

theorem resumed_upload_exact_witness:
  "snd (upload mem_store ex_resume_spec [BeginFile ''f'' 420 4 7 2, FileData ''cd'', EndFile, EndOfStream]
      [''/d.xho_tmp'' \<mapsto> ''ab'']) ''/d'' = Some ''abcd''"
proof -
  let ?s = "[''/d.xho_tmp'' \<mapsto> ''ab'']" and ?src = "''abcd''"
  let ?fs = "[BeginFile ''f'' 420 4 7 2, FileData ''cd'', EndFile, EndOfStream]"
  let ?a = "[\<lparr>re_path = ''f'', re_offset = 2, re_size = 4, re_mtime = 7, re_sha256 = ''ab''\<rparr>]"
  have tmp: "tmp_path ''/d'' = ''/d.xho_tmp''" by (simp add: tmp_path_def)
  have p: "sftp_probe_upload_resume (\<lambda>x. x) mem_store ex_resume_spec ?s = (?a, ex_resume_spec)" by code_simp
  have k: "2 = upload_skip (\<lambda>x. x) (Some (FileEntry 420 (Some 7) ?src)) (cs_source_name ex_resume_spec) (map resume_entry_to_rpc ?a)"
    by code_simp
  have u: "upload mem_store ex_resume_spec ?fs ?s = (Inr (), snd (upload mem_store ex_resume_spec ?fs ?s))"
  proof -
    have "fst (upload mem_store ex_resume_spec ?fs ?s) = Inr ()" by code_simp
    then show ?thesis by (metis prod.collapse)
  qed
  have n: "to_string_normalized (from_str ''/d'') = ''/d''" by code_simp
  show ?thesis
    by (rule resumed_upload_exact[OF mem_store_laws mem_len_total _ _ n _ _ _ _ p k refl ex_upload_frames u])
      (simp_all add: tmp ex_resume_spec_def ex_upload_spec_def mem_store_def)
qed

text \<open>The daemon transfers fresh when the partial file lost the length that the client was told, but the
  client has already left the beginning out: the upload reports success and publishes the file
  without its first bytes.\<close>

theorem stale_partial_truncates:
  assumes "store_laws {dest, tmp_path dest} view st" "so_len st (tmp_path dest) s = None" "view s (tmp_path dest) = None"
    and "cs_remote_path spec = dest" "to_string_normalized (from_str dest) = dest" "\<not> cs_recursive spec"
      "so_is_dir st dest s \<noteq> Some True"
    and "0 < skip" "skip \<le> length src"
    and "send_path_copy_frames ns local_path (Some (FileEntry mode mtime src)) False skip = (frames, None)"
    and "upload st spec frames s = (Inr (), s')"
  shows "view s' dest = Some (drop skip src)"
proof -
  from send_single_file[OF assms(10,9)] obtain rel where f: "frames = BeginFile rel mode (length src) (mtime_or_zero mtime) skip
    # map FileData (read_chunks ns (drop skip src)) @ [EndFile, EndOfStream]" by blast
  have d: "dest = to_string_normalized (upload_path spec (from_str (cs_remote_path spec))
        (remote_path_is_dir st (from_str (cs_remote_path spec)) s) rel)"
    using assms(4-7) by (simp add: upload_path_def remote_path_is_dir_def)
  have up: "upload st spec (take (length frames) (BeginFile rel mode (length src) (mtime_or_zero mtime) skip
    # map FileData (read_chunks ns (drop skip src)) @ [EndFile, EndOfStream])) s = (Inr (), s')"
    using assms(11) f by simp
  have "0 < length frames" using f by simp
  with upload_stream[OF assms(1) d up] show ?thesis
    using assms(3) by (auto simp: published_def resumes_from_def concat_read_chunks)
qed

theorem stale_partial_truncates_witness:
  "snd (upload mem_store ex_resume_spec [BeginFile ''f'' 420 4 7 2, FileData ''cd'', EndFile, EndOfStream] Map.empty) ''/d''
    = Some ''cd''"
proof -
  let ?fs = "[BeginFile ''f'' 420 4 7 2, FileData ''cd'', EndFile, EndOfStream]"
  have u: "upload mem_store ex_resume_spec ?fs Map.empty = (Inr (), snd (upload mem_store ex_resume_spec ?fs Map.empty))"
  proof -
    have "fst (upload mem_store ex_resume_spec ?fs Map.empty) = Inr ()" by code_simp
    then show ?thesis by (metis prod.collapse)
  qed
  have n: "to_string_normalized (from_str ''/d'') = ''/d''" by code_simp
  have "snd (upload mem_store ex_resume_spec ?fs Map.empty) ''/d'' = Some (drop 2 ''abcd'')"
    by (rule stale_partial_truncates[OF mem_store_laws _ _ _ n _ _ _ _ ex_upload_frames u])
      (simp_all add: ex_resume_spec_def ex_upload_spec_def mem_store_def)
  then show ?thesis by simp
qed

section \<open>Resumed downloads\<close>

definition frame_answer :: "copy_frame \<Rightarrow> cli_input" where
  "frame_answer f = CliResponse (Some (copy_frame_response f))"

lemma cli_loop_frame:
  assumes "cs_direction spec = Download" "cl_writer c = Some w"
  shows "cli_loop env spec found (frame_answer f # ms) c s =
    (case writer_apply (ce_store env) f w s of
       (Some e, w', s') \<Rightarrow> (Some e, c\<lparr>cl_writer := Some w'\<rparr>, s')
     | (None, w', s') \<Rightarrow> cli_loop env spec found ms (c\<lparr>cl_writer := Some w'\<rparr>) s')"
proof -
  show ?thesis using assms copy_frame_roundtrip[of f]
    by (cases "writer_apply (ce_store env) f w s")
      (auto simp: frame_answer_def copy_frame_response_def cli_frame_def start_upload_def Let_def split: option.split)
qed

fun at_end :: "('s \<Rightarrow> local_path \<Rightarrow> string option) \<Rightarrow> 's \<Rightarrow> open_file \<Rightarrow> string \<Rightarrow> bool" where
  "at_end view s (AtPosition p k) c \<longleftrightarrow> view s p = Some c \<and> k = length c"
| "at_end view s (Appending p) c \<longleftrightarrow> view s p = Some c"

lemma at_end_view: "at_end view s f c \<Longrightarrow> view s (open_path f) = Some c"
  by (cases f) auto

text \<open>A writer that holds an open file at its end, and what it keeps.\<close>

definition writes :: "('s \<Rightarrow> local_path \<Rightarrow> string option) \<Rightarrow> 's \<Rightarrow> copy_download_writer \<Rightarrow> local_path \<Rightarrow> string \<Rightarrow> bool" where
  "writes view s w p c \<longleftrightarrow> (\<exists>f. dw_current_file w = Some f \<and> open_path f = p \<and> at_end view s f c)"

definition same_target :: "copy_download_writer \<Rightarrow> copy_download_writer \<Rightarrow> bool" where
  "same_target w w' \<longleftrightarrow> dw_resume w' = dw_resume w \<and> dw_dest w' = dw_dest w
    \<and> (dw_current_file w' = None \<or> map_option open_path (dw_current_file w') = map_option open_path (dw_current_file w))"

lemma same_target_trans: "same_target w w' \<Longrightarrow> same_target w' w'' \<Longrightarrow> same_target w w''"
  by (auto simp: same_target_def)

lemma same_target_refl [simp]: "same_target w w"
  by (simp add: same_target_def)

lemma only_at_trans: "only_at P view p s s' \<Longrightarrow> only_at P view p s' s'' \<Longrightarrow> only_at P view p s s''"
  by (simp add: only_at_def)

lemma only_at_refl [simp]: "only_at P view p s s"
  by (simp add: only_at_def)

lemma write_data_step:
  assumes laws: "store_laws P view st" "p \<in> P" and w: "writes view s w p c"
    and e: "write_data st d w s = (err, w', s')"
  shows "only_at P view p s s' \<and> same_target w w'
    \<and> (\<exists>n. view s' p = Some (c @ take n d)) \<and> (err = None \<longrightarrow> writes view s' w' p (c @ d))"
proof -
  from w obtain f where f: "dw_current_file w = Some f" "open_path f = p" "at_end view s f c" by (auto simp: writes_def)
  show ?thesis
  proof (cases f)
    case (AtPosition q k)
    with f have q: "q = p" "k = length c" "view s p = Some c" by auto
    obtain ok s1 where o: "so_write st p (length c) d s = (ok, s1)" by (meson surj_pair)
    from law_write[OF laws o] q e f AtPosition o show ?thesis
      by (cases ok) (auto simp: write_data_def write_at_append same_target_def writes_def)
  next
    case (Appending q)
    with f have q: "q = p" "view s p = Some c" by auto
    obtain ok s1 where o: "so_append st p d s = (ok, s1)" by (meson surj_pair)
    from law_append[OF laws o q(2)] q e f Appending o show ?thesis
      by (cases ok) (auto simp: write_data_def same_target_def writes_def)
  qed
qed

lemma flush_step:
  assumes laws: "store_laws P view st" "p \<in> P" and w: "writes view s w p c"
    and e: "flush_current st w s = (err, w', s')"
  shows "only_at P view p s s' \<and> same_target w w' \<and> dw_current_file w' = None
    \<and> (\<exists>n. view s' p = Some (take n c)) \<and> (err = None \<longrightarrow> view s' p = Some c)"
proof -
  from w obtain f where f: "dw_current_file w = Some f" "open_path f = p" "at_end view s f c" by (auto simp: writes_def)
  obtain ok s1 where o: "so_close st p s = (ok, s1)" by (meson surj_pair)
  from law_close[OF laws o] at_end_view[OF f(3)] f e o show ?thesis
    by (cases ok) (auto simp: flush_current_def same_target_def)
qed

text \<open>The rest of a file and the end of the stream, cut off anywhere and followed by whatever ends the
  loop.\<close>

lemma take_prefix_append: "\<exists>k. c @ take n d = take k (c @ d @ e)"
  by (rule exI[of _ "length c + min n (length d)"]) (simp add: min_def)

lemma cli_loop_frame_ok:
  assumes "cs_direction spec = Download" "cl_writer c = Some w" "writer_apply (ce_store env) f w s = (None, w1, s1)"
  shows "cli_loop env spec found (frame_answer f # ms) c s = cli_loop env spec found ms (c\<lparr>cl_writer := Some w1\<rparr>) s1"
  using assms by (simp add: cli_loop_frame)

definition ends_loop :: "cli_input \<Rightarrow> bool" where
  "ends_loop m \<longleftrightarrow> (\<exists>e. m = CliTransport e) \<or> (\<exists>e. m = CliResponse (Some (CopyComplete e)))"

lemma ends_loop_result:
  "ends_loop m \<Longrightarrow> \<exists>r. cli_loop env spec found [m] c s = (r, c, s)"
  by (auto simp: ends_loop_def)

lemma cli_loop_rest:
  assumes laws: "store_laws P view (ce_store env)" "p \<in> P"
    and dir: "cs_direction spec = Download" and w: "cl_writer c = Some w" "writes view s w p content"
    and fs: "fs = take n (map FileData ds @ [EndFile, EndOfStream])"
    and l: "cli_loop env spec found (map frame_answer fs @ [m]) c s = (r, c', s')"
    and m: "ends_loop m"
  shows "\<exists>w'. cl_writer c' = Some w' \<and> same_target w w' \<and> only_at P view p s s'
    \<and> (\<exists>k. view s' p = Some (take k (content @ concat ds)))
    \<and> (r = None \<and> length ds < n \<longrightarrow> view s' p = Some (content @ concat ds))"
  using w l fs
proof (induction ds arbitrary: c w s content fs n)
  case Nil
  note vp = Nil.prems(2)[unfolded writes_def]
  from Nil.prems(2) have vc: "view s p = Some content" by (auto simp: writes_def dest: at_end_view)
  show ?case
  proof (cases n)
    case 0
    with Nil ends_loop_result[OF m, of env spec found c s] vc show ?thesis by auto
  next
    case (Suc n')
    obtain err w1 s1 where fl: "flush_current (ce_store env) w s = (err, w1, s1)" by (metis prod_cases3)
    note st = flush_step[OF laws Nil.prems(2) fl]
    let ?w2 = "w1\<lparr>dw_incomplete_path := None\<rparr>" 
    show ?thesis
    proof (cases err)
      case (Some e)
      with Nil Suc fl st dir show ?thesis by (auto simp: cli_loop_frame)
    next
      case None
      have f2: "flush_current (ce_store env) ?w2 s1 = (None, ?w2, s1)" using st by (simp add: flush_current_def)
      let ?c = "c\<lparr>cl_writer := Some ?w2\<rparr>"
      have ap: "writer_apply (ce_store env) EndFile w s = (None, ?w2, s1)"
          "writer_apply (ce_store env) EndOfStream ?w2 s1 = (None, ?w2, s1)" using fl None f2 by simp_all
      obtain r2 where "cli_loop env spec found [m] ?c s1 = (r2, ?c, s1)"
        using ends_loop_result[OF m, of env spec found ?c s1] by blast
      then have "cli_loop env spec found (map frame_answer fs @ [m]) c s = (r2, ?c, s1)"
        using Nil.prems(1,4) Suc dir ap
        by (cases n') (simp_all add: cli_loop_frame_ok)
      with Nil.prems(3) st None show ?thesis by (auto simp: same_target_def)
    qed
  qed
next
  case (Cons d ds)
  show ?case
  proof (cases n)
    case 0
    from Cons.prems(2) have vc: "view s p = Some content" by (auto simp: writes_def dest: at_end_view)
    with 0 Cons ends_loop_result[OF m, of env spec found c s] show ?thesis
      by (auto intro: exI[of _ "length content"])
  next
    case (Suc n')
    obtain err w1 s1 where wd: "write_data (ce_store env) d w s = (err, w1, s1)" by (metis prod_cases3)
    note st = write_data_step[OF laws Cons.prems(2) wd]
    show ?thesis
    proof (cases err)
      case (Some e)
      with Cons.prems Suc wd st dir take_prefix_append[of content _ d "concat ds"] show ?thesis
        by (fastforce simp: cli_loop_frame)
    next
      case None
      let ?c = "c\<lparr>cl_writer := Some w1\<rparr>" and ?fs = "take n' (map FileData ds @ [EndFile, EndOfStream])"
      have "cli_loop env spec found (map frame_answer ?fs @ [m]) ?c s1 = (r, c', s')"
        using Cons.prems(1,3,4) Suc dir wd None by (simp add: cli_loop_frame_ok)
      from Cons.IH[OF _ _ this refl, of w1 "content @ d"] st None
      obtain w' where "cl_writer c' = Some w'" "same_target w1 w'" "only_at P view p s1 s'"
        "\<exists>k. view s' p = Some (take k (content @ d @ concat ds))"
        "r = None \<and> length ds < n' \<longrightarrow> view s' p = Some (content @ d @ concat ds)" by auto
      with st Suc show ?thesis by (auto intro: same_target_trans only_at_trans)
    qed
  qed
qed


lemma begin_resumed:
  assumes laws: "store_laws P view st" "rx_part ctx \<in> P" and w: "dw_resume w = Some ctx" "dw_current_file w = None"
    and b: "begin_download st rel sz mt start w s = (err, w', s')"
  shows "only_at P view (rx_part ctx) s s' \<and> dw_resume w' = Some ctx \<and> dw_dest w' = dw_dest w
    \<and> (case err of
         Some e \<Rightarrow> dw_current_file w' = None \<and> (view s' (rx_part ctx) = view s (rx_part ctx) \<or> view s' (rx_part ctx) = Some [])
       | None \<Rightarrow> writes view s' w' (rx_part ctx)
             (if 0 < start then case view s (rx_part ctx) of Some c \<Rightarrow> c | None \<Rightarrow> [] else [])
           \<and> (0 < start \<longrightarrow> start = rx_expected_offset ctx))"
proof (cases "0 < start")
  case True
  obtain ok s1 where o: "so_open st (rx_part ctx) s = (ok, s1)" by (meson surj_pair)
  from law_open[OF laws o] b w True o show ?thesis
    by (cases ok) (auto simp: begin_download_def Let_def writes_def split: if_splits option.splits)
next
  case False
  obtain ok s1 where o: "so_create st (rx_part ctx) s = (ok, s1)" by (meson surj_pair)
  from law_create[OF laws o] b w False o show ?thesis
    by (cases ok) (auto simp: begin_download_def Let_def writes_def)
qed

lemma download_file_frames:
  assumes "download ns spec (Some (FileEntry mode mtime content)) = (frames, err)"
    and "start = download_start (cs_resume spec) (copy_entry_name [] (cs_source_name spec) ''copy'') (FileEntry mode mtime content)"
  shows "\<exists>rel. frames = BeginFile rel mode (length content) (mtime_or_zero mtime) start
      # map FileData (read_chunks ns (drop start content)) @ [EndFile, EndOfStream] \<and> start \<le> length content"
  using assms by (auto simp: download_def file_frames_def download_start_def split: option.splits if_splits)

text \<open>A whole single-file download into the partial file, cut off anywhere.\<close>

lemma cli_loop_resumed:
  assumes laws: "store_laws P view (ce_store env)" "rx_part ctx \<in> P"
    and dir: "cs_direction spec = Download"
    and w: "cl_writer c = Some w" "dw_resume w = Some ctx" "dw_current_file w = None"
    and pre: "view s (rx_part ctx) = None \<or> (\<exists>k. view s (rx_part ctx) = Some (take k content))"
    and off: "0 < rx_expected_offset ctx \<Longrightarrow> \<exists>p. view s (rx_part ctx) = Some p \<and> length p = rx_expected_offset ctx"
    and st: "start \<le> length content"
    and l: "cli_loop env spec found (map frame_answer (take n (BeginFile rel mode (length content) mt start
        # map FileData (read_chunks ns (drop start content)) @ [EndFile, EndOfStream])) @ [m]) c s = (r, c', s')"
    and m: "ends_loop m"
  shows "\<exists>w'. cl_writer c' = Some w' \<and> dw_resume w' = Some ctx \<and> dw_dest w' = dw_dest w
    \<and> (dw_current_file w' = None
        \<or> map_option open_path (dw_current_file w') = Some (rx_part ctx) \<and> view s' (rx_part ctx) \<noteq> None)
    \<and> only_at P view (rx_part ctx) s s'
    \<and> (view s' (rx_part ctx) = None \<or> (\<exists>k. view s' (rx_part ctx) = Some (take k content)))
    \<and> (r = None \<and> length (read_chunks ns (drop start content)) + 2 \<le> n \<longrightarrow> view s' (rx_part ctx) = Some content)"
proof (cases n)
  case 0
  with l ends_loop_result[OF m, of env spec found c s] w pre show ?thesis by auto
next
  case (Suc n')
  let ?p = "rx_part ctx" and ?ds = "read_chunks ns (drop start content)"
  obtain err w1 s1 where b: "begin_download (ce_store env) rel (length content) mt start w s = (err, w1, s1)"
    by (metis prod_cases3)
  note bs = begin_resumed[OF laws w(2,3) b]
  have empty: "\<exists>k. [] = take k content" by (rule exI[of _ 0]) simp
  show ?thesis
  proof (cases err)
    case (Some e)
    with l Suc b bs w dir pre empty show ?thesis by (auto simp: cli_loop_frame)
  next
    case None
    let ?base = "if 0 < start then case view s ?p of Some c \<Rightarrow> c | None \<Rightarrow> [] else []"
    from bs None have wr: "writes view s1 w1 ?p ?base" by simp
    have base: "?base = take start content"
    proof (cases "0 < start")
      case True
      with bs None off obtain q where "view s ?p = Some q" "length q = start" by auto
      with pre st True show ?thesis by (auto simp: min_def split: if_splits)
    qed simp
    let ?c = "c\<lparr>cl_writer := Some w1\<rparr>"
    have "cli_loop env spec found (map frame_answer (take n' (map FileData ?ds @ [EndFile, EndOfStream])) @ [m]) ?c s1 = (r, c', s')"
      using l Suc b None dir w(1) by (simp add: cli_loop_frame_ok)
    from cli_loop_rest[OF laws dir _ wr refl this m] base
    obtain w' where w': "cl_writer c' = Some w'" "same_target w1 w'" "only_at P view ?p s1 s'"
        "\<exists>k. view s' ?p = Some (take k content)"
        "r = None \<and> length ?ds < n' \<longrightarrow> view s' ?p = Some content"
      by (auto simp: concat_read_chunks)
    from wr obtain f where "dw_current_file w1 = Some f" "open_path f = ?p" by (auto simp: writes_def)
    with w' bs None Suc show ?thesis by (auto simp: same_target_def intro: only_at_trans)
  qed
qed

lemma prepare_download_offset:
  assumes "store_laws P view (ce_store env)" "part \<in> P" "download_part_paths (pl_local_path plan) = (part, meta)"
    and "prepare_download env plan s = (hints, ctx)"
  shows "rx_part ctx = part" "rx_meta ctx = meta"
    "0 < rx_expected_offset ctx \<Longrightarrow> \<exists>p. view s part = Some p \<and> length p = rx_expected_offset ctx"
  using assms law_len[OF assms(1,2), of s]
  by (auto simp: prepare_download_def Let_def read_download_sidecar_def split: option.splits if_splits)

lemma run_copy_resumed:
  assumes "cs_direction (pl_spec plan) = Download" "\<not> cs_recursive (pl_spec plan)"
    "prepare_download env plan s = (hints, ctx)"
  shows "\<exists>c w. cl_writer c = Some w \<and> dw_resume w = Some ctx \<and> dw_current_file w = None
    \<and> dw_dest w = components (pl_local_path plan)
    \<and> run_copy env plan True t found answers s
        = cli_finish env plan False (cli_loop env (pl_spec plan) found answers c s)"
proof -
  let ?w = "writer_new (components (pl_local_path plan)) False (cs_source_name (pl_spec plan)) (Some ctx)"
  let ?c = "\<lparr>cl_sent = [copy_spec_to_rpc (pl_target plan) (pl_spec plan) t hints], cl_upload = None, cl_writer = Some ?w\<rparr>"
  have "run_copy env plan True t found answers s
      = cli_finish env plan False (cli_loop env (pl_spec plan) found answers ?c s)"
    using assms by (simp add: run_copy_def cli_begin_def Let_def)
  then show ?thesis by (intro exI[of _ ?c] exI[of _ ?w]) (simp add: writer_new_def)
qed

lemma cli_loop_stops:
  assumes "cs_direction spec = Download" "cl_writer c = Some w"
  shows "ends_loop m \<Longrightarrow> cli_loop env spec found (map frame_answer fs @ m # ms) c s = cli_loop env spec found (map frame_answer fs @ [m]) c s"
    and "m = CliTransport e \<or> m = CliResponse (Some (CopyErrorMsg e)) \<Longrightarrow> cli_loop env spec found (map frame_answer fs @ m # ms) c s \<noteq> (None, c', s')"
  using assms(2)
proof (induction fs arbitrary: c w s)
  case Nil
  {
    case 1
    then show ?case by (auto simp: ends_loop_def)
  next
    case 2
    then show ?case by auto
  }
next
  case (Cons f fs)
  {
    case 1
    with Cons show ?case by (simp add: cli_loop_frame[OF assms(1) 1(2)] split: prod.split option.split)
  next
    case 2
    with Cons show ?case by (auto simp: cli_loop_frame[OF assms(1) 2(2)] split: prod.splits option.splits)
  }
qed

lemma publish_view:
  assumes laws: "store_laws {dest, part, meta} view (ce_store env)" "distinct [dest, part, meta]"
    and w: "dw_resume w = Some ctx" "rx_part ctx = part" "rx_meta ctx = meta" "dw_dest w = dest"
    and p: "publish env w s = (None, s')"
  shows "view s' dest = view s part"
proof -
  obtain ok s1 where rn: "so_rename (ce_store env) part dest s = (ok, s1)" by (meson surj_pair)
  obtain ok2 s2 where rm: "so_remove (ce_store env) meta s1 = (ok2, s2)" by (meson surj_pair)
  from p w rn rm have ok: "ok" "s' = s2" by (auto simp: publish_def split: bool.splits)
  from law_rename[OF laws(1) _ _ _ rn] laws(2) ok have "view s1 dest = view s part" by auto
  moreover from law_remove[OF laws(1) _ rm] laws(2) have "view s2 dest = view s1 dest" by (auto simp: only_at_def)
  ultimately show ?thesis using ok by simp
qed

definition local_laws :: "('s \<Rightarrow> local_path \<Rightarrow> string option) \<Rightarrow> 's cli_env \<Rightarrow> copy_cli_plan \<Rightarrow> bool" where
  "local_laws view env plan \<longleftrightarrow>
    (let dest = components (pl_local_path plan); (part, meta) = download_part_paths (pl_local_path plan)
     in store_laws {dest, part, meta} view (ce_store env) \<and> distinct [dest, part, meta])"

definition part_of :: "copy_cli_plan \<Rightarrow> local_path" where
  "part_of plan = fst (download_part_paths (pl_local_path plan))"

definition dest_of :: "copy_cli_plan \<Rightarrow> local_path" where
  "dest_of plan = components (pl_local_path plan)"

text \<open>The partial file of a download holds a beginning of the remote file, or is not there.\<close>

definition part_ok :: "('s \<Rightarrow> local_path \<Rightarrow> string option) \<Rightarrow> copy_cli_plan \<Rightarrow> string \<Rightarrow> 's \<Rightarrow> bool" where
  "part_ok view plan content s \<longleftrightarrow>
    view s (part_of plan) = None \<or> (\<exists>k. view s (part_of plan) = Some (take k content))"

text \<open>Responses before the frames: information, and requests for a confirmation that is not declined.\<close>

fun answered :: "'s cli_env \<Rightarrow> copy_response \<Rightarrow> bool" where
  "answered env (CopyInfo _) \<longleftrightarrow> True"
| "answered env (CopyConfirmRequired i reason) \<longleftrightarrow> ce_confirm env reason \<noteq> Inr False"
| "answered env _ \<longleftrightarrow> False"

lemma cli_loop_answered:
  assumes "list_all (answered env) pre"
  shows "(\<exists>e c2. cli_loop env spec found (map (CliResponse \<circ> Some) pre @ ms) c s = (Some e, c2, s) \<and> cl_writer c2 = cl_writer c)
    \<or> (\<exists>c2. cli_loop env spec found (map (CliResponse \<circ> Some) pre @ ms) c s = cli_loop env spec found ms c2 s
        \<and> cl_writer c2 = cl_writer c)"
  using assms
proof (induction pre arbitrary: c)
  case (Cons p pre)
  show ?case
  proof (cases p)
    case (CopyInfo m)
    with Cons show ?thesis by simp
  next
    case (CopyConfirmRequired i reason)
    then have nd: "ce_confirm env reason \<noteq> Inr False" using Cons.prems by simp
    show ?thesis
    proof (cases "ce_confirm env reason")
      case (Inr allow)
      then have "allow" using nd by simp
      show ?thesis
      proof (cases "parse_execution_id (ce_parse_uuid env) i")
        case i: (Inr u)
        have l: "list_all (answered env) pre" using Cons.prems by simp
        from Cons.IH[OF l, of "c\<lparr>cl_sent := cl_sent c @ [copy_confirm_request u allow]\<rparr>"] show ?thesis
          using CopyConfirmRequired Inr i \<open>allow\<close> by simp
      qed (use CopyConfirmRequired Inr in simp)
    qed (use CopyConfirmRequired in simp)
  qed (use Cons.prems in simp_all)
qed auto

lemma run_resumed:
  assumes "local_laws view env plan" "part_ok view plan content s"
    and "cs_direction (pl_spec plan) = Download" "\<not> cs_recursive (pl_spec plan)"
    and "prepare_download env plan s = (hints, ctx)"
    and "download ns ((pl_spec plan)\<lparr>cs_resume := hints\<rparr>) (Some (FileEntry mode mtime content)) = (frames, None)"
    and "ends_loop m" "list_all (answered env) pre"
  obtains part meta r c w s1 where "part_of plan = part" "rx_part ctx = part" "rx_meta ctx = meta"
    "store_laws {dest_of plan, part, meta} view (ce_store env)" "distinct [dest_of plan, part, meta]"
    "run_copy env plan True t found (map (CliResponse \<circ> Some) pre @ map frame_answer (take n frames) @ m # ms) s = cli_finish env plan False (r, c, s1)"
    "cl_writer c = Some w" "dw_resume w = Some ctx" "dw_dest w = dest_of plan"
    "dw_current_file w = None \<or> map_option open_path (dw_current_file w) = Some part \<and> view s1 part \<noteq> None"
    "view s1 (dest_of plan) = view s (dest_of plan)"
    "view s1 part = None \<or> (\<exists>k. view s1 part = Some (take k content))"
    "r = None \<and> length frames \<le> n \<longrightarrow> view s1 part = Some content"
    "m = CliTransport e \<longrightarrow> r \<noteq> None"
proof -
  obtain part meta where pm: "download_part_paths (pl_local_path plan) = (part, meta)" by (meson surj_pair)
  let ?P = "{dest_of plan, part, meta}"
  have laws: "store_laws ?P view (ce_store env)" "distinct [dest_of plan, part, meta]"
    using assms(1) pm by (auto simp: local_laws_def Let_def dest_of_def)
  have ctx: "rx_part ctx = part" "rx_meta ctx = meta"
      "0 < rx_expected_offset ctx \<Longrightarrow> \<exists>p. view s (rx_part ctx) = Some p \<and> length p = rx_expected_offset ctx"
    using prepare_download_offset[OF laws(1) _ pm assms(5)] by auto
  define start where "start = download_start hints (copy_entry_name [] (cs_source_name (pl_spec plan)) ''copy'') (FileEntry mode mtime content)"
  from download_file_frames[OF assms(6), of start] obtain rel where
    f: "frames = BeginFile rel mode (length content) (mtime_or_zero mtime) start
      # map FileData (read_chunks ns (drop start content)) @ [EndFile, EndOfStream]" "start \<le> length content"
    by (auto simp: start_def)
  from run_copy_resumed[OF assms(3-5)] obtain c w where
    c: "cl_writer c = Some w" "dw_resume w = Some ctx" "dw_current_file w = None" "dw_dest w = components (pl_local_path plan)" and
    run: "run_copy env plan True t found (map (CliResponse \<circ> Some) pre @ map frame_answer (take n frames) @ m # ms) s
      = cli_finish env plan False (cli_loop env (pl_spec plan) found (map (CliResponse \<circ> Some) pre @ map frame_answer (take n frames) @ m # ms) c s)"
    by blast
  have pin: "rx_part ctx \<in> ?P" using ctx by simp
  have pre: "view s (rx_part ctx) = None \<or> (\<exists>k. view s (rx_part ctx) = Some (take k content))"
    using assms(2) pm ctx(1) by (simp add: part_ok_def part_of_def)
  have len: "length frames = length (read_chunks ns (drop start content)) + 3" using f(1) by simp
  have dest: "dest_of plan \<in> ?P" "dest_of plan \<noteq> part" using laws(2) by auto
  from cli_loop_answered[OF assms(8), of "pl_spec plan" found "map frame_answer (take n frames) @ m # ms" c s]
  consider (refused) e c2 where "cli_loop env (pl_spec plan) found (map (CliResponse \<circ> Some) pre @ map frame_answer (take n frames) @ m # ms) c s = (Some e, c2, s)" "cl_writer c2 = Some w"
    | (on) c2 r c1 s1 where "cli_loop env (pl_spec plan) found (map (CliResponse \<circ> Some) pre @ map frame_answer (take n frames) @ m # ms) c s = (r, c1, s1)" "cl_writer c2 = Some w"
        "cli_loop env (pl_spec plan) found (map frame_answer (take n frames) @ m # ms) c2 s = (r, c1, s1)"
    using c(1) by (metis prod_cases3)
  then show ?thesis
  proof cases
    case refused
    then show ?thesis using that[of part meta "Some e" c2 s w] pm ctx(1,2) laws run c pre by (simp add: part_of_def dest_of_def)
  next
    case on
    note l = trans[OF cli_loop_stops(1)[OF assms(3) on(2) assms(7), symmetric] on(3)]
    obtain w' where w': "cl_writer c1 = Some w'" "dw_resume w' = Some ctx" "dw_dest w' = dw_dest w"
        "dw_current_file w' = None \<or> map_option open_path (dw_current_file w') = Some part \<and> view s1 part \<noteq> None"
        "only_at ?P view part s s1" "view s1 part = None \<or> (\<exists>k. view s1 part = Some (take k content))"
        "r = None \<and> length (read_chunks ns (drop start content)) + 2 \<le> n \<longrightarrow> view s1 part = Some content"
      using cli_loop_resumed[OF laws(1) pin assms(3) on(2) c(2,3) pre ctx(3) f(2) l[unfolded f(1)] assms(7)] unfolding ctx(1) by blast
    with dest have "view s1 (dest_of plan) = view s (dest_of plan)" by (auto simp: only_at_def)
    moreover have "r = None \<and> length frames \<le> n \<longrightarrow> view s1 part = Some content" using w'(7) len by simp
    moreover have "m = CliTransport e \<longrightarrow> r \<noteq> None"
    proof (intro impI notI)
      assume m: "m = CliTransport e" and "r = None"
      show False by (rule notE[OF cli_loop_stops(2)[OF assms(3) on(2) disjI1[OF m]] on(3)[unfolded \<open>r = None\<close>]])
    qed
    ultimately show ?thesis using that[of part meta r c1 s1 w'] pm ctx(1,2) laws run on(1) c(4) w'(1-4,6) by (simp add: part_of_def dest_of_def)
  qed
qed

lemma resumed_download:
  assumes "local_laws view env plan" "part_ok view plan content s"
    and "cs_direction (pl_spec plan) = Download" "\<not> cs_recursive (pl_spec plan)"
    and "prepare_download env plan s = (hints, ctx)"
    and "download ns ((pl_spec plan)\<lparr>cs_resume := hints\<rparr>) (Some (FileEntry mode mtime content)) = (frames, None)"
    and "list_all (answered env) pre"
    and "run_copy env plan True t found (map (CliResponse \<circ> Some) pre @ map frame_answer frames @ CliResponse (Some (copy_complete_response msg)) # ms) s = (None, c', s')"
  shows "view s' (dest_of plan) = Some content"
proof -
  have fin: "ends_loop (CliResponse (Some (copy_complete_response msg)))"
    by (simp add: ends_loop_def copy_complete_response_def)
  have all: "take (length frames) frames = frames" by simp
  show ?thesis
  proof (rule run_resumed[OF assms(1-6) fin assms(7), where n = "length frames" and t = t and found = found])
    fix part meta r c w s1
    assume 1: "rx_part ctx = part" "rx_meta ctx = meta" "cl_writer c = Some w" "dw_resume w = Some ctx" "dw_dest w = dest_of plan"
      and laws: "store_laws {dest_of plan, part, meta} view (ce_store env)" "distinct [dest_of plan, part, meta]"
      and run: "run_copy env plan True t found (map (CliResponse \<circ> Some) pre @ map frame_answer (take (length frames) frames) @ CliResponse (Some (copy_complete_response msg)) # ms) s
        = cli_finish env plan False (r, c, s1)"
      and v: "r = None \<and> length frames \<le> length frames \<longrightarrow> view s1 part = Some content"
    from run assms(8) have fi: "cli_finish env plan False (r, c, s1) = (None, c', s')" unfolding all by simp
    then have "r = None" using 1(3) by (cases r) (auto simp: cli_finish_def split: prod.splits)
    with fi 1(3) have "publish env w s1 = (None, s')" by (auto simp: cli_finish_def split: prod.splits option.splits)
    from publish_view[OF laws 1(4) 1(1,2,5) this] v \<open>r = None\<close> show ?thesis by simp
  qed
qed

text \<open>C5. A download of one file with \<^verbatim>\<open>--resume\<close> that reports success has published exactly the remote file at the destination, if
  the partial file of an earlier attempt held a beginning of it or was absent, the daemon sends the whole stream of frames that the gateway makes of the file, and the
  user does not decline a confirmation: whether the daemon
  accepts the offset of the resume file, or the size or time changed and it sends everything.  Before the frames
  the daemon may inform and ask for confirmation.\<close>

theorem resumed_download_exact:
  assumes "local_laws view env plan" "part_ok view plan content s"
    and "cs_direction (pl_spec plan) = Download" "\<not> cs_recursive (pl_spec plan)"
    and "prepare_download env plan s = (hints, ctx)"
    and "download ns ((pl_spec plan)\<lparr>cs_resume := hints\<rparr>) (Some (FileEntry mode mtime content)) = (frames, None)"
    and "list_all (answered env) pre"
    and "run_copy env plan True t found (map (CliResponse \<circ> Some) pre @ map frame_answer frames @ CliResponse (Some (copy_complete_response msg)) # ms) s = (None, c', s')"
  shows "view s' (dest_of plan) = Some content"
  by (rule resumed_download[OF assms])

definition ex_plan :: copy_cli_plan where
  "ex_plan = \<lparr>pl_target = ''web'', pl_spec = \<lparr>cs_direction = Download, cs_remote_path = ''/r'', cs_recursive = False,
     cs_source_name = ''r'', cs_resume = []\<rparr>, pl_local_path = ''/l''\<rparr>"

definition ex_env :: "(local_path \<rightharpoonup> string) cli_env" where
  "ex_env = \<lparr>ce_store = mem_store, ce_sha256 = (\<lambda>x. x), ce_write_sidecar = (\<lambda>_. ''meta''),
     ce_read_sidecar = (\<lambda>_. Some \<lparr>sc_target = ''web'', sc_remote_path = ''/r'', sc_relative_path = ''r'',
       sc_offset = 2, sc_size = 4, sc_mtime = 7\<rparr>),
     ce_write_upload = (\<lambda>_. ''meta''), ce_read_upload = (\<lambda>_. None), ce_confirm = (\<lambda>_. Inr True),
     ce_auth = (\<lambda>_ _. Inl ''no terminal''), ce_parse_uuid = Some, ce_reads = []\<rparr>"

definition ex_files :: "local_path \<rightharpoonup> string" where
  "ex_files = [components ''/l.part'' \<mapsto> ''ab'', components ''/l.part.meta'' \<mapsto> ''meta'', components ''/l'' \<mapsto> ''old'']"

definition ex_hints :: "resume_entry list" where
  "ex_hints = [\<lparr>re_path = ''r'', re_offset = 2, re_size = 4, re_mtime = 7, re_sha256 = []\<rparr>]"

definition ex_ctx :: download_resume_ctx where
  "ex_ctx = \<lparr>rx_part = components ''/l.part'', rx_meta = components ''/l.part.meta'', rx_expected_offset = 2,
     rx_target = ''web'', rx_remote_path = ''/r''\<rparr>"

definition ex_frames :: "copy_frame list" where
  "ex_frames = [BeginFile ''r'' 420 4 7 2, FileData ''cd'', EndFile, EndOfStream]"

lemma mem_local_laws:
  assumes "ce_store env = mem_store"
  shows "local_laws (\<lambda>s. s) env ex_plan"
proof -
  have "distinct [components ''/l'', components ''/l.part'', components ''/l.part.meta'']" by code_simp
  then show ?thesis using assms by (auto simp: local_laws_def ex_plan_def download_part_paths_def mem_store_laws)
qed

lemma ex_local_laws: "local_laws (\<lambda>s. s) ex_env ex_plan"
  by (rule mem_local_laws) (simp add: ex_env_def)

lemma ex_part: "components ''/l.part'' \<noteq> components ''/l.part.meta''" "components ''/l.part'' \<noteq> components ''/l''"
  by code_simp+

lemma ex_part_ok: "part_ok (\<lambda>s. s) ex_plan ''abcd'' ex_files"
proof -
  have "ex_files (part_of ex_plan) = Some (take 2 ''abcd'')" by code_simp
  then show ?thesis unfolding part_ok_def by blast
qed

lemma ex_prepared: "prepare_download ex_env ex_plan ex_files = (ex_hints, ex_ctx)"
  by code_simp

lemma ex_download:
  "download [] ((pl_spec ex_plan)\<lparr>cs_resume := ex_hints\<rparr>) (Some (FileEntry 420 (Some 7) ''abcd'')) = (ex_frames, None)"
proof -
  have "copy_entry_name [] ''r'' ''copy'' = ''r''" "to_string_normalized (from_str ''r'') = ''r''" by code_simp+
  then show ?thesis
    by (simp add: download_def ex_plan_def ex_hints_def ex_frames_def download_start_def file_frames_def mtime_or_zero_def
        read_chunks.simps CHUNK_SIZE_def)
qed

theorem resumed_download_exact_witness:
  "snd (snd (run_copy ex_env ex_plan True 0 None
    (map (CliResponse \<circ> Some) [CopyInfo ''alias''] @ map frame_answer ex_frames @ CliResponse (Some (copy_complete_response ''ok'')) # []) ex_files)) (dest_of ex_plan) = Some ''abcd''"
proof -
  let ?r = "run_copy ex_env ex_plan True 0 None
    (map (CliResponse \<circ> Some) [CopyInfo ''alias''] @ map frame_answer ex_frames @ CliResponse (Some (copy_complete_response ''ok'')) # []) ex_files"
  have "fst ?r = None" by code_simp
  then have "?r = (None, fst (snd ?r), snd (snd ?r))" by (metis prod.collapse)
  from resumed_download_exact[OF ex_local_laws ex_part_ok _ _ ex_prepared ex_download _ this] show ?thesis
    by (simp add: ex_plan_def)
qed

lemma handle_failure_view:
  assumes laws: "store_laws {dest, part, meta} view (ce_store env)" "distinct [dest, part, meta]"
    and w: "dw_resume w = Some ctx" "rx_part ctx = part" "rx_meta ctx = meta"
      "dw_current_file w = None \<or> map_option open_path (dw_current_file w) = Some part \<and> view s part \<noteq> None"
    and h: "handle_failure env w s = (w', s')"
  shows "view s' dest = view s dest
    \<and> (view s' part = view s part \<or> (\<exists>c n. view s part = Some c \<and> view s' part = Some (take n c)))"
proof -
  obtain e w1 s1 where fl: "flush_current (ce_store env) w s = (e, w1, s1)" by (metis prod_cases3)
  have a: "view s1 dest = view s dest \<and> (view s1 part = view s part
      \<or> (\<exists>c n. view s part = Some c \<and> view s1 part = Some (take n c)))"
  proof (cases "dw_current_file w")
    case None
    with fl show ?thesis by (simp add: flush_current_def)
  next
    case (Some f)
    obtain ok s2 where cl: "so_close (ce_store env) part s = (ok, s2)" by (meson surj_pair)
    with fl Some w(4) have "s1 = s2" by (auto simp: flush_current_def)
    with law_close[OF laws(1) _ cl] laws(2) w(4) Some show ?thesis by (auto simp: only_at_def)
  qed
  have m: "view s2 q = view s1 q" if "write_file (ce_store env) meta d s1 = (ok, s2)" "q = dest \<or> q = part" for d ok s2 q
  proof -
    obtain ok1 s3 where c: "so_create (ce_store env) meta s1 = (ok1, s3)" by (meson surj_pair)
    obtain ok2 s4 where wr: "so_write (ce_store env) meta 0 d s3 = (ok2, s4)" by (meson surj_pair)
    from law_create[OF laws(1) _ c] law_write[OF laws(1) _ wr] that c wr laws(2) show ?thesis
      by (cases ok1) (auto simp: write_file_def only_at_def)
  qed
  obtain ok s2 where wf: "write_file (ce_store env) meta (ce_write_sidecar env \<lparr>sc_target = rx_target ctx, sc_remote_path = rx_remote_path ctx,
       sc_relative_path = dw_current_relative_path w1, sc_offset = dw_applied w1,
       sc_size = dw_current_size w1, sc_mtime = dw_current_mtime w1\<rparr>) s1 = (ok, s2)" by (meson surj_pair)
  have "s' = s1 \<or> s' = s2" using h w(1,3) fl wf by (auto simp: handle_failure_def Let_def split: if_splits)
  with a m[OF wf] show ?thesis by auto
qed

text \<open>A download with resume that is cut off after any number of frames fails, leaves the destination as
  it was and leaves a beginning of the remote file as partial file, so that the next attempt starts under the same conditions.\<close>

theorem interrupted_download_keeps_prefix:
  assumes "local_laws view env plan" "part_ok view plan content s"
    and "cs_direction (pl_spec plan) = Download" "\<not> cs_recursive (pl_spec plan)"
    and "prepare_download env plan s = (hints, ctx)"
    and "download ns ((pl_spec plan)\<lparr>cs_resume := hints\<rparr>) (Some (FileEntry mode mtime content)) = (frames, None)"
    and "list_all (answered env) pre"
    and "run_copy env plan True t found (map (CliResponse \<circ> Some) pre @ map frame_answer (take n frames) @ CliTransport e # ms) s = (r, c', s')"
  shows "r \<noteq> None \<and> part_ok view plan content s' \<and> view s' (dest_of plan) = view s (dest_of plan)"
proof -
  have fin: "ends_loop (CliTransport e)" by (simp add: ends_loop_def)
  show ?thesis
  proof (rule run_resumed[OF assms(1-6) fin assms(7), where n = n and t = t and found = found and e = e])
    fix part meta r1 c w s1
    assume 1: "part_of plan = part" "rx_part ctx = part" "rx_meta ctx = meta" "cl_writer c = Some w" "dw_resume w = Some ctx"
        "dw_current_file w = None \<or> map_option open_path (dw_current_file w) = Some part \<and> view s1 part \<noteq> None"
      and laws: "store_laws {dest_of plan, part, meta} view (ce_store env)" "distinct [dest_of plan, part, meta]"
      and run: "run_copy env plan True t found (map (CliResponse \<circ> Some) pre @ map frame_answer (take n frames) @ CliTransport e # ms) s = cli_finish env plan False (r1, c, s1)"
      and v: "view s1 (dest_of plan) = view s (dest_of plan)" "view s1 part = None \<or> (\<exists>k. view s1 part = Some (take k content))"
      and f: "CliTransport e = CliTransport e \<longrightarrow> r1 \<noteq> None"
    obtain w2 s2 where hf: "handle_failure env w s1 = (w2, s2)" by (meson surj_pair)
    from run f 1(4) hf assms(8) have "s' = s2" "r \<noteq> None" by (auto simp: cli_finish_def)
    with handle_failure_view[OF laws 1(5,2,3,6) hf] v 1(1) show ?thesis
      by (auto simp: part_ok_def take_take)
  qed
qed


theorem interrupted_download_keeps_prefix_witness:
  "part_ok (\<lambda>s. s) ex_plan ''abcd'' (snd (snd (run_copy ex_env ex_plan True 0 None
    (map (CliResponse \<circ> Some) [CopyInfo ''alias''] @ map frame_answer (take 2 ex_frames) @ CliTransport ''reset'' # []) ex_files)))"
proof -
  let ?r = "run_copy ex_env ex_plan True 0 None
    (map (CliResponse \<circ> Some) [CopyInfo ''alias''] @ map frame_answer (take 2 ex_frames) @ CliTransport ''reset'' # []) ex_files"
  have "?r = (fst ?r, fst (snd ?r), snd (snd ?r))" by simp
  from interrupted_download_keeps_prefix[OF ex_local_laws ex_part_ok _ _ ex_prepared ex_download _ this] show ?thesis
    by (simp add: ex_plan_def)
qed

text \<open>Declining the confirmation of a download ends the loop like a completed transfer: a partial file
  left by an earlier attempt is renamed over the destination, and the command reports success.\<close>

theorem declined_download_publishes_partial:
  assumes "local_laws view env plan" "view s (part_of plan) = Some old"
    and "cs_direction (pl_spec plan) = Download" "\<not> cs_recursive (pl_spec plan)"
    and "ce_confirm env reason = Inr False" "parse_execution_id (ce_parse_uuid env) i = Inr u"
    and "run_copy env plan True t found (CliResponse (Some (CopyConfirmRequired i reason)) # answers) s = (None, c', s')"
  shows "view s' (dest_of plan) = Some old"
proof -
  obtain part meta where pm: "download_part_paths (pl_local_path plan) = (part, meta)" by (meson surj_pair)
  obtain hints ctx where p: "prepare_download env plan s = (hints, ctx)" by (meson surj_pair)
  have laws: "store_laws {dest_of plan, part, meta} view (ce_store env)" "distinct [dest_of plan, part, meta]"
    using assms(1) pm by (auto simp: local_laws_def Let_def dest_of_def)
  have ctx: "rx_part ctx = part" "rx_meta ctx = meta" using prepare_download_offset[OF laws(1) _ pm p] by auto
  from run_copy_resumed[OF assms(3,4) p] obtain c w where
    c: "cl_writer c = Some w" "dw_resume w = Some ctx" "dw_dest w = components (pl_local_path plan)" and
    run: "run_copy env plan True t found (CliResponse (Some (CopyConfirmRequired i reason)) # answers) s
      = cli_finish env plan False (cli_loop env (pl_spec plan) found (CliResponse (Some (CopyConfirmRequired i reason)) # answers) c s)"
    by blast
  have "publish env w s = (None, s')"
    using assms(5-7) run c(1) by (auto simp: cli_finish_def split: prod.splits option.splits)
  from publish_view[OF laws c(2) ctx _ this] c(3) assms(2) pm show ?thesis by (simp add: dest_of_def part_of_def)
qed

theorem declined_download_publishes_partial_witness:
  "snd (snd (run_copy (ex_env\<lparr>ce_confirm := \<lambda>_. Inr False\<rparr>) ex_plan True 0 None [CliResponse (Some (CopyConfirmRequired ''id'' ''sensitive''))] ex_files))
    (dest_of ex_plan) = Some ''ab''"
proof -
  let ?r = "run_copy (ex_env\<lparr>ce_confirm := \<lambda>_. Inr False\<rparr>) ex_plan True 0 None [CliResponse (Some (CopyConfirmRequired ''id'' ''sensitive''))] ex_files"
  have "fst ?r = None" by code_simp
  then have r: "?r = (None, fst (snd ?r), snd (snd ?r))" by (metis prod.collapse)
  have p: "ex_files (part_of ex_plan) = Some ''ab''" by code_simp
  show ?thesis
    by (rule declined_download_publishes_partial[OF mem_local_laws p _ _ _ _ r, where u = "''id''"])
      (simp_all add: ex_plan_def ex_env_def parse_execution_id_def)
qed

end
