(* ===== verification/Copy_Service.thy ===== *)
theory Copy_Service
  imports Execution Copy_Client
begin

text \<open>
  The copy RPC of the daemon (\<^verbatim>\<open>daemon/mod.rs\<close>: \<^verbatim>\<open>copy\<close>,
  \<^verbatim>\<open>wait_for_copy_confirmation\<close>; \<^verbatim>\<open>daemon/session/mod.rs\<close>: \<^verbatim>\<open>copy_via_session\<close>,
  \<^verbatim>\<open>probe_upload_resume\<close>), with the worlds and schedules of \<^verbatim>\<open>Execution\<close>.

  The copy and the probe of a gateway are dispatched through its trait object and are arguments:
  the frames a download emits, and the error.  The task that relays the frames of a download to the
  client runs beside the loop and may still send after the loop has ended; it is part of the state.
\<close>

type_synonym copy_world = "(copy_request, copy_response) world"

record 'sec copy_env = "'sec exec_env" +
  en_probe :: "string \<Rightarrow> string \<Rightarrow> copy_spec \<Rightarrow> (gateway_error + resume_entry list) \<times> copy_spec"
  en_copy :: "string \<Rightarrow> string \<Rightarrow> copy_spec \<Rightarrow> copy_frame list \<Rightarrow> copy_frame list \<times> gateway_error option"

section \<open>Confirmation and review\<close>

definition wait_for_copy_confirmation ::
  "(string \<Rightarrow> string option) \<Rightarrow> string \<Rightarrow> string \<Rightarrow> copy_world \<Rightarrow> (string + unit) \<times> copy_world" where
  "wait_for_copy_confirmation parse_uuid execution_id reason w =
    (case send_msg (copy_confirm_required_response execution_id reason) w of
       None \<Rightarrow> (Inl ''copy client stream closed'', w)
     | Some w \<Rightarrow>
         (case next_message w of
            (Inl e, w) \<Rightarrow> (Inl e, w)
          | (Inr None, w) \<Rightarrow> (Inl ''client disconnected before copy confirmation'', w)
          | (Inr (Some (Some (CopyConfirm i allow))), w) \<Rightarrow>
              (case parse_execution_id parse_uuid i of
                 Inl e \<Rightarrow> (Inl e, w)
               | Inr response_id \<Rightarrow>
                   (if response_id = execution_id \<and> allow then Inr () else Inl ''copy not confirmed'', w))
          | (Inr (Some _), w) \<Rightarrow> (Inl ''unexpected request while awaiting copy confirmation'', w)))"

definition copy_detail :: "copy_spec \<Rightarrow> operation_detail" where
  "copy_detail spec = CopyDetail (cs_direction spec) (cs_remote_path spec) (cs_recursive spec) (cs_source_name spec)"

definition copy_operation :: "'sec copy_env \<Rightarrow> caller \<Rightarrow> string \<Rightarrow> nat \<Rightarrow> route \<Rightarrow> operation" where
  "copy_operation env c target_input timeout_ms r =
    \<lparr>op_kind = OpCopy, op_caller = c, op_route = r,
     op_gateway_kind = map_option gv_kind (find_gateway_any (en_view env) (gateway_name r)),
     op_execution_id = en_uuid env, op_target_input = target_input, op_timeout_ms = timeout_ms\<rparr>"

text \<open>\<^verbatim>\<open>Inr False\<close> is the return after a denial.\<close>

definition enforce_copy ::
  "'sec copy_env \<Rightarrow> operation \<Rightarrow> enforced \<times> copy_world \<Rightarrow> (string + bool) \<times> copy_world" where
  "enforce_copy env o' decision =
    (case decision of
       (Proceed, w) \<Rightarrow> (Inr True, w)
     | (ConfirmFirst reason, w) \<Rightarrow>
         (case wait_for_copy_confirmation (en_parse_uuid env) (en_uuid env) reason w of
            (Inl e, w) \<Rightarrow> (Inl e, w)
          | (Inr _, w) \<Rightarrow> (Inr True, w))
     | (Denied reason, w) \<Rightarrow>
         (let w = audit_record (\<lambda>st i. audit_event_result st i o' ''denied'' None (Some reason)) w
          in case send_msg (copy_error_response (''copy denied: '' @ reason)) w of
               None \<Rightarrow> (Inl ''copy client stream closed'', w)
             | Some w \<Rightarrow> (Inr False, w)))"

definition copy_prologue ::
  "'sec copy_env \<Rightarrow> caller \<Rightarrow> string \<Rightarrow> copy_spec \<Rightarrow> nat \<Rightarrow> copy_world \<Rightarrow> (string + operation option) \<times> copy_world" where
  "copy_prologue env c target_input spec timeout_ms w =
    (case resolve_target_with_merged_view (en_config env) (en_view env) target_input of
       Inl e \<Rightarrow> (Inl (en_error_text env e), w)
     | Inr res \<Rightarrow>
         (case rr_routes res of
            [] \<Rightarrow> (Inl ''no resolved target candidates'', w)
          | r # _ \<Rightarrow>
              (case (case rr_warning res of None \<Rightarrow> Some w | Some m \<Rightarrow> send_msg (copy_info_response m) w) of
                 None \<Rightarrow> (Inl ''copy client stream closed'', w)
               | Some w \<Rightarrow>
                   (let o' = copy_operation env c target_input timeout_ms r
                    in case enforce_copy env o'
                              (run_review (en_llm env) (en_review env) o' (copy_detail spec) (audit_start o' (copy_detail spec) w)) of
                         (Inl e, w) \<Rightarrow> (Inl e, w)
                       | (Inr False, w) \<Rightarrow> (Inr None, w)
                       | (Inr True, w) \<Rightarrow> (Inr (Some o'), w)))))"

section \<open>Probe and transfer\<close>

definition probe_upload_resume ::
  "'sec copy_env \<Rightarrow> route \<Rightarrow> copy_spec \<Rightarrow> (string + resume_entry list) \<times> copy_spec" where
  "probe_upload_resume env r spec =
    (case gateway_with_capability (en_view env) r cap_copy of
       Inl e \<Rightarrow> (Inl e, spec)
     | Inr _ \<Rightarrow>
         (case en_probe env (gateway_name r) (end_target r) spec of
            (Inl e, spec) \<Rightarrow> (Inl (user_message e), spec)
          | (Inr es, spec) \<Rightarrow> (Inr es, spec)))"

definition resume_ack ::
  "'sec copy_env \<Rightarrow> route \<Rightarrow> copy_spec \<Rightarrow> copy_world \<Rightarrow> (string + copy_spec) \<times> copy_world" where
  "resume_ack env r spec w =
    (if cs_direction spec = Upload \<and> cs_resume spec \<noteq> []
     then
       (let (found, spec) = probe_upload_resume env r spec;
            effective = (case found of Inr es \<Rightarrow> es | Inl _ \<Rightarrow> map (\<lambda>e. e\<lparr>re_offset := 0\<rparr>) (cs_resume spec));
            spec = spec\<lparr>cs_resume := effective\<rparr>
        in case send_msg (copy_resume_ack_response effective) w of
             None \<Rightarrow> (Inl ''copy client stream closed'', w)
           | Some w \<Rightarrow> (Inr spec, w))
     else (Inr spec, w))"

text \<open>What the task that reads the client's requests hands to an upload.\<close>

fun upload_frames :: "copy_request inbound_item list \<Rightarrow> copy_frame list" where
  "upload_frames [] = []"
| "upload_frames (StreamError e # ms) = []"
| "upload_frames (Message (Some (CopyFrameMsg m)) # ms) =
    (case copy_frame_from_rpc m of
       Inl e \<Rightarrow> []
     | Inr f \<Rightarrow> if f = EndOfStream then [f] else f # upload_frames ms)"
| "upload_frames (Message q # ms) = upload_frames ms"

definition copy_via_session ::
  "'sec copy_env \<Rightarrow> route \<Rightarrow> copy_spec \<Rightarrow> copy_frame list \<Rightarrow> copy_frame list \<times> string option" where
  "copy_via_session env r spec uploaded =
    (case gateway_with_capability (en_view env) r cap_copy of
       Inl e \<Rightarrow> ([], Some e)
     | Inr _ \<Rightarrow>
         (case en_copy env (gateway_name r) (end_target r) spec uploaded of
            (fs, err) \<Rightarrow> (fs, map_option user_message err)))"

section \<open>The loop\<close>

text \<open>The frames the copy task will still emit and how it then ends, the channel of frames (16) and
  whether the relay task still runs.\<close>

datatype copy_end = CopyOk | CopyFails string | CopyPanics string

record copy_state =
  ct_pending :: "copy_frame list"
  ct_end :: copy_end
  ct_queue :: "copy_frame list"
  ct_relay :: bool
  ct_expired :: bool

datatype copy_choice = CopyEmits | RelaySends | CopyTimePasses | OnCopyTimeout | OnCopyEnd | OnRelayEnd

text \<open>The loop, the wait for the relay behind a successful transfer, and the time after the handler
  has ended, when the relay may still hold frames.\<close>

datatype copy_phase = CopyRunning | CopyRelaying | CopyEnded

definition copy_init :: "copy_direction \<Rightarrow> copy_frame list \<times> string option \<Rightarrow> copy_state" where
  "copy_init d task =
    \<lparr>ct_pending = fst task, ct_end = (case snd task of None \<Rightarrow> CopyOk | Some e \<Rightarrow> CopyFails e),
     ct_queue = [], ct_relay = (d = Download), ct_expired = False\<rparr>"

text \<open>The last response of the handler; if it cannot be sent, neither can the report of that error.\<close>

definition copy_last :: "copy_response \<Rightarrow> copy_world \<Rightarrow> copy_world" where
  "copy_last p w =
    (case send_msg p w of
       Some w \<Rightarrow> w
     | None \<Rightarrow> try_send (copy_error_response ''copy client stream closed'') w)"

definition relay_send :: "copy_state \<Rightarrow> copy_world \<Rightarrow> (copy_state \<times> copy_world) option" where
  "relay_send l w =
    (case ct_queue l of
       [] \<Rightarrow> None
     | f # fs \<Rightarrow>
         if \<not> ct_relay l then None
         else
           (case send_msg (copy_frame_response f) w of
              None \<Rightarrow> Some (l\<lparr>ct_queue := [], ct_relay := False\<rparr>, w)
            | Some w \<Rightarrow>
                Some (if f = EndOfStream then l\<lparr>ct_queue := [], ct_relay := False\<rparr> else l\<lparr>ct_queue := fs\<rparr>, w)))"

definition copy_emit :: "copy_state \<Rightarrow> copy_state option" where
  "copy_emit l =
    (case ct_pending l of
       [] \<Rightarrow> None
     | f # fs \<Rightarrow>
         if \<not> ct_relay l then Some (l\<lparr>ct_pending := [], ct_end := CopyFails ''download copy frame stream closed''\<rparr>)
         else if length (ct_queue l) < 16 then Some (l\<lparr>ct_pending := fs, ct_queue := ct_queue l @ [f]\<rparr>)
         else None)"

definition copy_completed :: "operation \<Rightarrow> copy_world \<Rightarrow> copy_world" where
  "copy_completed o' w =
    copy_last (copy_complete_response [])
      (audit_record (\<lambda>st i. audit_event_result st i o' ''completed'' (Some 0) None) w)"

definition on_copy_end :: "operation \<Rightarrow> copy_direction \<Rightarrow> copy_state \<Rightarrow> copy_world \<Rightarrow> copy_phase \<times> copy_state \<times> copy_world" where
  "on_copy_end o' d l w =
    (case ct_end l of
       CopyPanics e \<Rightarrow> (CopyEnded, l, try_send (copy_error_response e) w)
     | CopyFails e \<Rightarrow>
         (CopyEnded, l, copy_last (copy_error_response e)
            (audit_record (\<lambda>st i. audit_event_result st i o' ''failed'' None (Some e)) w))
     | CopyOk \<Rightarrow>
         if d = Download then (CopyRelaying, l, w) else (CopyEnded, l, copy_completed o' w))"

definition copy_step ::
  "operation \<Rightarrow> copy_direction \<Rightarrow> copy_choice \<Rightarrow> copy_phase \<times> copy_state \<times> copy_world
    \<Rightarrow> (copy_phase \<times> copy_state \<times> copy_world) option" where
  "copy_step o' d choice x =
    (case x of (phase, l, w) \<Rightarrow>
       (case choice of
          CopyEmits \<Rightarrow> if phase = CopyRunning then map_option (\<lambda>l. (phase, l, w)) (copy_emit l) else None
        | RelaySends \<Rightarrow> map_option (\<lambda>(l, w). (phase, l, w)) (relay_send l w)
        | CopyTimePasses \<Rightarrow> Some (phase, l\<lparr>ct_expired := True\<rparr>, w)
        | OnCopyTimeout \<Rightarrow>
            if phase = CopyRunning \<and> 0 < op_timeout_ms o' \<and> ct_expired l
            then Some (CopyEnded, l\<lparr>ct_pending := []\<rparr>,
                   copy_last (copy_error_response ''copy timed out (exit code 124)'')
                     (audit_record (\<lambda>st i. audit_event_result st i o' ''timeout'' None (Some ''copy timed out'')) w))
            else None
        | OnCopyEnd \<Rightarrow> if phase = CopyRunning \<and> ct_pending l = [] then Some (on_copy_end o' d l w) else None
        | OnRelayEnd \<Rightarrow>
            if phase = CopyRelaying \<and> (ct_queue l = [] \<or> \<not> ct_relay l) then Some (CopyEnded, l, copy_completed o' w) else None))"

fun copy_loop ::
  "operation \<Rightarrow> copy_direction \<Rightarrow> copy_choice list \<Rightarrow> copy_phase \<times> copy_state \<times> copy_world
    \<Rightarrow> (copy_phase \<times> copy_state \<times> copy_world) option" where
  "copy_loop o' d [] x = Some x"
| "copy_loop o' d (c # cs) x = (case copy_step o' d c x of Some y \<Rightarrow> copy_loop o' d cs y | None \<Rightarrow> None)"

section \<open>The handler\<close>

datatype copy_start = CopyStartErr string | CopyDenied | CopyStarts operation copy_spec copy_state

definition copy_transfer ::
  "'sec copy_env \<Rightarrow> operation \<Rightarrow> copy_spec \<Rightarrow> copy_world \<Rightarrow> copy_start \<times> copy_world" where
  "copy_transfer env o' spec w =
    (case resume_ack env (op_route o') spec w of
       (Inl e, w) \<Rightarrow> (CopyStartErr e, w)
     | (Inr spec, w) \<Rightarrow>
         (CopyStarts o' spec (copy_init (cs_direction spec) (copy_via_session env (op_route o') spec
            (if cs_direction spec = Upload then upload_frames (w_inbound w) else []))), w))"

definition copy_begin :: "'sec copy_env \<Rightarrow> caller \<Rightarrow> copy_world \<Rightarrow> copy_start \<times> copy_world" where
  "copy_begin env c w =
    (case next_message w of
       (Inl e, w) \<Rightarrow> (CopyStartErr e, w)
     | (Inr None, w) \<Rightarrow> (CopyStartErr ''client disconnected before copy start request'', w)
     | (Inr (Some (Some (CopyStart start))), w) \<Rightarrow>
         (case copy_spec_from_rpc start of
            Inl e \<Rightarrow> (CopyStartErr e, w)
          | Inr (target_input, spec, timeout_ms) \<Rightarrow>
              (case copy_prologue env c target_input spec timeout_ms w of
                 (Inl e, w) \<Rightarrow> (CopyStartErr e, w)
               | (Inr None, w) \<Rightarrow> (CopyDenied, w)
               | (Inr (Some o'), w) \<Rightarrow> copy_transfer env o' spec w))
     | (Inr (Some _), w) \<Rightarrow> (CopyStartErr ''first copy stream message must be start'', w))"

text \<open>The whole RPC for a schedule; \<^verbatim>\<open>None\<close> where the schedule does not fit or does not end.\<close>

definition copy_rpc :: "'sec copy_env \<Rightarrow> caller \<Rightarrow> copy_choice list \<Rightarrow> copy_world \<Rightarrow> copy_world option" where
  "copy_rpc env c sched w =
    (case copy_begin env c w of
       (CopyStartErr e, w) \<Rightarrow> Some (try_send (copy_error_response e) w)
     | (CopyDenied, w) \<Rightarrow> Some w
     | (CopyStarts o' spec l, w) \<Rightarrow>
         (case copy_loop o' (cs_direction spec) sched (CopyRunning, l, w) of
            Some (CopyEnded, l, w) \<Rightarrow> Some w
          | _ \<Rightarrow> None))"

section \<open>Admission\<close>

definition copy_confirms :: "(string \<Rightarrow> string option) \<Rightarrow> string \<Rightarrow> copy_request inbound_item list \<Rightarrow> bool" where
  "copy_confirms parse_uuid execution_id ms \<longleftrightarrow>
    (\<exists>i rest. ms = Message (Some (CopyConfirm i True)) # rest \<and> parse_uuid i = Some execution_id)"

fun introduces :: "copy_response \<Rightarrow> bool" where
  "introduces (CopyInfo _) = True"
| "introduces (CopyConfirmRequired _ _) = True"
| "introduces _ = False"

lemma wait_for_copy_confirmation_ok:
  assumes "wait_for_copy_confirmation p i reason w = (Inr (), w')"
  shows "copy_confirms p i (w_inbound w)"
  using assms
  by (auto simp: wait_for_copy_confirmation_def copy_confirms_def send_msg_def parse_execution_id_def
      split: option.splits if_splits list.splits inbound_item.splits copy_request.splits)

lemma wait_for_copy_confirmation_sent:
  assumes "wait_for_copy_confirmation p i reason w = (r, w')" "w_takes w = None"
  shows "w_takes w' = None \<and> w_sent w' = w_sent w @ [CopyConfirmRequired i reason]"
  using assms
  by (auto simp: wait_for_copy_confirmation_def send_open copy_confirm_required_response_def
      split: option.splits list.splits inbound_item.splits copy_request.splits sum.splits)

lemma copy_prologue_cases:
  obtains (error) e where "copy_prologue env c tgt spec t w = (Inl e, w)"
  | (enforced) res r rs w1 x w2 where
      "resolve_target_with_merged_view (en_config env) (en_view env) tgt = Inr res" "rr_routes res = r # rs"
      "w1 = w \<and> rr_warning res = None \<or> (\<exists>m. send_msg (copy_info_response m) w = Some w1)"
      "enforce_copy env (copy_operation env c tgt t r) (run_review (en_llm env) (en_review env) (copy_operation env c tgt t r)
         (copy_detail spec) (audit_start (copy_operation env c tgt t r) (copy_detail spec) w1)) = (x, w2)"
      "copy_prologue env c tgt spec t w =
        (case x of Inl e \<Rightarrow> Inl e | Inr b \<Rightarrow> Inr (if b then Some (copy_operation env c tgt t r) else None), w2)"
proof (cases "resolve_target_with_merged_view (en_config env) (en_view env) tgt")
  case (Inl e)
  then show ?thesis using error by (simp add: copy_prologue_def)
next
  case (Inr res)
  show ?thesis
  proof (cases "rr_routes res")
    case Nil
    with Inr show ?thesis using error by (simp add: copy_prologue_def)
  next
    case (Cons r rs)
    let ?o = "copy_operation env c tgt t r"
    let ?w1 = "case rr_warning res of None \<Rightarrow> Some w | Some m \<Rightarrow> send_msg (copy_info_response m) w"
    show ?thesis
    proof (cases ?w1)
      case None
      with Inr Cons show ?thesis using error by (simp add: copy_prologue_def)
    next
      case (Some w1)
      obtain x w2 where e: "enforce_copy env ?o (run_review (en_llm env) (en_review env) ?o
         (copy_detail spec) (audit_start ?o (copy_detail spec) w1)) = (x, w2)" by (meson surj_pair)
      have "w1 = w \<and> rr_warning res = None \<or> (\<exists>m. send_msg (copy_info_response m) w = Some w1)"
        using Some by (auto split: option.splits)
      moreover have "copy_prologue env c tgt spec t w =
        (case x of Inl e \<Rightarrow> Inl e | Inr b \<Rightarrow> Inr (if b then Some ?o else None), w2)"
        using Inr Cons Some e by (auto simp: copy_prologue_def Let_def split: sum.splits bool.splits)
      ultimately show ?thesis using enforced[OF Inr Cons _ e] by blast
    qed
  qed
qed

text \<open>What the client has been sent before the transfer: information and requests for confirmation,
  and behind them an error if the review denied the copy.\<close>

definition introduced :: "bool \<Rightarrow> copy_world \<Rightarrow> copy_world \<Rightarrow> bool" where
  "introduced denied w w' \<longleftrightarrow> w_takes w' = None \<and> (\<exists>pre. list_all introduces pre \<and>
    (if denied then \<exists>m. w_sent w' = w_sent w @ pre @ [CopyErrorMsg m] else w_sent w' = w_sent w @ pre))"

lemma introducedI:
  assumes "w_takes w' = None" "w_sent w1 = w_sent w @ pre" "list_all introduces pre" "introduced b w1 w'"
  shows "introduced b w w'"
proof -
  from assms(4) obtain pre2 where "list_all introduces pre2"
      "if b then \<exists>m. w_sent w' = w_sent w1 @ pre2 @ [CopyErrorMsg m] else w_sent w' = w_sent w1 @ pre2"
    by (auto simp: introduced_def)
  with assms show ?thesis unfolding introduced_def by (intro conjI exI[of _ "pre @ pre2"]) auto
qed

lemma enforce_copy_sent:
  assumes "enforce_copy env o' (dec, w) = (x, w')" "w_takes w = None"
  shows "introduced (x = Inr False) w w'"
proof (cases dec)
  case (ConfirmFirst reason)
  obtain r w1 where wc: "wait_for_copy_confirmation (en_parse_uuid env) (en_uuid env) reason w = (r, w1)" by (meson surj_pair)
  from wait_for_copy_confirmation_sent[OF wc assms(2)] wc assms ConfirmFirst show ?thesis
    unfolding introduced_def
    by (intro conjI exI[of _ "[CopyConfirmRequired (en_uuid env) reason]"])
      (auto simp: enforce_copy_def split: sum.splits)
next
  case Proceed
  with assms show ?thesis unfolding introduced_def by (intro conjI exI[of _ "[]"]) (auto simp: enforce_copy_def)
next
  case (Denied m)
  with assms show ?thesis unfolding introduced_def
    by (intro conjI exI[of _ "[]"]) (auto simp: enforce_copy_def send_open copy_error_response_def Let_def)
qed

lemma copy_prologue_sent:
  assumes "copy_prologue env c tgt spec t w = (x, w')" "w_takes w = None"
  shows "introduced (x = Inr None) w w'"
proof (cases rule: copy_prologue_cases[of env c tgt spec t w])
  case (error e)
  then show ?thesis using assms by (auto simp: introduced_def intro!: exI[of _ "[]"])
next
  case (enforced res r rs w1 y w2)
  let ?o = "copy_operation env c tgt t r"
  obtain dec w3 where rr: "run_review (en_llm env) (en_review env) ?o (copy_detail spec) (audit_start ?o (copy_detail spec) w1) = (dec, w3)"
    by (meson surj_pair)
  have "\<exists>pre1. w_takes w1 = None \<and> list_all introduces pre1 \<and> w_sent w1 = w_sent w @ pre1"
    using enforced(3) assms(2) by (auto simp: send_open copy_info_response_def intro: exI[of _ "[CopyInfo _]"])
  then obtain pre1 where p1: "w_takes w1 = None" "list_all introduces pre1" "w_sent w1 = w_sent w @ pre1" by blast
  from run_review_kept[OF rr] p1 have k: "w_takes w3 = None" "w_sent w3 = w_sent w @ pre1" by simp_all
  from enforce_copy_sent[OF enforced(4)[unfolded rr] k(1)] have i: "introduced (y = Inr False) w3 w2" .
  then have "introduced (y = Inr False) w w2" using introducedI[OF _ k(2) p1(2)] by (auto simp: introduced_def)
  moreover have "w' = w2" "(x = Inr None) = (y = Inr False)" using enforced(5) assms(1) by (auto split: sum.splits if_splits)
  ultimately show ?thesis by simp
qed

lemma copy_prologue_gate:
  assumes "copy_prologue env c tgt spec t w = (Inr (Some o'), w')"
  shows "(\<exists>res. resolve_target_with_merged_view (en_config env) (en_view env) tgt = Inr res
      \<and> rr_routes res \<noteq> [] \<and> o' = copy_operation env c tgt t (hd (rr_routes res)))
    \<and> outcome_admits (rc_failure_action (en_review env)) (copy_confirms (en_parse_uuid env) (en_uuid env) (w_inbound w))
        (review (en_llm env) (en_review env) OpCopy (end_target (op_route o')) (copy_detail spec))"
proof (cases rule: copy_prologue_cases[of env c tgt spec t w])
  case (error e)
  with assms show ?thesis by simp
next
  case (enforced res r rs w1 y w2)
  let ?o = "copy_operation env c tgt t r"
  obtain dec w3 where rr: "run_review (en_llm env) (en_review env) ?o (copy_detail spec) (audit_start ?o (copy_detail spec) w1) = (dec, w3)"
    by (meson surj_pair)
  have y: "y = Inr True" "o' = ?o" using enforced(5) assms by (auto split: sum.splits if_splits)
  have w3: "w_inbound w3 = w_inbound w"
    using run_review_kept[OF rr] enforced(3) by (auto simp: send_msg_def split: if_splits)
  have "enforced_admits (copy_confirms (en_parse_uuid env) (en_uuid env) (w_inbound w)) dec"
    using enforced(4)[unfolded rr] y(1) w3
    by (cases dec) (auto simp: enforce_copy_def Let_def split: sum.splits option.splits prod.splits dest!: wait_for_copy_confirmation_ok)
  with run_review_admits[OF rr] have "outcome_admits (rc_failure_action (en_review env))
      (copy_confirms (en_parse_uuid env) (en_uuid env) (w_inbound w))
      (review (en_llm env) (en_review env) OpCopy (end_target (op_route ?o)) (copy_detail spec))"
    by (simp add: copy_operation_def)
  with y(2) enforced(1,2) show ?thesis by simp
qed

section \<open>Relaying a download\<close>

text \<open>Where the loop of a download stands: the frames sent, those in the channel and those to come make up
  the transfer; a handler that has ended has sent one last response, behind a part of the frames or
  behind all of them.\<close>

definition relay_at :: "copy_frame list \<Rightarrow> copy_frame list \<Rightarrow> copy_state \<Rightarrow> bool" where
  "relay_at fs sent l \<longleftrightarrow>
    (if ct_relay l then fs = sent @ ct_queue l @ ct_pending l else fs = sent \<and> ct_queue l = [] \<and> ct_pending l = [])"

definition last_response :: "copy_frame list \<Rightarrow> copy_end \<Rightarrow> copy_frame list \<Rightarrow> copy_response \<Rightarrow> bool" where
  "last_response fs e sent p \<longleftrightarrow> p = CopyComplete [] \<and> sent = fs \<and> e = CopyOk \<or> (\<exists>m. p = CopyErrorMsg m)"

definition ended_with :: "copy_frame list \<Rightarrow> copy_end \<Rightarrow> copy_world \<Rightarrow> copy_world \<Rightarrow> bool" where
  "ended_with fs e w0 w \<longleftrightarrow> (\<exists>sent p rest. prefix sent fs \<and> last_response fs e sent p
    \<and> w_sent w = w_sent w0 @ map copy_frame_response sent @ p # rest)"

fun relayed :: "copy_frame list \<Rightarrow> copy_end \<Rightarrow> copy_world \<Rightarrow> copy_phase \<times> copy_state \<times> copy_world \<Rightarrow> bool" where
  "relayed fs e w0 (phase, l, w) \<longleftrightarrow> w_takes w = None \<and>
    (if phase = CopyEnded
     then ended_with fs e w0 w
     else \<exists>sent. relay_at fs sent l \<and> ct_end l = e \<and> w_sent w = w_sent w0 @ map copy_frame_response sent
       \<and> (phase = CopyRelaying \<longrightarrow> ct_pending l = [] \<and> e = CopyOk))"

lemma relay_at_send:
  assumes "relay_at fs sent l" "relay_send l w = Some (l', w')" "w_takes w = None" "EndOfStream \<notin> set (butlast fs)"
  shows "\<exists>f. w' = w\<lparr>w_sent := w_sent w @ [copy_frame_response f]\<rparr> \<and> relay_at fs (sent @ [f]) l'
    \<and> ct_pending l' = ct_pending l \<and> ct_end l' = ct_end l"
proof -
  from assms(2,3) obtain f q where q: "ct_queue l = f # q" "ct_relay l"
      "w' = w\<lparr>w_sent := w_sent w @ [copy_frame_response f]\<rparr>"
      "l' = (if f = EndOfStream then l\<lparr>ct_queue := [], ct_relay := False\<rparr> else l\<lparr>ct_queue := q\<rparr>)"
    by (auto simp: relay_send_def send_open split: list.splits if_splits)
  with assms(1) have fs: "fs = sent @ f # q @ ct_pending l" by (simp add: relay_at_def)
  have "f = EndOfStream \<longrightarrow> q = [] \<and> ct_pending l = []" using assms(4) unfolding fs by (auto simp: butlast_append split: if_splits)
  with q fs show ?thesis by (auto simp: relay_at_def)
qed

lemma relay_at_prefix: "relay_at fs sent l \<Longrightarrow> prefix sent fs"
  by (auto simp: relay_at_def split: if_splits)

lemma relay_at_done: "relay_at fs sent l \<Longrightarrow> ct_pending l = [] \<Longrightarrow> ct_queue l = [] \<or> \<not> ct_relay l \<Longrightarrow> sent = fs"
  by (auto simp: relay_at_def split: if_splits)

lemma copy_last_open: "w_takes w = None \<Longrightarrow> copy_last p w = w\<lparr>w_sent := w_sent w @ [p]\<rparr>"
  by (simp add: copy_last_def send_open)

lemmas copy_open_simps = copy_last_open try_send_open send_open copy_error_response_def copy_complete_response_def

lemma relayed_endI:
  assumes "relay_at fs sent l" "w_sent w = w_sent w0 @ map copy_frame_response sent" "w_takes w' = None"
    "w_sent w' = w_sent w @ [p]" "last_response fs e sent p"
  shows "relayed fs e w0 (CopyEnded, l', w')"
proof -
  have "w_sent w' = w_sent w0 @ map copy_frame_response sent @ p # []" using assms(2,4) by simp
  then show ?thesis using assms(3,5) relay_at_prefix[OF assms(1)] unfolding relayed.simps ended_with_def by auto
qed

lemma ended_more:
  assumes "ended_with fs e w0 w" "w_sent w' = w_sent w @ more_sent"
  shows "ended_with fs e w0 w'"
proof -
  from assms(1) obtain sent p rest where "prefix sent fs" "last_response fs e sent p"
      "w_sent w = w_sent w0 @ map copy_frame_response sent @ p # rest" unfolding ended_with_def by blast
  moreover from this assms(2) have "w_sent w' = w_sent w0 @ map copy_frame_response sent @ p # (rest @ more_sent)" by simp
  ultimately show ?thesis unfolding ended_with_def by blast
qed

lemma copy_step_relayed:
  assumes "relayed fs e w0 x" "copy_step o' Download ch x = Some y" "EndOfStream \<notin> set (butlast fs)"
  shows "relayed fs e w0 y"
proof -
  obtain phase l w where x: "x = (phase, l, w)" by (cases x)
  show ?thesis
  proof (cases "phase = CopyEnded")
    case True
    with assms x have "ch = RelaySends \<or> ch = CopyTimePasses" by (cases ch) (auto simp: copy_step_def)
    then show ?thesis
    proof
      assume "ch = CopyTimePasses"
      with assms x True show ?thesis by (auto simp: copy_step_def)
    next
      assume "ch = RelaySends"
      with assms x True obtain l' w' where s: "relay_send l w = Some (l', w')" "y = (CopyEnded, l', w')"
        by (auto simp: copy_step_def)
      with assms(1) x True have "w_takes w' = None \<and> (\<exists>f. w_sent w' = w_sent w @ [f])"
        by (auto simp: relay_send_def send_open split: list.splits if_splits)
      with assms(1) x True s(2) show ?thesis by (auto intro: ended_more)
    qed
  next
    case False
    with assms(1) x obtain sent where s: "w_takes w = None" "relay_at fs sent l" "ct_end l = e"
        "w_sent w = w_sent w0 @ map copy_frame_response sent" "phase = CopyRelaying \<longrightarrow> ct_pending l = [] \<and> e = CopyOk"
      by auto
    show ?thesis
    proof (cases ch)
      case CopyEmits
      then show ?thesis using assms(2) x s
        by (auto simp: copy_step_def copy_emit_def relay_at_def split: list.splits if_splits)
    next
      case RelaySends
      with assms(2) x obtain l' w' where r: "relay_send l w = Some (l', w')" "y = (phase, l', w')"
        by (auto simp: copy_step_def)
      from relay_at_send[OF s(2) r(1) s(1) assms(3)] obtain f where
        "w' = w\<lparr>w_sent := w_sent w @ [copy_frame_response f]\<rparr>" "relay_at fs (sent @ [f]) l'"
        "ct_pending l' = ct_pending l" "ct_end l' = ct_end l" by blast
      with r(2) s False show ?thesis by (auto intro!: exI[of _ "sent @ [f]"])
    next
      case CopyTimePasses
      then show ?thesis using assms(2) x s False by (auto simp: copy_step_def relay_at_def)
    next
      case OnCopyTimeout
      then show ?thesis using assms(2) x s relayed_endI[OF s(2,4)]
        by (auto simp: copy_step_def copy_open_simps last_response_def split: if_splits)
    next
      case OnCopyEnd
      then show ?thesis using assms(2) x s relayed_endI[OF s(2,4)]
        by (auto simp: copy_step_def on_copy_end_def copy_open_simps last_response_def split: if_splits copy_end.splits)
    next
      case OnRelayEnd
      then have "phase = CopyRelaying" "ct_queue l = [] \<or> \<not> ct_relay l" "y = (CopyEnded, l, copy_completed o' w)"
        using assms(2) x by (auto simp: copy_step_def split: if_splits)
      with s relay_at_done[OF s(2)] relayed_endI[OF s(2,4)] show ?thesis
        by (auto simp: copy_completed_def copy_open_simps last_response_def)
    qed
  qed
qed

lemma copy_loop_relayed:
  assumes "relayed fs e w0 x" "copy_loop o' Download cs x = Some y" "EndOfStream \<notin> set (butlast fs)"
  shows "relayed fs e w0 y"
  using assms(1,2)
proof (induction cs arbitrary: x)
  case (Cons c cs)
  then obtain x1 where "copy_step o' Download c x = Some x1" "copy_loop o' Download cs x1 = Some y"
    by (auto split: option.splits)
  with Cons copy_step_relayed[OF Cons.prems(1) _ assms(3)] show ?case by blast
qed simp

section \<open>The responses of a download\<close>

lemma copy_begin_eq:
  assumes "w_inbound w = Message (Some (CopyStart start)) # ms" "copy_spec_from_rpc start = Inr (tgt, spec, t)"
    "copy_prologue env c tgt spec t (w\<lparr>w_inbound := ms\<rparr>) = (x, w1)"
  shows "copy_begin env c w =
    (case x of Inl e \<Rightarrow> (CopyStartErr e, w1) | Inr None \<Rightarrow> (CopyDenied, w1) | Inr (Some o') \<Rightarrow> copy_transfer env o' spec w1)"
  using assms by (simp add: copy_begin_def split: sum.split option.split)

lemma introduced_error:
  assumes "introduced False w w1" "w_sent w = []"
  shows "\<exists>pre. list_all introduces pre \<and> w_sent (try_send (copy_error_response e) w1) = pre @ [CopyErrorMsg e]"
  using assms by (auto simp: introduced_def try_send_open copy_error_response_def)

text \<open>To a client that keeps listening, a download is information and requests for confirmation, a part of the
  frames of the transfer, and an error, or all of them and the completion.\<close>

lemma copy_rpc_download:
  assumes "w_takes w = None" "w_sent w = []" "w_inbound w = Message (Some (CopyStart start)) # ms"
    and "copy_spec_from_rpc start = Inr (tgt, spec, t)" "cs_direction spec = Download"
    and "\<And>g x. en_copy env g x spec [] = (fs, err)" "EndOfStream \<notin> set (butlast fs)"
    and "copy_rpc env c sched w = Some w'"
  shows "\<exists>pre sent p rest. list_all introduces pre \<and> prefix sent fs \<and> w_sent w' = pre @ map copy_frame_response sent @ p # rest
    \<and> (p = CopyComplete [] \<and> sent = fs \<and> err = None \<or> (\<exists>m. p = CopyErrorMsg m))"
proof -
  obtain x w1 where p: "copy_prologue env c tgt spec t (w\<lparr>w_inbound := ms\<rparr>) = (x, w1)" by (meson surj_pair)
  note b = copy_begin_eq[OF assms(3,4) p]
  from copy_prologue_sent[OF p] assms(1) have i: "introduced (x = Inr None) (w\<lparr>w_inbound := ms\<rparr>) w1" by simp
  consider (err) e where "x = Inl e" | (denied) "x = Inr None" | (go) o' where "x = Inr (Some o')"
    by (cases x; cases "projr x") auto
  then show ?thesis
  proof cases
    case err
    with introduced_error[of _ w1 e] i assms(2) obtain pre where "list_all introduces pre"
      "w_sent (try_send (copy_error_response e) w1) = pre @ [CopyErrorMsg e]" by fastforce
    with b err assms(8) show ?thesis
      by (intro exI[of _ pre] exI[of _ "[]"] exI[of _ "CopyErrorMsg e"]) (auto simp: copy_rpc_def)
  next
    case denied
    with i assms(2) obtain pre m where "list_all introduces pre" "w_sent w1 = pre @ [CopyErrorMsg m]"
      by (auto simp: introduced_def)
    with b denied assms(8) show ?thesis
      by (intro exI[of _ pre] exI[of _ "[]"] exI[of _ "CopyErrorMsg m"]) (auto simp: copy_rpc_def)
  next
    case go
    with i assms(2) obtain pre where pre: "list_all introduces pre" "w_sent w1 = pre" "w_takes w1 = None"
      by (auto simp: introduced_def)
    obtain fs' err' where v: "copy_via_session env (op_route o') spec [] = (fs', err')" by (meson surj_pair)
    then have fs: "fs' = [] \<and> err' \<noteq> None \<or> fs' = fs \<and> (err' = None \<longleftrightarrow> err = None)"
      using assms(6) by (auto simp: copy_via_session_def split: sum.splits)
    let ?l = "copy_init Download (fs', err')"
    have "copy_begin env c w = (CopyStarts o' spec ?l, w1)"
      using b go assms(5) v by (simp add: copy_transfer_def resume_ack_def)
    with assms(8,5) obtain l' where lp: "copy_loop o' Download sched (CopyRunning, ?l, w1) = Some (CopyEnded, l', w')"
      by (auto simp: copy_rpc_def split: option.splits copy_phase.splits)
    have "relayed fs' (ct_end ?l) w1 (CopyRunning, ?l, w1)"
      using pre(3) by (auto simp: copy_init_def relay_at_def intro!: exI[of _ "[]"])
    from copy_loop_relayed[OF this lp] fs assms(7) obtain sent p rest where
      "prefix sent fs'" "last_response fs' (ct_end ?l) sent p" "w_sent w' = w_sent w1 @ map copy_frame_response sent @ p # rest"
      by (auto simp: ended_with_def)
    with pre fs show ?thesis
      by (intro exI[of _ pre] exI[of _ sent] exI[of _ p] exI[of _ rest])
        (auto simp: last_response_def copy_init_def split: option.splits)
  qed
qed

text \<open>A gateway that serves a file over the SFTP subsystem.\<close>

definition serves_file :: "'sec copy_env \<Rightarrow> nat list \<Rightarrow> entry \<Rightarrow> bool" where
  "serves_file env ns e \<longleftrightarrow> (\<forall>g x spec. cs_direction spec = Download \<longrightarrow> en_copy env g x spec [] =
    (case download ns spec (Some e) of (fs, err) \<Rightarrow> (fs, map_option (\<lambda>m. \<lparr>ge_kind = EExecution, ge_source = m\<rparr>) err)))"

lemma answered_introduces:
  "list_all introduces pre \<Longrightarrow> \<forall>reason. ce_confirm env reason \<noteq> Inr False \<Longrightarrow> list_all (answered env) pre"
proof (induction pre)
  case (Cons p pre)
  then show ?case by (cases p) auto
qed simp

lemma download_one_end:
  assumes "download ns spec (Some (FileEntry mode mtime content)) = (fs, err)"
  shows "err = None \<and> EndOfStream \<notin> set (butlast fs)"
  using assms by (auto simp: download_def file_frames_def butlast_append Let_def split: if_splits)

lemma run_copy_fails:
  assumes "cs_direction (pl_spec plan) = Download" "\<not> cs_recursive (pl_spec plan)" "list_all (answered env) pre"
  shows "run_copy env plan True t found
    (map (CliResponse \<circ> Some) pre @ map frame_answer fs @ CliResponse (Some (CopyErrorMsg m)) # ms) s \<noteq> (None, c', s')"
proof
  let ?as = "map frame_answer fs @ CliResponse (Some (CopyErrorMsg m)) # ms"
  assume r: "run_copy env plan True t found (map (CliResponse \<circ> Some) pre @ ?as) s = (None, c', s')"
  obtain hints ctx where p: "prepare_download env plan s = (hints, ctx)" by (meson surj_pair)
  from run_copy_resumed[OF assms(1,2) p] obtain c w where c: "cl_writer c = Some w"
    "run_copy env plan True t found (map (CliResponse \<circ> Some) pre @ ?as) s
      = cli_finish env plan False (cli_loop env (pl_spec plan) found (map (CliResponse \<circ> Some) pre @ ?as) c s)"
    by blast
  obtain r1 c1 s1 where l: "cli_loop env (pl_spec plan) found (map (CliResponse \<circ> Some) pre @ ?as) c s = (r1, c1, s1)"
    by (metis prod_cases3)
  have "r1 \<noteq> None"
  proof
    assume "r1 = None"
    with l cli_loop_answered[OF assms(3), of "pl_spec plan" found ?as c s] c(1) obtain c2 where
      c2: "cl_writer c2 = Some w" "cli_loop env (pl_spec plan) found ?as c2 s = (None, c1, s1)" by auto
    show False by (rule notE[OF cli_loop_stops(2)[OF assms(1) c2(1) disjI2[OF refl]] c2(2)])
  qed
  then show False using r l c by (auto simp: cli_finish_def split: option.splits prod.splits)
qed

section \<open>Properties\<close>

definition demo_served :: entry where
  "demo_served = FileEntry 420 (Some 7) ''abcd''"

definition demo_copy_env :: "unit copy_env" where
  "demo_copy_env = exec_env.extend demo_env
    \<lparr>en_probe = (\<lambda>g x spec. (Inr (cs_resume spec), spec)),
     en_copy = (\<lambda>g x spec ups. case download [] spec (Some demo_served) of
       (fs, err) \<Rightarrow> (fs, map_option (\<lambda>m. \<lparr>ge_kind = EExecution, ge_source = m\<rparr>) err))\<rparr>"

lemma copy_prologue_gateway [simp]:
  "copy_prologue (env\<lparr>en_probe := p, en_copy := q\<rparr>) c tgt spec t w = copy_prologue env c tgt spec t w"
proof -
  let ?env = "env\<lparr>en_probe := p, en_copy := q\<rparr>"
  have fields: "en_config ?env = en_config env" "en_view ?env = en_view env" "en_llm ?env = en_llm env"
    "en_review ?env = en_review env" "en_error_text ?env = en_error_text env" "en_parse_uuid ?env = en_parse_uuid env"
    "en_uuid ?env = en_uuid env" by simp_all
  have e: "enforce_copy ?env = enforce_copy env" unfolding fun_eq_iff enforce_copy_def fields by simp
  have o: "copy_operation ?env = copy_operation env" unfolding fun_eq_iff copy_operation_def fields by simp
  show ?thesis unfolding copy_prologue_def fields e o ..
qed

text \<open>C4. No file is copied without the review's consent.  Unless the review of this path in this direction was skipped, allowed it or
  warned, or asked for a confirmation that the client then gave for this very copy, the handler never reaches the transfer and behaves the same
  whatever the gateway would do: neither its probe of partial files nor its copy is consulted.\<close>

theorem copy_needs_admission:
  assumes "w_inbound w = Message (Some (CopyStart start)) # ms"
    and "copy_spec_from_rpc start = Inr (tgt, spec, t)"
  shows "(\<exists>res r rs. resolve_target_with_merged_view (en_config env) (en_view env) tgt = Inr res \<and> rr_routes res = r # rs
      \<and> outcome_admits (rc_failure_action (en_review env)) (copy_confirms (en_parse_uuid env) (en_uuid env) ms)
          (review (en_llm env) (en_review env) OpCopy (end_target r) (copy_detail spec)))
    \<or> (copy_begin (env\<lparr>en_probe := p, en_copy := q\<rparr>) c w = copy_begin env c w
      \<and> (case fst (copy_begin env c w) of CopyStarts _ _ _ \<Rightarrow> False | _ \<Rightarrow> True))"
proof -
  obtain x w1 where pr: "copy_prologue env c tgt spec t (w\<lparr>w_inbound := ms\<rparr>) = (x, w1)" by (meson surj_pair)
  then have pr': "copy_prologue (env\<lparr>en_probe := p, en_copy := q\<rparr>) c tgt spec t (w\<lparr>w_inbound := ms\<rparr>) = (x, w1)" by simp
  show ?thesis
  proof (cases "\<exists>o'. x = Inr (Some o')")
    case True
    then obtain o' where o: "x = Inr (Some o')" by blast
    from copy_prologue_gate[OF pr[unfolded o]] obtain res where
      "resolve_target_with_merged_view (en_config env) (en_view env) tgt = Inr res" "rr_routes res \<noteq> []"
      "o' = copy_operation env c tgt t (hd (rr_routes res))"
      "outcome_admits (rc_failure_action (en_review env)) (copy_confirms (en_parse_uuid env) (en_uuid env) ms)
        (review (en_llm env) (en_review env) OpCopy (end_target (op_route o')) (copy_detail spec))" by auto
    then show ?thesis by (cases "rr_routes res") (auto simp: copy_operation_def)
  next
    case False
    then have "copy_begin (env\<lparr>en_probe := p, en_copy := q\<rparr>) c w = copy_begin env c w"
      unfolding copy_begin_eq[OF assms pr] copy_begin_eq[OF assms pr'] by (cases x; cases "projr x") auto
    moreover from False have "case fst (copy_begin env c w) of CopyStarts _ _ _ \<Rightarrow> False | _ \<Rightarrow> True"
      unfolding copy_begin_eq[OF assms pr] by (cases x; cases "projr x") auto
    ultimately show ?thesis by blast
  qed
qed

definition demo_copy_world :: "copy_request \<Rightarrow> copy_world" where
  "demo_copy_world q = \<lparr>w_takes = None, w_sent = [], w_inbound = [Message (Some q)],
    w_stamps = (\<lambda>_. \<lparr>st_epoch_ms = 0, st_ts = [], st_event_id = []\<rparr>), w_built = 0, w_sink = demo_sink\<rparr>"

definition demo_key_start :: rpc_copy_start where
  "demo_key_start = \<lparr>rcs_target = ''web'', rcs_remote_path = ''/home/u/.ssh/id'', rcs_recursive = False,
    rcs_direction = 2, rcs_timeout_ms = 0, rcs_source_name = ''id'', rcs_resume = []\<rparr>"

lemma demo_copy_env_simps [simp]:
  "en_config demo_copy_env = demo_resolve_config" "en_view demo_copy_env = demo_view"
  "en_llm demo_copy_env = demo_llm\<lparr>has_client := False\<rparr>"
  "en_review demo_copy_env = demo_review_config\<lparr>rc_failure_action := Confirm\<rparr>"
  "en_uuid demo_copy_env = ''id''" "en_parse_uuid demo_copy_env = Some"
  by (simp_all add: demo_copy_env_def demo_env_def exec_env.defs)

theorem copy_needs_admission_witness:
  "copy_begin (demo_copy_env\<lparr>en_probe := \<lambda>g x spec. (Inr [], spec), en_copy := \<lambda>g x spec ups. ([], None)\<rparr>) caller_local
      (demo_copy_world (CopyStart demo_key_start))
    = copy_begin demo_copy_env caller_local (demo_copy_world (CopyStart demo_key_start))"
proof -
  let ?spec = "\<lparr>cs_direction = Download, cs_remote_path = ''/home/u/.ssh/id'', cs_recursive = False, cs_source_name = ''id'', cs_resume = []\<rparr>"
  have i: "w_inbound (demo_copy_world (CopyStart demo_key_start)) = Message (Some (CopyStart demo_key_start)) # []"
    by (simp add: demo_copy_world_def)
  have s: "copy_spec_from_rpc demo_key_start = Inr (''web'', ?spec, 0)" by code_simp
  have "matches_any default_copy_blocklist ''/home/u/.ssh/id'' ''id''" by code_simp
  then have "\<not> outcome_admits Confirm b (review (en_llm demo_copy_env) (en_review demo_copy_env) OpCopy x (copy_detail ?spec))" for b x
    by (simp add: copy_detail_def demo_review_config_def review_copy_def)
  then show ?thesis using copy_needs_admission[OF i s, of demo_copy_env] by (auto simp: demo_review_config_def)
qed

section \<open>A download served\<close>

lemma demo_copy_served: "serves_file demo_copy_env [] demo_served"
  by (simp add: serves_file_def demo_copy_env_def exec_env.defs)

lemma demo_copy_prologue:
  "case copy_prologue demo_copy_env caller_local ''web'' ((pl_spec ex_plan)\<lparr>cs_resume := ex_hints\<rparr>) 0
      (demo_copy_world q\<lparr>w_inbound := []\<rparr>) of
     (Inr (Some o'), w1) \<Rightarrow> op_route o' = \<lparr>gateway_name = ''hop'', end_target = ''far:web''\<rparr> \<and> w_sent w1 = [] \<and> w_takes w1 = None
   | _ \<Rightarrow> False"
  by code_simp

definition demo_schedule :: "copy_choice list" where
  "demo_schedule = concat (replicate 4 [CopyEmits, RelaySends]) @ [OnCopyEnd, OnRelayEnd]"

abbreviation demo_download :: copy_request where
  "demo_download \<equiv> copy_spec_to_rpc (pl_target ex_plan) (pl_spec ex_plan) 0 ex_hints"

lemma demo_copy_loop:
  assumes "w_takes w1 = None" "w_sent w1 = []"
  shows "\<exists>l w2. copy_loop o' Download demo_schedule (CopyRunning, copy_init Download (ex_frames, None), w1) = Some (CopyEnded, l, w2)
    \<and> w_sent w2 = map copy_frame_response ex_frames @ [CopyComplete []]"
  using assms
  by (simp add: demo_schedule_def numeral_eq_Suc copy_step_def copy_emit_def relay_send_def send_open copy_init_def ex_frames_def
      on_copy_end_def copy_completed_def copy_open_simps)

lemma demo_copy_rpc:
  "\<exists>w'. copy_rpc demo_copy_env caller_local demo_schedule (demo_copy_world demo_download) = Some w'
    \<and> w_sent w' = map copy_frame_response ex_frames @ [CopyComplete []]"
proof -
  let ?spec = "(pl_spec ex_plan)\<lparr>cs_resume := ex_hints\<rparr>" and ?w = "demo_copy_world demo_download"
  obtain start where st: "demo_download = CopyStart start" "copy_spec_from_rpc start = Inr (''web'', ?spec, 0)"
    by (auto simp: copy_spec_to_rpc_def copy_spec_from_rpc_def ex_plan_def)
  from demo_copy_prologue[of demo_download] obtain o' w1 where
    p: "copy_prologue demo_copy_env caller_local ''web'' ?spec 0 (?w\<lparr>w_inbound := []\<rparr>) = (Inr (Some o'), w1)"
      "op_route o' = \<lparr>gateway_name = ''hop'', end_target = ''far:web''\<rparr>" "w_sent w1 = []" "w_takes w1 = None"
    by (auto split: prod.splits sum.splits option.splits)
  have i: "w_inbound ?w = Message (Some (CopyStart start)) # []" using st(1) by (simp add: demo_copy_world_def)
  have g: "gateway_with_capability demo_view (op_route o') cap_copy = Inr \<lparr>gv_kind = KXhod, gv_caps = demo_caps, gv_list = gv_list (the (find_gateway_any demo_view ''hop''))\<rparr>"
    unfolding p(2) by code_simp
  have v: "copy_via_session demo_copy_env (op_route o') ?spec [] = (ex_frames, None)"
  proof -
    have "cs_direction ?spec = Download" by (simp add: ex_plan_def)
    then have "en_copy demo_copy_env (gateway_name (op_route o')) (end_target (op_route o')) ?spec [] = (ex_frames, None)"
      using demo_copy_served ex_download by (simp add: serves_file_def demo_served_def)
    with g show ?thesis by (simp add: copy_via_session_def)
  qed
  have "copy_begin demo_copy_env caller_local ?w = (CopyStarts o' ?spec (copy_init Download (ex_frames, None)), w1)"
    using copy_begin_eq[OF i st(2) p(1)] v by (simp add: copy_transfer_def resume_ack_def ex_plan_def)
  with demo_copy_loop[OF p(4,3), of o'] show ?thesis by (auto simp: copy_rpc_def ex_plan_def)
qed

end
