(* ===== verification/Session_Cache.thy ===== *)
theory Session_Cache
  imports "HOL-Library.Product_Lexorder" Rust_Prelude
begin

text \<open>
  The cache of navigated shells of the jump server gateway (\<^verbatim>\<open>SessionCache\<close> of
  \<^verbatim>\<open>daemon/gateway/jumpserver.rs\<close>): a map of shells ordered by time of use and an index by
  address whose keys go stale when shells are evicted.

  The specification is a plain list of shells, oldest first.  The theorems say that the map
  and its index answer every sequence of operations as the list does, and that an insertion
  returns unless the configured size is zero.  Instants are ticks of a clock that does not
  run backwards; identifiers are unbounded.
\<close>

section \<open>The cache\<close>

type_synonym shell_key = "nat \<times> nat"

record ('sh, 'l) cached_shell_entry =
  ca_ip :: string
  ca_shell :: 'sh
  ca_lease :: 'l

record ('sh, 'l) session_cache =
  lc_shells :: "(shell_key \<times> ('sh, 'l) cached_shell_entry) list"
  lc_by_ip :: "(string \<times> shell_key list) list"
  lc_next_id :: nat
  lc_max :: "nat option"

definition session_cache_new :: "nat option \<Rightarrow> ('sh, 'l) session_cache" where
  "session_cache_new m = \<lparr>lc_shells = [], lc_by_ip = [], lc_next_id = 0, lc_max = m\<rparr>"

definition cache_len :: "('sh, 'l) session_cache \<Rightarrow> nat" where
  "cache_len c = length (lc_shells c)"

text \<open>\<^verbatim>\<open>BTreeMap::insert\<close> for a key that is not there.\<close>

definition btree_insert :: "'k::linorder \<Rightarrow> 'v \<Rightarrow> ('k \<times> 'v) list \<Rightarrow> ('k \<times> 'v) list" where
  "btree_insert k v m = insort_key fst (k, v) m"

text \<open>The loop of \<^verbatim>\<open>checkout\<close> over the keys of an address, the last one first; keys that name no
  shell any more are dropped.\<close>

fun checkout_loop ::
  "(shell_key \<times> ('sh, 'l) cached_shell_entry) list \<Rightarrow> shell_key list
    \<Rightarrow> ('sh option \<times> (shell_key \<times> ('sh, 'l) cached_shell_entry) list \<times> shell_key list)" where
  "checkout_loop shells [] = (None, shells, [])"
| "checkout_loop shells (k # ks) =
    (case map_of shells k of
       Some e \<Rightarrow> (Some (ca_shell e), al_del k shells, ks)
     | None \<Rightarrow> checkout_loop shells ks)"

definition cache_checkout :: "string \<Rightarrow> ('sh, 'l) session_cache \<Rightarrow> 'sh option \<times> ('sh, 'l) session_cache" where
  "cache_checkout ip c =
    (case map_of (lc_by_ip c) ip of
       None \<Rightarrow> (None, c)
     | Some keys \<Rightarrow>
         (case checkout_loop (lc_shells c) (rev keys) of
            (r, shells, ks) \<Rightarrow>
              (r, c\<lparr>lc_shells := shells,
                    lc_by_ip := (if ks = [] then al_del ip (lc_by_ip c) else al_put ip (rev ks) (lc_by_ip c))\<rparr>)))"

text \<open>The eviction loop of \<^verbatim>\<open>insert\<close>; it may not end.\<close>

partial_function (option) evict_loop :: "nat \<Rightarrow> 'a list \<Rightarrow> 'a list option" where
  "evict_loop limit shells = (if limit \<le> length shells then evict_loop limit (tl shells) else Some shells)"

definition cache_insert ::
  "nat \<Rightarrow> string \<Rightarrow> 'sh \<Rightarrow> 'l \<Rightarrow> ('sh, 'l) session_cache \<Rightarrow> ('sh, 'l) session_cache option" where
  "cache_insert now ip shell lease c =
    (case (case lc_max c of Some limit \<Rightarrow> evict_loop limit (lc_shells c) | None \<Rightarrow> Some (lc_shells c)) of
       None \<Rightarrow> None
     | Some shells \<Rightarrow>
         (let key = (now, lc_next_id c)
          in Some (c\<lparr>lc_next_id := lc_next_id c + 1,
               lc_shells := btree_insert key \<lparr>ca_ip = ip, ca_shell = shell, ca_lease = lease\<rparr> shells,
               lc_by_ip := al_put ip ((case map_of (lc_by_ip c) ip of Some ks \<Rightarrow> ks | None \<Rightarrow> []) @ [key]) (lc_by_ip c)\<rparr>)))"

fun index_by_ip :: "(shell_key \<times> ('sh, 'l) cached_shell_entry) list \<Rightarrow> (string \<times> shell_key list) list \<Rightarrow> (string \<times> shell_key list) list" where
  "index_by_ip [] idx = idx"
| "index_by_ip ((k, e) # shells) idx =
    index_by_ip shells (al_put (ca_ip e) ((case map_of idx (ca_ip e) of Some ks \<Rightarrow> ks | None \<Rightarrow> []) @ [k]) idx)"

definition cache_prune :: "nat \<Rightarrow> nat \<Rightarrow> ('sh, 'l) session_cache \<Rightarrow> ('sh, 'l) session_cache" where
  "cache_prune now idle_timeout c =
    (let shells = dropWhile (\<lambda>((t, _), _). idle_timeout < now - t) (lc_shells c)
     in if length shells = length (lc_shells c) then c
        else c\<lparr>lc_shells := shells, lc_by_ip := index_by_ip shells []\<rparr>)"

definition cache_clear :: "('sh, 'l) session_cache \<Rightarrow> ('sh, 'l) session_cache" where
  "cache_clear c = c\<lparr>lc_shells := [], lc_by_ip := []\<rparr>"

section \<open>The specification\<close>

text \<open>Shells with their time of use and address, the oldest first.\<close>

type_synonym 'sh shelf = "(nat \<times> string \<times> 'sh) list"

definition shelf_checkout :: "string \<Rightarrow> 'sh shelf \<Rightarrow> 'sh option \<times> 'sh shelf" where
  "shelf_checkout ip xs =
    (case List.extract (\<lambda>x. fst (snd x) = ip) (rev xs) of
       None \<Rightarrow> (None, xs)
     | Some (newer, x, older) \<Rightarrow> (Some (snd (snd x)), rev older @ rev newer))"

definition shelf_insert :: "nat option \<Rightarrow> nat \<Rightarrow> string \<Rightarrow> 'sh \<Rightarrow> 'sh shelf \<Rightarrow> 'sh shelf" where
  "shelf_insert limit now ip shell xs =
    (case limit of Some n \<Rightarrow> drop (length xs + 1 - n) xs | None \<Rightarrow> xs) @ [(now, ip, shell)]"

definition shelf_prune :: "nat \<Rightarrow> nat \<Rightarrow> 'sh shelf \<Rightarrow> 'sh shelf" where
  "shelf_prune now idle xs = filter (\<lambda>(t, _, _). now - t \<le> idle) xs"

datatype ('sh, 'l) cache_op = Checkout string | Insert string 'sh 'l | Prune nat | Clear

fun cache_step ::
  "nat \<times> ('sh, 'l) cache_op \<Rightarrow> ('sh, 'l) session_cache \<Rightarrow> ('sh option \<times> ('sh, 'l) session_cache) option" where
  "cache_step (now, Checkout ip) c = Some (cache_checkout ip c)"
| "cache_step (now, Insert ip shell lease) c = map_option (Pair None) (cache_insert now ip shell lease c)"
| "cache_step (now, Prune idle) c = Some (None, cache_prune now idle c)"
| "cache_step (now, Clear) c = Some (None, cache_clear c)"

fun shelf_step :: "nat option \<Rightarrow> nat \<times> ('sh, 'l) cache_op \<Rightarrow> 'sh shelf \<Rightarrow> 'sh option \<times> 'sh shelf" where
  "shelf_step limit (now, Checkout ip) xs = shelf_checkout ip xs"
| "shelf_step limit (now, Insert ip shell lease) xs = (None, shelf_insert limit now ip shell xs)"
| "shelf_step limit (now, Prune idle) xs = (None, shelf_prune now idle xs)"
| "shelf_step limit (now, Clear) xs = (None, [])"

text \<open>Sequences of operations: the results, and the state they end in.\<close>

fun run_steps :: "('x \<Rightarrow> 's \<Rightarrow> ('r \<times> 's) option) \<Rightarrow> 'x list \<Rightarrow> 's \<Rightarrow> ('r list \<times> 's) option" where
  "run_steps step [] s = Some ([], s)"
| "run_steps step (x # xs) s =
    (case step x s of
       None \<Rightarrow> None
     | Some (r, s) \<Rightarrow> (case run_steps step xs s of None \<Rightarrow> None | Some (rs, s) \<Rightarrow> Some (r # rs, s)))"

fun run_spec :: "('x \<Rightarrow> 'a \<Rightarrow> 'r \<times> 'a) \<Rightarrow> 'x list \<Rightarrow> 'a \<Rightarrow> 'r list \<times> 'a" where
  "run_spec spec [] a = ([], a)"
| "run_spec spec (x # xs) a = (let (r, a) = spec x a; (rs, a) = run_spec spec xs a in (r # rs, a))"

definition cache_run ::
  "(nat \<times> ('sh, 'l) cache_op) list \<Rightarrow> ('sh, 'l) session_cache \<Rightarrow> ('sh option list \<times> ('sh, 'l) session_cache) option" where
  "cache_run = run_steps cache_step"

definition shelf_run :: "nat option \<Rightarrow> (nat \<times> ('sh, 'l) cache_op) list \<Rightarrow> 'sh shelf \<Rightarrow> 'sh option list \<times> 'sh shelf" where
  "shelf_run limit = run_spec (shelf_step limit)"

section \<open>The refinement\<close>

definition shelf_of :: "('sh, 'l) session_cache \<Rightarrow> 'sh shelf" where
  "shelf_of c = map (\<lambda>x. (fst (fst x), ca_ip (snd x), ca_shell (snd x))) (lc_shells c)"

definition keys_of :: "string \<Rightarrow> (string \<times> shell_key list) list \<Rightarrow> shell_key list" where
  "keys_of ip idx = (case map_of idx ip of Some ks \<Rightarrow> ks | None \<Rightarrow> [])"

definition live_keys :: "string \<Rightarrow> (shell_key \<times> ('sh, 'l) cached_shell_entry) list \<Rightarrow> shell_key list" where
  "live_keys ip shells = map fst (filter (\<lambda>x. ca_ip (snd x) = ip) shells)"

definition indexes ::
  "(shell_key \<times> ('sh, 'l) cached_shell_entry) list \<Rightarrow> (string \<times> shell_key list) list \<Rightarrow> bool" where
  "indexes shells idx \<longleftrightarrow>
    (\<forall>ip. filter (\<lambda>k. k \<in> fst ` set shells) (keys_of ip idx) = live_keys ip shells)"

definition cache_inv :: "nat \<Rightarrow> ('sh, 'l) session_cache \<Rightarrow> bool" where
  "cache_inv clock c \<longleftrightarrow>
    sorted_wrt (<) (map fst (lc_shells c))
    \<and> (\<forall>x \<in> set (lc_shells c). fst (fst x) \<le> clock \<and> snd (fst x) < lc_next_id c)
    \<and> (\<forall>ip. \<forall>k \<in> set (keys_of ip (lc_by_ip c)). snd k < lc_next_id c)
    \<and> indexes (lc_shells c) (lc_by_ip c)"

lemma keys_of_simps [simp]:
  "keys_of ip [] = []"
  "keys_of ip (al_put ip' ks idx) = (if ip = ip' then ks else keys_of ip idx)"
  "keys_of ip (al_del ip' idx) = (if ip = ip' then [] else keys_of ip idx)"
  by (auto simp: keys_of_def)

lemma live_keys_simps [simp]:
  "live_keys ip [] = []"
  "live_keys ip (x # xs) = (if ca_ip (snd x) = ip then [fst x] else []) @ live_keys ip xs"
  "live_keys ip (xs @ ys) = live_keys ip xs @ live_keys ip ys"
  by (auto simp: live_keys_def split: prod.splits)

lemma live_keys_subset: "set (live_keys ip shells) \<subseteq> fst ` set shells"
  by (auto simp: live_keys_def)

lemma live_keys_empty: "live_keys ip shells = [] \<longleftrightarrow> (\<forall>x \<in> set shells. ca_ip (snd x) \<noteq> ip)"
  by (induction shells) auto

text \<open>What the loop of \<^const>\<open>checkout_loop\<close> finds: the first live key.\<close>

lemma checkout_loop_none:
  "filter (\<lambda>k. k \<in> fst ` set shells) ks = [] \<Longrightarrow> checkout_loop shells ks = (None, shells, [])"
proof (induction ks)
  case (Cons k ks)
  then have "map_of shells k = None" by (auto simp: map_of_eq_None_iff split: if_splits)
  with Cons show ?case by (auto split: if_splits)
qed simp

lemma checkout_loop_some:
  "filter (\<lambda>k. k \<in> fst ` set shells) ks = k # live \<Longrightarrow> map_of shells k = Some e \<Longrightarrow>
    \<exists>rest. checkout_loop shells ks = (Some (ca_shell e), al_del k shells, rest)
      \<and> filter (\<lambda>k. k \<in> fst ` set shells) rest = live \<and> set rest \<subseteq> set ks"
proof (induction ks)
  case (Cons j ks)
  show ?case
  proof (cases "map_of shells j")
    case None
    then have "j \<notin> fst ` set shells" by (simp add: map_of_eq_None_iff)
    with Cons obtain rest where "checkout_loop shells ks = (Some (ca_shell e), al_del k shells, rest)"
      "filter (\<lambda>k. k \<in> fst ` set shells) rest = live" "set rest \<subseteq> set ks" by auto
    with None show ?thesis by auto
  next
    case (Some e')
    then have "j \<in> fst ` set shells" by (metis fst_conv image_eqI map_of_SomeD)
    with Cons.prems Some show ?thesis by auto
  qed
qed simp

lemma sorted_keys_distinct: "sorted_wrt (<) (map fst (xs :: ('k::linorder \<times> 'v) list)) \<Longrightarrow> distinct (map fst xs)"
  by (simp add: strict_sorted_iff)

lemma al_del_middle:
  assumes "distinct (map fst (xs @ (k, e) # ys))"
  shows "al_del k (xs @ (k, e) # ys) = xs @ ys"
proof -
  have "\<forall>x \<in> set xs. fst x \<noteq> k" "\<forall>x \<in> set ys. fst x \<noteq> k" using assms by auto
  then have "filter (\<lambda>x. fst x \<noteq> k) xs = xs" "filter (\<lambda>x. fst x \<noteq> k) ys = ys" by (simp_all add: filter_id_conv)
  then show ?thesis by (simp add: al_del_def case_prod_unfold)
qed

lemma map_of_middle:
  assumes "distinct (map fst (xs @ (k, e) # ys))"
  shows "map_of (xs @ (k, e) # ys) k = Some e"
  unfolding map_of_eq_Some_iff[OF assms] by simp

lemma extract_none: "(\<forall>x \<in> set xs. \<not> P x) \<Longrightarrow> List.extract P xs = None"
  by (simp add: extract_None_iff)

lemma extract_some: "(\<forall>x \<in> set xs. \<not> P x) \<Longrightarrow> P y \<Longrightarrow> List.extract P (xs @ y # ys) = Some (xs, y, ys)"
  by (simp add: extract_Some_iff)

lemma filter_subset: "set ks \<subseteq> A \<Longrightarrow> filter (\<lambda>k. k \<in> A) ks = ks"
  by (simp add: filter_id_conv subset_iff)

lemma filter_conj_live:
  "filter (\<lambda>k. k \<in> A) ks = live \<Longrightarrow> B \<subseteq> A \<Longrightarrow> filter (\<lambda>k. k \<in> B) ks = filter (\<lambda>k. k \<in> B) live"
  by (induction ks arbitrary: live) auto

lemma cache_checkout_refines:
  assumes inv: "cache_inv clock c"
  shows "fst (cache_checkout ip c) = fst (shelf_checkout ip (shelf_of c))
    \<and> shelf_of (snd (cache_checkout ip c)) = snd (shelf_checkout ip (shelf_of c))
    \<and> cache_inv clock (snd (cache_checkout ip c))
    \<and> lc_max (snd (cache_checkout ip c)) = lc_max c"
proof (cases "\<exists>x \<in> set (lc_shells c). ca_ip (snd x) = ip")
  case False
  then have none: "live_keys ip (lc_shells c) = []" by (auto simp: live_keys_empty)
  with inv have "filter (\<lambda>k. k \<in> fst ` set (lc_shells c)) (keys_of ip (lc_by_ip c)) = []"
    by (auto simp: cache_inv_def indexes_def)
  then have "filter (\<lambda>k. k \<in> fst ` set (lc_shells c)) (rev (keys_of ip (lc_by_ip c))) = []"
    by (simp add: rev_filter[symmetric])
  note loop = checkout_loop_none[OF this]
  have spec: "shelf_checkout ip (shelf_of c) = (None, shelf_of c)"
    using extract_none[of "rev (shelf_of c)" "\<lambda>x. fst (snd x) = ip"] False
    by (simp add: shelf_checkout_def shelf_of_def)
  show ?thesis
  proof (cases "map_of (lc_by_ip c) ip")
    case None
    then show ?thesis using inv spec by (simp add: cache_checkout_def)
  next
    case (Some ks)
    then have "cache_checkout ip c = (None, c\<lparr>lc_by_ip := al_del ip (lc_by_ip c)\<rparr>)"
      using loop by (simp add: cache_checkout_def keys_of_def)
    moreover have "cache_inv clock (c\<lparr>lc_by_ip := al_del ip (lc_by_ip c)\<rparr>)"
      using inv none by (simp add: cache_inv_def indexes_def)
    ultimately show ?thesis using spec by (simp add: shelf_of_def)
  qed
next
  case True
  then obtain xs k e ys where c: "lc_shells c = xs @ (k, e) # ys" and e: "ca_ip e = ip"
    and ys: "\<forall>x \<in> set ys. ca_ip (snd x) \<noteq> ip"
    using split_list_last_prop[of "lc_shells c" "\<lambda>x. ca_ip (snd x) = ip"] by (metis prod.collapse snd_conv)
  have sorted: "sorted_wrt (<) (map fst (xs @ (k, e) # ys))" using inv c by (simp add: cache_inv_def)
  note dist = sorted_keys_distinct[OF this]
  let ?ks = "keys_of ip (lc_by_ip c)"
  have ysl: "live_keys ip ys = []" using ys by (simp add: live_keys_empty)
  have "filter (\<lambda>k. k \<in> fst ` set (lc_shells c)) ?ks = live_keys ip xs @ [k]"
    using inv e ysl unfolding cache_inv_def indexes_def c by simp
  then have live: "filter (\<lambda>k. k \<in> fst ` set (lc_shells c)) (rev ?ks) = k # rev (live_keys ip xs)"
    by (simp add: rev_filter[symmetric])
  obtain rest where loop: "checkout_loop (lc_shells c) (rev ?ks) = (Some (ca_shell e), al_del k (lc_shells c), rest)"
    and rest: "filter (\<lambda>k. k \<in> fst ` set (lc_shells c)) rest = rev (live_keys ip xs)" and sub: "set rest \<subseteq> set ?ks"
    using checkout_loop_some[OF live, of e] map_of_middle[OF dist] c by auto
  have del: "al_del k (lc_shells c) = xs @ ys" using al_del_middle[OF dist] c by simp
  let ?c' = "snd (cache_checkout ip c)"
  have some: "map_of (lc_by_ip c) ip = Some ?ks" using live by (auto simp: keys_of_def split: option.splits)
  have out: "cache_checkout ip c = (Some (ca_shell e), c\<lparr>lc_shells := xs @ ys,
      lc_by_ip := (if rest = [] then al_del ip (lc_by_ip c) else al_put ip (rev rest) (lc_by_ip c))\<rparr>)"
    by (simp add: cache_checkout_def some loop del)
  have run: "cache_checkout ip c = (Some (ca_shell e), ?c')" "lc_shells ?c' = xs @ ys"
    "lc_next_id ?c' = lc_next_id c" "lc_max ?c' = lc_max c"
    "\<And>i. keys_of i (lc_by_ip ?c') = (if i = ip then rev rest else keys_of i (lc_by_ip c))"
    by (simp_all add: out)
  have spec: "shelf_checkout ip (shelf_of c)
      = (Some (ca_shell e), map (\<lambda>x. (fst (fst x), ca_ip (snd x), ca_shell (snd x))) (xs @ ys))"
    using extract_some[of "rev (map (\<lambda>x. (fst (fst x), ca_ip (snd x), ca_shell (snd x))) ys)" "\<lambda>x. fst (snd x) = ip"
        "(fst k, ca_ip e, ca_shell e)"] e ys
    by (simp add: shelf_checkout_def shelf_of_def c)
  have sub2: "fst ` set (xs @ ys) \<subseteq> fst ` set (lc_shells c)" by (auto simp: c)
  have ix: "filter (\<lambda>k. k \<in> fst ` set (xs @ ys)) (keys_of i (lc_by_ip ?c')) = live_keys i (xs @ ys)" for i
  proof (cases "i = ip")
    case True
    have "filter (\<lambda>k. k \<in> fst ` set (xs @ ys)) (rev rest) = filter (\<lambda>k. k \<in> fst ` set (xs @ ys)) (live_keys ip xs)"
      using filter_conj_live[OF rest sub2] by (simp add: rev_filter[symmetric])
    also have "\<dots> = live_keys ip xs" by (rule filter_subset) (use live_keys_subset[of ip xs] in auto)
    finally show ?thesis unfolding run(5) using True ysl by simp
  next
    case False
    have "filter (\<lambda>k. k \<in> fst ` set (lc_shells c)) (keys_of i (lc_by_ip c)) = live_keys i (lc_shells c)"
      using inv by (simp add: cache_inv_def indexes_def)
    also have "\<dots> = live_keys i (xs @ ys)" using False e by (simp add: c)
    finally have "filter (\<lambda>k. k \<in> fst ` set (xs @ ys)) (keys_of i (lc_by_ip c))
        = filter (\<lambda>k. k \<in> fst ` set (xs @ ys)) (live_keys i (xs @ ys))" by (rule filter_conj_live[OF _ sub2])
    also have "\<dots> = live_keys i (xs @ ys)" by (rule filter_subset) (rule live_keys_subset)
    finally show ?thesis unfolding run(5) using False by simp
  qed
  have "cache_inv clock ?c'"
    unfolding cache_inv_def indexes_def run(2-5)
  proof (intro conjI allI)
    show "sorted_wrt (<) (map fst (xs @ ys))" using sorted by (simp add: sorted_wrt_append)
    show "\<forall>x\<in>set (xs @ ys). fst (fst x) \<le> clock \<and> snd (fst x) < lc_next_id c"
      using inv c by (auto simp: cache_inv_def)
    show "\<forall>k\<in>set (if i = ip then rev rest else keys_of i (lc_by_ip c)). snd k < lc_next_id c" for i
      using inv sub by (auto simp: cache_inv_def)
    show "filter (\<lambda>k. k \<in> fst ` set (xs @ ys)) (if i = ip then rev rest else keys_of i (lc_by_ip c)) = live_keys i (xs @ ys)" for i
      using ix[of i] unfolding run(5) .
  qed
  moreover have "fst (cache_checkout ip c) = Some (ca_shell e)" by (simp add: out)
  ultimately show ?thesis using spec by (simp add: shelf_of_def run(2,4))
qed


lemma cache_inv_suffix:
  assumes inv: "cache_inv clock c" and shells: "lc_shells c = gone @ kept"
  shows "cache_inv clock (c\<lparr>lc_shells := kept\<rparr>)"
proof -
  have sorted: "sorted_wrt (<) (map fst (gone @ kept))" using inv shells by (simp add: cache_inv_def)
  note dist = sorted_keys_distinct[OF this]
  have "filter (\<lambda>k. k \<in> fst ` set kept) (keys_of ip (lc_by_ip c)) = live_keys ip kept" for ip
  proof -
    have sub: "fst ` set kept \<subseteq> fst ` set (gone @ kept)" by auto
    have gone: "filter (\<lambda>k. k \<in> fst ` set kept) (live_keys ip gone) = []"
    proof -
      have "fst ` set gone \<inter> fst ` set kept = {}" using dist by simp
      then have "\<forall>k \<in> set (live_keys ip gone). k \<notin> fst ` set kept" using live_keys_subset[of ip gone] by blast
      then show ?thesis by (simp add: filter_empty_conv)
    qed
    have "filter (\<lambda>k. k \<in> fst ` set (gone @ kept)) (keys_of ip (lc_by_ip c)) = live_keys ip (gone @ kept)"
      using inv unfolding cache_inv_def indexes_def shells by blast
    then have "filter (\<lambda>k. k \<in> fst ` set kept) (keys_of ip (lc_by_ip c))
        = filter (\<lambda>k. k \<in> fst ` set kept) (live_keys ip (gone @ kept))" by (rule filter_conj_live[OF _ sub])
    also have "\<dots> = live_keys ip kept"
      unfolding live_keys_simps filter_append gone by (simp add: filter_subset[OF live_keys_subset])
    finally show ?thesis .
  qed
  then show ?thesis using inv sorted shells by (simp add: cache_inv_def indexes_def sorted_wrt_append)
qed

lemma evict_loop_terminates:
  assumes "0 < limit"
  shows "evict_loop limit shells = Some (drop (length shells + 1 - limit) shells)"
proof (induction "length shells" arbitrary: shells)
  case 0
  then show ?case using assms by (simp add: evict_loop.simps[of limit "[]"])
next
  case (Suc n)
  show ?case
  proof (cases "limit \<le> length shells")
    case True
    have n: "n = length (tl shells)" using Suc by simp
    have "evict_loop limit shells = evict_loop limit (tl shells)"
      by (subst evict_loop.simps) (simp add: True)
    also have "\<dots> = Some (drop (length (tl shells) + 1 - limit) (tl shells))" using Suc(1)[OF n] .
    also have "drop (length (tl shells) + 1 - limit) (tl shells) = drop (Suc (length (tl shells) + 1 - limit)) shells"
      by (simp add: drop_Suc)
    also have "Suc (length (tl shells) + 1 - limit) = length shells + 1 - limit" using True Suc(2) n by simp
    finally show ?thesis .
  next
    case False
    then show ?thesis by (subst evict_loop.simps) simp
  qed
qed

lemma evict_loop_zero: "evict_loop limit shells = Some out \<Longrightarrow> limit \<noteq> 0"
  by (erule evict_loop.raw_induct[rotated, where P = "\<lambda>limit _ _. limit \<noteq> 0"]) (auto split: if_splits)

lemma btree_insert_last:
  "(\<forall>x \<in> set m. fst x < k) \<Longrightarrow> btree_insert k v m = m @ [(k, v)]"
  unfolding btree_insert_def by (induction m) (auto simp: not_le[symmetric])

lemma cache_insert_refines:
  assumes inv: "cache_inv clock c" and clock: "clock \<le> now" and max: "lc_max c \<noteq> Some 0"
  shows "\<exists>c'. cache_insert now ip shell lease c = Some c'
    \<and> shelf_of c' = shelf_insert (lc_max c) now ip shell (shelf_of c)
    \<and> cache_inv now c' \<and> lc_max c' = lc_max c"
proof -
  define gone where "gone = (case lc_max c of Some n \<Rightarrow> length (lc_shells c) + 1 - n | None \<Rightarrow> 0)"
  define kept where "kept = drop gone (lc_shells c)"
  let ?key = "(now, lc_next_id c)" and ?e = "\<lparr>ca_ip = ip, ca_shell = shell, ca_lease = lease\<rparr>"
  have evict: "(case lc_max c of Some limit \<Rightarrow> evict_loop limit (lc_shells c) | None \<Rightarrow> Some (lc_shells c)) = Some kept"
    using max by (auto simp: kept_def gone_def evict_loop_terminates split: option.splits)
  have "lc_shells c = take gone (lc_shells c) @ kept" by (simp add: kept_def)
  note inv1 = cache_inv_suffix[OF inv this]
  have last: "\<forall>x \<in> set kept. fst x < ?key"
    using inv1 clock by (force simp: cache_inv_def less_prod_def')
  have fresh: "?key \<notin> fst ` set kept" using last by auto
  let ?ks = "keys_of ip (lc_by_ip c)"
  let ?c' = "c\<lparr>lc_next_id := lc_next_id c + 1, lc_shells := kept @ [(?key, ?e)],
      lc_by_ip := al_put ip (?ks @ [?key]) (lc_by_ip c)\<rparr>"
  have run: "cache_insert now ip shell lease c = Some ?c'"
    unfolding cache_insert_def evict using btree_insert_last[OF last] by (simp add: Let_def keys_of_def)
  have shelf: "shelf_of ?c' = shelf_insert (lc_max c) now ip shell (shelf_of c)"
    by (simp add: shelf_of_def shelf_insert_def kept_def gone_def drop_map split: option.splits)
  have ids: "\<forall>k \<in> set (keys_of i (lc_by_ip c)). snd k < lc_next_id c" for i using inv by (simp add: cache_inv_def)
  have same: "filter (\<lambda>k. k \<in> fst ` set (kept @ [(?key, ?e)])) (keys_of i (lc_by_ip c)) = live_keys i kept" for i
  proof -
    have "filter (\<lambda>k. k \<in> fst ` set (kept @ [(?key, ?e)])) (keys_of i (lc_by_ip c))
        = filter (\<lambda>k. k \<in> fst ` set kept) (keys_of i (lc_by_ip c))"
      using ids[of i] by (intro filter_cong) auto
    then show ?thesis using inv1 by (simp add: cache_inv_def indexes_def)
  qed
  have "indexes (lc_shells ?c') (lc_by_ip ?c')"
    unfolding indexes_def using same by simp
  moreover have "\<forall>i. \<forall>k \<in> set (keys_of i (lc_by_ip ?c')). snd k < lc_next_id ?c'"
    using ids by (auto simp: less_Suc_eq)
  moreover have "sorted_wrt (<) (map fst (lc_shells ?c'))"
    using inv1 last by (simp add: cache_inv_def sorted_wrt_append)
  moreover have "\<forall>x \<in> set (lc_shells ?c'). fst (fst x) \<le> now \<and> snd (fst x) < lc_next_id ?c'"
    using inv1 clock by (force simp: cache_inv_def)
  ultimately have "cache_inv now ?c'" unfolding cache_inv_def by blast
  with run shelf show ?thesis by (intro exI[of _ ?c']) simp
qed

text \<open>A rebuilt index has no stale keys.\<close>

lemma index_by_ip_keys: "keys_of ip (index_by_ip shells idx) = keys_of ip idx @ live_keys ip shells"
  by (induction shells idx rule: index_by_ip.induct) (auto simp: keys_of_def)

lemma prune_filter:
  "sorted_wrt (<) (map fst (xs :: (shell_key \<times> 'v) list)) \<Longrightarrow>
    dropWhile (\<lambda>((t, _), _). idle < now - t) xs = filter (\<lambda>x. now - fst (fst x) \<le> idle) xs"
proof (induction xs)
  case (Cons x xs)
  show ?case
  proof (cases "idle < now - fst (fst x)")
    case True
    then show ?thesis using Cons by (simp add: case_prod_unfold)
  next
    case False
    have "now - fst (fst y) \<le> idle" if "y \<in> set xs" for y
    proof -
      have "fst x < fst y" using Cons.prems that by auto
      then have "fst (fst x) \<le> fst (fst y)" by (auto simp: less_prod_def')
      then show ?thesis using False by linarith
    qed
    then show ?thesis using False by (simp add: case_prod_unfold filter_id_conv)
  qed
qed simp

lemma cache_inv_reindexed:
  assumes inv: "cache_inv clock (c\<lparr>lc_shells := kept\<rparr>)"
  shows "cache_inv clock (c\<lparr>lc_shells := kept, lc_by_ip := index_by_ip kept []\<rparr>)"
proof -
  have "snd k < lc_next_id c" if "k \<in> set (live_keys ip kept)" for ip k
  proof -
    have "k \<in> fst ` set kept" using that live_keys_subset by blast
    then show ?thesis using inv by (auto simp: cache_inv_def)
  qed
  then show ?thesis using inv
    by (simp add: cache_inv_def indexes_def index_by_ip_keys filter_subset[OF live_keys_subset])
qed

lemma cache_prune_refines:
  assumes inv: "cache_inv clock c"
  shows "shelf_of (cache_prune now idle c) = shelf_prune now idle (shelf_of c)
    \<and> cache_inv clock (cache_prune now idle c) \<and> lc_max (cache_prune now idle c) = lc_max c"
proof -
  let ?P = "\<lambda>((t, _), _). idle < now - t"
  let ?kept = "dropWhile ?P (lc_shells c)"
  have shells: "lc_shells c = takeWhile ?P (lc_shells c) @ ?kept" by simp
  note inv1 = cache_inv_suffix[OF inv shells]
  have spec: "?kept = filter (\<lambda>x. now - fst (fst x) \<le> idle) (lc_shells c)"
    by (rule prune_filter) (use inv in \<open>simp add: cache_inv_def\<close>)
  have shelf: "shelf_prune now idle (shelf_of c) = shelf_of (c\<lparr>lc_shells := ?kept\<rparr>)"
    unfolding spec by (simp add: shelf_prune_def shelf_of_def filter_map o_def case_prod_unfold)
  show ?thesis
  proof (cases "length ?kept = length (lc_shells c)")
    case True
    then have "?kept = lc_shells c" using shells by (metis append_self_conv2 length_append add_cancel_left_left length_0_conv)
    with True shelf inv show ?thesis by (simp add: cache_prune_def Let_def)
  next
    case False
    then have run: "cache_prune now idle c = c\<lparr>lc_shells := ?kept, lc_by_ip := index_by_ip ?kept []\<rparr>"
      by (simp add: cache_prune_def Let_def)
    have "cache_inv clock (c\<lparr>lc_shells := ?kept, lc_by_ip := index_by_ip ?kept []\<rparr>)"
      using inv1 by (rule cache_inv_reindexed)
    then show ?thesis unfolding run shelf by (simp add: shelf_of_def)
  qed
qed


text \<open>
  A component whose operations happen at instants, and its specification: every operation at
  an instant not before the last one returns what the specification returns and keeps the
  two related.
\<close>

locale timed_simulation =
  fixes step :: "nat \<times> 'o \<Rightarrow> 's \<Rightarrow> ('r \<times> 's) option"
    and spec :: "nat \<times> 'o \<Rightarrow> 'a \<Rightarrow> 'r \<times> 'a"
    and related :: "nat \<Rightarrow> 's \<Rightarrow> 'a \<Rightarrow> bool"
  assumes simulates: "related clock s a \<Longrightarrow> clock \<le> fst x \<Longrightarrow>
    \<exists>s'. step x s = Some (fst (spec x a), s') \<and> related (fst x) s' (snd (spec x a))"
begin

lemma steps_simulate:
  "related clock s a \<Longrightarrow> sorted (clock # map fst xs) \<Longrightarrow>
    \<exists>clock' s'. run_steps step xs s = Some (fst (run_spec spec xs a), s') \<and> related clock' s' (snd (run_spec spec xs a))"
proof (induction xs arbitrary: clock s a)
  case (Cons x xs)
  obtain s' where s': "step x s = Some (fst (spec x a), s')" "related (fst x) s' (snd (spec x a))"
    using simulates[OF Cons.prems(1), of x] Cons.prems(2) by auto
  have "sorted (fst x # map fst xs)" using Cons.prems(2) by simp
  from Cons.IH[OF s'(2) this] s'(1) show ?case by (auto simp: case_prod_unfold Let_def)
qed auto

end

definition shelf_related ::
  "nat option \<Rightarrow> nat \<Rightarrow> ('sh, 'l) session_cache \<Rightarrow> 'sh shelf \<Rightarrow> bool" where
  "shelf_related limit clock c xs \<longleftrightarrow>
    cache_inv clock c \<and> lc_max c = limit \<and> shelf_of c = xs \<and> limit \<noteq> Some 0"

lemma cache_inv_later: "cache_inv clock c \<Longrightarrow> clock \<le> now \<Longrightarrow> cache_inv now c"
  by (fastforce simp: cache_inv_def)

lemma cache_clear_inv: "cache_inv clock c \<Longrightarrow> cache_inv now (cache_clear c)"
  by (simp add: cache_inv_def cache_clear_def indexes_def)

lemma cache_step_refines:
  assumes rel: "shelf_related limit clock c xs" and time: "clock \<le> fst x"
  shows "\<exists>c'. cache_step x c = Some (fst (shelf_step limit x xs), c')
    \<and> shelf_related limit (fst x) c' (snd (shelf_step limit x xs))"
proof -
  note r = rel[unfolded shelf_related_def]
  have inv: "cache_inv (fst x) c" using r time cache_inv_later by blast
  obtain now op where x: "x = (now, op)" by (cases x)
  show ?thesis
  proof (cases op)
    case (Checkout ip)
    note co = cache_checkout_refines[OF inv, of ip]
    then have "cache_checkout ip c = (fst (shelf_checkout ip (shelf_of c)), snd (cache_checkout ip c))"
      by (metis prod.collapse)
    then have "cache_step x c = Some (fst (shelf_checkout ip (shelf_of c)), snd (cache_checkout ip c))"
      using Checkout x by simp
    with co r Checkout x show ?thesis by (intro exI[of _ "snd (cache_checkout ip c)"]) (simp add: shelf_related_def)
  next
    case (Insert ip shell lease)
    then show ?thesis using cache_insert_refines[OF inv order_refl, of ip shell lease] r x
      by (auto simp: shelf_related_def)
  next
    case (Prune idle)
    then show ?thesis using cache_prune_refines[OF inv, of now idle] r x by (simp add: shelf_related_def)
  next
    case Clear
    then show ?thesis using cache_clear_inv[OF inv] r x
      by (simp add: shelf_related_def shelf_of_def cache_clear_def)
  qed
qed

interpretation shelf: timed_simulation cache_step "shelf_step limit" "shelf_related limit" for limit
  by unfold_locales (rule cache_step_refines)

section \<open>Properties\<close>

text \<open>C8. The cache answers every sequence of check-outs, insertions, prunings and clears as a
  plain list of shells, oldest first, does: a check-out takes the shell of the address that was
  used last and is not evicted, an insertion evicts the oldest shells of any address until there
  is room, pruning removes exactly the expired ones.  The stale keys the index holds are never
  visible.\<close>

theorem cache_refines_shelf:
  assumes "sorted (map fst ops)" "limit \<noteq> Some 0"
  shows "\<exists>c. cache_run ops (session_cache_new limit) = Some (fst (shelf_run limit ops []), c)
    \<and> shelf_of c = snd (shelf_run limit ops [])"
proof -
  have "shelf_related limit 0 (session_cache_new limit) []"
    using assms(2) by (simp add: shelf_related_def cache_inv_def session_cache_new_def indexes_def shelf_of_def)
  from shelf.steps_simulate[OF this] assms(1) show ?thesis
    by (auto simp: cache_run_def shelf_run_def shelf_related_def)
qed

definition demo_ops :: "(nat \<times> (nat, unit) cache_op) list" where
  "demo_ops = [(1, Insert ''10.0.0.1'' 1 ()), (2, Insert ''10.0.0.2'' 2 ()), (3, Insert ''10.0.0.1'' 3 ()),
    (4, Checkout ''10.0.0.1''), (5, Checkout ''10.0.0.1''), (6, Prune 3), (7, Checkout ''10.0.0.2'')]"

theorem cache_refines_shelf_witness:
  "fst (shelf_run (Some 2) demo_ops []) = [None, None, None, Some 3, None, None, None]
    \<and> (\<exists>c. cache_run demo_ops (session_cache_new (Some 2))
        = Some ([None, None, None, Some 3, None, None, None], c))"
proof -
  have "fst (shelf_run (Some 2) demo_ops []) = [None, None, None, Some 3, None, None, None]" by code_simp
  moreover have "sorted (map fst demo_ops)" by (simp add: demo_ops_def)
  ultimately show ?thesis using cache_refines_shelf[of demo_ops "Some 2"] by auto
qed

text \<open>C36. An insertion into the cache returns exactly when the configured size is not zero: with
  \<^verbatim>\<open>max_cached_sessions = 0\<close> the eviction loop pops from an empty map for ever.\<close>

theorem cache_insert_returns:
  "(\<exists>c'. cache_insert now ip shell lease c = Some c') \<longleftrightarrow> lc_max c \<noteq> Some 0"
proof (cases "lc_max c")
  case (Some n)
  show ?thesis
  proof (cases "n = 0")
    case True
    then have "evict_loop n (lc_shells c) = None" using evict_loop_zero[of n "lc_shells c"] by (cases "evict_loop n (lc_shells c)") auto
    with True Some show ?thesis by (simp add: cache_insert_def)
  next
    case False
    then show ?thesis using Some by (simp add: cache_insert_def evict_loop_terminates Let_def)
  qed
qed (simp add: cache_insert_def Let_def)

end
