(* ===== verification/Pty_Shell.thy ===== *)
theory Pty_Shell
  imports Base64_Codec Sentinel_Scanner
begin

text \<open>
  The PTY shell of the jump server engine (\<^verbatim>\<open>PtyShell\<close> of \<^verbatim>\<open>daemon/jumpserver_engine.rs\<close>): prompt
  detection, ANSI stripping, and the ways a command runs through a terminal, in cooked mode
  (completion by prompt), in raw mode (completion by sentinel, the payload plain or base64), as
  a binary upload, and as a byte-for-byte passthrough.

  A shell holds the bytes read and not used (\<^verbatim>\<open>pending\<close>), what it wrote, and what the channel is
  going to deliver: messages, and the silences that are longer than the timeout of the call that
  waits.  A channel with nothing more to deliver stays silent.  Markers are arguments; they hold
  the random part the source draws.
\<close>

section \<open>Lossy decoding\<close>

text \<open>One step of \<^verbatim>\<open>String::from_utf8_lossy\<close>: whether the bytes at the front are a character, and how
  many of them the character or the broken sequence takes.\<close>

definition in_range :: "nat \<Rightarrow> nat \<Rightarrow> char \<Rightarrow> bool" where
  "in_range lo hi c \<longleftrightarrow> lo \<le> byte c \<and> byte c \<le> hi"

definition nth_ok :: "nat \<Rightarrow> nat \<Rightarrow> nat \<Rightarrow> string \<Rightarrow> bool" where
  "nth_ok i lo hi s \<longleftrightarrow> i < length s \<and> in_range lo hi (s ! i)"

definition second_range :: "char \<Rightarrow> nat \<times> nat" where
  "second_range c =
    (if byte c = 0xE0 then (0xA0, 0xBF) else if byte c = 0xED then (0x80, 0x9F)
     else if byte c = 0xF0 then (0x90, 0xBF) else if byte c = 0xF4 then (0x80, 0x8F)
     else (0x80, 0xBF))"

definition utf8_width :: "char \<Rightarrow> nat" where
  "utf8_width c =
    (if byte c < 0x80 then 1 else if in_range 0xC2 0xDF c then 2
     else if in_range 0xE0 0xEF c then 3 else if in_range 0xF0 0xF4 c then 4 else 0)"

definition utf8_step :: "char \<Rightarrow> string \<Rightarrow> bool \<times> nat" where
  "utf8_step c s =
    (let w = utf8_width c; (lo, hi) = second_range c
     in if w = 0 then (False, 0)
        else if w = 1 then (True, 0)
        else if \<not> nth_ok 0 lo hi s then (False, 0)
        else if w = 2 then (True, 1)
        else if \<not> nth_ok 1 0x80 0xBF s then (False, 1)
        else if w = 3 then (True, 2)
        else if \<not> nth_ok 2 0x80 0xBF s then (False, 2)
        else (True, 3))"

function from_utf8_lossy :: "string \<Rightarrow> string" where
  "from_utf8_lossy [] = []"
| "from_utf8_lossy (c # s) =
    (case utf8_step c s of
       (ok, n) \<Rightarrow> (if ok then c # take n s else [CHR 0xEF, CHR 0xBF, CHR 0xBD]) @ from_utf8_lossy (drop n s))"
  by pat_completeness auto
termination
  by (relation "measure length") auto

lemma from_utf8_lossy_ascii: "\<forall>c \<in> set s. byte c < 0x80 \<Longrightarrow> from_utf8_lossy s = s"
  by (induction s) (auto simp: utf8_step_def utf8_width_def Let_def split: prod.splits)

section \<open>Prompts and escape sequences\<close>

definition trim_end_cr :: "string \<Rightarrow> string" where
  "trim_end_cr s = rev (dropWhile (\<lambda>c. c = CHR 0x0D) (rev s))"

definition looks_like_prompt :: "string \<Rightarrow> string list \<Rightarrow> bool" where
  "looks_like_prompt buffer prompts \<longleftrightarrow>
    (let text = from_utf8_lossy buffer; tail = trim_end_cr (last (split_on (CHR 0x0A) text))
     in list_ex (ends_with tail) prompts)"

definition last_line_start :: "string \<Rightarrow> nat" where
  "last_line_start buffer = length buffer - length (last (split_on (CHR 0x0A) buffer))"

definition prompt_output_split :: "string \<Rightarrow> string list \<Rightarrow> nat option" where
  "prompt_output_split buffer prompts =
    (if looks_like_prompt buffer prompts then Some (last_line_start buffer) else None)"

definition is_csi_final :: "char \<Rightarrow> bool" where
  "is_csi_final c \<longleftrightarrow> in_range 0x40 0x7E c"

text \<open>The bytes behind an escape sequence that has an end: of \<^verbatim>\<open>ESC [\<close> the final byte, of \<^verbatim>\<open>ESC ]\<close> a
  bell or \<^verbatim>\<open>ESC \\\<close>.\<close>

fun skip_csi :: "string \<Rightarrow> string option" where
  "skip_csi [] = None"
| "skip_csi (c # s) = (if is_csi_final c then Some s else skip_csi s)"

fun skip_osc :: "string \<Rightarrow> string option" where
  "skip_osc [] = None"
| "skip_osc (c # s) =
    (if c = CHR 0x07 then Some s
     else if c = CHR 0x1B \<and> list_first s = Some (CHR 0x5C) then Some (tl s)
     else skip_osc s)"

definition skip_leading_ansi_escape :: "string \<Rightarrow> string option" where
  "skip_leading_ansi_escape s =
    (case s of
       c # d # r \<Rightarrow>
         if c \<noteq> CHR 0x1B then None
         else if d = CHR ''['' then skip_csi r
         else if d = CHR '']'' then skip_osc r
         else None
     | _ \<Rightarrow> None)"

lemma skip_csi_shorter: "skip_csi s = Some r \<Longrightarrow> length r < length s"
  by (induction s) (auto split: if_splits)

lemma skip_osc_shorter: "skip_osc s = Some r \<Longrightarrow> length r < length s"
  by (induction s) (auto split: if_splits simp: less_Suc_eq_le)

lemma skip_leading_shorter: "skip_leading_ansi_escape s = Some r \<Longrightarrow> length r < length s"
  by (auto simp: skip_leading_ansi_escape_def split: list.splits if_splits dest: skip_csi_shorter skip_osc_shorter)

function strip_leading_shell_noise :: "string \<Rightarrow> string" where
  "strip_leading_shell_noise bytes =
    (let s = dropWhile (\<lambda>c. c = CHR 0x0D \<or> c = CHR 0x0A) bytes
     in case skip_leading_ansi_escape s of
          Some r \<Rightarrow> strip_leading_shell_noise r
        | None \<Rightarrow> s)"
  by pat_completeness auto
termination
proof (relation "measure length")
  fix bytes s r :: string
  assume s: "s = dropWhile (\<lambda>c. c = CHR 0x0D \<or> c = CHR 0x0A) bytes"
    and r: "skip_leading_ansi_escape s = Some r"
  have "length s \<le> length bytes" using s by (simp add: length_dropWhile_le)
  then show "(r, bytes) \<in> measure length" using skip_leading_shorter[OF r] by simp
qed simp

declare strip_leading_shell_noise.simps [simp del]

text \<open>\<^verbatim>\<open>strip_ansi\<close>.  An escape sequence without an end swallows the rest; a byte that is no escape
  starts a character.  Behind \<^verbatim>\<open>ESC\<close> one byte is skipped, and the rest is then sliced at the next one:
  in the middle of a character that slice panics (\<^const>\<open>None\<close>).\<close>

function strip_ansi :: "string \<Rightarrow> string option" where
  "strip_ansi [] = Some []"
| "strip_ansi (c # s) =
    (if c = CHR 0x1B then
       (case s of
          [] \<Rightarrow> Some []
        | d # r \<Rightarrow>
            if d = CHR ''['' then (case skip_csi r of Some r' \<Rightarrow> strip_ansi r' | None \<Rightarrow> Some [])
            else if d = CHR '']'' then (case skip_osc r of Some r' \<Rightarrow> strip_ansi r' | None \<Rightarrow> Some [])
            else strip_ansi r)
     else if is_continuation c then None
     else map_option ((@) (c # takeWhile is_continuation s)) (strip_ansi (dropWhile is_continuation s)))"
  by pat_completeness auto
termination
  by (relation "measure length")
    (auto dest: skip_csi_shorter skip_osc_shorter simp: length_dropWhile_le less_Suc_eq_le)

lemma strip_ansi_plain:
  "\<forall>c \<in> set s. byte c < 0x80 \<and> c \<noteq> CHR 0x1B \<Longrightarrow> strip_ansi s = Some s"
proof (induction s)
  case (Cons c s)
  have "takeWhile is_continuation s = []" "dropWhile is_continuation s = s"
    using Cons.prems by (cases s; auto simp: is_continuation_def)+
  with Cons show ?case by (simp add: is_continuation_def)
qed simp

text \<open>An escape byte in front of a character of several bytes is such a case.\<close>

lemma strip_ansi_panics:
  assumes "c \<noteq> CHR ''[''" "c \<noteq> CHR '']''" "is_continuation d"
  shows "strip_ansi (CHR 0x1B # c # d # s) = None"
  using assms by (auto simp: is_continuation_def)


section \<open>The shell\<close>

datatype pty_msg =
    MData string | MExtended string | MExitStatus nat | MExitSignal | MEof | MClose | MOther
  | MGone

datatype pty_event = Msg pty_msg | Silence

datatype pty_error =
    TimedOut | ShellClosed | WriteFailed | UploadStalled | ReceiverExited int | BadPayload b64_error

record pty_shell =
  pt_pending :: string
  pt_prompts :: "string list"
  pt_events :: "pty_event list"
  pt_written :: "string list"
  pt_refusals :: "bool list"

text \<open>\<^verbatim>\<open>channel.data\<close>: whether the next write is refused is up to the channel.\<close>

definition pty_write :: "string \<Rightarrow> pty_shell \<Rightarrow> (pty_error + unit) \<times> pty_shell" where
  "pty_write payload s =
    (case pt_refusals s of
       True # rs \<Rightarrow> (Inl WriteFailed, s\<lparr>pt_refusals := rs\<rparr>)
     | rs \<Rightarrow> (Inr (), s\<lparr>pt_written := pt_written s @ [payload], pt_refusals := tl rs\<rparr>))"

definition write_line :: "string \<Rightarrow> pty_shell \<Rightarrow> (pty_error + unit) \<times> pty_shell" where
  "write_line line s = pty_write (line @ [CHR 0x0D]) s"

definition clear_prompt_remainder :: "pty_shell \<Rightarrow> pty_shell" where
  "clear_prompt_remainder s =
    (if looks_like_prompt (pt_pending s) (pt_prompts s) then s\<lparr>pt_pending := []\<rparr> else s)"

text \<open>\<^verbatim>\<open>read_chunk\<close> on the event it waits for.\<close>

fun read_chunk :: "pty_event \<Rightarrow> pty_error + string" where
  "read_chunk Silence = Inl TimedOut"
| "read_chunk (Msg (MData d)) = Inr d"
| "read_chunk (Msg (MExtended d)) = Inr d"
| "read_chunk (Msg MClose) = Inl ShellClosed"
| "read_chunk (Msg MEof) = Inl ShellClosed"
| "read_chunk (Msg MGone) = Inl ShellClosed"
| "read_chunk (Msg _) = Inr []"

text \<open>The loop of \<^verbatim>\<open>drain_echo_line\<close>: what is pending and what the channel still has to deliver.  A
  silence stands for the deadline.\<close>

fun drain_echo_line :: "string \<Rightarrow> pty_event list \<Rightarrow> string \<times> pty_event list" where
  "drain_echo_line pend evs =
    (if CHR 0x0A \<in> set pend then (tl (dropWhile (\<lambda>c. c \<noteq> CHR 0x0A) pend), evs)
     else (case evs of
             [] \<Rightarrow> (pend, [])
           | e # evs' \<Rightarrow> (case read_chunk e of Inl _ \<Rightarrow> (pend, evs') | Inr d \<Rightarrow> drain_echo_line (pend @ d) evs')))"

declare drain_echo_line.simps [simp del]

definition make_marker :: "string \<Rightarrow> string" where
  "make_marker uuid = ''__XHO_E_'' @ uuid @ ''__''"

definition status_suffix :: "string \<Rightarrow> string" where
  "status_suffix mk = ''; }; status=$?; printf '' @ [CHR 0x27] @ mk @ '':%s'' @ [CHR 0x5C] @ ''n''
    @ [CHR 0x27] @ '' '' @ [CHR 0x22] @ ''$status'' @ [CHR 0x22]"

definition wrap_plain :: "string \<Rightarrow> string \<Rightarrow> string" where
  "wrap_plain command mk = ''{ '' @ command @ status_suffix mk"

definition wrap_raw :: "string \<Rightarrow> string \<Rightarrow> string \<Rightarrow> string" where
  "wrap_raw command bm em = ''printf '' @ [CHR 0x27] @ bm @ [CHR 0x27] @ ''; '' @ wrap_plain command em"

definition nonempty :: "string \<Rightarrow> string list" where
  "nonempty d = (if d = [] then [] else [d])"

text \<open>The loop of \<^verbatim>\<open>run_command_plain\<close>: the result, what was sent, what is pending, what the channel
  still has to deliver.\<close>

fun plain_loop ::
  "string \<Rightarrow> string list \<Rightarrow> bool \<Rightarrow> string \<Rightarrow> pty_event list
    \<Rightarrow> (pty_error + int) \<times> string list \<times> string \<times> pty_event list" where
  "plain_loop mk prompts first pend [] = (Inl TimedOut, [], pend, [])"
| "plain_loop mk prompts first pend (e # evs) =
    (case read_chunk e of
       Inl err \<Rightarrow> (Inl err, [], pend, evs)
     | Inr chunk \<Rightarrow>
         (let pend = pend @ chunk in
          case prompt_output_split pend prompts of
            Some split \<Rightarrow>
              (let (code, clean) = extract_marker (take split pend) mk;
                   out = (if first then strip_leading_shell_noise clean else clean)
               in (Inr code, nonempty out, drop split pend, evs))
          | None \<Rightarrow>
              (let keep = length mk + 32
               in if keep < length pend then
                    (let safe = length pend - keep;
                         data = (if first then strip_leading_shell_noise (take safe pend) else take safe pend);
                         (r, sent, p, es) = plain_loop mk prompts False (drop safe pend) evs
                     in (r, nonempty data @ sent, p, es))
                  else plain_loop mk prompts first pend evs)))"

definition run_command_plain :: "string \<Rightarrow> string \<Rightarrow> pty_shell \<Rightarrow> (pty_error + int) \<times> string list \<times> pty_shell" where
  "run_command_plain uuid command s =
    (let mk = make_marker uuid; s = clear_prompt_remainder s
     in case write_line (wrap_plain command mk) s of
          (Inl e, s) \<Rightarrow> (Inl e, [], s)
        | (Inr _, s) \<Rightarrow>
            (let (pend, evs) = drain_echo_line (pt_pending s) (pt_events s);
                 (r, sent, pend, evs) = plain_loop mk (pt_prompts s) True pend evs
             in (r, sent, s\<lparr>pt_pending := pend, pt_events := evs\<rparr>)))"

definition probe_alive :: "string \<Rightarrow> pty_shell \<Rightarrow> bool \<times> pty_shell" where
  "probe_alive uuid s = (case run_command_plain uuid ''true'' s of (r, _, s) \<Rightarrow> (\<not> isl r, s))"

fun wait_for_prompt :: "string list \<Rightarrow> string \<Rightarrow> pty_event list \<Rightarrow> (pty_error + unit) \<times> string \<times> pty_event list" where
  "wait_for_prompt prompts pend evs =
    (if looks_like_prompt pend prompts then (Inr (), pend, evs)
     else (case evs of
             [] \<Rightarrow> (Inl TimedOut, pend, [])
           | e # evs' \<Rightarrow>
               (case read_chunk e of
                  Inl err \<Rightarrow> (Inl err, pend, evs')
                | Inr d \<Rightarrow> wait_for_prompt prompts (pend @ d) evs')))"

declare wait_for_prompt.simps [simp del]

text \<open>Discarding output up to a marker: of a buffer longer than \<^term>\<open>bound\<close> markers two markers' length
  is kept (the bound is 2 in \<^verbatim>\<open>run_command_raw_impl\<close> and 4 in \<^verbatim>\<open>upload_binary\<close>).\<close>

definition keep_tail :: "nat \<Rightarrow> string \<Rightarrow> string \<Rightarrow> string" where
  "keep_tail bound mk buf =
    (if bound * length mk < length buf then drop (length buf - length mk * 2) buf else buf)"

fun discard_until ::
  "nat \<Rightarrow> string \<Rightarrow> string \<Rightarrow> pty_event list \<Rightarrow> (pty_error + string) \<times> pty_event list" where
  "discard_until bound mk buf [] = (Inl TimedOut, [])"
| "discard_until bound mk buf (e # evs) =
    (case read_chunk e of
       Inl err \<Rightarrow> (Inl err, evs)
     | Inr chunk \<Rightarrow>
         (let buf = buf @ chunk in
          case find_subslice buf mk of
            Some pos \<Rightarrow> (Inr (drop (pos + length mk) buf), evs)
          | None \<Rightarrow> discard_until bound mk (keep_tail bound mk buf) evs))"

definition bytes_of :: "string \<Rightarrow> u8 list" where
  "bytes_of s = map (\<lambda>c. of_nat (byte c)) s"

definition string_of :: "u8 list \<Rightarrow> string" where
  "string_of bs = map (\<lambda>b. char_of (unat b)) bs"

datatype raw_payload = Plain | Base64 nat

text \<open>\<^verbatim>\<open>feed_raw_chunk\<close>: a decoding error, or the exit code once the sentinel is found, what is sent, and
  the two machines.\<close>

definition feed_raw_chunk ::
  "string \<Rightarrow> b64_decoder option \<Rightarrow> sentinel_scanner
    \<Rightarrow> pty_error + (int option \<times> string list \<times> b64_decoder option \<times> sentinel_scanner)" where
  "feed_raw_chunk chunk decoder scanner =
    (case decoder of
       Some d \<Rightarrow>
         (case feed d (bytes_of chunk) of
            Inl e \<Rightarrow> Inl (BadPayload e)
          | Inr (d, out) \<Rightarrow>
              (case scanner_feed scanner chunk of
                 (sc, _, fin) \<Rightarrow>
                   Inr (if fin then Some (exit_code sc) else None, nonempty (string_of out), Some d, sc)))
     | None \<Rightarrow>
         (case scanner_feed scanner chunk of
            (sc, forward, fin) \<Rightarrow>
              Inr (if fin then Some (exit_code sc) else None, nonempty forward, None, sc)))"

text \<open>What happens once the sentinel is found: the bytes behind it stay pending, and the decoder has to
  have decoded as much as was announced.\<close>

definition finish_raw :: "b64_decoder option \<Rightarrow> int \<Rightarrow> pty_error + int" where
  "finish_raw decoder code =
    (case decoder of
       None \<Rightarrow> Inr code
     | Some d \<Rightarrow> (case decoder_finish d of Inl e \<Rightarrow> Inl (BadPayload e) | Inr _ \<Rightarrow> Inr code))"

fun raw_loop ::
  "b64_decoder option \<Rightarrow> sentinel_scanner \<Rightarrow> pty_event list
    \<Rightarrow> (pty_error + int) \<times> string list \<times> string \<times> pty_event list" where
  "raw_loop decoder scanner [] = (Inl TimedOut, [], [], [])"
| "raw_loop decoder scanner (e # evs) =
    (case read_chunk e of
       Inl err \<Rightarrow> (Inl err, [], [], evs)
     | Inr chunk \<Rightarrow>
         (case feed_raw_chunk chunk decoder scanner of
            Inl err \<Rightarrow> (Inl err, [], [], evs)
          | Inr (Some code, sent, d, sc) \<Rightarrow> (finish_raw d code, sent, leftover sc, evs)
          | Inr (None, sent, d, sc) \<Rightarrow>
              (let (r, sent', p, es) = raw_loop d sc evs in (r, sent @ sent', p, es))))"

definition run_command_raw_impl ::
  "string \<Rightarrow> string \<Rightarrow> string \<Rightarrow> raw_payload \<Rightarrow> pty_shell \<Rightarrow> (pty_error + int) \<times> string list \<times> pty_shell" where
  "run_command_raw_impl buuid euuid command payload s =
    (let bm = make_marker buuid; em = make_marker euuid; s = clear_prompt_remainder s
     in case write_line (wrap_raw command bm em) s of
          (Inl e, s) \<Rightarrow> (Inl e, [], s)
        | (Inr _, s) \<Rightarrow>
            (case discard_until 2 bm [] (pt_events s) of
               (Inl e, evs) \<Rightarrow> (Inl e, [], s\<lparr>pt_events := evs\<rparr>)
             | (Inr aft, evs) \<Rightarrow>
                 (let pend = pt_pending s @ aft;
                      decoder = (case payload of Plain \<Rightarrow> None | Base64 n \<Rightarrow> Some (decoder_new n));
                      scanner = scanner_new em;
                      (r, sent, p, es) =
                        (if pend = [] then raw_loop decoder scanner evs
                         else raw_loop decoder scanner (Msg (MData pend) # evs))
                  in (r, sent, s\<lparr>pt_pending := p, pt_events := es\<rparr>))))"


section \<open>Binary upload\<close>

text \<open>\<^verbatim>\<open>drain_and_scan_early\<close> on what is there without waiting: the messages up to the next silence.\<close>

fun drain_and_scan_early ::
  "sentinel_scanner \<Rightarrow> pty_event list \<Rightarrow> (pty_error + (int \<times> string) option) \<times> sentinel_scanner \<times> pty_event list" where
  "drain_and_scan_early sc [] = (Inr None, sc, [])"
| "drain_and_scan_early sc (Silence # evs) = (Inr None, sc, evs)"
| "drain_and_scan_early sc (Msg m # evs) =
    (case m of
       MGone \<Rightarrow> (Inl ShellClosed, sc, evs)
     | MClose \<Rightarrow> (Inl ShellClosed, sc, evs)
     | MEof \<Rightarrow> (Inl ShellClosed, sc, evs)
     | MData d \<Rightarrow>
         (case scanner_feed sc d of
            (sc, _, fin) \<Rightarrow>
              if fin then (Inr (Some (exit_code sc, leftover sc)), sc\<lparr>leftover := []\<rparr>, evs)
              else drain_and_scan_early sc evs)
     | _ \<Rightarrow> drain_and_scan_early sc evs)"

datatype chunk_write = Accepted | Refused | Blocked

text \<open>Phase 2 of \<^verbatim>\<open>upload_binary\<close>: the chunks, each with what becomes of its write (accepted, refused by
  the channel, or blocked beyond the sixty seconds).\<close>

fun upload_chunks ::
  "sentinel_scanner \<Rightarrow> (string \<times> chunk_write) list \<Rightarrow> pty_event list
    \<Rightarrow> (pty_error + unit) \<times> string list \<times> string \<times> sentinel_scanner \<times> pty_event list" where
  "upload_chunks sc [] evs = (Inr (), [], [], sc, evs)"
| "upload_chunks sc ((d, w) # ds) evs =
    (case w of
       Blocked \<Rightarrow> (Inl UploadStalled, [], [], sc, evs)
     | Refused \<Rightarrow> (Inl WriteFailed, [], [], sc, evs)
     | Accepted \<Rightarrow>
         (case drain_and_scan_early sc evs of
            (Inl e, sc, evs) \<Rightarrow> (Inl e, [d], [], sc, evs)
          | (Inr (Some (code, left)), sc, evs) \<Rightarrow> (Inl (ReceiverExited code), [d], left, sc, evs)
          | (Inr None, sc, evs) \<Rightarrow>
              (let (r, written, left, sc, evs) = upload_chunks sc ds evs in (r, d # written, left, sc, evs))))"

fun await_sentinel :: "sentinel_scanner \<Rightarrow> pty_event list \<Rightarrow> (pty_error + int) \<times> string \<times> pty_event list" where
  "await_sentinel sc [] = (Inl TimedOut, [], [])"
| "await_sentinel sc (e # evs) =
    (case read_chunk e of
       Inl err \<Rightarrow> (Inl err, [], evs)
     | Inr chunk \<Rightarrow>
         (case scanner_feed sc chunk of
            (sc, _, fin) \<Rightarrow> if fin then (Inr (exit_code sc), leftover sc, evs) else await_sentinel sc evs))"

definition upload_binary ::
  "string \<Rightarrow> string \<Rightarrow> string \<Rightarrow> (string \<times> chunk_write) list \<Rightarrow> pty_shell \<Rightarrow> (pty_error + int) \<times> pty_shell" where
  "upload_binary command ready_mk end_mk chunks s =
    (let s = clear_prompt_remainder s
     in case write_line command s of
          (Inl e, s) \<Rightarrow> (Inl e, s)
        | (Inr _, s) \<Rightarrow>
            (case discard_until 4 ready_mk [] (pt_events s) of
               (Inl e, evs) \<Rightarrow> (Inl e, s\<lparr>pt_events := evs\<rparr>)
             | (Inr aft, evs) \<Rightarrow>
                 (let s = s\<lparr>pt_pending := pt_pending s @ aft\<rparr>
                  in case upload_chunks (scanner_new end_mk) chunks evs of
                       (Inl e, written, left, sc, evs) \<Rightarrow>
                         (Inl e, s\<lparr>pt_written := pt_written s @ written, pt_pending := pt_pending s @ left,
                                   pt_events := evs\<rparr>)
                     | (Inr _, written, _, sc, evs) \<Rightarrow>
                         (let (r, p, es) =
                                (if pt_pending s = [] then await_sentinel sc evs
                                 else await_sentinel sc (Msg (MData (pt_pending s)) # evs))
                          in (r, s\<lparr>pt_written := pt_written s @ written, pt_pending := p, pt_events := es\<rparr>)))))"

text \<open>\<^verbatim>\<open>run_command_with_stdin\<close> on a schedule of input (with whether the write succeeds), of the closed input,
  and of what the channel delivers; \<^const>\<open>None\<close> while the command has not ended.\<close>

datatype stdin_event = StdinChunk string bool | StdinClosed | Reading pty_event

fun stdin_loop ::
  "sentinel_scanner \<Rightarrow> bool \<Rightarrow> stdin_event list \<Rightarrow> ((pty_error + int) \<times> string list \<times> string list \<times> string) option" where
  "stdin_loop sc first [] = None"
| "stdin_loop sc first (StdinChunk d ok # es) =
    (if ok then map_option (\<lambda>(r, written, sent, p). (r, d # written, sent, p)) (stdin_loop sc first es)
     else Some (Inl WriteFailed, [], [], []))"
| "stdin_loop sc first (StdinClosed # es) = stdin_loop sc first es"
| "stdin_loop sc first (Reading e # es) =
    (case read_chunk e of
       Inl err \<Rightarrow> Some (Inl err, [], [], [])
     | Inr chunk \<Rightarrow>
         (case scanner_feed sc chunk of
            (sc, forward, fin) \<Rightarrow>
              (let out = (if forward = [] then [] else nonempty (if first then strip_leading_shell_noise forward else forward));
                   first = (first \<and> forward = [])
               in if fin then Some (Inr (exit_code sc), [], out, leftover sc)
                  else map_option (\<lambda>(r, written, sent, p). (r, written, out @ sent, p)) (stdin_loop sc first es))))"

definition run_command_with_stdin ::
  "string \<Rightarrow> string \<Rightarrow> stdin_event list \<Rightarrow> pty_shell \<Rightarrow> ((pty_error + int) \<times> string list \<times> pty_shell) option" where
  "run_command_with_stdin uuid command es s =
    (let mk = make_marker uuid; s = clear_prompt_remainder s
     in case write_line (wrap_plain command mk) s of
          (Inl e, s) \<Rightarrow> Some (Inl e, [], s)
        | (Inr _, s) \<Rightarrow>
            map_option (\<lambda>(r, written, sent, p).
                (r, sent, s\<lparr>pt_written := pt_written s @ written, pt_pending := pt_pending s @ p\<rparr>))
              (stdin_loop (scanner_new mk) True es))"

section \<open>Raw passthrough\<close>

text \<open>What the select loop of \<^verbatim>\<open>run_raw_passthrough\<close> takes next: input (with whether the channel accepts
  it), the end of the input, a resize, or a message of the channel (with whether the receiver of
  the output is still there).\<close>

datatype pass_event = PStdin string bool | PStdinEnd | PResize | PMsg pty_msg bool

record pass_state =
  ps_scanner :: "sentinel_scanner option"
  ps_code :: int
  ps_reusable :: bool
  ps_out :: "string list"
  ps_in :: "string list"
  ps_pending :: string

definition wrap_i32 :: "nat \<Rightarrow> int" where
  "wrap_i32 n = (let m = int (n mod 2 ^ 32) in if m < 2 ^ 31 then m else m - 2 ^ 32)"

text \<open>One iteration: the new state and whether the loop is left.\<close>

fun pass_step :: "pass_event \<Rightarrow> bool \<Rightarrow> pass_state \<Rightarrow> pass_state \<times> bool \<times> bool" where
  "pass_step (PStdin d ok) stdin_open s =
    (if \<not> stdin_open then (s, stdin_open, False)
     else if ok then (s\<lparr>ps_in := ps_in s @ [d]\<rparr>, stdin_open, False)
     else (s\<lparr>ps_reusable := False\<rparr>, stdin_open, True))"
| "pass_step PStdinEnd stdin_open s = (s, False, False)"
| "pass_step PResize stdin_open s = (s, stdin_open, False)"
| "pass_step (PMsg (MData d) ok) stdin_open s =
    (case ps_scanner s of
       Some sc \<Rightarrow>
         (case scanner_feed sc d of
            (sc, forward, fin) \<Rightarrow>
              (let s = s\<lparr>ps_scanner := Some sc\<rparr>
               in if forward \<noteq> [] \<and> \<not> ok then (s\<lparr>ps_reusable := False\<rparr>, stdin_open, True)
                  else (let s = s\<lparr>ps_out := ps_out s @ nonempty forward\<rparr>
                        in if fin then (s\<lparr>ps_code := exit_code sc, ps_pending := leftover sc\<rparr>, stdin_open, True)
                           else (s, stdin_open, False))))
     | None \<Rightarrow>
         (if ok then (s\<lparr>ps_out := ps_out s @ [d]\<rparr>, stdin_open, False)
          else (s\<lparr>ps_reusable := False\<rparr>, stdin_open, True)))"
| "pass_step (PMsg (MExtended d) ok) stdin_open s =
    (if ok then (s\<lparr>ps_out := ps_out s @ [d]\<rparr>, stdin_open, False)
     else (s\<lparr>ps_reusable := False\<rparr>, stdin_open, True))"
| "pass_step (PMsg (MExitStatus n) ok) stdin_open s = (s\<lparr>ps_code := wrap_i32 n\<rparr>, stdin_open, False)"
| "pass_step (PMsg MExitSignal ok) stdin_open s = (s\<lparr>ps_code := 255, ps_reusable := False\<rparr>, stdin_open, False)"
| "pass_step (PMsg MOther ok) stdin_open s = (s, stdin_open, False)"
| "pass_step (PMsg _ ok) stdin_open s = (s\<lparr>ps_reusable := False\<rparr>, stdin_open, True)"

text \<open>The loop on a schedule of what becomes ready; \<^const>\<open>None\<close> while it has not been left.\<close>

fun pass_loop :: "pass_event list \<Rightarrow> bool \<Rightarrow> pass_state \<Rightarrow> pass_state option" where
  "pass_loop [] stdin_open s = None"
| "pass_loop (e # es) stdin_open s =
    (case pass_step e stdin_open s of
       (s, stdin_open, True) \<Rightarrow> Some s
     | (s, stdin_open, False) \<Rightarrow> pass_loop es stdin_open s)"

definition pass_start :: "string option \<Rightarrow> pass_state" where
  "pass_start sentinel =
    \<lparr>ps_scanner = map_option scanner_new sentinel, ps_code = 0, ps_reusable = sentinel \<noteq> None,
     ps_out = [], ps_in = [], ps_pending = []\<rparr>"

text \<open>\<^verbatim>\<open>run_raw_passthrough\<close> on the pending bytes and the schedule: the exit code, the pending bytes of the
  shell if it is handed back, the output and the input written.  Pending bytes are taken as a first
  message whose output is always accepted.\<close>

definition pass_result :: "pass_state \<Rightarrow> int \<times> string option \<times> string list \<times> string list" where
  "pass_result s = (ps_code s, if ps_reusable s then Some (ps_pending s) else None, ps_out s, ps_in s)"

definition run_raw_passthrough ::
  "string option \<Rightarrow> string \<Rightarrow> pass_event list \<Rightarrow> (int \<times> string option \<times> string list \<times> string list) option" where
  "run_raw_passthrough sentinel pend evs =
    (let s = pass_start sentinel
     in map_option pass_result
          (if pend = [] then pass_loop evs True s
           else pass_loop (PMsg (MData pend) True # evs) True s))"


section \<open>Markers in a stream\<close>

abbreviation delivers :: "string list \<Rightarrow> pty_event list" where
  "delivers cs \<equiv> map (\<lambda>c. Msg (MData c)) cs"

lemma find_subslice_suffix:
  assumes "m \<noteq> []" "find_subslice (front @ buf @ rest) m = Some r" "length front \<le> r" "r + length m \<le> length (front @ buf)"
  shows "find_subslice buf m = Some (r - length front)"
proof -
  let ?S = "front @ buf @ rest"
  have at: "occurs_at m ?S r" and least: "\<forall>j < r. \<not> occurs_at m ?S j"
    using find_subslice_least(1)[OF assms(1)] assms(2) by blast+
  have up: "occurs_at m buf p \<Longrightarrow> occurs_at m ?S (length front + p)" for p
    using occurs_at_prefix[of m buf p rest] occurs_at_drop[OF assms(1), of "length front" ?S p] by simp
  have "occurs_at m buf (r - length front)"
    using at assms(3,4) by (simp add: occurs_at_def)
  moreover have "\<not> occurs_at m buf j" if "j < r - length front" for j
  proof -
    have "length front + j < r" using that by simp
    then show ?thesis using up[of j] least by blast
  qed
  ultimately show ?thesis using find_subslice_least(1)[OF assms(1)] by blast
qed

lemma find_subslice_not_yet:
  assumes "m \<noteq> []" "find_subslice (front @ buf @ rest) m = Some r" "length (front @ buf) < r + length m"
  shows "find_subslice buf m = None"
proof -
  let ?S = "front @ buf @ rest"
  have least: "\<forall>j < r. \<not> occurs_at m ?S j" using find_subslice_least(1)[OF assms(1)] assms(2) by blast
  have "\<not> occurs_at m buf j" for j
  proof
    assume o: "occurs_at m buf j"
    then have "occurs_at m ?S (length front + j)"
      using occurs_at_prefix[of m buf j rest] occurs_at_drop[OF assms(1), of "length front" ?S j] by simp
    then have "r \<le> length front + j" using least by (meson not_le)
    moreover have "j + length m \<le> length buf" using o by (simp add: occurs_at_def)
    ultimately show False using assms(3) by simp
  qed
  then show ?thesis using find_subslice_least(2)[OF assms(1)] by blast
qed

text \<open>The tail that is kept is enough: wherever the chunks end, discarding stops behind the first
  marker of the stream.\<close>

lemma discard_until_finds:
  assumes m: "m \<noteq> []" and bound: "2 \<le> bound" and r: "find_subslice (front @ buf @ concat cs) m = Some r"
    and front: "length front \<le> r" and buf: "length (front @ buf) < r + length m"
  shows "\<exists>aft cs'. discard_until bound m buf (delivers cs @ evs) = (Inr aft, delivers cs' @ evs)
    \<and> aft @ concat cs' = drop (r + length m) (front @ buf @ concat cs)"
  using r front buf
proof (induction cs arbitrary: front buf)
  case Nil
  then have "occurs_at m (front @ buf) r" using find_subslice_least(1)[OF m, of "front @ buf" r] by simp
  then show ?case using Nil(3) by (simp add: occurs_at_def)
next
  case (Cons c cs)
  have S: "find_subslice (front @ (buf @ c) @ concat cs) m = Some r" using Cons.prems(1) by simp
  show ?case
  proof (cases "r + length m \<le> length (front @ (buf @ c))")
    case True
    note f = find_subslice_suffix[OF m S Cons.prems(2) True]
    have "drop (r - length front + length m) (buf @ c) @ concat cs = drop (r + length m) (front @ (buf @ c) @ concat cs)"
    proof -
      have "drop (r + length m) (front @ (buf @ c) @ concat cs) = drop (r + length m - length front) ((buf @ c) @ concat cs)"
        using Cons.prems(2) by simp
      also have "r + length m - length front = r - length front + length m" using Cons.prems(2) by simp
      also have "drop (r - length front + length m) ((buf @ c) @ concat cs) = drop (r - length front + length m) (buf @ c) @ concat cs"
        using True Cons.prems(2) by (subst drop_append) simp
      finally show ?thesis by simp
    qed
    then show ?thesis using f by (intro exI[of _ "drop (r - length front + length m) (buf @ c)"] exI[of _ cs]) simp
  next
    case False
    then have f: "find_subslice (buf @ c) m = None" using find_subslice_not_yet[OF m S] by simp
    define kept where "kept = keep_tail bound m (buf @ c)"
    define gone where "gone = take (length (buf @ c) - length kept) (buf @ c)"
    have split: "buf @ c = gone @ kept"
    proof (cases "bound * length m < length (buf @ c)")
      case True
      have "2 * length m \<le> bound * length m" using bound by simp
      with True have "length m * 2 \<le> length (buf @ c)" by linarith
      then show ?thesis using True by (simp only: gone_def kept_def keep_tail_def if_True length_drop diff_diff_cancel append_take_drop_id)
    qed (simp add: gone_def kept_def keep_tail_def)
    have "length (front @ gone) \<le> r"
    proof (cases "kept = buf @ c")
      case True
      then show ?thesis using Cons.prems(2) by (simp add: gone_def)
    next
      case k: False
      then have b: "bound * length m < length (buf @ c)" by (simp add: kept_def keep_tail_def split: if_splits)
      have "2 * length m \<le> bound * length m" using bound by simp
      with b have "length m * 2 \<le> length (buf @ c)" by linarith
      moreover from this b have "length kept = length m * 2" by (simp add: kept_def keep_tail_def)
      moreover have "length gone = length (buf @ c) - length kept" by (simp add: gone_def)
      moreover have "length (front @ (buf @ c)) < r + length m" using False by simp
      ultimately show ?thesis unfolding length_append by linarith
    qed
    moreover have "find_subslice ((front @ gone) @ kept @ concat cs) m = Some r"
      using S unfolding split by simp
    moreover have "length ((front @ gone) @ kept) < r + length m"
      using False unfolding split by simp
    ultimately obtain aft cs' where
      a: "discard_until bound m kept (delivers cs @ evs) = (Inr aft, delivers cs' @ evs)"
        "aft @ concat cs' = drop (r + length m) ((front @ gone) @ kept @ concat cs)"
      using Cons.IH by blast
    have "discard_until bound m buf (delivers (c # cs) @ evs) = (Inr aft, delivers cs' @ evs)"
      using a(1) f by (simp add: kept_def)
    moreover have eq: "(front @ gone) @ kept @ concat cs = front @ buf @ concat (c # cs)"
    proof -
      have "front @ buf @ concat (c # cs) = front @ (buf @ c) @ concat cs" by simp
      then show ?thesis unfolding split by simp
    qed
    ultimately show ?thesis using a(2) unfolding eq by blast
  qed
qed


section \<open>Raw mode\<close>

lemma concat_nonempty [simp]: "concat (nonempty d) = d"
  by (simp add: nonempty_def)

lemma scan_chunks_Cons:
  assumes "scan_chunks sc (c # cs) = (sc', out, rest)"
  obtains sc1 fwd where "scanner_feed sc c = (sc1, fwd, True)" "sc' = sc1" "out = fwd" "rest = cs"
  | sc1 fwd out' where "scanner_feed sc c = (sc1, fwd, False)" "\<not> finished sc1"
      "scan_chunks sc1 cs = (sc', out', rest)" "out = fwd @ out'"
proof -
  obtain sc1 fwd fin where f: "scanner_feed sc c = (sc1, fwd, fin)" by (metis prod_cases3)
  obtain s2 o2 r2 where g: "scan_chunks sc1 cs = (s2, o2, r2)" by (metis prod_cases3)
  show thesis
  proof (cases fin)
    case True
    then show thesis using that(1)[of sc1 fwd] assms f by simp
  next
    case False
    have "\<not> finished sc1" using scanner_feed_more[of sc c sc1 fwd] f False by simp
    with False show thesis using that(2)[of sc1 fwd o2] assms f g by simp
  qed
qed

lemma raw_loop_plain:
  "scan_chunks sc cs = (sc', out, rest) \<Longrightarrow> \<not> finished sc \<Longrightarrow> finished sc' \<Longrightarrow>
    \<exists>sent. raw_loop None sc (delivers cs @ evs) = (Inr (exit_code sc'), sent, leftover sc', delivers rest @ evs)
      \<and> concat sent = out"
proof (induction cs arbitrary: sc out)
  case (Cons c cs)
  from Cons.prems(1) show ?case
  proof (cases rule: scan_chunks_Cons)
    case (1 sc1 fwd)
    then show ?thesis by (simp add: feed_raw_chunk_def finish_raw_def)
  next
    case (2 sc1 fwd out')
    from Cons.IH[OF 2(3,2) Cons.prems(3)] obtain sent where
      "raw_loop None sc1 (delivers cs @ evs) = (Inr (exit_code sc'), sent, leftover sc', delivers rest @ evs)"
      "concat sent = out'" by blast
    then show ?thesis using 2 by (simp add: feed_raw_chunk_def)
  qed
qed simp

lemma scan_chunks_suffix:
  "scan_chunks sc cs = (sc', out, rest) \<Longrightarrow> \<exists>used. cs = used @ rest"
proof (induction cs arbitrary: sc out)
  case (Cons c cs)
  from Cons.prems show ?case
  proof (cases rule: scan_chunks_Cons)
    case (2 sc1 fwd out')
    from Cons.IH[OF 2(3)] show ?thesis by (metis append_Cons)
  qed auto
qed simp

lemma scan_chunks_uses:
  "scan_chunks sc cs = (sc', out, cs') \<Longrightarrow> \<not> finished sc \<Longrightarrow> finished sc' \<Longrightarrow> length cs' < length cs"
proof (induction cs arbitrary: sc out)
  case (Cons c cs)
  from Cons.prems(1) show ?case
  proof (cases rule: scan_chunks_Cons)
    case (2 sc1 fwd out')
    from Cons.IH[OF 2(3,2) Cons.prems(3)] show ?thesis by simp
  qed simp
qed simp

lemma bytes_of_append [simp]: "bytes_of (a @ b) = bytes_of a @ bytes_of b"
  by (simp add: bytes_of_def)

lemma string_of_append [simp]: "string_of (a @ b) = string_of a @ string_of b"
  by (simp add: string_of_def)

lemma string_of_Nil [simp]: "string_of [] = []" "bytes_of [] = []"
  by (simp_all add: string_of_def bytes_of_def)

lemma string_of_bytes_of [simp]: "string_of (bytes_of s) = s"
proof -
  have "char_of (unat (of_nat (byte c) :: u8)) = c" for c
    by (simp add: unat_of_nat)
  then show ?thesis by (simp add: string_of_def bytes_of_def o_def)
qed

lemma bytes_of_string_of [simp]: "bytes_of (string_of bs) = bs"
proof -
  have "unat b mod 256 = unat b" for b :: u8
  proof -
    have "unat b < 2 ^ LENGTH(8)" by (rule unsigned_less)
    then show ?thesis by simp
  qed
  then show ?thesis by (simp add: bytes_of_def string_of_def o_def of_char_of)
qed

lemma raw_loop_base64:
  "scan_chunks sc (used @ rest) = (sc', out, rest) \<Longrightarrow> \<not> finished sc \<Longrightarrow> finished sc' \<Longrightarrow>
    feed d (bytes_of (concat used)) = Inr (d', data) \<Longrightarrow>
    \<exists>sent. raw_loop (Some d) sc (delivers (used @ rest) @ evs)
        = (finish_raw (Some d') (exit_code sc'), sent, leftover sc', delivers rest @ evs)
      \<and> concat sent = string_of data"
proof (induction used arbitrary: sc out d data)
  case Nil
  with scan_chunks_uses[of sc rest sc' out rest] show ?case by simp
next
  case (Cons c used)
  obtain d1 data1 data2 where d1: "feed d (bytes_of c) = Inr (d1, data1)"
    and d2: "feed d1 (bytes_of (concat used)) = Inr (d', data2)" and data: "data = data1 @ data2"
    using Cons.prems(4) by (auto simp: feed_append elim!: bind_res_InrE)
  from Cons.prems(1)[unfolded append_Cons] show ?case
  proof (cases rule: scan_chunks_Cons)
    case (1 sc1 fwd)
    then have "used = []" by simp
    with 1 d1 d2 data show ?thesis by (simp add: feed_raw_chunk_def)
  next
    case (2 sc1 fwd out')
    from Cons.IH[OF 2(3,2) Cons.prems(3) d2] obtain sent where
      "raw_loop (Some d1) sc1 (delivers (used @ rest) @ evs)
        = (finish_raw (Some d') (exit_code sc'), sent, leftover sc', delivers rest @ evs)"
      "concat sent = string_of data2" by blast
    then show ?thesis using 2 d1 data by (simp add: feed_raw_chunk_def)
  qed
qed


text \<open>The stream a command sees behind its begin marker: what was pending before it, and the chunks.\<close>

definition kept_pending :: "pty_shell \<Rightarrow> string" where
  "kept_pending s = (if looks_like_prompt (pt_pending s) (pt_prompts s) then [] else pt_pending s)"

lemma make_marker_nonempty [simp]: "make_marker u \<noteq> []"
  by (simp add: make_marker_def)

lemma make_marker_hd [simp]: "hd (make_marker u @ r) = CHR ''_''"
  by (simp add: make_marker_def)

lemma clear_prompt_pending:
  "clear_prompt_remainder s = s\<lparr>pt_pending := kept_pending s\<rparr>"
  by (simp add: clear_prompt_remainder_def kept_pending_def)

lemma write_line_accepted:
  "pt_refusals s = [] \<Longrightarrow> write_line l s = (Inr (), s\<lparr>pt_written := pt_written s @ [l @ [CHR 0x0D]]\<rparr>)"
  by (simp add: write_line_def pty_write_def)

lemma run_raw_reaches:
  assumes evs: "pt_events s = delivers cs @ evs" and ok: "pt_refusals s = []"
    and stream: "find_subslice (concat cs) (make_marker bu) = Some (length noise)"
      "concat cs = noise @ make_marker bu @ body"
  shows "\<exists>pcs. concat pcs = kept_pending s @ body
    \<and> run_command_raw_impl bu eu command payload s =
      (case raw_loop (case payload of Plain \<Rightarrow> None | Base64 n \<Rightarrow> Some (decoder_new n))
              (scanner_new (make_marker eu)) (delivers pcs @ evs) of
         (r, sent, p, es) \<Rightarrow>
           (r, sent, s\<lparr>pt_pending := p, pt_events := es,
              pt_written := pt_written s @ [wrap_raw command (make_marker bu) (make_marker eu) @ [CHR 0x0D]]\<rparr>))"
proof -
  have "length ([] :: string) < length noise + length (make_marker bu)" by (simp add: make_marker_def)
  then obtain aft cs' where d: "discard_until 2 (make_marker bu) [] (delivers cs @ evs) = (Inr aft, delivers cs' @ evs)"
    and b: "aft @ concat cs' = body"
    using discard_until_finds[of "make_marker bu" 2 "[]" "[]" cs "length noise" evs] stream by auto
  let ?pend = "kept_pending s @ aft"
  let ?pcs = "if ?pend = [] then cs' else ?pend # cs'"
  have "concat ?pcs = kept_pending s @ body" using b by auto
  moreover have "run_command_raw_impl bu eu command payload s =
      (case raw_loop (case payload of Plain \<Rightarrow> None | Base64 n \<Rightarrow> Some (decoder_new n))
              (scanner_new (make_marker eu)) (delivers ?pcs @ evs) of
         (r, sent, p, es) \<Rightarrow>
           (r, sent, s\<lparr>pt_pending := p, pt_events := es,
              pt_written := pt_written s @ [wrap_raw command (make_marker bu) (make_marker eu) @ [CHR 0x0D]]\<rparr>))"
    using d evs ok
    by (simp add: run_command_raw_impl_def clear_prompt_pending write_line_accepted Let_def split: prod.split)
  ultimately show ?thesis by blast
qed

lemma scan_finds_first:
  assumes "m \<noteq> []" "sentinel_tail ds eol" "concat cs = pre @ m @ '':'' @ ds @ eol @ post"
    and "find_subslice (concat cs) m = Some (length pre)"
  shows "\<exists>sc rest. scan_chunks (scanner_new m) cs = (sc, pre, rest) \<and> finished sc
    \<and> exit_code sc = exit_code_of ds \<and> leftover sc @ concat rest = post"
proof (rule scan_chunks_finds[OF assms(1-3)])
  have "\<forall>j < length pre. \<not> occurs_at m (concat cs) j"
    using find_subslice_least(1)[OF assms(1)] assms(4) by blast
  then show "list_all (\<lambda>p. occurs_at m (concat cs) p \<longrightarrow>
      p + length m \<le> length pre \<and> verdict m (concat cs) p = LMismatch) [0..<length pre]"
    by (simp add: list_all_iff)
qed

lemma raw_plain_runs:
  assumes evs: "pt_events s = delivers cs @ evs" and ok: "pt_refusals s = []"
    and stream: "concat cs = noise @ make_marker bu @ payload @ make_marker eu @ '':'' @ ds @ eol @ post"
    and first: "find_subslice (concat cs) (make_marker bu) = Some (length noise)"
    and tail: "sentinel_tail ds eol"
    and only: "find_subslice (kept_pending s @ payload @ make_marker eu @ '':'' @ ds @ eol @ post) (make_marker eu)
      = Some (length (kept_pending s @ payload))"
  shows "\<exists>sent s' cs'. run_command_raw_impl bu eu command Plain s = (Inr (exit_code_of ds), sent, s')
    \<and> concat sent = kept_pending s @ payload
    \<and> pt_written s' = pt_written s @ [wrap_raw command (make_marker bu) (make_marker eu) @ [CHR 0x0D]]
    \<and> pt_events s' = delivers cs' @ evs \<and> pt_pending s' @ concat cs' = post"
proof -
  from run_raw_reaches[OF evs ok first stream, of eu command Plain] obtain pcs where
    pcs: "concat pcs = (kept_pending s @ payload) @ make_marker eu @ '':'' @ ds @ eol @ post"
    and run: "run_command_raw_impl bu eu command Plain s =
      (case raw_loop None (scanner_new (make_marker eu)) (delivers pcs @ evs) of
         (r, sent, p, es) \<Rightarrow>
           (r, sent, s\<lparr>pt_pending := p, pt_events := es,
              pt_written := pt_written s @ [wrap_raw command (make_marker bu) (make_marker eu) @ [CHR 0x0D]]\<rparr>))"
    by auto
  have "find_subslice (concat pcs) (make_marker eu) = Some (length (kept_pending s @ payload))"
    using only pcs by simp
  from scan_finds_first[OF make_marker_nonempty tail pcs this] obtain sc rest where
    sc: "scan_chunks (scanner_new (make_marker eu)) pcs = (sc, kept_pending s @ payload, rest)" "finished sc"
      "exit_code sc = exit_code_of ds" "leftover sc @ concat rest = post" by blast
  from raw_loop_plain[OF sc(1) _ sc(2), of evs] obtain sent where
    "raw_loop None (scanner_new (make_marker eu)) (delivers pcs @ evs)
      = (Inr (exit_code sc), sent, leftover sc, delivers rest @ evs)" "concat sent = kept_pending s @ payload"
    by (auto simp: scanner_new_def)
  with run sc show ?thesis by (auto intro: exI[of _ rest])
qed

lemma raw_base64_runs:
  assumes evs: "pt_events s = delivers cs @ evs" and ok: "pt_refusals s = []" and clean: "kept_pending s = []"
    and stream: "concat cs = noise @ make_marker bu @ string_of (wire_lines rfc4648 data)
      @ make_marker eu @ '':'' @ ds @ eol @ post"
    and first: "find_subslice (concat cs) (make_marker bu) = Some (length noise)"
    and tail: "sentinel_tail ds eol"
    and only: "find_subslice (string_of (wire_lines rfc4648 data) @ make_marker eu @ '':'' @ ds @ eol @ post)
      (make_marker eu) = Some (length (wire_lines rfc4648 data))"
  shows "\<exists>sent s' cs'. run_command_raw_impl bu eu command (Base64 (length data)) s = (Inr (exit_code_of ds), sent, s')
    \<and> concat sent = string_of data
    \<and> pt_written s' = pt_written s @ [wrap_raw command (make_marker bu) (make_marker eu) @ [CHR 0x0D]]
    \<and> pt_events s' = delivers cs' @ evs \<and> pt_pending s' @ concat cs' = post"
proof -
  let ?wire = "string_of (wire_lines rfc4648 data)"
  from run_raw_reaches[OF evs ok first stream, of eu command "Base64 (length data)"] clean obtain pcs where
    pcs: "concat pcs = ?wire @ make_marker eu @ '':'' @ ds @ eol @ post"
    and run: "run_command_raw_impl bu eu command (Base64 (length data)) s =
      (case raw_loop (Some (decoder_new (length data))) (scanner_new (make_marker eu)) (delivers pcs @ evs) of
         (r, sent, p, es) \<Rightarrow>
           (r, sent, s\<lparr>pt_pending := p, pt_events := es,
              pt_written := pt_written s @ [wrap_raw command (make_marker bu) (make_marker eu) @ [CHR 0x0D]]\<rparr>))"
    by auto
  have "find_subslice (concat pcs) (make_marker eu) = Some (length ?wire)"
    using only pcs by (simp add: string_of_def)
  from scan_finds_first[OF make_marker_nonempty tail pcs this] obtain sc rest where
    sc: "scan_chunks (scanner_new (make_marker eu)) pcs = (sc, ?wire, rest)" "finished sc"
      "exit_code sc = exit_code_of ds" "leftover sc @ concat rest = post" by blast
  obtain used where used: "pcs = used @ rest" using scan_chunks_suffix[OF sc(1)] by blast
  have "concat used @ concat rest = (?wire @ make_marker eu @ '':'' @ ds @ eol @ leftover sc) @ concat rest"
    using pcs sc(4) used by simp
  then have cu: "concat used = ?wire @ make_marker eu @ '':'' @ ds @ eol @ leftover sc" by simp
  have mhd: "bytes_of (make_marker eu @ r) \<noteq> [] \<and> hd (bytes_of (make_marker eu @ r)) = 95" for r
    by (simp add: make_marker_def bytes_of_def)
  obtain d where d: "feed (decoder_new (length data)) (bytes_of (concat used)) = Inr (d, data)" "decoder_finish d = Inr ()"
    using feed_wire_tail[OF rfc.base64_engine_axioms, of "bytes_of (make_marker eu @ '':'' @ ds @ eol @ leftover sc)" data]
      mhd[of "'':'' @ ds @ eol @ leftover sc"] unfolding cu bytes_of_append[of ?wire] bytes_of_string_of by blast
  from raw_loop_base64[OF sc(1)[unfolded used] _ sc(2) d(1), of evs] obtain sent where
    "raw_loop (Some (decoder_new (length data))) (scanner_new (make_marker eu)) (delivers pcs @ evs)
      = (finish_raw (Some d) (exit_code sc), sent, leftover sc, delivers rest @ evs)" "concat sent = string_of data"
    by (auto simp: scanner_new_def used)
  with run sc d(2) show ?thesis by (auto simp: finish_raw_def intro: exI[of _ rest])
qed


section \<open>The passthrough\<close>

fun calm :: "pass_event \<Rightarrow> bool" where
  "calm (PStdin d ok) = ok"
| "calm PStdinEnd = True"
| "calm PResize = True"
| "calm (PMsg (MData d) ok) = ok"
| "calm (PMsg MOther ok) = True"
| "calm (PMsg _ ok) = False"

fun pass_data :: "pass_event list \<Rightarrow> string list" where
  "pass_data [] = []"
| "pass_data (PMsg (MData d) ok # es) = d # pass_data es"
| "pass_data (e # es) = pass_data es"

fun pass_stdin :: "pass_event list \<Rightarrow> string list" where
  "pass_stdin [] = []"
| "pass_stdin (PStdin d ok # es) = d # pass_stdin es"
| "pass_stdin (PStdinEnd # es) = []"
| "pass_stdin (e # es) = pass_stdin es"

definition passes :: "pass_state \<Rightarrow> sentinel_scanner \<Rightarrow> string \<Rightarrow> string list \<Rightarrow> pass_state \<Rightarrow> bool" where
  "passes s sc out inp s' \<longleftrightarrow>
    ps_code s' = exit_code sc \<and> ps_reusable s' = ps_reusable s \<and> ps_pending s' = leftover sc
    \<and> concat (ps_out s') = concat (ps_out s) @ out \<and> (\<exists>ins. ps_in s' = ps_in s @ ins \<and> prefix ins inp)"

lemma passes_quiet: "passes s sc out [] s' \<Longrightarrow> passes s sc out inp s'"
  by (auto simp: passes_def)

lemma passes_input: "passes (s\<lparr>ps_in := ps_in s @ [d]\<rparr>) sc out inp s' \<Longrightarrow> passes s sc out (d # inp) s'"
  by (fastforce simp: passes_def)

lemma passes_output:
  "passes (s\<lparr>ps_scanner := x, ps_out := ps_out s @ nonempty fwd\<rparr>) sc out inp s' \<Longrightarrow> passes s sc (fwd @ out) inp s'"
  by (simp add: passes_def)

lemma pass_loop_scans:
  "list_all calm evs \<Longrightarrow> ps_scanner s = Some sc \<Longrightarrow> \<not> finished sc \<Longrightarrow>
    scan_chunks sc (pass_data evs) = (sc', out, rest) \<Longrightarrow> finished sc' \<Longrightarrow>
    \<exists>s'. pass_loop evs open s = Some s' \<and> passes s sc' out (if open then pass_stdin evs else []) s'"
proof (induction evs arbitrary: s sc out "open")
  case (Cons e evs)
  show ?case
  proof (cases e)
    case (PStdin d ok)
    note IH = Cons.IH[of "if open then s\<lparr>ps_in := ps_in s @ [d]\<rparr> else s" sc out "open"]
    have "\<exists>s'. pass_loop evs open (if open then s\<lparr>ps_in := ps_in s @ [d]\<rparr> else s) = Some s'
      \<and> passes (if open then s\<lparr>ps_in := ps_in s @ [d]\<rparr> else s) sc' out (if open then pass_stdin evs else []) s'"
      by (rule IH) (use Cons.prems PStdin in auto)
    then show ?thesis using PStdin Cons.prems(1) by (cases "open") (auto intro: passes_input)
  next
    case PStdinEnd
    have "\<exists>s'. pass_loop evs False s = Some s' \<and> passes s sc' out (if False then pass_stdin evs else []) s'"
      by (rule Cons.IH) (use Cons.prems PStdinEnd in auto)
    then show ?thesis using PStdinEnd by (auto intro: passes_quiet)
  next
    case PResize
    have "\<exists>s'. pass_loop evs open s = Some s' \<and> passes s sc' out (if open then pass_stdin evs else []) s'"
      by (rule Cons.IH) (use Cons.prems PResize in auto)
    then show ?thesis using PResize by (cases "open") simp_all
  next
    case (PMsg m ok)
    show ?thesis
    proof (cases m)
      case (MData d)
      have ok: ok using Cons.prems(1) PMsg MData by simp
      have "scan_chunks sc (d # pass_data evs) = (sc', out, rest)" using Cons.prems(4) PMsg MData by simp
      then show ?thesis
      proof (cases rule: scan_chunks_Cons)
        case (1 sc1 fwd)
        then show ?thesis using PMsg MData ok Cons.prems(2) by (simp add: Let_def passes_def)
      next
        case (2 sc1 fwd out')
        let ?s = "s\<lparr>ps_scanner := Some sc1, ps_out := ps_out s @ nonempty fwd\<rparr>"
        have "\<exists>s'. pass_loop evs open ?s = Some s' \<and> passes ?s sc' out' (if open then pass_stdin evs else []) s'"
          by (rule Cons.IH[OF _ _ 2(2,3) Cons.prems(5)]) (use Cons.prems in auto)
        then obtain s' where s': "pass_loop evs open ?s = Some s'" "passes ?s sc' out' (if open then pass_stdin evs else []) s'"
          by blast
        have "pass_loop (e # evs) open s = Some s'" using s'(1) 2 PMsg MData ok Cons.prems(2) by (simp add: Let_def)
        moreover have "passes s sc' out (if open then pass_stdin (e # evs) else []) s'"
          using passes_output[OF s'(2)] 2(4) PMsg MData by (cases "open") simp_all
        ultimately show ?thesis by blast
      qed
    next
      case MOther
      have "\<exists>s'. pass_loop evs open s = Some s' \<and> passes s sc' out (if open then pass_stdin evs else []) s'"
        by (rule Cons.IH) (use Cons.prems PMsg MOther in auto)
      then show ?thesis using PMsg MOther by (cases "open") simp_all
    qed (use Cons.prems(1) PMsg in auto)
  qed
qed simp

section \<open>Cooked mode\<close>

lemma drain_echo_chunk:
  assumes "CHR 0x0A \<notin> set echo"
  shows "drain_echo_line [] (Msg (MData (echo @ [CHR 0x0A] @ r)) # evs) = (r, evs)"
proof -
  have "dropWhile (\<lambda>c. c \<noteq> CHR 0x0A) (echo @ CHR 0x0A # r) = CHR 0x0A # r"
    using assms by (induction echo) auto
  then show ?thesis by (subst drain_echo_line.simps, simp, subst drain_echo_line.simps, simp)
qed

text \<open>A chunk that ends like a prompt ends the command, with the status of the marker in it, or zero.\<close>

lemma plain_prompt_chunk:
  assumes "CHR 0x0A \<notin> set echo" "pt_refusals s = []" "kept_pending s = []"
    and "pt_events s = Msg (MData (echo @ [CHR 0x0A])) # Msg (MData chunk) # later"
    and "prompt_output_split chunk (pt_prompts s) = Some split"
    and "extract_marker (take split chunk) (make_marker u) = (code, output)"
  shows "\<exists>s'. run_command_plain u command s = (Inr code, nonempty (strip_leading_shell_noise output), s')
    \<and> pt_pending s' = drop split chunk \<and> pt_events s' = later"
  using assms drain_echo_chunk[OF assms(1), of "[]"]
  by (simp add: run_command_plain_def clear_prompt_pending write_line_accepted Let_def)

section \<open>Properties\<close>

text \<open>C9. The payload of a raw-mode read through the terminal is exact: whatever noise precedes it and
  however the bytes are cut into chunks, a command whose output is base64 text hands on exactly the
  bytes that were encoded and returns its exit status, and the bytes behind the end marker are kept
  or still unread.  The begin and end markers do not occur earlier in the stream, and nothing but a complete prompt was left over
  from an earlier command (\<^verbatim>\<open>kept_pending s = []\<close>): such a rest is fed to the decoder (\<^verbatim>\<open>raw_leftover_leaks\<close>).\<close>

theorem raw_base64_exact:
  assumes "pt_events s = delivers cs @ evs" "pt_refusals s = []" "kept_pending s = []"
    and "concat cs = noise @ make_marker bu @ string_of (wire_lines rfc4648 data)
      @ make_marker eu @ '':'' @ ds @ eol @ post"
    and "find_subslice (concat cs) (make_marker bu) = Some (length noise)"
    and "sentinel_tail ds eol"
    and "find_subslice (string_of (wire_lines rfc4648 data) @ make_marker eu @ '':'' @ ds @ eol @ post)
      (make_marker eu) = Some (length (wire_lines rfc4648 data))"
  shows "\<exists>sent s' cs'. run_command_raw_impl bu eu command (Base64 (length data)) s = (Inr (exit_code_of ds), sent, s')
    \<and> concat sent = string_of data
    \<and> pt_written s' = pt_written s @ [wrap_raw command (make_marker bu) (make_marker eu) @ [CHR 0x0D]]
    \<and> pt_events s' = delivers cs' @ evs \<and> pt_pending s' @ concat cs' = post"
  using assms by (rule raw_base64_runs)

definition demo_pty :: "string list \<Rightarrow> string \<Rightarrow> pty_shell" where
  "demo_pty cs pend =
    \<lparr>pt_pending = pend, pt_prompts = [''$ '', ''# ''], pt_events = delivers cs, pt_written = [], pt_refusals = []\<rparr>"

definition demo_wire :: "string list" where
  "demo_wire = [''[h]# __XHO_'', ''E_b__SGV5'', ''IQ=='' @ [CHR 0x0A] @ ''__'', ''XHO_E_e__:0'' @ [CHR 0x0A] @ ''[h]'']"

theorem raw_base64_exact_witness:
  "\<exists>sent s'. run_command_raw_impl ''b'' ''e'' ''base64 f'' (Base64 4) (demo_pty demo_wire ''[h]# '') = (Inr 0, sent, s')
    \<and> concat sent = ''Hey!''"
proof -
  let ?data = "[72, 101, 121, 33 :: u8]"
  have "length ?data = 4" "string_of ?data = ''Hey!''" "exit_code_of ''0'' = 0" by (simp, code_simp, code_simp)
  moreover have "\<exists>sent s' cs'. run_command_raw_impl ''b'' ''e'' ''base64 f'' (Base64 (length ?data))
      (demo_pty demo_wire ''[h]# '') = (Inr (exit_code_of ''0''), sent, s')
    \<and> concat sent = string_of ?data
    \<and> pt_written s' = pt_written (demo_pty demo_wire ''[h]# '')
        @ [wrap_raw ''base64 f'' (make_marker ''b'') (make_marker ''e'') @ [CHR 0x0D]]
    \<and> pt_events s' = delivers cs' @ [] \<and> pt_pending s' @ concat cs' = ''[h]''"
    by (rule raw_base64_exact [where cs = demo_wire and noise = "''[h]# ''" and eol = "[CHR 0x0A]" and data = ?data]) code_simp+
  ultimately show ?thesis by metis
qed

text \<open>Bytes that a raw-mode command leaves behind its end marker and that do not look like a prompt
  yet, as when a chunk ends in the middle of the prompt, are handed on as the first bytes of the
  output of the next command.  The witness runs two commands.\<close>

theorem raw_leftover_leaks:
  assumes "\<not> looks_like_prompt (pt_pending s) (pt_prompts s)"
    and "pt_events s = delivers cs @ evs" "pt_refusals s = []"
    and "concat cs = noise @ make_marker bu @ payload @ make_marker eu @ '':'' @ ds @ eol @ post"
    and "find_subslice (concat cs) (make_marker bu) = Some (length noise)"
    and "sentinel_tail ds eol"
    and "find_subslice (pt_pending s @ payload @ make_marker eu @ '':'' @ ds @ eol @ post) (make_marker eu)
      = Some (length (pt_pending s @ payload))"
  shows "\<exists>sent s'. run_command_raw_impl bu eu command Plain s = (Inr (exit_code_of ds), sent, s')
    \<and> concat sent = pt_pending s @ payload"
proof -
  have "kept_pending s = pt_pending s" using assms(1) by (simp add: kept_pending_def)
  with raw_plain_runs[OF assms(2-6), of command] assms(7) show ?thesis by auto
qed

definition demo_first :: "string list" where
  "demo_first = [''__XHO_E_b__one__XHO_E_e__:0'' @ [CHR 0x0A] @ ''[root@h'']"

definition demo_second :: "string list" where
  "demo_second = ['']# __XHO_E_c__two__XHO_E_f__:0'' @ [CHR 0x0A] @ ''[root@h]# '']"

theorem raw_leftover_leaks_witness:
  "\<exists>s1 sent s2. run_command_raw_impl ''b'' ''e'' ''echo one'' Plain (demo_pty (demo_first @ demo_second) [])
        = (Inr 0, [''one''], s1)
    \<and> run_command_raw_impl ''c'' ''f'' ''echo two'' Plain s1 = (Inr 0, sent, s2) \<and> concat sent = ''[root@htwo''"
proof -
  let ?s1 = "\<lparr>pt_pending = ''[root@h'', pt_prompts = [''$ '', ''# ''], pt_events = delivers demo_second,
    pt_written = [wrap_raw ''echo one'' (make_marker ''b'') (make_marker ''e'') @ [CHR 0x0D]], pt_refusals = []\<rparr>"
  have one: "run_command_raw_impl ''b'' ''e'' ''echo one'' Plain (demo_pty (demo_first @ demo_second) [])
      = (Inr 0, [''one''], ?s1)" by code_simp
  have "\<exists>sent s'. run_command_raw_impl ''c'' ''f'' ''echo two'' Plain ?s1 = (Inr (exit_code_of ''0''), sent, s')
      \<and> concat sent = pt_pending ?s1 @ ''two''"
    by (rule raw_leftover_leaks [where cs = demo_second and evs = "[]" and noise = "'']# ''" and eol = "[CHR 0x0A]"
          and post = "''[root@h]# ''"]) code_simp+
  moreover have "exit_code_of ''0'' = 0" by code_simp
  ultimately show ?thesis using one by auto
qed

text \<open>A passed-through command with a sentinel shows the user its output and nothing else, under
  every interleaving of output, input and resizes and every cutting of the output: the output is
  exact, the exit code is the command's, the shell is handed back for reuse, and the input written
  is what the user typed before closing it.\<close>

theorem passthrough_exact:
  assumes "m \<noteq> []" "sentinel_tail ds eol" "list_all calm evs"
    and "pend @ concat (pass_data evs) = out @ m @ '':'' @ ds @ eol @ post"
    and "find_subslice (pend @ concat (pass_data evs)) m = Some (length out)"
  shows "\<exists>left sent inp. run_raw_passthrough (Some m) pend evs = Some (exit_code_of ds, Some left, sent, inp)
    \<and> concat sent = out \<and> prefix left post \<and> prefix inp (pass_stdin evs)"
proof -
  let ?evs = "if pend = [] then evs else PMsg (MData pend) True # evs"
  have c: "concat (pass_data ?evs) = pend @ concat (pass_data evs)" by simp
  from scan_finds_first[OF assms(1,2), of "pass_data ?evs" out post] assms(4,5) c obtain sc rest where
    sc: "scan_chunks (scanner_new m) (pass_data ?evs) = (sc, out, rest)" "finished sc"
      "exit_code sc = exit_code_of ds" "leftover sc @ concat rest = post" by auto
  have calm: "list_all calm ?evs" using assms(3) by simp
  from pass_loop_scans[OF calm _ _ sc(1,2), of "pass_start (Some m)" True] obtain s' where
    s': "pass_loop ?evs True (pass_start (Some m)) = Some s'" "passes (pass_start (Some m)) sc out (pass_stdin ?evs) s'"
    by (auto simp: pass_start_def scanner_new_def)
  have run: "run_raw_passthrough (Some m) pend evs = map_option pass_result (pass_loop ?evs True (pass_start (Some m)))"
    by (simp add: run_raw_passthrough_def Let_def)
  have "pass_stdin ?evs = pass_stdin evs" by simp
  with s' sc(3,4) run show ?thesis by (auto simp: passes_def pass_result_def pass_start_def)
qed

theorem passthrough_exact_witness:
  "\<exists>left sent inp. run_raw_passthrough (Some ''__M__'') ''hel''
      [PMsg (MData ''lo__M'') True, PStdin ''y'' True, PResize, PMsg (MData (''__:3'' @ [CHR 0x0A] @ ''$ '')) True]
      = Some (exit_code_of ''3'', Some left, sent, inp)
    \<and> concat sent = ''hello'' \<and> prefix left ''$ ''
    \<and> prefix inp (pass_stdin [PMsg (MData ''lo__M'') True, PStdin ''y'' True, PResize,
        PMsg (MData (''__:3'' @ [CHR 0x0A] @ ''$ '')) True])"
  by (rule passthrough_exact [where eol = "[CHR 0x0A]"]) code_simp+

text \<open>A cooked-mode command whose echo and whole reply arrive in one chunk fails with a timeout,
  although everything arrived: the reply is set aside with the echo and looked at only after another
  read.  The same bytes in two chunks give the exit status.\<close>

theorem plain_command_stalls:
  assumes "CHR 0x0A \<notin> set echo" "pt_refusals s = []" "kept_pending s = []"
    and "prompt_output_split reply (pt_prompts s) = Some split"
    and "extract_marker (take split reply) (make_marker u) = (code, output)"
  shows "(pt_events s = delivers [echo @ [CHR 0x0A] @ reply] \<longrightarrow>
      (\<exists>s'. run_command_plain u command s = (Inl TimedOut, [], s') \<and> pt_pending s' = reply))
    \<and> (pt_events s = delivers [echo @ [CHR 0x0A], reply] \<longrightarrow>
      (\<exists>s'. run_command_plain u command s = (Inr code, nonempty (strip_leading_shell_noise output), s')))"
proof -
  have d: "drain_echo_line [] (delivers [echo @ [CHR 0x0A] @ reply]) = (reply, [])"
    using drain_echo_chunk[OF assms(1), of reply "[]"] by simp
  have "\<exists>s'. run_command_plain u command s = (Inl TimedOut, [], s') \<and> pt_pending s' = reply"
    if "pt_events s = delivers [echo @ [CHR 0x0A] @ reply]"
    using that assms(2,3) d by (simp add: run_command_plain_def clear_prompt_pending write_line_accepted Let_def)
  then show ?thesis using plain_prompt_chunk[OF assms(1-3) _ assms(4,5), of "[]" command] by auto
qed

definition demo_reply :: string where
  "demo_reply = ''ok'' @ [CHR 0x0A] @ ''__XHO_E_u__:7'' @ [CHR 0x0A] @ ''[h]# ''"

theorem plain_command_stalls_witness:
  "(\<exists>s'. run_command_plain ''u'' ''true'' (demo_pty [''x'' @ [CHR 0x0A] @ demo_reply] []) = (Inl TimedOut, [], s')
      \<and> pt_pending s' = demo_reply)
    \<and> (\<exists>s'. run_command_plain ''u'' ''true'' (demo_pty [''x'' @ [CHR 0x0A], demo_reply] [])
        = (Inr 7, nonempty (strip_leading_shell_noise (''ok'' @ [CHR 0x0A])), s'))"
proof -
  have p: "prompt_output_split demo_reply (pt_prompts (demo_pty cs [])) = Some 17" for cs
    unfolding demo_pty_def by (simp, code_simp)
  have e: "extract_marker (take 17 demo_reply) (make_marker ''u'') = (7, ''ok'' @ [CHR 0x0A])" by code_simp
  have k: "pt_refusals (demo_pty cs []) = []" "kept_pending (demo_pty cs []) = []"
    "pt_events (demo_pty cs []) = delivers cs" for cs
    by (simp_all add: demo_pty_def kept_pending_def)
  have "CHR 0x0A \<notin> set ''x''" by simp
  note stalls = plain_command_stalls[OF this k(1,2) p e, of _ "''true''", unfolded k(3)]
  show ?thesis using stalls[of "[''x'' @ [CHR 0x0A] @ demo_reply]"] stalls[of "[''x'' @ [CHR 0x0A], demo_reply]"] by blast
qed

end
