(* ===== verification/Jumpserver_Menu.thy ===== *)
theory Jumpserver_Menu
  imports Target_Resolver Pty_Shell
begin

text \<open>
  The menu of the jump server: the asset table (\<^verbatim>\<open>parse_asset_rows\<close>, \<^verbatim>\<open>select_exact_asset_id\<close>,
  \<^verbatim>\<open>parse_page_status\<close> of \<^verbatim>\<open>daemon/jumpserver_engine.rs\<close>) and the state machine that drives it to the
  shell of an asset (\<^verbatim>\<open>navigate_to_asset\<close> of \<^verbatim>\<open>daemon/gateway/jumpserver.rs\<close>).

  Texts are the lossily decoded bytes; a function that strips escape sequences is \<^const>\<open>None\<close> where
  \<^const>\<open>strip_ansi\<close> panics.  The code of the second factor is an argument.
\<close>

section \<open>The asset table\<close>

record jumpserver_asset_row =
  row_id :: string
  row_ip :: string

definition looks_like_ipv4 :: "string \<Rightarrow> bool" where
  "looks_like_ipv4 value \<longleftrightarrow>
    (let parts = split_on (CHR ''.'') value
     in length parts = 4 \<and> list_all (\<lambda>part. part \<noteq> [] \<and> list_all is_ascii_digit part) parts)"

definition asset_row_of :: "string \<Rightarrow> jumpserver_asset_row option" where
  "asset_row_of line =
    (let columns = map trim (split_on (CHR ''|'') line)
     in if length columns < 3 then None
        else if list_all is_ascii_digit (columns ! 0) \<and> looks_like_ipv4 (columns ! 2)
        then Some \<lparr>row_id = columns ! 0, row_ip = columns ! 2\<rparr>
        else None)"

definition rows_of :: "string \<Rightarrow> jumpserver_asset_row list" where
  "rows_of clean = List.map_filter asset_row_of (rust_lines clean)"

definition parse_asset_rows :: "string \<Rightarrow> jumpserver_asset_row list option" where
  "parse_asset_rows text = map_option rows_of (strip_ansi text)"

text \<open>The result is the error of more than one match, with the number of them, or the match.\<close>

definition exact_match :: "jumpserver_asset_row list \<Rightarrow> string \<Rightarrow> nat + string option" where
  "exact_match rows ip =
    (let found = filter (\<lambda>row. row_ip row = ip) rows
     in if length found = 0 then Inr None
        else if length found = 1 then Inr (Some (row_id (hd found)))
        else Inl (length found))"

definition select_exact_asset_id :: "string \<Rightarrow> string \<Rightarrow> (nat + string option) option" where
  "select_exact_asset_id text ip = map_option (\<lambda>rows. exact_match rows ip) (parse_asset_rows text)"

definition split_once_str :: "string \<Rightarrow> string \<Rightarrow> (string \<times> string) option" where
  "split_once_str p s =
    (case find_sub p s of None \<Rightarrow> None | Some i \<Rightarrow> Some (take i s, drop (i + length p) s))"

definition first_number :: "string \<Rightarrow> nat option" where
  "first_number s =
    (let ds = takeWhile is_ascii_digit (dropWhile (\<lambda>c. \<not> is_ascii_digit c) s)
     in if ds = [] then None else parse_uint u32_max ds)"

record page_status =
  pg_current :: nat
  pg_total :: nat

definition PAGE_NUMBER_LABEL :: string where
  "PAGE_NUMBER_LABEL = [CHR 0xE9, CHR 0xA1, CHR 0xB5, CHR 0xE7, CHR 0xA0, CHR 0x81, CHR 0xEF, CHR 0xBC, CHR 0x9A]"

definition PAGE_TOTAL_LABEL :: string where
  "PAGE_TOTAL_LABEL =
    [CHR 0xE6, CHR 0x80, CHR 0xBB, CHR 0xE9, CHR 0xA1, CHR 0xB5, CHR 0xE6, CHR 0x95, CHR 0xB0, CHR 0xEF, CHR 0xBC, CHR 0x9A]"

definition PAGE_PROMPT_CONTAINS :: string where
  "PAGE_PROMPT_CONTAINS = [CHR 0xE4, CHR 0xB8, CHR 0x8A, CHR 0xE4, CHR 0xB8, CHR 0x80, CHR 0xE9, CHR 0xA1, CHR 0xB5]"

definition number_behind :: "string \<Rightarrow> string \<Rightarrow> nat option" where
  "number_behind label clean =
    (case split_once_str label clean of None \<Rightarrow> None | Some (_, rest) \<Rightarrow> first_number rest)"

definition page_status_of :: "string \<Rightarrow> page_status option" where
  "page_status_of clean =
    (case number_behind PAGE_NUMBER_LABEL clean of
       None \<Rightarrow> None
     | Some current \<Rightarrow>
         map_option (\<lambda>total. \<lparr>pg_current = current, pg_total = total\<rparr>) (number_behind PAGE_TOTAL_LABEL clean))"

definition parse_page_status :: "string \<Rightarrow> page_status option option" where
  "parse_page_status text = map_option page_status_of (strip_ansi text)"

definition menu_prompt_in :: "string \<Rightarrow> bool" where
  "menu_prompt_in clean \<longleftrightarrow> contains_sub clean ''Opt''"

definition contains_menu_prompt :: "string \<Rightarrow> bool option" where
  "contains_menu_prompt text = map_option menu_prompt_in (strip_ansi text)"

definition page_prompt_in :: "string \<Rightarrow> bool" where
  "page_prompt_in clean \<longleftrightarrow> contains_sub clean PAGE_PROMPT_CONTAINS \<and> ends_with (trim_end clean) '':''"

definition contains_page_prompt :: "string \<Rightarrow> bool option" where
  "contains_page_prompt text = map_option page_prompt_in (strip_ansi text)"

section \<open>The navigation\<close>

datatype nav_error =
    NavPty pty_error | NavMfa | NavManyMatches nat | NavNotFound nat | NavNoPageStatus | NavNoExactMatch | NavPanic

record nav_state =
  nv_search_sent :: bool
  nv_asset_id_sent :: bool
  nv_mfa_sent :: bool

datatype nav_move =
    NMfaCode | NSearch | NPick string | NNextPage | NFail nav_error | NReady | NWait

text \<open>What an iteration does about the text that is pending, the branches in their order.\<close>

definition nav_search_move :: "string \<Rightarrow> string \<Rightarrow> bool \<Rightarrow> nav_move" where
  "nav_search_move ip clean prompt =
    (case exact_match (rows_of clean) ip of
       Inl n \<Rightarrow> NFail (NavManyMatches n)
     | Inr (Some asset_id) \<Rightarrow> NPick asset_id
     | Inr None \<Rightarrow>
         if page_prompt_in clean then
           (case page_status_of clean of
              Some status \<Rightarrow>
                if pg_current status < pg_total status then NNextPage else NFail (NavNotFound (pg_total status))
            | None \<Rightarrow> NFail NavNoPageStatus)
         else if menu_prompt_in clean \<and> rows_of clean \<noteq> [] then NFail NavNoExactMatch
         else if prompt then NReady
         else NWait)"

definition nav_move :: "string \<Rightarrow> nav_state \<Rightarrow> string \<Rightarrow> bool \<Rightarrow> nav_move" where
  "nav_move ip nv text prompt =
    (case strip_ansi text of
       None \<Rightarrow>
         if nv_mfa_sent nv \<and> nv_search_sent nv \<and> nv_asset_id_sent nv then (if prompt then NReady else NWait)
         else NFail NavPanic
     | Some clean \<Rightarrow>
         if \<not> nv_mfa_sent nv \<and> contains_sub clean ''MFA'' then NMfaCode
         else if \<not> nv_search_sent nv \<and> menu_prompt_in clean then NSearch
         else if nv_search_sent nv \<and> \<not> nv_asset_id_sent nv then nav_search_move ip clean prompt
         else if nv_search_sent nv \<and> prompt then NReady
         else NWait)"

text \<open>A line sent to the menu clears what is pending; a refused write ends the navigation.\<close>

definition nav_send :: "string \<Rightarrow> pty_shell \<Rightarrow> (nav_error + unit) \<times> pty_shell" where
  "nav_send line s =
    (case write_line line s of
       (Inl e, s) \<Rightarrow> (Inl (NavPty e), s)
     | (Inr _, s) \<Rightarrow> (Inr (), s\<lparr>pt_pending := []\<rparr>))"

fun navigate_loop ::
  "(unit + string) \<Rightarrow> string \<Rightarrow> nav_state \<Rightarrow> pty_event list \<Rightarrow> pty_shell \<Rightarrow> (nav_error + unit) \<times> pty_shell" where
  "navigate_loop mfa ip nv [] s = (Inl (NavPty TimedOut), s\<lparr>pt_events := []\<rparr>)"
| "navigate_loop mfa ip nv (e # evs) s =
    (case read_chunk e of
       Inl err \<Rightarrow> (Inl (NavPty err), s\<lparr>pt_events := evs\<rparr>)
     | Inr chunk \<Rightarrow>
         (let s = s\<lparr>pt_pending := pt_pending s @ chunk\<rparr>; text = from_utf8_lossy (pt_pending s);
              go = (\<lambda>line nv. case nav_send line s of
                      (Inl err, s) \<Rightarrow> (Inl err, s\<lparr>pt_events := evs\<rparr>)
                    | (Inr _, s) \<Rightarrow> navigate_loop mfa ip nv evs s)
          in case nav_move ip nv text (looks_like_prompt (pt_pending s) (pt_prompts s)) of
               NMfaCode \<Rightarrow>
                 (case mfa of
                    Inl _ \<Rightarrow> (Inl NavMfa, s\<lparr>pt_events := evs\<rparr>)
                  | Inr code \<Rightarrow> go code (nv\<lparr>nv_mfa_sent := True\<rparr>))
             | NSearch \<Rightarrow> go ip (nv\<lparr>nv_search_sent := True\<rparr>)
             | NPick asset_id \<Rightarrow> go asset_id (nv\<lparr>nv_asset_id_sent := True\<rparr>)
             | NNextPage \<Rightarrow> go [] nv
             | NFail err \<Rightarrow> (Inl err, s\<lparr>pt_events := evs\<rparr>)
             | NReady \<Rightarrow> (Inr (), s\<lparr>pt_pending := [], pt_events := evs\<rparr>)
             | NWait \<Rightarrow> navigate_loop mfa ip nv evs s))"

definition navigate_to_asset ::
  "(unit + string) \<Rightarrow> string \<Rightarrow> pty_shell \<Rightarrow> (nav_error + unit) \<times> pty_shell" where
  "navigate_to_asset mfa tgt s =
    navigate_loop mfa (derive_target_ip tgt)
      \<lparr>nv_search_sent = False, nv_asset_id_sent = False, nv_mfa_sent = False\<rparr> (pt_events s) s"


section \<open>Whole lines\<close>

definition plain_text :: "string \<Rightarrow> bool" where
  "plain_text s \<longleftrightarrow> list_all (\<lambda>c. byte c < 0x80 \<and> c \<noteq> CHR 0x1B) s"

lemma strip_ansi_plain_text: "plain_text s \<Longrightarrow> strip_ansi s = Some s"
  by (rule strip_ansi_plain) (simp add: plain_text_def list_all_iff)

lemma map_filter_append: "List.map_filter f (a @ b) = List.map_filter f a @ List.map_filter f b"
  by (induction a) (auto simp: List.map_filter_simps split: option.splits)

lemma rows_of_whole: "rows_of (a @ CHR 0x0A # b) = rows_of (a @ [CHR 0x0A]) @ rows_of b"
  unfolding rows_of_def rust_lines_whole[of a b] by (rule map_filter_append)

lemma exact_match_row:
  assumes "exact_match rows ip = Inr (Some i)"
  shows "\<lparr>row_id = i, row_ip = ip\<rparr> \<in> set rows"
proof -
  let ?found = "filter (\<lambda>row. row_ip row = ip) rows"
  from assms have l: "length ?found = 1" and i: "row_id (hd ?found) = i"
    by (auto simp: exact_match_def Let_def split: if_splits)
  then obtain r where r: "?found = [r]" by (metis One_nat_def length_0_conv length_Suc_conv)
  then have "r \<in> set rows" "row_ip r = ip" by (auto simp: filter_eq_Cons_iff)
  moreover have "row_id r = i" using r i by simp
  moreover have "r = \<lparr>row_id = row_id r, row_ip = row_ip r\<rparr>" by simp
  ultimately show ?thesis by metis
qed

section \<open>Properties\<close>

text \<open>An asset chosen from a table that was read up to the end of a line is one the table lists with
  exactly the wanted address: whatever arrives behind it, the row is a row of the whole table.\<close>

theorem whole_rows_selected:
  assumes "plain_text (seen @ [CHR 0x0A])" "plain_text more_text"
    and "select_exact_asset_id (seen @ [CHR 0x0A]) ip = Some (Inr (Some asset_id))"
  shows "\<exists>rows. parse_asset_rows ((seen @ [CHR 0x0A]) @ more_text) = Some rows
    \<and> \<lparr>row_id = asset_id, row_ip = ip\<rparr> \<in> set rows"
proof -
  have "plain_text ((seen @ [CHR 0x0A]) @ more_text)" using assms(1,2) by (simp add: plain_text_def)
  from strip_ansi_plain_text[OF this] have
    "parse_asset_rows ((seen @ [CHR 0x0A]) @ more_text) = Some (rows_of (seen @ [CHR 0x0A]) @ rows_of more_text)"
    using rows_of_whole[of seen more_text] by (simp add: parse_asset_rows_def)
  moreover have "exact_match (rows_of (seen @ [CHR 0x0A])) ip = Inr (Some asset_id)"
    using assms(3) strip_ansi_plain_text[OF assms(1)] by (simp add: select_exact_asset_id_def parse_asset_rows_def)
  ultimately show ?thesis using exact_match_row by fastforce
qed

theorem whole_rows_selected_witness:
  "\<exists>rows. parse_asset_rows ((''3 | web | 10.0.0.1'' @ [CHR 0x0A]) @ ''4 | db | 10.0.0.12'') = Some rows
    \<and> \<lparr>row_id = ''3'', row_ip = ''10.0.0.1''\<rparr> \<in> set rows"
  by (rule whole_rows_selected) code_simp+

definition demo_menu :: "string list \<Rightarrow> pty_shell" where
  "demo_menu table =
    \<lparr>pt_pending = [], pt_prompts = [''$ '', ''# ''],
     pt_events = delivers ([''Opt> ''] @ table @ [''[root@db]# '']), pt_written = [], pt_refusals = []\<rparr>"

text \<open>An asset chosen from a table that was cut inside a row can be another host.  The table lists one
  asset, 10.0.0.12; the target is 10.0.0.1.  When the row arrives whole, the navigation fails because
  no asset has the address.  When a chunk ends behind \<^verbatim>\<open>10.0.0.1\<close>, it answers with the number of that
  asset and returns its shell as the shell of 10.0.0.1.\<close>

theorem truncated_row_selects_other_host:
  "parse_asset_rows (''4 | db | 10.0.0.12 | linux'' @ [CHR 0x0A] @ ''Opt> '')
      = Some [\<lparr>row_id = ''4'', row_ip = ''10.0.0.12''\<rparr>]
    \<and> fst (navigate_to_asset (Inl ()) ''10.0.0.1''
        (demo_menu [''4 | db | 10.0.0.12 | linux'' @ [CHR 0x0A] @ ''Opt> ''])) = Inl NavNoExactMatch
    \<and> (\<exists>s. navigate_to_asset (Inl ()) ''10.0.0.1''
        (demo_menu [''4 | db | 10.0.0.1'', ''2 | linux'' @ [CHR 0x0A] @ ''Opt> '']) = (Inr (), s)
      \<and> pt_written s = [''10.0.0.1'' @ [CHR 0x0D], ''4'' @ [CHR 0x0D]])"
proof (intro conjI)
  show "parse_asset_rows (''4 | db | 10.0.0.12 | linux'' @ [CHR 0x0A] @ ''Opt> '')
      = Some [\<lparr>row_id = ''4'', row_ip = ''10.0.0.12''\<rparr>]" by code_simp
  show "fst (navigate_to_asset (Inl ()) ''10.0.0.1''
        (demo_menu [''4 | db | 10.0.0.12 | linux'' @ [CHR 0x0A] @ ''Opt> ''])) = Inl NavNoExactMatch" by code_simp
  let ?run = "navigate_to_asset (Inl ()) ''10.0.0.1''
        (demo_menu [''4 | db | 10.0.0.1'', ''2 | linux'' @ [CHR 0x0A] @ ''Opt> ''])"
  have "fst ?run = Inr ()" by code_simp
  moreover have "pt_written (snd ?run) = [''10.0.0.1'' @ [CHR 0x0D], ''4'' @ [CHR 0x0D]]" by code_simp
  ultimately show "\<exists>s. ?run = (Inr (), s) \<and> pt_written s = [''10.0.0.1'' @ [CHR 0x0D], ''4'' @ [CHR 0x0D]]"
    by (metis prod.collapse)
qed

end
