(* ===== verification/Remote_Shell.thy ===== *)
theory Remote_Shell
  imports Shell_Command Pty_Shell
begin

text \<open>
  What the remote side does with the command lines that the terminal copies write: a reference, independent
  of the code, against which the command builders of \<^verbatim>\<open>daemon/session/shell_copy.rs\<close> are proved.

  \<^verbatim>\<open>sh_scan\<close> and \<^verbatim>\<open>sh_parse\<close> read a pipeline of simple commands with redirections by the POSIX rules
  (XCU 2.3, 2.7, 2.9.2), on the characters the builders emit; \<^verbatim>\<open>sh_run\<close> runs it on a file system.  The
  programs themselves are a parameter: \<^verbatim>\<open>utility_laws\<close> states what the manuals of \<^verbatim>\<open>head\<close>, \<^verbatim>\<open>tail\<close> and
  \<^verbatim>\<open>base64\<close> say of the arguments the code uses.  Opening a redirection always succeeds here.
\<close>

section \<open>Reading a pipeline\<close>

datatype sh_token = TWord string | TPipe | TRedirect nat bool

text \<open>A word being read, with whether any of it was quoted: digits before a redirection are its file descriptor only
  if they were not.\<close>

definition snoc_cur :: "bool \<Rightarrow> (bool \<times> string) option \<Rightarrow> string \<Rightarrow> (bool \<times> string) option" where
  "snoc_cur q cur s = Some (case cur of None \<Rightarrow> (q, s) | Some (q', w) \<Rightarrow> (q \<or> q', w @ s))"

fun flush_cur :: "(bool \<times> string) option \<Rightarrow> sh_token list" where
  "flush_cur None = []"
| "flush_cur (Some (q, w)) = [TWord w]"

fun redirect_tokens :: "(bool \<times> string) option \<Rightarrow> bool \<Rightarrow> sh_token list" where
  "redirect_tokens (Some (False, w)) app =
    (if list_all is_ascii_digit w then [TRedirect (decimal_value w) app] else [TWord w, TRedirect 1 app])"
| "redirect_tokens cur app = flush_cur cur @ [TRedirect 1 app]"

fun sh_scan :: "bool \<Rightarrow> (bool \<times> string) option \<Rightarrow> string \<Rightarrow> sh_token list option" where
  "sh_scan q cur [] = (if q then None else Some (flush_cur cur))"
| "sh_scan q cur (c # r) =
    (if q then (if c = squote then sh_scan False cur r else sh_scan True (snoc_cur True cur [c]) r)
     else if c = CHR '' '' then map_option ((@) (flush_cur cur)) (sh_scan False None r)
     else if c = squote then sh_scan True (snoc_cur True cur []) r
     else if c = backslash then
       (case r of [] \<Rightarrow> None
        | d # r' \<Rightarrow> if d = CHR 0x0A then None else sh_scan False (snoc_cur True cur [d]) r')
     else if c = CHR ''|'' then
       (case r of [] \<Rightarrow> None
        | d # _ \<Rightarrow> if d = CHR ''|'' then None else map_option ((@) (flush_cur cur @ [TPipe])) (sh_scan False None r))
     else if c = CHR ''>'' then
       (case r of [] \<Rightarrow> None
        | d # r' \<Rightarrow>
            if d = CHR ''>'' then map_option ((@) (redirect_tokens cur True)) (sh_scan False None r')
            else map_option ((@) (redirect_tokens cur False)) (sh_scan False None r))
     else if sh_plain c then sh_scan False (snoc_cur False cur [c]) r
     else None)"

text \<open>A simple command: its words and its redirections, each with the file descriptor and whether it appends.\<close>

type_synonym simple_command = "string list \<times> (nat \<times> bool \<times> string) list"

fun sh_parse :: "string list \<Rightarrow> (nat \<times> bool \<times> string) list \<Rightarrow> sh_token list \<Rightarrow> simple_command list option" where
  "sh_parse ws rs [] = (if ws = [] then None else Some [(ws, rs)])"
| "sh_parse ws rs (TWord w # ts) = sh_parse (ws @ [w]) rs ts"
| "sh_parse ws rs (TPipe # ts) = (if ws = [] then None else map_option (Cons (ws, rs)) (sh_parse [] [] ts))"
| "sh_parse ws rs (TRedirect fd app # TWord w # ts) = sh_parse ws (rs @ [(fd, app, w)]) ts"
| "sh_parse ws rs (TRedirect fd app # ts) = None"

section \<open>Running it\<close>

type_synonym files = "string \<rightharpoonup> string"

text \<open>A program is given its words, its standard input and the files, and leaves its output, its status and the files.\<close>

type_synonym utilities = "string list \<Rightarrow> string \<Rightarrow> files \<Rightarrow> string \<times> nat \<times> files"

definition contents_or_empty :: "files \<Rightarrow> string \<Rightarrow> string" where
  "contents_or_empty fs p = (case fs p of Some c \<Rightarrow> c | None \<Rightarrow> [])"

fun open_redirects :: "(nat \<times> bool \<times> string) list \<Rightarrow> string option \<Rightarrow> files \<Rightarrow> (string option \<times> files) option" where
  "open_redirects [] dst fs = Some (dst, fs)"
| "open_redirects ((fd, app, p) # rs) dst fs =
    (if fd = 2 \<and> p = ''/dev/null'' then open_redirects rs dst fs
     else if fd = 1 \<and> p \<noteq> ''/dev/null''
     then open_redirects rs (Some p) (fs(p \<mapsto> if app then contents_or_empty fs p else []))
     else None)"

fun run_simple :: "utilities \<Rightarrow> simple_command \<Rightarrow> string \<Rightarrow> files \<Rightarrow> (string \<times> nat \<times> files) option" where
  "run_simple util (ws, rs) inp fs =
    (case open_redirects rs None fs of
       None \<Rightarrow> None
     | Some (dst, fs) \<Rightarrow>
         (let (out, status, fs) = util ws inp fs
          in Some (case dst of None \<Rightarrow> (out, status, fs) | Some p \<Rightarrow> ([], status, fs(p \<mapsto> contents_or_empty fs p @ out)))))"

fun run_pipeline :: "utilities \<Rightarrow> simple_command list \<Rightarrow> string \<Rightarrow> files \<Rightarrow> (string \<times> nat \<times> files) option" where
  "run_pipeline util [] inp fs = None"
| "run_pipeline util [c] inp fs = run_simple util c inp fs"
| "run_pipeline util (c # cs) inp fs =
    (case run_simple util c inp fs of None \<Rightarrow> None | Some (out, _, fs) \<Rightarrow> run_pipeline util cs out fs)"

definition sh_run :: "utilities \<Rightarrow> string \<Rightarrow> string \<Rightarrow> files \<Rightarrow> (string \<times> nat \<times> files) option" where
  "sh_run util line inp fs =
    (case sh_scan False None line of
       None \<Rightarrow> None
     | Some ts \<Rightarrow> (case sh_parse [] [] ts of None \<Rightarrow> None | Some cs \<Rightarrow> run_pipeline util cs inp fs))"

text \<open>An argument that a program takes for a file, not for an option or its standard input.\<close>

definition operand :: "string \<Rightarrow> bool" where
  "operand p \<longleftrightarrow> p \<noteq> [] \<and> hd p \<noteq> CHR ''-''"

definition utility_laws :: "utilities \<Rightarrow> bool" where
  "utility_laws util \<longleftrightarrow> (\<forall>p inp fs c n d.
    (operand p \<and> fs p = Some c \<longrightarrow>
       util [''base64'', p] inp fs = (string_of (wire_lines rfc4648 (bytes_of c)), 0, fs)
       \<and> (0 < n \<longrightarrow> util [''tail'', ''-c'', ''+'' @ show_nat n, p] inp fs = (drop (n - 1) c, 0, fs)))
    \<and> util [''base64''] inp fs = (string_of (wire_lines rfc4648 (bytes_of inp)), 0, fs)
    \<and> util [''head'', ''-c'', show_nat n] inp fs = (take n inp, 0, fs)
    \<and> util [''base64'', ''-d''] (string_of (wire_lines rfc4648 (bytes_of d))) fs = (d, 0, fs))"

lemma utility_simps:
  assumes "utility_laws util"
  shows "operand p \<Longrightarrow> fs p = Some c \<Longrightarrow> util [''base64'', p] inp fs = (string_of (wire_lines rfc4648 (bytes_of c)), 0, fs)"
    and "operand p \<Longrightarrow> fs p = Some c \<Longrightarrow> 0 < n \<Longrightarrow> util [''tail'', ''-c'', ''+'' @ show_nat n, p] inp fs = (drop (n - 1) c, 0, fs)"
    and "util [''base64''] inp fs = (string_of (wire_lines rfc4648 (bytes_of inp)), 0, fs)"
    and "util [''head'', ''-c'', show_nat n] inp fs = (take n inp, 0, fs)"
    and "util [''base64'', ''-d''] (string_of (wire_lines rfc4648 (bytes_of d))) fs = (d, 0, fs)"
  using assms by (simp_all add: utility_laws_def)

section \<open>Reading back what was written\<close>

lemma snoc_cur_simps [simp]:
  "snoc_cur q None s = Some (q, s)" "snoc_cur q (Some (q', w)) s = Some (q \<or> q', w @ s)"
  by (simp_all add: snoc_cur_def)

lemma sh_scan_escaped:
  "sh_scan True (Some (True, w)) (replace_char squote [squote, backslash, squote, squote] a @ r)
    = sh_scan True (Some (True, w @ a)) r"
  by (induction a arbitrary: w) auto

lemma sh_scan_quoted: "sh_scan False None (shell_quote a @ r) = sh_scan False (Some (True, a)) r"
  by (simp add: shell_quote_def Let_def sh_scan_escaped)

lemma sh_scan_plain_more:
  "list_all sh_plain a \<Longrightarrow> sh_scan False (Some (q, w)) (a @ r) = sh_scan False (Some (q, w @ a)) r"
proof (induction a arbitrary: w)
  case (Cons c a)
  moreover from Cons have "c \<noteq> CHR '' ''" "c \<noteq> squote" "c \<noteq> backslash" "c \<noteq> CHR ''|''" "c \<noteq> CHR ''>''"
    by (auto simp: sh_plain_def char_class_defs)
  ultimately show ?case by simp
qed simp

lemma sh_scan_plain:
  assumes "list_all sh_plain a" "a \<noteq> []"
  shows "sh_scan False None (a @ r) = sh_scan False (Some (False, a)) r"
proof -
  obtain c a' where a: "a = c # a'" using assms(2) by (cases a) auto
  with assms(1) have "c \<noteq> CHR '' ''" "c \<noteq> squote" "c \<noteq> backslash" "c \<noteq> CHR ''|''" "c \<noteq> CHR ''>''" "sh_plain c"
    by (auto simp: sh_plain_def char_class_defs)
  then show ?thesis using assms(1) a by (simp add: sh_scan_plain_more)
qed

lemma sh_scan_space: "sh_scan False cur (CHR '' '' # r) = map_option ((@) (flush_cur cur)) (sh_scan False None r)"
  by simp

lemma show_nat_plain: "list_all sh_plain (show_nat n)"
  using show_nat_digits[of n] by (auto simp: list_all_iff sh_plain_def is_ascii_alphanumeric_def)

lemmas scan_simps = sh_scan_quoted sh_scan_plain sh_scan_plain_more show_nat_plain

declare sh_scan.simps(2) [simp del]

text \<open>A word behind a space, a word at the end, and the redirection of the errors.\<close>

lemma sh_word_then:
  "list_all sh_plain a \<Longrightarrow> a \<noteq> [] \<Longrightarrow> sh_scan False None (a @ CHR '' '' # r) = map_option (Cons (TWord a)) (sh_scan False None r)"
  by (simp add: sh_scan_plain sh_scan.simps(2)) (cases "sh_scan False None r"; simp)

lemma sh_quoted_then:
  "sh_scan False None (shell_quote a @ CHR '' '' # r) = map_option (Cons (TWord a)) (sh_scan False None r)"
  by (simp add: sh_scan_quoted sh_scan.simps(2)) (cases "sh_scan False None r"; simp)

lemma sh_pipe_then: "sh_scan False None (''| '' @ r) = map_option (Cons TPipe) (sh_scan False None r)"
  by (simp add: sh_scan.simps(2) option.map_comp comp_def)

lemma sh_errors_away: "sh_scan False None ''2>/dev/null'' = Some [TRedirect 2 False, TWord ''/dev/null'']"
  by code_simp

lemma sh_great_then: "sh_scan False None (''> '' @ r) = map_option (Cons (TRedirect 1 False)) (sh_scan False None r)"
  by (simp add: sh_scan.simps(2) option.map_comp comp_def)

lemma sh_dgreat_then: "sh_scan False None (''>> '' @ r) = map_option (Cons (TRedirect 1 True)) (sh_scan False None r)"
  by (simp add: sh_scan.simps(2) option.map_comp comp_def)

end
