(* ===== verification/Shell_Copy.thy ===== *)
theory Shell_Copy
  imports "HOL-Library.Char_ord" "HOL-Library.List_Lexorder" Copy_Client Remote_Shell
begin

text \<open>
  Copies through a terminal (\<^verbatim>\<open>daemon/session/shell_copy.rs\<close>) and the retry of the jump server gateway
  around them (\<^verbatim>\<open>copy\<close> and \<^verbatim>\<open>probe_upload_resume\<close> of \<^verbatim>\<open>daemon/gateway/jumpserver.rs\<close>).

  Everything runs on the shell of \<^verbatim>\<open>Pty_Shell\<close>: what the remote commands do is what the channel
  delivers.  The random parts of the markers are the values of a function of the number of draws.
  Frames go to a sink that may close after some of them; the texts of errors are shortened.
\<close>

section \<open>Numbers\<close>

definition octal_value :: "string \<Rightarrow> nat" where
  "octal_value ds = foldl (\<lambda>n c. n * 8 + digit_value c) 0 ds"

text \<open>\<^verbatim>\<open>u32::from_str_radix(_, 8)\<close> and \<^verbatim>\<open>i64::from_str\<close>.\<close>

definition parse_octal :: "string \<Rightarrow> nat option" where
  "parse_octal s =
    (let ds = (case strip_prefix ''+'' s of Some r \<Rightarrow> r | None \<Rightarrow> s)
     in if ds \<noteq> [] \<and> list_all (\<lambda>c. is_ascii_digit c \<and> digit_value c < 8) ds \<and> int (octal_value ds) \<le> u32_max
        then Some (octal_value ds) else None)"

definition parse_i64 :: "string \<Rightarrow> int option" where
  "parse_i64 s =
    (let (neg, ds) = (case s of [] \<Rightarrow> (False, []) | c # r \<Rightarrow>
            if c = CHR ''-'' then (True, r) else if c = CHR ''+'' then (False, r) else (False, s))
     in if ds \<noteq> [] \<and> list_all is_ascii_digit ds
           \<and> int (decimal_value ds) \<le> (if neg then 2 ^ 63 else 2 ^ 63 - 1)
        then Some (if neg then - int (decimal_value ds) else int (decimal_value ds)) else None)"

fun show_octal :: "nat \<Rightarrow> string" where
  "show_octal n = (if n < 8 then [char_of (48 + n)] else show_octal (n div 8) @ [char_of (48 + n mod 8)])"

declare show_octal.simps [simp del]

definition show_int :: "int \<Rightarrow> string" where
  "show_int i = (if i < 0 then ''-'' @ show_nat (nat (- i)) else show_nat (nat i))"

section \<open>Commands\<close>

text \<open>The shell, the number of random values drawn, and what becomes of the writes of upload chunks
  still to come (those beyond the list are accepted).\<close>

record copy_shell =
  xs_shell :: pty_shell
  xs_drawn :: nat
  xs_writes :: "chunk_write list"

fun pty_error_text :: "pty_error \<Rightarrow> string" where
  "pty_error_text TimedOut = ''timed out waiting for shell output''"
| "pty_error_text ShellClosed = ''shell closed unexpectedly''"
| "pty_error_text WriteFailed = ''channel write failed''"
| "pty_error_text UploadStalled = ''upload stalled: bastion stopped accepting data for 60s''"
| "pty_error_text (ReceiverExited code) = ''remote receiver exited early with code '' @ show_int code"
| "pty_error_text (BadPayload e) = ''invalid base64 payload''"

definition is_stall_class :: "string \<Rightarrow> bool" where
  "is_stall_class message \<longleftrightarrow>
    contains_sub message ''timed out waiting for shell output'' \<or> contains_sub message ''shell closed unexpectedly''"

type_synonym draws = "nat \<Rightarrow> string"

definition cooked :: "draws \<Rightarrow> string \<Rightarrow> copy_shell \<Rightarrow> (string + int \<times> string) \<times> copy_shell" where
  "cooked uu command x =
    (case run_command_plain (uu (xs_drawn x)) command (xs_shell x) of
       (r, sent, s) \<Rightarrow>
         (case r of Inl e \<Rightarrow> Inl (pty_error_text e) | Inr code \<Rightarrow> Inr (code, concat sent),
          x\<lparr>xs_shell := s, xs_drawn := xs_drawn x + 1\<rparr>))"

definition raw :: "draws \<Rightarrow> string \<Rightarrow> raw_payload \<Rightarrow> copy_shell \<Rightarrow> (string + int) \<times> string list \<times> copy_shell" where
  "raw uu command payload x =
    (case run_command_raw_impl (uu (xs_drawn x)) (uu (xs_drawn x + 1)) command payload (xs_shell x) of
       (r, sent, s) \<Rightarrow>
         (case r of Inl e \<Rightarrow> Inl (pty_error_text e) | Inr code \<Rightarrow> Inr code, sent,
          x\<lparr>xs_shell := s, xs_drawn := xs_drawn x + 2\<rparr>))"

definition run_shell_command_raw :: "draws \<Rightarrow> string \<Rightarrow> copy_shell \<Rightarrow> (string + unit) \<times> copy_shell" where
  "run_shell_command_raw uu command x =
    (case raw uu command Plain x of (Inl e, _, x) \<Rightarrow> (Inl e, x) | (Inr _, _, x) \<Rightarrow> (Inr (), x))"

definition run_and_capture :: "draws \<Rightarrow> string \<Rightarrow> copy_shell \<Rightarrow> (string + string) \<times> copy_shell" where
  "run_and_capture uu command x =
    (case cooked uu command x of (Inl e, x) \<Rightarrow> (Inl e, x) | (Inr (_, out), x) \<Rightarrow> (Inr out, x))"

definition run_and_capture_raw :: "draws \<Rightarrow> string \<Rightarrow> copy_shell \<Rightarrow> (string + string) \<times> copy_shell" where
  "run_and_capture_raw uu command x =
    (case raw uu command Plain x of (Inl e, _, x) \<Rightarrow> (Inl e, x) | (Inr _, sent, x) \<Rightarrow> (Inr (concat sent), x))"

text \<open>\<^verbatim>\<open>RawGuard\<close>.  After the clean-up the shell is discarded.\<close>

definition raw_enter :: "draws \<Rightarrow> copy_shell \<Rightarrow> (string + unit) \<times> copy_shell" where
  "raw_enter uu x =
    (case cooked uu ''stty raw -echo'' x of
       (Inl e, x) \<Rightarrow> (Inl e, x)
     | (Inr (code, _), x) \<Rightarrow>
         (if code \<noteq> 0 then Inl (''stty raw -echo failed (exit code '' @ show_int code @ '')'') else Inr (), x))"

definition raw_complete :: "draws \<Rightarrow> copy_shell \<Rightarrow> (string + unit) \<times> copy_shell" where
  "raw_complete uu x = run_shell_command_raw uu ''stty sane'' x"

definition join_remote :: "string \<Rightarrow> string \<Rightarrow> string" where
  "join_remote root relative = to_string_normalized (path_join (from_str root) relative)"

definition resolve_upload_path :: "string \<Rightarrow> string \<Rightarrow> bool \<Rightarrow> string" where
  "resolve_upload_path remote_root relative_path recursive =
    (if \<not> recursive \<or> relative_path = [] then remote_root else join_remote remote_root relative_path)"

definition resolve_upload_dest :: "draws \<Rightarrow> copy_spec \<Rightarrow> copy_shell \<Rightarrow> (string + copy_spec) \<times> copy_shell" where
  "resolve_upload_dest uu spec x =
    (if cs_recursive spec then (Inr spec, x)
     else (case run_and_capture uu (''test -d '' @ shell_quote (cs_remote_path spec) @ '' && echo XHO_DIR'') x of
             (Inl e, x) \<Rightarrow> (Inl e, x)
           | (Inr out, x) \<Rightarrow>
               (if contains_sub (from_utf8_lossy out) ''XHO_DIR''
                then (Inr (spec\<lparr>cs_remote_path := join_remote (cs_remote_path spec) (rsplit_name (cs_source_name spec))\<rparr>), x)
                else (Inr spec, x))))"

section \<open>Upload\<close>

text \<open>The feeder: the wire chunks it makes of the frames of a file, how it ends (the bytes taken and the
  wire bytes made), and the frames behind.\<close>

fun feeder ::
  "(u8 list \<Rightarrow> u8 list) \<Rightarrow> b64_encoder \<Rightarrow> nat \<Rightarrow> copy_frame list
    \<Rightarrow> string list \<times> (string + nat \<times> nat) \<times> copy_frame list" where
  "feeder engine enc n (FileData d # fs) =
    (let (enc, wire) = encode engine enc (bytes_of d);
         (chunks, r, rest) = feeder engine enc (n + length d) fs
     in (nonempty (string_of wire) @ chunks, r, rest))"
| "feeder engine enc n (EndFile # fs) =
    (let (enc, tl_wire) = encoder_finish engine enc
     in (nonempty (string_of tl_wire), Inr (n, encoded_total enc), fs))"
| "feeder engine enc n (f # fs) = ([], Inl ''unexpected frame during file upload'', fs)"
| "feeder engine enc n [] = ([], Inl ''upload stream closed during file transfer'', [])"

lemma feeder_rest: "length (snd (snd (feeder engine enc n fs))) \<le> length fs"
proof (induction fs arbitrary: enc n)
  case (Cons f fs)
  show ?case
  proof (cases f)
    case (FileData d)
    obtain enc' wire where e: "encode engine enc (bytes_of d) = (enc', wire)" by (meson surj_pair)
    show ?thesis using Cons.IH[of enc' "n + length d"] FileData e by (simp add: Let_def case_prod_unfold)
  qed (simp_all add: Let_def case_prod_unfold)
qed simp

fun write_outcomes :: "string list \<Rightarrow> chunk_write list \<Rightarrow> (string \<times> chunk_write) list" where
  "write_outcomes [] ws = []"
| "write_outcomes (c # cs) [] = (c, Accepted) # write_outcomes cs []"
| "write_outcomes (c # cs) (w # ws) = (c, w) # write_outcomes cs ws"

definition ready_marker :: "string \<Rightarrow> string" where
  "ready_marker uuid = ''__XHO_CP_READY_'' @ uuid @ ''__''"

definition end_marker :: "string \<Rightarrow> string" where
  "end_marker uuid = ''__XHO_CP_END_'' @ uuid @ ''__''"

definition receiver_command :: "nat \<Rightarrow> nat \<Rightarrow> string \<Rightarrow> string" where
  "receiver_command wire_len skip tmp =
    ''head -c '' @ show_nat wire_len @ '' | base64 -d '' @ (if 0 < skip then ''>>'' else ''>'') @ '' ''
      @ shell_quote tmp @ '' 2>/dev/null''"

definition upload_command :: "string \<Rightarrow> string \<Rightarrow> string \<Rightarrow> string" where
  "upload_command rdy receiver fin =
    ''printf '' @ [CHR 0x27] @ rdy @ [CHR 0x27] @ ''; { '' @ receiver @ ''; }; printf '' @ [CHR 0x27] @ fin
      @ '':%s'' @ [CHR 0x5C] @ ''n'' @ [CHR 0x27, CHR 0x20, CHR 0x22] @ ''$?'' @ [CHR 0x22]"

definition finalize_upload :: "draws \<Rightarrow> string \<Rightarrow> string \<Rightarrow> nat \<Rightarrow> int \<Rightarrow> copy_shell \<Rightarrow> (string + unit) \<times> copy_shell" where
  "finalize_upload uu tmp dest mode mtime x =
    (let perm = mode mod 2 ^ 12;
         (r, x) = (if perm \<noteq> 0 then run_shell_command_raw uu (''chmod '' @ show_octal perm @ '' '' @ shell_quote tmp) x
                   else (Inr (), x))
     in case r of
          Inl e \<Rightarrow> (Inl e, x)
        | Inr _ \<Rightarrow>
            (let (r, x) = (if mtime \<noteq> 0 then run_shell_command_raw uu (''touch -d @'' @ show_int mtime @ '' '' @ shell_quote tmp) x
                           else (Inr (), x))
             in case r of
                  Inl e \<Rightarrow> (Inl e, x)
                | Inr _ \<Rightarrow> run_shell_command_raw uu (''mv '' @ shell_quote tmp @ '' '' @ shell_quote dest) x))"

definition upload_single_file_streaming ::
  "(u8 list \<Rightarrow> u8 list) \<Rightarrow> draws \<Rightarrow> string \<Rightarrow> nat \<Rightarrow> nat \<Rightarrow> int \<Rightarrow> copy_frame list \<Rightarrow> nat \<Rightarrow> copy_shell
    \<Rightarrow> (string + copy_frame list) \<times> copy_shell" where
  "upload_single_file_streaming engine uu dest sz mode mtime frames skip x =
    (let tmp = dest @ ''.xho_tmp''; remaining = sz - skip;
         rdy = ready_marker (uu (xs_drawn x)); fin = end_marker (uu (xs_drawn x + 1));
         wire_len = wire_len_for remaining;
         command = upload_command rdy (receiver_command wire_len skip tmp) fin;
         (chunks, fed, rest) = feeder engine encoder_new 0 frames;
         (r, s) = upload_binary command rdy fin (write_outcomes chunks (xs_writes x)) (xs_shell x);
         x = x\<lparr>xs_shell := s, xs_drawn := xs_drawn x + 2, xs_writes := drop (length chunks) (xs_writes x)\<rparr>
     in case r of
          Inl e \<Rightarrow> (Inl (pty_error_text e), x)
        | Inr code \<Rightarrow>
            (case fed of
               Inl e \<Rightarrow> (Inl e, x)
             | Inr (total_sent, wire_sent) \<Rightarrow>
                 if code \<noteq> 0 then (Inl (''remote receiver failed (exit code '' @ show_int code @ '')''), x)
                 else if total_sent \<noteq> remaining then (Inl ''upload size mismatch'', x)
                 else if wire_sent \<noteq> wire_len then (Inl ''upload wire length mismatch'', x)
                 else (case finalize_upload uu tmp dest mode mtime x of
                         (Inl e, x) \<Rightarrow> (Inl e, x)
                       | (Inr _, x) \<Rightarrow> (Inr rest, x))))"

lemma upload_single_rest:
  "upload_single_file_streaming engine uu dest sz mode mtime frames skip x = (Inr rest, x') \<Longrightarrow> length rest \<le> length frames"
  using feeder_rest[of engine encoder_new 0 frames]
  by (auto simp: upload_single_file_streaming_def Let_def split: prod.splits sum.splits if_splits)

function shell_upload_loop ::
  "(u8 list \<Rightarrow> u8 list) \<Rightarrow> draws \<Rightarrow> string \<Rightarrow> bool \<Rightarrow> copy_frame list \<Rightarrow> copy_shell \<Rightarrow> (string + unit) \<times> copy_shell" where
  "shell_upload_loop engine uu root recursive frames x =
    (case frames of
       [] \<Rightarrow> (Inr (), x)
     | BeginFile rel mode sz mtime start # fs \<Rightarrow>
         (case upload_single_file_streaming engine uu (resolve_upload_path root rel recursive) sz mode mtime fs (min start sz) x of
            (Inl e, x) \<Rightarrow> (Inl e, x)
          | (Inr rest, x) \<Rightarrow> shell_upload_loop engine uu root recursive rest x)
     | FileData d # fs \<Rightarrow> (Inl ''copy stream sent file data outside of a BeginFile/EndFile pair'', x)
     | EndFile # fs \<Rightarrow> (Inl ''copy stream sent EndFile without a preceding BeginFile'', x)
     | BeginDirectory rel mode mtime # fs \<Rightarrow>
         if \<not> recursive then (Inl ''remote directory frame requires recursive copy'', x)
         else (case run_shell_command_raw uu
                      (''mkdir -p '' @ shell_quote (if rel = [] then root else join_remote root rel)) x of
                 (Inl e, x) \<Rightarrow> (Inl e, x)
               | (Inr _, x) \<Rightarrow> shell_upload_loop engine uu root recursive fs x)
     | Symlink rel tgt # fs \<Rightarrow>
         (case run_shell_command_raw uu
                 (''ln -sf '' @ shell_quote tgt @ '' '' @ shell_quote (resolve_upload_path root rel recursive)) x of
            (Inl e, x) \<Rightarrow> (Inl e, x)
          | (Inr _, x) \<Rightarrow> shell_upload_loop engine uu root recursive fs x)
     | EndOfStream # fs \<Rightarrow> (Inr (), x))"
  by pat_completeness auto
termination
  by (relation "measure (\<lambda>(_, _, _, _, frames, _). length frames)")
    (auto dest: upload_single_rest simp: less_Suc_eq_le dest: sym)

declare shell_upload_loop.simps [simp del]

text \<open>The result carries the shell when it may be cached.\<close>

definition shell_upload ::
  "(u8 list \<Rightarrow> u8 list) \<Rightarrow> draws \<Rightarrow> copy_spec \<Rightarrow> copy_frame list \<Rightarrow> copy_shell \<Rightarrow> (string + copy_shell) \<times> copy_spec" where
  "shell_upload engine uu spec frames x =
    (case resolve_upload_dest uu spec x of
       (Inl e, x) \<Rightarrow> (Inl e, spec)
     | (Inr spec, x) \<Rightarrow>
         (case raw_enter uu x of
            (Inl e, x) \<Rightarrow> (Inl e, spec)
          | (Inr _, x) \<Rightarrow>
              (case shell_upload_loop engine uu (cs_remote_path spec) (cs_recursive spec) frames x of
                 (Inl e, x) \<Rightarrow> (Inl e, spec)
               | (Inr _, x) \<Rightarrow>
                   (case raw_complete uu x of (Inl e, x) \<Rightarrow> (Inl e, spec) | (Inr _, x) \<Rightarrow> (Inr x, spec)))))"


section \<open>Download\<close>

record frame_sink =
  fk_frames :: "copy_frame list"
  fk_room :: "nat option"

definition send_frame :: "copy_frame \<Rightarrow> frame_sink \<Rightarrow> bool \<times> frame_sink" where
  "send_frame f k =
    (if fk_room k = Some 0 then (False, k)
     else (True, k\<lparr>fk_frames := fk_frames k @ [f], fk_room := map_option (\<lambda>n. n - 1) (fk_room k)\<rparr>))"

definition stream_closed :: string where
  "stream_closed = ''download copy frame stream closed''"

text \<open>The ledger: the entry of each file by its name.\<close>

type_synonym ledger = "(string \<times> resume_entry) list"

definition ledger_from :: "resume_entry list \<Rightarrow> ledger" where
  "ledger_from es = foldl (\<lambda>l e. al_put (re_path e) e l) [] es"

definition ledger_update :: "string \<Rightarrow> nat \<Rightarrow> nat \<Rightarrow> int \<Rightarrow> ledger \<Rightarrow> ledger" where
  "ledger_update name offset sz mtime l =
    al_put name \<lparr>re_path = name, re_offset = offset, re_size = sz, re_mtime = mtime, re_sha256 = []\<rparr> l"

definition ledger_entries :: "ledger \<Rightarrow> resume_entry list" where
  "ledger_entries l = sort_key re_path (map snd l)"

definition ledger_start :: "string \<Rightarrow> nat \<Rightarrow> int \<Rightarrow> ledger \<Rightarrow> nat" where
  "ledger_start name sz mtime l =
    (case map_of l name of
       Some h \<Rightarrow>
         if re_size h = sz \<and> re_mtime h = mtime \<and> 0 < re_offset h \<and> re_offset h \<le> sz then re_offset h else 0
     | None \<Rightarrow> 0)"

definition base64_read_command :: "string \<Rightarrow> nat \<Rightarrow> string" where
  "base64_read_command remote_path skip =
    (if 0 < skip then ''tail -c +'' @ show_nat (skip + 1) @ '' '' @ shell_quote remote_path @ '' | base64 2>/dev/null''
     else ''base64 '' @ shell_quote remote_path @ '' 2>/dev/null'')"

text \<open>The forwarder: it stops at the first frame that is not accepted, and counts the bytes of those that
  were.\<close>

fun forward_chunks :: "string list \<Rightarrow> frame_sink \<Rightarrow> nat \<times> frame_sink" where
  "forward_chunks [] k = (0, k)"
| "forward_chunks (c # cs) k =
    (case send_frame (FileData c) k of
       (False, k) \<Rightarrow> (0, k)
     | (True, k) \<Rightarrow> (let (n, k) = forward_chunks cs k in (length c + n, k)))"

definition stream_remote_file ::
  "draws \<Rightarrow> string \<Rightarrow> nat \<Rightarrow> nat \<Rightarrow> frame_sink \<Rightarrow> copy_shell \<Rightarrow> (string + int) \<times> nat \<times> frame_sink \<times> copy_shell" where
  "stream_remote_file uu remote_path sz skip k x =
    (let (r, sent, x) = raw uu (base64_read_command remote_path skip) (Base64 (sz - skip)) x;
         (n, k) = forward_chunks sent k
     in (r, skip + n, k, x))"

text \<open>One file: its frames, the ledger, and an error or none.\<close>

definition download_one ::
  "draws \<Rightarrow> string \<Rightarrow> string \<Rightarrow> nat \<Rightarrow> int \<Rightarrow> nat \<Rightarrow> frame_sink \<Rightarrow> ledger \<Rightarrow> copy_shell
    \<Rightarrow> string option \<times> frame_sink \<times> ledger \<times> copy_shell" where
  "download_one uu remote_path name mode mtime sz k l x =
    (let start = ledger_start name sz mtime l
     in case send_frame (BeginFile name mode sz mtime start) k of
          (False, k) \<Rightarrow> (Some stream_closed, k, l, x)
        | (True, k) \<Rightarrow>
            (let (r, forwarded, k, x) = stream_remote_file uu remote_path sz start k x;
                 l = ledger_update name (min forwarded sz) sz mtime l
             in case r of
                  Inl e \<Rightarrow> (Some e, k, l, x)
                | Inr code \<Rightarrow>
                    if code \<noteq> 0
                    then (Some (''remote read of '' @ remote_path @ '' failed (exit code '' @ show_int code @ '')''), k, l, x)
                    else (case send_frame EndFile k of
                            (ok, k) \<Rightarrow> (if ok then None else Some stream_closed, k, l, x))))"

definition stat_fields :: "string \<Rightarrow> nat \<times> int \<times> nat" where
  "stat_fields text =
    (let parts = split_whitespace text
     in if 3 \<le> length parts
        then (case parse_octal (parts ! 0) of Some m \<Rightarrow> m | None \<Rightarrow> 0,
              case parse_i64 (parts ! 1) of Some t \<Rightarrow> t | None \<Rightarrow> 0,
              case parse_uint u64_max (parts ! 2) of Some n \<Rightarrow> n | None \<Rightarrow> 0)
        else (420, 0, 0))"

definition download_name :: "string \<Rightarrow> string \<Rightarrow> string" where
  "download_name remote_path source_name =
    (case file_name (components remote_path) of Some n \<Rightarrow> n | None \<Rightarrow> source_name)"

definition stat_command :: "string \<Rightarrow> string" where
  "stat_command remote_path =
    ''stat -c '' @ [CHR 0x27] @ ''%a %Y %s'' @ [CHR 0x27] @ '' '' @ shell_quote remote_path @ '' 2>/dev/null''"

definition download_single_file ::
  "draws \<Rightarrow> string \<Rightarrow> string \<Rightarrow> frame_sink \<Rightarrow> ledger \<Rightarrow> copy_shell
    \<Rightarrow> string option \<times> frame_sink \<times> ledger \<times> copy_shell" where
  "download_single_file uu remote_path source_name k l x =
    (case run_and_capture_raw uu (stat_command remote_path) x of
       (Inl e, x) \<Rightarrow> (Some e, k, l, x)
     | (Inr out, x) \<Rightarrow>
         (case stat_fields (from_utf8_lossy out) of
            (mode, mtime, sz) \<Rightarrow>
              download_one uu remote_path (download_name remote_path source_name) mode mtime sz k l x))"

text \<open>The tree, line by line of the listing.\<close>

definition relative_below :: "string \<Rightarrow> string \<Rightarrow> string" where
  "relative_below remote_path full_path =
    (case file_name (components remote_path) of
       None \<Rightarrow> full_path
     | Some n \<Rightarrow>
         if n = [] then full_path
         else dropWhile (\<lambda>c. c = CHR ''/'')
                (case strip_prefix remote_path full_path of Some r \<Rightarrow> r | None \<Rightarrow> full_path))"

definition mtime_field :: "string \<Rightarrow> int" where
  "mtime_field f = (case parse_i64 (hd (split_on (CHR ''.'') f)) of Some t \<Rightarrow> t | None \<Rightarrow> 0)"

fun download_lines ::
  "draws \<Rightarrow> string \<Rightarrow> string list \<Rightarrow> frame_sink \<Rightarrow> ledger \<Rightarrow> copy_shell
    \<Rightarrow> string option \<times> frame_sink \<times> ledger \<times> copy_shell" where
  "download_lines uu remote_path [] k l x = (None, k, l, x)"
| "download_lines uu remote_path (line # ls) k l x =
    (let fields = split_on (CHR 0x09) (trim_end_cr line)
     in if trim_end_cr line = [] \<or> length fields < 5 then download_lines uu remote_path ls k l x
        else
          (let ftype = list_first (fields ! 0);
               mode = (case parse_octal (fields ! 1) of Some m \<Rightarrow> m | None \<Rightarrow> 0);
               mtime = mtime_field (fields ! 2);
               sz = (case parse_uint u64_max (fields ! 3) of Some n \<Rightarrow> n | None \<Rightarrow> 0);
               relative = relative_below remote_path (fields ! 4)
           in if ftype = Some (CHR ''d'') then
                (case send_frame (BeginDirectory relative mode mtime) k of
                   (False, k) \<Rightarrow> (Some stream_closed, k, l, x)
                 | (True, k) \<Rightarrow> download_lines uu remote_path ls k l x)
              else if ftype = Some (CHR ''l'') then
                (case send_frame (Symlink relative (if 5 < length fields then fields ! 5 else [])) k of
                   (False, k) \<Rightarrow> (Some stream_closed, k, l, x)
                 | (True, k) \<Rightarrow> download_lines uu remote_path ls k l x)
              else
                (case download_one uu (fields ! 4) relative mode mtime sz k l x of
                   (Some e, k, l, x) \<Rightarrow> (Some e, k, l, x)
                 | (None, k, l, x) \<Rightarrow> download_lines uu remote_path ls k l x)))"

definition find_command :: "string \<Rightarrow> string" where
  "find_command remote_path =
    ''find '' @ shell_quote remote_path @ '' -printf '' @ [CHR 0x27]
      @ concat (map (\<lambda>f. f @ [CHR 0x5C] @ ''t'') [''%y'', ''%m'', ''%T@'', ''%s'', ''%p'']) @ ''%l'' @ [CHR 0x5C] @ ''n''
      @ [CHR 0x27] @ '' 2>/dev/null''"

definition download_recursive ::
  "draws \<Rightarrow> string \<Rightarrow> frame_sink \<Rightarrow> ledger \<Rightarrow> copy_shell \<Rightarrow> string option \<times> frame_sink \<times> ledger \<times> copy_shell" where
  "download_recursive uu remote_path k l x =
    (case run_and_capture_raw uu (find_command remote_path) x of
       (Inl e, x) \<Rightarrow> (Some e, k, l, x)
     | (Inr out, x) \<Rightarrow> download_lines uu remote_path (rust_lines (from_utf8_lossy out)) k l x)"

definition kind_command :: "string \<Rightarrow> string" where
  "kind_command remote_path = ''test -d '' @ shell_quote remote_path @ '' && echo XHO_DIR || echo XHO_FILE''"

definition download_body ::
  "draws \<Rightarrow> copy_spec \<Rightarrow> frame_sink \<Rightarrow> ledger \<Rightarrow> copy_shell \<Rightarrow> (string + copy_shell) \<times> frame_sink \<times> ledger" where
  "download_body uu spec k l x =
    (case run_and_capture uu (kind_command (cs_remote_path spec)) x of
       (Inl e, x) \<Rightarrow> (Inl e, k, l)
     | (Inr kind_out, x) \<Rightarrow>
         (let is_dir = contains_sub (from_utf8_lossy kind_out) ''XHO_DIR''
          in case raw_enter uu x of
               (Inl e, x) \<Rightarrow> (Inl e, k, l)
             | (Inr _, x) \<Rightarrow>
                 if is_dir \<and> \<not> cs_recursive spec then (Inl ''copying a remote directory requires -r'', k, l)
                 else
                   (case (if is_dir then download_recursive uu (cs_remote_path spec) k l x
                          else download_single_file uu (cs_remote_path spec) (cs_source_name spec) k l x) of
                      (Some e, k, l, x) \<Rightarrow> (Inl e, k, l)
                    | (None, k, l, x) \<Rightarrow>
                        (case send_frame EndOfStream k of
                           (False, k) \<Rightarrow> (Inl stream_closed, k, l)
                         | (True, k) \<Rightarrow>
                             (case raw_complete uu x of (Inl e, x) \<Rightarrow> (Inl e, k, l) | (Inr _, x) \<Rightarrow> (Inr x, k, l))))))"

text \<open>A failure leaves the progress of each file in the specification, for the next attempt.\<close>

definition shell_download ::
  "draws \<Rightarrow> copy_spec \<Rightarrow> frame_sink \<Rightarrow> copy_shell \<Rightarrow> (string + copy_shell) \<times> copy_spec \<times> frame_sink" where
  "shell_download uu spec k x =
    (case download_body uu spec k (ledger_from (cs_resume spec)) x of
       (Inr x, k, l) \<Rightarrow> (Inr x, spec, k)
     | (Inl e, k, l) \<Rightarrow> (Inl e, spec\<lparr>cs_resume := ledger_entries l\<rparr>, k))"

section \<open>The gateway\<close>

text \<open>The shells the attempts acquire; the shell of a successful copy goes back to the cache.\<close>

definition jump_copy ::
  "(u8 list \<Rightarrow> u8 list) \<Rightarrow> draws \<Rightarrow> gateway_error + copy_shell \<Rightarrow> gateway_error + copy_shell
    \<Rightarrow> copy_frame list \<Rightarrow> copy_spec \<Rightarrow> frame_sink \<Rightarrow> (gateway_error + copy_shell) \<times> copy_spec \<times> frame_sink" where
  "jump_copy engine uu first second frames spec k =
    (case first of
       Inl e \<Rightarrow> (Inl e, spec, k)
     | Inr x \<Rightarrow>
         (case cs_direction spec of
            Upload \<Rightarrow>
              (case shell_upload engine uu spec frames x of
                 (Inr x, spec) \<Rightarrow> (Inr x, spec, k)
               | (Inl e, spec) \<Rightarrow> (Inl \<lparr>ge_kind = EExecution, ge_source = e\<rparr>, spec, k))
          | Download \<Rightarrow>
              (case shell_download uu spec k x of
                 (Inr x, spec, k) \<Rightarrow> (Inr x, spec, k)
               | (Inl e, spec, k) \<Rightarrow>
                   if is_stall_class e then
                     (case second of
                        Inl e \<Rightarrow> (Inl e, spec, k)
                      | Inr x \<Rightarrow>
                          (case shell_download uu spec k x of
                             (Inr x, spec, k) \<Rightarrow> (Inr x, spec, k)
                           | (Inl e, spec, k) \<Rightarrow> (Inl \<lparr>ge_kind = EExecution, ge_source = e\<rparr>, spec, k)))
                   else (Inl \<lparr>ge_kind = EExecution, ge_source = e\<rparr>, spec, k))))"

section \<open>Probing for a partial upload\<close>

definition probe_upload_partial :: "draws \<Rightarrow> string \<Rightarrow> copy_shell \<Rightarrow> (nat \<times> string) option \<times> copy_shell" where
  "probe_upload_partial uu dest x =
    (let quoted = shell_quote (dest @ ''.xho_tmp'')
     in case run_and_capture uu (''stat -c %s '' @ quoted @ '' 2>/dev/null && sha256sum '' @ quoted @ '' 2>/dev/null'') x of
          (Inl _, x) \<Rightarrow> (None, x)
        | (Inr out, x) \<Rightarrow>
            (case split_whitespace (from_utf8_lossy out) of
               n # hash # _ \<Rightarrow> (map_option (\<lambda>n. (n, hash)) (parse_uint u64_max n), x)
             | _ \<Rightarrow> (None, x)))"

fun probe_entries ::
  "draws \<Rightarrow> copy_spec \<Rightarrow> resume_entry list \<Rightarrow> copy_shell \<Rightarrow> resume_entry list \<times> copy_shell" where
  "probe_entries uu spec [] x = ([], x)"
| "probe_entries uu spec (e # es) x =
    (let fresh = e\<lparr>re_offset := 0, re_sha256 := []\<rparr>;
         (eff, x) = (if cs_recursive spec then (fresh, x)
                     else (case probe_upload_partial uu (cs_remote_path spec) x of
                             (None, x) \<Rightarrow> (fresh, x)
                           | (Some (n, hash), x) \<Rightarrow>
                               (if 0 < n \<and> n \<le> re_size e then e\<lparr>re_offset := n, re_sha256 := hash\<rparr> else fresh, x)));
         (effs, x) = probe_entries uu spec es x
     in (eff # effs, x))"

definition shell_probe_upload_resume ::
  "draws \<Rightarrow> copy_spec \<Rightarrow> copy_shell \<Rightarrow> resume_entry list \<times> copy_spec \<times> copy_shell" where
  "shell_probe_upload_resume uu spec x =
    (let (r, x) = resolve_upload_dest uu spec x;
         spec = (case r of Inr spec' \<Rightarrow> spec' | Inl _ \<Rightarrow> spec);
         (es, x) = probe_entries uu spec (cs_resume spec) x
     in (es, spec, x))"

text \<open>\<^verbatim>\<open>probe_upload_resume\<close> of the gateway: the shell goes back to the cache.\<close>

definition jump_probe_upload_resume ::
  "draws \<Rightarrow> gateway_error + copy_shell \<Rightarrow> copy_spec
    \<Rightarrow> (gateway_error + resume_entry list) \<times> copy_spec \<times> copy_shell option" where
  "jump_probe_upload_resume uu acquired spec =
    (if cs_resume spec = [] \<or> cs_recursive spec then (Inr (fresh_resume_entries (cs_resume spec)), spec, None)
     else (case acquired of
             Inl e \<Rightarrow> (Inl e, spec, None)
           | Inr x \<Rightarrow>
               (case shell_probe_upload_resume uu spec x of (es, spec, x) \<Rightarrow> (Inr es, spec, Some x))))"


section \<open>Quiet shells\<close>

text \<open>A shell with nothing pending whose channel delivers nothing of note before some events.\<close>

definition quiet_shell :: "copy_shell \<Rightarrow> pty_event list \<Rightarrow> bool" where
  "quiet_shell x evs \<longleftrightarrow>
    pt_pending (xs_shell x) = [] \<and> pt_refusals (xs_shell x) = []
    \<and> (\<exists>cs. pt_events (xs_shell x) = delivers cs @ evs \<and> concat cs = [])"

text \<open>The reply to a raw-mode command: noise, the begin marker, the payload, the end marker with the
  status, in any chunks, the markers not occurring earlier.\<close>

definition raw_reply :: "string \<Rightarrow> string \<Rightarrow> string \<Rightarrow> string \<Rightarrow> string list \<Rightarrow> bool" where
  "raw_reply bu eu payload ds cs \<longleftrightarrow>
    (\<exists>noise eol. concat cs = noise @ make_marker bu @ payload @ make_marker eu @ '':'' @ ds @ eol
      \<and> find_subslice (concat cs) (make_marker bu) = Some (length noise) \<and> sentinel_tail ds eol
      \<and> find_subslice (payload @ make_marker eu @ '':'' @ ds @ eol) (make_marker eu) = Some (length payload))"

lemma kept_pending_Nil: "pt_pending s = [] \<Longrightarrow> kept_pending s = []"
  by (simp add: kept_pending_def)

lemma raw_refusals:
  "run_command_raw_impl bu eu command payload s = (r, sent, s') \<Longrightarrow> pt_refusals s = [] \<Longrightarrow> pt_refusals s' = []"
  by (auto simp: run_command_raw_impl_def clear_prompt_pending write_line_accepted Let_def
      split: prod.splits sum.splits if_splits)

lemma quiet_after:
  assumes "pt_events s = delivers cs @ evs" "pt_pending s @ concat cs = []" "pt_refusals s = []" "xs_shell x = s"
  shows "quiet_shell x evs"
  using assms by (auto simp: quiet_shell_def)

lemma raw_plain_quiet:
  assumes q: "quiet_shell x (delivers cs @ rest)" and r: "raw_reply (uu (xs_drawn x)) (uu (xs_drawn x + 1)) payload ds cs"
  shows "\<exists>sent x'. raw uu command Plain x = (Inr (exit_code_of ds), sent, x') \<and> concat sent = payload
    \<and> quiet_shell x' rest \<and> xs_drawn x' = xs_drawn x + 2 \<and> xs_writes x' = xs_writes x
    \<and> pt_written (xs_shell x') = pt_written (xs_shell x)
        @ [wrap_raw command (make_marker (uu (xs_drawn x))) (make_marker (uu (xs_drawn x + 1))) @ [CHR 0x0D]]"
proof -
  let ?s = "xs_shell x" and ?b = "uu (xs_drawn x)" and ?e = "uu (xs_drawn x + 1)"
  obtain cs0 where ev: "pt_events ?s = delivers (cs0 @ cs) @ rest" and c0: "concat cs0 = []"
    and p: "pt_pending ?s = []" and ok: "pt_refusals ?s = []" using q by (auto simp: quiet_shell_def)
  have c: "concat (cs0 @ cs) = concat cs" using c0 by simp
  obtain noise eol where st: "concat (cs0 @ cs) = noise @ make_marker ?b @ payload @ make_marker ?e @ '':'' @ ds @ eol @ []"
    "find_subslice (concat (cs0 @ cs)) (make_marker ?b) = Some (length noise)" "sentinel_tail ds eol"
    "find_subslice (kept_pending ?s @ payload @ make_marker ?e @ '':'' @ ds @ eol @ []) (make_marker ?e)
      = Some (length (kept_pending ?s @ payload))"
    using r unfolding raw_reply_def c by (auto simp: kept_pending_Nil[OF p])
  from raw_plain_runs[OF ev ok st, of command] obtain sent s' cs' where
    run: "run_command_raw_impl ?b ?e command Plain ?s = (Inr (exit_code_of ds), sent, s')" and
    out: "concat sent = payload" "pt_events s' = delivers cs' @ rest" "pt_pending s' @ concat cs' = []"
      "pt_written s' = pt_written ?s @ [wrap_raw command (make_marker ?b) (make_marker ?e) @ [CHR 0x0D]]"
    by (auto simp: kept_pending_Nil[OF p])
  let ?x = "x\<lparr>xs_shell := s', xs_drawn := xs_drawn x + 2\<rparr>"
  have "raw uu command Plain x = (Inr (exit_code_of ds), sent, ?x)" using run by (simp add: raw_def)
  moreover have "quiet_shell ?x rest" using quiet_after[OF out(2,3) raw_refusals[OF run ok]] by simp
  ultimately show ?thesis using out(1,4) by (intro exI[of _ sent] exI[of _ ?x]) simp
qed

lemma raw_base64_quiet:
  assumes q: "quiet_shell x (delivers cs @ rest)"
    and r: "raw_reply (uu (xs_drawn x)) (uu (xs_drawn x + 1)) (string_of (wire_lines rfc4648 (bytes_of data))) ds cs"
  shows "\<exists>sent x'. raw uu command (Base64 (length data)) x = (Inr (exit_code_of ds), sent, x') \<and> concat sent = data
    \<and> quiet_shell x' rest \<and> xs_drawn x' = xs_drawn x + 2 \<and> xs_writes x' = xs_writes x
    \<and> pt_written (xs_shell x') = pt_written (xs_shell x)
        @ [wrap_raw command (make_marker (uu (xs_drawn x))) (make_marker (uu (xs_drawn x + 1))) @ [CHR 0x0D]]"
proof -
  let ?s = "xs_shell x" and ?b = "uu (xs_drawn x)" and ?e = "uu (xs_drawn x + 1)"
  obtain cs0 where ev: "pt_events ?s = delivers (cs0 @ cs) @ rest" and c0: "concat cs0 = []"
    and p: "pt_pending ?s = []" and ok: "pt_refusals ?s = []" using q by (auto simp: quiet_shell_def)
  have c: "concat (cs0 @ cs) = concat cs" using c0 by simp
  have len: "length (string_of w) = length w" for w by (simp add: string_of_def)
  obtain noise eol where st: "concat (cs0 @ cs) = noise @ make_marker ?b
      @ string_of (wire_lines rfc4648 (bytes_of data)) @ make_marker ?e @ '':'' @ ds @ eol @ []"
    "find_subslice (concat (cs0 @ cs)) (make_marker ?b) = Some (length noise)" "sentinel_tail ds eol"
    "find_subslice (string_of (wire_lines rfc4648 (bytes_of data)) @ make_marker ?e @ '':'' @ ds @ eol @ []) (make_marker ?e)
      = Some (length (wire_lines rfc4648 (bytes_of data)))"
    using r unfolding raw_reply_def c len by auto
  have "length (bytes_of data) = length data" by (simp add: bytes_of_def)
  with raw_base64_runs[OF ev ok kept_pending_Nil[OF p] st, of command] obtain sent s' cs' where
    run: "run_command_raw_impl ?b ?e command (Base64 (length data)) ?s = (Inr (exit_code_of ds), sent, s')" and
    out: "concat sent = data" "pt_events s' = delivers cs' @ rest" "pt_pending s' @ concat cs' = []"
      "pt_written s' = pt_written ?s @ [wrap_raw command (make_marker ?b) (make_marker ?e) @ [CHR 0x0D]]" by auto
  let ?x = "x\<lparr>xs_shell := s', xs_drawn := xs_drawn x + 2\<rparr>"
  have "raw uu command (Base64 (length data)) x = (Inr (exit_code_of ds), sent, ?x)" using run by (simp add: raw_def)
  moreover have "quiet_shell ?x rest" using quiet_after[OF out(2,3) raw_refusals[OF run ok]] by simp
  ultimately show ?thesis using out(1,4) by (intro exI[of _ sent] exI[of _ ?x]) simp
qed

lemma forward_chunks_open:
  "fk_room k = None \<Longrightarrow> forward_chunks cs k = (length (concat cs), k\<lparr>fk_frames := fk_frames k @ map FileData cs\<rparr>)"
  by (induction cs arbitrary: k) (simp_all add: send_frame_def)

lemma send_frame_open:
  "fk_room k = None \<Longrightarrow> send_frame f k = (True, k\<lparr>fk_frames := fk_frames k @ [f]\<rparr>)"
  by (simp add: send_frame_def)

lemma ledger_start_le: "ledger_start name sz mtime l \<le> sz"
  by (auto simp: ledger_start_def split: option.splits)


section \<open>The wire of an upload\<close>

lemma feeder_file:
  "feeder engine enc n (map FileData ds @ EndFile # rest) =
    (fst (feeder engine enc n (map FileData ds @ [EndFile])),
     Inr (n + length (concat ds), encoded_total (fst (encode_chunks engine enc (map bytes_of ds)))), rest)
    \<and> concat (fst (feeder engine enc n (map FileData ds @ [EndFile]))) = string_of (snd (encode_chunks engine enc (map bytes_of ds)))"
  by (induction ds arbitrary: enc n) (auto simp: Let_def case_prod_unfold)

lemma concat_bytes_of: "concat (map bytes_of ds) = bytes_of (concat ds)"
  by (induction ds) simp_all

lemma feeder_wire:
  assumes "base64_engine engine"
  shows "\<exists>chunks. feeder engine encoder_new 0 (map FileData ds @ EndFile # rest)
      = (chunks, Inr (length (concat ds), length (wire_lines engine (bytes_of (concat ds)))), rest)
    \<and> concat chunks = string_of (wire_lines engine (bytes_of (concat ds)))"
proof -
  have "length (pending encoder_new) < 57" by (simp add: encoder_new_def)
  from base64_engine.encode_chunks_lines[OF assms this, of "map bytes_of ds"]
  have "snd (encode_chunks engine encoder_new (map bytes_of ds)) = wire_lines engine (bytes_of (concat ds))"
    "encoded_total (fst (encode_chunks engine encoder_new (map bytes_of ds))) = length (wire_lines engine (bytes_of (concat ds)))"
    by (simp_all add: encoder_new_def concat_bytes_of)
  with feeder_file[of engine encoder_new 0 ds rest] show ?thesis by auto
qed

lemma wire_lines_length:
  assumes "base64_engine engine" "length xs < 2 ^ 62"
  shows "length (wire_lines engine xs) = wire_len_for (length xs)"
  using b64_wire_length[OF assms(1), of "[xs]"] assms(2)
    base64_engine.encode_chunks_lines[OF assms(1), of encoder_new "[xs]"] by (simp add: encoder_new_def)

text \<open>A receiver that is silent while it reads.\<close>

lemma scanner_idle: "m \<noteq> [] \<Longrightarrow> scanner_feed (scanner_new m) [] = (scanner_new m, [], False)"
  by (subst scanner_feed_def)
    (simp add: scanner_new_def find_sentinel_def find_sentinel_loop.simps find_subslice_def partial_suffix_match_def)

lemma drain_idle:
  "m \<noteq> [] \<Longrightarrow> concat cs = [] \<Longrightarrow>
    drain_and_scan_early (scanner_new m) (delivers cs @ Silence # evs) = (Inr None, scanner_new m, evs)"
  by (induction cs) (simp_all add: scanner_idle)

lemma upload_chunks_idle:
  "m \<noteq> [] \<Longrightarrow> concat cs = [] \<Longrightarrow> list_all (\<lambda>(_, w). w = Accepted) chunks \<Longrightarrow>
    upload_chunks (scanner_new m) chunks (delivers cs @ replicate (length chunks) Silence @ evs)
      = (Inr (), map fst chunks, [], scanner_new m, delivers (if chunks = [] then cs else []) @ evs)"
proof (induction chunks arbitrary: cs)
  case (Cons c chunks)
  obtain d where c: "c = (d, Accepted)" using Cons.prems(3) by (cases c) auto
  have "upload_chunks (scanner_new m) chunks (delivers [] @ replicate (length chunks) Silence @ evs)
      = (Inr (), map fst chunks, [], scanner_new m, delivers (if chunks = [] then [] else []) @ evs)"
    by (rule Cons.IH) (use Cons.prems in auto)
  moreover have "drain_and_scan_early (scanner_new m) (delivers cs @ replicate (length (c # chunks)) Silence @ evs)
      = (Inr None, scanner_new m, replicate (length chunks) Silence @ evs)"
    using drain_idle[OF Cons.prems(1,2), of "replicate (length chunks) Silence @ evs"] by simp
  ultimately show ?case by (simp add: c del: replicate.simps)
qed simp

lemma await_sentinel_raw:
  "await_sentinel sc evs = (case raw_loop None sc evs of (r, _, p, es) \<Rightarrow> (r, p, es))"
  by (induction sc evs rule: await_sentinel.induct)
    (auto simp: feed_raw_chunk_def finish_raw_def split: sum.splits prod.splits option.splits)

definition upload_reply :: "string \<Rightarrow> string \<Rightarrow> nat \<Rightarrow> string \<Rightarrow> pty_event list \<Rightarrow> bool" where
  "upload_reply ready_mk end_mk n ds evs \<longleftrightarrow>
    (\<exists>cs cs' noise pre eol. evs = delivers cs @ replicate n Silence @ delivers cs'
      \<and> concat cs = noise @ ready_mk \<and> find_subslice (concat cs) ready_mk = Some (length noise)
      \<and> concat cs' = pre @ end_mk @ '':'' @ ds @ eol \<and> sentinel_tail ds eol
      \<and> find_subslice (concat cs') end_mk = Some (length pre))"

lemma upload_binary_idle:
  assumes p: "pt_pending s = []" and ok: "pt_refusals s = []" and ne: "ready_mk \<noteq> []" "end_mk \<noteq> []"
    and ev: "pt_events s = delivers cs0 @ evs @ rest" "concat cs0 = []" "upload_reply ready_mk end_mk (length chunks) ds evs"
    and acc: "list_all (\<lambda>(_, w). w = Accepted) chunks"
  shows "\<exists>s' cs2. upload_binary command ready_mk end_mk chunks s = (Inr (exit_code_of ds), s')
    \<and> pt_written s' = pt_written s @ (command @ [CHR 0x0D]) # map fst chunks
    \<and> pt_events s' = delivers cs2 @ rest \<and> pt_pending s' @ concat cs2 = [] \<and> pt_refusals s' = []"
proof -
  obtain cs cs' noise pre eol where r: "evs = delivers cs @ replicate (length chunks) Silence @ delivers cs'"
    "concat cs = noise @ ready_mk" "find_subslice (concat cs) ready_mk = Some (length noise)"
    "concat cs' = pre @ end_mk @ '':'' @ ds @ eol" "sentinel_tail ds eol" "find_subslice (concat cs') end_mk = Some (length pre)"
    using ev(3) unfolding upload_reply_def by blast
  let ?later = "replicate (length chunks) Silence @ delivers cs' @ rest"
  have c: "concat (cs0 @ cs) = concat cs" using ev(2) by simp
  have f: "find_subslice ([] @ [] @ concat (cs0 @ cs)) ready_mk = Some (length noise)" unfolding c using r(3) by simp
  have g: "drop (length noise + length ready_mk) ([] @ [] @ concat (cs0 @ cs)) = []" unfolding c r(2) by simp
  have h: "length ([] @ [] :: string) < length noise + length ready_mk" using ne by (cases ready_mk) auto
  obtain aft cs1 where d: "discard_until 4 ready_mk [] (delivers (cs0 @ cs) @ ?later) = (Inr aft, delivers cs1 @ ?later)"
    and a: "aft @ concat cs1 = []"
    using discard_until_finds[OF ne(1) _ f _ h, of 4 ?later] unfolding g by auto
  have c1: "concat cs1 = []" "aft = []" using a by auto
  note up = upload_chunks_idle[OF ne(2) c1(1) acc, of "delivers cs' @ rest"]
  let ?cs = "(if chunks = [] then cs1 else []) @ cs'"
  have cc: "concat ?cs = concat cs'" using c1 by simp
  have st: "concat ?cs = pre @ end_mk @ '':'' @ ds @ eol @ []" "find_subslice (concat ?cs) end_mk = Some (length pre)"
    unfolding cc using r(4,6) by simp_all
  from scan_finds_first[OF ne(2) r(5) st] obtain sc lft where
    sc: "scan_chunks (scanner_new end_mk) ?cs = (sc, pre, lft)" "finished sc" "exit_code sc = exit_code_of ds"
      "leftover sc @ concat lft = []" by blast
  obtain sent where loop: "raw_loop None (scanner_new end_mk) (delivers ?cs @ rest)
      = (Inr (exit_code sc), sent, leftover sc, delivers lft @ rest)"
    using raw_loop_plain[OF sc(1) _ sc(2), of rest] by (auto simp: scanner_new_def)
  have evs: "pt_events s = delivers (cs0 @ cs) @ ?later" using ev(1) r(1) by simp
  let ?s' = "s\<lparr>pt_pending := leftover sc, pt_written := pt_written s @ (command @ [CHR 0x0D]) # map fst chunks,
    pt_events := delivers lft @ rest\<rparr>"
  have await: "await_sentinel (scanner_new end_mk) (delivers (if chunks = [] then cs1 else []) @ delivers cs' @ rest)
      = (Inr (exit_code sc), leftover sc, delivers lft @ rest)"
    using loop by (simp add: await_sentinel_raw)
  have "upload_binary command ready_mk end_mk chunks s = (Inr (exit_code sc), ?s')"
    using p ok evs d up await c1(2)
    by (simp add: upload_binary_def clear_prompt_pending kept_pending_Nil write_line_accepted Let_def)
  then show ?thesis using sc ok by (intro exI[of _ ?s'] exI[of _ lft]) simp
qed


lemma ready_marker_nonempty [simp]: "ready_marker u \<noteq> []" "end_marker u \<noteq> []"
  by (simp_all add: ready_marker_def end_marker_def)

lemma write_outcomes_accepted:
  "map fst (write_outcomes cs []) = cs" "length (write_outcomes cs []) = length cs"
  "list_all (\<lambda>(_, w). w = Accepted) (write_outcomes cs [])"
  by (induction cs) simp_all

text \<open>What an upload writes and what decides about it, when the receiver reads in silence and ends with
  status zero.\<close>

lemma upload_file_wire:
  assumes eng: "base64_engine engine" and q: "quiet_shell x (evs @ rest)" and w: "xs_writes x = []"
    and zero: "exit_code_of code = 0"
    and chunks: "fst (feeder engine encoder_new 0 (map FileData ds @ [EndFile])) = chunks"
    and reply: "upload_reply (ready_marker (uu (xs_drawn x))) (end_marker (uu (xs_drawn x + 1))) (length chunks) code evs"
  shows "concat chunks = string_of (wire_lines engine (bytes_of (concat ds))) \<and>
    (\<exists>x'. quiet_shell x' rest \<and> xs_drawn x' = xs_drawn x + 2 \<and> xs_writes x' = []
      \<and> pt_written (xs_shell x') = pt_written (xs_shell x)
        @ (upload_command (ready_marker (uu (xs_drawn x)))
             (receiver_command (wire_len_for (sz - skip)) skip (dest @ ''.xho_tmp''))
             (end_marker (uu (xs_drawn x + 1))) @ [CHR 0x0D]) # chunks
      \<and> upload_single_file_streaming engine uu dest sz mode mtime (map FileData ds @ EndFile # fs) skip x =
        (if length (concat ds) \<noteq> sz - skip then (Inl ''upload size mismatch'', x')
         else if length (wire_lines engine (bytes_of (concat ds))) \<noteq> wire_len_for (sz - skip)
         then (Inl ''upload wire length mismatch'', x')
         else (case finalize_upload uu (dest @ ''.xho_tmp'') dest mode mtime x' of
                 (Inl e, x) \<Rightarrow> (Inl e, x) | (Inr _, x) \<Rightarrow> (Inr fs, x))))"
proof -
  have fd: "feeder engine encoder_new 0 (map FileData ds @ EndFile # fs)
      = (chunks, Inr (length (concat ds), length (wire_lines engine (bytes_of (concat ds)))), fs)"
    and cw: "concat chunks = string_of (wire_lines engine (bytes_of (concat ds)))"
    using feeder_wire[OF eng, of ds fs] feeder_file[of engine encoder_new 0 ds fs] chunks by auto
  obtain cs0 where ev: "pt_events (xs_shell x) = delivers cs0 @ evs @ rest" "concat cs0 = []"
    and p: "pt_pending (xs_shell x) = []" and ok: "pt_refusals (xs_shell x) = []" using q by (auto simp: quiet_shell_def)
  note wo = write_outcomes_accepted[of chunks]
  have reply': "upload_reply (ready_marker (uu (xs_drawn x))) (end_marker (uu (xs_drawn x + 1)))
      (length (write_outcomes chunks [])) code evs" using reply wo(2) by simp
  from upload_binary_idle[OF p ok ready_marker_nonempty ev reply' wo(3)] obtain s' cs2 where
    run: "upload_binary (upload_command (ready_marker (uu (xs_drawn x)))
             (receiver_command (wire_len_for (sz - skip)) skip (dest @ ''.xho_tmp''))
             (end_marker (uu (xs_drawn x + 1)))) (ready_marker (uu (xs_drawn x))) (end_marker (uu (xs_drawn x + 1)))
           (write_outcomes chunks []) (xs_shell x) = (Inr (exit_code_of code), s')"
    and out: "pt_written s' = pt_written (xs_shell x) @ (upload_command (ready_marker (uu (xs_drawn x)))
             (receiver_command (wire_len_for (sz - skip)) skip (dest @ ''.xho_tmp''))
             (end_marker (uu (xs_drawn x + 1))) @ [CHR 0x0D]) # chunks"
      "pt_events s' = delivers cs2 @ rest" "pt_pending s' @ concat cs2 = []" "pt_refusals s' = []"
    unfolding wo(1) by blast
  let ?x = "x\<lparr>xs_shell := s', xs_drawn := xs_drawn x + 2, xs_writes := []\<rparr>"
  have "quiet_shell ?x rest" using quiet_after[OF out(2-4)] by simp
  moreover have "upload_single_file_streaming engine uu dest sz mode mtime (map FileData ds @ EndFile # fs) skip x =
        (if length (concat ds) \<noteq> sz - skip then (Inl ''upload size mismatch'', ?x)
         else if length (wire_lines engine (bytes_of (concat ds))) \<noteq> wire_len_for (sz - skip)
         then (Inl ''upload wire length mismatch'', ?x)
         else (case finalize_upload uu (dest @ ''.xho_tmp'') dest mode mtime ?x of
                 (Inl e, x) \<Rightarrow> (Inl e, x) | (Inr _, x) \<Rightarrow> (Inr fs, x)))"
    using run zero w by (simp add: upload_single_file_streaming_def fd Let_def)
  ultimately show ?thesis using cw out(1) by (intro conjI exI[of _ ?x]) simp_all
qed

lemma finalize_mv:
  assumes q: "quiet_shell x (delivers cs @ rest)" and r: "raw_reply (uu (xs_drawn x)) (uu (xs_drawn x + 1)) out ds cs"
  shows "\<exists>x'. finalize_upload uu tmp dest 0 0 x = (Inr (), x') \<and> quiet_shell x' rest
    \<and> pt_written (xs_shell x') = pt_written (xs_shell x)
        @ [wrap_raw (''mv '' @ shell_quote tmp @ '' '' @ shell_quote dest)
             (make_marker (uu (xs_drawn x))) (make_marker (uu (xs_drawn x + 1))) @ [CHR 0x0D]]"
proof -
  from raw_plain_quiet[OF q r, of "''mv '' @ shell_quote tmp @ '' '' @ shell_quote dest"] obtain sent x' where
    "raw uu (''mv '' @ shell_quote tmp @ '' '' @ shell_quote dest) Plain x = (Inr (exit_code_of ds), sent, x')"
    "quiet_shell x' rest" "pt_written (xs_shell x') = pt_written (xs_shell x)
        @ [wrap_raw (''mv '' @ shell_quote tmp @ '' '' @ shell_quote dest)
             (make_marker (uu (xs_drawn x))) (make_marker (uu (xs_drawn x + 1))) @ [CHR 0x0D]]" by blast
  then show ?thesis by (simp add: finalize_upload_def run_shell_command_raw_def)
qed

section \<open>The remote side\<close>

lemma octal_value_snoc: "octal_value (ds @ [c]) = octal_value ds * 8 + digit_value c"
  by (simp add: octal_value_def)

lemma show_octal_digits: "list_all (\<lambda>c. is_ascii_digit c \<and> digit_value c < 8) (show_octal n)"
proof (induction n rule: show_octal.induct)
  case (1 n)
  then show ?case
    by (cases "n < 8"; subst show_octal.simps) (simp_all add: is_ascii_digit_char_of digit_value_def of_char_of_lt)
qed

lemma show_octal_not_Nil [simp]: "show_octal n \<noteq> []"
  by (subst show_octal.simps) simp

lemma octal_value_show [simp]: "octal_value (show_octal n) = n"
proof (induction n rule: show_octal.induct)
  case (1 n)
  show ?case
  proof (cases "n < 8")
    case True
    then show ?thesis by (subst show_octal.simps) (simp add: octal_value_def digit_value_def of_char_of_lt)
  next
    case False
    with 1 show ?thesis by (subst show_octal.simps) (simp add: octal_value_snoc digit_value_def of_char_of_lt)
  qed
qed

lemma parse_octal_digits:
  "ds \<noteq> [] \<Longrightarrow> list_all (\<lambda>c. is_ascii_digit c \<and> digit_value c < 8) ds \<Longrightarrow>
    parse_octal ds = (if int (octal_value ds) \<le> u32_max then Some (octal_value ds) else None)"
  by (cases ds) (auto simp: parse_octal_def is_ascii_digit_def Let_def)

lemma parse_octal_show: "int n \<le> u32_max \<Longrightarrow> parse_octal (show_octal n) = Some n"
  using show_octal_digits[of n] by (simp add: parse_octal_digits)

lemma parse_i64_show: "- (2 ^ 63) \<le> i \<Longrightarrow> i < 2 ^ 63 \<Longrightarrow> parse_i64 (show_int i) = Some i"
  using show_nat_digits[of "nat i"] show_nat_digits[of "nat (- i)"]
    decimal_value_show_nat[of "nat i"]
  by (cases "show_nat (nat i)") (auto simp: parse_i64_def show_int_def Let_def is_ascii_digit_def)


text \<open>What \<^verbatim>\<open>stat\<close> prints in the format the code asks for.\<close>

definition stat_line :: "nat \<Rightarrow> int \<Rightarrow> nat \<Rightarrow> string" where
  "stat_line mode mtime sz = show_octal mode @ '' '' @ show_int mtime @ '' '' @ show_nat sz @ [CHR 0x0A]"

definition stat_law :: "utilities \<Rightarrow> string \<Rightarrow> nat \<Rightarrow> int \<Rightarrow> bool" where
  "stat_law util p mode mtime \<longleftrightarrow> (\<forall>inp fs c. operand p \<and> fs p = Some c \<longrightarrow>
    util [''stat'', ''-c'', ''%a %Y %s'', p] inp fs = (stat_line mode mtime (length c), 0, fs))"

lemma show_int_word: "show_int i \<noteq> [] \<and> (\<forall>c \<in> set (show_int i). is_ascii_digit c \<or> c = CHR ''-'')"
  using show_nat_digits by (auto simp: show_int_def list_all_iff)

lemma split_whitespace_words:
  assumes "a \<noteq> []" "\<forall>c \<in> set a. is_ascii_digit c \<or> c = CHR ''-''" "w = CHR '' '' \<or> w = CHR 0x0A"
  shows "split_whitespace (a @ w # r) = a # split_whitespace r"
proof -
  have no: "strip_any ws_chars (c # s) = None" if "is_ascii_digit c \<or> c = CHR ''-''" for c s
  proof -
    have "ws_byte (hd p)" "p \<noteq> []" if "p \<in> set ws_chars" for p
      using ws_chars_ends ws_chars_no_Nil that unfolding list_all_iff by (blast, metis)
    moreover have "\<not> ws_byte c" using that by (auto simp: ws_byte_def is_ascii_digit_def)
    ultimately show ?thesis unfolding strip_any_None[OF ws_chars_no_Nil] by (metis hd_append list.sel(1) prefix_def)
  qed
  have ws: "strip_any ws_chars (w # s) = Some s" for s using assms(3) by (elim disjE) (simp_all add: ws_chars_def)
  have "split_words cur (a @ w # r) = (rev cur @ a) # split_words [] r" if "cur \<noteq> [] \<or> a \<noteq> []" for cur
    using that assms(2) by (induction a arbitrary: cur) (auto simp: no ws)
  from this[of "[]"] assms(1) show ?thesis by (simp add: split_whitespace_def)
qed

lemma stat_fields_line:
  assumes "mode \<le> 4095" "- (2 ^ 63) \<le> mtime" "mtime < 2 ^ 63" "n < 2 ^ 64"
  shows "stat_fields (from_utf8_lossy (stat_line mode mtime n)) = (mode, mtime, n)"
proof -
  have oct: "\<forall>c \<in> set (show_octal mode). is_ascii_digit c \<or> c = CHR ''-''"
    using show_octal_digits[of mode] by (auto simp: list_all_iff)
  have num: "\<forall>c \<in> set (show_nat n). is_ascii_digit c \<or> c = CHR ''-''"
    using show_nat_digits[of n] by (auto simp: list_all_iff)
  have int: "show_int mtime \<noteq> []" "\<forall>c \<in> set (show_int mtime). is_ascii_digit c \<or> c = CHR ''-''"
    using show_int_word[of mtime] by auto
  have "\<forall>c \<in> set (stat_line mode mtime n). byte c < 0x80"
    using oct num int(2) by (fastforce simp: stat_line_def is_ascii_digit_def)
  then have l: "from_utf8_lossy (stat_line mode mtime n) = stat_line mode mtime n" by (rule from_utf8_lossy_ascii)
  have "split_whitespace (stat_line mode mtime n) = [show_octal mode, show_int mtime, show_nat n]"
    using split_whitespace_words[OF _ oct, of "CHR '' ''" "show_int mtime @ '' '' @ show_nat n @ [CHR 0x0A]"]
      split_whitespace_words[OF int, of "CHR '' ''" "show_nat n @ [CHR 0x0A]"] split_whitespace_words[OF _ num, of "CHR 0x0A" "[]"]
    by (simp add: stat_line_def) (simp add: split_whitespace_def)
  then show ?thesis using assms
    by (simp add: stat_fields_def l parse_octal_show parse_i64_show u32_max_def u64_max_def)
qed

lemma plain_words: "list_all sh_plain ''stat''" "list_all sh_plain ''-c''" "list_all sh_plain ''tail''" "list_all sh_plain ''base64''"
   "list_all sh_plain ''head''" "list_all sh_plain ''-d''"
  by code_simp+

lemma stat_runs:
  assumes "stat_law util p mode mtime" "operand p" "fs p = Some c"
  shows "sh_run util (stat_command p) inp fs = Some (stat_line mode mtime (length c), 0, fs)"
proof -
  have q: "[CHR 0x27] @ ''%a %Y %s'' @ [CHR 0x27] = shell_quote ''%a %Y %s''" by code_simp
  have "stat_command p = ''stat'' @ CHR '' '' # ''-c'' @ CHR '' '' # shell_quote ''%a %Y %s'' @ CHR '' '' # shell_quote p @ CHR '' '' # ''2>/dev/null''"
    unfolding q[symmetric] by (simp add: stat_command_def)
  then have "sh_scan False None (stat_command p) = Some [TWord ''stat'', TWord ''-c'', TWord ''%a %Y %s'', TWord p, TRedirect 2 False, TWord ''/dev/null'']"
    by (simp only: sh_word_then sh_quoted_then sh_errors_away plain_words list.distinct(2) simp_thms not_False_eq_True option.map) 
  then show ?thesis using assms by (simp add: sh_run_def stat_law_def)
qed

lemma base64_read_runs:
  assumes "utility_laws util" "operand p" "fs p = Some c"
  shows "sh_run util (base64_read_command p skip) inp fs = Some (string_of (wire_lines rfc4648 (bytes_of (drop skip c))), 0, fs)"
proof (cases "0 < skip")
  case True
  have n: "list_all sh_plain (''+'' @ show_nat (skip + 1))" using show_nat_plain by (simp add: sh_plain_def)
  from True have "base64_read_command p skip = ''tail'' @ CHR '' '' # ''-c'' @ CHR '' '' # (''+'' @ show_nat (skip + 1)) @ CHR '' '' # shell_quote p
      @ CHR '' '' # ''| '' @ ''base64'' @ CHR '' '' # ''2>/dev/null''"
    by (simp add: base64_read_command_def)
  then have "sh_scan False None (base64_read_command p skip) = Some [TWord ''tail'', TWord ''-c'', TWord (''+'' @ show_nat (skip + 1)), TWord p, TPipe, TWord ''base64'', TRedirect 2 False, TWord ''/dev/null'']"
    by (simp only: sh_word_then sh_quoted_then sh_pipe_then sh_errors_away plain_words n append_is_Nil_conv list.distinct(2) simp_thms not_False_eq_True option.map) 
  then show ?thesis using utility_simps(2)[OF assms(1), of p fs c "skip + 1" inp] assms(2,3) utility_simps(3)[OF assms(1)] by (simp add: sh_run_def)
next
  case False
  then have "base64_read_command p skip = ''base64'' @ CHR '' '' # shell_quote p @ CHR '' '' # ''2>/dev/null''" 
    by (simp add: base64_read_command_def)
  then have "sh_scan False None (base64_read_command p skip) = Some [TWord ''base64'', TWord p, TRedirect 2 False, TWord ''/dev/null'']"
    by (simp only: sh_word_then sh_quoted_then sh_errors_away plain_words list.distinct(2) simp_thms not_False_eq_True option.map) 
  then show ?thesis using utility_simps(1)[OF assms(1), of p fs c inp] assms(2,3) False by (simp add: sh_run_def)
qed

lemma receiver_runs:
  assumes "utility_laws util" "tmp \<noteq> ''/dev/null''" "n = length (wire_lines rfc4648 (bytes_of d))"
  shows "sh_run util (receiver_command n skip tmp) (string_of (wire_lines rfc4648 (bytes_of d)) @ later) fs
    = Some ([], 0, fs(tmp \<mapsto> (if 0 < skip then contents_or_empty fs tmp else []) @ d))"
proof -
  let ?w = "string_of (wire_lines rfc4648 (bytes_of d))"
  have "receiver_command n skip tmp = ''head'' @ CHR '' '' # ''-c'' @ CHR '' '' # show_nat n @ CHR '' '' # ''| '' @ ''base64'' @ CHR '' '' # ''-d''
      @ CHR '' '' # (if 0 < skip then ''>> '' else ''> '') @ shell_quote tmp @ CHR '' '' # ''2>/dev/null''"
    by (simp add: receiver_command_def)
  then have scan: "sh_scan False None (receiver_command n skip tmp) = Some [TWord ''head'', TWord ''-c'', TWord (show_nat n), TPipe, TWord ''base64'', TWord ''-d'',
      TRedirect 1 (0 < skip), TWord tmp, TRedirect 2 False, TWord ''/dev/null'']"
    by (cases "0 < skip") (simp_all only: sh_word_then sh_quoted_then sh_pipe_then sh_great_then sh_dgreat_then sh_errors_away plain_words
      show_nat_plain show_nat_not_Nil list.distinct(2) simp_thms if_True if_False not_False_eq_True option.map) 
  have "take n (?w @ later) = ?w" using assms(3) by (simp add: string_of_def)
  then show ?thesis using scan assms(2) utility_simps(4)[OF assms(1), of n "?w @ later"] utility_simps(5)[OF assms(1), of d]
    by (simp add: sh_run_def contents_or_empty_def)
qed

text \<open>The channel delivers the reply of the remote shell to a command, framed by the markers of its draws.\<close>

definition answers :: "utilities \<Rightarrow> files \<Rightarrow> draws \<Rightarrow> nat \<Rightarrow> string \<Rightarrow> string list \<Rightarrow> bool" where
  "answers util fs uu n command cs \<longleftrightarrow> (\<exists>out status fs'. sh_run util command [] fs = Some (out, status, fs')
    \<and> raw_reply (uu n) (uu (n + 1)) out (show_nat status) cs)"

definition raw_line :: "draws \<Rightarrow> nat \<Rightarrow> string \<Rightarrow> string" where
  "raw_line uu n command = wrap_raw command (make_marker (uu n)) (make_marker (uu (n + 1))) @ [CHR 0x0D]"

lemma exit_code_zero: "exit_code_of (show_nat 0) = 0" by code_simp

section \<open>Properties\<close>

text \<open>C10. A file is downloaded through the terminal byte for byte.  The commands the code writes are run by the remote shell
  on the files it has (\<^verbatim>\<open>sh_run\<close>, with the programs they name as their manuals describe them), and their output arrives in any chunks and
  behind any prompts: then the frames are those of the file from the byte the ledger allows to resume at, their data is the rest of the
  content, exactly these two commands were written, and the ledger records the whole file.  The path does not begin with a hyphen, and
  nothing is left over from an earlier command.\<close>

theorem shell_download_exact:
  assumes "utility_laws util" "stat_law util path mode mtime" "operand path" "fs path = Some content"
    and "mode \<le> 4095" "- (2 ^ 63) \<le> mtime" "mtime < 2 ^ 63" "length content < 2 ^ 64"
    and "quiet_shell x (delivers cs1 @ delivers cs2 @ rest)" "fk_room k = None"
    and "answers util fs uu (xs_drawn x) (stat_command path) cs1"
    and "start = ledger_start (download_name path source_name) (length content) mtime l"
    and "answers util fs uu (xs_drawn x + 2) (base64_read_command path start) cs2"
  shows "\<exists>datas x'. download_single_file uu path source_name k l x =
      (None, k\<lparr>fk_frames := fk_frames k
          @ BeginFile (download_name path source_name) mode (length content) mtime start # map FileData datas @ [EndFile]\<rparr>,
       ledger_update (download_name path source_name) (length content) (length content) mtime l, x')
    \<and> concat datas = drop start content \<and> quiet_shell x' rest
    \<and> pt_written (xs_shell x') = pt_written (xs_shell x)
        @ [raw_line uu (xs_drawn x) (stat_command path), raw_line uu (xs_drawn x + 2) (base64_read_command path start)]"
proof -
  from assms(11) have a1: "raw_reply (uu (xs_drawn x)) (uu (xs_drawn x + 1)) (stat_line mode mtime (length content)) (show_nat 0) cs1"
    by (simp add: answers_def stat_runs[where fs = fs, OF assms(2-4)])
  from raw_plain_quiet[OF assms(9) a1, of "stat_command path"] obtain sent1 x1 where
    r1: "raw uu (stat_command path) Plain x = (Inr (exit_code_of (show_nat 0)), sent1, x1)" "concat sent1 = stat_line mode mtime (length content)"
      "quiet_shell x1 (delivers cs2 @ rest)" "xs_drawn x1 = xs_drawn x + 2"
      "pt_written (xs_shell x1) = pt_written (xs_shell x) @ [raw_line uu (xs_drawn x) (stat_command path)]"
    unfolding raw_line_def by blast
  from assms(13) have a2: "raw_reply (uu (xs_drawn x1)) (uu (xs_drawn x1 + 1))
      (string_of (wire_lines rfc4648 (bytes_of (drop start content)))) (show_nat 0) cs2"
    using base64_read_runs[where fs = fs, OF assms(1,3,4), of start] r1(4) by (simp add: answers_def)
  from raw_base64_quiet[OF r1(3) a2, of "base64_read_command path start"] obtain datas x2 where
    r2: "raw uu (base64_read_command path start) (Base64 (length (drop start content))) x1 = (Inr (exit_code_of (show_nat 0)), datas, x2)"
      "concat datas = drop start content" "quiet_shell x2 rest"
      "pt_written (xs_shell x2) = pt_written (xs_shell x1) @ [raw_line uu (xs_drawn x + 2) (base64_read_command path start)]"
    unfolding raw_line_def r1(4) by blast
  have le: "start \<le> length content" using ledger_start_le assms(12) by simp
  have "length (concat datas) = length content - start" using r2(2) by simp
  then have sum: "start + length (concat datas) = length content" using le by simp
  note fields = stat_fields_line[OF assms(5-8)]
  show ?thesis using r1 r2 assms(10) assms(12)[symmetric] fields sum
    by (intro exI[of _ datas] exI[of _ x2])
      (simp add: download_single_file_def run_and_capture_raw_def download_one_def stream_remote_file_def
        send_frame_open forward_chunks_open Let_def exit_code_zero)
qed

definition demo_draws :: draws where
  "demo_draws n = show_nat n"

definition demo_raw_reply :: "nat \<Rightarrow> string \<Rightarrow> string \<Rightarrow> string" where
  "demo_raw_reply n payload code =
    make_marker (demo_draws n) @ payload @ make_marker (demo_draws (n + 1)) @ '':'' @ code @ [CHR 0x0A]"

definition demo_shell :: "pty_event list \<Rightarrow> copy_shell" where
  "demo_shell evs =
    \<lparr>xs_shell = \<lparr>pt_pending = [], pt_prompts = [''$ '', ''# ''], pt_events = evs, pt_written = [], pt_refusals = []\<rparr>,
     xs_drawn = 0, xs_writes = []\<rparr>"

lemma demo_quiet: "quiet_shell (demo_shell evs) evs"
  by (auto simp: quiet_shell_def demo_shell_def intro: exI[of _ "[]"])

lemma demo_drawn: "xs_drawn (demo_shell evs) = 0" "xs_writes (demo_shell evs) = []"
  by (simp_all add: demo_shell_def)

lemma raw_replyI:
  assumes "concat cs = noise @ make_marker bu @ payload @ make_marker eu @ '':'' @ ds @ eol"
    and "find_subslice (concat cs) (make_marker bu) = Some (length noise)" "sentinel_tail ds eol"
    and "find_subslice (payload @ make_marker eu @ '':'' @ ds @ eol) (make_marker eu) = Some (length payload)"
  shows "raw_reply bu eu payload ds cs"
  using assms unfolding raw_reply_def by blast

definition demo_stat_reply :: "string list" where
  "demo_stat_reply = [''$ __XHO'', ''_E_0__644 7 4'' @ [CHR 0x0A] @ ''__XHO_E_1__:'', ''0'' @ [CHR 0x0A]]"

definition toy_utilities :: utilities where
  "toy_utilities ws inp fs =
    (if ws = [''base64''] then (string_of (wire_lines rfc4648 (bytes_of inp)), 0, fs)
     else if ws = [''base64'', ''-d''] then
       (case feed (decoder_new (length inp)) (bytes_of inp) of Inr (_, out) \<Rightarrow> (string_of out, 0, fs) | Inl _ \<Rightarrow> ([], 1, fs))
     else if length ws = 3 \<and> take 2 ws = [''head'', ''-c''] then (take (decimal_value (ws ! 2)) inp, 0, fs)
     else (case fs (last ws) of
             None \<Rightarrow> ([], 1, fs)
           | Some c \<Rightarrow>
               if length ws = 2 \<and> hd ws = ''base64'' then (string_of (wire_lines rfc4648 (bytes_of c)), 0, fs)
               else if hd ws = ''tail'' then (drop (decimal_value (tl (ws ! 2)) - 1) c, 0, fs)
               else if hd ws = ''stat'' then (stat_line 420 7 (length c), 0, fs)
               else ([], 1, fs)))"


lemma toy_laws: "utility_laws toy_utilities"
proof -
  have d: "toy_utilities [''base64'', ''-d''] (string_of (wire_lines rfc4648 (bytes_of d))) fs = (d, 0, fs)" for d fs
  proof -
    let ?w = "wire_lines rfc4648 (bytes_of d)"
    have "length (bytes_of d) \<le> length ?w" 
      unfolding rfc.length_wire_lines by (simp add: div_ceil_def)
    then have "ready (length ?w) 0 (decoder_new (length ?w))" "0 + length (bytes_of d) \<le> length ?w"
      by (simp_all add: ready_def decoder_new_def)
    from rfc.feed_wire_lines[OF this] obtain d' where "feed (decoder_new (length ?w)) ?w = Inr (d', bytes_of d)" by blast
    moreover have "length (string_of ?w) = length ?w" by (simp add: string_of_def)
    ultimately show ?thesis by (simp add: toy_utilities_def)
  qed
  then show ?thesis
    unfolding utility_laws_def by (auto simp: toy_utilities_def operand_def)
qed

lemma toy_stat: "stat_law toy_utilities p 420 7"
  by (simp add: stat_law_def toy_utilities_def)

lemma answersI:
  "sh_run util command [] fs = Some (out, status, fs') \<Longrightarrow> raw_reply (uu n) (uu (n + 1)) out (show_nat status) cs
    \<Longrightarrow> answers util fs uu n command cs"
  unfolding answers_def by blast

definition demo_rest_reply :: "string list" where
  "demo_rest_reply = [''$ __XHO_E_2__ZA'', ''=='' @ [CHR 0x0A] @ ''__XHO_E_3__:0'' @ [CHR 0x0A]]"

definition demo_ledger :: ledger where
  "demo_ledger = [(''r'', \<lparr>re_path = ''r'', re_offset = 3, re_size = 4, re_mtime = 7, re_sha256 = []\<rparr>)]"

theorem shell_download_exact_witness:
  "\<exists>datas x'. download_single_file demo_draws ''/r'' ''r'' \<lparr>fk_frames = [], fk_room = None\<rparr> demo_ledger
        (demo_shell (delivers demo_stat_reply @ delivers demo_rest_reply @ [])) =
      (None, \<lparr>fk_frames = BeginFile ''r'' 420 4 7 3 # map FileData datas @ [EndFile], fk_room = None\<rparr>,
       ledger_update ''r'' 4 4 7 demo_ledger, x')
    \<and> concat datas = ''d''"
proof -
  let ?x = "demo_shell (delivers demo_stat_reply @ delivers demo_rest_reply @ [])" and ?fs = "[''/r'' \<mapsto> ''abcd'']"
  have f: "operand ''/r''" "?fs ''/r'' = Some ''abcd''" by (simp_all add: operand_def)
  have name: "download_name ''/r'' ''r'' = ''r''" by code_simp
  have start: "3 = ledger_start (download_name ''/r'' ''r'') (length ''abcd'') 7 demo_ledger" by code_simp
  have stat: "answers toy_utilities ?fs demo_draws (xs_drawn ?x) (stat_command ''/r'') demo_stat_reply"
    unfolding demo_drawn
    by (rule answersI[OF stat_runs[where fs = ?fs, OF toy_stat f]], rule raw_replyI [where noise = "''$ ''" and eol = "[CHR 0x0A]"]) code_simp+
  have wire: "answers toy_utilities ?fs demo_draws (xs_drawn ?x + 2) (base64_read_command ''/r'' 3) demo_rest_reply"
    unfolding demo_drawn
    by (rule answersI[OF base64_read_runs[where fs = ?fs, OF toy_laws f]], rule raw_replyI [where noise = "''$ ''" and eol = "[CHR 0x0A]"]) code_simp+
  have four: "length ''abcd'' = 4" "drop 3 ''abcd'' = ''d''" by simp_all
  note run = shell_download_exact[where fs = ?fs, OF toy_laws toy_stat f _ _ _ _ demo_quiet _ stat start wire, of "\<lparr>fk_frames = [], fk_room = None\<rparr>"]
  from run[unfolded name four] show ?thesis by auto
qed

text \<open>C19. What goes over the wire of an upload is exactly what the remote receiver reads: with as many bytes
  as announced, the chunks written behind the ready marker are the base64 lines of the data, and the receiver's command line that was written
  before them, run by the remote shell on these chunks and whatever follows them, leaves in the partial file exactly the data, behind what it held
  if the upload resumes, and takes nothing of what follows.  Then the file is published.\<close>

theorem upload_wire_exact:
  assumes "base64_engine engine" "quiet_shell x (evs @ rest)" "xs_writes x = []" "exit_code_of code = 0"
    and "fst (feeder engine encoder_new 0 (map FileData ds @ [EndFile])) = chunks"
    and "upload_reply (ready_marker (uu (xs_drawn x))) (end_marker (uu (xs_drawn x + 1))) (length chunks) code evs"
    and "length (concat ds) = sz - skip" "sz < 2 ^ 62" "utility_laws util"
  shows "concat chunks = string_of (wire_lines engine (bytes_of (concat ds)))
    \<and> sh_run util (receiver_command (wire_len_for (sz - skip)) skip (dest @ ''.xho_tmp'')) (concat chunks @ later) fs
      = Some ([], 0, fs(dest @ ''.xho_tmp'' \<mapsto> (if 0 < skip then contents_or_empty fs (dest @ ''.xho_tmp'') else []) @ concat ds))
    \<and> (\<exists>x'. quiet_shell x' rest
      \<and> pt_written (xs_shell x') = pt_written (xs_shell x)
        @ (upload_command (ready_marker (uu (xs_drawn x)))
             (receiver_command (wire_len_for (sz - skip)) skip (dest @ ''.xho_tmp''))
             (end_marker (uu (xs_drawn x + 1))) @ [CHR 0x0D]) # chunks
      \<and> upload_single_file_streaming engine uu dest sz mode mtime (map FileData ds @ EndFile # fs') skip x =
        (case finalize_upload uu (dest @ ''.xho_tmp'') dest mode mtime x' of
           (Inl e, x) \<Rightarrow> (Inl e, x) | (Inr _, x) \<Rightarrow> (Inr fs', x)))"
proof -
  have eng: "engine = rfc4648" using base64_engine.engine_rfc4648[OF assms(1)] by blast
  have len: "length (wire_lines engine (bytes_of (concat ds))) = wire_len_for (sz - skip)"
    using wire_lines_length[OF assms(1), of "bytes_of (concat ds)"] assms(7,8) by (simp add: bytes_of_def)
  note wire = upload_file_wire[OF assms(1-6), of sz skip dest mode mtime fs']
  have "last (dest @ ''.xho_tmp'') \<noteq> last ''/dev/null''" by simp
  then have "dest @ ''.xho_tmp'' \<noteq> ''/dev/null''" by metis
  from receiver_runs[OF assms(9) this len[symmetric, unfolded eng]] wire assms(7) len show ?thesis
    unfolding eng by auto
qed

lemma upload_replyI:
  assumes "evs = delivers cs @ replicate n Silence @ delivers cs'"
    and "concat cs = noise @ ready_mk" "find_subslice (concat cs) ready_mk = Some (length noise)"
    and "concat cs' = pre @ end_mk @ '':'' @ ds @ eol" "sentinel_tail ds eol"
    and "find_subslice (concat cs') end_mk = Some (length pre)"
  shows "upload_reply ready_mk end_mk n ds evs"
  using assms unfolding upload_reply_def by blast

definition demo_receiver :: "nat \<Rightarrow> string \<Rightarrow> pty_event list" where
  "demo_receiver n code =
    delivers [''$ __XHO_CP_'', ''READY_0__''] @ replicate n Silence @ delivers [''__XHO_CP_END_1__:'' @ code @ [CHR 0x0A]]"

lemma demo_receiver_reply:
  "upload_reply (ready_marker (demo_draws 0)) (end_marker (demo_draws (0 + 1))) n ''0'' (demo_receiver n ''0'')"
  unfolding demo_receiver_def
proof (rule upload_replyI [where noise = "''$ ''" and pre = "[]" and eol = "[CHR 0x0A]"])
  show "delivers [''$ __XHO_CP_'', ''READY_0__''] @ replicate n Silence @ delivers [''__XHO_CP_END_1__:'' @ ''0'' @ [CHR 0x0A]]
    = delivers [''$ __XHO_CP_'', ''READY_0__''] @ replicate n Silence @ delivers [''__XHO_CP_END_1__:'' @ ''0'' @ [CHR 0x0A]]" ..
qed code_simp+

theorem upload_wire_exact_witness:
  "sh_run toy_utilities (receiver_command (wire_len_for (6 - 2)) 2 (''/f'' @ ''.xho_tmp''))
      (concat [string_of (rfc4648 (bytes_of ''Hey!'')) @ [CHR 0x0A]] @ ''typed ahead'') [''/f.xho_tmp'' \<mapsto> ''Oh'']
      = Some ([], 0, [''/f.xho_tmp'' \<mapsto> ''OhHey!''])
    \<and> (\<exists>x'. quiet_shell x' [] \<and> upload_single_file_streaming rfc4648 demo_draws ''/f'' 6 0 0
          (map FileData [''He'', ''y!''] @ EndFile # [EndOfStream]) 2 (demo_shell (demo_receiver 1 ''0'' @ []))
        = (case finalize_upload demo_draws (''/f'' @ ''.xho_tmp'') ''/f'' 0 0 x' of
             (Inl e, x) \<Rightarrow> (Inl e, x) | (Inr _, x) \<Rightarrow> (Inr [EndOfStream], x)))"
proof -
  let ?x = "demo_shell (demo_receiver 1 ''0'' @ [])" and ?fs = "[''/f.xho_tmp'' \<mapsto> ''Oh'']"
  have chunks: "fst (feeder rfc4648 encoder_new 0 (map FileData [''He'', ''y!''] @ [EndFile]))
      = [string_of (rfc4648 (bytes_of ''Hey!'')) @ [CHR 0x0A]]" by code_simp
  have zero: "exit_code_of ''0'' = 0" by code_simp
  have reply: "upload_reply (ready_marker (demo_draws (xs_drawn ?x))) (end_marker (demo_draws (xs_drawn ?x + 1)))
      (length [string_of (rfc4648 (bytes_of ''Hey!'')) @ [CHR 0x0A]]) ''0'' (demo_receiver 1 ''0'')"
    unfolding demo_drawn using demo_receiver_reply[of 1] by simp
  have "length (concat [''He'', ''y!'']) = 6 - (2::nat)" "(6::nat) < 2 ^ 62" by simp_all
  note run = upload_wire_exact[where fs = ?fs and dest = "''/f''" and later = "''typed ahead''" and mode = 0 and mtime = 0 and fs' = "[EndOfStream]",
      OF rfc.base64_engine_axioms demo_quiet demo_drawn(2) zero chunks reply this toy_laws]
  have fs: "?fs(''/f'' @ ''.xho_tmp'' \<mapsto> (if 0 < (2::nat) then contents_or_empty ?fs (''/f'' @ ''.xho_tmp'') else []) @ concat [''He'', ''y!''])
      = [''/f.xho_tmp'' \<mapsto> ''OhHey!'']" by (simp add: contents_or_empty_def)
  from run[unfolded fs] show ?thesis by blast
qed

text \<open>An upload whose source grows after its size was announced types the excess into the remote
  shell.  The receiver takes only the announced base64 bytes (\<^verbatim>\<open>head -c\<close>), but everything that was read
  is written to the terminal, and the sizes are compared only afterwards: behind a whole number of
  base64 lines the shell is given the lines of the excess to read.  In the witness these are the
  command \<^verbatim>\<open>shutdown\<close>.\<close>

theorem upload_excess_reaches_shell:
  assumes "base64_engine engine" "quiet_shell x (evs @ rest)" "xs_writes x = []" "exit_code_of code = 0"
    and "fst (feeder engine encoder_new 0 (map FileData ds @ [EndFile])) = chunks"
    and "upload_reply (ready_marker (uu (xs_drawn x))) (end_marker (uu (xs_drawn x + 1))) (length chunks) code evs"
    and "sz < length (concat ds)" "57 dvd sz" "sz < 2 ^ 62"
  shows "\<exists>x'. upload_single_file_streaming engine uu dest sz mode mtime (map FileData ds @ EndFile # fs) 0 x
        = (Inl ''upload size mismatch'', x')
    \<and> pt_written (xs_shell x') = pt_written (xs_shell x)
      @ (upload_command (ready_marker (uu (xs_drawn x))) (receiver_command (wire_len_for sz) 0 (dest @ ''.xho_tmp''))
           (end_marker (uu (xs_drawn x + 1))) @ [CHR 0x0D]) # chunks
    \<and> drop (wire_len_for sz) (concat chunks) = string_of (wire_lines engine (bytes_of (drop sz (concat ds))))"
proof -
  let ?d = "bytes_of (concat ds)"
  have split: "?d = bytes_of (take sz (concat ds)) @ bytes_of (drop sz (concat ds))"
    by (simp flip: bytes_of_append)
  have len: "length (bytes_of (take sz (concat ds))) = sz" using assms(7) by (simp add: bytes_of_def)
  have "wire_lines engine ?d = wire_lines engine (bytes_of (take sz (concat ds))) @ wire_lines engine (bytes_of (drop sz (concat ds)))"
    unfolding split by (rule base64_engine.wire_lines_append[OF assms(1)]) (use assms(8) len in simp)
  moreover have "length (wire_lines engine (bytes_of (take sz (concat ds)))) = wire_len_for sz"
    using wire_lines_length[OF assms(1), of "bytes_of (take sz (concat ds))"] len assms(9) by simp
  moreover have "length (string_of w) = length w" for w by (simp add: string_of_def)
  ultimately show ?thesis
    using upload_file_wire[OF assms(1-6), of sz 0 dest mode mtime fs] assms(7) by auto
qed

definition demo_source :: string where
  "demo_source = replicate 57 (CHR ''a'') @ string_of [178, 27, 173, 118, 140, 39]"

theorem upload_excess_reaches_shell_witness:
  "\<exists>x'. upload_single_file_streaming rfc4648 demo_draws ''/f'' 57 0 0 (map FileData [demo_source] @ EndFile # [EndOfStream]) 0
        (demo_shell (demo_receiver 2 ''0'' @ [])) = (Inl ''upload size mismatch'', x')
    \<and> drop (wire_len_for 57) (concat (tl (pt_written (xs_shell x')))) = ''shutdown'' @ [CHR 0x0A]"
proof -
  let ?x = "demo_shell (demo_receiver 2 ''0'' @ [])"
  let ?fed = "fst (feeder rfc4648 encoder_new 0 (map FileData [demo_source] @ [EndFile]))"
  have n: "length ?fed = 2" by code_simp
  have zero: "exit_code_of ''0'' = 0" by code_simp
  have reply: "upload_reply (ready_marker (demo_draws (xs_drawn ?x))) (end_marker (demo_draws (xs_drawn ?x + 1)))
      (length ?fed) ''0'' (demo_receiver 2 ''0'')"
    unfolding demo_drawn n by (rule demo_receiver_reply)
  have "57 < length (concat [demo_source])" "57 dvd (57 :: nat)" "(57 :: nat) < 2 ^ 62" by (code_simp, simp, simp)
  from upload_excess_reaches_shell[OF rfc.base64_engine_axioms demo_quiet demo_drawn(2) zero refl reply this,
      of "''/f''" 0 0 "[EndOfStream]"] obtain x' where
    run: "upload_single_file_streaming rfc4648 demo_draws ''/f'' 57 0 0 (map FileData [demo_source] @ EndFile # [EndOfStream]) 0 ?x
        = (Inl ''upload size mismatch'', x')"
    and wr: "tl (pt_written (xs_shell x')) = ?fed"
    and ex: "drop (wire_len_for 57) (concat ?fed) = string_of (wire_lines rfc4648 (bytes_of (drop 57 (concat [demo_source]))))"
    by (auto simp: demo_shell_def)
  moreover have "string_of (wire_lines rfc4648 (bytes_of (drop 57 (concat [demo_source])))) = ''shutdown'' @ [CHR 0x0A]"
    by code_simp
  ultimately show ?thesis unfolding wr[symmetric] by auto
qed

text \<open>The status of the commands that publish an upload is not looked at: when the remote \<^verbatim>\<open>mv\<close> that
  renames the partial file fails, with any status and any output, the upload of the file still
  succeeds.\<close>

theorem failed_publish_reported_as_success:
  assumes "base64_engine engine" "quiet_shell x (evs @ delivers cs @ rest)" "xs_writes x = []" "exit_code_of code = 0"
    and "fst (feeder engine encoder_new 0 (map FileData ds @ [EndFile])) = chunks"
    and "upload_reply (ready_marker (uu (xs_drawn x))) (end_marker (uu (xs_drawn x + 1))) (length chunks) code evs"
    and "length (concat ds) = sz" "sz < 2 ^ 62"
    and "raw_reply (uu (xs_drawn x + 2)) (uu (xs_drawn x + 3)) out mv_status cs" "exit_code_of mv_status \<noteq> 0"
  shows "\<exists>x'. upload_single_file_streaming engine uu dest sz 0 0 (map FileData ds @ EndFile # fs) 0 x = (Inr fs, x')"
proof -
  have len: "length (wire_lines engine (bytes_of (concat ds))) = wire_len_for (sz - 0)"
    using wire_lines_length[OF assms(1), of "bytes_of (concat ds)"] assms(7,8) by (simp add: bytes_of_def)
  from upload_file_wire[OF assms(1-6), of sz 0 dest 0 0 fs] obtain x1 where
    x1: "quiet_shell x1 (delivers cs @ rest)" "xs_drawn x1 = xs_drawn x + 2"
      "upload_single_file_streaming engine uu dest sz 0 0 (map FileData ds @ EndFile # fs) 0 x =
        (case finalize_upload uu (dest @ ''.xho_tmp'') dest 0 0 x1 of (Inl e, x) \<Rightarrow> (Inl e, x) | (Inr _, x) \<Rightarrow> (Inr fs, x))"
    using assms(7) len by auto
  have "raw_reply (uu (xs_drawn x1)) (uu (xs_drawn x1 + 1)) out mv_status cs"
    using assms(9) x1(2) by (simp add: numeral_3_eq_3)
  from finalize_mv[OF x1(1) this, of "dest @ ''.xho_tmp''" dest] x1(3) show ?thesis by auto
qed

theorem failed_publish_reported_as_success_witness:
  "\<exists>x'. upload_single_file_streaming rfc4648 demo_draws ''/f'' 4 0 0 (map FileData [''He'', ''y!''] @ EndFile # [EndOfStream]) 0
      (demo_shell (demo_receiver 1 ''0'' @ delivers [demo_raw_reply 2 ''mv: denied'' ''1''] @ [])) = (Inr [EndOfStream], x')"
proof -
  let ?x = "demo_shell (demo_receiver 1 ''0'' @ delivers [demo_raw_reply 2 ''mv: denied'' ''1''] @ [])"
  have chunks: "fst (feeder rfc4648 encoder_new 0 (map FileData [''He'', ''y!''] @ [EndFile]))
      = [string_of (rfc4648 (bytes_of ''Hey!'')) @ [CHR 0x0A]]" by code_simp
  have codes: "exit_code_of ''0'' = 0" "exit_code_of ''1'' \<noteq> 0" by code_simp+
  have reply: "upload_reply (ready_marker (demo_draws (xs_drawn ?x))) (end_marker (demo_draws (xs_drawn ?x + 1)))
      (length [string_of (rfc4648 (bytes_of ''Hey!'')) @ [CHR 0x0A]]) ''0'' (demo_receiver 1 ''0'')"
    unfolding demo_drawn using demo_receiver_reply[of 1] by simp
  have mv: "raw_reply (demo_draws (xs_drawn ?x + 2)) (demo_draws (xs_drawn ?x + 3)) ''mv: denied'' ''1''
      [demo_raw_reply 2 ''mv: denied'' ''1'']"
    unfolding demo_drawn by (rule raw_replyI [where noise = "[]" and eol = "[CHR 0x0A]"]) code_simp+
  have "length (concat [''He'', ''y!'']) = 4" "(4::nat) < 2 ^ 62" by simp_all
  from failed_publish_reported_as_success[OF rfc.base64_engine_axioms demo_quiet demo_drawn(2) codes(1) chunks reply this mv codes(2)]
  show ?thesis .
qed


definition demo_prompt :: "string \<Rightarrow> nat \<Rightarrow> string list" where
  "demo_prompt out n = [''typed'' @ [CHR 0x0A], out @ make_marker (demo_draws n) @ '':0'' @ [CHR 0x0A] @ ''$ '']"

definition demo_opening :: "string list" where
  "demo_opening =
    demo_prompt (''XHO_FILE'' @ [CHR 0x0A]) 0 @ demo_prompt [] 1 @ [demo_raw_reply 2 (''644 7 4'' @ [CHR 0x0A]) ''0'']"

text \<open>The file of four bytes, first cut off behind three of them, then from the fourth on.\<close>

definition demo_stalled :: copy_shell where
  "demo_stalled = demo_shell (delivers (demo_opening @ [make_marker (demo_draws 4) @ ''YWJj'']))"

definition demo_resumed :: copy_shell where
  "demo_resumed =
    demo_shell (delivers (demo_opening @ [demo_raw_reply 4 (''ZA=='' @ [CHR 0x0A]) ''0'', demo_raw_reply 6 [] ''0'']))"

definition retry_frames :: "copy_frame list" where
  "retry_frames =
    [BeginFile ''r'' 420 4 7 0, FileData ''abc'', BeginFile ''r'' 420 4 7 3, FileData ''d'', EndFile, EndOfStream]"

lemma forwards:
  "fk_room k = None \<Longrightarrow> stream_remote_file uu path sz skip k x = (r, n, k', x') \<Longrightarrow>
    \<exists>ds. n = skip + length (concat ds) \<and> k' = k\<lparr>fk_frames := fk_frames k @ map FileData ds\<rparr>"
  by (auto simp: stream_remote_file_def forward_chunks_open Let_def split: prod.splits)

lemma download_one_frames:
  assumes "fk_room k = None" "download_one uu path name mode mtime sz k l x = (err, k', l', x')" "start = ledger_start name sz mtime l"
  shows "\<exists>ds. k' = k\<lparr>fk_frames := fk_frames k @ BeginFile name mode sz mtime start # map FileData ds
        @ (if err = None then [EndFile] else [])\<rparr>
    \<and> l' = ledger_update name (min (start + length (concat ds)) sz) sz mtime l"
proof -
  let ?k = "k\<lparr>fk_frames := fk_frames k @ [BeginFile name mode sz mtime start]\<rparr>"
  obtain r n k1 x1 where s: "stream_remote_file uu path sz start ?k x = (r, n, k1, x1)" by (metis prod_cases4)
  from forwards[OF _ s] assms(1) obtain ds where "n = start + length (concat ds)" "k1 = ?k\<lparr>fk_frames := fk_frames ?k @ map FileData ds\<rparr>" by auto
  with s assms show ?thesis
    by (intro exI[of _ ds]) (auto simp: download_one_def send_frame_open Let_def split: sum.splits if_splits)
qed

text \<open>An attempt that sends anything gets as far as the file.\<close>

lemma shell_download_attempt:
  assumes "fk_room k = None" "\<not> cs_recursive spec" "shell_download uu spec k x = (r, spec', k')" "fk_frames k' \<noteq> fk_frames k"
  obtains x2 name' mode' mtime' sz' err k1 l1 x3
  where "download_one uu (cs_remote_path spec) name' mode' mtime' sz' k (ledger_from (cs_resume spec)) x2 = (err, k1, l1, x3)"
    and "cs_recursive spec' = cs_recursive spec \<and> (isl r \<longrightarrow> cs_resume spec' = ledger_entries l1)
      \<and> (err \<noteq> None \<and> isl r \<and> k' = k1 \<or> err = None \<and> k' = k1\<lparr>fk_frames := fk_frames k1 @ [EndOfStream]\<rparr>)"
proof -
  obtain c1 x1 where c1: "run_and_capture uu (kind_command (cs_remote_path spec)) x = (c1, x1)" by (meson surj_pair)
  obtain kind where kind: "c1 = Inr kind" using assms(3) c1 assms(4) by (cases c1) (auto simp: shell_download_def download_body_def)
  obtain c2 x2 where c2: "raw_enter uu x1 = (c2, x2)" by (meson surj_pair)
  have e2: "\<not> isl c2" and fil: "\<not> contains_sub (from_utf8_lossy kind) ''XHO_DIR''"
    using assms(2,3) c1 c2 assms(4) kind by (auto simp: shell_download_def download_body_def Let_def split: sum.splits if_splits)
  obtain err k1 l1 x3 where d: "download_single_file uu (cs_remote_path spec) (cs_source_name spec) k (ledger_from (cs_resume spec)) x2 = (err, k1, l1, x3)"
    by (metis prod_cases4)
  have sd: "(r, spec', k') = (case err of Some e \<Rightarrow> (Inl e, spec\<lparr>cs_resume := ledger_entries l1\<rparr>, k1)
      | None \<Rightarrow> (case send_frame EndOfStream k1 of
          (False, k) \<Rightarrow> (Inl stream_closed, spec\<lparr>cs_resume := ledger_entries l1\<rparr>, k)
        | (True, k) \<Rightarrow> (case raw_complete uu x3 of (Inl e, x) \<Rightarrow> (Inl e, spec\<lparr>cs_resume := ledger_entries l1\<rparr>, k) | (Inr _, x) \<Rightarrow> (Inr x, spec, k))))"
    using assms(3) c1 c2 kind e2 fil d
    by (cases c2) (auto simp: shell_download_def download_body_def Let_def split: option.splits prod.splits sum.splits bool.splits)
  obtain c3 x4 where c3: "run_and_capture_raw uu (stat_command (cs_remote_path spec)) x2 = (c3, x4)" by (meson surj_pair)
  obtain out where out: "c3 = Inr out"
    using sd d c3 assms(4) by (cases c3) (auto simp: download_single_file_def)
  obtain mode' mtime' sz' where st: "stat_fields (from_utf8_lossy out) = (mode', mtime', sz')" by (metis prod_cases3)
  have one: "download_one uu (cs_remote_path spec) (download_name (cs_remote_path spec) (cs_source_name spec)) mode' mtime' sz' k (ledger_from (cs_resume spec)) x4 = (err, k1, l1, x3)"
    using d c3 out st by (simp add: download_single_file_def)
  from download_one_frames[OF assms(1) one refl] assms(1) have "fk_room k1 = None" by auto
  then have room: "fk_room k1 = None" .
  obtain c x5 where rc: "raw_complete uu x3 = (c, x5)" by (meson surj_pair)
  show ?thesis
    by (rule that[OF one]; cases err; cases c) (use sd rc room in \<open>simp_all add: send_frame_open\<close>)
qed

text \<open>What one attempt at a single file sends, and what it leaves for the next.\<close>

lemma shell_download_frames:
  assumes "fk_room k = None" "\<not> cs_recursive spec" "shell_download uu spec k x = (r, spec', k')"
    and "fk_frames k' = fk_frames k @ BeginFile name mode sz mtime start # fs"
  shows "fk_room k' = None \<and> cs_recursive spec' = cs_recursive spec
    \<and> start = ledger_start name sz mtime (ledger_from (cs_resume spec)) \<and> (\<exists>ds.
      (case r of Inl e \<Rightarrow> fs = map FileData ds \<or> fs = map FileData ds @ [EndFile, EndOfStream]
       | Inr _ \<Rightarrow> fs = map FileData ds @ [EndFile, EndOfStream])
      \<and> (isl r \<longrightarrow> cs_resume spec' = ledger_entries
          (ledger_update name (min (start + length (concat ds)) sz) sz mtime (ledger_from (cs_resume spec)))))"
proof -
  let ?l = "ledger_from (cs_resume spec)"
  have "fk_frames k' \<noteq> fk_frames k" using assms(4) by simp
  from shell_download_attempt[OF assms(1-3) this]
  obtain x2 name' mode' mtime' sz' err k1 l1 x3 where one: "download_one uu (cs_remote_path spec) name' mode' mtime' sz' k ?l x2 = (err, k1, l1, x3)"
    and rest: "cs_recursive spec' = cs_recursive spec \<and> (isl r \<longrightarrow> cs_resume spec' = ledger_entries l1)
      \<and> (err \<noteq> None \<and> isl r \<and> k' = k1 \<or> err = None \<and> k' = k1\<lparr>fk_frames := fk_frames k1 @ [EndOfStream]\<rparr>)" .
  from download_one_frames[OF assms(1) one refl] obtain ds where
    k1: "k1 = k\<lparr>fk_frames := fk_frames k @ BeginFile name' mode' sz' mtime' (ledger_start name' sz' mtime' ?l) # map FileData ds
        @ (if err = None then [EndFile] else [])\<rparr>"
    and l1: "l1 = ledger_update name' (min (ledger_start name' sz' mtime' ?l + length (concat ds)) sz') sz' mtime' ?l" by blast
  have "k' = k1 \<or> k' = k1\<lparr>fk_frames := fk_frames k1 @ [EndOfStream]\<rparr>" using rest by auto
  then have same: "name' = name" "mode' = mode" "sz' = sz" "mtime' = mtime" "ledger_start name' sz' mtime' ?l = start"
    using k1 assms(4) by auto
  show ?thesis using rest k1 l1 assms(4) assms(1) unfolding same
    by (intro conjI exI[of _ ds]; cases r) (auto split: if_splits)
qed

text \<open>A client that was not asked to resume, on a file system that keeps its files in memory.\<close>

lemma fresh_begin:
  assumes "dw_resume w = None" "\<not> dw_recursive w"
  shows "\<exists>w'. begin_download mem_store rel sz mtime start w s = (None, w', s(dw_dest w \<mapsto> []))
    \<and> dw_resume w' = None \<and> \<not> dw_recursive w' \<and> dw_dest w' = dw_dest w \<and> dw_current_file w' = Some (AtPosition (dw_dest w) 0)"
proof -
  have m: "so_is_dir mem_store p s = Some False" "so_mkdir mem_store p s = (True, s)" "so_create mem_store p s = (True, s(p \<mapsto> []))"
    for p :: local_path and s by (simp_all add: mem_store_def)
  show ?thesis using assms
    by (simp add: begin_download_def destination_for_file_def destination_for_single_entry_def create_parent_dirs_def m)
qed

lemma fresh_data:
  assumes "dw_resume w = None" "\<not> dw_recursive w" "dw_current_file w = Some (AtPosition (dw_dest w) (length c))" "s (dw_dest w) = Some c"
    and "cs_direction spec = Download" "cl_writer st = Some w" "ce_store env = mem_store"
  shows "\<exists>w'. cli_loop env spec found (map frame_answer (map FileData ds) @ ms) st s
      = cli_loop env spec found ms (st\<lparr>cl_writer := Some w'\<rparr>) (s(dw_dest w \<mapsto> c @ concat ds))
    \<and> dw_resume w' = None \<and> \<not> dw_recursive w' \<and> dw_dest w' = dw_dest w
    \<and> dw_current_file w' = Some (AtPosition (dw_dest w) (length (c @ concat ds)))"
  using assms(1-4,6)
proof (induction ds arbitrary: w c s st)
  case Nil
  have st: "st\<lparr>cl_writer := Some w\<rparr> = st" using Nil.prems(5) by (cases st) simp
  have "cli_loop env spec found ms (st\<lparr>cl_writer := Some w\<rparr>) s = cli_loop env spec found ms st s" by (simp only: st)
  then show ?case using Nil.prems by (intro exI[of _ w]) (simp add: fun_upd_idem)
next
  case (Cons d ds)
  let ?w = "w\<lparr>dw_current_file := Some (AtPosition (dw_dest w) (length c + length d)), dw_applied := dw_applied w + length d\<rparr>"
  have "so_write mem_store (dw_dest w) (length c) d s = (True, s(dw_dest w \<mapsto> c @ d))"
    using Cons.prems(4) by (simp add: mem_store_def write_at_append)
  then have "writer_apply mem_store (FileData d) w s = (None, ?w, s(dw_dest w \<mapsto> c @ d))"
    using Cons.prems(3) by (simp add: write_data_def)
  then have step: "cli_loop env spec found (frame_answer (FileData d) # map frame_answer (map FileData ds) @ ms) st s
      = cli_loop env spec found (map frame_answer (map FileData ds) @ ms) (st\<lparr>cl_writer := Some ?w\<rparr>) (s(dw_dest w \<mapsto> c @ d))"
    by (subst cli_loop_frame[OF assms(5) Cons.prems(5)]) (simp add: assms(7))
  have w: "dw_dest ?w = dw_dest w" "dw_resume ?w = None" "\<not> dw_recursive ?w"
    "dw_current_file ?w = Some (AtPosition (dw_dest ?w) (length (c @ d)))" "(s(dw_dest w \<mapsto> c @ d)) (dw_dest ?w) = Some (c @ d)"
    "cl_writer (st\<lparr>cl_writer := Some ?w\<rparr>) = Some ?w" using Cons.prems by simp_all
  have upd: "st\<lparr>cl_writer := Some ?w, cl_writer := x\<rparr> = st\<lparr>cl_writer := x\<rparr>" for x by simp
  from Cons.IH[where s = "s(dw_dest w \<mapsto> c @ d)", OF w(2-6)] show ?case
    unfolding w(1) fun_upd_upd append_assoc upd concat.simps list.map append_Cons step .
qed

lemma fresh_file:
  assumes "dw_resume w = None" "\<not> dw_recursive w" "cs_direction spec = Download" "cl_writer st = Some w" "ce_store env = mem_store"
  shows "\<exists>w'. cli_loop env spec found (map frame_answer (BeginFile name mode sz mtime start # map FileData ds) @ ms) st s
      = cli_loop env spec found ms (st\<lparr>cl_writer := Some w'\<rparr>) (s(dw_dest w \<mapsto> concat ds))
    \<and> dw_resume w' = None \<and> \<not> dw_recursive w' \<and> dw_dest w' = dw_dest w"
proof -
  from fresh_begin[OF assms(1,2), of name sz mtime start s] obtain w1 where
    b: "begin_download mem_store name sz mtime start w s = (None, w1, s(dw_dest w \<mapsto> []))"
    and w1: "dw_resume w1 = None" "\<not> dw_recursive w1" "dw_dest w1 = dw_dest w" "dw_current_file w1 = Some (AtPosition (dw_dest w) 0)" by auto
  have first: "cli_loop env spec found (frame_answer (BeginFile name mode sz mtime start) # ms) st s
      = cli_loop env spec found ms (st\<lparr>cl_writer := Some w1\<rparr>) (s(dw_dest w \<mapsto> []))" for ms
    using cli_loop_frame[OF assms(3,4), of env found "BeginFile name mode sz mtime start" ms s] by (simp add: assms(5) b)
  from fresh_data[OF w1(1,2), of "[]" "s(dw_dest w \<mapsto> [])" spec "st\<lparr>cl_writer := Some w1\<rparr>" env found ds ms] w1 assms(3,5) obtain w2 where
    l: "cli_loop env spec found (map frame_answer (map FileData ds) @ ms) (st\<lparr>cl_writer := Some w1\<rparr>) (s(dw_dest w \<mapsto> []))
      = cli_loop env spec found ms (st\<lparr>cl_writer := Some w2\<rparr>) (s(dw_dest w \<mapsto> concat ds))"
    and w2: "dw_resume w2 = None" "\<not> dw_recursive w2" "dw_dest w2 = dw_dest w" by auto
  show ?thesis by (rule exI[of _ w2], unfold list.map append_Cons first l) (simp add: w2)
qed

lemma fresh_client:
  assumes "ce_store env = mem_store" "cs_direction (pl_spec plan) = Download" "\<not> cs_recursive (pl_spec plan)"
  shows "\<exists>c'. run_copy env plan False t found (map frame_answer (BeginFile name mode sz mtime start # map FileData ds1
      @ BeginFile name' mode' sz' mtime' start' # map FileData ds2 @ [EndFile, EndOfStream])
      @ [CliResponse (Some (CopyComplete msg))]) s = (None, c', s(components (pl_local_path plan) \<mapsto> concat ds2))"
proof -
  let ?spec = "pl_spec plan" and ?p = "components (pl_local_path plan)"
  let ?w = "writer_new ?p False (cs_source_name ?spec) None"
  let ?c = "\<lparr>cl_sent = [copy_spec_to_rpc (pl_target plan) ?spec t []], cl_upload = None, cl_writer = Some ?w\<rparr>"
  let ?last = "map frame_answer [EndFile, EndOfStream] @ [CliResponse (Some (CopyComplete msg))]"
  let ?second = "map frame_answer (BeginFile name' mode' sz' mtime' start' # map FileData ds2) @ ?last"
  have w0: "dw_resume ?w = None" "\<not> dw_recursive ?w" "dw_dest ?w = ?p" by (simp_all add: writer_new_def)
  have start: "run_copy env plan False t found ms s = cli_finish env plan False (cli_loop env ?spec found ms ?c s)" for ms
    using assms(2,3) by (simp add: run_copy_def cli_begin_def Let_def)
  from fresh_file[OF w0(1,2) assms(2) _ assms(1), of ?c found name mode sz mtime start ds1 ?second s] w0(3) obtain w1 where
    l1: "cli_loop env ?spec found (map frame_answer (BeginFile name mode sz mtime start # map FileData ds1) @ ?second) ?c s
      = cli_loop env ?spec found ?second (?c\<lparr>cl_writer := Some w1\<rparr>) (s(?p \<mapsto> concat ds1))"
    and w1: "dw_resume w1 = None" "\<not> dw_recursive w1" "dw_dest w1 = ?p" by auto
  from fresh_file[OF w1(1,2) assms(2) _ assms(1), of "?c\<lparr>cl_writer := Some w1\<rparr>" found name' mode' sz' mtime' start' ds2 ?last "s(?p \<mapsto> concat ds1)"] w1(3)
  obtain w2 where
    l2: "cli_loop env ?spec found ?second (?c\<lparr>cl_writer := Some w1\<rparr>) (s(?p \<mapsto> concat ds1))
      = cli_loop env ?spec found ?last (?c\<lparr>cl_writer := Some w2\<rparr>) (s(?p \<mapsto> concat ds2))"
    and w2: "dw_resume w2 = None" by auto
  have cl: "so_close mem_store p x = (True, x)" for p :: local_path and x by (simp add: mem_store_def)
  have "\<exists>w3. cli_loop env ?spec found ?last (?c\<lparr>cl_writer := Some w2\<rparr>) x = (None, ?c\<lparr>cl_writer := Some w3\<rparr>, x) \<and> dw_resume w3 = None" for x
    using w2 assms(2) by (cases "dw_current_file w2") (simp_all add: cli_loop_frame assms(1) flush_current_def cl)
  then obtain w3 where l3: "cli_loop env ?spec found ?last (?c\<lparr>cl_writer := Some w2\<rparr>) (s(?p \<mapsto> concat ds2))
      = (None, ?c\<lparr>cl_writer := Some w3\<rparr>, s(?p \<mapsto> concat ds2))" and w3: "dw_resume w3 = None" by blast
  have "cli_loop env ?spec found (map frame_answer (BeginFile name mode sz mtime start # map FileData ds1) @ ?second) ?c s
      = (None, ?c\<lparr>cl_writer := Some w3\<rparr>, s(?p \<mapsto> concat ds2))" unfolding l1 l2 l3 ..
  then show ?thesis unfolding start using w3 by (simp add: cli_finish_def publish_def)
qed

lemma no_end_frame: "map FileData ds @ [EndFile, EndOfStream] \<noteq> map FileData ds'"
proof
  assume eq: "map FileData ds @ [EndFile, EndOfStream] = map FileData ds'"
  have "EndFile \<in> set (map FileData ds')" unfolding eq[symmetric] by simp
  then show False by auto
qed

lemma retry_start:
  assumes "length (concat ds) \<le> sz" "concat ds \<noteq> []"
  shows "ledger_start name sz mtime (ledger_from (ledger_entries (ledger_update name (min (0 + length (concat ds)) sz) sz mtime (ledger_from []))))
    = length (concat ds)"
  using assms by (auto simp: ledger_start_def ledger_from_def ledger_entries_def ledger_update_def)

text \<open>C40. A download that stalls and is retried loses what came before the stall.  A copy without resume whose first attempt announces
  a file, forwards some of it and then stalls is retried by the gateway; if the second attempt succeeds on the unchanged file, it
  announces the byte the first one reached and sends only the rest, but a client that was not asked to
  resume starts the file anew at every announcement: the gateway and the client report success, and the
  destination holds only what the second attempt sent.  (The client's file system works without failures.)\<close>

theorem stalled_download_retry_truncates:
  assumes "ce_store env = mem_store" "cs_direction (pl_spec plan) = Download" "\<not> cs_recursive (pl_spec plan)" "cs_resume (pl_spec plan) = []"
    and "shell_download uu (pl_spec plan) \<lparr>fk_frames = [], fk_room = None\<rparr> x1 = (Inl e, spec1, k1)" "is_stall_class e"
    and "fk_frames k1 = BeginFile name mode sz mtime 0 # map FileData ds1" "concat ds1 \<noteq> []" "length (concat ds1) \<le> sz"
    and "shell_download uu spec1 k1 x2 = (Inr x', spec2, k2)"
    and "fk_frames k2 = fk_frames k1 @ BeginFile name mode sz mtime start # fs"
  shows "jump_copy engine uu (Inr x1) (Inr x2) ups (pl_spec plan) \<lparr>fk_frames = [], fk_room = None\<rparr> = (Inr x', spec2, k2)
    \<and> start = length (concat ds1)
    \<and> (\<exists>ds2 c'. fs = map FileData ds2 @ [EndFile, EndOfStream]
      \<and> run_copy env plan False t found (map frame_answer (fk_frames k2) @ [CliResponse (Some (CopyComplete msg))]) s
        = (None, c', s(components (pl_local_path plan) \<mapsto> concat ds2)))"
proof -
  let ?k = "\<lparr>fk_frames = [], fk_room = None\<rparr> :: frame_sink"
  have "fk_room ?k = None" "fk_frames k1 = fk_frames ?k @ BeginFile name mode sz mtime 0 # map FileData ds1" using assms(7) by simp_all
  from shell_download_frames[OF this(1) assms(3,5) this(2)] obtain ds where
    room: "fk_room k1 = None" and spec1: "\<not> cs_recursive spec1"
    and cases: "map FileData ds1 = map FileData ds \<or> map FileData ds1 = map FileData ds @ [EndFile, EndOfStream]"
    and resume': "cs_resume spec1 = ledger_entries (ledger_update name (min (0 + length (concat ds)) sz) sz mtime (ledger_from []))"
    using assms(3,4) by auto
  have "map FileData ds1 = map FileData ds" using cases no_end_frame[of ds ds1] by metis
  then have "ds = ds1" by (simp add: inj_map_eq_map inj_def)
  note resume = resume'[unfolded this]
  from shell_download_frames[OF room spec1 assms(10,11)] obtain ds2 where
    start: "start = length (concat ds1)" and fs: "fs = map FileData ds2 @ [EndFile, EndOfStream]"
    unfolding resume retry_start[OF assms(9,8)] by auto
  have jump: "jump_copy engine uu (Inr x1) (Inr x2) ups (pl_spec plan) ?k = (Inr x', spec2, k2)"
    using assms(2,5,6,10) by (simp add: jump_copy_def)
  have "fk_frames k2 = BeginFile name mode sz mtime 0 # map FileData ds1 @ BeginFile name mode sz mtime start # map FileData ds2 @ [EndFile, EndOfStream]"
    using assms(7,11) fs by simp
  with fresh_client[OF assms(1-3), of t found name mode sz mtime 0 ds1 name mode sz mtime start ds2 msg s] jump start fs
  show ?thesis by metis
qed

theorem stalled_download_retry_truncates_witness:
  "\<exists>c'. run_copy ex_env ex_plan False 0 None (map frame_answer retry_frames @ [CliResponse (Some (CopyComplete []))]) Map.empty
    = (None, c', [components ''/l'' \<mapsto> ''d''])"
proof -
  let ?one = "shell_download demo_draws (pl_spec ex_plan) \<lparr>fk_frames = [], fk_room = None\<rparr> demo_stalled"
  let ?two = "shell_download demo_draws (fst (snd ?one)) (snd (snd ?one)) demo_resumed"
  have e: "ce_store ex_env = mem_store" "cs_direction (pl_spec ex_plan) = Download" "\<not> cs_recursive (pl_spec ex_plan)" "cs_resume (pl_spec ex_plan) = []"
    "pl_local_path ex_plan = ''/l''"
    by (simp_all add: ex_env_def ex_plan_def)
  have "case ?one of (r1, spec1, s1) \<Rightarrow> isl r1 \<and> is_stall_class (projl r1) \<and> fk_frames s1 = BeginFile ''r'' 420 4 7 0 # map FileData [''abc'']
      \<and> (case shell_download demo_draws spec1 s1 demo_resumed of
            (r2, _, s2) \<Rightarrow> \<not> isl r2 \<and> fk_frames s2 = fk_frames s1 @ BeginFile ''r'' 420 4 7 3 # [FileData ''d'', EndFile, EndOfStream])"
    by code_simp
  then have "isl (fst ?one)" "\<not> isl (fst ?two)" and stall: "is_stall_class (projl (fst ?one))"
    and k1: "fk_frames (snd (snd ?one)) = BeginFile ''r'' 420 4 7 0 # map FileData [''abc'']"
    and k2: "fk_frames (snd (snd ?two)) = fk_frames (snd (snd ?one)) @ BeginFile ''r'' 420 4 7 3 # [FileData ''d'', EndFile, EndOfStream]"
    by (simp_all add: case_prod_unfold)
  then have runs: "?one = (Inl (projl (fst ?one)), fst (snd ?one), snd (snd ?one))" "?two = (Inr (projr (fst ?two)), fst (snd ?two), snd (snd ?two))"
    by (simp_all add: prod_eq_iff)
  have ds: "concat [''abc''] \<noteq> []" "length (concat [''abc'']) \<le> 4" by simp_all
  have frames: "fk_frames (snd (snd ?two)) = retry_frames" unfolding k2 k1 by (simp add: retry_frames_def)
  from stalled_download_retry_truncates[OF e(1-4) runs(1) stall k1 ds runs(2) k2, of rfc4648 "[]" 0 None "[]" Map.empty]
  obtain ds2 c' where "[FileData ''d'', EndFile, EndOfStream] = map FileData ds2 @ [EndFile, EndOfStream]"
    and run: "run_copy ex_env ex_plan False 0 None (map frame_answer (fk_frames (snd (snd ?two))) @ [CliResponse (Some (CopyComplete []))]) Map.empty
      = (None, c', [components ''/l'' \<mapsto> concat ds2])" unfolding e(5) by blast
  then have "ds2 = [''d'']" by (cases ds2) (auto simp: Cons_eq_append_conv)
  with run show ?thesis unfolding frames by auto
qed
end
