(* ===== verification/Jumpserver_Gateway.thy ===== *)
theory Jumpserver_Gateway
  imports Session_Cache Jumpserver_Menu Shell_Copy Execution
begin

text \<open>
  The jump server gateway (\<^verbatim>\<open>daemon/gateway/jumpserver.rs\<close>) above its parts: acquiring a transport and a
  navigated shell, from the cache or through the menu, and the session that runs a command on it
  (\<^verbatim>\<open>daemon/session/jumpserver.rs\<close>).

  Transports and the opening of channels are arguments, one answer per attempt.
\<close>

section \<open>Shells for a target\<close>

text \<open>\<^verbatim>\<open>ensure_transport\<close>: a transport error of the first attempt is retried once.\<close>

definition ensure_transport :: "(nat \<Rightarrow> gateway_error + 'l) \<Rightarrow> gateway_error + 'l" where
  "ensure_transport checkout =
    (case checkout 0 of
       Inr lease \<Rightarrow> Inr lease
     | Inl e \<Rightarrow> if ge_kind e = ETransport then checkout 1 else Inl e)"

fun nav_error_text :: "nav_error \<Rightarrow> string" where
  "nav_error_text (NavPty e) = pty_error_text e"
| "nav_error_text NavMfa = ''MFA failed''"
| "nav_error_text (NavManyMatches n) = ''jumpserver asset search returned '' @ show_nat n @ '' exact matches''"
| "nav_error_text (NavNotFound n) = ''jumpserver asset search did not find an exact IP match after '' @ show_nat n @ '' page(s)''"
| "nav_error_text NavNoPageStatus = ''page status could not be parsed''"
| "nav_error_text NavNoExactMatch = ''jumpserver asset search returned candidates but no exact IP match''"
| "nav_error_text NavPanic = ''panicked''"

definition nav_cause :: "nav_error \<Rightarrow> error_cause" where
  "nav_cause e = (if e = NavPty WriteFailed then RusshError else OtherCause)"

definition HISTORY_COMMAND :: string where
  "HISTORY_COMMAND = ''HISTFILE=/dev/null; HISTSIZE=0; SAVEHIST=0; set +o history 2>/dev/null; ''
    @ ''unset PROMPT_COMMAND 2>/dev/null; history -c 2>/dev/null; true''"

text \<open>\<^verbatim>\<open>open_target_shell\<close> on the channel that was opened; a failure to suppress the history is ignored.
  The panic of the menu's text functions ends the request like an error.\<close>

definition open_target_shell ::
  "string \<Rightarrow> bool \<Rightarrow> (unit + string) \<Rightarrow> string \<Rightarrow> gateway_error + pty_shell \<Rightarrow> gateway_error + pty_shell" where
  "open_target_shell uuid suppress mfa tgt channel =
    (case channel of
       Inl e \<Rightarrow> Inl e
     | Inr s \<Rightarrow>
         (case navigate_to_asset mfa tgt s of
            (Inl e, s) \<Rightarrow>
              Inl \<lparr>ge_kind = (if is_transport_error (nav_cause e) (nav_error_text e) then ETransport else EExecution),
                   ge_source = nav_error_text e\<rparr>
          | (Inr _, s) \<Rightarrow>
              Inr (if suppress then snd (snd (run_command_plain uuid HISTORY_COMMAND s)) else s)))"

definition live_cached ::
  "string \<Rightarrow> string \<Rightarrow> (pty_shell, 'l) session_cache \<Rightarrow> pty_shell option \<times> (pty_shell, 'l) session_cache" where
  "live_cached uuid ip c =
    (case cache_checkout ip c of
       (None, c) \<Rightarrow> (None, c)
     | (Some s, c) \<Rightarrow> (case probe_alive uuid s of (alive, s) \<Rightarrow> (if alive then Some s else None, c)))"

text \<open>One round of \<^verbatim>\<open>acquire_shell\<close>: its result, unless it is to be tried again, and the cache.  Calls run one after another, and what opening a shell and navigating to
  the target give is an argument.\<close>

definition acquire_attempt ::
  "nat \<Rightarrow> string \<Rightarrow> string \<Rightarrow> gateway_error + 'l \<Rightarrow> ('l \<Rightarrow> gateway_error + pty_shell) \<Rightarrow> (pty_shell, 'l) session_cache
    \<Rightarrow> (gateway_error + pty_shell \<times> 'l) option \<times> (pty_shell, 'l) session_cache" where
  "acquire_attempt attempt uuid ip transport open_shell c =
    (case transport of
       Inl e \<Rightarrow> (Some (Inl e), c)
     | Inr lease \<Rightarrow>
         (case live_cached uuid ip c of
            (Some s, c) \<Rightarrow> (Some (Inr (s, lease)), c)
          | (None, c) \<Rightarrow>
              (case open_shell lease of
                 Inr s \<Rightarrow> (Some (Inr (s, lease)), c)
               | Inl e \<Rightarrow>
                   if ge_kind e = ETransport
                   then (if attempt = 0 then None else Some (Inl e), cache_clear c)
                   else (Some (Inl e), c))))"

definition acquire_shell ::
  "(nat \<Rightarrow> string) \<Rightarrow> string \<Rightarrow> (nat \<Rightarrow> gateway_error + 'l) \<Rightarrow> (nat \<Rightarrow> 'l \<Rightarrow> gateway_error + pty_shell)
    \<Rightarrow> (pty_shell, 'l) session_cache \<Rightarrow> (gateway_error + pty_shell \<times> 'l) option \<times> (pty_shell, 'l) session_cache" where
  "acquire_shell uu tgt transport open_shell c =
    (let ip = derive_target_ip tgt
     in case acquire_attempt 0 (uu 0) ip (transport 0) (open_shell 0) c of
          (Some r, c) \<Rightarrow> (Some r, c)
        | (None, c) \<Rightarrow> acquire_attempt 1 (uu 1) ip (transport 1) (open_shell 1) c)"

section \<open>Sessions\<close>

text \<open>A non-interactive \<^verbatim>\<open>exec\<close>: input is sent base64-encoded in the command line.  The result is the exit
  code, the output, and the shell that goes back to the cache.\<close>

definition piped_command :: "(u8 list \<Rightarrow> u8 list) \<Rightarrow> string \<Rightarrow> string \<Rightarrow> string" where
  "piped_command engine stdin_data command =
    (if stdin_data = [] then command
     else ''printf '' @ [CHR 0x27] @ ''%s'' @ [CHR 0x27] @ '' '' @ [CHR 0x27] @ string_of (engine (bytes_of stdin_data))
       @ [CHR 0x27] @ '' | base64 -d | '' @ command)"

definition session_exec ::
  "(u8 list \<Rightarrow> u8 list) \<Rightarrow> string \<Rightarrow> string \<Rightarrow> string list \<Rightarrow> pty_shell \<Rightarrow> int \<times> string list \<times> pty_shell option" where
  "session_exec engine uuid command stdin_chunks s =
    (case run_command_plain uuid (piped_command engine (concat stdin_chunks) command) s of
       (Inr code, sent, s) \<Rightarrow> (code, sent, Some s)
     | (Inl _, sent, _) \<Rightarrow> (255, sent, None))"

text \<open>What \<^verbatim>\<open>next_event\<close> yields of it: the output, then the exit code.\<close>

definition session_exec_events :: "int \<times> string list \<times> pty_shell option \<Rightarrow> session_event list" where
  "session_exec_events r = map SeStdout (fst (snd r)) @ [SeExitStatus (fst r)]"



text \<open>\<^verbatim>\<open>open_exec_session\<close>: the command line is built without a shell around it.\<close>

definition jump_exec_command :: "string list \<Rightarrow> string" where
  "jump_exec_command argv = build_remote_command argv"

section \<open>Draining the echo\<close>


section \<open>Cached shells\<close>

definition cached_for :: "string \<Rightarrow> (pty_shell, 'l) session_cache \<Rightarrow> pty_shell \<Rightarrow> bool" where
  "cached_for ip c s \<longleftrightarrow> list_ex (\<lambda>(_, e). ca_ip e = ip \<and> ca_shell e = s) (lc_shells c)"

lemma checkout_cached_for:
  assumes "cache_inv clock c" "cache_checkout ip c = (Some s, c')"
  shows "cached_for ip c s"
proof -
  have "fst (shelf_checkout ip (shelf_of c)) = Some s"
    using cache_checkout_refines[OF assms(1), of ip] assms(2) by simp
  then obtain newer x older where x: "List.extract (\<lambda>x. fst (snd x) = ip) (rev (shelf_of c)) = Some (newer, x, older)"
    and s: "snd (snd x) = s" by (auto simp: shelf_checkout_def split: option.splits)
  then have "x \<in> set (shelf_of c)" "fst (snd x) = ip"
    by (auto simp: extract_Some_iff rev_eq_append_conv)
  with s show ?thesis by (force simp: shelf_of_def cached_for_def list_ex_iff)
qed

lemma live_cached_for:
  assumes "cache_inv clock c" "live_cached uuid ip c = (Some s, c')"
  shows "\<exists>s0. cached_for ip c s0 \<and> probe_alive uuid s0 = (True, s)"
  using assms checkout_cached_for[OF assms(1)]
  by (auto simp: live_cached_def split: prod.splits option.splits if_splits)

lemma acquire_attempt_shell:
  assumes "cache_inv clock c" "acquire_attempt n uuid ip transport open_shell c = (Some (Inr (s, lease)), c')"
  shows "transport = Inr lease
    \<and> (open_shell lease = Inr s \<or> (\<exists>s0. cached_for ip c s0 \<and> probe_alive uuid s0 = (True, s)))"
  using assms live_cached_for[OF assms(1)]
  by (auto simp: acquire_attempt_def split: sum.splits prod.splits option.splits if_splits)

lemma acquire_attempt_retry:
  assumes "acquire_attempt n uuid ip transport open_shell c = (None, c')"
  shows "n = 0 \<and> lc_shells c' = [] \<and> lc_by_ip c' = []"
  using assms
  by (auto simp: acquire_attempt_def cache_clear_def split: sum.splits prod.splits option.splits if_splits)

section \<open>Properties\<close>

text \<open>C20. A target is given a shell or an error within two attempts.  The shell was opened and navigated on the
  transport it is returned with, or it was cached for the address of the target and has just answered
  the liveness probe.\<close>

theorem acquired_shell_is_for_target:
  assumes "cache_inv clock c"
  shows "\<exists>r c'. acquire_shell uu tgt transport open_shell c = (Some r, c')
    \<and> (\<forall>s lease. r = Inr (s, lease) \<longrightarrow>
      (\<exists>n < 2. transport n = Inr lease
        \<and> (open_shell n lease = Inr s
           \<or> (\<exists>s0. cached_for (derive_target_ip tgt) c s0 \<and> probe_alive (uu n) s0 = (True, s)))))"
proof -
  let ?ip = "derive_target_ip tgt"
  obtain r1 c1 where one: "acquire_attempt 0 (uu 0) ?ip (transport 0) (open_shell 0) c = (r1, c1)" by (meson surj_pair)
  show ?thesis
  proof (cases r1)
    case (Some r)
    then have "acquire_shell uu tgt transport open_shell c = (Some r, c1)" using one by (simp add: acquire_shell_def)
    moreover have "\<exists>n < 2. transport n = Inr lease \<and> (open_shell n lease = Inr s
        \<or> (\<exists>s0. cached_for ?ip c s0 \<and> probe_alive (uu n) s0 = (True, s)))" if "r = Inr (s, lease)" for s lease
      using acquire_attempt_shell[OF assms one[unfolded Some that]] by (intro exI[of _ 0]) simp
    ultimately show ?thesis by blast
  next
    case None
    note empty = acquire_attempt_retry[OF one[unfolded None]]
    have inv1: "cache_inv 0 c1" using empty by (simp add: cache_inv_def indexes_def)
    obtain r2 c2 where two: "acquire_attempt 1 (uu 1) ?ip (transport 1) (open_shell 1) c1 = (r2, c2)" by (meson surj_pair)
    obtain r where r: "r2 = Some r" using acquire_attempt_retry[of 1 "uu 1" ?ip "transport 1" "open_shell 1" c1 c2] two by (cases r2) auto
    have "acquire_shell uu tgt transport open_shell c = (Some r, c2)" using one None two r by (simp add: acquire_shell_def)
    moreover have "\<exists>n < 2. transport n = Inr lease \<and> (open_shell n lease = Inr s
        \<or> (\<exists>s0. cached_for ?ip c s0 \<and> probe_alive (uu n) s0 = (True, s)))" if "r = Inr (s, lease)" for s lease
      using acquire_attempt_shell[OF inv1 two[unfolded r that]] empty by (intro exI[of _ 1]) (simp add: cached_for_def)
    ultimately show ?thesis by blast
  qed
qed

definition demo_cache :: "(pty_shell, unit) session_cache" where
  "demo_cache =
    \<lparr>lc_shells = [((1, 0), \<lparr>ca_ip = ''10.0.0.1'',
        ca_shell = demo_pty [''true'' @ [CHR 0x0A], ''__XHO_E_u__:0'' @ [CHR 0x0A] @ ''$ ''] ''$ '', ca_lease = ()\<rparr>)],
     lc_by_ip = [(''10.0.0.1'', [(1, 0)])], lc_next_id = 1, lc_max = None\<rparr>"

theorem acquired_shell_is_for_target_witness:
  "cache_inv 1 demo_cache \<and>
    (\<exists>s s0. fst (acquire_shell (\<lambda>n. ''u'') ''web-10-0-0-1'' (\<lambda>n. Inr ()) (\<lambda>n l. Inl \<lparr>ge_kind = EExecution, ge_source = []\<rparr>) demo_cache)
        = Some (Inr (s, ()))
      \<and> cached_for ''10.0.0.1'' demo_cache s0 \<and> probe_alive ''u'' s0 = (True, s))"
proof -
  let ?run = "acquire_shell (\<lambda>n. ''u'') ''web-10-0-0-1'' (\<lambda>n. Inr ()) (\<lambda>n l. Inl \<lparr>ge_kind = EExecution, ge_source = []\<rparr>) demo_cache"
  have inv: "cache_inv 1 demo_cache"
    by (simp add: cache_inv_def indexes_def demo_cache_def keys_of_def)
  have ip: "derive_target_ip ''web-10-0-0-1'' = ''10.0.0.1''" by code_simp
  have ok: "case fst ?run of Some r \<Rightarrow> \<not> isl r | None \<Rightarrow> False" by code_simp
  from acquired_shell_is_for_target[OF inv, of "\<lambda>n. ''u''" "''web-10-0-0-1''" "\<lambda>n. Inr ()"
      "\<lambda>n l. Inl \<lparr>ge_kind = EExecution, ge_source = []\<rparr>", unfolded ip] obtain r c' where
    r: "?run = (Some r, c')" and hit: "\<And>s lease. r = Inr (s, lease) \<Longrightarrow>
      \<exists>s0. cached_for ''10.0.0.1'' demo_cache s0 \<and> probe_alive ''u'' s0 = (True, s)" by auto
  obtain s where "r = Inr (s, ())" using ok r by (cases r) auto
  with hit r inv show ?thesis by auto
qed




text \<open>A non-interactive command through a jump server is taken for finished as soon as a chunk of its
  output ends like a prompt: the session reports success, and the shell, with the rest of the
  command's output still to come on it, goes back to the cache for the next command.\<close>

theorem prompt_like_output_ends_command:
  assumes "CHR 0x0A \<notin> set echo" "pt_refusals s = []" "kept_pending s = []"
    and "pt_events s = Msg (MData (echo @ [CHR 0x0A])) # Msg (MData chunk) # later"
    and "prompt_output_split chunk (pt_prompts s) = Some split"
    and "find_subslice (take split chunk) (make_marker uuid) = None"
  shows "\<exists>s'. session_exec engine uuid command stdin_chunks s
        = (0, nonempty (strip_leading_shell_noise (take split chunk)), Some s')
    \<and> pt_events s' = later"
proof -
  have "extract_marker (take split chunk) (make_marker uuid) = (0, take split chunk)"
    using assms(6) by (simp add: extract_marker_def)
  from plain_prompt_chunk[OF assms(1-5) this, of "piped_command engine (concat stdin_chunks) command"]
  show ?thesis by (auto simp: session_exec_def)
qed

theorem prompt_like_output_ends_command_witness:
  "\<exists>s'. session_exec rfc4648 ''u'' ''./price'' []
        (demo_pty [''typed'' @ [CHR 0x0A], ''total:'' @ [CHR 0x0A] @ ''5$ '', ''net'' @ [CHR 0x0A] @ ''__XHO_E_u__:3'' @ [CHR 0x0A] @ ''[h]# ''] [])
      = (0, [''total:'' @ [CHR 0x0A]], Some s')
    \<and> pt_events s' = delivers [''net'' @ [CHR 0x0A] @ ''__XHO_E_u__:3'' @ [CHR 0x0A] @ ''[h]# '']"
proof -
  let ?s = "demo_pty [''typed'' @ [CHR 0x0A], ''total:'' @ [CHR 0x0A] @ ''5$ '', ''net'' @ [CHR 0x0A] @ ''__XHO_E_u__:3'' @ [CHR 0x0A] @ ''[h]# ''] []"
  have p: "prompt_output_split (''total:'' @ [CHR 0x0A] @ ''5$ '') (pt_prompts ?s) = Some 7"
    "find_subslice (take 7 (''total:'' @ [CHR 0x0A] @ ''5$ '')) (make_marker ''u'') = None"
    "nonempty (strip_leading_shell_noise (take 7 (''total:'' @ [CHR 0x0A] @ ''5$ ''))) = [''total:'' @ [CHR 0x0A]]"
    by code_simp+
  have s: "CHR 0x0A \<notin> set ''typed''" "pt_refusals ?s = []" "kept_pending ?s = []"
    "pt_events ?s = Msg (MData (''typed'' @ [CHR 0x0A])) # Msg (MData (''total:'' @ [CHR 0x0A] @ ''5$ ''))
      # delivers [''net'' @ [CHR 0x0A] @ ''__XHO_E_u__:3'' @ [CHR 0x0A] @ ''[h]# '']"
    by (simp_all add: demo_pty_def kept_pending_def)
  from prompt_like_output_ends_command[OF s p(1,2), of rfc4648 "''./price''" "[]"] p(3) show ?thesis by metis
qed

end
