(* ===== verification/App_Config.thy ===== *)
theory App_Config
  imports "HOL-Library.Monad_Syntax" Audit_Log Gateway_Config Inventory Review
begin

text \<open>
  The configuration of the daemon (\<^verbatim>\<open>config.rs\<close>, \<^verbatim>\<open>config/server.rs\<close>, \<^verbatim>\<open>config/reverse_proxy.rs\<close>,
  \<^verbatim>\<open>config/ssh.rs\<close>, \<^verbatim>\<open>config/secret.rs\<close>, the defaults of \<^verbatim>\<open>config/review.rs\<close> and \<^verbatim>\<open>filepath.rs\<close>): defaults, expansion of
  paths, validation and loading.

  The TOML reader is an argument, and so are the home directory, the environment and whether the daemon
  runs as root.  Durations are in milliseconds; the platform is Unix.  \<^verbatim>\<open>SocketAddr::from_str\<close> is the parser of
  the standard library, as a recogniser.
\<close>

section \<open>Socket addresses\<close>

text \<open>A reader returns the rest of the input.  \<^verbatim>\<open>read_number\<close> takes the longest run of digits and fails
  on overflow, on too many digits and, unless it is allowed, on a leading zero.\<close>

definition to_digit :: "nat \<Rightarrow> char \<Rightarrow> nat option" where
  "to_digit radix c =
    (let b = byte c;
         n = (if 48 \<le> b \<and> b \<le> 57 then b - 48
              else if 97 \<le> b \<and> b \<le> 122 then b - 87
              else if 65 \<le> b \<and> b \<le> 90 then b - 55 else 36)
     in if n < radix then Some n else None)"

definition read_number :: "nat \<Rightarrow> nat option \<Rightarrow> bool \<Rightarrow> nat \<Rightarrow> string \<Rightarrow> string option" where
  "read_number radix max_digits allow_zero_prefix limit s =
    (let ds = takeWhile (\<lambda>c. to_digit radix c \<noteq> None) s;
         n = foldl (\<lambda>n c. n * radix + the (to_digit radix c)) 0 ds
     in if ds = [] \<or> (case max_digits of Some m \<Rightarrow> m < length ds | None \<Rightarrow> False)
           \<or> \<not> allow_zero_prefix \<and> hd ds = CHR ''0'' \<and> 1 < length ds \<or> limit < n
        then None else Some (drop (length ds) s))"

definition read_char :: "char \<Rightarrow> string \<Rightarrow> string option" where
  "read_char c s = (case s of [] \<Rightarrow> None | d # r \<Rightarrow> if d = c then Some r else None)"

definition read_separated :: "char \<Rightarrow> nat \<Rightarrow> (string \<Rightarrow> string option) \<Rightarrow> string \<Rightarrow> string option" where
  "read_separated sep i rd s = (if 0 < i then Option.bind (read_char sep s) rd else rd s)"

definition read_ipv4 :: "string \<Rightarrow> string option" where
  "read_ipv4 s =
    (let octet = (\<lambda>i. read_separated (CHR ''.'') i (read_number 10 (Some 3) False 255))
     in Option.bind (octet 0 s) (\<lambda>s. Option.bind (octet 1 s) (\<lambda>s. Option.bind (octet 2 s) (octet 3))))"

text \<open>The groups of an IPv6 address: how many were read, whether they end in an IPv4 address, and the rest.\<close>

function read_groups :: "nat \<Rightarrow> nat \<Rightarrow> string \<Rightarrow> nat \<times> bool \<times> string" where
  "read_groups limit i s =
    (if limit \<le> i then (limit, False, s)
     else (case (if i + 1 < limit then read_separated (CHR '':'') i read_ipv4 s else None) of
             Some r \<Rightarrow> (i + 2, True, r)
           | None \<Rightarrow>
               (case read_separated (CHR '':'') i (read_number 16 (Some 4) True 0xFFFF) s of
                  Some r \<Rightarrow> read_groups limit (i + 1) r
                | None \<Rightarrow> (i, False, s))))"
  by auto
termination by (relation "measure (\<lambda>(limit, i, _). limit - i)") auto

declare read_groups.simps [simp del]

definition read_ipv6 :: "string \<Rightarrow> string option" where
  "read_ipv6 s =
    (case read_groups 8 0 s of
       (n, v4, r) \<Rightarrow>
         if n = 8 then Some r
         else if v4 then None
         else (case Option.bind (read_char (CHR '':'') r) (read_char (CHR '':'')) of
                 None \<Rightarrow> None
               | Some r \<Rightarrow> Some (snd (snd (read_groups (8 - (n + 1)) 0 r)))))"

definition read_port :: "string \<Rightarrow> string option" where
  "read_port s = Option.bind (read_char (CHR '':'') s) (read_number 10 None True 0xFFFF)"

definition read_scope_id :: "string \<Rightarrow> string" where
  "read_scope_id s =
    (case Option.bind (read_char (CHR ''%'') s) (read_number 10 None True 0xFFFFFFFF) of
       Some r \<Rightarrow> r | None \<Rightarrow> s)"

definition is_socket_addr :: "string \<Rightarrow> bool" where
  "is_socket_addr s \<longleftrightarrow>
    (case Option.bind (read_ipv4 s) read_port of
       Some r \<Rightarrow> r = []
     | None \<Rightarrow>
         Option.bind (read_char (CHR ''['') s) (\<lambda>s. Option.bind (read_ipv6 s)
           (\<lambda>s. Option.bind (read_char (CHR '']'') (read_scope_id s)) read_port)) = Some [])"

section \<open>Sections of the configuration\<close>

datatype local_transport = TransportUnix | TransportTcp

record local_server_config =
  lo_enable :: bool
  lo_transport :: local_transport
  lo_socket_path :: string
  lo_tcp_bind :: string
  lo_tcp_lock_file :: string

record remote_server_config =
  rm_enable :: bool
  rm_listen_addr :: string
  rm_user :: string
  rm_host_key_path :: string
  rm_authorized_keys_path :: string
  rm_bootstrap_token :: "string option"
  rm_reverse_proxy_enable :: bool

record proxy_server_config =
  px_enable :: bool
  px_listen_addr :: string
  px_host_key_path :: string
  px_authorized_keys_path :: string
  px_sftp_server_path :: "string option"

record server_config =
  sv_log_path :: "string option"
  sv_log_level :: string
  sv_reaper_interval :: nat
  sv_inactivity_timeout :: "nat option"
  sv_local :: local_server_config
  sv_remote :: remote_server_config
  sv_proxy :: proxy_server_config

definition default_socket_path :: "bool \<Rightarrow> string" where
  "default_socket_path root = (if root then ''/var/run/xho/xhod.sock'' else ''~/.xho/xhod.sock'')"

definition default_tcp_lock_file :: string where
  "default_tcp_lock_file = ''~/.xho/xhod.tcp''"

definition default_local_server :: "bool \<Rightarrow> local_server_config" where
  "default_local_server root =
    \<lparr>lo_enable = True, lo_transport = TransportUnix, lo_socket_path = default_socket_path root,
     lo_tcp_bind = ''127.0.0.1:0'', lo_tcp_lock_file = default_tcp_lock_file\<rparr>"

definition default_remote_server :: remote_server_config where
  "default_remote_server =
    \<lparr>rm_enable = False, rm_listen_addr = ''0.0.0.0:12222'', rm_user = ''xho'', rm_host_key_path = ''~/.xho/host_key'',
     rm_authorized_keys_path = ''~/.xho/authorized_keys'', rm_bootstrap_token = None, rm_reverse_proxy_enable = False\<rparr>"

definition default_proxy_server :: proxy_server_config where
  "default_proxy_server =
    \<lparr>px_enable = True, px_listen_addr = ''0.0.0.0:2222'', px_host_key_path = ''~/.xho/host_key'',
     px_authorized_keys_path = ''~/.xho/proxy_authorized_keys'', px_sftp_server_path = None\<rparr>"

definition default_server_config :: "bool \<Rightarrow> server_config" where
  "default_server_config root =
    \<lparr>sv_log_path = None, sv_log_level = ''info'', sv_reaper_interval = 30000, sv_inactivity_timeout = None,
     sv_local = default_local_server root, sv_remote = default_remote_server, sv_proxy = default_proxy_server\<rparr>"

record ssh_config =
  sh_ssh_config_path :: string
  sh_server_config_path :: string
  sh_fallback :: "fallback_entry list"
  sh_tty :: bool
  sh_stdin :: bool
  sh_auto_tty_detect :: bool
  sh_connect_timeout :: nat
  sh_keepalive_interval :: nat
  sh_inactivity_timeout :: "nat option"
  sh_max_idle_time :: nat
  sh_max_connections_per_ip :: nat

definition default_ssh_config :: ssh_config where
  "default_ssh_config =
    \<lparr>sh_ssh_config_path = ''~/.ssh/config'', sh_server_config_path = ''~/.xho/server.toml'',
     sh_fallback = [FallbackLocal], sh_tty = True, sh_stdin = False, sh_auto_tty_detect = True,
     sh_connect_timeout = 10000, sh_keepalive_interval = 30000, sh_inactivity_timeout = None,
     sh_max_idle_time = 600000, sh_max_connections_per_ip = 10\<rparr>"

record reverse_proxy_client_config =
  rv_enable :: bool
  rv_server_address :: string
  rv_identity_file :: string
  rv_known_hosts_path :: string
  rv_node_name :: string
  rv_allow_host_access :: bool
  rv_shell :: "string option"
  rv_user :: "string option"
  rv_workdir :: "string option"
  rv_reconnect_delay :: nat
  rv_keepalive_interval :: nat
  rv_max_idle_time :: nat

definition default_reverse_proxy_client :: reverse_proxy_client_config where
  "default_reverse_proxy_client =
    \<lparr>rv_enable = False, rv_server_address = [], rv_identity_file = ''~/.ssh/id_ed25519'',
     rv_known_hosts_path = ''~/.xho/known_hosts'', rv_node_name = [], rv_allow_host_access = False,
     rv_shell = None, rv_user = None, rv_workdir = None, rv_reconnect_delay = 10000,
     rv_keepalive_interval = 30000, rv_max_idle_time = 600000\<rparr>"

record secret_config =
  st_vault_path :: "string option"
  st_key_source :: "string option"

section \<open>Defaults of the review\<close>

definition default_review_system_prompt :: string where
  "default_review_system_prompt = join_with '' ''
    [''You are a Unix command safety reviewer for a remote execution tool.'',
     ''Your job is to classify whether a command is operationally safe before execution.'',
     ''Be conservative and judge the overall effect of the full command, not isolated substrings.'',
     ''Return JSON only, with no markdown and no extra text.'']"

definition default_review_template :: string where
  "default_review_template = join_with [CHR 0x0A]
    [''Classify the command into exactly one risk level: safe, risky, or dangerous.'',
     ''safe: read-only inspection or diagnostics that should not modify files, system state, services, users, packages, network policy, or remote data.'',
     ''risky: bounded changes to application or working state with moderate blast radius, where human confirmation is reasonable.'',
     ''dangerous: deletion, overwrite, download-and-execute, package install, service restart/stop, privilege escalation, system configuration change, cluster mutation, credential access, data exfiltration, or any broad/uncertain shell script.'',
     ''Judge the whole command after shell operators, pipes, redirects, subshells, and scripts are considered together.'',
     ''Semantic whitelist entries are only hints. They can justify safe only when the entire command is actually read-only or otherwise clearly within the allowed intent.'',
     ''If a command mixes a benign subcommand with any mutating or unclear behavior, do not whitelist it.'',
     ''Return compact JSON with keys: risk_level, reason, matched_whitelist_reason.'',
     ''matched_whitelist_reason must be null when no whitelist intent applies.'']"

definition default_copy_review_system_prompt :: string where
  "default_copy_review_system_prompt = join_with '' ''
    [''You are a file-transfer safety reviewer for a remote operations tool.'',
     ''Your job is to classify whether copying a file or directory to/from a target host is safe.'',
     ''Be conservative: credential files, secrets, private keys, and broad system directories are sensitive.'',
     ''Return JSON only, with no markdown and no extra text.'']"

definition default_copy_review_template :: string where
  "default_copy_review_template = join_with [CHR 0x0A]
    [''Classify the copy operation into exactly one risk level: safe, risky, or dangerous.'',
     ''safe: ordinary application data, logs, build artifacts, or public files with no secret material.'',
     ''risky: sensitive but non-secret paths where exfiltration or overwrite could cause harm.'',
     ''dangerous: credentials, private keys, shadow files, or any path likely to contain secrets.'',
     ''Consider the direction: downloading secrets from a host is exfiltration; overwriting system files is destructive.'',
     ''Return compact JSON with keys: risk_level, reason, matched_whitelist_reason.'',
     ''matched_whitelist_reason must be null when no special reason applies.'']"

definition default_semantic_whitelist :: "semantic_whitelist_entry list" where
  "default_semantic_whitelist =
    [\<lparr>sw_name = ''read-only inspection'',
      sw_description = ''Read-only inspection of files, logs, process state, sockets, environment, or system metadata.'',
      sw_examples = [''cat /etc/hosts'', ''journalctl -u nginx'', ''ps aux | grep kubelet'']\<rparr>,
     \<lparr>sw_name = ''source and git inspection'',
      sw_description = ''Read-only inspection of source code or git history/status without checkout, reset, clean, apply, or commit.'',
      sw_examples = [''grep -R TODO src'', ''git status --short'', ''git log --oneline -20'']\<rparr>,
     \<lparr>sw_name = ''kubernetes read-only inspection'',
      sw_description = ''Cluster inspection commands that only get, describe, or view logs and do not patch, edit, apply, delete, scale, or exec.'',
      sw_examples = [''kubectl get pods -A'', ''kubectl describe pod my-pod -n prod'', ''kubectl logs deploy/api -n prod --since=10m'']\<rparr>]"

definition default_review_config :: review_config where
  "default_review_config =
    \<lparr>rc_endpoint = ''https://api.openai.com/v1/chat/completions'', rc_model = ''gpt-4.1-mini'', rc_failure_action = Deny,
     rc_exec = \<lparr>ex_enable = False,
       ex_prompts = \<lparr>rp_system = default_review_system_prompt, rp_template = default_review_template\<rparr>,
       ex_policy = default_review_policy, ex_fast_allowlist = default_fast_allowlist,
       ex_semantic_whitelist = default_semantic_whitelist\<rparr>,
     rc_copy = \<lparr>cp_enable = False,
       cp_prompts = \<lparr>rp_system = default_copy_review_system_prompt, rp_template = default_copy_review_template\<rparr>,
       cp_policy = default_review_policy, cp_allowlist = [], cp_blocklist = default_copy_blocklist\<rparr>\<rparr>"

section \<open>The whole configuration\<close>

record app_config =
  ap_server :: server_config
  ap_ssh :: ssh_config
  ap_preserve_mode :: bool
  ap_review :: review_config
  ap_audit :: audit_config
  ap_secret :: secret_config
  ap_gateways :: "gateway_config list"
  ap_reverse_proxy :: reverse_proxy_client_config
  ap_config_dir :: "local_path option"

definition default_app_config :: "bool \<Rightarrow> app_config" where
  "default_app_config root =
    \<lparr>ap_server = default_server_config root, ap_ssh = default_ssh_config, ap_preserve_mode = True,
     ap_review = default_review_config, ap_audit = default_audit_config,
     ap_secret = \<lparr>st_vault_path = None, st_key_source = None\<rparr>, ap_gateways = [],
     ap_reverse_proxy = default_reverse_proxy_client, ap_config_dir = None\<rparr>"

definition home_root :: "string option \<Rightarrow> local_path" where
  "home_root home = path_push (components (case home of Some h \<Rightarrow> h | None \<Rightarrow> ''.'')) ''.xho''"

definition default_config_path :: "string option \<Rightarrow> local_path" where
  "default_config_path home = path_push (home_root home) ''config.toml''"

definition default_vault_path :: "string option \<Rightarrow> local_path" where
  "default_vault_path home = path_push (home_root home) ''secrets''"

text \<open>\<^verbatim>\<open>Path::parent\<close>.\<close>

definition parent_dir :: "local_path \<Rightarrow> local_path option" where
  "parent_dir p =
    (if p = [] then None else (case last p of RootDir \<Rightarrow> None | Prefix _ \<Rightarrow> None | _ \<Rightarrow> Some (butlast p)))"

definition expand_opt :: "string option \<Rightarrow> string option \<Rightarrow> string option option" where
  "expand_opt home v = (case v of None \<Rightarrow> Some None | Some p \<Rightarrow> map_option Some (expand_tilde home p))"

definition expand_local_server :: "string option \<Rightarrow> local_server_config \<Rightarrow> local_server_config option" where
  "expand_local_server home c = do {
    p \<leftarrow> expand_tilde home (lo_socket_path c);
    l \<leftarrow> expand_tilde home (lo_tcp_lock_file c);
    Some (c\<lparr>lo_socket_path := p, lo_tcp_lock_file := l\<rparr>) }"

definition expand_remote_server :: "string option \<Rightarrow> remote_server_config \<Rightarrow> remote_server_config option" where
  "expand_remote_server home c = do {
    k \<leftarrow> expand_tilde home (rm_host_key_path c);
    a \<leftarrow> expand_tilde home (rm_authorized_keys_path c);
    Some (c\<lparr>rm_host_key_path := k, rm_authorized_keys_path := a\<rparr>) }"

definition expand_proxy_server :: "string option \<Rightarrow> proxy_server_config \<Rightarrow> proxy_server_config option" where
  "expand_proxy_server home c = do {
    k \<leftarrow> expand_tilde home (px_host_key_path c);
    a \<leftarrow> expand_tilde home (px_authorized_keys_path c);
    p \<leftarrow> expand_opt home (px_sftp_server_path c);
    Some (c\<lparr>px_host_key_path := k, px_authorized_keys_path := a, px_sftp_server_path := p\<rparr>) }"

fun expand_gateway :: "string option \<Rightarrow> gateway_config \<Rightarrow> gateway_config option" where
  "expand_gateway home (XhodConfig c) = do {
    i \<leftarrow> expand_tilde home (xg_identity_file c);
    k \<leftarrow> expand_tilde home (xg_known_hosts_path c);
    Some (XhodConfig (c\<lparr>xg_identity_file := i, xg_known_hosts_path := k\<rparr>)) }"
| "expand_gateway home (JumpserverConfig c) =
    map_option (\<lambda>i. JumpserverConfig (c\<lparr>jg_identity_file := i\<rparr>)) (expand_tilde home (jg_identity_file c))"
| "expand_gateway home (DirectConfig c) =
    map_option (\<lambda>i. DirectConfig (c\<lparr>dg_identity_file := i\<rparr>)) (expand_tilde home (dg_identity_file c))"

definition expand_reverse_proxy ::
  "string option \<Rightarrow> reverse_proxy_client_config \<Rightarrow> reverse_proxy_client_config option" where
  "expand_reverse_proxy home c = do {
    i \<leftarrow> expand_tilde home (rv_identity_file c);
    k \<leftarrow> expand_tilde home (rv_known_hosts_path c);
    w \<leftarrow> expand_opt home (rv_workdir c);
    Some (c\<lparr>rv_identity_file := i, rv_known_hosts_path := k, rv_workdir := w\<rparr>) }"

text \<open>\<^verbatim>\<open>expand_paths\<close>: it fails only for want of a home directory.\<close>

definition expand_paths :: "string option \<Rightarrow> app_config \<Rightarrow> app_config option" where
  "expand_paths home c = do {
    log \<leftarrow> expand_opt home (sv_log_path (ap_server c));
    audit \<leftarrow> expand_opt home (ac_path (ap_audit c));
    lo \<leftarrow> expand_local_server home (sv_local (ap_server c));
    rm \<leftarrow> expand_remote_server home (sv_remote (ap_server c));
    px \<leftarrow> expand_proxy_server home (sv_proxy (ap_server c));
    ssh \<leftarrow> expand_tilde home (sh_ssh_config_path (ap_ssh c));
    srv \<leftarrow> expand_tilde home (sh_server_config_path (ap_ssh c));
    vault \<leftarrow> expand_opt home (st_vault_path (ap_secret c));
    key \<leftarrow> expand_opt home (st_key_source (ap_secret c));
    gws \<leftarrow> those (map (expand_gateway home) (ap_gateways c));
    rv \<leftarrow> expand_reverse_proxy home (ap_reverse_proxy c);
    Some (c\<lparr>ap_server := (ap_server c)\<lparr>sv_log_path := log, sv_local := lo, sv_remote := rm, sv_proxy := px\<rparr>,
            ap_audit := (ap_audit c)\<lparr>ac_path := audit\<rparr>,
            ap_ssh := (ap_ssh c)\<lparr>sh_ssh_config_path := ssh, sh_server_config_path := srv\<rparr>,
            ap_secret := \<lparr>st_vault_path = vault, st_key_source = key\<rparr>,
            ap_gateways := gws, ap_reverse_proxy := rv\<rparr>) }"

section \<open>Validation\<close>

datatype config_invalid =
    NoListener | EmptySetting string | BadAddress string | SameAddress
  | BadGateways gateway_validation_error | BadFallback string

definition first_error :: "'e option list \<Rightarrow> 'e option" where
  "first_error es = Option.bind (List.find (\<lambda>e. e \<noteq> None) es) id"

definition unless :: "bool \<Rightarrow> 'e \<Rightarrow> 'e option" where
  "unless ok e = (if ok then None else Some e)"

definition validate_local_server :: "local_server_config \<Rightarrow> config_invalid option" where
  "validate_local_server c =
    (if \<not> lo_enable c then None
     else (case lo_transport c of
       TransportUnix \<Rightarrow> unless (trim (lo_socket_path c) \<noteq> []) (EmptySetting ''server.local.socket_path'')
     | TransportTcp \<Rightarrow> first_error
         [unless (trim (lo_tcp_bind c) \<noteq> []) (EmptySetting ''server.local.tcp_bind''),
          unless (is_socket_addr (lo_tcp_bind c) \<or> ends_with (lo_tcp_bind c) '':0'') (BadAddress ''server.local.tcp_bind'')]))"

definition validate_remote_server :: "remote_server_config \<Rightarrow> config_invalid option" where
  "validate_remote_server c =
    (if \<not> rm_enable c then None
     else first_error
       [unless (trim (rm_user c) \<noteq> []) (EmptySetting ''server.remote.user''),
        unless (is_socket_addr (rm_listen_addr c)) (BadAddress ''server.remote.listen_addr''),
        unless (trim (rm_host_key_path c) \<noteq> []) (EmptySetting ''server.remote.host_key_path''),
        unless (trim (rm_authorized_keys_path c) \<noteq> []) (EmptySetting ''server.remote.authorized_keys_path'')])"

definition validate_proxy_server :: "remote_server_config \<Rightarrow> proxy_server_config \<Rightarrow> config_invalid option" where
  "validate_proxy_server r c =
    (if \<not> px_enable c then None
     else first_error
       [unless (is_socket_addr (px_listen_addr c)) (BadAddress ''server.proxy.listen_addr''),
        unless (trim (px_host_key_path c) \<noteq> []) (EmptySetting ''server.proxy.host_key_path''),
        unless (trim (px_authorized_keys_path c) \<noteq> []) (EmptySetting ''server.proxy.authorized_keys_path''),
        unless (\<not> (rm_enable r \<and> px_listen_addr c = rm_listen_addr r)) SameAddress])"

definition validate_server :: "server_config \<Rightarrow> config_invalid option" where
  "validate_server c = first_error
    [unless (lo_enable (sv_local c) \<or> rm_enable (sv_remote c) \<or> px_enable (sv_proxy c)) NoListener,
     validate_local_server (sv_local c), validate_remote_server (sv_remote c),
     validate_proxy_server (sv_remote c) (sv_proxy c)]"

definition validate_reverse_proxy :: "reverse_proxy_client_config \<Rightarrow> config_invalid option" where
  "validate_reverse_proxy c =
    (if \<not> rv_enable c then None
     else first_error
       [unless (trim (rv_server_address c) \<noteq> []) (EmptySetting ''reverse_proxy.server_address''),
        unless (trim (rv_node_name c) \<noteq> []) (EmptySetting ''reverse_proxy.node_name''),
        unless (trim (rv_identity_file c) \<noteq> []) (EmptySetting ''reverse_proxy.identity_file''),
        unless (trim (rv_known_hosts_path c) \<noteq> []) (EmptySetting ''reverse_proxy.known_hosts_path'')])"

definition validate_app :: "app_config \<Rightarrow> config_invalid option" where
  "validate_app c = first_error
    [validate_server (ap_server c), map_option BadGateways (validate_gateways (ap_gateways c)),
     map_option BadFallback (validate_fallback_references (sh_fallback (ap_ssh c)) (ap_gateways c)),
     validate_reverse_proxy (ap_reverse_proxy c)]"

datatype load_error = LoadRead | LoadParse | NoHome | Invalid config_invalid

definition load_app_config ::
  "(string \<Rightarrow> app_config option) \<Rightarrow> string option \<Rightarrow> bool \<Rightarrow> local_path option \<Rightarrow> (local_path \<Rightarrow> file_state)
    \<Rightarrow> load_error + app_config" where
  "load_app_config from_toml home root path files =
    (let path = (case path of Some p \<Rightarrow> p | None \<Rightarrow> default_config_path home);
         finish = (\<lambda>c. case expand_paths home (c\<lparr>ap_config_dir := parent_dir path\<rparr>) of
             None \<Rightarrow> Inl NoHome
           | Some c \<Rightarrow> (case validate_app c of Some e \<Rightarrow> Inl (Invalid e) | None \<Rightarrow> Inr c))
     in case files path of
          Absent \<Rightarrow> finish (default_app_config root)
        | Unreadable \<Rightarrow> Inl LoadRead
        | Contents raw \<Rightarrow> (case from_toml raw of None \<Rightarrow> Inl LoadParse | Some c \<Rightarrow> finish c))"

definition vault_path :: "string option \<Rightarrow> app_config \<Rightarrow> local_path" where
  "vault_path home c =
    (case st_vault_path (ap_secret c) of
       Some p \<Rightarrow> components p
     | None \<Rightarrow> (case ap_config_dir c of Some d \<Rightarrow> path_push d ''secrets'' | None \<Rightarrow> default_vault_path home))"

record secret_resolver =
  sr_vault_path :: "local_path option"
  sr_key_source :: "string option"

definition secret_resolver_of :: "string option \<Rightarrow> app_config \<Rightarrow> string option \<Rightarrow> secret_resolver" where
  "secret_resolver_of home c fallback_identity =
    \<lparr>sr_vault_path = Some (vault_path home c),
     sr_key_source =
       (case st_key_source (ap_secret c) of
          Some k \<Rightarrow> Some k
        | None \<Rightarrow> if rm_enable (sv_remote (ap_server c)) then Some (rm_host_key_path (sv_remote (ap_server c)))
                  else fallback_identity)\<rparr>"

section \<open>What is accepted\<close>

lemma first_error_None: "first_error es = None \<longleftrightarrow> list_all (\<lambda>e. e = None) es"
  by (induction es) (auto simp: first_error_def)

lemma unless_None [simp]: "unless ok e = None \<longleftrightarrow> ok"
  by (simp add: unless_def)

lemmas validation_simps =
  first_error_None validate_local_server_def validate_remote_server_def validate_proxy_server_def
  validate_server_def validate_reverse_proxy_def validate_app_def

lemma ws_chars_bytes: "list_all (list_all ws_byte) ws_chars"
  by (simp add: ws_chars_def ws_byte_def)

lemma trim_pats_keeps:
  "list_all (list_all ws_byte) ps \<Longrightarrow> c \<in> set s \<Longrightarrow> \<not> ws_byte c \<Longrightarrow> c \<in> set (trim_pats ps s)"
proof (induction ps s rule: trim_pats.induct)
  case (1 ps s)
  show ?case
  proof (cases "strip_any ps s")
    case None
    with 1 show ?thesis by (simp add: trim_pats_id)
  next
    case (Some r)
    then obtain p where "p \<in> set ps" "s = p @ r" by (auto dest: strip_any_Some)
    with 1(2-4) have "c \<in> set r" by (auto simp: list_all_iff)
    with 1 Some show ?thesis by (subst trim_pats.simps) simp
  qed
qed

lemma trim_keeps:
  assumes "c \<in> set s" "\<not> ws_byte c"
  shows "trim s \<noteq> []"
proof -
  have "c \<in> set (trim_start s)" unfolding trim_start_def by (rule trim_pats_keeps[OF ws_chars_bytes assms])
  moreover have "list_all (list_all ws_byte) (map rev ws_chars)" using ws_chars_bytes by (simp add: list_all_iff)
  ultimately have "c \<in> set (trim s)"
    unfolding trim_def trim_end_def set_rev using trim_pats_keeps[OF _ _ assms(2)] by simp
  then show ?thesis by auto
qed

lemma trim_expanded:
  assumes "expand_tilde home v = Some p" "c \<in> set v" "\<not> ws_byte c" "c \<noteq> CHR ''~''" "c \<noteq> CHR ''/''"
  shows "trim p \<noteq> []"
proof -
  have "c \<in> set p" if "v \<noteq> ''~''"
    using assms that by (auto simp: expand_tilde_def os_path_join_def strip_prefix_Some split: option.splits)
  moreover have "v \<noteq> ''~''" using assms(2,4) by auto
  ultimately show ?thesis using trim_keeps assms(3) by blast
qed

lemmas socket_simps =
  is_socket_addr_def read_ipv4_def read_ipv6_def read_port_def read_scope_id_def read_separated_def read_char_def
  read_number_def to_digit_def Let_def

lemma default_listeners: "is_socket_addr ''0.0.0.0:2222''" "is_socket_addr ''0.0.0.0:12222''"
  by (simp_all add: socket_simps)

lemma ipv6_listener: "is_socket_addr ''[::1]:22''" "\<not> is_socket_addr ''0.0.0.0''" "\<not> is_socket_addr ''1.2.3.256:1''"
  by (simp_all add: socket_simps read_groups.simps)

lemma load_app_config_valid:
  assumes "load_app_config from_toml home root path files = Inr c"
  shows "validate_app c = None \<and> ap_config_dir c = parent_dir (case path of Some p \<Rightarrow> p | None \<Rightarrow> default_config_path home)"
  using assms
  by (auto simp: load_app_config_def Let_def expand_paths_def bind_eq_Some_conv
      split: file_state.splits option.splits)

lemma validate_gateways_None:
  "validate_gateways gs = None \<longleftrightarrow> list_all gateway_fields_ok gs \<and> distinct (map gc_name gs)"
  by (simp add: validate_gateways_def validate_gateways_loop_iff)

section \<open>Properties\<close>

text \<open>C24. A configuration that loads, from a file or by default, can be run: a listener is enabled; an enabled SSH
  listener (remote or proxy) has a socket address, a host key file and an authorized keys file, and the two addresses differ; an enabled local
  listener has a socket path or a TCP address that is a socket address or at least ends in \<^verbatim>\<open>:0\<close> (which is all that is
  checked of it); gateways have distinct names that are neither
  empty nor reserved and the field their kind requires; fallbacks name gateways that exist; and an
  enabled reverse connection has an address, a node name, an identity file and a known hosts file.\<close>

theorem loaded_config_runs:
  assumes "load_app_config from_toml home root path files = Inr c"
  shows "(lo_enable (sv_local (ap_server c)) \<or> rm_enable (sv_remote (ap_server c)) \<or> px_enable (sv_proxy (ap_server c)))
    \<and> (lo_enable (sv_local (ap_server c)) \<longrightarrow>
        (case lo_transport (sv_local (ap_server c)) of
           TransportUnix \<Rightarrow> trim (lo_socket_path (sv_local (ap_server c))) \<noteq> []
         | TransportTcp \<Rightarrow> is_socket_addr (lo_tcp_bind (sv_local (ap_server c))) \<or> ends_with (lo_tcp_bind (sv_local (ap_server c))) '':0''))
    \<and> (rm_enable (sv_remote (ap_server c)) \<longrightarrow> is_socket_addr (rm_listen_addr (sv_remote (ap_server c)))
        \<and> trim (rm_user (sv_remote (ap_server c))) \<noteq> []
        \<and> trim (rm_host_key_path (sv_remote (ap_server c))) \<noteq> [] \<and> trim (rm_authorized_keys_path (sv_remote (ap_server c))) \<noteq> [])
    \<and> (px_enable (sv_proxy (ap_server c)) \<longrightarrow> is_socket_addr (px_listen_addr (sv_proxy (ap_server c)))
        \<and> trim (px_host_key_path (sv_proxy (ap_server c))) \<noteq> [] \<and> trim (px_authorized_keys_path (sv_proxy (ap_server c))) \<noteq> []
        \<and> (rm_enable (sv_remote (ap_server c)) \<longrightarrow>
             px_listen_addr (sv_proxy (ap_server c)) \<noteq> rm_listen_addr (sv_remote (ap_server c))))
    \<and> list_all gateway_fields_ok (ap_gateways c) \<and> distinct (map gc_name (ap_gateways c))
    \<and> (\<forall>n. FallbackGateway n \<in> set (sh_fallback (ap_ssh c)) \<longrightarrow> n = ''local'' \<or> n \<in> set (map gc_name (ap_gateways c)))
    \<and> (rv_enable (ap_reverse_proxy c) \<longrightarrow>
        trim (rv_server_address (ap_reverse_proxy c)) \<noteq> [] \<and> trim (rv_node_name (ap_reverse_proxy c)) \<noteq> []
        \<and> trim (rv_identity_file (ap_reverse_proxy c)) \<noteq> [] \<and> trim (rv_known_hosts_path (ap_reverse_proxy c)) \<noteq> [])"
proof -
  have v: "validate_app c = None" using load_app_config_valid[OF assms] by blast
  then have "validate_server (ap_server c) = None" "validate_gateways (ap_gateways c) = None"
    "validate_fallback_references (sh_fallback (ap_ssh c)) (ap_gateways c) = None"
    "validate_reverse_proxy (ap_reverse_proxy c) = None"
    by (simp_all add: validate_app_def first_error_None)
  then show ?thesis
    unfolding validate_gateways_None validate_fallback_None
    by (auto simp: validation_simps split: if_splits local_transport.splits)
qed

lemma home_expands:
  obtains f where "\<And>v. expand_tilde (Some h) v = Some (f v)" "\<And>v. CHR ''x'' \<in> set v \<Longrightarrow> trim (f v) \<noteq> []"
proof -
  have "\<forall>v. \<exists>p. expand_tilde (Some h) v = Some p" by (auto simp: expand_tilde_def split: option.split)
  then obtain f where f: "\<And>v. expand_tilde (Some h) v = Some (f v)" by metis
  moreover have "trim (f v) \<noteq> []" if "CHR ''x'' \<in> set v" for v
    by (rule trim_expanded[OF f that]) (simp_all add: ws_byte_def)
  ultimately show thesis using that by blast
qed

lemmas expand_defs =
  expand_paths_def expand_local_server_def expand_remote_server_def expand_proxy_server_def
  expand_reverse_proxy_def expand_opt_def

lemmas default_defs =
  default_app_config_def default_server_config_def default_local_server_def default_remote_server_def
  default_proxy_server_def default_reverse_proxy_client_def default_ssh_config_def default_audit_config_def

lemma default_expands:
  "\<exists>c. expand_paths (Some h) ((default_app_config root)\<lparr>ap_config_dir := d\<rparr>) = Some c \<and> validate_app c = None"
proof -
  obtain f where f: "\<And>v. expand_tilde (Some h) v = Some (f v)" "\<And>v. CHR ''x'' \<in> set v \<Longrightarrow> trim (f v) \<noteq> []"
    using home_expands by blast
  have x: "CHR ''x'' \<in> set (default_socket_path root)" by (simp add: default_socket_path_def)
  show ?thesis
    by (simp add: expand_defs f(1)) (simp add: default_defs validation_simps default_listeners validate_gateways_def f(2) x)
qed

text \<open>Without a configuration file the daemon starts with the defaults, if there is a home directory.\<close>

theorem default_config_loads:
  "(\<exists>c. load_app_config from_toml home root path (\<lambda>_. Absent) = Inr c) \<longleftrightarrow> home \<noteq> None"
proof (cases home)
  case None
  then show ?thesis
    by (auto simp: load_app_config_def Let_def expand_paths_def bind_eq_Some_conv default_app_config_def
        default_ssh_config_def expand_tilde_def split: option.splits)
next
  case (Some h)
  with default_expands[of h "parent_dir (case path of Some p \<Rightarrow> p | None \<Rightarrow> default_config_path (Some h))" root]
  show ?thesis by (auto simp: load_app_config_def Let_def)
qed

theorem loaded_config_runs_witness:
  "\<exists>c. load_app_config (\<lambda>_. None) (Some ''/h'') False None (\<lambda>_. Absent) = Inr c
    \<and> (lo_enable (sv_local (ap_server c)) \<or> rm_enable (sv_remote (ap_server c)) \<or> px_enable (sv_proxy (ap_server c)))"
proof -
  obtain c where c: "load_app_config (\<lambda>_. None) (Some ''/h'') False None (\<lambda>_. Absent) = Inr c"
    using default_config_loads[of "\<lambda>_. None" "Some ''/h''" False None] by auto
  from c loaded_config_runs[OF c] show ?thesis by blast
qed

end
