(* ===== verification/Secret_Vault.thy ===== *)
theory Secret_Vault
  imports App_Config Pty_Shell
begin

text \<open>
  The encrypted vault (\<^verbatim>\<open>secret/vault.rs\<close>) and the references to secrets in configuration files
  (\<^verbatim>\<open>config/secret.rs\<close>).

  The cipher, the key derivation, the identity files, base64 and TOML are arguments, with what the code relies
  on in \<^verbatim>\<open>crypto_laws\<close>.  Random bytes are a function of the number of draws.  The local file system is a \<^verbatim>\<open>disk\<close>: its files, and
  what becomes of the calls to come.  A call that fails may have written the beginning of its data.
\<close>

section \<open>The disk\<close>

datatype fault = NoFault | FailsBefore | FailsAfter nat

record disk =
  dk_files :: "local_path \<Rightarrow> string option"
  dk_faults :: "fault list"

definition next_fault :: "disk \<Rightarrow> fault \<times> disk" where
  "next_fault d = (case dk_faults d of [] \<Rightarrow> (NoFault, d) | f # fs \<Rightarrow> (f, d\<lparr>dk_faults := fs\<rparr>))"

definition put_file :: "local_path \<Rightarrow> string option \<Rightarrow> disk \<Rightarrow> disk" where
  "put_file p c d = d\<lparr>dk_files := (dk_files d)(p := c)\<rparr>"

text \<open>\<^verbatim>\<open>read_to_string\<close>; a file that is no UTF-8 is one of the failures.\<close>

definition fs_read :: "local_path \<Rightarrow> disk \<Rightarrow> string option \<times> disk" where
  "fs_read p d = (case next_fault d of (NoFault, d) \<Rightarrow> (dk_files d p, d) | (_, d) \<Rightarrow> (None, d))"

definition fs_write :: "local_path \<Rightarrow> string \<Rightarrow> disk \<Rightarrow> bool \<times> disk" where
  "fs_write p c d =
    (case next_fault d of
       (NoFault, d) \<Rightarrow> (True, put_file p (Some c) d)
     | (FailsBefore, d) \<Rightarrow> (False, d)
     | (FailsAfter n, d) \<Rightarrow> (False, put_file p (Some (take n c)) d))"

definition fs_copy :: "local_path \<Rightarrow> local_path \<Rightarrow> disk \<Rightarrow> bool \<times> disk" where
  "fs_copy p q d =
    (case dk_files d p of
       None \<Rightarrow> (False, snd (next_fault d))
     | Some c \<Rightarrow> fs_write q c d)"

definition fs_rename :: "local_path \<Rightarrow> local_path \<Rightarrow> disk \<Rightarrow> bool \<times> disk" where
  "fs_rename p q d =
    (case next_fault d of
       (NoFault, d) \<Rightarrow>
         (case dk_files d p of
            None \<Rightarrow> (False, d)
          | Some c \<Rightarrow> (True, put_file q (Some c) (if p = q then d else put_file p None d)))
     | (_, d) \<Rightarrow> (False, d))"

text \<open>Calls that do not change the contents of a file: creating directories, setting permissions.\<close>

definition fs_touch :: "disk \<Rightarrow> bool \<times> disk" where
  "fs_touch d = (case next_fault d of (NoFault, d) \<Rightarrow> (True, d) | (_, d) \<Rightarrow> (False, d))"

definition path_exists :: "local_path \<Rightarrow> disk \<Rightarrow> bool" where
  "path_exists p d \<longleftrightarrow> dk_files d p \<noteq> None"

definition read_state :: "local_path \<Rightarrow> disk \<Rightarrow> file_state \<times> disk" where
  "read_state p d =
    (if \<not> path_exists p d then (Absent, d)
     else (case fs_read p d of (Some c, d) \<Rightarrow> (Contents c, d) | (None, d) \<Rightarrow> (Unreadable, d)))"

text \<open>A file is written beside its place and renamed.\<close>

definition temp_beside :: "string \<Rightarrow> local_path \<Rightarrow> local_path option" where
  "temp_beside fallback p =
    map_option (\<lambda>dir. path_push dir (''.'' @ (case file_name p of Some n \<Rightarrow> n | None \<Rightarrow> fallback) @ ''.tmp''))
      (parent_dir p)"

section \<open>The vault\<close>

record vault_header =
  vh_version :: nat
  vh_kdf :: string
  vh_aead :: string
  vh_salt :: string
  vh_fingerprint :: string

record vault_entry =
  ve_nonce :: string
  ve_ciphertext :: string

record vault_file =
  vf_header :: vault_header
  vf_entries :: "(string \<times> vault_entry) list"

record vault =
  vt_path :: local_path
  vt_file :: vault_file

type_synonym bytes = "u8 list"

record crypto =
  cy_fingerprint :: "string \<Rightarrow> string option"
  cy_ikm :: "string \<Rightarrow> bytes option"
  cy_hkdf :: "bytes \<Rightarrow> bytes \<Rightarrow> string \<Rightarrow> bytes option"
  cy_encrypt :: "bytes \<Rightarrow> bytes \<Rightarrow> string \<Rightarrow> bytes option"
  cy_decrypt :: "bytes \<Rightarrow> bytes \<Rightarrow> bytes \<Rightarrow> string option"
  cy_b64 :: "bytes \<Rightarrow> string"
  cy_unb64 :: "string \<Rightarrow> bytes option"
  cy_show :: "vault_file \<Rightarrow> string option"
  cy_parse :: "string \<Rightarrow> vault_file option"
  cy_random :: "nat \<Rightarrow> nat \<Rightarrow> u8"
  cy_home :: "string option"

definition HKDF_INFO :: string where "HKDF_INFO = ''xho-vault:xchacha20poly1305:v1''"

definition valid_utf8 :: "string \<Rightarrow> bool" where
  "valid_utf8 s \<longleftrightarrow> from_utf8_lossy s = s"

definition fill_bytes :: "crypto \<Rightarrow> nat \<Rightarrow> nat \<Rightarrow> bytes" where
  "fill_bytes cy k len = map (cy_random cy k) [0..<len]"

text \<open>\<^verbatim>\<open>identity_fingerprint\<close> and \<^verbatim>\<open>identity_ikm\<close>: both load the identity from the expanded path.  Loading it is a
  function of the path: it takes none of the faults of the disk, and a file that cannot be loaded is one for which the function gives nothing.\<close>

definition identity_fingerprint :: "crypto \<Rightarrow> string \<Rightarrow> string + string" where
  "identity_fingerprint cy key_source =
    (case Option.bind (expand_tilde (cy_home cy) key_source) (cy_fingerprint cy) of
       Some f \<Rightarrow> Inr f | None \<Rightarrow> Inl ''failed to load identity'')"

definition identity_ikm :: "crypto \<Rightarrow> string \<Rightarrow> string + bytes" where
  "identity_ikm cy key_source =
    (case Option.bind (expand_tilde (cy_home cy) key_source) (cy_ikm cy) of
       Some m \<Rightarrow> Inr m | None \<Rightarrow> Inl ''failed to load identity'')"

definition vault_open :: "crypto \<Rightarrow> local_path \<Rightarrow> disk \<Rightarrow> (string + vault) \<times> disk" where
  "vault_open cy path d =
    (if \<not> path_exists path d then (Inl ''vault does not exist'', d)
     else (case fs_read path d of
             (None, d) \<Rightarrow> (Inl ''failed to read vault'', d)
           | (Some raw, d) \<Rightarrow>
               (case cy_parse cy raw of
                  None \<Rightarrow> Inl ''failed to parse vault''
                | Some file \<Rightarrow>
                    if vh_version (vf_header file) \<noteq> 1 then Inl ''unsupported vault version''
                    else Inr \<lparr>vt_path = path, vt_file = file\<rparr>, d)))"

text \<open>The salt is drawn first; the number of draws is threaded through.\<close>

definition vault_open_or_init :: "crypto \<Rightarrow> local_path \<Rightarrow> string \<Rightarrow> nat \<Rightarrow> disk \<Rightarrow> (string + vault) \<times> nat \<times> disk" where
  "vault_open_or_init cy path key_source k d =
    (if path_exists path d then (case vault_open cy path d of (r, d) \<Rightarrow> (r, k, d))
     else
       (case identity_fingerprint cy key_source of
          Inl e \<Rightarrow> Inl e
        | Inr fp \<Rightarrow>
            Inr \<lparr>vt_path = path,
                 vt_file = \<lparr>vf_header = \<lparr>vh_version = 1, vh_kdf = ''hkdf-sha256'', vh_aead = ''xchacha20poly1305'',
                   vh_salt = cy_b64 cy (fill_bytes cy k 32), vh_fingerprint = fp\<rparr>, vf_entries = []\<rparr>\<rparr>,
        k + 1, d))"

definition vault_list :: "vault \<Rightarrow> string list" where
  "vault_list v = sort (map fst (vf_entries (vt_file v)))"

definition vault_contains :: "vault \<Rightarrow> string \<Rightarrow> bool" where
  "vault_contains v name \<longleftrightarrow> map_of (vf_entries (vt_file v)) name \<noteq> None"

definition derive_key :: "crypto \<Rightarrow> vault \<Rightarrow> string \<Rightarrow> string + bytes" where
  "derive_key cy v key_source =
    (case identity_fingerprint cy key_source of
       Inl e \<Rightarrow> Inl e
     | Inr fp \<Rightarrow>
         if fp \<noteq> vh_fingerprint (vf_header (vt_file v)) then Inl ''identity file does not match''
         else (case cy_unb64 cy (vh_salt (vf_header (vt_file v))) of
                 None \<Rightarrow> Inl ''vault salt is not valid base64''
               | Some salt \<Rightarrow>
                   (case identity_ikm cy key_source of
                      Inl e \<Rightarrow> Inl e
                    | Inr ikm \<Rightarrow>
                        (case cy_hkdf cy salt ikm HKDF_INFO of
                           None \<Rightarrow> Inl ''HKDF expand failed'' | Some key \<Rightarrow> Inr key))))"

definition vault_get :: "crypto \<Rightarrow> vault \<Rightarrow> string \<Rightarrow> string \<Rightarrow> string + string" where
  "vault_get cy v name key_source =
    (case map_of (vf_entries (vt_file v)) name of
       None \<Rightarrow> Inl ''vault has no entry''
     | Some entry \<Rightarrow>
         (case derive_key cy v key_source of
            Inl e \<Rightarrow> Inl e
          | Inr key \<Rightarrow>
              (case cy_unb64 cy (ve_nonce entry) of
                 None \<Rightarrow> Inl ''vault entry nonce is not valid base64''
               | Some nonce \<Rightarrow>
                   if length nonce \<noteq> 24 then Inl ''vault entry has an invalid nonce length''
                   else (case cy_unb64 cy (ve_ciphertext entry) of
                           None \<Rightarrow> Inl ''vault entry ciphertext is not valid base64''
                         | Some ct \<Rightarrow>
                             (case cy_decrypt cy key nonce ct of
                                None \<Rightarrow> Inl ''failed to decrypt vault entry''
                              | Some text \<Rightarrow>
                                  if valid_utf8 text then Inr text
                                  else Inl ''vault entry did not decrypt to valid UTF-8'')))))"

definition vault_set :: "crypto \<Rightarrow> string \<Rightarrow> string \<Rightarrow> string \<Rightarrow> nat \<Rightarrow> vault \<Rightarrow> (string + vault) \<times> nat" where
  "vault_set cy name plaintext key_source k v =
    (case derive_key cy v key_source of
       Inl e \<Rightarrow> (Inl e, k)
     | Inr key \<Rightarrow>
         (let nonce = fill_bytes cy k 24
          in case cy_encrypt cy key nonce plaintext of
               None \<Rightarrow> Inl ''failed to encrypt vault entry''
             | Some ct \<Rightarrow>
                 Inr (v\<lparr>vt_file := (vt_file v)\<lparr>vf_entries :=
                   al_put name \<lparr>ve_nonce = cy_b64 cy nonce, ve_ciphertext = cy_b64 cy ct\<rparr> (vf_entries (vt_file v))\<rparr>\<rparr>),
             k + 1))"

fun vault_set_all ::
  "crypto \<Rightarrow> (string \<times> string) list \<Rightarrow> string \<Rightarrow> nat \<Rightarrow> vault \<Rightarrow> (string + vault) \<times> nat" where
  "vault_set_all cy [] key_source k v = (Inr v, k)"
| "vault_set_all cy ((name, plaintext) # ps) key_source k v =
    (case vault_set cy name plaintext key_source k v of
       (Inl e, k) \<Rightarrow> (Inl e, k)
     | (Inr v, k) \<Rightarrow> vault_set_all cy ps key_source k v)"

fun vault_get_all :: "crypto \<Rightarrow> vault \<Rightarrow> string list \<Rightarrow> string \<Rightarrow> string + (string \<times> string) list" where
  "vault_get_all cy v [] key_source = Inr []"
| "vault_get_all cy v (n # ns) key_source =
    (case vault_get cy v n key_source of
       Inl e \<Rightarrow> Inl e
     | Inr p \<Rightarrow> (case vault_get_all cy v ns key_source of Inl e \<Rightarrow> Inl e | Inr ps \<Rightarrow> Inr ((n, p) # ps)))"

definition vault_rekey :: "crypto \<Rightarrow> string \<Rightarrow> string \<Rightarrow> nat \<Rightarrow> vault \<Rightarrow> (string + vault) \<times> nat" where
  "vault_rekey cy old_source new_source k v =
    (case vault_get_all cy v (vault_list v) old_source of
       Inl e \<Rightarrow> (Inl e, k)
     | Inr plaintexts \<Rightarrow>
         (case identity_fingerprint cy new_source of
            Inl e \<Rightarrow> (Inl e, k + 1)
          | Inr fp \<Rightarrow>
              vault_set_all cy plaintexts new_source (k + 1)
                (v\<lparr>vt_file := \<lparr>vf_header = (vf_header (vt_file v))\<lparr>vh_salt := cy_b64 cy (fill_bytes cy k 32), vh_fingerprint := fp\<rparr>,
                               vf_entries = []\<rparr>\<rparr>)))"

definition write_file_secure :: "local_path \<Rightarrow> string \<Rightarrow> disk \<Rightarrow> string option \<times> disk" where
  "write_file_secure path bytes d =
    (case temp_beside ''secrets'' path of
       None \<Rightarrow> (Some ''vault path has no parent directory'', d)
     | Some tmp \<Rightarrow>
         (case fs_write tmp bytes d of
            (False, d) \<Rightarrow> (Some ''failed to write'', d)
          | (True, d) \<Rightarrow>
              (case fs_touch d of
                 (False, d) \<Rightarrow> (Some ''failed to set permissions'', d)
               | (True, d) \<Rightarrow>
                   (case fs_rename tmp path d of
                      (False, d) \<Rightarrow> (Some ''failed to replace'', d)
                    | (True, d) \<Rightarrow> (None, d)))))"

definition vault_save :: "crypto \<Rightarrow> vault \<Rightarrow> disk \<Rightarrow> string option \<times> disk" where
  "vault_save cy v d =
    (case (case parent_dir (vt_path v) of Some _ \<Rightarrow> fs_touch d | None \<Rightarrow> (True, d)) of
       (False, d) \<Rightarrow> (Some ''failed to create directory'', d)
     | (True, d) \<Rightarrow>
         (case cy_show cy (vt_file v) of
            None \<Rightarrow> (Some ''failed to serialize vault'', d)
          | Some s \<Rightarrow> write_file_secure (vt_path v) s d))"

section \<open>References\<close>

datatype secret_source = LiteralSecret string | EnvSecret string | FileSecret string | VaultSecret string

definition from_reference :: "string \<Rightarrow> secret_source" where
  "from_reference raw =
    (case strip_prefix ''env:'' raw of
       Some name \<Rightarrow> EnvSecret name
     | None \<Rightarrow>
         (case strip_prefix ''file:'' raw of
            Some path \<Rightarrow> FileSecret path
          | None \<Rightarrow>
              (case strip_prefix ''vault:'' raw of Some name \<Rightarrow> VaultSecret name | None \<Rightarrow> LiteralSecret raw)))"

fun to_reference :: "secret_source \<Rightarrow> string" where
  "to_reference (LiteralSecret v) = v"
| "to_reference (EnvSecret n) = ''env:'' @ n"
| "to_reference (FileSecret p) = ''file:'' @ p"
| "to_reference (VaultSecret n) = ''vault:'' @ n"

fun is_plaintext :: "secret_source \<Rightarrow> bool" where
  "is_plaintext (LiteralSecret _) = True"
| "is_plaintext _ = False"

fun literal_value :: "secret_source \<Rightarrow> string option" where
  "literal_value (LiteralSecret v) = Some v"
| "literal_value _ = None"

fun show_secret :: "secret_source \<Rightarrow> string" where
  "show_secret (LiteralSecret _) = ''<plaintext secret>''"
| "show_secret s = to_reference s"

definition trim_newlines :: "string \<Rightarrow> string" where
  "trim_newlines s = rev (dropWhile (\<lambda>c. c = CHR 0x0A \<or> c = CHR 0x0D) (rev s))"

definition resolve_vault :: "crypto \<Rightarrow> secret_resolver \<Rightarrow> string \<Rightarrow> disk \<Rightarrow> (string + string) \<times> disk" where
  "resolve_vault cy rs name d =
    (case sr_key_source rs of
       None \<Rightarrow> (Inl ''secret requires an identity file'', d)
     | Some key_source \<Rightarrow>
         (case vault_open cy (case sr_vault_path rs of Some p \<Rightarrow> p | None \<Rightarrow> default_vault_path (cy_home cy)) d of
            (Inl e, d) \<Rightarrow> (Inl e, d)
          | (Inr v, d) \<Rightarrow> (vault_get cy v name key_source, d)))"

fun resolve_secret ::
  "crypto \<Rightarrow> (string \<Rightarrow> string option) \<Rightarrow> secret_resolver \<Rightarrow> secret_source \<Rightarrow> disk \<Rightarrow> (string + string) \<times> disk" where
  "resolve_secret cy env rs (LiteralSecret v) d = (Inr v, d)"
| "resolve_secret cy env rs (EnvSecret n) d =
    (case env n of Some v \<Rightarrow> Inr v | None \<Rightarrow> Inl ''secret references env var which is not set'', d)"
| "resolve_secret cy env rs (FileSecret p) d =
    (case fs_read (components p) d of
       (Some raw, d) \<Rightarrow> (Inr (trim_newlines raw), d) | (None, d) \<Rightarrow> (Inl ''failed to read secret file'', d))"
| "resolve_secret cy env rs (VaultSecret n) d = resolve_vault cy rs n d"

section \<open>What the code relies on\<close>

definition crypto_laws :: "crypto \<Rightarrow> bool" where
  "crypto_laws cy \<longleftrightarrow>
    (\<forall>bs. cy_unb64 cy (cy_b64 cy bs) = Some bs)
    \<and> (\<forall>key nonce pt ct. cy_encrypt cy key nonce pt = Some ct \<longrightarrow> cy_decrypt cy key nonce ct = Some pt)
    \<and> (\<forall>f s. cy_show cy f = Some s \<longrightarrow> cy_parse cy s = Some f)"

lemma crypto_lawsD:
  assumes "crypto_laws cy"
  shows "cy_unb64 cy (cy_b64 cy bs) = Some bs"
    and "cy_encrypt cy key nonce pt = Some ct \<Longrightarrow> cy_decrypt cy key nonce ct = Some pt"
    and "cy_show cy f = Some s \<Longrightarrow> cy_parse cy s = Some f"
  using assms by (auto simp: crypto_laws_def)

section \<open>The file system\<close>

lemma put_file_files [simp]: "dk_files (put_file p c d) q = (if q = p then c else dk_files d q)"
  by (simp add: put_file_def)

lemma next_fault_files [simp]: "dk_files (snd (next_fault d)) = dk_files d"
  by (simp add: next_fault_def split: list.split)

lemma next_fault_dest: "next_fault d = (f, d') \<Longrightarrow> dk_files d' = dk_files d"
  using next_fault_files[of d] by simp

lemma fs_read_files: "fs_read p d = (r, d') \<Longrightarrow> dk_files d' = dk_files d \<and> (r = dk_files d p \<or> r = None)"
  by (auto simp: fs_read_def dest: next_fault_dest split: prod.splits fault.splits)

lemma read_state_files: "read_state p d = (st, d') \<Longrightarrow> dk_files d' = dk_files d \<and>
    (case st of Absent \<Rightarrow> dk_files d p = None | Unreadable \<Rightarrow> True | Contents c \<Rightarrow> dk_files d p = Some c)"
  by (auto simp: read_state_def path_exists_def dest: fs_read_files split: if_splits prod.splits option.splits)

lemma fs_write_files:
  "fs_write p c d = (ok, d') \<Longrightarrow> (\<forall>q. q \<noteq> p \<longrightarrow> dk_files d' q = dk_files d q) \<and> (ok \<longrightarrow> dk_files d' p = Some c)"
  by (auto simp: fs_write_def dest: next_fault_dest split: prod.splits fault.splits)

lemma fs_copy_files:
  "fs_copy p q d = (ok, d') \<Longrightarrow> (\<forall>r. r \<noteq> q \<longrightarrow> dk_files d' r = dk_files d r) \<and> (ok \<longrightarrow> dk_files d' q = dk_files d p)"
  by (auto simp: fs_copy_def dest: fs_write_files split: option.splits)

lemma fs_rename_files:
  assumes "fs_rename p q d = (ok, d')" "p \<noteq> q"
  shows "if ok then dk_files d' = (dk_files d)(q := dk_files d p, p := None) \<and> dk_files d p \<noteq> None
    else dk_files d' = dk_files d"
  using assms
  by (auto simp: fs_rename_def put_file_def fun_upd_twist dest: next_fault_dest split: prod.splits fault.splits option.splits)

lemma fs_touch_files: "fs_touch d = (ok, d') \<Longrightarrow> dk_files d' = dk_files d"
  by (auto simp: fs_touch_def dest: next_fault_dest split: prod.splits fault.splits)

text \<open>A path that ends in the name of a file.\<close>

definition names_file :: "local_path \<Rightarrow> bool" where
  "names_file p \<longleftrightarrow> p \<noteq> [] \<and> (case last p of Normal n \<Rightarrow> n \<noteq> [] \<and> CHR ''/'' \<notin> set n | _ \<Rightarrow> False)"

lemma components_one: "CHR ''/'' \<notin> set n \<Longrightarrow> 2 < length n \<Longrightarrow> components n = [Normal n]"
  by (auto simp: components_def name_component_def split_on_id starts_with_iff)

lemma path_push_long_name: "CHR ''/'' \<notin> set n \<Longrightarrow> 2 < length n \<Longrightarrow> path_push p n = p @ [Normal n]"
  by (auto simp: path_push_def components_one starts_with_iff)

lemma temp_beside_name:
  assumes "names_file p"
  shows "\<exists>n. last p = Normal n \<and> temp_beside fb p = Some (butlast p @ [Normal (''.'' @ n @ ''.tmp'')])"
proof -
  obtain n where n: "last p = Normal n" "CHR ''/'' \<notin> set n" "n \<noteq> []" "p \<noteq> []"
    using assms by (auto simp: names_file_def split: component.splits)
  then show ?thesis
    using path_push_long_name[of "''.'' @ n @ ''.tmp''" "butlast p"]
    by (simp add: temp_beside_def parent_dir_def file_name_def list_last_def)
qed

definition temp_of :: "local_path \<Rightarrow> local_path" where
  "temp_of p = (case last p of Normal n \<Rightarrow> butlast p @ [Normal (''.'' @ n @ ''.tmp'')] | _ \<Rightarrow> p)"

lemma temp_beside_of: "names_file p \<Longrightarrow> temp_beside fb p = Some (temp_of p)"
  using temp_beside_name[of p fb] by (auto simp: temp_of_def)

lemma temp_of_neq: "names_file p \<Longrightarrow> temp_of p \<noteq> p"
proof
  assume p: "names_file p" "temp_of p = p"
  then obtain n where "last p = Normal n" by (auto simp: names_file_def split: component.splits)
  with p(2) have "last (butlast p @ [Normal (''.'' @ n @ ''.tmp'')]) = Normal n" by (simp add: temp_of_def)
  then have "length (''.'' @ n @ ''.tmp'') = length n" by (metis component.inject(2) last_snoc)
  then show False by simp
qed

lemma write_file_secure_files:
  assumes "write_file_secure p c d = (r, d')" "names_file p"
  shows "(\<forall>q. q \<noteq> p \<and> q \<noteq> temp_of p \<longrightarrow> dk_files d' q = dk_files d q)
    \<and> dk_files d' p = (if r = None then Some c else dk_files d p)"
proof -
  note neq = temp_of_neq[OF assms(2)]
  obtain ok1 d1 where w: "fs_write (temp_of p) c d = (ok1, d1)" by (meson surj_pair)
  obtain ok2 d2 where t: "fs_touch d1 = (ok2, d2)" by (meson surj_pair)
  obtain ok3 d3 where m: "fs_rename (temp_of p) p d2 = (ok3, d3)" by (meson surj_pair)
  from fs_write_files[OF w] fs_touch_files[OF t] fs_rename_files[OF m neq] neq assms
  show ?thesis
    by (auto simp: write_file_secure_def temp_beside_of w t m split: bool.splits if_splits)
qed

section \<open>Entries\<close>

lemma derive_key_header:
  assumes "vf_header (vt_file v') = vf_header (vt_file v)"
  shows "derive_key cy v' src = derive_key cy v src"
  unfolding derive_key_def assms by (rule refl)

lemma vault_get_entry:
  assumes "vf_header (vt_file v') = vf_header (vt_file v)"
    "map_of (vf_entries (vt_file v')) n = map_of (vf_entries (vt_file v)) n"
  shows "vault_get cy v' n src = vault_get cy v n src"
  unfolding vault_get_def assms(2) derive_key_header[OF assms(1)] by (rule refl)

lemma fill_bytes_length [simp]: "length (fill_bytes cy k n) = n"
  by (simp add: fill_bytes_def)

lemma vault_set_works:
  assumes "crypto_laws cy" "vault_set cy name pt src k v = (Inr v', k')" "valid_utf8 pt"
  shows "vault_get cy v' name src = Inr pt"
    and "n \<noteq> name \<Longrightarrow> vault_get cy v' n src' = vault_get cy v n src'"
    and "vt_path v' = vt_path v" "vf_header (vt_file v') = vf_header (vt_file v)"
    and "vault_contains v' n \<longleftrightarrow> n = name \<or> vault_contains v n"
proof -
  obtain key ct where k: "derive_key cy v src = Inr key" "cy_encrypt cy key (fill_bytes cy k 24) pt = Some ct"
    and v': "v' = v\<lparr>vt_file := (vt_file v)\<lparr>vf_entries := al_put name
      \<lparr>ve_nonce = cy_b64 cy (fill_bytes cy k 24), ve_ciphertext = cy_b64 cy ct\<rparr> (vf_entries (vt_file v))\<rparr>\<rparr>"
    using assms(2) by (auto simp: vault_set_def Let_def split: sum.splits option.splits)
  show "vault_get cy v' name src = Inr pt"
    using k assms(3) crypto_lawsD[OF assms(1)] derive_key_header[of v' v cy src] by (simp add: v' vault_get_def)
  show "n \<noteq> name \<Longrightarrow> vault_get cy v' n src' = vault_get cy v n src'"
    by (rule vault_get_entry) (simp_all add: v')
  show "vt_path v' = vt_path v" "vf_header (vt_file v') = vf_header (vt_file v)"
    "vault_contains v' n \<longleftrightarrow> n = name \<or> vault_contains v n"
    by (simp_all add: v' vault_contains_def)
qed

lemma vault_get_all_ok:
  assumes "vault_get_all cy v ns src = Inr ps"
  shows "map fst ps = ns \<and> (\<forall>(n, pt) \<in> set ps. vault_get cy v n src = Inr pt \<and> valid_utf8 pt)"
  using assms
proof (induction ns arbitrary: ps)
  case (Cons n ns)
  then obtain pt qs where g: "vault_get cy v n src = Inr pt" "vault_get_all cy v ns src = Inr qs" "ps = (n, pt) # qs"
    by (auto split: sum.splits)
  have "valid_utf8 pt" using g(1) by (auto simp: vault_get_def split: option.splits sum.splits if_splits)
  with Cons.IH[OF g(2)] g show ?case by auto
qed simp

lemma vault_set_all_works:
  assumes "crypto_laws cy" "vault_set_all cy ps src k v = (Inr v', k')" "\<forall>(n, pt) \<in> set ps. valid_utf8 pt"
  shows "vf_header (vt_file v') = vf_header (vt_file v) \<and> vt_path v' = vt_path v
    \<and> (\<forall>n. vault_contains v' n \<longleftrightarrow> n \<in> fst ` set ps \<or> vault_contains v n)
    \<and> (\<forall>n src'. n \<notin> fst ` set ps \<longrightarrow> vault_get cy v' n src' = vault_get cy v n src')
    \<and> (\<forall>n pt. map_of (rev ps) n = Some pt \<longrightarrow> vault_get cy v' n src = Inr pt)"
  using assms(2,3)
proof (induction ps arbitrary: k v)
  case (Cons p ps)
  obtain n pt where p: "p = (n, pt)" by (cases p)
  from Cons.prems p obtain w l where w: "vault_set cy n pt src k v = (Inr w, l)" "vault_set_all cy ps src l w = (Inr v', k')"
    by (auto split: sum.splits prod.splits)
  from Cons.prems p have u: "valid_utf8 pt" "\<forall>(n, pt) \<in> set ps. valid_utf8 pt" by auto
  note s = vault_set_works[OF assms(1) w(1) u(1)]
  note ih = Cons.IH[OF w(2) u(2)]
  have "vault_get cy v' m src = Inr t" if "map_of (rev (p # ps)) m = Some t" for m t
  proof (cases "map_of (rev ps) m")
    case None
    with that p have "m = n" "t = pt" by (auto simp: map_of_append map_add_def split: option.splits if_splits)
    moreover have "m \<notin> fst ` set ps" using None by (simp add: map_of_eq_None_iff)
    ultimately show ?thesis using ih s(1) by simp
  next
    case (Some t')
    with that p have "t' = t" by (auto simp: map_add_def split: option.splits)
    with Some ih show ?thesis by simp
  qed
  moreover have "vault_get cy v' m src' = vault_get cy v m src'" if "m \<notin> fst ` set (p # ps)" for m src'
  proof -
    from that p have m: "m \<noteq> n" "m \<notin> fst ` set ps" by auto
    from ih m(2) have "vault_get cy v' m src' = vault_get cy w m src'" by blast
    with s(2)[OF m(1)] show ?thesis by simp
  qed
  moreover have "vault_contains v' m \<longleftrightarrow> m \<in> fst ` set (p # ps) \<or> vault_contains v m" for m
    using ih s(5)[of m] p by auto
  ultimately show ?case using ih s(3,4) by simp
qed auto

lemma vault_list_set: "n \<in> set (vault_list v) \<longleftrightarrow> vault_contains v n"
  using map_of_eq_None_iff[of "vf_entries (vt_file v)" n] by (auto simp: vault_list_def vault_contains_def)

lemma vault_rekey_works:
  assumes "crypto_laws cy" "vault_rekey cy old new k v = (Inr v', k')"
  shows "vt_path v' = vt_path v \<and> (\<forall>n. vault_contains v' n \<longleftrightarrow> vault_contains v n)
    \<and> (\<forall>n. vault_contains v n \<longrightarrow> (\<exists>pt. vault_get cy v n old = Inr pt \<and> vault_get cy v' n new = Inr pt))
    \<and> identity_fingerprint cy new = Inr (vh_fingerprint (vf_header (vt_file v')))"
proof -
  from assms(2) obtain ps fp v0 where g: "vault_get_all cy v (vault_list v) old = Inr ps" "identity_fingerprint cy new = Inr fp"
    and v0: "v0 = v\<lparr>vt_file := \<lparr>vf_header = (vf_header (vt_file v))\<lparr>vh_salt := cy_b64 cy (fill_bytes cy k 32), vh_fingerprint := fp\<rparr>,
                               vf_entries = []\<rparr>\<rparr>"
    and s: "vault_set_all cy ps new (k + 1) v0 = (Inr v', k')"
    by (auto simp: vault_rekey_def split: sum.splits)
  from vault_get_all_ok[OF g(1)] have ps: "map fst ps = vault_list v"
    "\<And>n pt. (n, pt) \<in> set ps \<Longrightarrow> vault_get cy v n old = Inr pt \<and> valid_utf8 pt" by auto
  then have names: "fst ` set ps = set (vault_list v)" by (metis set_map)
  have "\<forall>(n, pt) \<in> set ps. valid_utf8 pt" using ps(2) by blast
  note w = vault_set_all_works[OF assms(1) s this]
  have "\<exists>pt. vault_get cy v n old = Inr pt \<and> vault_get cy v' n new = Inr pt" if "vault_contains v n" for n
  proof -
    from that names have "n \<in> fst ` set (rev ps)" by (simp add: vault_list_set)
    then obtain pt where t: "map_of (rev ps) n = Some pt" by (metis map_of_eq_None_iff option.exhaust)
    then have "(n, pt) \<in> set ps" by (auto dest: map_of_SomeD)
    with ps(2) t w show ?thesis by blast
  qed
  moreover have "\<not> vault_contains v0 n" for n by (simp add: v0 vault_contains_def)
  ultimately show ?thesis using w names g(2) by (auto simp: v0 vault_list_set)
qed

section \<open>Storing the vault\<close>

lemma vault_save_files:
  assumes "vault_save cy v d = (r, d')" "names_file (vt_path v)"
  shows "(\<forall>q. q \<noteq> vt_path v \<and> q \<noteq> temp_of (vt_path v) \<longrightarrow> dk_files d' q = dk_files d q)
    \<and> dk_files d' (vt_path v) = (if r = None then cy_show cy (vt_file v) else dk_files d (vt_path v))
    \<and> (r = None \<longrightarrow> cy_show cy (vt_file v) \<noteq> None)"
proof -
  have p: "\<exists>dir. parent_dir (vt_path v) = Some dir"
    using assms(2) by (auto simp: names_file_def parent_dir_def split: component.splits)
  obtain ok d1 where t: "fs_touch d = (ok, d1)" by (meson surj_pair)
  show ?thesis
  proof (cases "ok \<and> cy_show cy (vt_file v) \<noteq> None")
    case False
    with assms p t fs_touch_files[OF t] show ?thesis by (cases ok) (auto simp: vault_save_def split: option.splits)
  next
    case True
    then obtain s where s: "cy_show cy (vt_file v) = Some s" by blast
    with assms p t True have "write_file_secure (vt_path v) s d1 = (r, d')" by (auto simp: vault_save_def)
    from write_file_secure_files[OF this assms(2)] fs_touch_files[OF t] s show ?thesis by auto
  qed
qed

text \<open>What the vault file on the disk gives for a name, without failures of the disk.\<close>

definition stored_secret :: "crypto \<Rightarrow> disk \<Rightarrow> local_path \<Rightarrow> string \<Rightarrow> string \<Rightarrow> string + string" where
  "stored_secret cy d path src name =
    fst (resolve_vault cy \<lparr>sr_vault_path = Some path, sr_key_source = Some src\<rparr> name (d\<lparr>dk_faults := []\<rparr>))"

lemma stored_secret_eq:
  "stored_secret cy d path src name =
    (case dk_files d path of
       None \<Rightarrow> Inl ''vault does not exist''
     | Some raw \<Rightarrow>
         (case cy_parse cy raw of
            None \<Rightarrow> Inl ''failed to parse vault''
          | Some file \<Rightarrow>
              if vh_version (vf_header file) \<noteq> 1 then Inl ''unsupported vault version''
              else vault_get cy \<lparr>vt_path = path, vt_file = file\<rparr> name src))"
  by (auto simp: stored_secret_def resolve_vault_def vault_open_def path_exists_def fs_read_def next_fault_def
      split: option.splits)

lemma stored_secret_saved:
  assumes "crypto_laws cy" "vault_save cy v d = (None, d')" "names_file (vt_path v)" "vh_version (vf_header (vt_file v)) = 1"
  shows "stored_secret cy d' (vt_path v) src name = vault_get cy v name src"
proof -
  from vault_save_files[OF assms(2,3)] obtain s where s: "dk_files d' (vt_path v) = Some s" "cy_show cy (vt_file v) = Some s" by auto
  have "vault_get cy \<lparr>vt_path = vt_path v, vt_file = vt_file v\<rparr> name src = vault_get cy v name src"
    by (rule vault_get_entry) simp_all
  with s crypto_lawsD(3)[OF assms(1) s(2)] assms(4) show ?thesis by (simp add: stored_secret_eq)
qed

lemma reference_roundtrip: "to_reference (from_reference raw) = raw"
  by (auto simp: from_reference_def strip_prefix_Some split: option.splits)

lemma vault_reference: "from_reference (''vault:'' @ n) = VaultSecret n"
  by (simp add: from_reference_def)

section \<open>An instance\<close>

text \<open>A cipher that prepends the key, and a serialisation of vault files.\<close>

fun enc_strings :: "string list \<Rightarrow> string" where
  "enc_strings [] = []"
| "enc_strings ([] # ss) = CHR ''.'' # enc_strings ss"
| "enc_strings ((c # s) # ss) = CHR ''+'' # c # enc_strings (s # ss)"

fun dec_strings :: "string \<Rightarrow> string list" where
  "dec_strings [] = []"
| "dec_strings [m] = [[]]"
| "dec_strings (m # c # r) =
    (if m = CHR ''.'' then [] # dec_strings (c # r)
     else (case dec_strings r of [] \<Rightarrow> [] | s # ss \<Rightarrow> (c # s) # ss))"

lemma dec_enc_strings [simp]: "dec_strings (enc_strings ss) = ss"
proof (induction ss rule: enc_strings.induct)
  case (2 ss)
  then show ?case by (cases "enc_strings ss") auto
qed simp_all

fun entry_strings :: "(string \<times> vault_entry) list \<Rightarrow> string list" where
  "entry_strings [] = []"
| "entry_strings ((n, e) # es) = n # ve_nonce e # ve_ciphertext e # entry_strings es"

fun strings_entries :: "string list \<Rightarrow> (string \<times> vault_entry) list" where
  "strings_entries (n # a # b # ss) = (n, \<lparr>ve_nonce = a, ve_ciphertext = b\<rparr>) # strings_entries ss"
| "strings_entries ss = []"

lemma strings_entry_strings [simp]: "strings_entries (entry_strings es) = es"
  by (induction es rule: entry_strings.induct) auto

definition toy_show :: "vault_file \<Rightarrow> string" where
  "toy_show f = (let h = vf_header f in enc_strings
    (show_nat (vh_version h) # vh_kdf h # vh_aead h # vh_salt h # vh_fingerprint h # entry_strings (vf_entries f)))"

definition toy_parse :: "string \<Rightarrow> vault_file option" where
  "toy_parse s =
    (case dec_strings s of
       v # k # a # salt # fp # ss \<Rightarrow>
         Some \<lparr>vf_header = \<lparr>vh_version = decimal_value v, vh_kdf = k, vh_aead = a, vh_salt = salt, vh_fingerprint = fp\<rparr>,
               vf_entries = strings_entries ss\<rparr>
     | _ \<Rightarrow> None)"

definition toy_crypto :: crypto where
  "toy_crypto =
    \<lparr>cy_fingerprint = (\<lambda>p. Some (''fp:'' @ p)), cy_ikm = (\<lambda>p. Some (bytes_of p)),
     cy_hkdf = (\<lambda>salt ikm info. Some (salt @ ikm)), cy_encrypt = (\<lambda>key nonce t. Some (key @ bytes_of t)),
     cy_decrypt = (\<lambda>key nonce ct. if take (length key) ct = key then Some (string_of (drop (length key) ct)) else None),
     cy_b64 = string_of, cy_unb64 = (\<lambda>s. Some (bytes_of s)), cy_show = (\<lambda>f. Some (toy_show f)), cy_parse = toy_parse,
     cy_random = (\<lambda>k i. of_nat (k + i)), cy_home = Some ''/h''\<rparr>"

lemma toy_parse_show: "toy_parse (toy_show f) = Some f"
  by (simp add: toy_parse_def toy_show_def Let_def)

lemma toy_crypto_laws: "crypto_laws toy_crypto"
  by (simp add: crypto_laws_def toy_crypto_def toy_parse_show)

end
