(* ===== verification/Secret_Migration.thy ===== *)
theory Secret_Migration
  imports Secret_Vault
begin

text \<open>
  The administration of the vault (\<^verbatim>\<open>cli/secret.rs\<close>): storing, listing and re-encrypting entries, and moving the
  plaintext secrets of the configuration files into the vault.

  A TOML document is a tree of items; comments and white space are left out.  Parsing and printing documents
  and the prompt are arguments.  Every call of the file system may fail.
\<close>

section \<open>Documents\<close>

datatype item =
    TStr string
  | TOther
  | TTable "(string \<times> item) list"
  | TInline "(string \<times> item) list"
  | TTables "(string \<times> item) list list"

type_synonym toml_table = "(string \<times> item) list"

fun as_str :: "item \<Rightarrow> string option" where
  "as_str (TStr s) = Some s"
| "as_str _ = None"

fun as_table :: "item \<Rightarrow> toml_table option" where
  "as_table (TTable t) = Some t"
| "as_table _ = None"

fun as_table_like :: "item \<Rightarrow> toml_table option" where
  "as_table_like (TTable t) = Some t"
| "as_table_like (TInline t) = Some t"
| "as_table_like _ = None"

fun as_array_of_tables :: "item \<Rightarrow> toml_table list option" where
  "as_array_of_tables (TTables ts) = Some ts"
| "as_array_of_tables _ = None"

definition str_at :: "toml_table \<Rightarrow> string \<Rightarrow> string option" where
  "str_at t key = Option.bind (map_of t key) as_str"

text \<open>\<^verbatim>\<open>get_mut\<close> on a key, and on an item that is a table, a table-like item or an array of tables.\<close>

definition update_key :: "string \<Rightarrow> (item \<Rightarrow> item) \<Rightarrow> toml_table \<Rightarrow> toml_table" where
  "update_key key f t = map (\<lambda>(k, i). (k, if k = key then f i else i)) t"

fun in_table :: "(toml_table \<Rightarrow> toml_table) \<Rightarrow> item \<Rightarrow> item" where
  "in_table f (TTable t) = TTable (f t)"
| "in_table f i = i"

fun in_table_like :: "(toml_table \<Rightarrow> toml_table) \<Rightarrow> item \<Rightarrow> item" where
  "in_table_like f (TTable t) = TTable (f t)"
| "in_table_like f (TInline t) = TInline (f t)"
| "in_table_like f i = i"

fun in_tables :: "(toml_table \<Rightarrow> toml_table) \<Rightarrow> item \<Rightarrow> item" where
  "in_tables f (TTables ts) = TTables (map f ts)"
| "in_tables f i = i"

definition set_str_preserving_decor :: "string \<Rightarrow> string \<Rightarrow> toml_table \<Rightarrow> toml_table" where
  "set_str_preserving_decor key new_value = update_key key (\<lambda>_. TStr new_value)"

section \<open>Plaintext secrets\<close>

definition is_reference :: "string \<Rightarrow> bool" where
  "is_reference v \<longleftrightarrow> starts_with v ''env:'' \<or> starts_with v ''file:'' \<or> starts_with v ''vault:''"

definition plaintext_at :: "toml_table \<Rightarrow> string \<Rightarrow> string option" where
  "plaintext_at t key = (case str_at t key of Some v \<Rightarrow> if is_reference v then None else Some v | None \<Rightarrow> None)"

definition replace_plaintext :: "string \<Rightarrow> string \<Rightarrow> toml_table \<Rightarrow> toml_table" where
  "replace_plaintext key new_value t =
    (if plaintext_at t key \<noteq> None then set_str_preserving_decor key new_value t else t)"

record found =
  fd_entry :: string
  fd_plaintext :: string
  fd_file :: string

definition find_at :: "string \<Rightarrow> string \<Rightarrow> string option \<Rightarrow> found list" where
  "find_at file entry plaintext =
    (case plaintext of Some p \<Rightarrow> [\<lparr>fd_entry = entry, fd_plaintext = p, fd_file = file\<rparr>] | None \<Rightarrow> [])"


text \<open>The keys of a table are distinct, so the loop over the keys collected first is a pass over the entries.\<close>

definition rewrite_server_secrets :: "toml_table \<Rightarrow> toml_table" where
  "rewrite_server_secrets =
    update_key ''servers'' (in_table (map (\<lambda>(host, entry). (host,
      in_table_like (replace_plaintext ''password'' (''vault:server.'' @ host @ ''.password'')) entry))))"

definition gateway_label :: "toml_table \<Rightarrow> string" where
  "gateway_label gw = (case str_at gw ''name'' of Some n \<Rightarrow> n | None \<Rightarrow> ''unnamed'')"

definition totp_at :: "toml_table \<Rightarrow> string option" where
  "totp_at gw =
    (case str_at gw ''totp_secret_base32'' of
       Some v \<Rightarrow> if v \<noteq> [] \<and> \<not> is_reference v then Some v else None
     | None \<Rightarrow> None)"

definition collect_gateway :: "toml_table \<Rightarrow> found list" where
  "collect_gateway gw =
    (let name = gateway_label gw
     in find_at ''config.toml'' (''gateway.'' @ name @ ''.password'') (plaintext_at gw ''password'')
        @ find_at ''config.toml'' (''gateway.'' @ name @ ''.totp'') (totp_at gw))"

definition collect_review :: "toml_table \<Rightarrow> found list" where
  "collect_review rv =
    find_at ''config.toml'' ''review.api_key'' (plaintext_at rv ''api_key'')
    @ (case Option.bind (map_of rv ''headers'') as_table of
         None \<Rightarrow> []
       | Some headers \<Rightarrow>
           concat (map (\<lambda>(header, _).
             find_at ''config.toml'' (''review.header.'' @ header) (plaintext_at headers header)) headers))"

definition collect_config_secrets :: "toml_table \<Rightarrow> found list" where
  "collect_config_secrets doc =
    (case Option.bind (map_of doc ''review'') as_table of Some rv \<Rightarrow> collect_review rv | None \<Rightarrow> [])
    @ (case Option.bind (map_of doc ''gateways'') as_array_of_tables of
         Some gateways \<Rightarrow> concat (map collect_gateway gateways)
       | None \<Rightarrow> [])"

definition rewrite_headers :: "toml_table \<Rightarrow> toml_table" where
  "rewrite_headers headers =
    map (\<lambda>(header, value).
      (header, if plaintext_at headers header \<noteq> None then TStr (''vault:review.header.'' @ header) else value)) headers"

definition rewrite_review :: "toml_table \<Rightarrow> toml_table" where
  "rewrite_review rv =
    update_key ''headers'' (in_table rewrite_headers)
      (replace_plaintext ''api_key'' ''vault:review.api_key'' rv)"

definition rewrite_gateway :: "toml_table \<Rightarrow> toml_table" where
  "rewrite_gateway gw =
    (let name = gateway_label gw;
         gw = replace_plaintext ''password'' (''vault:gateway.'' @ name @ ''.password'') gw
     in if totp_at gw \<noteq> None
        then set_str_preserving_decor ''totp_secret_base32'' (''vault:gateway.'' @ name @ ''.totp'') gw else gw)"

definition rewrite_config_secrets :: "toml_table \<Rightarrow> toml_table" where
  "rewrite_config_secrets doc =
    update_key ''gateways'' (in_tables rewrite_gateway) (update_key ''review'' (in_table rewrite_review) doc)"

section \<open>Files\<close>

text \<open>\<^verbatim>\<open>Path::extension\<close>, \<^verbatim>\<open>Path::file_stem\<close> and \<^verbatim>\<open>Path::with_extension\<close>.\<close>

definition split_extension :: "string \<Rightarrow> string \<times> string option" where
  "split_extension n =
    (case rsplit_once (CHR ''.'') n of
       Some (a, b) \<Rightarrow> if a = [] then (n, None) else (a, Some b)
     | None \<Rightarrow> (n, None))"

definition path_extension :: "local_path \<Rightarrow> string option" where
  "path_extension p = Option.bind (file_name p) (\<lambda>n. snd (split_extension n))"

definition with_extension :: "string \<Rightarrow> local_path \<Rightarrow> local_path" where
  "with_extension e p =
    (case file_name p of
       None \<Rightarrow> p
     | Some n \<Rightarrow> butlast p @ [Normal (fst (split_extension n) @ (if e = [] then [] else ''.'' @ e))])"

definition backup_path :: "local_path \<Rightarrow> local_path" where
  "backup_path p =
    with_extension ((case path_extension p of Some e \<Rightarrow> e @ ''.'' | None \<Rightarrow> []) @ ''bak'') p"


section \<open>Commands\<close>

record secret_env =
  se_crypto :: crypto
  se_app_toml :: "string \<Rightarrow> app_config option"
  se_server_toml :: "string \<Rightarrow> secret_source server_config_file option"
  se_parse_doc :: "string \<Rightarrow> toml_table option"
  se_show_doc :: "toml_table \<Rightarrow> string"
  se_root :: bool

abbreviation se_home :: "secret_env \<Rightarrow> string option" where
  "se_home se \<equiv> cy_home (se_crypto se)"

definition config_file :: "secret_env \<Rightarrow> local_path option \<Rightarrow> local_path" where
  "config_file se path = (case path of Some p \<Rightarrow> p | None \<Rightarrow> default_config_path (se_home se))"

text \<open>A configuration that cannot be loaded is replaced by the default one.\<close>

definition load_app :: "secret_env \<Rightarrow> local_path option \<Rightarrow> disk \<Rightarrow> app_config \<times> disk" where
  "load_app se path d =
    (case read_state (config_file se path) d of
       (st, d) \<Rightarrow>
         (case load_app_config (se_app_toml se) (se_home se) (se_root se) path (\<lambda>_. st) of
            Inr c \<Rightarrow> c | Inl _ \<Rightarrow> default_app_config (se_root se), d))"

definition server_file :: "app_config \<Rightarrow> local_path" where
  "server_file c = components (sh_server_config_path (ap_ssh c))"

definition load_servers ::
  "secret_env \<Rightarrow> app_config \<Rightarrow> disk \<Rightarrow> (string + secret_source server_config_file) \<times> disk" where
  "load_servers se c d =
    (case read_state (server_file c) d of
       (st, d) \<Rightarrow>
         (case load_server_config (se_server_toml se) (se_home se) st of
            Inl _ \<Rightarrow> Inl ''invalid server configuration'' | Inr sc \<Rightarrow> Inr sc, d))"

definition key_source :: "string option \<Rightarrow> app_config \<Rightarrow> secret_source server_config_file \<Rightarrow> string + string" where
  "key_source home c sc =
    (case st_key_source (ap_secret c) of
       Some k \<Rightarrow> (case expand_tilde home k of Some k \<Rightarrow> Inr k | None \<Rightarrow> Inl ''HOME is not set'')
     | None \<Rightarrow>
         if rm_enable (sv_remote (ap_server c)) then Inr (rm_host_key_path (sv_remote (ap_server c)))
         else (case sd_identity_file (defaults sc) of
                 Some identity \<Rightarrow> Inr identity
               | None \<Rightarrow> Inl ''no vault key source''))"

datatype secret_outcome = Stored bool | Names "string list" | NoVault | Rekeyed | NothingFound | WouldEncrypt "found list" | Encrypted "found list"

definition secret_set ::
  "secret_env \<Rightarrow> local_path option \<Rightarrow> string \<Rightarrow> string option \<Rightarrow> nat \<Rightarrow> disk \<Rightarrow> (string + secret_outcome) \<times> nat \<times> disk" where
  "secret_set se path name prompt k d =
    (case load_app se path d of
       (c, d) \<Rightarrow>
         (case load_servers se c d of
            (Inl e, d) \<Rightarrow> (Inl e, k, d)
          | (Inr sc, d) \<Rightarrow>
              (case key_source (se_home se) c sc of
                 Inl e \<Rightarrow> (Inl e, k, d)
               | Inr key \<Rightarrow>
                   (case prompt of
                      None \<Rightarrow> (Inl ''prompt failed'', k, d)
                    | Some value \<Rightarrow>
                        if value = [] then (Inl ''empty secret; nothing stored'', k, d)
                        else (case vault_open_or_init (se_crypto se) (vault_path (se_home se) c) key k d of
                                (Inl e, k, d) \<Rightarrow> (Inl e, k, d)
                              | (Inr v, k, d) \<Rightarrow>
                                  (case vault_set (se_crypto se) name value key k v of
                                     (Inl e, k) \<Rightarrow> (Inl e, k, d)
                                   | (Inr v', k) \<Rightarrow>
                                       (case vault_save (se_crypto se) v' d of
                                          (Some e, d) \<Rightarrow> (Inl e, k, d)
                                        | (None, d) \<Rightarrow> (Inr (Stored (vault_contains v name)), k, d))))))))"

definition secret_list :: "secret_env \<Rightarrow> local_path option \<Rightarrow> disk \<Rightarrow> (string + secret_outcome) \<times> disk" where
  "secret_list se path d =
    (case load_app se path d of
       (c, d) \<Rightarrow>
         if \<not> path_exists (vault_path (se_home se) c) d then (Inr NoVault, d)
         else (case vault_open (se_crypto se) (vault_path (se_home se) c) d of
                 (Inl e, d) \<Rightarrow> (Inl e, d)
               | (Inr v, d) \<Rightarrow> (Inr (Names (vault_list v)), d)))"

definition secret_rekey ::
  "secret_env \<Rightarrow> local_path option \<Rightarrow> string \<Rightarrow> string \<Rightarrow> nat \<Rightarrow> disk \<Rightarrow> (string + secret_outcome) \<times> nat \<times> disk" where
  "secret_rekey se path old new k d =
    (case load_app se path d of
       (c, d) \<Rightarrow>
         (case (expand_tilde (se_home se) old, expand_tilde (se_home se) new) of
            (Some old, Some new) \<Rightarrow>
              (case vault_open (se_crypto se) (vault_path (se_home se) c) d of
                 (Inl e, d) \<Rightarrow> (Inl e, k, d)
               | (Inr v, d) \<Rightarrow>
                   (case vault_rekey (se_crypto se) old new k v of
                      (Inl e, k) \<Rightarrow> (Inl e, k, d)
                    | (Inr v, k) \<Rightarrow>
                        (case vault_save (se_crypto se) v d of
                           (Some e, d) \<Rightarrow> (Inl e, k, d)
                         | (None, d) \<Rightarrow> (Inr Rekeyed, k, d))))
          | _ \<Rightarrow> (Inl ''HOME is not set'', k, d)))"







section \<open>Where secrets are\<close>

datatype place = ServerPassword string | ReviewKey | ReviewHeader string | GatewayPassword nat | GatewayTotp nat

definition gateways_of :: "toml_table \<Rightarrow> toml_table list" where
  "gateways_of doc = (case Option.bind (map_of doc ''gateways'') as_array_of_tables of Some gs \<Rightarrow> gs | None \<Rightarrow> [])"

fun secret_at :: "place \<Rightarrow> toml_table \<Rightarrow> string option" where
  "secret_at (ServerPassword host) doc =
    Option.bind (Option.bind (map_of doc ''servers'') as_table) (\<lambda>hosts.
      Option.bind (Option.bind (map_of hosts host) as_table_like) (\<lambda>t. str_at t ''password''))"
| "secret_at ReviewKey doc =
    Option.bind (Option.bind (map_of doc ''review'') as_table) (\<lambda>review. str_at review ''api_key'')"
| "secret_at (ReviewHeader h) doc =
    Option.bind (Option.bind (map_of doc ''review'') as_table) (\<lambda>review.
      Option.bind (Option.bind (map_of review ''headers'') as_table) (\<lambda>headers. str_at headers h))"
| "secret_at (GatewayPassword i) doc =
    (if i < length (gateways_of doc) then str_at (gateways_of doc ! i) ''password'' else None)"
| "secret_at (GatewayTotp i) doc =
    (if i < length (gateways_of doc) then str_at (gateways_of doc ! i) ''totp_secret_base32'' else None)"

fun entry_of :: "toml_table \<Rightarrow> place \<Rightarrow> string" where
  "entry_of doc (ServerPassword host) = ''server.'' @ host @ ''.password''"
| "entry_of doc ReviewKey = ''review.api_key''"
| "entry_of doc (ReviewHeader h) = ''review.header.'' @ h"
| "entry_of doc (GatewayPassword i) = ''gateway.'' @ gateway_label (gateways_of doc ! i) @ ''.password''"
| "entry_of doc (GatewayTotp i) = ''gateway.'' @ gateway_label (gateways_of doc ! i) @ ''.totp''"

fun in_server_file :: "place \<Rightarrow> bool" where
  "in_server_file (ServerPassword _) = True"
| "in_server_file _ = False"

fun no_secret :: "place \<Rightarrow> string \<Rightarrow> bool" where
  "no_secret (GatewayTotp _) v = (v = [])"
| "no_secret _ v = False"

text \<open>The plaintext at a place: a string that is no reference, and for the seed of one-time passwords not empty.\<close>

definition plaintext_secret :: "place \<Rightarrow> toml_table \<Rightarrow> string option" where
  "plaintext_secret p doc =
    Option.bind (secret_at p doc) (\<lambda>v. if is_reference v \<or> no_secret p v then None else Some v)"


lemma str_at_update_key:
  "str_at (update_key k f t) k' = (if k' = k then Option.bind (map_of t k) (\<lambda>i. as_str (f i)) else str_at t k')"
  by (induction t) (auto simp: str_at_def update_key_def)

lemma map_of_update_key:
  "map_of (update_key k f t) k' = (if k' = k then map_option f (map_of t k) else map_of t k')"
  by (induction t) (auto simp: update_key_def)

lemma map_of_rewritten: "map_of (map (\<lambda>(k, i). (k, f k i)) t) k = map_option (f k) (map_of t k)"
  by (induction t) auto

lemma as_table_in_table: "as_table (in_table f i) = map_option f (as_table i)"
  by (cases i) auto


lemma as_tables_in: "as_array_of_tables (in_tables f i) = map_option (map f) (as_array_of_tables i)"
  by (cases i) auto



lemma str_at_set: "str_at (set_str_preserving_decor k v t) k' = (if k' = k then (if map_of t k = None then None else Some v) else str_at t k')"
  by (auto simp: set_str_preserving_decor_def str_at_update_key split: bind_splits)

lemma plaintext_secret_iff:
  "plaintext_secret p doc = Some v \<longleftrightarrow> secret_at p doc = Some v \<and> \<not> is_reference v \<and> \<not> no_secret p v"
  by (auto simp: plaintext_secret_def bind_eq_Some_conv)








definition migrated :: "toml_table \<Rightarrow> place \<Rightarrow> string \<Rightarrow> string" where
  "migrated doc p v = (if is_reference v \<or> no_secret p v then v else ''vault:'' @ entry_of doc p)"

lemma str_at_keyed: "str_at t k = Some v \<Longrightarrow> map_of t k \<noteq> None"
  by (auto simp: str_at_def bind_eq_Some_conv)

definition migrate_value :: "string \<Rightarrow> string \<Rightarrow> string" where
  "migrate_value w v = (if is_reference v then v else w)"

lemma str_at_replace:
  "str_at (replace_plaintext k w t) k' = (if k' = k then map_option (migrate_value w) (str_at t k) else str_at t k')"
  by (cases "str_at t k")
    (auto simp: replace_plaintext_def plaintext_at_def str_at_set migrate_value_def dest: str_at_keyed)

lemma map_of_replace: "k' \<noteq> k \<Longrightarrow> map_of (replace_plaintext k w t) k' = map_of t k'"
  by (simp add: replace_plaintext_def set_str_preserving_decor_def map_of_update_key)

lemma gateway_label_replace: "k \<noteq> ''name'' \<Longrightarrow> gateway_label (replace_plaintext k w t) = gateway_label t"
  by (simp add: gateway_label_def str_at_replace)

lemma migrated_plain: "(\<And>v. \<not> no_secret p v) \<Longrightarrow> migrated doc p = migrate_value (''vault:'' @ entry_of doc p)"
  by (auto simp: migrated_def migrate_value_def)


lemma str_at_rewrite_headers:
  "str_at (rewrite_headers hs) h = map_option (migrate_value (''vault:review.header.'' @ h)) (str_at hs h)"
proof -
  have "map_of (rewrite_headers hs) h =
      map_option (\<lambda>i. if plaintext_at hs h \<noteq> None then TStr (''vault:review.header.'' @ h) else i) (map_of hs h)"
    unfolding rewrite_headers_def by (rule map_of_rewritten)
  then show ?thesis
    by (cases "map_of hs h"; cases "str_at hs h")
      (auto simp: str_at_def plaintext_at_def migrate_value_def)
qed

lemma rewrite_review_places:
  "str_at (rewrite_review rv) ''api_key'' = map_option (migrate_value ''vault:review.api_key'') (str_at rv ''api_key'')"
  "Option.bind (map_of (rewrite_review rv) ''headers'') as_table
    = map_option rewrite_headers (Option.bind (map_of rv ''headers'') as_table)"
  by (cases "map_of rv ''headers''";
      simp add: rewrite_review_def str_at_update_key str_at_replace map_of_update_key map_of_replace as_table_in_table)+

lemma rewrite_review_header:
  "Option.bind (Option.bind (map_of (rewrite_review rv) ''headers'') as_table) (\<lambda>hs. str_at hs h)
    = map_option (migrate_value (''vault:review.header.'' @ h))
        (Option.bind (Option.bind (map_of rv ''headers'') as_table) (\<lambda>hs. str_at hs h))"
  unfolding rewrite_review_places(2)
  by (cases "Option.bind (map_of rv ''headers'') as_table") (simp_all add: str_at_rewrite_headers)

lemma rewrite_gateway_places:
  "str_at (rewrite_gateway gw) ''password''
    = map_option (migrate_value (''vault:gateway.'' @ gateway_label gw @ ''.password'')) (str_at gw ''password'')"
  "str_at (rewrite_gateway gw) ''totp_secret_base32''
    = map_option (\<lambda>v. if is_reference v \<or> v = [] then v else ''vault:gateway.'' @ gateway_label gw @ ''.totp'')
        (str_at gw ''totp_secret_base32'')"
  by (cases "str_at gw ''totp_secret_base32''",
      auto simp: rewrite_gateway_def Let_def str_at_set str_at_replace totp_at_def map_of_replace dest: str_at_keyed)+

lemma gateways_of_rewrite: "gateways_of (rewrite_config_secrets doc) = map rewrite_gateway (gateways_of doc)"
  by (cases "map_of doc ''gateways''")
    (auto simp: gateways_of_def rewrite_config_secrets_def map_of_update_key as_tables_in split: option.splits)

lemma rewrite_config_places:
  assumes "\<not> in_server_file p"
  shows "secret_at p (rewrite_config_secrets doc) = map_option (migrated doc p) (secret_at p doc)"
proof -
  have rv: "Option.bind (map_of (rewrite_config_secrets doc) ''review'') as_table
      = map_option rewrite_review (Option.bind (map_of doc ''review'') as_table)"
    by (cases "map_of doc ''review''") (simp_all add: rewrite_config_secrets_def map_of_update_key as_table_in_table)
  show ?thesis
  proof (cases p)
    case (ServerPassword h)
    with assms show ?thesis by simp
  next
    case ReviewKey
    with rv show ?thesis
      by (cases "Option.bind (map_of doc ''review'') as_table") (simp_all add: rewrite_review_places migrated_plain)
  next
    case (ReviewHeader h)
    with rv show ?thesis
      by (cases "Option.bind (map_of doc ''review'') as_table")
        (simp_all add: rewrite_review_header migrated_plain del: Option.bind_assoc)
  next
    case (GatewayPassword i)
    then show ?thesis by (simp add: gateways_of_rewrite rewrite_gateway_places migrated_plain)
  next
    case (GatewayTotp i)
    then show ?thesis
      by (auto simp: gateways_of_rewrite rewrite_gateway_places migrated_def intro!: option.map_cong0)
  qed
qed

section \<open>The files after an interrupted run\<close>


lemma expand_tilde_idem:
  assumes "home = Some h" "starts_with h ''/''" "expand_tilde home v = Some w"
  shows "expand_tilde home w = Some w"
proof (cases "starts_with w ''/''")
  case True
  then show ?thesis by (auto simp: expand_tilde_def starts_with_iff strip_prefix_Some split: option.splits)
next
  case False
  with assms have "w = v" "v \<noteq> ''~''" "strip_prefix ''~/'' v = None"
    by (auto simp: expand_tilde_def os_path_join_def starts_with_iff split: if_splits option.splits)
  then show ?thesis by (simp add: expand_tilde_def)
qed

lemma vault_get_source:
  assumes "expand_tilde (cy_home cy) a = expand_tilde (cy_home cy) b"
  shows "vault_get cy v n a = vault_get cy v n b"
  unfolding vault_get_def derive_key_def identity_fingerprint_def identity_ikm_def assms by (rule refl)

lemma stored_secret_source:
  assumes "expand_tilde (cy_home cy) a = expand_tilde (cy_home cy) b"
  shows "stored_secret cy d path a n = stored_secret cy d path b n"
  unfolding stored_secret_eq vault_get_source[OF assms] by (rule refl)

lemma stored_secret_files: "dk_files d' path = dk_files d path \<Longrightarrow> stored_secret cy d' path src n = stored_secret cy d path src n"
  by (simp add: stored_secret_eq)


lemma vault_open_or_init_ok:
  assumes "vault_open_or_init cy path key k d = (Inr v, k', d')"
  shows "vt_path v = path \<and> vh_version (vf_header (vt_file v)) = 1 \<and> dk_files d' = dk_files d"
  using assms
  by (auto simp: vault_open_or_init_def vault_open_def dest: fs_read_files split: if_splits prod.splits sum.splits option.splits)

lemma vault_open_or_init_files:
  "vault_open_or_init cy path key k d = (r, k', d') \<Longrightarrow> dk_files d' = dk_files d"
  by (auto simp: vault_open_or_init_def vault_open_def dest: fs_read_files split: if_splits prod.splits sum.splits option.splits)

lemma load_app_files: "load_app se path d = (c, d') \<Longrightarrow> dk_files d' = dk_files d"
  by (auto simp: load_app_def dest: read_state_files split: prod.splits)

lemma load_servers_files: "load_servers se c d = (r, d') \<Longrightarrow> dk_files d' = dk_files d"
  by (auto simp: load_servers_def dest: read_state_files split: prod.splits)







definition files_apart :: "local_path \<Rightarrow> local_path \<Rightarrow> local_path \<Rightarrow> bool" where
  "files_apart v s c \<longleftrightarrow>
    names_file v \<and> names_file s \<and> names_file c
    \<and> distinct [v, temp_of v, s, temp_of s, backup_path s, c, temp_of c, backup_path c]"








section \<open>Secrets as the daemon sees them\<close>














lemma vault_rekey_version:
  assumes "crypto_laws cy" "vault_rekey cy old new k v = (Inr v', k')"
  shows "vh_version (vf_header (vt_file v')) = vh_version (vf_header (vt_file v))"
proof -
  from assms(2) obtain ps fp where g: "vault_get_all cy v (vault_list v) old = Inr ps"
    and s: "vault_set_all cy ps new (k + 1)
      (v\<lparr>vt_file := \<lparr>vf_header = (vf_header (vt_file v))\<lparr>vh_salt := cy_b64 cy (fill_bytes cy k 32), vh_fingerprint := fp\<rparr>,
         vf_entries = []\<rparr>\<rparr>) = (Inr v', k')"
    by (auto simp: vault_rekey_def split: sum.splits)
  have "\<forall>(n, pt) \<in> set ps. valid_utf8 pt" using vault_get_all_ok[OF g] by blast
  from vault_set_all_works[OF assms(1) s this] show ?thesis by simp
qed

lemma vault_open_ok:
  assumes "vault_open cy path d = (Inr v, d')"
  shows "vt_path v = path \<and> vh_version (vf_header (vt_file v)) = 1 \<and> dk_files d' = dk_files d
    \<and> stored_secret cy d path src n = vault_get cy v n src"
  using assms
  by (auto simp: vault_open_def path_exists_def stored_secret_eq dest: fs_read_files split: if_splits prod.splits option.splits)

lemma vault_open_files: "vault_open cy path d = (r, d') \<Longrightarrow> dk_files d' = dk_files d"
  by (auto simp: vault_open_def dest: fs_read_files split: if_splits prod.splits option.splits)

lemma foreign_identity:
  "identity_fingerprint cy src \<noteq> Inr (vh_fingerprint (vf_header (vt_file v))) \<Longrightarrow> \<exists>e. vault_get cy v n src = Inl e"
  by (auto simp: vault_get_def derive_key_def split: option.splits sum.splits)

lemma secret_set_works:
  assumes "crypto_laws (se_crypto se)" "load_app se path d = (c, d1)" "names_file (vault_path (se_home se) c)"
    "secret_set se path name (Some value) k d = (r, k', d')" "valid_utf8 value"
    "load_servers se c d1 = (Inr sc, d2)" "key_source (se_home se) c sc = Inr key"
  shows "case r of
      Inl _ \<Rightarrow> dk_files d' (vault_path (se_home se) c) = dk_files d (vault_path (se_home se) c)
    | Inr _ \<Rightarrow> stored_secret (se_crypto se) d' (vault_path (se_home se) c) key name = Inr value \<and> value \<noteq> []"
proof -
  have f2: "dk_files d2 = dk_files d" using load_app_files[OF assms(2)] load_servers_files[OF assms(6)] by simp
  note a0 = assms(4)[unfolded secret_set_def assms(2,6,7) prod.case sum.case option.case]
  show ?thesis
  proof (cases "value = []")
    case True
    with a0 f2 show ?thesis by auto
  next
    case False
    obtain ro k1 d3 where o: "vault_open_or_init (se_crypto se) (vault_path (se_home se) c) key k d2 = (ro, k1, d3)" by (metis surj_pair)
    note a1 = a0[unfolded if_not_P[OF False] o prod.case] and f3 = vault_open_or_init_files[OF o]
    show ?thesis
    proof (cases ro)
      case (Inl e)
      with a1 f2 f3 show ?thesis by auto
    next
      case v: (Inr v)
      obtain rs k2 where st: "vault_set (se_crypto se) name value key k1 v = (rs, k2)" by (metis surj_pair)
      note a2 = a1[unfolded v sum.case prod.case st]
      show ?thesis
      proof (cases rs)
        case (Inl e)
        with a2 f2 f3 show ?thesis by auto
      next
        case v': (Inr v')
        obtain e2 d4 where sv: "vault_save (se_crypto se) v' d3 = (e2, d4)" by (metis surj_pair)
        note set = vault_set_works[OF assms(1) st[unfolded v'] assms(5)] and op = vault_open_or_init_ok[OF o[unfolded v]]
        have p: "vt_path v' = vault_path (se_home se) c" "vh_version (vf_header (vt_file v')) = 1" using set(3,4) op by simp_all
        show ?thesis
        proof (cases e2)
          case None
          with stored_secret_saved[OF assms(1) sv[unfolded None]] assms(3) p set(1) False a2 v' sv show ?thesis by auto
        next
          case (Some e)
          with vault_save_files[OF sv] assms(3) p a2 v' sv f2 f3 show ?thesis by auto
        qed
      qed
    qed
  qed
qed

section \<open>Secrets that the migration does not keep apart or does not see\<close>

text \<open>A configuration with two gateways of one name is refused by the daemon but not by this command, which then
  stores both passwords under one entry.\<close>

lemma same_name_gateways_merge:
  assumes "plaintext_secret (GatewayPassword i) doc = Some s" "plaintext_secret (GatewayPassword j) doc = Some t"
    "gateway_label (gateways_of doc ! i) = gateway_label (gateways_of doc ! j)"
  shows "secret_at (GatewayPassword i) (rewrite_config_secrets doc) = secret_at (GatewayPassword j) (rewrite_config_secrets doc)"
proof -
  have "\<not> in_server_file (GatewayPassword k)" for k by simp
  note r = rewrite_config_places[OF this, of _ doc]
  from assms show ?thesis unfolding r plaintext_secret_iff by (simp add: migrated_def)
qed

text \<open>A secret in an inline table is left as it is.\<close>

lemma inline_review_unseen:
  "collect_config_secrets [(''review'', TInline [(''api_key'', TStr ''k'')])] = []"
  "rewrite_config_secrets [(''review'', TInline [(''api_key'', TStr ''k'')])] = [(''review'', TInline [(''api_key'', TStr ''k'')])]"
  by (simp_all add: collect_config_secrets_def rewrite_config_secrets_def update_key_def)

text \<open>A configuration that does not load is replaced by the default one, whose paths are not expanded.\<close>

lemma invalid_config_default:
  assumes "read_state (config_file se path) d = (Contents raw, d')" "se_app_toml se raw = None"
  shows "load_app se path d = (default_app_config (se_root se), d')"
    and "server_file (default_app_config (se_root se)) = components ''~/.xho/server.toml''"
    and "vault_path (se_home se) (default_app_config (se_root se)) = default_vault_path (se_home se)"
  using assms
  by (simp_all add: load_app_def load_app_config_def Let_def server_file_def default_app_config_def default_ssh_config_def
      vault_path_def)

section \<open>Properties\<close>


text \<open>C21. Re-encrypting the vault under another identity is atomic: whichever call of the file system fails, an entry
  that the old identity could read is read by the new identity when the command succeeds and still by the old one
  when it fails.  After success an identity with another fingerprint is refused.\<close>

theorem rekey_is_atomic:
  assumes "crypto_laws (se_crypto se)" "se_home se = Some h" "starts_with h ''/''"
    and "load_app se path d = (c, d1)" "names_file (vault_path (se_home se) c)"
    and "secret_rekey se path old new k d = (r, k', d')"
    and "stored_secret (se_crypto se) d (vault_path (se_home se) c) old n = Inr pt"
  shows "stored_secret (se_crypto se) d' (vault_path (se_home se) c) (case r of Inl _ \<Rightarrow> old | Inr _ \<Rightarrow> new) n = Inr pt
    \<and> (\<forall>src. \<not> isl r \<and> identity_fingerprint (se_crypto se) src \<noteq> identity_fingerprint (se_crypto se) new \<longrightarrow>
        isl (stored_secret (se_crypto se) d' (vault_path (se_home se) c) src n))"
    (is "stored_secret ?cy d' ?v _ n = _ \<and> _")
proof -
  have f1: "dk_files d1 = dk_files d" by (rule load_app_files[OF assms(4)])
  have kept: ?thesis if "dk_files d' = dk_files d" "isl r"
    using that assms(7) stored_secret_files[of d' ?v d] by (cases r) auto
  obtain o' n' where e: "expand_tilde (se_home se) old = Some o'" "expand_tilde (se_home se) new = Some n'"
    using home_expands[of h] assms(2) by metis
  have src: "expand_tilde (se_home se) o' = expand_tilde (se_home se) old" "expand_tilde (se_home se) n' = expand_tilde (se_home se) new"
    using expand_tilde_idem[OF assms(2,3)] e by auto
  note a0 = assms(6)[unfolded secret_rekey_def assms(4) prod.case e option.case]
  obtain ro d2 where o: "vault_open ?cy ?v d1 = (ro, d2)" by (metis surj_pair)
  note a1 = a0[unfolded o prod.case] and f2 = vault_open_files[OF o]
  show ?thesis
  proof (cases ro)
    case (Inl e)
    with a1 f1 f2 kept show ?thesis by auto
  next
    case v: (Inr v)
    note op = vault_open_ok[OF o[unfolded v]]
    have old: "vault_get ?cy v n o' = Inr pt"
      using op[of o' n] stored_secret_files[of d1 ?v d] f1 assms(7) stored_secret_source[OF src(1)] by simp
    obtain rs k2 where rk: "vault_rekey ?cy o' n' k v = (rs, k2)" by (metis surj_pair)
    note a2 = a1[unfolded v sum.case prod.case rk]
    show ?thesis
    proof (cases rs)
      case (Inl e)
      with a2 f1 f2 kept show ?thesis by auto
    next
      case v': (Inr v')
      obtain e3 d3 where sv: "vault_save ?cy v' d2 = (e3, d3)" by (metis surj_pair)
      note w = vault_rekey_works[OF assms(1) rk[unfolded v']]
      have p: "vt_path v' = ?v" "vh_version (vf_header (vt_file v')) = 1"
        using w op vault_rekey_version[OF assms(1) rk[unfolded v']] by simp_all
      show ?thesis
      proof (cases e3)
        case (Some e)
        with vault_save_files[OF sv] assms(5,7) p a2 v' sv f1 f2 stored_secret_files[of d' ?v d] show ?thesis by auto
      next
        case None
        with a2 v' sv have r: "d' = d3" "r = Inr Rekeyed" by auto
        have saved: "stored_secret ?cy d' ?v s n = vault_get ?cy v' n s" for s
          using stored_secret_saved[OF assms(1) sv[unfolded None]] assms(5) p r by simp
        have "vault_contains v n" using old by (auto simp: vault_get_def vault_contains_def split: option.splits)
        with w[THEN conjunct2, THEN conjunct2, THEN conjunct1] old have "vault_get ?cy v' n n' = Inr pt" by auto
        then have "stored_secret ?cy d' ?v new n = Inr pt" using saved vault_get_source[OF src(2)] by simp
        moreover have "identity_fingerprint ?cy new = Inr (vh_fingerprint (vf_header (vt_file v')))"
          using w src(2) by (simp add: identity_fingerprint_def)
        then have "isl (stored_secret ?cy d' ?v s n)" if "identity_fingerprint ?cy s \<noteq> identity_fingerprint ?cy new" for s
          using foreign_identity[of ?cy s v' n] that unfolding saved by auto
        ultimately show ?thesis using r by simp
      qed
    qed
  qed
qed

section \<open>An instance of the migration\<close>

definition demo_server_doc :: toml_table where
  "demo_server_doc = [(''servers'', TTable [(''a'', TTable [(''host'', TStr ''x''), (''password'', TStr ''pw'')])])]"

definition demo_secret_env :: secret_env where
  "demo_secret_env =
    \<lparr>se_crypto = toy_crypto, se_app_toml = (\<lambda>_. None),
     se_server_toml = (\<lambda>_. Some \<lparr>defaults = \<lparr>sd_identity_file = Some ''/k'', sd_shell = []\<rparr>, servers = []\<rparr>),
     se_parse_doc = (\<lambda>raw. if raw = ''raw'' then Some demo_server_doc
       else if raw = ''new'' then Some (rewrite_server_secrets demo_server_doc) else None),
     se_show_doc = (\<lambda>doc. if doc = demo_server_doc then ''raw'' else ''new''), se_root = False\<rparr>"


lemma demo_home: "se_home demo_secret_env = Some ''/h''"
  by (simp add: demo_secret_env_def toy_crypto_def)



lemma default_config_fields:
  assumes "expand_paths (Some ''/h'') ((default_app_config root)\<lparr>ap_config_dir := d\<rparr>) = Some c"
  shows "sh_server_config_path (ap_ssh c) = ''/h/.xho/server.toml''" "st_vault_path (ap_secret c) = None" "ap_config_dir c = d"
    "st_key_source (ap_secret c) = None" "rm_enable (sv_remote (ap_server c)) = False"
  using assms
  by (auto simp: expand_paths_def bind_eq_Some_conv default_app_config_def default_ssh_config_def expand_tilde_def
      os_path_join_def ends_with_def strip_suffix_def expand_opt_def expand_remote_server_def default_server_config_def default_remote_server_def)

definition demo_home_dir :: local_path where
  "demo_home_dir = [RootDir, Normal ''h'', Normal ''.xho'']"

lemma demo_config_file: "config_file demo_secret_env None = demo_home_dir @ [Normal ''config.toml'']"
  unfolding config_file_def demo_home demo_home_dir_def by code_simp

lemma demo_load:
  assumes "dk_files d (demo_home_dir @ [Normal ''config.toml'']) = None"
  obtains c where "load_app demo_secret_env None d = (c, d)" "server_file c = demo_home_dir @ [Normal ''server.toml'']"
    "vault_path (se_home demo_secret_env) c = demo_home_dir @ [Normal ''secrets'']"
    "st_key_source (ap_secret c) = None" "\<not> rm_enable (sv_remote (ap_server c))"
proof -
  obtain c where c: "expand_paths (Some ''/h'') ((default_app_config False)\<lparr>ap_config_dir := Some demo_home_dir\<rparr>) = Some c"
    "validate_app c = None"
    using default_expands by blast
  note fields = default_config_fields[OF c(1)]
  have par: "parent_dir (default_config_path (Some ''/h'')) = Some demo_home_dir"
    unfolding demo_home_dir_def by code_simp
  have "load_app demo_secret_env None d = (c, d)"
    using assms c par
    by (simp add: load_app_def demo_config_file read_state_def path_exists_def load_app_config_def Let_def demo_home)
      (simp add: demo_secret_env_def)
  moreover have "components ''/h/.xho/server.toml'' = demo_home_dir @ [Normal ''server.toml'']"
    "path_push demo_home_dir ''secrets'' = demo_home_dir @ [Normal ''secrets'']"
    unfolding demo_home_dir_def by code_simp+
  ultimately show ?thesis using fields by (intro that) (simp_all add: server_file_def vault_path_def)
qed


lemma demo_apart:
  "files_apart (demo_home_dir @ [Normal ''secrets'']) (demo_home_dir @ [Normal ''server.toml'']) (demo_home_dir @ [Normal ''config.toml''])"
  unfolding demo_home_dir_def by code_simp


definition demo_vault_file :: vault_file where
  "demo_vault_file =
    \<lparr>vf_header = \<lparr>vh_version = 1, vh_kdf = ''hkdf-sha256'', vh_aead = ''xchacha20poly1305'', vh_salt = [], vh_fingerprint = ''fp:/k''\<rparr>,
     vf_entries = [(''n'', \<lparr>ve_nonce = ''aaaaaaaaaaaaaaaaaaaaaaaa'', ve_ciphertext = ''/kpw''\<rparr>)]\<rparr>"

definition demo_vault_disk :: disk where
  "demo_vault_disk = \<lparr>dk_files = (\<lambda>_. None)(demo_home_dir @ [Normal ''secrets''] := Some (toy_show demo_vault_file)), dk_faults = []\<rparr>"

lemma demo_stored: "stored_secret toy_crypto demo_vault_disk (demo_home_dir @ [Normal ''secrets'']) ''/k'' ''n'' = Inr ''pw''"
proof -
  have u: "valid_utf8 ''pw''" by code_simp
  have b: "bytes_of ''/k'' = [47, 107]" "bytes_of ''/kpw'' = [47, 107, 112, 119]" "string_of [112, 119] = ''pw''"
    using string_of_bytes_of[of "''pw''"] by (simp_all add: bytes_of_def)
  show ?thesis
    by (simp add: stored_secret_eq demo_vault_disk_def toy_crypto_def toy_parse_show)
      (simp add: demo_vault_file_def vault_get_def derive_key_def identity_fingerprint_def identity_ikm_def expand_tilde_def
        b u bytes_of_def[of "''aaaaaaaaaaaaaaaaaaaaaaaa''"])
qed

theorem rekey_is_atomic_witness:
  "\<exists>c d1 r k' d'. load_app demo_secret_env None demo_vault_disk = (c, d1)
    \<and> secret_rekey demo_secret_env None ''/k'' ''/new'' 7 demo_vault_disk = (r, k', d')
    \<and> stored_secret toy_crypto d' (demo_home_dir @ [Normal ''secrets'']) (case r of Inl _ \<Rightarrow> ''/k'' | Inr _ \<Rightarrow> ''/new'') ''n'' = Inr ''pw''"
proof -
  have files: "dk_files demo_vault_disk (demo_home_dir @ [Normal ''config.toml'']) = None"
    by (simp add: demo_vault_disk_def)
  obtain c where c: "load_app demo_secret_env None demo_vault_disk = (c, demo_vault_disk)"
    "vault_path (se_home demo_secret_env) c = demo_home_dir @ [Normal ''secrets'']"
    using demo_load[OF files] .
  obtain r k' d' where e: "secret_rekey demo_secret_env None ''/k'' ''/new'' 7 demo_vault_disk = (r, k', d')" by (metis surj_pair)
  have cy: "se_crypto demo_secret_env = toy_crypto" by (simp add: demo_secret_env_def)
  have "names_file (demo_home_dir @ [Normal ''secrets''])" using demo_apart by (simp add: files_apart_def)
  then show ?thesis
    using rekey_is_atomic[OF _ demo_home _ c(1) _ e, of "''n''" "''pw''"] toy_crypto_laws demo_stored c e
    by (auto simp: cy starts_with_iff)
qed

end
