(* ===== verification/Remote_Access.thy ===== *)
theory Remote_Access
  imports Secret_Vault Token_Store
begin

text \<open>
  Access of remote clients: the file of authorized keys (\<^verbatim>\<open>daemon/authorized_keys.rs\<close>), the handlers of the SSH
  server (\<^verbatim>\<open>daemon/ssh_server.rs\<close>), the token and bootstrap calls of the daemon (\<^verbatim>\<open>daemon/mod.rs\<close>) and the client that
  registers its key with a token (\<^verbatim>\<open>cli/bootstrap.rs\<close>, \<^verbatim>\<open>cli/token.rs\<close>).

  Parsing and printing public keys, fingerprints and SHA-256 are arguments.  The SSH library calls the handlers;
  it verifies the signature of a key before it asks for it and refuses channels before an authentication succeeded.
\<close>

section \<open>Authorized keys\<close>

record pubkey =
  pk_data :: string
  pk_comment :: string

record key_lib =
  kl_parse :: "string \<Rightarrow> pubkey option"
  kl_show :: "pubkey \<Rightarrow> string option"
  kl_fingerprint :: "pubkey \<Rightarrow> string"

fun scan_keys :: "key_lib \<Rightarrow> string \<Rightarrow> string list \<Rightarrow> string + bool" where
  "scan_keys kl candidate [] = Inr False"
| "scan_keys kl candidate (raw_line # lines) =
    (let line = trim raw_line in
     if line = [] \<or> hd line = CHR ''#'' then scan_keys kl candidate lines
     else (case split_whitespace line of
             [] \<Rightarrow> Inl ''invalid authorized_keys line''
           | first # _ \<Rightarrow>
               if CHR ''='' \<in> set first \<or> CHR '','' \<in> set first then Inl ''authorized_keys options are not supported''
               else (case kl_parse kl line of
                       None \<Rightarrow> Inl ''failed to parse''
                     | Some parsed \<Rightarrow> if pk_data parsed = candidate then Inr True else scan_keys kl candidate lines)))"

definition is_authorized_key :: "key_lib \<Rightarrow> local_path \<Rightarrow> pubkey \<Rightarrow> disk \<Rightarrow> (string + bool) \<times> disk" where
  "is_authorized_key kl path candidate d =
    (if \<not> path_exists path d then (Inr False, d)
     else (case fs_read path d of
             (None, d) \<Rightarrow> (Inl ''failed to read'', d)
           | (Some content, d) \<Rightarrow> (scan_keys kl (pk_data candidate) (rust_lines content), d)))"

text \<open>Opening a file for appending creates it; an append that fails may have written the beginning of its data.\<close>

definition file_content :: "local_path \<Rightarrow> disk \<Rightarrow> string" where
  "file_content p d = (case dk_files d p of Some c \<Rightarrow> c | None \<Rightarrow> [])"

definition fs_open_append :: "local_path \<Rightarrow> disk \<Rightarrow> bool \<times> disk" where
  "fs_open_append p d =
    (case next_fault d of (NoFault, d) \<Rightarrow> (True, put_file p (Some (file_content p d)) d) | (_, d) \<Rightarrow> (False, d))"

definition fs_append :: "local_path \<Rightarrow> string \<Rightarrow> disk \<Rightarrow> bool \<times> disk" where
  "fs_append p c d =
    (case next_fault d of
       (NoFault, d) \<Rightarrow> (True, put_file p (Some (file_content p d @ c)) d)
     | (FailsBefore, d) \<Rightarrow> (False, d)
     | (FailsAfter n, d) \<Rightarrow> (False, put_file p (Some (file_content p d @ take n c)) d))"

text \<open>The key and the line end are written one after the other; the flush behind them reports what became of the second write and is one with it.\<close>

definition append_authorized_key ::
  "key_lib \<Rightarrow> local_path \<Rightarrow> pubkey \<Rightarrow> disk \<Rightarrow> (string + bool \<times> bool) \<times> disk" where
  "append_authorized_key kl path key d =
    (case is_authorized_key kl path key d of
       (Inl e, d) \<Rightarrow> (Inl e, d)
     | (Inr True, d) \<Rightarrow> (Inr (False, True), d)
     | (Inr False, d) \<Rightarrow>
         (case kl_show kl key of
            None \<Rightarrow> (Inl ''failed to serialize public key'', d)
          | Some line \<Rightarrow>
              (case (case parent_dir path of Some dir \<Rightarrow> if dir \<noteq> [] then fs_touch d else (True, d) | None \<Rightarrow> (True, d)) of
                 (False, d) \<Rightarrow> (Inl ''failed to create'', d)
               | (True, d) \<Rightarrow>
                   (case fs_open_append path d of
                      (False, d) \<Rightarrow> (Inl ''failed to open'', d)
                    | (True, d) \<Rightarrow>
                        (case fs_append path line d of
                           (False, d) \<Rightarrow> (Inl ''write failed'', d)
                         | (True, d) \<Rightarrow>
                             (case fs_append path [CHR 0x0A] d of
                                (False, d) \<Rightarrow> (Inl ''write failed'', d)
                              | (True, d) \<Rightarrow> (Inr (True, False), snd (fs_touch d))))))))"

section \<open>The SSH server\<close>

record remote_daemon =
  rd_config :: app_config
  rd_tokens :: token_store
  rd_disk :: disk

record ssh_handler =
  hn_peer :: "string option"
  hn_user :: "string option"
  hn_fingerprint :: "string option"
  hn_via_token :: bool
  hn_channels :: "nat list"

record access_env =
  ae_crypto :: crypto
  ae_keys :: key_lib
  ae_env :: "string \<Rightarrow> string option"
  ae_sha :: "string \<Rightarrow> string"
  ae_url_encode :: "string \<Rightarrow> string"

datatype auth = AuthAccept | AuthReject

definition new_client :: "string option \<Rightarrow> ssh_handler" where
  "new_client peer = \<lparr>hn_peer = peer, hn_user = None, hn_fingerprint = None, hn_via_token = False, hn_channels = []\<rparr>"

abbreviation remote_of :: "remote_daemon \<Rightarrow> remote_server_config" where
  "remote_of rd \<equiv> sv_remote (ap_server (rd_config rd))"

definition auth_publickey ::
  "access_env \<Rightarrow> string \<Rightarrow> pubkey \<Rightarrow> ssh_handler \<Rightarrow> remote_daemon \<Rightarrow> (string + auth) \<times> ssh_handler \<times> remote_daemon" where
  "auth_publickey ae user key h rd =
    (if user \<noteq> rm_user (remote_of rd) then (Inr AuthReject, h, rd)
     else (case is_authorized_key (ae_keys ae) (components (rm_authorized_keys_path (remote_of rd))) key (rd_disk rd) of
             (Inl e, d) \<Rightarrow> (Inl e, h, rd\<lparr>rd_disk := d\<rparr>)
           | (Inr False, d) \<Rightarrow> (Inr AuthReject, h, rd\<lparr>rd_disk := d\<rparr>)
           | (Inr True, d) \<Rightarrow>
               (Inr AuthAccept, h\<lparr>hn_user := Some user, hn_fingerprint := Some (kl_fingerprint (ae_keys ae) key)\<rparr>,
                rd\<lparr>rd_disk := d\<rparr>)))"

text \<open>The comparison of the passwords takes constant time; its result is equality.\<close>

definition auth_password ::
  "access_env \<Rightarrow> nat \<Rightarrow> string \<Rightarrow> string \<Rightarrow> ssh_handler \<Rightarrow> remote_daemon \<Rightarrow> auth \<times> ssh_handler \<times> remote_daemon" where
  "auth_password ae now user password h rd =
    (if user \<noteq> rm_user (remote_of rd) then (AuthReject, h, rd)
     else
       (case validate (ae_sha ae) now password (rd_tokens rd) of
          (m, True) \<Rightarrow>
            (AuthAccept, h\<lparr>hn_via_token := True, hn_user := Some user, hn_fingerprint := Some ''token''\<rparr>, rd\<lparr>rd_tokens := m\<rparr>)
        | (m, False) \<Rightarrow>
            (case rm_bootstrap_token (remote_of rd) of
               None \<Rightarrow> (AuthReject, h, rd\<lparr>rd_tokens := m\<rparr>)
             | Some bt \<Rightarrow>
                 (case resolve_secret (ae_crypto ae) (ae_env ae) (secret_resolver_of (cy_home (ae_crypto ae)) (rd_config rd) None)
                         (from_reference bt) (rd_disk rd) of
                    (Inl e, d) \<Rightarrow> (AuthReject, h, rd\<lparr>rd_tokens := m, rd_disk := d\<rparr>)
                  | (Inr resolved, d) \<Rightarrow>
                      if resolved \<noteq> [] \<and> password = resolved
                      then (AuthAccept, h\<lparr>hn_via_token := True, hn_user := Some user, hn_fingerprint := Some ''bootstrap-token''\<rparr>,
                            rd\<lparr>rd_tokens := m, rd_disk := d\<rparr>)
                      else (AuthReject, h, rd\<lparr>rd_tokens := m, rd_disk := d\<rparr>)))))"

definition channel_open_session :: "nat \<Rightarrow> ssh_handler \<Rightarrow> ssh_handler" where
  "channel_open_session ch h = h\<lparr>hn_channels := List.insert ch (hn_channels h)\<rparr>"

definition REMOTE_SUBSYSTEM_NAME :: string where "REMOTE_SUBSYSTEM_NAME = ''xho-rpc''"
definition REVERSE_PROXY_SUBSYSTEM_NAME :: string where "REVERSE_PROXY_SUBSYSTEM_NAME = ''xho-reverse''"

record connect_info =
  ci_peer :: "string option"
  ci_user :: string
  ci_fingerprint :: string
  ci_via_token :: bool

datatype incoming_conn = RemoteConn connect_info | ReverseConn string connect_info

definition reverse_node_name :: "string \<Rightarrow> string option" where
  "reverse_node_name name =
    (if name = REVERSE_PROXY_SUBSYSTEM_NAME then Some []
     else strip_prefix (REVERSE_PROXY_SUBSYSTEM_NAME @ '':'') name)"

text \<open>The reply to the client and the connection handed to the daemon.\<close>

definition subsystem_request ::
  "nat \<Rightarrow> string \<Rightarrow> ssh_handler \<Rightarrow> remote_daemon \<Rightarrow> bool \<times> incoming_conn option \<times> ssh_handler" where
  "subsystem_request ch name h rd =
    (if name \<noteq> REMOTE_SUBSYSTEM_NAME \<and> \<not> (reverse_node_name name \<noteq> None \<and> rm_reverse_proxy_enable (remote_of rd))
     then (False, None, h)
     else if ch \<notin> set (hn_channels h) then (False, None, h)
     else
       (let info = \<lparr>ci_peer = hn_peer h, ci_user = (case hn_user h of Some u \<Rightarrow> u | None \<Rightarrow> []),
                    ci_fingerprint = (case hn_fingerprint h of Some f \<Rightarrow> f | None \<Rightarrow> []), ci_via_token = hn_via_token h\<rparr>
        in (True,
            Some (case reverse_node_name name of Some node \<Rightarrow> ReverseConn node info | None \<Rightarrow> RemoteConn info),
            h\<lparr>hn_channels := removeAll ch (hn_channels h)\<rparr>)))"

section \<open>Calls of the daemon\<close>

text \<open>A time beyond what the clock's type can hold makes the call panic.\<close>

definition MAX_TIME :: nat where "MAX_TIME = 2 ^ 63 - 1"

definition token_gen ::
  "access_env \<Rightarrow> nat \<Rightarrow> nat \<Rightarrow> string \<Rightarrow> nat \<Rightarrow> bool \<Rightarrow> string option \<Rightarrow> remote_daemon
    \<Rightarrow> (string \<times> nat \<times> bool) option \<times> remote_daemon" where
  "token_gen ae now now' bytes ttl_secs single lbl rd =
    (let ttl = (if ttl_secs = 0 then 300 else ttl_secs);
         lbl = (case lbl of Some s \<Rightarrow> if trim s = [] then None else Some (trim s) | None \<Rightarrow> None)
     in if now + ttl > MAX_TIME then (None, rd)
        else (case generate (ae_sha ae) (ae_url_encode ae) now bytes ttl single lbl (rd_tokens rd) of
                (m, token) \<Rightarrow>
                  (if now' + ttl > MAX_TIME then None else Some (token, now' + ttl, single), rd\<lparr>rd_tokens := m\<rparr>)))"

definition token_list :: "nat \<Rightarrow> remote_daemon \<Rightarrow> token_entry list \<times> remote_daemon" where
  "token_list now rd = (case list_tokens now (rd_tokens rd) of (m, es) \<Rightarrow> (es, rd\<lparr>rd_tokens := m\<rparr>))"

definition token_invalidate :: "access_env \<Rightarrow> string \<Rightarrow> remote_daemon \<Rightarrow> bool \<times> remote_daemon" where
  "token_invalidate ae needle rd =
    (case invalidate (ae_sha ae) needle (rd_tokens rd) of (m, b) \<Rightarrow> (b, rd\<lparr>rd_tokens := m\<rparr>))"

datatype rpc_error = InvalidArgument string | InternalError string

definition bootstrap_authorize ::
  "access_env \<Rightarrow> string \<Rightarrow> remote_daemon \<Rightarrow> (rpc_error + bool \<times> bool \<times> string) \<times> remote_daemon" where
  "bootstrap_authorize ae public_key rd =
    (case kl_parse (ae_keys ae) (trim public_key) of
       None \<Rightarrow> (Inl (InvalidArgument ''invalid public key''), rd)
     | Some key \<Rightarrow>
         (case append_authorized_key (ae_keys ae) (components (rm_authorized_keys_path (remote_of rd))) key (rd_disk rd) of
            (Inl e, d) \<Rightarrow> (Inl (InternalError e), rd\<lparr>rd_disk := d\<rparr>)
          | (Inr (appended, already_present), d) \<Rightarrow>
              (Inr (appended, already_present, kl_fingerprint (ae_keys ae) key), rd\<lparr>rd_disk := d\<rparr>)))"

section \<open>The client\<close>

definition token_request :: "nat option \<Rightarrow> bool \<Rightarrow> string option \<Rightarrow> string + nat \<times> bool \<times> string option" where
  "token_request ttl reusable lbl =
    (case ttl of
       Some 0 \<Rightarrow> Inl ''--ttl must be greater than zero''
     | _ \<Rightarrow>
         Inr (case ttl of Some t \<Rightarrow> t | None \<Rightarrow> 300, \<not> reusable,
              case lbl of Some s \<Rightarrow> if trim s = [] then None else Some (trim s) | None \<Rightarrow> None))"

definition read_pubkey_sidecar :: "key_lib \<Rightarrow> string option \<Rightarrow> string + pubkey" where
  "read_pubkey_sidecar kl file =
    (case file of
       None \<Rightarrow> Inl ''failed to read public key''
     | Some content \<Rightarrow> (case kl_parse kl (trim content) of Some k \<Rightarrow> Inr k | None \<Rightarrow> Inl ''failed to parse public key''))"

text \<open>One connection to the daemon: authenticate with the token, open a channel, start the subsystem.\<close>

definition open_rpc_stream ::
  "access_env \<Rightarrow> nat \<Rightarrow> string \<Rightarrow> string \<Rightarrow> remote_daemon \<Rightarrow> (string + incoming_conn) \<times> remote_daemon" where
  "open_rpc_stream ae now user token rd =
    (case auth_password ae now user token (new_client None) rd of
       (AuthReject, h, rd) \<Rightarrow> (Inl ''token rejected'', rd)
     | (AuthAccept, h, rd) \<Rightarrow>
         (case subsystem_request 0 REMOTE_SUBSYSTEM_NAME (channel_open_session 0 h) rd of
            (True, Some conn, h) \<Rightarrow> (Inr conn, rd)
          | _ \<Rightarrow> (Inl ''failed to start xho-rpc subsystem'', rd)))"

definition client_bootstrap ::
  "access_env \<Rightarrow> nat \<Rightarrow> string \<Rightarrow> string \<Rightarrow> string option \<Rightarrow> remote_daemon \<Rightarrow> (string + bool) \<times> remote_daemon" where
  "client_bootstrap ae now user token identity_pub rd =
    (case read_pubkey_sidecar (ae_keys ae) identity_pub of
       Inl e \<Rightarrow> (Inl e, rd)
     | Inr key \<Rightarrow>
         (case kl_show (ae_keys ae) key of
            None \<Rightarrow> (Inl ''failed to serialize public key'', rd)
          | Some line \<Rightarrow>
              (case open_rpc_stream ae now user token rd of
                 (Inl e, rd) \<Rightarrow> (Inl e, rd)
               | (Inr conn, rd) \<Rightarrow>
                   (case bootstrap_authorize ae line rd of
                      (Inl e, rd) \<Rightarrow> (Inl ''BootstrapAuthorize RPC failed'', rd)
                    | (Inr (appended, already_present, fp), rd) \<Rightarrow>
                        if appended then (Inr True, rd)
                        else if already_present then (Inr False, rd)
                        else (Inl ''daemon reported neither appended nor already_present'', rd)))))"

section \<open>Lines of the file\<close>

text \<open>What the code relies on of the key library: a key is printed on one line that starts with the name of its
  algorithm, and the line is read as the same key.\<close>

definition key_laws :: "key_lib \<Rightarrow> bool" where
  "key_laws kl \<longleftrightarrow>
    (\<forall>k l. kl_show kl k = Some l \<longrightarrow>
      trimmed l \<and> l \<noteq> [] \<and> hd l \<noteq> CHR ''#'' \<and> CHR 0x0A \<notin> set l \<and> CHR 0x0D \<notin> set l
      \<and> (\<exists>w ws. split_whitespace l = w # ws \<and> CHR ''='' \<notin> set w \<and> CHR '','' \<notin> set w)
      \<and> (\<exists>k'. kl_parse kl l = Some k' \<and> pk_data k' = pk_data k))"

definition terminated :: "string \<Rightarrow> bool" where
  "terminated c \<longleftrightarrow> c = [] \<or> last c = CHR 0x0A"

lemma rust_lines_one: "CHR 0x0A \<notin> set l \<Longrightarrow> CHR 0x0D \<notin> set l \<Longrightarrow> rust_lines (l @ [CHR 0x0A]) = [l]"
proof -
  assume l: "CHR 0x0A \<notin> set l" "CHR 0x0D \<notin> set l"
  then have "strip_cr l = l"
    by (cases "strip_suffix [CHR 0x0D] l") (auto simp: strip_cr_def strip_suffix_Some)
  moreover have "split_on (CHR 0x0A) (l @ [CHR 0x0A]) = [l, []]" using l(1) by (induction l) auto
  ultimately show ?thesis by (simp add: rust_lines_def)
qed

lemma rust_lines_terminated:
  assumes "terminated c" "CHR 0x0A \<notin> set l" "CHR 0x0D \<notin> set l"
  shows "rust_lines (c @ l @ [CHR 0x0A]) = rust_lines c @ [l]"
proof (cases c rule: rev_cases)
  case Nil
  then show ?thesis using rust_lines_one[OF assms(2,3)] by (simp add: rust_lines_def)
next
  case (snoc c0 x)
  with assms(1) have "x = CHR 0x0A" by (simp add: terminated_def)
  with snoc show ?thesis using rust_lines_whole[of c0 "l @ [CHR 0x0A]"] rust_lines_one[OF assms(2,3)] by simp
qed

lemma scan_keys_append:
  "scan_keys kl cand ls = Inr False \<Longrightarrow> scan_keys kl cand (ls @ ms) = scan_keys kl cand ms"
  by (induction kl cand ls rule: scan_keys.induct) (auto simp: Let_def split: list.splits if_splits option.splits)

lemma scan_keys_True:
  "scan_keys kl cand ls = Inr True \<Longrightarrow> \<exists>l \<in> set ls. \<exists>k. kl_parse kl (trim l) = Some k \<and> pk_data k = cand"
  by (induction kl cand ls rule: scan_keys.induct) (auto simp: Let_def split: list.splits if_splits option.splits)

lemma scan_keys_shown:
  assumes "key_laws kl" "kl_show kl k = Some l"
  shows "scan_keys kl (pk_data k) [l] = Inr True"
proof -
  note d = assms(1)[unfolded key_laws_def, rule_format, OF assms(2)]
  then obtain w ws k' where "split_whitespace l = w # ws" "CHR ''='' \<notin> set w" "CHR '','' \<notin> set w" "kl_parse kl l = Some k'" "pk_data k' = pk_data k"
    by auto
  with d show ?thesis by (simp add: Let_def)
qed

section \<open>The disk\<close>

lemma fs_open_append_files: "fs_open_append p d = (ok, d') \<Longrightarrow> file_content p d' = file_content p d \<and> (ok \<longrightarrow> dk_files d' p \<noteq> None)"
  by (auto simp: fs_open_append_def file_content_def dest!: next_fault_dest split: prod.splits fault.splits)

lemma fs_append_files: "fs_append p c d = (True, d') \<Longrightarrow> dk_files d' p = Some (file_content p d @ c)"
  by (auto simp: fs_append_def file_content_def dest!: next_fault_dest split: prod.splits fault.splits)

lemma fs_touch_content: "file_content p (snd (fs_touch d)) = file_content p d"
  using fs_touch_files[of d] by (cases "fs_touch d") (simp add: file_content_def)

definition scan_file :: "key_lib \<Rightarrow> string \<Rightarrow> local_path \<Rightarrow> disk \<Rightarrow> string + bool" where
  "scan_file kl cand p d = scan_keys kl cand (rust_lines (file_content p d))"

lemma is_authorized_key_files:
  "is_authorized_key kl p k d = (r, d') \<Longrightarrow> dk_files d' = dk_files d \<and> (\<not> isl r \<longrightarrow> r = scan_file kl (pk_data k) p d)"
  by (auto simp: is_authorized_key_def scan_file_def file_content_def path_exists_def rust_lines_def dest: fs_read_files
      split: if_splits prod.splits option.splits)

lemma is_authorized_key_no_faults:
  "dk_faults d = [] \<Longrightarrow> is_authorized_key kl p k d = (scan_file kl (pk_data k) p d, d)"
  by (auto simp: is_authorized_key_def scan_file_def file_content_def path_exists_def fs_read_def next_fault_def rust_lines_def
      split: option.splits)

lemma append_authorized_key_appends:
  assumes "append_authorized_key kl p k d = (Inr (True, b), d')"
  shows "\<exists>l. kl_show kl k = Some l \<and> file_content p d' = file_content p d @ l @ [CHR 0x0A]
    \<and> scan_file kl (pk_data k) p d = Inr False \<and> \<not> b"
proof -
  obtain r d1 where a: "is_authorized_key kl p k d = (r, d1)" by (metis surj_pair)
  note f1 = is_authorized_key_files[OF a]
  from assms a have r: "r = Inr False" by (auto simp: append_authorized_key_def split: sum.splits bool.splits)
  with assms a obtain l where l: "kl_show kl k = Some l" by (auto simp: append_authorized_key_def split: option.splits)
  obtain ok d2 where t: "(case parent_dir p of Some dir \<Rightarrow> if dir \<noteq> [] then fs_touch d1 else (True, d1) | None \<Rightarrow> (True, d1)) = (ok, d2)"
    by (metis surj_pair)
  have f2: "dk_files d2 = dk_files d1" using t by (auto dest: fs_touch_files split: option.splits if_splits)
  note a1 = assms[unfolded append_authorized_key_def a prod.case r sum.case bool.case l option.case t]
  then have ok: "ok" by (cases ok) auto
  obtain ok3 d3 where o: "fs_open_append p d2 = (ok3, d3)" by (metis surj_pair)
  obtain ok4 d4 where w: "fs_append p l d3 = (ok4, d4)" by (metis surj_pair)
  obtain ok5 d5 where n: "fs_append p [CHR 0x0A] d4 = (ok5, d5)" by (metis surj_pair)
  from a1 ok o w n have k: "ok3" "ok4" "ok5" "d' = snd (fs_touch d5)" "\<not> b"
    by (auto split: bool.splits)
  have "file_content p d3 = file_content p d" using fs_open_append_files[OF o] f2 f1 by (simp add: file_content_def)
  with fs_append_files[OF w[unfolded eqTrueI[OF k(2)]]] fs_append_files[OF n[unfolded eqTrueI[OF k(3)]]]
  have "file_content p d5 = file_content p d @ l @ [CHR 0x0A]" by (simp add: file_content_def)
  with k l f1 r show ?thesis by (simp add: fs_touch_content)
qed

lemma append_authorized_key_present:
  assumes "append_authorized_key kl p k d = (Inr (False, True), d')"
  shows "dk_files d' = dk_files d \<and> scan_file kl (pk_data k) p d = Inr True"
proof -
  obtain r d1 where a: "is_authorized_key kl p k d = (r, d1)" by (metis surj_pair)
  with assms is_authorized_key_files[OF a] show ?thesis
    by (auto simp: append_authorized_key_def split: sum.splits bool.splits option.splits prod.splits if_splits)
qed

lemma appended_key_accepted:
  assumes "key_laws kl" "append_authorized_key kl p k d = (Inr (a, b), d')" "a \<or> b" "terminated (file_content p d)"
  shows "scan_file kl (pk_data k) p d' = Inr True"
proof (cases a)
  case True
  then obtain l where l: "kl_show kl k = Some l" "file_content p d' = file_content p d @ l @ [CHR 0x0A]"
    "scan_file kl (pk_data k) p d = Inr False"
    using append_authorized_key_appends[of kl p k d b d'] assms(2) by auto
  have n: "CHR 0x0A \<notin> set l" "CHR 0x0D \<notin> set l" using assms(1) l(1) by (auto simp: key_laws_def)
  have "rust_lines (file_content p d') = rust_lines (file_content p d) @ [l]"
    unfolding l(2) by (rule rust_lines_terminated[OF assms(4) n])
  with l(3) scan_keys_shown[OF assms(1) l(1)] show ?thesis by (simp only: scan_file_def scan_keys_append)
next
  case False
  with assms(2,3) append_authorized_key_present[of kl p k d d'] show ?thesis by (auto simp: scan_file_def file_content_def)
qed

lemma resolve_secret_files: "resolve_secret cy env rs s d = (r, d') \<Longrightarrow> dk_files d' = dk_files d"
proof (cases s)
  case (FileSecret p)
  moreover assume "resolve_secret cy env rs s d = (r, d')"
  ultimately show ?thesis by (auto dest: fs_read_files split: prod.splits option.splits)
next
  case (VaultSecret n)
  moreover assume "resolve_secret cy env rs s d = (r, d')"
  ultimately show ?thesis
    by (auto simp: resolve_vault_def vault_open_def dest: fs_read_files split: prod.splits option.splits if_splits sum.splits)
qed auto

lemma auth_password_keeps:
  assumes "auth_password ae now user pw h rd = (a, h', rd')"
  shows "rd_config rd' = rd_config rd \<and> dk_files (rd_disk rd') = dk_files (rd_disk rd)"
  using assms
  by (auto simp: auth_password_def dest: resolve_secret_files split: if_splits prod.splits bool.splits option.splits sum.splits)

lemma auth_password_user: "auth_password ae now user pw h rd = (AuthAccept, h', rd') \<Longrightarrow> user = rm_user (remote_of rd)"
  by (auto simp: auth_password_def split: if_splits)

lemma auth_publickey_file:
  assumes "dk_faults (rd_disk rd) = []" "user = rm_user (remote_of rd)"
    "scan_file (ae_keys ae) (pk_data key) (components (rm_authorized_keys_path (remote_of rd))) (rd_disk rd) = Inr True"
  shows "fst (auth_publickey ae user key h rd) = Inr AuthAccept"
  using assms by (simp add: auth_publickey_def is_authorized_key_no_faults)

section \<open>Properties\<close>

text \<open>C13. A client that bootstraps with a token can log in with its key from then on: when the bootstrap command
  succeeds, the daemon accepts the client's key for the same user, provided the file of authorized keys ended in a
  newline or was empty before.\<close>

theorem bootstrap_grants_access:
  assumes "key_laws (ae_keys ae)" "read_pubkey_sidecar (ae_keys ae) identity_pub = Inr key"
    and "client_bootstrap ae now user token identity_pub rd = (Inr b, rd')"
    and "terminated (file_content (components (rm_authorized_keys_path (remote_of rd))) (rd_disk rd))"
  shows "fst (auth_publickey ae user key h (rd'\<lparr>rd_disk := (rd_disk rd')\<lparr>dk_faults := []\<rparr>\<rparr>)) = Inr AuthAccept"
proof -
  let ?p = "components (rm_authorized_keys_path (remote_of rd))"
  from assms(2,3) obtain line where line: "kl_show (ae_keys ae) key = Some line"
    by (auto simp: client_bootstrap_def split: option.splits)
  obtain oo rd1 where o: "open_rpc_stream ae now user token rd = (oo, rd1)" by (metis surj_pair)
  obtain a h' rd0 where au: "auth_password ae now user token (new_client None) rd = (a, h', rd0)" by (metis surj_pair)
  note c1 = assms(3)[unfolded client_bootstrap_def assms(2) sum.case line option.case o prod.case]
  from c1 obtain conn where "oo = Inr conn" by (cases oo) auto
  with o au have a: "a = AuthAccept" "rd1 = rd0"
    by (auto simp: open_rpc_stream_def split: auth.splits prod.splits bool.splits option.splits)
  note keep = auth_password_keeps[OF au] and user = auth_password_user[OF au[unfolded a(1)]]
  obtain rb rd2 where bt: "bootstrap_authorize ae line rd1 = (rb, rd2)" by (metis surj_pair)
  with c1 \<open>oo = Inr conn\<close> obtain ap al fp where rb: "rb = Inr (ap, al, fp)" "ap \<or> al" "rd' = rd2"
    by (cases rb) (auto split: if_splits)
  obtain key' where key': "kl_parse (ae_keys ae) line = Some key'" "pk_data key' = pk_data key" and tr: "trim line = line"
    using assms(1) line by (auto simp: key_laws_def)
  obtain r d' where app: "append_authorized_key (ae_keys ae) ?p key' (rd_disk rd1) = (r, d')" by (metis surj_pair)
  with bt rb key' tr keep a have r: "r = Inr (ap, al)" "rd' = rd1\<lparr>rd_disk := d'\<rparr>"
    by (auto simp: bootstrap_authorize_def split: sum.splits)
  have "terminated (file_content ?p (rd_disk rd1))" using assms(4) keep a by (simp add: file_content_def)
  from appended_key_accepted[OF assms(1) app[unfolded r(1)] rb(2) this] key'
  have "scan_file (ae_keys ae) (pk_data key) ?p (d'\<lparr>dk_faults := []\<rparr>) = Inr True"
    by (simp add: scan_file_def file_content_def)
  then show ?thesis using user keep a r(2) by (intro auth_publickey_file) simp_all
qed

text \<open>C16. Nobody is let in without a credential: a key is accepted only for the configured user and only if a line of
  the file of authorized keys holds it; a password only for that user and only if it is a token of the store that has
  neither expired nor been used up, or the configured bootstrap token, which is not empty.\<close>

theorem access_needs_credential:
  "(fst (auth_publickey ae user key h rd) = Inr AuthAccept \<longrightarrow>
      user = rm_user (remote_of rd)
      \<and> (\<exists>content l k. dk_files (rd_disk rd) (components (rm_authorized_keys_path (remote_of rd))) = Some content
          \<and> l \<in> set (rust_lines content) \<and> kl_parse (ae_keys ae) (trim l) = Some k \<and> pk_data k = pk_data key))
    \<and> (fst (auth_password ae now user pw h rd) = AuthAccept \<longrightarrow>
      user = rm_user (remote_of rd)
      \<and> ((\<exists>e. map_of (rd_tokens rd) (ae_sha ae pw) = Some e \<and> now \<le> expires_at e \<and> \<not> (once e \<and> consumed e))
         \<or> (\<exists>bt. rm_bootstrap_token (remote_of rd) = Some bt \<and> pw \<noteq> []
              \<and> fst (resolve_secret (ae_crypto ae) (ae_env ae)
                  (secret_resolver_of (cy_home (ae_crypto ae)) (rd_config rd) None) (from_reference bt) (rd_disk rd)) = Inr pw)))"
proof (intro conjI impI)
  assume a: "fst (auth_publickey ae user key h rd) = Inr AuthAccept"
  let ?p = "components (rm_authorized_keys_path (remote_of rd))"
  obtain r d' where k: "is_authorized_key (ae_keys ae) ?p key (rd_disk rd) = (r, d')" by (metis surj_pair)
  from a k show "user = rm_user (remote_of rd)" by (auto simp: auth_publickey_def split: if_splits)
  from a k have r: "r = Inr True" by (auto simp: auth_publickey_def split: if_splits sum.splits bool.splits)
  with is_authorized_key_files[OF k] have s: "scan_keys (ae_keys ae) (pk_data key) (rust_lines (file_content ?p (rd_disk rd))) = Inr True"
    by (simp add: scan_file_def)
  then obtain content where "dk_files (rd_disk rd) ?p = Some content" by (cases "dk_files (rd_disk rd) ?p") (auto simp: file_content_def rust_lines_def)
  with scan_keys_True[OF s] show "\<exists>content l k. dk_files (rd_disk rd) ?p = Some content
      \<and> l \<in> set (rust_lines content) \<and> kl_parse (ae_keys ae) (trim l) = Some k \<and> pk_data k = pk_data key"
    by (auto simp: file_content_def)
next
  assume a: "fst (auth_password ae now user pw h rd) = AuthAccept"
  then show "user = rm_user (remote_of rd)" by (auto simp: auth_password_def split: if_splits)
  obtain m ok where v: "validate (ae_sha ae) now pw (rd_tokens rd) = (m, ok)" by (metis surj_pair)
  show "(\<exists>e. map_of (rd_tokens rd) (ae_sha ae pw) = Some e \<and> now \<le> expires_at e \<and> \<not> (once e \<and> consumed e))
     \<or> (\<exists>bt. rm_bootstrap_token (remote_of rd) = Some bt \<and> pw \<noteq> []
          \<and> fst (resolve_secret (ae_crypto ae) (ae_env ae)
              (secret_resolver_of (cy_home (ae_crypto ae)) (rd_config rd) None) (from_reference bt) (rd_disk rd)) = Inr pw)"
  proof (cases ok)
    case True
    with v show ?thesis by (auto simp: validate_def is_expired_def Let_def split: option.splits if_splits)
  next
    case False
    with a v show ?thesis by (auto simp: auth_password_def split: if_splits option.splits prod.splits sum.splits)
  qed
qed

text \<open>A key that is appended to a file whose last line has no newline is reported as registered, but it is not:
  its text continues the last line, and the daemon goes on rejecting it if that line is still read as another key.\<close>

theorem unterminated_file_swallows_key:
  assumes "append_authorized_key kl p key d = (Inr (True, b), d')" "kl_show kl key = Some line"
    and "file_content p d = before @ lastline" "terminated before" "CHR 0x0A \<notin> set (lastline @ line)" "CHR 0x0D \<notin> set (lastline @ line)"
    and "scan_keys kl (pk_data key) (rust_lines before) = Inr False"
    and "scan_keys kl (pk_data key) [lastline @ line] = Inr False"
  shows "scan_file kl (pk_data key) p d' = Inr False"
proof -
  have "file_content p d' = before @ (lastline @ line) @ [CHR 0x0A]"
    using append_authorized_key_appends[OF assms(1)] assms(2,3) by auto
  then show ?thesis
    using rust_lines_terminated[OF assms(4-6)] assms(7,8) by (simp only: scan_file_def scan_keys_append)
qed

section \<open>An instance\<close>

definition toy_keys :: key_lib where
  "toy_keys =
    \<lparr>kl_parse = (\<lambda>l. case split_whitespace l of
        a # x # rest \<Rightarrow> if a = ''ssh'' then Some \<lparr>pk_data = x, pk_comment = concat rest\<rparr> else None | _ \<Rightarrow> None),
     kl_show = (\<lambda>k. if pk_data k = ''A'' then Some ''ssh A'' else if pk_data k = ''B'' then Some ''ssh B c'' else None),
     kl_fingerprint = (\<lambda>k. ''SHA256:'' @ pk_data k)\<rparr>"

definition demo_access :: access_env where
  "demo_access = \<lparr>ae_crypto = toy_crypto, ae_keys = toy_keys, ae_env = (\<lambda>_. None), ae_sha = (\<lambda>s. CHR ''#'' # s), ae_url_encode = (\<lambda>s. s)\<rparr>"

definition demo_daemon :: remote_daemon where
  "demo_daemon =
    \<lparr>rd_config = default_app_config False,
     rd_tokens = fst (generate (\<lambda>s. CHR ''#'' # s) (\<lambda>s. s) 1 ''abcdefghij'' 60 True None []),
     rd_disk = \<lparr>dk_files = (\<lambda>_. None), dk_faults = []\<rparr>\<rparr>"

lemma toy_shown: "kl_show toy_keys k = Some l \<Longrightarrow> l = ''ssh A'' \<and> pk_data k = ''A'' \<or> l = ''ssh B c'' \<and> pk_data k = ''B''"
  by (auto simp: toy_keys_def split: if_splits)

lemma toy_words: "split_whitespace ''ssh A'' = [''ssh'', ''A'']" "split_whitespace ''ssh B c'' = [''ssh'', ''B'', ''c'']"
  by code_simp+

lemma toy_trimmed: "trimmed ''ssh A''" "trimmed ''ssh B c''"
  by code_simp+

lemma toy_key_laws: "key_laws toy_keys"
  unfolding key_laws_def
proof (intro allI impI)
  fix k l
  assume "kl_show toy_keys k = Some l"
  then consider "l = ''ssh A''" "pk_data k = ''A''" | "l = ''ssh B c''" "pk_data k = ''B''" using toy_shown by blast
  then show "trimmed l \<and> l \<noteq> [] \<and> hd l \<noteq> CHR ''#'' \<and> CHR 0x0A \<notin> set l \<and> CHR 0x0D \<notin> set l
      \<and> (\<exists>w ws. split_whitespace l = w # ws \<and> CHR ''='' \<notin> set w \<and> CHR '','' \<notin> set w)
      \<and> (\<exists>k'. kl_parse toy_keys l = Some k' \<and> pk_data k' = pk_data k)"
    by cases (simp_all add: toy_words toy_trimmed toy_keys_def)
qed

lemma demo_bootstrap: "fst (client_bootstrap demo_access 3 ''xho'' ''abcdefghij'' (Some ''ssh A'') demo_daemon) = Inr True"
proof -
  have p: "components ''~/.xho/authorized_keys'' = [Normal ''~'', Normal ''.xho'', Normal ''authorized_keys'']" by code_simp
  have t: "trim ''ssh A'' = ''ssh A''" using toy_trimmed(1) by simp
  have k: "kl_show toy_keys \<lparr>pk_data = ''A'', pk_comment = []\<rparr> = Some ''ssh A''"
    "kl_parse toy_keys ''ssh A'' = Some \<lparr>pk_data = ''A'', pk_comment = []\<rparr>"
    by (simp_all add: toy_keys_def toy_words)
  show ?thesis
    by (simp add: client_bootstrap_def read_pubkey_sidecar_def demo_access_def k t open_rpc_stream_def auth_password_def
        demo_daemon_def default_app_config_def default_server_config_def default_remote_server_def generate_def validate_def Let_def
        is_expired_def subsystem_request_def channel_open_session_def new_client_def reverse_node_name_def bootstrap_authorize_def
        append_authorized_key_def is_authorized_key_def path_exists_def p parent_dir_def fs_touch_def next_fault_def
        fs_open_append_def fs_append_def put_file_def file_content_def REMOTE_SUBSYSTEM_NAME_def REVERSE_PROXY_SUBSYSTEM_NAME_def)
qed

theorem bootstrap_grants_access_witness:
  "\<exists>rd' key. client_bootstrap demo_access 3 ''xho'' ''abcdefghij'' (Some ''ssh A'') demo_daemon = (Inr True, rd')
    \<and> fst (auth_publickey demo_access ''xho'' key (new_client None) (rd'\<lparr>rd_disk := (rd_disk rd')\<lparr>dk_faults := []\<rparr>\<rparr>)) = Inr AuthAccept"
proof -
  obtain rd' where b: "client_bootstrap demo_access 3 ''xho'' ''abcdefghij'' (Some ''ssh A'') demo_daemon = (Inr True, rd')"
    using demo_bootstrap by (metis prod.collapse)
  have k: "key_laws (ae_keys demo_access)" by (simp add: demo_access_def toy_key_laws)
  have r: "read_pubkey_sidecar (ae_keys demo_access) (Some ''ssh A'') = Inr \<lparr>pk_data = ''A'', pk_comment = []\<rparr>"
    using toy_trimmed(1) by (simp add: read_pubkey_sidecar_def demo_access_def toy_keys_def toy_words)
  have "terminated (file_content (components (rm_authorized_keys_path (remote_of demo_daemon))) (rd_disk demo_daemon))"
    by (simp add: demo_daemon_def file_content_def terminated_def)
  from b bootstrap_grants_access[OF k r b this] show ?thesis by blast
qed

theorem access_needs_credential_witness:
  "fst (auth_password demo_access 3 ''xho'' ''abcdefghij'' (new_client None) demo_daemon) = AuthAccept
    \<and> ''xho'' = rm_user (remote_of demo_daemon)"
proof -
  have a: "fst (auth_password demo_access 3 ''xho'' ''abcdefghij'' (new_client None) demo_daemon) = AuthAccept"
    by (simp add: auth_password_def demo_access_def demo_daemon_def default_app_config_def default_server_config_def
        default_remote_server_def generate_def validate_def Let_def is_expired_def)
  with access_needs_credential[of demo_access "''xho''" undefined "new_client None" demo_daemon 3 "''abcdefghij''"]
  show ?thesis by blast
qed

definition unterminated_disk :: disk where
  "unterminated_disk = \<lparr>dk_files = (\<lambda>_. None)([Normal ''k''] := Some ''ssh B c''), dk_faults = []\<rparr>"

theorem unterminated_file_swallows_key_witness:
  "\<exists>d'. append_authorized_key toy_keys [Normal ''k''] \<lparr>pk_data = ''A'', pk_comment = []\<rparr> unterminated_disk = (Inr (True, False), d')
    \<and> scan_file toy_keys ''A'' [Normal ''k''] d' = Inr False"
proof -
  let ?k = "\<lparr>pk_data = ''A'', pk_comment = []\<rparr>"
  have w: "split_whitespace ''ssh B cssh A'' = [''ssh'', ''B'', ''cssh'', ''A'']" "trimmed ''ssh B cssh A''" by code_simp+
  have l: "rust_lines ''ssh B c'' = [''ssh B c'']" "rust_lines [] = []" by code_simp+
  have s: "scan_keys toy_keys ''A'' [''ssh B c''] = Inr False" "scan_keys toy_keys ''A'' [''ssh B cssh A''] = Inr False"
    using toy_trimmed(2) w by (simp_all add: Let_def toy_words toy_keys_def)
  have sh: "kl_show toy_keys ?k = Some ''ssh A''" by (simp add: toy_keys_def)
  obtain d' where a: "append_authorized_key toy_keys [Normal ''k''] ?k unterminated_disk = (Inr (True, False), d')"
    using s(1)
    by (simp add: append_authorized_key_def is_authorized_key_def path_exists_def unterminated_disk_def fs_read_def next_fault_def l
        sh parent_dir_def fs_open_append_def fs_append_def put_file_def file_content_def fs_touch_def)
  have "scan_file toy_keys (pk_data ?k) [Normal ''k''] d' = Inr False"
    by (rule unterminated_file_swallows_key[OF a sh, of "[]" "''ssh B c''"])
      (use s l in \<open>simp_all add: unterminated_disk_def file_content_def terminated_def\<close>)
  with a show ?thesis by simp
qed

end
