(* ===== verification/Gateway_Auth.thy ===== *)
theory Gateway_Auth
  imports App_Config Base64_Codec
begin

unbundle bit_operations_syntax

text \<open>
  How gateways authenticate (\<^verbatim>\<open>daemon/gateway/auth.rs\<close>): addresses, known hosts, public keys, passwords,
  keyboard-interactive rounds and one-time passwords.

  The SSH library, the base32 codec and HMAC-SHA1 are arguments.  The replies of the server to a keyboard-interactive
  authentication are a list; a list that ends stands for a connection that breaks.
\<close>

section \<open>Addresses\<close>

definition DEFAULT_REMOTE_PORT :: nat where "DEFAULT_REMOTE_PORT = 2222"
definition DEFAULT_REMOTE_USER :: string where "DEFAULT_REMOTE_USER = ''xho''"

record remote_target =
  tg_host :: string
  tg_port :: nat
  tg_user :: string

definition target_address :: "remote_target \<Rightarrow> string" where
  "target_address t = tg_host t @ '':'' @ show_nat (tg_port t)"

definition parse_remote_target :: "string \<Rightarrow> string + remote_target" where
  "parse_remote_target input =
    (if trim input = [] then Inl ''remote target must not be empty''
     else
       (let (user, host_port) = (case rsplit_once (CHR ''@'') input of
              Some (user, host_port) \<Rightarrow> if user \<noteq> [] then (user, host_port) else (DEFAULT_REMOTE_USER, input)
            | None \<Rightarrow> (DEFAULT_REMOTE_USER, input));
            hp = (case rsplit_once (CHR '':'') host_port of
              Some (host, port) \<Rightarrow>
                if host \<noteq> [] \<and> port \<noteq> [] then map_option (\<lambda>p. (host, p)) (parse_uint u16_max port)
                else Some (host_port, DEFAULT_REMOTE_PORT)
            | None \<Rightarrow> Some (host_port, DEFAULT_REMOTE_PORT))
        in case hp of
             None \<Rightarrow> Inl ''invalid remote port in target''
           | Some (host, port) \<Rightarrow>
               if trim host = [] then Inl ''remote host must not be empty''
               else Inr \<lparr>tg_host = host, tg_port = port, tg_user = user\<rparr>))"

definition default_known_hosts_path :: "string option \<Rightarrow> local_path" where
  "default_known_hosts_path home = path_push (home_root home) ''known_hosts''"

text \<open>The default path of known hosts is printed and expanded like a configured one; \<^verbatim>\<open>shown\<close> is the printed path.\<close>

definition normalize_paths :: "string option \<Rightarrow> string \<Rightarrow> string option \<Rightarrow> string option \<Rightarrow> (string \<times> string) option" where
  "normalize_paths home shown identity_file known_hosts =
    do {
      identity \<leftarrow> expand_tilde home (case identity_file of Some f \<Rightarrow> f | None \<Rightarrow> ''~/.ssh/id_ed25519'');
      known \<leftarrow> expand_tilde home (case known_hosts of Some p \<Rightarrow> p | None \<Rightarrow> shown);
      Some (identity, known) }"

section \<open>Known hosts\<close>

datatype known_hosts_check = HostListed | HostMissing | HostKeyChanged | HostsUnreadable

datatype known_host_state = Known | Unknown string string | Changed string string

fun inspect_known_host :: "known_hosts_check \<Rightarrow> string \<Rightarrow> string \<Rightarrow> known_host_state" where
  "inspect_known_host HostListed algorithm fingerprint = Known"
| "inspect_known_host HostMissing algorithm fingerprint = Unknown algorithm fingerprint"
| "inspect_known_host HostKeyChanged algorithm fingerprint = Changed algorithm fingerprint"
| "inspect_known_host HostsUnreadable algorithm fingerprint = Unknown algorithm fingerprint"

section \<open>One-time passwords\<close>

record mfa_config =
  mfa_secret :: string
  mfa_digits :: nat
  mfa_period :: nat
  mfa_digest :: string

definition default_mfa :: mfa_config where
  "default_mfa = \<lparr>mfa_secret = [], mfa_digits = 6, mfa_period = 30, mfa_digest = ''sha1''\<rparr>"

datatype totp_result = TotpOk string | TotpErr string | TotpPanic

text \<open>\<^verbatim>\<open>u64::to_be_bytes\<close>, and \<^verbatim>\<open>{:0width$}\<close> for an unsigned number.\<close>

definition to_be_bytes :: "nat \<Rightarrow> u8 list" where
  "to_be_bytes n = map (\<lambda>i. of_nat (n div 2 ^ (8 * (7 - i)))) [0..<8]"

definition zero_padded :: "nat \<Rightarrow> nat \<Rightarrow> string" where
  "zero_padded width n = replicate (width - length (show_nat n)) (CHR ''0'') @ show_nat n"

text \<open>The four bytes from an offset as a number of 31 bits.\<close>

definition truncate31 :: "u8 list \<Rightarrow> nat \<Rightarrow> 32 word" where
  "truncate31 digest k =
    (push_bit 24 (ucast (digest ! k) AND 0x7f)) OR (push_bit 16 (ucast (digest ! (k + 1))))
    OR (push_bit 8 (ucast (digest ! (k + 2)))) OR ucast (digest ! (k + 3))"

text \<open>\<^verbatim>\<open>10_u32.pow(digits)\<close> wraps around in a release build; a remainder by zero and a division by zero panic.  The
  digest of HMAC-SHA1 has twenty bytes, so that the indices are in range.\<close>

definition generate_totp ::
  "(string \<Rightarrow> u8 list option) \<Rightarrow> (u8 list \<Rightarrow> u8 list \<Rightarrow> u8 list) \<Rightarrow> nat option \<Rightarrow> mfa_config \<Rightarrow> totp_result" where
  "generate_totp base32 hmac now c =
    (if lowercase (mfa_digest c) \<noteq> ''sha1'' then TotpErr ''only sha1 TOTP is supported''
     else
       (case base32 (mfa_secret c) of
          None \<Rightarrow> TotpErr ''invalid base32 TOTP secret''
        | Some secret \<Rightarrow>
            (case now of
               None \<Rightarrow> TotpErr ''system clock is before unix epoch''
             | Some secs \<Rightarrow>
                 if mfa_period c = 0 then TotpPanic
                 else
                   (let digest = hmac secret (to_be_bytes (secs div mfa_period c));
                        k = unat (last digest AND 0x0f);
                        modulo = (10 :: 32 word) ^ mfa_digits c
                    in if modulo = 0 then TotpPanic
                       else TotpOk (zero_padded (mfa_digits c) (unat (truncate31 digest k mod modulo)))))))"

section \<open>Authentication\<close>

datatype kbi_reply = KbiSuccess | KbiFailure | KbiInfo "(string \<times> bool) list"

record auth_prompt =
  apr_gateway :: string
  apr_message :: string
  apr_secret :: bool

text \<open>The answer to one prompt.  \<^verbatim>\<open>totp\<close> is the code at the time of the prompt, the prompter the user's reaction.\<close>

definition kbi_response ::
  "string \<Rightarrow> mfa_config option \<Rightarrow> totp_result \<Rightarrow> (auth_prompt \<Rightarrow> string option) option \<Rightarrow> string \<times> bool \<Rightarrow> string + string" where
  "kbi_response gateway mfa totp prompter p =
    (let ask = (case prompter of
           Some f \<Rightarrow> (case f \<lparr>apr_gateway = gateway, apr_message = fst p, apr_secret = \<not> snd p\<rparr> of
               Some r \<Rightarrow> Inr r | None \<Rightarrow> Inl ''prompt failed'')
         | None \<Rightarrow> Inl ''keyboard-interactive MFA requires an auth prompt handler'')
     in case mfa of
          Some c \<Rightarrow>
            if mfa_secret c \<noteq> [] then (case totp of TotpOk s \<Rightarrow> Inr s | TotpErr e \<Rightarrow> Inl e | TotpPanic \<Rightarrow> Inl ''panic'')
            else ask
        | None \<Rightarrow> ask)"

fun kbi_responses ::
  "string \<Rightarrow> mfa_config option \<Rightarrow> totp_result \<Rightarrow> (auth_prompt \<Rightarrow> string option) option \<Rightarrow> (string \<times> bool) list \<Rightarrow> string + string list" where
  "kbi_responses gateway mfa totp prompter [] = Inr []"
| "kbi_responses gateway mfa totp prompter (p # ps) =
    (case kbi_response gateway mfa totp prompter p of
       Inl e \<Rightarrow> Inl e
     | Inr r \<Rightarrow> (case kbi_responses gateway mfa totp prompter ps of Inl e \<Rightarrow> Inl e | Inr rs \<Rightarrow> Inr (r # rs)))"

fun authenticate_keyboard_interactive ::
  "string \<Rightarrow> mfa_config option \<Rightarrow> totp_result \<Rightarrow> (auth_prompt \<Rightarrow> string option) option \<Rightarrow> kbi_reply list
    \<Rightarrow> string option \<times> string list list" where
  "authenticate_keyboard_interactive gateway mfa totp prompter [] = (Some ''connection lost'', [])"
| "authenticate_keyboard_interactive gateway mfa totp prompter (KbiSuccess # _) = (None, [])"
| "authenticate_keyboard_interactive gateway mfa totp prompter (KbiFailure # _) =
    (Some ''SSH keyboard-interactive authentication failed'', [])"
| "authenticate_keyboard_interactive gateway mfa totp prompter (KbiInfo prompts # replies) =
    (case kbi_responses gateway mfa totp prompter prompts of
       Inl e \<Rightarrow> (Some e, [])
     | Inr responses \<Rightarrow>
         (case authenticate_keyboard_interactive gateway mfa totp prompter replies of
            (r, sent) \<Rightarrow> (r, responses # sent)))"

datatype auth_result = AuthOk | AuthFailure bool bool

text \<open>A failure carries whether it is a partial success and whether keyboard-interactive remains.\<close>

definition authenticate_with_key ::
  "bool \<Rightarrow> auth_result option \<Rightarrow> (unit \<Rightarrow> string option \<times> string list list) \<Rightarrow> string option \<times> string list list" where
  "authenticate_with_key key_loads reply interactive =
    (if \<not> key_loads then (Some ''failed to load key'', [])
     else (case reply of
             None \<Rightarrow> (Some ''connection lost'', [])
           | Some AuthOk \<Rightarrow> (None, [])
           | Some (AuthFailure partial remaining) \<Rightarrow>
               if partial \<and> remaining then interactive ()
               else (Some ''SSH publickey authentication failed'', [])))"

definition authenticate_with_password :: "auth_result option \<Rightarrow> string option" where
  "authenticate_with_password reply =
    (case reply of None \<Rightarrow> Some ''connection lost'' | Some AuthOk \<Rightarrow> None | Some _ \<Rightarrow> Some ''SSH password authentication failed'')"

definition wants_legacy_ssh_rsa :: "string option \<Rightarrow> bool" where
  "wants_legacy_ssh_rsa algorithms =
    (case algorithms of
       None \<Rightarrow> False
     | Some v \<Rightarrow> list_ex (\<lambda>item. trim item = ''ssh-rsa'' \<or> trim item = ''+ssh-rsa'') (split_on (CHR '','') v))"

definition preferred_rsa_hash :: "string option \<Rightarrow> 'h option \<Rightarrow> 'h option" where
  "preferred_rsa_hash algorithms best = (if wants_legacy_ssh_rsa algorithms then None else best)"

section \<open>Truncation\<close>

lemma unat_small: "n < 2 ^ 32 \<Longrightarrow> unat (of_nat n :: 32 word) = n"
  by (simp add: unat_of_nat)

lemma bytes_sum:
  fixes a b c d :: u8
  shows "push_bit 24 (take_bit 7 (ucast a)) OR (push_bit 16 (ucast b) OR (push_bit 8 (ucast c) OR (ucast d :: 32 word)))
    = of_nat ((unat a mod 128) * 2 ^ 24 + unat b * 2 ^ 16 + unat c * 2 ^ 8 + unat d)"
proof -
  let ?x0 = "push_bit 24 (take_bit 7 (ucast a)) :: 32 word" and ?x1 = "push_bit 16 (ucast b) :: 32 word"
    and ?x2 = "push_bit 8 (ucast c) :: 32 word" and ?x3 = "ucast d :: 32 word"
  have 1: "?x2 OR ?x3 = ?x2 + ?x3" by (rule disjunctive_add[symmetric]) (auto simp: bit_simps dest!: bit_imp_le_length)
  have 2: "?x1 OR (?x2 OR ?x3) = ?x1 + (?x2 OR ?x3)" by (rule disjunctive_add[symmetric]) (auto simp: bit_simps dest!: bit_imp_le_length)
  have 3: "?x0 OR (?x1 OR (?x2 OR ?x3)) = ?x0 + (?x1 OR (?x2 OR ?x3))"
    by (rule disjunctive_add[symmetric]) (auto simp: bit_simps dest!: bit_imp_le_length)
  have u: "ucast x = (of_nat (unat x) :: 32 word)" for x :: u8 by (simp add: unsigned_word_eqI)
  have t: "take_bit 7 (of_nat n :: 32 word) = of_nat (n mod 128)" for n
  proof -
    have "take_bit 7 n = n mod 128" by (simp add: take_bit_eq_mod)
    then show ?thesis using take_bit_of_nat[of 7 n, where 'a = "32 word"] by simp
  qed
  have "?x0 OR (?x1 OR (?x2 OR ?x3)) = ?x0 + (?x1 + (?x2 + ?x3))" using 1 2 3 by metis
  also have "\<dots> = of_nat ((unat a mod 128) * 2 ^ 24 + unat b * 2 ^ 16 + unat c * 2 ^ 8 + unat d)"
    unfolding u t by (simp add: push_bit_eq_mult)
  finally show ?thesis .
qed

lemma truncate31_value:
  "unat (truncate31 ds k) = (unat (ds ! k) mod 128) * 2 ^ 24 + unat (ds ! (k + 1)) * 2 ^ 16 + unat (ds ! (k + 2)) * 2 ^ 8 + unat (ds ! (k + 3))"
  (is "_ = ?n")
proof -
  have m: "(0x7f :: 32 word) = mask 7" by (simp add: mask_eq_exp_minus_1)
  have "truncate31 ds k = of_nat ?n"
    unfolding truncate31_def m by (simp only: take_bit_eq_mask[symmetric] or.assoc bytes_sum)
  moreover have "?n < 2 ^ 32"
  proof -
    have "unat (x :: u8) < 256" for x using unsigned_less[of x] by simp
    then have "unat (ds ! (k + 1)) < 256" "unat (ds ! (k + 2)) < 256" "unat (ds ! (k + 3)) < 256" by blast+
    moreover have "unat (ds ! k) mod 128 < 128" by simp
    ultimately show ?thesis by simp
  qed
  ultimately show ?thesis by (simp only: unat_small)
qed

lemma length_show_nat: "0 < d \<Longrightarrow> n < 10 ^ d \<Longrightarrow> length (show_nat n) \<le> d"
proof (induction n arbitrary: d rule: show_nat.induct)
  case (1 n)
  show ?case
  proof (cases "n < 10")
    case True
    with 1(2) show ?thesis by (subst show_nat.simps) simp
  next
    case False
    with 1(2,3) obtain e where e: "d = Suc e" "0 < e" by (cases d; cases "d - 1") auto
    with 1(3) have "n div 10 < 10 ^ e" by (simp add: less_mult_imp_div_less mult.commute)
    from 1(1)[OF False e(2) this] False e show ?thesis by (subst show_nat.simps) simp
  qed
qed

lemma decimal_value_zeros: "decimal_value (replicate k (CHR ''0'') @ s) = decimal_value s"
  by (induction k) (simp_all add: decimal_value_def digit_value_def)

lemma zero_padded_ok:
  assumes "0 < d" "n < 10 ^ d"
  shows "length (zero_padded d n) = d \<and> list_all is_ascii_digit (zero_padded d n) \<and> decimal_value (zero_padded d n) = n"
  using length_show_nat[OF assms] show_nat_digits[of n]
  by (auto simp: zero_padded_def decimal_value_zeros list_all_iff is_ascii_digit_def)

lemma power10_word:
  assumes "d \<le> 9"
  shows "unat ((10 :: 32 word) ^ d) = 10 ^ d"
proof -
  have "(10 :: nat) ^ d \<le> 10 ^ 9" using assms by (intro power_increasing) simp_all
  then have "(10 :: nat) ^ d < 2 ^ 32" by simp
  moreover have "(10 :: 32 word) ^ d = of_nat (10 ^ d)" by simp
  ultimately show ?thesis by (simp only: unat_of_nat) simp
qed

section \<open>Addresses and configurations at the edge\<close>

lemma remote_target_roundtrip:
  assumes "user \<noteq> []" "CHR ''@'' \<notin> set host" "trim host \<noteq> []" "port < 2 ^ 16"
  shows "parse_remote_target (user @ ''@'' @ host @ '':'' @ show_nat port)
    = Inr \<lparr>tg_host = host, tg_port = port, tg_user = user\<rparr>"
proof -
  have dig: "c \<in> set (show_nat port) \<Longrightarrow> is_ascii_digit c" for c using show_nat_digits[of port] by (simp add: list_all_iff)
  then have no: "CHR ''@'' \<notin> set (show_nat port)" "CHR '':'' \<notin> set (show_nat port)"
    by (auto simp: is_ascii_digit_def dest: dig)
  have at: "rsplit_once (CHR ''@'') (user @ ''@'' @ host @ '':'' @ show_nat port) = Some (user, host @ '':'' @ show_nat port)"
    using assms(2) no(1) by (simp add: rsplit_once_Some)
  have co: "rsplit_once (CHR '':'') (host @ '':'' @ show_nat port) = Some (host, show_nat port)"
    using no(2) by (simp add: rsplit_once_Some)
  have tr: "trim (user @ ''@'' @ host @ '':'' @ show_nat port) \<noteq> []"
    by (rule trim_keeps[of "CHR ''@''"]) (simp_all add: ws_byte_def)
  have "trim [] = []" by simp
  then have ne: "host \<noteq> []" using assms(3) by auto
  have pp: "parse_uint u16_max (show_nat port) = Some port" using assms(4) by (simp add: u16_max_def)
  show ?thesis
    unfolding parse_remote_target_def at using tr assms(1,3) ne by (simp add: Let_def co pp del: append_Cons append_assoc)
qed

text \<open>An address of IPv6 is cut at its last colon.\<close>

lemma ipv6_target_cut: "parse_remote_target ''::1'' = Inr \<lparr>tg_host = '':'', tg_port = 1, tg_user = ''xho''\<rparr>"
  by code_simp

text \<open>Ten digits are reduced by a wrapped power of ten, thirty-two by zero.\<close>

lemma totp_power_wraps: "(10 :: 32 word) ^ 10 = 1410065408" "(10 :: 32 word) ^ 32 = 0"
  by simp_all

lemma totp_many_digits_panic:
  assumes "lowercase (mfa_digest c) = ''sha1''" "base32 (mfa_secret c) = Some secret" "mfa_digits c = 32"
  shows "generate_totp base32 hmac (Some secs) c = TotpPanic"
  using assms totp_power_wraps(2) by (simp add: generate_totp_def Let_def)

section \<open>Properties\<close>

text \<open>C32. The one-time password is the one of the standard: for a SHA-1 digest of twenty bytes, a seed that decodes,
  a period that is not zero and one to nine digits, the code has exactly that many digits, and its value is the
  31-bit number at the offset that the last byte of the digest gives, modulo the power of ten; the digest is taken of
  the number of periods since the epoch, in eight bytes.\<close>

theorem totp_is_standard:
  assumes "lowercase (mfa_digest c) = ''sha1''" "base32 (mfa_secret c) = Some secret" "mfa_period c \<noteq> 0"
    and "0 < mfa_digits c" "mfa_digits c \<le> 9"
    and "digest = hmac secret (to_be_bytes (secs div mfa_period c))" "length digest = 20"
  shows "\<exists>code k. generate_totp base32 hmac (Some secs) c = TotpOk code
    \<and> length code = mfa_digits c \<and> list_all is_ascii_digit code
    \<and> k = unat (digest ! 19) mod 16 \<and> k + 3 < length digest
    \<and> decimal_value code =
        ((unat (digest ! k) mod 128) * 2 ^ 24 + unat (digest ! (k + 1)) * 2 ^ 16 + unat (digest ! (k + 2)) * 2 ^ 8
          + unat (digest ! (k + 3))) mod 10 ^ mfa_digits c"
proof -
  let ?k = "unat (digest ! 19) mod 16"
  let ?v = "(unat (digest ! ?k) mod 128) * 2 ^ 24 + unat (digest ! (?k + 1)) * 2 ^ 16 + unat (digest ! (?k + 2)) * 2 ^ 8
    + unat (digest ! (?k + 3))"
  have l: "last digest = digest ! 19" using assms(7) by (subst last_conv_nth) auto
  have k: "unat (last digest AND 0x0f) = ?k"
  proof -
    have m: "(0x0f :: u8) = mask 4" by (simp add: mask_eq_exp_minus_1)
    show ?thesis unfolding l m take_bit_eq_mask[symmetric] by (simp only: unsigned_take_bit_eq) (simp add: take_bit_eq_mod)
  qed
  have p: "unat ((10 :: 32 word) ^ mfa_digits c) = 10 ^ mfa_digits c" by (rule power10_word[OF assms(5)])
  then have "(10 :: 32 word) ^ mfa_digits c \<noteq> 0" by (metis power_not_zero unat_0 zero_neq_numeral)
  moreover have "unat (truncate31 digest ?k mod (10 :: 32 word) ^ mfa_digits c) = ?v mod 10 ^ mfa_digits c"
    by (simp only: unat_mod_distrib p truncate31_value)
  ultimately have "generate_totp base32 hmac (Some secs) c = TotpOk (zero_padded (mfa_digits c) (?v mod 10 ^ mfa_digits c))"
    using assms(1-3) k by (simp add: generate_totp_def Let_def assms(6)[symmetric])
  moreover have "?v mod 10 ^ mfa_digits c < 10 ^ mfa_digits c" by simp
  note z = zero_padded_ok[OF assms(4) this]
  ultimately show ?thesis using z assms(7) by (intro exI[of _ "zero_padded (mfa_digits c) (?v mod 10 ^ mfa_digits c)"] exI[of _ ?k]) simp
qed

theorem totp_is_standard_witness:
  "\<exists>code. generate_totp (\<lambda>s. if s = ''JBSWY3DP'' then Some [72, 101, 108, 108, 111] else None) (\<lambda>_ m. replicate 12 0 @ m) (Some 90)
      \<lparr>mfa_secret = ''JBSWY3DP'', mfa_digits = 6, mfa_period = 30, mfa_digest = ''SHA1''\<rparr> = TotpOk code \<and> length code = 6"
proof -
  let ?c = "\<lparr>mfa_secret = ''JBSWY3DP'', mfa_digits = 6, mfa_period = 30, mfa_digest = ''SHA1''\<rparr>"
  let ?b = "\<lambda>s. if s = ''JBSWY3DP'' then Some [72, 101, 108, 108, 111 :: u8] else None"
  have "lowercase (mfa_digest ?c) = ''sha1''" by code_simp
  moreover have "length (to_be_bytes n) = 8" for n by (simp add: to_be_bytes_def)
  ultimately show ?thesis
    using totp_is_standard[of ?c ?b "[72, 101, 108, 108, 111]" _ "\<lambda>_ m. replicate 12 0 @ m" 90] by fastforce
qed

end
