(* ===== verification/Reverse_Proxy.thy ===== *)
theory Reverse_Proxy
  imports Remote_Access Gateway_Auth
begin

text \<open>
  Nodes that connect to the daemon and serve as gateways (\<^verbatim>\<open>daemon/reverse_proxy.rs\<close>, \<^verbatim>\<open>daemon/reverse_client.rs\<close>).

  The registry is an association list.  Each connection is handled by a task of its own: it checks the name, registers
  the node and then polls it until a poll fails.  The tasks interleave at their accesses to the registry, which
  hold its lock; the daemon's runs are the runs of a step relation over these accesses.  The result of a poll is an
  argument of the step.
\<close>

section \<open>The registry\<close>

record rp_info =
  ri_name :: string
  ri_peer :: "string option"
  ri_fingerprint :: string
  ri_connected_at :: nat
  ri_hostname :: string
  ri_user :: string

text \<open>The gateway of a node is known by the connection that it wraps.\<close>

record rp_node =
  rn_conn :: nat
  rn_info :: rp_info

type_synonym registry = "(string \<times> rp_node) list"

definition registry_new :: registry where
  "registry_new = []"

definition registry_contains :: "string \<Rightarrow> registry \<Rightarrow> bool" where
  "registry_contains n m \<longleftrightarrow> map_of m n \<noteq> None"


definition registry_names :: "registry \<Rightarrow> string list" where
  "registry_names m = map fst m"

record rp_status =
  rt_name :: string
  rt_peer_addr :: string
  rt_fingerprint :: string
  rt_connected_at :: nat
  rt_hostname :: string
  rt_user :: string

definition list_nodes :: "registry \<Rightarrow> rp_status list" where
  "list_nodes m =
    map (\<lambda>(_, n). let i = rn_info n in
      \<lparr>rt_name = ri_name i, rt_peer_addr = (case ri_peer i of Some a \<Rightarrow> a | None \<Rightarrow> []), rt_fingerprint = ri_fingerprint i,
       rt_connected_at = ri_connected_at i, rt_hostname = ri_hostname i, rt_user = ri_user i\<rparr>) m"

definition registry_register :: "string \<Rightarrow> nat \<Rightarrow> rp_info \<Rightarrow> registry \<Rightarrow> string + registry" where
  "registry_register n conn i m =
    (if registry_contains n m then Inl ''reverse proxy node name is already registered''
     else Inr (al_put n \<lparr>rn_conn = conn, rn_info = i\<rparr> m))"

definition registry_unregister :: "string \<Rightarrow> registry \<Rightarrow> registry" where
  "registry_unregister n m = al_del n m"

definition update_node_info :: "string \<Rightarrow> string \<Rightarrow> string \<Rightarrow> registry \<Rightarrow> registry" where
  "update_node_info n hostname user m =
    (case map_of m n of
       None \<Rightarrow> m
     | Some node \<Rightarrow>
         let i = rn_info node;
             i = (if hostname \<noteq> [] then i\<lparr>ri_hostname := hostname\<rparr> else i);
             i = (if user \<noteq> [] then i\<lparr>ri_user := user\<rparr> else i)
         in al_put n (node\<lparr>rn_info := i\<rparr>) m)"

section \<open>The handshake\<close>

text \<open>Where the task of a connection is: before the check of the name, before the registration, before a round of the
  monitor, with a request to the node under way, or at its end.\<close>

datatype rp_phase = Arrived | Checked | Polling | Asking | RpDone "string option"

record rp_task =
  tk_name :: string
  tk_peer :: "string option"
  tk_fingerprint :: string
  tk_phase :: rp_phase

definition handshake_check :: "rp_task \<Rightarrow> registry \<Rightarrow> rp_phase" where
  "handshake_check t m =
    (if tk_name t = [] then RpDone (Some ''reverse proxy node name is empty'')
     else if registry_contains (tk_name t) m then RpDone (Some ''reverse proxy node name is already registered'')
     else Checked)"

definition handshake_register :: "nat \<Rightarrow> nat \<Rightarrow> rp_task \<Rightarrow> registry \<Rightarrow> rp_phase \<times> registry" where
  "handshake_register conn now t m =
    (case registry_register (tk_name t) conn
            \<lparr>ri_name = tk_name t, ri_peer = tk_peer t, ri_fingerprint = tk_fingerprint t, ri_connected_at = now,
             ri_hostname = [], ri_user = []\<rparr> m of
       Inl e \<Rightarrow> (RpDone (Some e), m)
     | Inr m \<Rightarrow> (Polling, m))"

text \<open>The entry in which a node describes itself.\<close>

definition self_entry :: "server_list_response \<Rightarrow> rpc_server_entry option" where
  "self_entry resp =
    Option.bind (slr_merged resp) (\<lambda>merged.
      Option.bind (find (\<lambda>r. case rrow_server r of Some s \<Rightarrow> rse_alias s = ''_self'' | None \<Rightarrow> False) (rml_rows merged))
        rrow_server)"

text \<open>One round of the monitor: the look at the registry, and, when the request to the node has ended, what becomes of the
  node; \<^verbatim>\<open>None\<close> is a request that failed.\<close>

definition monitor_look :: "string \<Rightarrow> registry \<Rightarrow> rp_phase" where
  "monitor_look n m = (if registry_contains n m then Asking else RpDone None)"

definition monitor_poll :: "string \<Rightarrow> server_list_response option \<Rightarrow> registry \<Rightarrow> rp_phase \<times> registry" where
  "monitor_poll n reply m =
    (case reply of
       Some resp \<Rightarrow>
         (Polling, case self_entry resp of Some s \<Rightarrow> update_node_info n (rse_host s) (rse_user s) m | None \<Rightarrow> m)
     | None \<Rightarrow> (RpDone None, registry_unregister n m))"

section \<open>Runs\<close>

record rp_state =
  rp_nodes :: registry
  rp_tasks :: "(nat \<times> rp_task) list"

definition rp_init :: rp_state where
  "rp_init = \<lparr>rp_nodes = registry_new, rp_tasks = []\<rparr>"

datatype rp_event =
    RpAccept nat string "string option" string
  | RpCheck nat
  | RpRegister nat nat
  | RpLook nat
  | RpPoll nat "server_list_response option"

definition set_task :: "nat \<Rightarrow> rp_task \<Rightarrow> rp_phase \<Rightarrow> registry \<Rightarrow> rp_state \<Rightarrow> rp_state" where
  "set_task conn t ph m s = s\<lparr>rp_nodes := m, rp_tasks := al_put conn (t\<lparr>tk_phase := ph\<rparr>) (rp_tasks s)\<rparr>"

inductive rp_step :: "rp_state \<Rightarrow> rp_event \<Rightarrow> rp_state \<Rightarrow> bool" where
  accept: "map_of (rp_tasks s) conn = None \<Longrightarrow>
    rp_step s (RpAccept conn n peer fp)
      (s\<lparr>rp_tasks := al_put conn \<lparr>tk_name = n, tk_peer = peer, tk_fingerprint = fp, tk_phase = Arrived\<rparr> (rp_tasks s)\<rparr>)"
| check: "map_of (rp_tasks s) conn = Some t \<Longrightarrow> tk_phase t = Arrived \<Longrightarrow>
    rp_step s (RpCheck conn) (set_task conn t (handshake_check t (rp_nodes s)) (rp_nodes s) s)"
| register: "map_of (rp_tasks s) conn = Some t \<Longrightarrow> tk_phase t = Checked \<Longrightarrow>
    handshake_register conn now t (rp_nodes s) = (ph, m) \<Longrightarrow> rp_step s (RpRegister conn now) (set_task conn t ph m s)"
| look: "map_of (rp_tasks s) conn = Some t \<Longrightarrow> tk_phase t = Polling \<Longrightarrow>
    rp_step s (RpLook conn) (set_task conn t (monitor_look (tk_name t) (rp_nodes s)) (rp_nodes s) s)"
| poll: "map_of (rp_tasks s) conn = Some t \<Longrightarrow> tk_phase t = Asking \<Longrightarrow>
    monitor_poll (tk_name t) reply (rp_nodes s) = (ph, m) \<Longrightarrow> rp_step s (RpPoll conn reply) (set_task conn t ph m s)"

inductive rp_reach :: "rp_state \<Rightarrow> bool" where
  init: "rp_reach rp_init"
| step: "rp_reach s \<Longrightarrow> rp_step s ev s' \<Longrightarrow> rp_reach s'"

inductive_cases rp_stepE: "rp_step s ev s'"

text \<open>The nodes as the resolver and the server list see them.\<close>

definition reverse_caps :: capabilities where
  "reverse_caps = \<lparr>cap_exec = True, cap_copy = True, cap_proxy = True, cap_list = True\<rparr>"

definition reverse_list_servers :: "string \<Rightarrow> string + server_list_response \<Rightarrow> gateway_error + server_list_row list" where
  "reverse_list_servers n reply =
    (case reply of
       Inl e \<Rightarrow> Inl \<lparr>ge_kind = ETransport, ge_source = ''list_servers RPC failed: '' @ e\<rparr>
     | Inr resp \<Rightarrow> Inr (rows_from_response n resp))"

definition registry_view :: "(nat \<Rightarrow> (string + server_list_response) option) \<Rightarrow> registry \<Rightarrow> (string \<times> node_info \<times> gateway_view) list" where
  "registry_view answers m =
    map (\<lambda>(n, node).
      (n, \<lparr>ni_name = ri_name (rn_info node), ni_hostname = ri_hostname (rn_info node), ni_user = ri_user (rn_info node)\<rparr>,
       \<lparr>gv_kind = KReverseProxy, gv_caps = reverse_caps,
        gv_list = (case answers (rn_conn node) of
                     None \<Rightarrow> ListTimeout
                   | Some reply \<Rightarrow> (case reverse_list_servers n reply of Inl e \<Rightarrow> ListErr e | Inr rows \<Rightarrow> ListOk rows))\<rparr>)) m"

section \<open>The node\<close>

definition client_subsystem :: "string \<Rightarrow> string" where
  "client_subsystem node_name = REVERSE_PROXY_SUBSYSTEM_NAME @ '':'' @ node_name"

text \<open>How an attempt to connect goes: what the network, the key file and the server answer.\<close>

record attempt =
  at_connects :: bool
  at_key_loads :: "string \<Rightarrow> bool"
  at_auth :: "string \<Rightarrow> string \<Rightarrow> auth_result option"
  at_opens :: bool
  at_subsystem :: "string \<Rightarrow> bool"
  at_served :: "string option"

definition connect_and_serve :: "string option \<Rightarrow> string \<Rightarrow> reverse_proxy_client_config \<Rightarrow> attempt \<Rightarrow> string option" where
  "connect_and_serve home shown c a =
    (case parse_remote_target (rv_server_address c) of
       Inl e \<Rightarrow> Some ''failed to parse server_address''
     | Inr tg \<Rightarrow>
         (case normalize_paths home shown (Some (rv_identity_file c)) (Some (rv_known_hosts_path c)) of
            None \<Rightarrow> Some ''failed to normalize paths''
          | Some (identity_file, _) \<Rightarrow>
              if \<not> at_connects a then Some ''SSH connection failed''
              else if \<not> at_key_loads a identity_file then Some ''failed to load key''
              else
                (case at_auth a (tg_user tg) identity_file of
                   None \<Rightarrow> Some ''SSH auth error''
                 | Some (AuthFailure _ _) \<Rightarrow> Some ''publickey authentication failed''
                 | Some AuthOk \<Rightarrow>
                     if \<not> at_opens a then Some ''failed to open session channel''
                     else if \<not> at_subsystem a (client_subsystem (rv_node_name c)) then Some ''failed to start xho-reverse subsystem''
                     else at_served a)))"

text \<open>Each attempt is followed by the delay or by the end of the daemon.\<close>

fun run_reverse_proxy_client ::
  "string option \<Rightarrow> string \<Rightarrow> reverse_proxy_client_config \<Rightarrow> (attempt \<times> bool) list \<Rightarrow> string option list" where
  "run_reverse_proxy_client home shown c [] = []"
| "run_reverse_proxy_client home shown c ((a, shut_down) # as) =
    connect_and_serve home shown c a # (if shut_down then [] else run_reverse_proxy_client home shown c as)"

lemma reverse_name_roundtrip: "reverse_node_name (client_subsystem n) = Some n"
  by (simp add: reverse_node_name_def client_subsystem_def REVERSE_PROXY_SUBSYSTEM_NAME_def)

text \<open>The name in the node's configuration is the one under which the server handles the connection.\<close>

lemma reverse_conn_named:
  assumes "rm_reverse_proxy_enable (remote_of rd)" "ch \<in> set (hn_channels h)"
  shows "\<exists>info h'. subsystem_request ch (client_subsystem n) h rd = (True, Some (ReverseConn n info), h')"
  using assms by (simp add: subsystem_request_def reverse_name_roundtrip Let_def)

section \<open>Who owns a name\<close>

definition owner :: "registry \<Rightarrow> string \<Rightarrow> (nat \<times> string) option" where
  "owner m n = map_option (\<lambda>node. (rn_conn node, ri_name (rn_info node))) (map_of m n)"

text \<open>The tasks that watch a registered node.  Every registered node is watched by the task of its own connection, and every watching task owns its node.\<close>

definition monitors :: "rp_task \<Rightarrow> bool" where
  "monitors t \<longleftrightarrow> tk_phase t = Polling \<or> tk_phase t = Asking"

definition owners_ok :: "(string \<Rightarrow> (nat \<times> string) option) \<Rightarrow> (nat \<Rightarrow> rp_task option) \<Rightarrow> bool" where
  "owners_ok f g \<longleftrightarrow>
    (\<forall>n c x. f n = Some (c, x) \<longrightarrow> n \<noteq> [] \<and> x = n \<and> (\<exists>t. g c = Some t \<and> monitors t \<and> tk_name t = n))
    \<and> (\<forall>c t. g c = Some t \<longrightarrow>
        (monitors t \<longrightarrow> f (tk_name t) = Some (c, tk_name t)) \<and> (tk_phase t = Checked \<longrightarrow> tk_name t \<noteq> []))"

definition rp_inv :: "rp_state \<Rightarrow> bool" where
  "rp_inv s \<longleftrightarrow> distinct (map fst (rp_nodes s)) \<and> owners_ok (owner (rp_nodes s)) (map_of (rp_tasks s))"

lemma owner_update: "owner (update_node_info n h u m) = owner m"
  by (rule ext) (auto simp: owner_def update_node_info_def Let_def split: option.splits)

lemma update_node_info_distinct: "distinct (map fst m) \<Longrightarrow> distinct (map fst (update_node_info n h u m))"
  by (auto simp: update_node_info_def Let_def distinct_al_put split: option.splits)

lemma owner_put: "owner (al_put n node m) = (owner m)(n \<mapsto> (rn_conn node, ri_name (rn_info node)))"
  by (rule ext) (simp add: owner_def)

lemma owner_del: "owner (al_del n m) = (owner m)(n := None)"
  by (rule ext) (simp add: owner_def)

lemma owner_None: "registry_contains n m \<longleftrightarrow> owner m n \<noteq> None"
  by (simp add: registry_contains_def owner_def)

lemma monitor_poll_cases:
  assumes "monitor_poll n reply m = (ph, m')"
  obtains "ph = Polling" "owner m' = owner m" "distinct (map fst m) \<longrightarrow> distinct (map fst m')" "reply \<noteq> None"
    | "ph = RpDone None" "m' = al_del n m" "reply = None"
  using assms
  by (auto simp: monitor_poll_def registry_unregister_def owner_update update_node_info_distinct split: option.splits)

lemma owners_okD:
  assumes "owners_ok f g"
  shows "f n = Some (c, x) \<Longrightarrow> n \<noteq> [] \<and> x = n \<and> (\<exists>t. g c = Some t \<and> monitors t \<and> tk_name t = n)"
    and "g c = Some t \<Longrightarrow> monitors t \<Longrightarrow> f (tk_name t) = Some (c, tk_name t)"
    and "g c = Some t \<Longrightarrow> tk_phase t = Checked \<Longrightarrow> tk_name t \<noteq> []"
  using assms by (simp_all add: owners_ok_def)

lemma owners_okI:
  assumes "\<And>n c x. f n = Some (c, x) \<Longrightarrow> n \<noteq> [] \<and> x = n \<and> (\<exists>t. g c = Some t \<and> monitors t \<and> tk_name t = n)"
    and "\<And>c t. g c = Some t \<Longrightarrow> monitors t \<Longrightarrow> f (tk_name t) = Some (c, tk_name t)"
    and "\<And>c t. g c = Some t \<Longrightarrow> tk_phase t = Checked \<Longrightarrow> tk_name t \<noteq> []"
  shows "owners_ok f g"
  using assms unfolding owners_ok_def by blast

text \<open>A monitor that goes on.\<close>

lemma owners_ok_goes_on:
  assumes "owners_ok f g" "g c = Some t" "monitors t" "monitors t'" "tk_name t' = tk_name t"
  shows "owners_ok f (g(c \<mapsto> t'))"
proof (rule owners_okI)
  fix n c' x
  assume "f n = Some (c', x)"
  from owners_okD(1)[OF assms(1) this] assms(2-5)
  show "n \<noteq> [] \<and> x = n \<and> (\<exists>t. (g(c \<mapsto> t')) c' = Some t \<and> monitors t \<and> tk_name t = n)" by (cases "c' = c") auto
next
  fix c' u
  assume "(g(c \<mapsto> t')) c' = Some u" "monitors u"
  then show "f (tk_name u) = Some (c', tk_name u)"
    using owners_okD(2)[OF assms(1)] assms(2-5) by (cases "c' = c") auto
qed (use assms owners_okD(3)[OF assms(1)] in \<open>auto simp: monitors_def split: if_splits\<close>)

text \<open>A task that neither was nor becomes a monitor.\<close>

lemma owners_ok_idle:
  assumes "owners_ok f g" "\<And>t. g c = Some t \<Longrightarrow> \<not> monitors t" "\<not> monitors t'" "tk_phase t' = Checked \<Longrightarrow> tk_name t' \<noteq> []"
  shows "owners_ok f (g(c \<mapsto> t'))"
proof (rule owners_okI)
  fix n c' x
  assume "f n = Some (c', x)"
  with owners_okD(1)[OF assms(1)] obtain t where t: "n \<noteq> []" "x = n" "g c' = Some t" "monitors t" "tk_name t = n" by blast
  with assms(2) have "c' \<noteq> c" by auto
  with t show "n \<noteq> [] \<and> x = n \<and> (\<exists>t. (g(c \<mapsto> t')) c' = Some t \<and> monitors t \<and> tk_name t = n)" by simp
qed (use assms owners_okD[OF assms(1)] in \<open>auto split: if_splits\<close>)

text \<open>A task that becomes the monitor of a free name, and a monitor that gives up its name.\<close>

lemma owners_ok_claim:
  assumes "owners_ok f g" "f n = None" "n \<noteq> []" "\<And>t. g c = Some t \<Longrightarrow> \<not> monitors t" "monitors t'" "tk_name t' = n"
  shows "owners_ok (f(n \<mapsto> (c, n))) (g(c \<mapsto> t'))"
proof (rule owners_okI)
  fix k c' x
  assume a: "(f(n \<mapsto> (c, n))) k = Some (c', x)"
  show "k \<noteq> [] \<and> x = k \<and> (\<exists>t. (g(c \<mapsto> t')) c' = Some t \<and> monitors t \<and> tk_name t = k)"
  proof (cases "k = n")
    case True
    with a assms show ?thesis by simp
  next
    case False
    with a have "f k = Some (c', x)" by simp
    from owners_okD(1)[OF assms(1) this] obtain t where t: "k \<noteq> []" "x = k" "g c' = Some t" "monitors t" "tk_name t = k"
      by blast
    with assms(4) have "c' \<noteq> c" by auto
    with t show ?thesis by simp
  qed
next
  fix c' t
  assume a: "(g(c \<mapsto> t')) c' = Some t" "monitors t"
  then show "(f(n \<mapsto> (c, n))) (tk_name t) = Some (c', tk_name t)"
    using assms owners_okD(2)[OF assms(1), of c' t] by (cases "c' = c") (auto split: if_splits)
qed (use assms owners_okD[OF assms(1)] in \<open>auto split: if_splits\<close>)

lemma owners_ok_release:
  assumes "owners_ok f g" "f n = Some (c, n)" "tk_phase t' = RpDone e"
  shows "owners_ok (f(n := None)) (g(c \<mapsto> t'))"
proof (rule owners_okI)
  fix k c' x
  assume a: "(f(n := None)) k = Some (c', x)"
  then have k: "k \<noteq> n" "f k = Some (c', x)" by (auto split: if_splits)
  from owners_okD(1)[OF assms(1) k(2)] owners_okD(1)[OF assms(1,2)] k(1) have "c' \<noteq> c" by auto
  with owners_okD(1)[OF assms(1) k(2)] show "k \<noteq> [] \<and> x = k \<and> (\<exists>t. (g(c \<mapsto> t')) c' = Some t \<and> monitors t \<and> tk_name t = k)"
    by simp
next
  fix c' t
  assume a: "(g(c \<mapsto> t')) c' = Some t" "monitors t"
  then have "c' \<noteq> c" "g c' = Some t" using assms(3) by (auto simp: monitors_def split: if_splits)
  then show "(f(n := None)) (tk_name t) = Some (c', tk_name t)"
    using owners_okD(2)[OF assms(1) _ a(2)] assms(2) by (auto split: if_splits)
qed (use assms owners_okD[OF assms(1)] in \<open>auto split: if_splits\<close>)

lemma rp_step_inv:
  assumes "rp_step s ev s'" "rp_inv s"
  shows "rp_inv s'"
proof -
  have inv: "distinct (map fst (rp_nodes s))" "owners_ok (owner (rp_nodes s)) (map_of (rp_tasks s))"
    using assms(2) by (simp_all add: rp_inv_def)
  from assms(1) show ?thesis
  proof cases
    case (accept conn n peer fp)
    with inv show ?thesis by (auto simp: rp_inv_def monitors_def intro!: owners_ok_idle)
  next
    case (check conn t)
    with inv show ?thesis
      by (auto simp: rp_inv_def set_task_def handshake_check_def monitors_def intro!: owners_ok_idle)
  next
    case (register conn t now ph m)
    note free = owners_okD(3)[OF inv(2) register(3,4)]
    show ?thesis
    proof (cases "owner (rp_nodes s) (tk_name t)")
      case None
      with register have "ph = Polling" "m = al_put (tk_name t) \<lparr>rn_conn = conn, rn_info =
            \<lparr>ri_name = tk_name t, ri_peer = tk_peer t, ri_fingerprint = tk_fingerprint t, ri_connected_at = now,
             ri_hostname = [], ri_user = []\<rparr>\<rparr> (rp_nodes s)"
        by (auto simp: handshake_register_def registry_register_def owner_None)
      with inv register None free show ?thesis
        by (auto simp: rp_inv_def set_task_def owner_put distinct_al_put monitors_def intro!: owners_ok_claim)
    next
      case (Some c)
      with inv register show ?thesis
        by (auto simp: rp_inv_def set_task_def handshake_register_def registry_register_def owner_None monitors_def intro!: owners_ok_idle)
    qed
  next
    case (look conn t)
    have mt: "monitors t" using look(4) by (simp add: monitors_def)
    have "owner (rp_nodes s) (tk_name t) = Some (conn, tk_name t)" by (rule owners_okD(2)[OF inv(2) look(3) mt])
    then have "monitor_look (tk_name t) (rp_nodes s) = Asking" by (simp add: monitor_look_def owner_None)
    with inv look mt show ?thesis
      by (auto simp: rp_inv_def set_task_def monitors_def intro!: owners_ok_goes_on[OF inv(2) look(3)])
  next
    case (poll conn t reply ph m)
    have mt: "monitors t" using poll(4) by (simp add: monitors_def)
    have own: "owner (rp_nodes s) (tk_name t) = Some (conn, tk_name t)"
      by (rule owners_okD(2)[OF inv(2) poll(3) mt])
    from poll(5) show ?thesis
    proof (cases rule: monitor_poll_cases)
      case 1
      with inv poll mt show ?thesis
        by (auto simp: rp_inv_def set_task_def monitors_def intro!: owners_ok_goes_on[OF inv(2) poll(3)])
    next
      case 2
      with inv poll own show ?thesis
        by (auto simp: rp_inv_def set_task_def owner_del distinct_al_del intro!: owners_ok_release)
    qed
  qed
qed

lemma rp_reach_inv: "rp_reach s \<Longrightarrow> rp_inv s"
proof (induction rule: rp_reach.induct)
  case init
  show ?case by (simp add: rp_init_def registry_new_def rp_inv_def owners_ok_def owner_def)
qed (rule rp_step_inv)

section \<open>Properties\<close>


definition demo_node_state :: rp_state where
  "demo_node_state =
    \<lparr>rp_nodes = [(''n'', \<lparr>rn_conn = 0, rn_info = \<lparr>ri_name = ''n'', ri_peer = None, ri_fingerprint = ''f'', ri_connected_at = 5,
        ri_hostname = [], ri_user = []\<rparr>\<rparr>)],
     rp_tasks = [(0, \<lparr>tk_name = ''n'', tk_peer = None, tk_fingerprint = ''f'', tk_phase = Asking\<rparr>)]\<rparr>"

lemma demo_node_reachable: "rp_reach demo_node_state"
proof -
  let ?t = "\<lambda>p. \<lparr>tk_name = ''n'', tk_peer = None, tk_fingerprint = ''f'', tk_phase = p\<rparr>"
  have 1: "rp_reach \<lparr>rp_nodes = [], rp_tasks = [(0, ?t Arrived)]\<rparr>"
    using rp_reach.step[OF rp_reach.init rp_step.accept[of rp_init 0 "''n''" None "''f''"]] by (simp add: rp_init_def registry_new_def)
  have 2: "rp_reach \<lparr>rp_nodes = [], rp_tasks = [(0, ?t Checked)]\<rparr>"
    using rp_reach.step[OF 1 rp_step.check[of _ 0 "?t Arrived"]] by (simp add: set_task_def handshake_check_def registry_contains_def)
  have 3: "rp_reach \<lparr>rp_nodes = rp_nodes demo_node_state, rp_tasks = [(0, ?t Polling)]\<rparr>"
    using rp_reach.step[OF 2 rp_step.register[of _ 0 "?t Checked" 5 Polling "rp_nodes demo_node_state"]]
    by (simp add: set_task_def handshake_register_def registry_register_def registry_contains_def demo_node_state_def)
  show ?thesis
    using rp_reach.step[OF 3 rp_step.look[of _ 0 "?t Polling"]]
    by (simp add: set_task_def monitor_look_def registry_contains_def demo_node_state_def)
qed


text \<open>C30. The nodes of every reachable state can be used by the resolver: added to static gateways that report sources
  below their own names, they make up a view in which every listed server leads to a gateway, provided the names of the
  nodes hold no colon, which the handshake does not check.\<close>

theorem reachable_nodes_resolvable:
  assumes "rp_reach s" "view_ok \<lparr>dv_gateways = gws, dv_nodes = []\<rparr>" "\<forall>n \<in> set (registry_names (rp_nodes s)). CHR '':'' \<notin> set n"
  shows "view_ok \<lparr>dv_gateways = gws, dv_nodes = registry_view answers (rp_nodes s)\<rparr>"
proof -
  have inv: "owners_ok (owner (rp_nodes s)) (map_of (rp_tasks s))" "distinct (map fst (rp_nodes s))"
    using rp_reach_inv[OF assms(1)] by (simp_all add: rp_inv_def)
  have "ri_name (rn_info node) = n" if "(n, node) \<in> set (rp_nodes s)" for n node
  proof -
    from that inv(2) have "owner (rp_nodes s) n = Some (rn_conn node, ri_name (rn_info node))" by (simp add: owner_def)
    from owners_okD(1)[OF inv(1) this] show ?thesis by simp
  qed
  moreover have "CHR '':'' \<notin> set n" if "(n, node) \<in> set (rp_nodes s)" for n node
    using assms(3) that by (force simp: registry_names_def)
  moreover have "list_all (\<lambda>row. rooted n (row_source row)) rows" if "reverse_list_servers n reply = Inr rows" for n reply rows
    using that rows_from_response_rooted[of _ n] by (auto simp: reverse_list_servers_def list_all_iff split: sum.splits)
  ultimately show ?thesis
    using assms(2)
    by (auto simp: view_ok_def registry_view_def list_all_iff gateway_rooted_def split: option.splits sum.splits)
qed

theorem reachable_nodes_resolvable_witness:
  "view_ok \<lparr>dv_gateways = [(''local'', \<lparr>gv_kind = KDirect, gv_caps = reverse_caps, gv_list = ListOk []\<rparr>)],
    dv_nodes = registry_view (\<lambda>_. None) (rp_nodes demo_node_state)\<rparr>"
  by (rule reachable_nodes_resolvable[OF demo_node_reachable])
    (simp_all add: view_ok_def gateway_rooted_def registry_names_def demo_node_state_def)

end
