(* ===== verification/Config_Admin.thy ===== *)
theory Config_Admin
  imports Gateway_Auth Secret_Vault
begin

text \<open>
  Changing the configuration of a daemon: the calls of the daemon (\<^verbatim>\<open>update_config\<close>, \<^verbatim>\<open>reload_config\<close>,
  \<^verbatim>\<open>list_gateways\<close>, \<^verbatim>\<open>shutdown\<close> in \<^verbatim>\<open>daemon/mod.rs\<close>), the gateways that a daemon builds (\<^verbatim>\<open>daemon/gateway/mod.rs\<close>), and the
  commands that edit the file directly (\<^verbatim>\<open>cli/host.rs\<close>).

  Reading and printing TOML are arguments, as are the answers of the network and of the user.  Calls run one after
  the other.
\<close>

section \<open>The daemon\<close>

datatype daemon_origin = CliSpawned | ExternalOrigin

fun origin_str :: "daemon_origin \<Rightarrow> string" where
  "origin_str CliSpawned = ''cli_spawned''"
| "origin_str ExternalOrigin = ''external''"

fun cli_controllable :: "daemon_origin \<Rightarrow> bool" where
  "cli_controllable CliSpawned = True"
| "cli_controllable ExternalOrigin = False"

record admin_env =
  an_show :: "app_config \<Rightarrow> string option"
  an_parse :: "string \<Rightarrow> app_config option"
  an_home :: "string option"
  an_root :: bool
  an_pid :: nat

record admin_daemon =
  dm_config_path :: local_path
  dm_config :: app_config
  dm_disk :: disk
  dm_audit :: audit_sink
  dm_origin :: daemon_origin
  dm_stopping :: bool

definition load_config :: "admin_env \<Rightarrow> local_path \<Rightarrow> disk \<Rightarrow> (load_error + app_config) \<times> disk" where
  "load_config an path d =
    (case read_state path d of
       (st, d) \<Rightarrow> (load_app_config (an_parse an) (an_home an) (an_root an) (Some path) (\<lambda>_. st), d))"

definition reload_config :: "admin_env \<Rightarrow> admin_daemon \<Rightarrow> admin_daemon" where
  "reload_config an dm =
    (case load_config an (dm_config_path dm) (dm_disk dm) of
       (Inl _, d) \<Rightarrow> dm\<lparr>dm_disk := d\<rparr>
     | (Inr new, d) \<Rightarrow>
         if validate_gateways (ap_gateways new) \<noteq> None then dm\<lparr>dm_disk := d\<rparr>
         else dm\<lparr>dm_disk := d, dm_config := (dm_config dm)\<lparr>ap_gateways := ap_gateways new, ap_audit := ap_audit new\<rparr>,
                 dm_audit := apply_audit_config (ap_audit new) (dm_audit dm)\<rparr>)"

definition atomic_write_config :: "admin_env \<Rightarrow> admin_daemon \<Rightarrow> string option \<times> admin_daemon" where
  "atomic_write_config an dm =
    (case an_show an (dm_config dm) of
       None \<Rightarrow> (Some ''failed to serialize config to TOML'', dm)
     | Some toml \<Rightarrow>
         (case parent_dir (dm_config_path dm) of
            None \<Rightarrow> (Some ''config path has no parent directory'', dm)
          | Some dir \<Rightarrow>
              let tmp = path_push dir (''.config.toml.tmp.'' @ show_nat (an_pid an))
              in case fs_write tmp toml (dm_disk dm) of
                   (False, d) \<Rightarrow> (Some ''failed to write temp config'', dm\<lparr>dm_disk := d\<rparr>)
                 | (True, d) \<Rightarrow>
                     (case fs_rename tmp (dm_config_path dm) d of
                        (False, d) \<Rightarrow> (Some ''failed to rename'', dm\<lparr>dm_disk := d\<rparr>)
                      | (True, d) \<Rightarrow> (None, dm\<lparr>dm_disk := d\<rparr>))))"

record update_request =
  uq_mutation :: string
  uq_name :: string
  uq_kind :: string
  uq_address :: string
  uq_identity_file :: string
  uq_known_hosts :: string

definition set_gateways :: "gateway_config list \<Rightarrow> admin_daemon \<Rightarrow> admin_daemon" where
  "set_gateways gs dm = dm\<lparr>dm_config := (dm_config dm)\<lparr>ap_gateways := gs\<rparr>\<rparr>"

definition without_gateway :: "string \<Rightarrow> gateway_config list \<Rightarrow> gateway_config list" where
  "without_gateway n gs = filter (\<lambda>g. gc_name g \<noteq> n) gs"

text \<open>The answer: success and a message.\<close>

definition add_gateway :: "admin_env \<Rightarrow> update_request \<Rightarrow> admin_daemon \<Rightarrow> (bool \<times> string) \<times> admin_daemon" where
  "add_gateway an req dm =
    (let n = trim (uq_name req) in
     if n = [] then ((False, ''name must not be empty''), dm)
     else if n \<in> set RESERVED_NAMES then ((False, ''name is reserved''), dm)
     else if list_ex (\<lambda>g. gc_name g = n) (ap_gateways (dm_config dm)) then ((False, ''name is already used''), dm)
     else if trim (uq_kind req) \<noteq> ''xhod'' then ((False, ''add_gateway via RPC only supports kind xhod''), dm)
     else
       (let new = XhodConfig \<lparr>xg_name = n, xg_address = uq_address req, xg_identity_file = uq_identity_file req,
                              xg_known_hosts_path = uq_known_hosts req\<rparr>
        in case atomic_write_config an (set_gateways (ap_gateways (dm_config dm) @ [new]) dm) of
             (Some e, dm) \<Rightarrow>
               ((False, ''failed to write config''), set_gateways (without_gateway n (ap_gateways (dm_config dm))) dm)
           | (None, dm) \<Rightarrow> ((True, ''gateway added successfully''), reload_config an dm)))"

definition remove_gateway :: "admin_env \<Rightarrow> update_request \<Rightarrow> admin_daemon \<Rightarrow> (bool \<times> string) \<times> admin_daemon" where
  "remove_gateway an req dm =
    (let n = trim (uq_name req) in
     if n = [] then ((False, ''name must not be empty''), dm)
     else
       (let before = ap_gateways (dm_config dm); left = without_gateway n before; dm = set_gateways left dm
        in if length before = length left then ((False, ''gateway not found''), dm)
           else (case atomic_write_config an dm of
                   (Some e, dm) \<Rightarrow> ((False, ''failed to write config''), reload_config an dm)
                 | (None, dm) \<Rightarrow> ((True, ''gateway removed successfully''), reload_config an dm))))"

definition update_config :: "admin_env \<Rightarrow> update_request \<Rightarrow> admin_daemon \<Rightarrow> (bool \<times> string) \<times> admin_daemon" where
  "update_config an req dm =
    (if uq_mutation req = ''add_gateway'' then add_gateway an req dm
     else if uq_mutation req = ''remove_gateway'' then remove_gateway an req dm
     else ((False, ''unknown mutation_type''), dm))"

text \<open>What \<^verbatim>\<open>list_gateways\<close> and \<^verbatim>\<open>status\<close> say of a configured gateway.\<close>

fun gateway_status_row :: "gateway_config \<Rightarrow> string \<times> string \<times> string" where
  "gateway_status_row (XhodConfig c) = (xg_name c, ''xhod'', xg_address c)"
| "gateway_status_row (JumpserverConfig c) = (jg_name c, ''jumpserver'', jg_host c @ '':'' @ show_nat (jg_port c))"
| "gateway_status_row (DirectConfig c) = (dg_name c, ''direct'', dg_host c @ '':'' @ show_nat (dg_port c))"

definition list_gateways :: "admin_daemon \<Rightarrow> (string \<times> string \<times> string) list" where
  "list_gateways dm = map gateway_status_row (ap_gateways (dm_config dm))"

definition shutdown_daemon :: "admin_daemon \<Rightarrow> string option \<times> admin_daemon" where
  "shutdown_daemon dm =
    (if \<not> cli_controllable (dm_origin dm) then (Some ''daemon is externally managed and cannot be stopped/restarted by CLI'', dm)
     else (None, dm\<lparr>dm_stopping := True\<rparr>))"

section \<open>The gateways of a daemon\<close>

text \<open>A direct gateway is built from the path of the server file; nothing else of its configuration is used.\<close>

datatype gateway_object =
    DirectGateway string string nat nat
  | XhodGateway xhod_gateway_config nat nat
  | JumpserverGateway jumpserver_gateway_config nat

definition build_gateways :: "ssh_config \<Rightarrow> gateway_config list \<Rightarrow> (string \<times> gateway_object) list" where
  "build_gateways ssh gs =
    (''local'', DirectGateway ''local'' (sh_server_config_path ssh) (sh_max_connections_per_ip ssh) (sh_max_idle_time ssh))
    # map (\<lambda>g. (gc_name g,
        case g of
          XhodConfig c \<Rightarrow> XhodGateway c (sh_max_idle_time ssh) (sh_keepalive_interval ssh)
        | JumpserverConfig c \<Rightarrow> JumpserverGateway c (sh_max_idle_time ssh)
        | DirectConfig c \<Rightarrow>
            DirectGateway (dg_name c) (sh_server_config_path ssh) (sh_max_connections_per_ip ssh) (sh_max_idle_time ssh))) gs"

section \<open>The command line\<close>

datatype host_outcome = HostExit nat | HostError string

definition load_or_default :: "admin_env \<Rightarrow> local_path \<Rightarrow> disk \<Rightarrow> app_config \<times> disk" where
  "load_or_default an path d =
    (case load_config an path d of
       (Inr c, d) \<Rightarrow> (c, d)
     | (Inl _, d) \<Rightarrow> (default_app_config (an_root an), d))"

definition write_config :: "admin_env \<Rightarrow> local_path \<Rightarrow> app_config \<Rightarrow> disk \<Rightarrow> string option \<times> disk" where
  "write_config an path c d =
    (case an_show an c of
       None \<Rightarrow> (Some ''failed to serialize config'', d)
     | Some raw \<Rightarrow>
         (case (case parent_dir path of Some _ \<Rightarrow> fs_touch d | None \<Rightarrow> (True, d)) of
            (False, d) \<Rightarrow> (Some ''failed to create directory'', d)
          | (True, d) \<Rightarrow> (case fs_write path raw d of (True, d) \<Rightarrow> (None, d) | (False, d) \<Rightarrow> (Some ''failed to write'', d))))"

definition resolve_token :: "string option \<Rightarrow> string option \<Rightarrow> string + string option" where
  "resolve_token arg prompted =
    (case (case arg of Some t \<Rightarrow> Some t | None \<Rightarrow> prompted) of
       None \<Rightarrow> Inl ''prompt failed''
     | Some t \<Rightarrow> Inr (if trim t = [] then None else Some (trim t)))"

text \<open>The network and the user: the server's host key (its algorithm and fingerprint) if it could be fetched with the
  identity file, whether it is in the known hosts, whether the user trusts it, whether it could be recorded, the token typed
  at the prompt, and whether the bootstrap at an address with a token and an identity file succeeds.\<close>

record host_world =
  hw_host_key :: "remote_target \<Rightarrow> string \<Rightarrow> (string \<times> string) option"
  hw_known :: "remote_target \<Rightarrow> string \<Rightarrow> known_hosts_check"
  hw_trusts :: bool
  hw_recorded :: bool
  hw_token_prompt :: "string option"
  hw_bootstraps :: "string \<Rightarrow> string \<Rightarrow> string \<Rightarrow> bool"
  hw_shown_known_hosts :: string

definition trust_flow :: "host_world \<Rightarrow> remote_target \<Rightarrow> string \<Rightarrow> string \<Rightarrow> string option" where
  "trust_flow w tg identity known_hosts =
    (case hw_host_key w tg identity of
       None \<Rightarrow> Some ''failed to fetch the host key''
     | Some (algorithm, fingerprint) \<Rightarrow>
         (case inspect_known_host (hw_known w tg known_hosts) algorithm fingerprint of
            Known \<Rightarrow> None
          | Unknown _ _ \<Rightarrow>
              if \<not> hw_trusts w then Some ''host key not trusted''
              else if \<not> hw_recorded w then Some ''failed to write known_hosts'' else None
          | Changed _ _ \<Rightarrow> Some ''host key changed; refusing to connect''))"

definition connect_checked ::
  "admin_env \<Rightarrow> host_world \<Rightarrow> string option \<Rightarrow> string option \<Rightarrow> string option \<Rightarrow> string \<Rightarrow> string + string \<times> string" where
  "connect_checked an w identity_override known_hosts_override token_arg addr =
    (case normalize_paths (an_home an) (hw_shown_known_hosts w) identity_override known_hosts_override of
       None \<Rightarrow> Inl ''HOME is not set''
     | Some (identity, known_hosts) \<Rightarrow>
         (case parse_remote_target addr of
            Inl e \<Rightarrow> Inl e
          | Inr tg \<Rightarrow>
              (case trust_flow w tg identity known_hosts of
                 Some e \<Rightarrow> Inl e
               | None \<Rightarrow>
                   (case resolve_token token_arg (hw_token_prompt w) of
                      Inl e \<Rightarrow> Inl e
                    | Inr None \<Rightarrow> Inr (identity, known_hosts)
                    | Inr (Some t) \<Rightarrow>
                        if hw_bootstraps w addr t identity then Inr (identity, known_hosts) else Inl ''bootstrap failed''))))"

definition remote_connect ::
  "admin_env \<Rightarrow> host_world \<Rightarrow> string \<Rightarrow> string \<Rightarrow> string option \<Rightarrow> string option \<Rightarrow> string option \<Rightarrow> disk \<Rightarrow> host_outcome \<times> disk" where
  "remote_connect an w n addr identity_override known_hosts_override token_arg d =
    (if n \<in> set RESERVED_NAMES then (HostExit 1, d)
     else
       (let path = default_config_path (an_home an) in
        case load_or_default an path d of
          (c, d) \<Rightarrow>
            if list_ex (\<lambda>g. gc_name g = n) (ap_gateways c) then (HostExit 1, d)
            else
              (case parse_address addr \<lparr>ad_user = ''xho'', ad_port = 2222\<rparr> of
                 Inl _ \<Rightarrow> (HostExit 1, d)
               | Inr ra \<Rightarrow>
                   (case connect_checked an w identity_override known_hosts_override token_arg (format_address ra) of
                      Inl e \<Rightarrow> (HostError e, d)
                    | Inr (identity, known_hosts) \<Rightarrow>
                        (case load_or_default an path d of
                           (c, d) \<Rightarrow>
                             (case write_config an path
                                     (c\<lparr>ap_gateways := ap_gateways c @ [XhodConfig \<lparr>xg_name = n, xg_address = format_address ra,
                                        xg_identity_file = identity, xg_known_hosts_path = known_hosts\<rparr>]\<rparr>) d of
                                (Some e, d) \<Rightarrow> (HostError e, d)
                              | (None, d) \<Rightarrow> (HostExit 0, d)))))))"

definition remote_login :: "admin_env \<Rightarrow> host_world \<Rightarrow> string \<Rightarrow> string option \<Rightarrow> disk \<Rightarrow> host_outcome \<times> disk" where
  "remote_login an w n token_arg d =
    (case load_or_default an (default_config_path (an_home an)) d of
       (c, d) \<Rightarrow>
         (case find (\<lambda>g. gc_name g = n) (ap_gateways c) of
            None \<Rightarrow> HostExit 127
          | Some (XhodConfig x) \<Rightarrow>
              (case resolve_token token_arg (hw_token_prompt w) of
                 Inl e \<Rightarrow> HostError e
               | Inr None \<Rightarrow> HostExit 1
               | Inr (Some t) \<Rightarrow>
                   if hw_bootstraps w (xg_address x) t (xg_identity_file x) then HostExit 0 else HostError ''bootstrap failed'')
          | Some _ \<Rightarrow> HostExit 1, d))"

definition remote_remove :: "admin_env \<Rightarrow> string \<Rightarrow> disk \<Rightarrow> host_outcome \<times> disk" where
  "remote_remove an n d =
    (case load_or_default an (default_config_path (an_home an)) d of
       (c, d) \<Rightarrow>
         (case find (\<lambda>g. gc_name g = n) (ap_gateways c) of
            None \<Rightarrow> (HostExit 1, d)
          | Some g \<Rightarrow>
              if gc_kind g \<noteq> KXhod then (HostExit 1, d)
              else (case write_config an (default_config_path (an_home an)) (c\<lparr>ap_gateways := without_gateway n (ap_gateways c)\<rparr>) d of
                      (Some e, d) \<Rightarrow> (HostError e, d)
                    | (None, d) \<Rightarrow> (HostExit 0, d))))"

definition remote_list :: "admin_env \<Rightarrow> disk \<Rightarrow> (string \<times> gateway_kind \<times> string) list \<times> disk" where
  "remote_list an d =
    (case load_or_default an (default_config_path (an_home an)) d of
       (c, d) \<Rightarrow> (map (\<lambda>g. (gc_name g, gc_kind g, snd (snd (gateway_status_row g)))) (ap_gateways c), d))"

section \<open>The TOML file\<close>

text \<open>What is printed is read back, but for the directory of the configuration, which is not written.  The law is about the
  configurations that occur: a fallback entry that holds the text \<^verbatim>\<open>local\<close> as the name of a gateway would be read back as the local one, and a fraction of a second in a
  duration would be dropped, but neither reading a file nor the operations below produce the former, and durations are whole seconds here.\<close>

definition toml_laws :: "admin_env \<Rightarrow> bool" where
  "toml_laws an \<longleftrightarrow> (\<forall>c raw. an_show an c = Some raw \<longrightarrow> an_parse an raw = Some (c\<lparr>ap_config_dir := None\<rparr>))"

definition config_temp :: "admin_env \<Rightarrow> local_path \<Rightarrow> local_path option" where
  "config_temp an path = map_option (\<lambda>dir. path_push dir (''.config.toml.tmp.'' @ show_nat (an_pid an))) (parent_dir path)"

lemma load_config_files: "load_config an path d = (r, d') \<Longrightarrow> dk_files d' = dk_files d"
  by (auto simp: load_config_def dest: read_state_files split: prod.splits)

lemma load_or_default_files: "load_or_default an path d = (c, d') \<Longrightarrow> dk_files d' = dk_files d"
  by (auto simp: load_or_default_def dest: load_config_files split: prod.splits sum.splits)

lemma load_config_contents:
  assumes "dk_files d path = Some raw" "an_parse an raw = Some c" "dk_faults d = []"
  shows "load_config an path d =
    (case expand_paths (an_home an) (c\<lparr>ap_config_dir := parent_dir path\<rparr>) of
       None \<Rightarrow> Inl NoHome
     | Some c \<Rightarrow> (case validate_app c of Some e \<Rightarrow> Inl (Invalid e) | None \<Rightarrow> Inr c), d)"
  using assms by (simp add: load_config_def read_state_def path_exists_def fs_read_def next_fault_def load_app_config_def)

lemma reload_config_files:
  "dk_files (dm_disk (reload_config an dm)) = dk_files (dm_disk dm)"
  "dm_config_path (reload_config an dm) = dm_config_path dm"
  by (auto simp: reload_config_def dest: load_config_files split: prod.splits sum.splits)

lemma set_gateways_simps [simp]:
  "dm_disk (set_gateways gs dm) = dm_disk dm" "dm_config_path (set_gateways gs dm) = dm_config_path dm"
  "dm_config (set_gateways gs dm) = (dm_config dm)\<lparr>ap_gateways := gs\<rparr>"
  by (simp_all add: set_gateways_def)

lemma atomic_write_config_files:
  assumes "atomic_write_config an dm = (r, dm')" "config_temp an (dm_config_path dm) \<noteq> Some (dm_config_path dm)"
  shows "dm_config dm' = dm_config dm" "dm_config_path dm' = dm_config_path dm"
    "case r of
       Some _ \<Rightarrow> dk_files (dm_disk dm') (dm_config_path dm) = dk_files (dm_disk dm) (dm_config_path dm)
     | None \<Rightarrow> \<exists>raw. an_show an (dm_config dm) = Some raw \<and> dk_files (dm_disk dm') (dm_config_path dm) = Some raw"
  using assms
  by (auto simp: atomic_write_config_def config_temp_def Let_def dest!: fs_write_files fs_rename_files
      split: option.splits prod.splits bool.splits if_splits)

text \<open>The gateways that a request asks for.\<close>

definition requested_gateways :: "update_request \<Rightarrow> gateway_config list \<Rightarrow> gateway_config list" where
  "requested_gateways req gs =
    (if uq_mutation req = ''add_gateway''
     then gs @ [XhodConfig \<lparr>xg_name = trim (uq_name req), xg_address = uq_address req,
                            xg_identity_file = uq_identity_file req, xg_known_hosts_path = uq_known_hosts req\<rparr>]
     else without_gateway (trim (uq_name req)) gs)"

lemma update_config_files:
  assumes "update_config an req dm = ((ok, msg), dm')" "config_temp an (dm_config_path dm) \<noteq> Some (dm_config_path dm)"
  shows "if ok
    then \<exists>raw. an_show an ((dm_config dm)\<lparr>ap_gateways := requested_gateways req (ap_gateways (dm_config dm))\<rparr>) = Some raw
      \<and> dk_files (dm_disk dm') (dm_config_path dm) = Some raw
    else dk_files (dm_disk dm') (dm_config_path dm) = dk_files (dm_disk dm) (dm_config_path dm)"
  using assms
  by (auto simp: update_config_def add_gateway_def remove_gateway_def Let_def requested_gateways_def reload_config_files
      dest!: atomic_write_config_files(3) split: if_splits option.splits prod.splits)

lemma without_gateway_append:
  "\<not> list_ex (\<lambda>g. gc_name g = n) gs \<Longrightarrow> gc_name g = n \<Longrightarrow> without_gateway n (gs @ [g]) = gs"
  by (auto simp: without_gateway_def list_ex_iff filter_id_conv)

lemma add_gateway_refused:
  assumes "add_gateway an req dm = ((False, msg), dm')" "config_temp an (dm_config_path dm) \<noteq> Some (dm_config_path dm)"
  shows "dm_config dm' = dm_config dm"
  using assms
  by (auto simp: add_gateway_def Let_def without_gateway_append
      dest!: atomic_write_config_files(1) split: if_splits option.splits prod.splits)

section \<open>Expansion\<close>

lemma expand_tilde_again:
  assumes "expand_tilde (Some h) v = Some p" "starts_with h ''/''"
  shows "expand_tilde (Some h) p = Some p"
  using assms by (cases h)
    (auto simp: expand_tilde_def os_path_join_def starts_with_def strip_prefix_Some split: option.splits if_splits)

lemma expand_opt_again:
  assumes "expand_opt (Some h) v = Some p" "starts_with h ''/''"
  shows "expand_opt (Some h) p = Some p"
  using assms by (auto simp: expand_opt_def expand_tilde_again split: option.splits)

lemma expand_gateway_again:
  assumes "expand_gateway (Some h) g = Some g'" "starts_with h ''/''"
  shows "expand_gateway (Some h) g' = Some g'"
  using assms by (cases g) (auto simp: bind_eq_Some_conv expand_tilde_again)

lemma expand_gateways_again:
  assumes "those (map (expand_gateway (Some h)) gs) = Some gs'" "starts_with h ''/''"
  shows "those (map (expand_gateway (Some h)) gs') = Some gs'"
  using assms by (induction gs arbitrary: gs') (auto simp: expand_gateway_again split: option.splits)

lemma expand_paths_again:
  assumes "expand_paths (Some h) c = Some c'" "starts_with h ''/''"
    "those (map (expand_gateway (Some h)) gs) = Some gs"
  shows "expand_paths (Some h) (c'\<lparr>ap_gateways := gs, ap_config_dir := dir\<rparr>) = Some (c'\<lparr>ap_gateways := gs, ap_config_dir := dir\<rparr>)"
  using assms
  by (auto simp: expand_paths_def expand_local_server_def expand_remote_server_def expand_proxy_server_def
      expand_reverse_proxy_def bind_eq_Some_conv expand_tilde_again expand_opt_again)

lemma load_config_expanded:
  assumes "load_config an path d = (Inr c, d')"
  shows "(\<exists>c0. expand_paths (an_home an) c0 = Some c) \<and> validate_app c = None \<and> ap_config_dir c = parent_dir path"
proof -
  have l: "\<exists>st. load_app_config (an_parse an) (an_home an) (an_root an) (Some path) (\<lambda>_. st) = Inr c"
    using assms by (auto simp: load_config_def split: prod.splits)
  then have "\<exists>c0. expand_paths (an_home an) c0 = Some c"
    by (fastforce simp: load_app_config_def Let_def split: file_state.splits option.splits)
  with l show ?thesis using load_app_config_valid by fastforce
qed

lemma expanded_gateways:
  "expand_paths home c0 = Some c \<Longrightarrow> \<exists>gs. those (map (expand_gateway home) gs) = Some (ap_gateways c)"
  by (auto simp: expand_paths_def bind_eq_Some_conv)

lemma those_append:
  "those xs = Some ys \<Longrightarrow> those (xs @ [Some y]) = Some (ys @ [y])"
  by (induction xs arbitrary: ys) (auto split: option.splits)

lemma validate_app_more_gateways:
  assumes "validate_app c = None" "gateway_fields_ok g" "gc_name g \<notin> set (map gc_name (ap_gateways c))"
  shows "validate_app (c\<lparr>ap_gateways := ap_gateways c @ [g], ap_config_dir := dir\<rparr>) = None"
  using assms by (auto simp: validate_app_def first_error_None validate_gateways_None validate_fallback_None)

text \<open>A configuration that was loaded, with one more gateway, is written and loaded again.\<close>

lemma appended_gateway_loads:
  assumes laws: "toml_laws an" and home: "an_home an = Some h" "starts_with h ''/''"
    and c: "load_config an path d = (Inr c, d')"
    and g: "gateway_fields_ok g" "expand_gateway (Some h) g = Some g" "gc_name g \<notin> set (map gc_name (ap_gateways c))"
    and shown: "an_show an (c\<lparr>ap_gateways := ap_gateways c @ [g]\<rparr>) = Some raw"
    and disk: "dk_files d2 path = Some raw" "dk_faults d2 = []"
  shows "load_config an path d2 = (Inr (c\<lparr>ap_gateways := ap_gateways c @ [g]\<rparr>), d2)"
proof -
  obtain c0 where c0: "expand_paths (Some h) c0 = Some c" and v: "validate_app c = None" and dir: "ap_config_dir c = parent_dir path"
    using load_config_expanded[OF c] home(1) by auto
  have "those (map (expand_gateway (Some h)) (ap_gateways c)) = Some (ap_gateways c)"
    using expanded_gateways[OF c0] expand_gateways_again home(2) by blast
  then have gs: "those (map (expand_gateway (Some h)) (ap_gateways c @ [g])) = Some (ap_gateways c @ [g])"
    using g(2) by (simp add: those_append)
  have "an_parse an raw = Some (c\<lparr>ap_gateways := ap_gateways c @ [g], ap_config_dir := None\<rparr>)"
    using laws shown by (fastforce simp: toml_laws_def)
  from load_config_contents[OF disk(1) this disk(2)] expand_paths_again[OF c0 home(2) gs, of "parent_dir path"]
    validate_app_more_gateways[OF v g(1,3), of "parent_dir path"]
  show ?thesis using home dir by simp
qed

lemma no_fault_calls:
  assumes "dk_faults d = []"
  shows "fs_write p c d = (True, put_file p (Some c) d)" "fs_touch d = (True, d)"
    "fs_rename p q d = (case dk_files d p of None \<Rightarrow> (False, d)
       | Some c \<Rightarrow> (True, put_file q (Some c) (if p = q then d else put_file p None d)))"
    "fs_read p d = (dk_files d p, d)"
  using assms by (simp_all add: fs_write_def fs_touch_def fs_rename_def fs_read_def next_fault_def)

lemma no_fault_put [simp]: "dk_faults (put_file p c d) = dk_faults d" "dk_files (put_file p c d) = (dk_files d)(p := c)"
  by (simp_all add: put_file_def)

lemma no_fault_load: "dk_faults d = [] \<Longrightarrow> load_config an path d = (r, d') \<Longrightarrow> d' = d"
  by (auto simp: load_config_def read_state_def no_fault_calls split: if_splits option.splits)

lemma no_fault_load_or_default: "dk_faults d = [] \<Longrightarrow> snd (load_or_default an path d) = d"
  using no_fault_load by (fastforce simp: load_or_default_def split: prod.splits sum.splits)

lemma normalized_expanded:
  assumes "normalize_paths (Some h) shown i k = Some (identity, known)" "starts_with h ''/''"
  shows "expand_tilde (Some h) identity = Some identity" "expand_tilde (Some h) known = Some known"
  using assms by (auto simp: normalize_paths_def bind_eq_Some_conv expand_tilde_again)

text \<open>What a successful \<^verbatim>\<open>xho host add\<close> did, the disk obeying.\<close>

lemma remote_connect_wrote:
  assumes ok: "remote_connect an w n addr i k t d = (HostExit 0, d')" and quiet: "dk_faults d = []"
    and c: "fst (load_or_default an (default_config_path (an_home an)) d) = c"
  shows "\<exists>a identity known raw. n \<notin> set RESERVED_NAMES \<and> n \<notin> set (map gc_name (ap_gateways c))
    \<and> parse_address addr \<lparr>ad_user = ''xho'', ad_port = 2222\<rparr> = Inr a
    \<and> normalize_paths (an_home an) (hw_shown_known_hosts w) i k = Some (identity, known)
    \<and> an_show an (c\<lparr>ap_gateways := ap_gateways c @ [XhodConfig \<lparr>xg_name = n, xg_address = format_address a,
         xg_identity_file = identity, xg_known_hosts_path = known\<rparr>]\<rparr>) = Some raw
    \<and> d' = put_file (default_config_path (an_home an)) (Some raw) d"
proof -
  have l: "load_or_default an (default_config_path (an_home an)) d = (c, d)"
    using c no_fault_load_or_default[OF quiet] by (metis prod.collapse)
  show ?thesis
    using ok
    by (auto simp: remote_connect_def l Let_def list_ex_iff connect_checked_def write_config_def quiet no_fault_calls
        split: if_splits sum.splits option.splits prod.splits)
qed

text \<open>C22. A server added with \<^verbatim>\<open>xho host add\<close> to a configuration that loads is there at the next start of the daemon:
  when the command exits with 0, the file loads to the earlier configuration with exactly one gateway more, and the
  daemon builds a gateway with its name, the address the user typed (with the default user and port filled in) and the identity file and
  known hosts file that were asked for or are the default.  The name is not empty, the home directory is absolute and no call of
  the file system fails.\<close>

theorem added_host_is_built:
  assumes "toml_laws an" "an_home an = Some h" "starts_with h ''/''" "dk_faults d = []" "n \<noteq> []"
    and "load_config an (default_config_path (an_home an)) d = (Inr c, d)"
    and "remote_connect an w n addr i k t d = (HostExit 0, d')"
  shows "\<exists>a identity known x. parse_address addr \<lparr>ad_user = ''xho'', ad_port = 2222\<rparr> = Inr a
    \<and> normalize_paths (Some h) (hw_shown_known_hosts w) i k = Some (identity, known)
    \<and> x = \<lparr>xg_name = n, xg_address = format_address a, xg_identity_file = identity, xg_known_hosts_path = known\<rparr>
    \<and> load_config an (default_config_path (an_home an)) d' = (Inr (c\<lparr>ap_gateways := ap_gateways c @ [XhodConfig x]\<rparr>), d')
    \<and> last (build_gateways (ap_ssh c) (ap_gateways c @ [XhodConfig x]))
        = (n, XhodGateway x (sh_max_idle_time (ap_ssh c)) (sh_keepalive_interval (ap_ssh c)))"
proof -
  let ?p = "default_config_path (an_home an)"
  have "fst (load_or_default an ?p d) = c" using assms(6) by (simp add: load_or_default_def)
  from remote_connect_wrote[OF assms(7,4) this]
  obtain a identity known raw where w: "n \<notin> set RESERVED_NAMES" "n \<notin> set (map gc_name (ap_gateways c))"
    "normalize_paths (an_home an) (hw_shown_known_hosts w) i k = Some (identity, known)"
    "an_show an (c\<lparr>ap_gateways := ap_gateways c @ [XhodConfig \<lparr>xg_name = n, xg_address = format_address a,
         xg_identity_file = identity, xg_known_hosts_path = known\<rparr>]\<rparr>) = Some raw"
    "d' = put_file ?p (Some raw) d" and a: "parse_address addr \<lparr>ad_user = ''xho'', ad_port = 2222\<rparr> = Inr a" by blast
  let ?x = "\<lparr>xg_name = n, xg_address = format_address a, xg_identity_file = identity, xg_known_hosts_path = known\<rparr>"
  have "gateway_fields_ok (XhodConfig ?x)"
    using assms(5) w(1) by (simp add: gateway_fields_ok_def RESERVED_NAMES_def format_address_def)
  moreover have "expand_gateway (Some h) (XhodConfig ?x) = Some (XhodConfig ?x)"
    using normalized_expanded[OF w(3)[unfolded assms(2)] assms(3)] by simp
  ultimately have "load_config an ?p d' = (Inr (c\<lparr>ap_gateways := ap_gateways c @ [XhodConfig ?x]\<rparr>), d')"
    by (intro appended_gateway_loads[OF assms(1,2,3,6) _ _ _ w(4)]) (use w assms(4) in auto)
  then show ?thesis
    by (intro exI[of _ a] exI[of _ identity] exI[of _ known] exI[of _ ?x]) (use a w(3) assms(2) in \<open>simp add: build_gateways_def\<close>)
qed

text \<open>C39. \<^verbatim>\<open>xho host add\<close> over a configuration file that does not load (a syntax error, a setting that is refused) reports success
  and replaces the whole file by the default settings with the new server: everything the file held is lost.  This happens
  whenever the name is not reserved, the address parses, the server and its host key are accepted, the new
  configuration can be printed and no call of the file system fails.\<close>

theorem host_add_discards_unloadable:
  assumes "dk_faults d = []" "load_config an (default_config_path (an_home an)) d = (Inl e, d)"
    and "n \<notin> set RESERVED_NAMES" "parse_address addr \<lparr>ad_user = ''xho'', ad_port = 2222\<rparr> = Inr a"
    and "connect_checked an w i k t (format_address a) = Inr (identity, known)"
    and "an_show an ((default_app_config (an_root an))\<lparr>ap_gateways := [XhodConfig \<lparr>xg_name = n, xg_address = format_address a,
      xg_identity_file = identity, xg_known_hosts_path = known\<rparr>]\<rparr>) = Some raw"
  shows "remote_connect an w n addr i k t d = (HostExit 0, put_file (default_config_path (an_home an)) (Some raw) d)"
proof -
  have l: "load_or_default an (default_config_path (an_home an)) d = (default_app_config (an_root an), d)"
    using assms(2) by (simp add: load_or_default_def)
  have "ap_gateways (default_app_config (an_root an)) = []" by (simp add: default_app_config_def)
  then show ?thesis using assms
    by (simp add: remote_connect_def l Let_def write_config_def no_fault_calls split: option.split)
qed

text \<open>C23. An update over the daemon's interface is all or nothing, whichever calls of the file system fail: when it is
  refused, the configuration file is as it was, and after a refused addition so is the configuration in memory; when it
  succeeds, the file reads back as the configuration with the gateways that were asked for.\<close>

theorem update_all_or_nothing:
  assumes "toml_laws an" "config_temp an (dm_config_path dm) \<noteq> Some (dm_config_path dm)"
    and "update_config an req dm = ((ok, msg), dm')"
  shows "if ok
    then \<exists>raw. dk_files (dm_disk dm') (dm_config_path dm) = Some raw
      \<and> an_parse an raw = Some ((dm_config dm)\<lparr>ap_gateways := requested_gateways req (ap_gateways (dm_config dm)), ap_config_dir := None\<rparr>)
    else dk_files (dm_disk dm') (dm_config_path dm) = dk_files (dm_disk dm) (dm_config_path dm)
      \<and> (uq_mutation req = ''add_gateway'' \<longrightarrow> dm_config dm' = dm_config dm)"
proof (cases ok)
  case True
  with update_config_files[OF assms(3,2)] assms(1) show ?thesis by (fastforce simp: toml_laws_def)
next
  case False
  have "dm_config dm' = dm_config dm" if "uq_mutation req = ''add_gateway''"
    using that assms(2,3) False by (auto simp: update_config_def dest: add_gateway_refused)
  with update_config_files[OF assms(3,2)] False show ?thesis by simp
qed

lemma atomic_write_config_quiet:
  assumes "an_show an (dm_config dm) = Some raw" "dk_faults (dm_disk dm) = []" "config_temp an (dm_config_path dm) = Some tmp"
    "tmp \<noteq> dm_config_path dm"
  shows "atomic_write_config an dm = (None, dm\<lparr>dm_disk := put_file (dm_config_path dm) (Some raw)
    (put_file tmp None (put_file tmp (Some raw) (dm_disk dm)))\<rparr>)"
  using assms by (auto simp: atomic_write_config_def config_temp_def Let_def no_fault_calls)

lemma missing_fallback_invalid:
  assumes "FallbackGateway n \<in> set (sh_fallback (ap_ssh c))" "n \<noteq> ''local''" "n \<notin> set (map gc_name (ap_gateways c))"
  shows "validate_app c \<noteq> None"
  using assms by (auto simp: validate_app_def first_error_None validate_fallback_None)

lemma expand_paths_names:
  assumes "expand_paths home c = Some c'"
  shows "map gc_name (ap_gateways c') = map gc_name (ap_gateways c)" "sh_fallback (ap_ssh c') = sh_fallback (ap_ssh c)"
proof -
  have "those (map (expand_gateway home) gs) = Some gs' \<Longrightarrow> map gc_name gs' = map gc_name gs" for gs gs'
  proof (induction gs arbitrary: gs')
    case (Cons g gs)
    moreover have "expand_gateway home g = Some g' \<Longrightarrow> gc_name g' = gc_name g" for g' by (cases g) (auto simp: bind_eq_Some_conv)
    ultimately show ?case by (auto split: option.splits)
  qed simp
  then show "map gc_name (ap_gateways c') = map gc_name (ap_gateways c)" "sh_fallback (ap_ssh c') = sh_fallback (ap_ssh c)"
    using assms by (auto simp: expand_paths_def bind_eq_Some_conv)
qed

text \<open>C38. Removing a gateway that the fallback list names is reported as a success, but the file that was written does not
  load: the daemon cannot be started with it again.\<close>

theorem removed_fallback_breaks_start:
  assumes "toml_laws an" "dk_faults (dm_disk dm) = []"
    and "config_temp an (dm_config_path dm) = Some tmp" "tmp \<noteq> dm_config_path dm"
    and "uq_mutation req = ''remove_gateway''" "trim (uq_name req) = n" "n \<noteq> []" "n \<noteq> ''local''"
    and "n \<in> set (map gc_name (ap_gateways (dm_config dm)))" "FallbackGateway n \<in> set (sh_fallback (ap_ssh (dm_config dm)))"
    and "an_show an ((dm_config dm)\<lparr>ap_gateways := without_gateway n (ap_gateways (dm_config dm))\<rparr>) = Some raw"
  shows "\<exists>msg dm' e. update_config an req dm = ((True, msg), dm') \<and> fst (load_config an (dm_config_path dm) (dm_disk dm')) = Inl e"
proof -
  let ?left = "without_gateway n (ap_gateways (dm_config dm))"
  let ?c = "(dm_config dm)\<lparr>ap_gateways := ?left\<rparr>"
  obtain g where "g \<in> set (ap_gateways (dm_config dm))" "gc_name g = n" using assms(9) by auto
  then have shorter: "length ?left \<noteq> length (ap_gateways (dm_config dm))"
    using length_filter_less[of g "ap_gateways (dm_config dm)" "\<lambda>g. gc_name g \<noteq> n"] by (auto simp: without_gateway_def)
  let ?dm = "(set_gateways ?left dm)\<lparr>dm_disk := put_file (dm_config_path dm) (Some raw)
    (put_file tmp None (put_file tmp (Some raw) (dm_disk dm)))\<rparr>"
  have w: "atomic_write_config an (set_gateways ?left dm) = (None, ?dm)"
    using atomic_write_config_quiet[of an "set_gateways ?left dm" raw tmp] assms(2,3,4,11) by simp
  have u: "update_config an req dm = ((True, ''gateway removed successfully''), reload_config an ?dm)"
    using shorter assms(5,6,7) by (simp add: update_config_def remove_gateway_def Let_def w)
  have parse: "an_parse an raw = Some (?c\<lparr>ap_config_dir := None\<rparr>)" using assms(1,11) by (fastforce simp: toml_laws_def)
  have bad: "expand_paths (an_home an) (?c\<lparr>ap_config_dir := None, ap_config_dir := dir\<rparr>) = Some c \<Longrightarrow> validate_app c \<noteq> None" for c dir
  proof -
    assume "expand_paths (an_home an) (?c\<lparr>ap_config_dir := None, ap_config_dir := dir\<rparr>) = Some c"
    from expand_paths_names[OF this] show "validate_app c \<noteq> None"
      using assms(10) by (intro missing_fallback_invalid[OF _ assms(8)]) (auto simp: without_gateway_def)
  qed
  have d: "dm_disk (reload_config an ?dm) = dm_disk ?dm"
    using no_fault_load[of "dm_disk ?dm"] assms(2) by (auto simp: reload_config_def split: prod.splits sum.splits)
  have "\<exists>e. fst (load_config an (dm_config_path dm) (dm_disk ?dm)) = Inl e"
    using load_config_contents[OF _ parse, of "dm_disk ?dm" "dm_config_path dm"] bad assms(2)
    by (cases "expand_paths (an_home an) (?c\<lparr>ap_config_dir := parent_dir (dm_config_path dm)\<rparr>)") (fastforce split: option.splits)+
  with u d show ?thesis by metis
qed

section \<open>Instances\<close>

text \<open>A TOML library that can print one configuration and read it back.\<close>

definition one_config_env :: "app_config \<Rightarrow> admin_env" where
  "one_config_env c = \<lparr>
    an_show = (\<lambda>x. if x\<lparr>ap_config_dir := None\<rparr> = c\<lparr>ap_config_dir := None\<rparr> then Some ''config'' else None),
    an_parse = (\<lambda>raw. if raw = ''config'' then Some (c\<lparr>ap_config_dir := None\<rparr>) else None),
    an_home = Some ''/h'', an_root = False, an_pid = 7\<rparr>"

lemma one_config_laws: "toml_laws (one_config_env c)"
  by (simp add: toml_laws_def one_config_env_def)

lemma one_config_simps [simp]:
  "an_home (one_config_env c) = Some ''/h''" "an_root (one_config_env c) = False" "an_pid (one_config_env c) = 7"
  "an_show (one_config_env c) x = (if x\<lparr>ap_config_dir := None\<rparr> = c\<lparr>ap_config_dir := None\<rparr> then Some ''config'' else None)"
  "an_parse (one_config_env c) raw = (if raw = ''config'' then Some (c\<lparr>ap_config_dir := None\<rparr>) else None)"
  by (simp_all add: one_config_env_def)

definition calm_world :: host_world where
  "calm_world = \<lparr>hw_host_key = (\<lambda>_ _. Some (''ssh-ed25519'', ''SHA256:x'')), hw_known = (\<lambda>_ _. HostListed),
    hw_trusts = False, hw_recorded = False, hw_token_prompt = Some '''', hw_bootstraps = (\<lambda>_ _ _. False),
    hw_shown_known_hosts = ''/h/.xho/known_hosts''\<rparr>"

definition box_entry :: xhod_gateway_config where
  "box_entry = \<lparr>xg_name = ''box'', xg_address = ''xho@h.example:2222'', xg_identity_file = ''/h/.ssh/id_ed25519'',
    xg_known_hosts_path = ''/h/.xho/known_hosts''\<rparr>"

definition no_files :: disk where
  "no_files = \<lparr>dk_files = (\<lambda>_. None), dk_faults = []\<rparr>"

lemma calm_connect:
  "connect_checked (one_config_env c) calm_world None None None ''xho@h.example:2222'' = Inr (''/h/.ssh/id_ed25519'', ''/h/.xho/known_hosts'')"
  "parse_address ''h.example'' \<lparr>ad_user = ''xho'', ad_port = 2222\<rparr> = Inr \<lparr>ra_user = ''xho'', ra_host = ''h.example'', ra_port = 2222\<rparr>"
  "format_address \<lparr>ra_user = ''xho'', ra_host = ''h.example'', ra_port = 2222\<rparr> = ''xho@h.example:2222''"
proof -
  have "normalize_paths (Some ''/h'') ''/h/.xho/known_hosts'' None None = Some (''/h/.ssh/id_ed25519'', ''/h/.xho/known_hosts'')"
    "\<not> isl (parse_remote_target ''xho@h.example:2222'')"
    "trim '''' = ''''"
    by code_simp+
  then show "connect_checked (one_config_env c) calm_world None None None ''xho@h.example:2222'' = Inr (''/h/.ssh/id_ed25519'', ''/h/.xho/known_hosts'')"
    by (auto simp: connect_checked_def calm_world_def trust_flow_def resolve_token_def split: sum.splits)
qed (code_simp+)

lemma calm_remote_connect:
  assumes "load_or_default (one_config_env (c\<lparr>ap_gateways := ap_gateways c @ [XhodConfig box_entry]\<rparr>)) (default_config_path (Some ''/h'')) d = (c, d)"
    "\<not> list_ex (\<lambda>g. gc_name g = ''box'') (ap_gateways c)" "dk_faults d = []"
  shows "remote_connect (one_config_env (c\<lparr>ap_gateways := ap_gateways c @ [XhodConfig box_entry]\<rparr>)) calm_world ''box'' ''h.example'' None None None d
    = (HostExit 0, put_file (default_config_path (Some ''/h'')) (Some ''config'') d)"
proof -
  have "''box'' \<notin> set RESERVED_NAMES" by (simp add: RESERVED_NAMES_def)
  then show ?thesis
    using assms
    by (simp add: remote_connect_def Let_def calm_connect write_config_def no_fault_calls box_entry_def[symmetric] split: option.splits)
qed

theorem added_host_is_built_witness:
  "\<exists>c. load_config (one_config_env (c\<lparr>ap_gateways := [XhodConfig box_entry]\<rparr>)) (default_config_path (Some ''/h''))
        (put_file (default_config_path (Some ''/h'')) (Some ''config'') no_files)
      = (Inr (c\<lparr>ap_gateways := [XhodConfig box_entry]\<rparr>), put_file (default_config_path (Some ''/h'')) (Some ''config'') no_files)
    \<and> last (build_gateways (ap_ssh c) [XhodConfig box_entry])
        = (''box'', XhodGateway box_entry (sh_max_idle_time (ap_ssh c)) (sh_keepalive_interval (ap_ssh c)))"
proof -
  let ?p = "default_config_path (Some ''/h'')"
  obtain c where c: "load_app_config (\<lambda>_. None) (Some ''/h'') False (Some ?p) (\<lambda>_. Absent) = Inr c"
    using default_config_loads[of "\<lambda>_. None" "Some ''/h''" False "Some ?p"] by auto
  then have gs: "ap_gateways c = []"
    by (auto simp: load_app_config_def Let_def expand_paths_def bind_eq_Some_conv default_app_config_def split: option.splits)
  let ?an = "one_config_env (c\<lparr>ap_gateways := [XhodConfig box_entry]\<rparr>)"
  have l: "load_config ?an ?p no_files = (Inr c, no_files)"
    using c by (simp add: load_config_def read_state_def path_exists_def no_files_def load_app_config_def)
  have r: "remote_connect ?an calm_world ''box'' ''h.example'' None None None no_files = (HostExit 0, put_file ?p (Some ''config'') no_files)"
    using calm_remote_connect[of c no_files] l gs by (simp add: load_or_default_def no_files_def)
  have "normalize_paths (Some ''/h'') (hw_shown_known_hosts calm_world) None None = Some (''/h/.ssh/id_ed25519'', ''/h/.xho/known_hosts'')"
    by code_simp
  moreover have "starts_with ''/h'' ''/''" "dk_faults no_files = []" "''box'' \<noteq> []" by (simp_all add: starts_with_def no_files_def)
  ultimately show ?thesis
    using added_host_is_built[OF one_config_laws, of "c\<lparr>ap_gateways := [XhodConfig box_entry]\<rparr>" "''/h''" no_files "''box''" c calm_world
        "''h.example''" None None None "put_file ?p (Some ''config'') no_files"] l r gs calm_connect(2,3)
    by (auto simp: box_entry_def)
qed

theorem host_add_discards_unloadable_witness:
  "remote_connect (one_config_env ((default_app_config False)\<lparr>ap_gateways := [XhodConfig box_entry]\<rparr>)) calm_world ''box'' ''h.example'' None None None
      (put_file (default_config_path (Some ''/h'')) (Some ''[gateways'') no_files)
    = (HostExit 0, put_file (default_config_path (Some ''/h'')) (Some ''config'')
        (put_file (default_config_path (Some ''/h'')) (Some ''[gateways'') no_files))"
proof -
  let ?p = "default_config_path (Some ''/h'')"
  let ?c = "default_app_config False"
  let ?an = "one_config_env (?c\<lparr>ap_gateways := [XhodConfig box_entry]\<rparr>)"
  let ?d = "put_file ?p (Some ''[gateways'') no_files"
  have q: "dk_faults ?d = []" by (simp add: no_files_def)
  have l: "load_config ?an (default_config_path (an_home ?an)) ?d = (Inl LoadParse, ?d)"
    using q by (simp add: load_config_def read_state_def path_exists_def no_fault_calls load_app_config_def)
  have n: "''box'' \<notin> set RESERVED_NAMES" by (simp add: RESERVED_NAMES_def)
  have checked: "connect_checked ?an calm_world None None None (format_address \<lparr>ra_user = ''xho'', ra_host = ''h.example'', ra_port = 2222\<rparr>)
      = Inr (''/h/.ssh/id_ed25519'', ''/h/.xho/known_hosts'')" unfolding calm_connect(3) by (rule calm_connect(1))
  have shown: "an_show ?an ((default_app_config (an_root ?an))\<lparr>ap_gateways := [XhodConfig \<lparr>xg_name = ''box'',
      xg_address = format_address \<lparr>ra_user = ''xho'', ra_host = ''h.example'', ra_port = 2222\<rparr>,
      xg_identity_file = ''/h/.ssh/id_ed25519'', xg_known_hosts_path = ''/h/.xho/known_hosts''\<rparr>]\<rparr>) = Some ''config''"
    unfolding calm_connect(3) by (simp add: box_entry_def)
  from host_add_discards_unloadable[OF q l n calm_connect(2) checked shown] show ?thesis by simp
qed

definition gw_config :: app_config where
  "gw_config = (default_app_config False)\<lparr>ap_gateways := [XhodConfig box_entry],
    ap_ssh := default_ssh_config\<lparr>sh_fallback := [FallbackGateway ''box'']\<rparr>\<rparr>"

definition gw_daemon :: admin_daemon where
  "gw_daemon = \<lparr>dm_config_path = default_config_path (Some ''/h''), dm_config = gw_config, dm_disk = no_files,
    dm_audit = \<lparr>sk_state = None, sk_flag = False, sk_log = []\<rparr>,
    dm_origin = CliSpawned, dm_stopping = False\<rparr>"

definition drop_box :: update_request where
  "drop_box = \<lparr>uq_mutation = ''remove_gateway'', uq_name = '' box '', uq_kind = '''', uq_address = '''', uq_identity_file = '''',
    uq_known_hosts = ''''\<rparr>"

lemma gw_temp:
  "config_temp (one_config_env c) (default_config_path (Some ''/h'')) = Some [RootDir, Normal ''h'', Normal ''.xho'', Normal ''.config.toml.tmp.7'']"
  "default_config_path (Some ''/h'') = [RootDir, Normal ''h'', Normal ''.xho'', Normal ''config.toml'']"
proof -
  show p: "default_config_path (Some ''/h'') = [RootDir, Normal ''h'', Normal ''.xho'', Normal ''config.toml'']" by code_simp
  have "path_push [RootDir, Normal ''h'', Normal ''.xho''] (''.config.toml.tmp.'' @ show_nat 7) = [RootDir, Normal ''h'', Normal ''.xho'', Normal ''.config.toml.tmp.7'']"
    by code_simp
  then show "config_temp (one_config_env c) (default_config_path (Some ''/h'')) = Some [RootDir, Normal ''h'', Normal ''.xho'', Normal ''.config.toml.tmp.7'']"
    by (simp add: config_temp_def p parent_dir_def)
qed

lemma gw_shows: "an_show (one_config_env (gw_config\<lparr>ap_gateways := []\<rparr>)) ((dm_config gw_daemon)\<lparr>ap_gateways := without_gateway ''box'' (ap_gateways (dm_config gw_daemon))\<rparr>) = Some ''config''"
  by (simp add: gw_daemon_def gw_config_def without_gateway_def box_entry_def)

theorem removed_fallback_breaks_start_witness:
  "\<exists>msg dm' e. update_config (one_config_env (gw_config\<lparr>ap_gateways := []\<rparr>)) drop_box gw_daemon = ((True, msg), dm')
    \<and> fst (load_config (one_config_env (gw_config\<lparr>ap_gateways := []\<rparr>)) (dm_config_path gw_daemon) (dm_disk dm')) = Inl e"
proof (rule removed_fallback_breaks_start[OF one_config_laws, where n = "''box''"])
  show "trim (uq_name drop_box) = ''box''" by code_simp
  show "an_show (one_config_env (gw_config\<lparr>ap_gateways := []\<rparr>)) ((dm_config gw_daemon)\<lparr>ap_gateways := without_gateway ''box'' (ap_gateways (dm_config gw_daemon))\<rparr>) = Some ''config''"
    by (rule gw_shows)
  show "config_temp (one_config_env (gw_config\<lparr>ap_gateways := []\<rparr>)) (dm_config_path gw_daemon) = Some [RootDir, Normal ''h'', Normal ''.xho'', Normal ''.config.toml.tmp.7'']"
    by (simp add: gw_daemon_def gw_temp(1))
qed (simp_all add: gw_daemon_def drop_box_def gw_config_def box_entry_def no_files_def gw_temp)

theorem update_all_or_nothing_witness:
  "\<exists>dm' raw. update_config (one_config_env (gw_config\<lparr>ap_gateways := []\<rparr>)) drop_box gw_daemon = ((True, ''gateway removed successfully''), dm')
    \<and> dk_files (dm_disk dm') (dm_config_path gw_daemon) = Some raw
    \<and> an_parse (one_config_env (gw_config\<lparr>ap_gateways := []\<rparr>)) raw
      = Some ((dm_config gw_daemon)\<lparr>ap_gateways := requested_gateways drop_box (ap_gateways (dm_config gw_daemon)), ap_config_dir := None\<rparr>)"
proof -
  let ?an = "one_config_env (gw_config\<lparr>ap_gateways := []\<rparr>)"
  have t: "config_temp ?an (dm_config_path gw_daemon) = Some [RootDir, Normal ''h'', Normal ''.xho'', Normal ''.config.toml.tmp.7'']"
    by (simp add: gw_daemon_def gw_temp(1))
  have ne: "config_temp ?an (dm_config_path gw_daemon) \<noteq> Some (dm_config_path gw_daemon)"
    using t by (simp add: gw_daemon_def) (simp add: gw_temp)
  have n: "trim (uq_name drop_box) = ''box''" "uq_mutation drop_box = ''remove_gateway''" by code_simp+
  have g: "ap_gateways (dm_config gw_daemon) = [XhodConfig box_entry]" "without_gateway ''box'' [XhodConfig box_entry] = []"
    by (simp_all add: gw_daemon_def gw_config_def without_gateway_def box_entry_def)
  obtain dm1 where "atomic_write_config ?an (set_gateways [] gw_daemon) = (None, dm1)"
    using atomic_write_config_quiet[of ?an "set_gateways [] gw_daemon" "''config''" "[RootDir, Normal ''h'', Normal ''.xho'', Normal ''.config.toml.tmp.7'']"]
      gw_shows t g by (auto simp: gw_daemon_def no_files_def gw_temp)
  then obtain dm' where u: "update_config ?an drop_box gw_daemon = ((True, ''gateway removed successfully''), dm')"
    using n g by (simp add: update_config_def remove_gateway_def Let_def)
  from update_all_or_nothing[OF one_config_laws ne u] u show ?thesis by auto
qed

end
