(* ===== verification/Exec_Client.thy ===== *)
theory Exec_Client
  imports Execution
begin

text \<open>
  The \<^verbatim>\<open>xho exec\<close> command: \<^verbatim>\<open>cli/exec.rs\<close>, its branch of \<^verbatim>\<open>run_cli\<close> in \<^verbatim>\<open>cli/mod.rs\<close>, the prompts of \<^verbatim>\<open>cli/prompt.rs\<close> and
  the exit of \<^verbatim>\<open>bin/xho.rs\<close>.

  The answers of the operating system (whether the standard streams are terminals, what is typed, how many writes succeed)
  and of the connection are arguments; the responses of the daemon arrive as a list.  Lines that the client prints
  itself with \<^verbatim>\<open>eprintln!\<close> always succeed.
\<close>

section \<open>The command line\<close>

text \<open>The first two searches skip what stands in front; an argument in front of the target that equals it is
  taken for the target.\<close>

definition detect_double_dash_separator :: "string list \<Rightarrow> string \<Rightarrow> bool" where
  "detect_double_dash_separator raw_args tgt =
    (case dropWhile (\<lambda>a. a \<noteq> ''exec'') raw_args of
       [] \<Rightarrow> False
     | _ # rest \<Rightarrow>
         (case dropWhile (\<lambda>a. a \<noteq> tgt) rest of
            _ # next_arg # _ \<Rightarrow> next_arg = ''--''
          | _ \<Rightarrow> False))"

record exec_options =
  eo_target :: string
  eo_cmd :: "string list"
  eo_timeout :: "string option"
  eo_tty :: exec_tty_flags
  eo_stdin :: exec_stdin_flags
  eo_shell :: "string option"
  eo_no_shell :: bool
  eo_yes :: bool

text \<open>\<^verbatim>\<open>shell_var\<close> is the variable \<^verbatim>\<open>SHELL\<close>, \<^verbatim>\<open>ssh\<close> the section of the configuration that was loaded or the
  defaults.  \<^verbatim>\<open>None\<close> is the exit with 125.\<close>

record exec_plan =
  ep_target :: string
  ep_argv :: "string list"
  ep_tty :: bool
  ep_tty_intent :: flag_intent
  ep_stdin :: bool
  ep_stdin_intent :: flag_intent
  ep_timeout_ms :: nat
  ep_shell :: string
  ep_no_shell :: bool
  ep_yes :: bool

definition exec_argv :: "string option \<Rightarrow> bool \<Rightarrow> string list \<Rightarrow> string list" where
  "exec_argv shell_var has_separator cmd =
    (if \<not> has_separator \<and> length cmd = 1
     then [case shell_var of Some s \<Rightarrow> s | None \<Rightarrow> ''sh'', ''-c'', hd cmd]
     else cmd)"

definition plan_exec :: "string list \<Rightarrow> string option \<Rightarrow> ssh_tty_config \<Rightarrow> bool \<Rightarrow> exec_options \<Rightarrow> exec_plan option" where
  "plan_exec raw_args shell_var ssh stdout_is_tty eo =
    (case parse_timeout_ms (eo_timeout eo) of
       None \<Rightarrow> None
     | Some timeout_ms \<Rightarrow>
         if eo_cmd eo = [] then None
         else
           (let has_separator = detect_double_dash_separator raw_args (eo_target eo) in
            if \<not> has_separator \<and> 1 < length (eo_cmd eo) then None
            else Some \<lparr>ep_target = eo_target eo, ep_argv = exec_argv shell_var has_separator (eo_cmd eo),
                       ep_tty = effective_tty_decision (eo_tty eo) ssh stdout_is_tty,
                       ep_tty_intent = tty_intent_from_flags (eo_tty eo),
                       ep_stdin = effective_stdin_decision (eo_stdin eo) ssh,
                       ep_stdin_intent = stdin_intent_from_flags (eo_stdin eo),
                       ep_timeout_ms = timeout_ms,
                       ep_shell = (case eo_shell eo of Some s \<Rightarrow> s | None \<Rightarrow> []), ep_no_shell = eo_no_shell eo,
                       ep_yes = eo_yes eo\<rparr>))"

section \<open>The terminal and the connection\<close>

datatype client_error = Typed xho_error | Untyped string

text \<open>\<^verbatim>\<open>main\<close>: the exit code of the process.\<close>

fun process_exit :: "client_error + int \<Rightarrow> int" where
  "process_exit (Inr c) = c"
| "process_exit (Inl (Typed e)) = exit_code e"
| "process_exit (Inl (Untyped _)) = EXIT_INTERNAL"

record exec_client_env =
  xc_stdin_tty :: bool
  xc_stdout_tty :: bool
  xc_size :: "(nat \<times> nat) option"
  xc_connect :: "string option"
  xc_call :: "string option"
  xc_raw_mode :: "string option"
  xc_line :: "nat \<Rightarrow> string option"
  xc_secret :: "nat \<Rightarrow> string option"
  xc_accepts :: "nat \<Rightarrow> bool"

text \<open>What was written to the two streams, the requests handed to the connection, the number of prompts answered, and how
  many more writes succeed (\<^verbatim>\<open>None\<close>: all).\<close>

record client_io =
  io_out :: string
  io_err :: string
  io_sent :: "execute_request list"
  io_prompts :: nat
  io_writes :: "nat option"

definition write_stdout :: "string \<Rightarrow> client_io \<Rightarrow> client_io option" where
  "write_stdout d io =
    (if io_writes io = Some 0 then None
     else Some (io\<lparr>io_out := io_out io @ d, io_writes := map_option (\<lambda>n. n - 1) (io_writes io)\<rparr>))"

definition write_stderr :: "string \<Rightarrow> client_io \<Rightarrow> client_io option" where
  "write_stderr d io =
    (if io_writes io = Some 0 then None
     else Some (io\<lparr>io_err := io_err io @ d, io_writes := map_option (\<lambda>n. n - 1) (io_writes io)\<rparr>))"

definition eprint :: "string \<Rightarrow> client_io \<Rightarrow> client_io" where
  "eprint d io = io\<lparr>io_err := io_err io @ d\<rparr>"

definition send_request :: "exec_client_env \<Rightarrow> execute_request \<Rightarrow> client_io \<Rightarrow> client_io option" where
  "send_request env r io =
    (if xc_accepts env (length (io_sent io)) then Some (io\<lparr>io_sent := io_sent io @ [r]\<rparr>) else None)"

definition prompt_for_confirmation :: "exec_client_env \<Rightarrow> string \<Rightarrow> bool \<Rightarrow> client_io \<Rightarrow> bool option \<times> client_io" where
  "prompt_for_confirmation env reason auto_yes io =
    (if auto_yes then (Some True, eprint (''confirmation required (auto-confirmed): '' @ reason @ [CHR 0x0A]) io)
     else
       (let io = eprint (''confirmation required: '' @ reason @ [CHR 0x0A] @ ''Continue? [y/N] '') io
        in (map_option (\<lambda>l. trim l \<in> {''y'', ''Y'', ''yes'', ''YES''}) (xc_line env (io_prompts io)),
            io\<lparr>io_prompts := io_prompts io + 1\<rparr>)))"

definition prompt_for_auth_input :: "exec_client_env \<Rightarrow> string \<Rightarrow> bool \<Rightarrow> client_io \<Rightarrow> string option \<times> client_io" where
  "prompt_for_auth_input env msg secret io =
    (let io = eprint (msg @ '': '') io
     in (map_option trim_end ((if secret then xc_secret else xc_line) env (io_prompts io)),
         (if secret then eprint [CHR 0x0A] io else io)\<lparr>io_prompts := io_prompts io + 1\<rparr>))"

text \<open>Standard input is read in blocks of up to 4096 bytes.\<close>

datatype stdin_read = ReadBytes string | ReadError

fun forward_stdin :: "stdin_read list \<Rightarrow> execute_request list" where
  "forward_stdin [] = [ReqStdinData []]"
| "forward_stdin (ReadBytes d # rs) = ReqStdinData d # forward_stdin rs"
| "forward_stdin (ReadError # rs) = []"

fun forward_stdin_interactive :: "stdin_read list \<Rightarrow> execute_request list" where
  "forward_stdin_interactive [] = []"
| "forward_stdin_interactive (ReadBytes d # rs) = ReqStdinData d # forward_stdin_interactive rs"
| "forward_stdin_interactive (ReadError # rs) = []"

definition forward_resizes :: "(nat \<times> nat) list \<Rightarrow> execute_request list" where
  "forward_resizes sizes = map (\<lambda>(cols, rows). ReqWindowResize cols rows) sizes"

section \<open>Reading the responses\<close>

datatype stream_item = StreamMsg "execute_response option" | StreamLost string

text \<open>A response ends the command with its exit code, with an error, or the loop goes on.\<close>

datatype reaction = GoesOn | ExitsWith int | Fails client_error

definition or_io :: "string \<Rightarrow> client_io option \<Rightarrow> client_io \<Rightarrow> reaction \<times> client_io" where
  "or_io e r io = (case r of Some io' \<Rightarrow> (GoesOn, io') | None \<Rightarrow> (Fails (Untyped e), io))"

definition answer_confirmation :: "exec_client_env \<Rightarrow> bool \<Rightarrow> string \<Rightarrow> string \<Rightarrow> client_io \<Rightarrow> reaction \<times> client_io" where
  "answer_confirmation env yes execution_id reason io =
    (case prompt_for_confirmation env reason yes io of
       (None, io) \<Rightarrow> (Fails (Untyped ''reading the answer failed''), io)
     | (Some allow, io) \<Rightarrow>
         or_io ''failed to send confirmation request'' (send_request env (ReqConfirm execution_id allow) io) io)"

definition answer_auth_prompt :: "exec_client_env \<Rightarrow> auth_prompt_message \<Rightarrow> client_io \<Rightarrow> reaction \<times> client_io" where
  "answer_auth_prompt env p io =
    (case prompt_for_auth_input env (ap_message p) (Wire_Protocol.ap_secret p) io of
       (None, io) \<Rightarrow> (Fails (Untyped ''reading the answer failed''), io)
     | (Some v, io) \<Rightarrow>
         or_io ''failed to send auth input request'' (send_request env (execute_auth_input_request (ap_prompt_id p) v) io) io)"

fun on_response :: "exec_client_env \<Rightarrow> bool \<Rightarrow> execute_response \<Rightarrow> client_io \<Rightarrow> reaction \<times> client_io" where
  "on_response env yes (RspStdout d) io = or_io ''write failed'' (write_stdout d io) io"
| "on_response env yes (RspStderr d) io = or_io ''write failed'' (write_stderr d io) io"
| "on_response env yes (RspReviewResult _) io = (GoesOn, io)"
| "on_response env yes (RspConfirmRequired i reason) io = answer_confirmation env yes i reason io"
| "on_response env yes (RspAuthPrompt p) io = answer_auth_prompt env p io"
| "on_response env yes (RspExitStatus c) io = (ExitsWith c, io)"
| "on_response env yes (RspInfo m) io = (GoesOn, eprint (m @ [CHR 0x0A]) io)"
| "on_response env yes (RspError m) io = (Fails (Typed (classify_daemon_error m)), io)"

fun crlf_to_lf :: "string \<Rightarrow> string" where
  "crlf_to_lf [] = []"
| "crlf_to_lf [c] = [c]"
| "crlf_to_lf (c # d # s) = (if c = CHR 0x0D \<and> d = CHR 0x0A then CHR 0x0A # crlf_to_lf s else c # crlf_to_lf (d # s))"

definition raw_mode_diagnostic_bytes :: "string \<Rightarrow> string" where
  "raw_mode_diagnostic_bytes msg =
    (let msg = rev (dropWhile (\<lambda>c. c = CHR 0x0D \<or> c = CHR 0x0A) (rev msg)) in
     if msg = [] then []
     else replace_char (CHR 0x0A) [CHR 0x0D, CHR 0x0A] (replace_char (CHR 0x0D) [CHR 0x0A] (crlf_to_lf msg)) @ [CHR 0x0D, CHR 0x0A])"

definition write_raw_mode_diagnostic :: "string \<Rightarrow> client_io \<Rightarrow> client_io option" where
  "write_raw_mode_diagnostic msg io =
    (let bytes = raw_mode_diagnostic_bytes msg in if bytes = [] then Some io else write_stderr bytes io)"

fun on_interactive_response :: "exec_client_env \<Rightarrow> bool \<Rightarrow> execute_response \<Rightarrow> client_io \<Rightarrow> reaction \<times> client_io" where
  "on_interactive_response env yes (RspStdout d) io = or_io ''write failed'' (write_stdout d io) io"
| "on_interactive_response env yes (RspExitStatus c) io = (ExitsWith c, io)"
| "on_interactive_response env yes (RspError m) io = (Fails (Typed (classify_daemon_error m)), io)"
| "on_interactive_response env yes (RspInfo m) io = or_io ''write failed'' (write_raw_mode_diagnostic m io) io"
| "on_interactive_response env yes (RspAuthPrompt p) io = answer_auth_prompt env p io"
| "on_interactive_response env yes (RspConfirmRequired i reason) io = answer_confirmation env yes i reason io"
| "on_interactive_response env yes _ io = (GoesOn, io)"

text \<open>The loop; a stream that ends without an exit status leaves the code at 1.\<close>

fun read_responses ::
  "(execute_response \<Rightarrow> client_io \<Rightarrow> reaction \<times> client_io) \<Rightarrow> stream_item list \<Rightarrow> client_io \<Rightarrow> (client_error + int) \<times> client_io" where
  "read_responses react [] io = (Inr 1, io)"
| "read_responses react (StreamLost e # rest) io = (Inl (Typed (Internal (''connection lost: '' @ e))), io)"
| "read_responses react (StreamMsg None # rest) io = (Inl (Untyped ''execute stream returned empty event''), io)"
| "read_responses react (StreamMsg (Some r) # rest) io =
    (case react r io of
       (GoesOn, io) \<Rightarrow> read_responses react rest io
     | (ExitsWith c, io) \<Rightarrow> (Inr c, io)
     | (Fails e, io) \<Rightarrow> (Inl e, io))"

section \<open>The command\<close>

definition start_request :: "exec_plan \<Rightarrow> exec_request" where
  "start_request p = \<lparr>xr_target = ep_target p, xr_argv = ep_argv p, xr_tty = ep_tty p, xr_tty_intent = ep_tty_intent p,
    xr_stdin = ep_stdin p, xr_stdin_intent = ep_stdin_intent p, xr_timeout_ms = ep_timeout_ms p, xr_interactive = False,
    xr_term_cols = 0, xr_term_rows = 0, xr_shell = ep_shell p, xr_no_shell = ep_no_shell p\<rparr>"

definition get_terminal_size :: "exec_client_env \<Rightarrow> nat \<times> nat" where
  "get_terminal_size env = (case xc_size env of Some s \<Rightarrow> s | None \<Rightarrow> (80, 24))"

definition interactive_request :: "exec_client_env \<Rightarrow> exec_plan \<Rightarrow> exec_request" where
  "interactive_request env p = (start_request p)\<lparr>xr_tty := True, xr_stdin := True, xr_interactive := True,
    xr_term_cols := fst (get_terminal_size env), xr_term_rows := snd (get_terminal_size env)\<rparr>"

definition run_interactive ::
  "exec_client_env \<Rightarrow> exec_plan \<Rightarrow> stream_item list \<Rightarrow> client_io \<Rightarrow> (client_error + int) \<times> client_io" where
  "run_interactive env p responses io =
    (case xc_connect env of
       Some e \<Rightarrow> (Inl (Untyped e), io)
     | None \<Rightarrow>
         (case send_request env (ReqStart (interactive_request env p)) io of
            None \<Rightarrow> (Inl (Untyped ''failed to send execute request''), io)
          | Some io \<Rightarrow>
              (case xc_call env of
                 Some e \<Rightarrow> (Inl (Untyped e), io)
               | None \<Rightarrow>
                   (case xc_raw_mode env of
                      Some e \<Rightarrow> (Inl (Untyped e), io)
                    | None \<Rightarrow>
                        (case read_responses (on_interactive_response env (ep_yes p)) responses io of
                           (Inl e, io) \<Rightarrow> (Inl e, io)
                         | (Inr c, io) \<Rightarrow> (Inr (cap_remote_exit_code c), io))))))"

definition run_command ::
  "exec_client_env \<Rightarrow> exec_plan \<Rightarrow> stream_item list \<Rightarrow> client_io \<Rightarrow> (client_error + int) \<times> client_io" where
  "run_command env p responses io =
    (if should_use_interactive_mode (ep_tty p) (ep_stdin p) (xc_stdin_tty env) (xc_stdout_tty env)
     then run_interactive env p responses io
     else
       (case xc_connect env of
          Some e \<Rightarrow> (Inl (Untyped e), io)
        | None \<Rightarrow>
            (case send_request env (ReqStart (start_request p)) io of
               None \<Rightarrow> (Inl (Untyped ''failed to send execute request''), io)
             | Some io \<Rightarrow>
                 (case xc_call env of
                    Some e \<Rightarrow> (Inl (Untyped e), io)
                  | None \<Rightarrow>
                      (case read_responses (on_response env (ep_yes p)) responses io of
                         (Inl e, io) \<Rightarrow> (Inl e, io)
                       | (Inr c, io) \<Rightarrow>
                           (Inr (if c = 124 \<and> 0 < ep_timeout_ms p then 124 else cap_remote_exit_code c), io))))))"

section \<open>Output on a raw terminal\<close>

text \<open>Every line feed follows a carriage return, and every carriage return is followed by a line feed.\<close>

fun crlf_paired :: "string \<Rightarrow> bool" where
  "crlf_paired [] = True"
| "crlf_paired [c] = (c \<noteq> CHR 0x0D \<and> c \<noteq> CHR 0x0A)"
| "crlf_paired (c # d # s) =
    (if c = CHR 0x0D then d = CHR 0x0A \<and> crlf_paired s else c \<noteq> CHR 0x0A \<and> crlf_paired (d # s))"

lemma crlf_paired_append: "crlf_paired s \<Longrightarrow> crlf_paired t \<Longrightarrow> crlf_paired (s @ t)"
proof (induction s rule: crlf_paired.induct)
  case (2 c)
  then show ?case by (cases t) auto
qed (auto split: if_splits)

lemma crlf_paired_replace:
  "CHR 0x0D \<notin> set s \<Longrightarrow> crlf_paired (replace_char (CHR 0x0A) [CHR 0x0D, CHR 0x0A] s)"
proof (induction s)
  case (Cons c s)
  then have ih: "crlf_paired (replace_char (CHR 0x0A) [CHR 0x0D, CHR 0x0A] s)" by simp
  have "replace_char (CHR 0x0A) [CHR 0x0D, CHR 0x0A] (c # s)
      = (if c = CHR 0x0A then [CHR 0x0D, CHR 0x0A] else [c]) @ replace_char (CHR 0x0A) [CHR 0x0D, CHR 0x0A] s"
    by (simp add: replace_char_def)
  then show ?case using crlf_paired_append[OF _ ih, of "if c = CHR 0x0A then [CHR 0x0D, CHR 0x0A] else [c]"] Cons.prems by auto
qed (simp add: replace_char_def)

lemma raw_diagnostic_paired: "crlf_paired (raw_mode_diagnostic_bytes msg)"
proof -
  have "CHR 0x0D \<notin> set (replace_char (CHR 0x0D) [CHR 0x0A] s)" for s
    by (auto simp: replace_char_def split: if_splits)
  from crlf_paired_append[OF crlf_paired_replace[OF this], of "[CHR 0x0D, CHR 0x0A]"]
  show ?thesis by (simp add: raw_mode_diagnostic_bytes_def Let_def)
qed

section \<open>What the client prints\<close>

fun stdout_bytes :: "execute_response \<Rightarrow> string" where
  "stdout_bytes (RspStdout d) = d"
| "stdout_bytes _ = []"

fun stderr_bytes :: "execute_response \<Rightarrow> string" where
  "stderr_bytes (RspStderr d) = d"
| "stderr_bytes _ = []"

fun is_output :: "execute_response \<Rightarrow> bool" where
  "is_output (RspStdout _) = True"
| "is_output (RspStderr _) = True"
| "is_output _ = False"

definition stdout_text :: "server_event list \<Rightarrow> string" where
  "stdout_text evs = concat (map (stdout_bytes \<circ> server_event_to_rpc) evs)"

definition stderr_text :: "server_event list \<Rightarrow> string" where
  "stderr_text evs = concat (map (stderr_bytes \<circ> server_event_to_rpc) evs)"

lemma on_response_step:
  assumes "on_response env yes r io = (react, io1)" "\<not> terminal r"
  shows "(react = GoesOn \<and> io_out io1 = io_out io @ stdout_bytes r \<and> (\<exists>e. io_err io1 = io_err io @ e)
      \<and> (is_output r \<longrightarrow> io_err io1 = io_err io @ stderr_bytes r)) \<or> (\<exists>e. react = Fails e)"
  using assms
  by (cases r) (auto simp: or_io_def write_stdout_def write_stderr_def eprint_def answer_confirmation_def answer_auth_prompt_def
      prompt_for_confirmation_def prompt_for_auth_input_def send_request_def Let_def split: option.splits if_splits prod.splits)

lemma read_responses_plain:
  assumes "read_responses (on_response env yes) (map (StreamMsg \<circ> Some) (xs @ ys)) io = (Inr c, io')" "plain xs"
  shows "\<exists>io1. read_responses (on_response env yes) (map (StreamMsg \<circ> Some) ys) io1 = (Inr c, io')
    \<and> io_out io1 = io_out io @ concat (map stdout_bytes xs) \<and> (\<exists>e. io_err io1 = io_err io @ e)
    \<and> (list_all is_output xs \<longrightarrow> io_err io1 = io_err io @ concat (map stderr_bytes xs))"
  using assms
proof (induction xs arbitrary: io)
  case (Cons r xs)
  obtain react io1 where st: "on_response env yes r io = (react, io1)" by (meson surj_pair)
  from Cons.prems have nt: "\<not> terminal r" "plain xs" by simp_all
  from on_response_step[OF st nt(1)] Cons.prems(1) st have g: "react = GoesOn" "io_out io1 = io_out io @ stdout_bytes r"
    "\<exists>e. io_err io1 = io_err io @ e" "is_output r \<longrightarrow> io_err io1 = io_err io @ stderr_bytes r" by auto
  from Cons.prems(1) st g(1) have "read_responses (on_response env yes) (map (StreamMsg \<circ> Some) (xs @ ys)) io1 = (Inr c, io')"
    by (simp add: comp_def)
  from Cons.IH[OF this nt(2)] g(2-4) show ?case by fastforce
qed auto

text \<open>The responses in front of a session's output: warnings and a request for confirmation.\<close>

fun preface :: "execute_response \<Rightarrow> bool" where
  "preface (RspInfo _) = True"
| "preface (RspConfirmRequired _ _) = True"
| "preface _ = False"

lemma preface_plain: "list_all preface xs \<Longrightarrow> plain xs \<and> concat (map stdout_bytes xs) = []"
  unfolding plain_def
proof (induction xs)
  case (Cons x xs)
  then show ?case by (cases x) auto
qed simp

lemma exec_prologue_preface:
  assumes "exec_prologue env c k rq w = (Inr (Some o'), w')" "w_takes w = None"
  shows "\<exists>xs. w_sent w' = w_sent w @ xs \<and> list_all preface xs"
proof (cases rule: exec_prologue_cases[of env c k rq w])
  case (error e)
  with assms show ?thesis by simp
next
  case (enforced res r rs w1)
  let ?o = "exec_operation env c k rq r" and ?d = "exec_detail rq (k = OpExecInteractive)"
  obtain dec w2 where rr: "run_review (en_llm env) (en_review env) ?o ?d (audit_start ?o ?d w1) = (dec, w2)"
    by (meson surj_pair)
  from enforced(3) assms(2) obtain xs where w1: "w_takes w1 = None" "w_sent w1 = w_sent w @ xs" "list_all preface xs"
    by (auto simp: open_simps)
  with run_review_kept[OF rr] have w2: "w_takes w2 = None" "w_sent w2 = w_sent w @ xs" by simp_all
  from enforced(4) assms(1) rr have en: "enforce env ?o (dec, w2) = (Inr (Some o'), w')" by simp
  show ?thesis
  proof (cases dec)
    case (ConfirmFirst reason)
    obtain r2 w3 where wc: "wait_for_confirmation (en_parse_uuid env) (en_uuid env) reason w2 = (r2, w3)" by (meson surj_pair)
    from wait_for_confirmation_sent[OF wc w2(1)] en ConfirmFirst wc w1(3) w2(2) show ?thesis
      by (auto simp: enforce_def split: sum.splits)
  qed (use en w1 w2 in \<open>auto simp: enforce_def open_simps\<close>)
qed

lemma execute_sent:
  assumes "w_inbound w = Message (Some (ReqStart rq)) # ms" "w_takes w = None" "w_sent w = []" "\<not> xr_interactive rq"
    and "execute env c sched isched w = Some w'"
  obtains (failed) ys m where "plain ys" "w_sent w' = ys @ [RspError m]"
  | (ran) res r rs pre n code where "resolve_target_with_merged_view (en_config env) (en_view env) (xr_target rq) = Inr res"
      "rr_routes res = r # rs" "list_all preface pre"
      "w_sent w' = pre @ map server_event_to_rpc (take n (fst (exec_task env r rq))) @ [RspExitStatus code]"
      "snd (exec_task env r rq) = TaskOk code \<and> length (fst (exec_task env r rq)) \<le> n \<or> 0 < xr_timeout_ms rq \<and> code = 124"
proof -
  obtain r1 w1 where p: "process_execute env c rq (w\<lparr>w_inbound := ms\<rparr>) = (r1, w1)" by (meson surj_pair)
  note ex = assms(5)[unfolded execute_def execute_start_eq[OF assms(1)] p]
  have o: "w_takes (w\<lparr>w_inbound := ms\<rparr>) = None" using assms(2) by simp
  from p o assms(4) show thesis
  proof (cases rule: process_execute_open)
    case (err e)
    then obtain xs where "plain xs" "w_sent w1 = xs" using assms(3) by auto
    with ex err show thesis by (intro failed[of xs e]) (auto simp: open_simps error_response_def)
  next
    case (denied m)
    then obtain xs where "plain xs" "w_sent w1 = xs @ [RspError m]" using assms(3) by auto
    with ex denied show thesis by (intro failed[of xs m]) auto
  next
    case (loop o')
    let ?t = "exec_task env (op_route o') rq"
    have pl: "exec_prologue env c OpExec rq (w\<lparr>w_inbound := ms\<rparr>) = (Inr (Some o'), w1)"
      using p loop(1) assms(4) by (auto simp: process_execute_def split: if_splits prod.splits sum.splits option.splits)
    from exec_prologue_preface[OF pl o] assms(3) have pre: "list_all preface (w_sent w1)" by auto
    from exec_prologue_gate[OF pl] obtain res where res:
      "resolve_target_with_merged_view (en_config env) (en_view env) (xr_target rq) = Inr res"
      "rr_routes res = op_route o' # tl (rr_routes res)" by (auto simp: exec_operation_def)
    have out: "out_of (loop_init (xr_stdin rq) ?t) = fst ?t" "ls_result (loop_init (xr_stdin rq) ?t) = snd ?t"
      by (simp_all add: out_of_def loop_init_def)
    from ex loop(1) obtain lo w2 where l: "exec_loop o' (xr_stdin rq) sched (Looping (loop_init (xr_stdin rq) ?t), w1) = Some (lo, w2)"
        "(lo = Finished \<and> w' = w2) \<or> (\<exists>e. lo = FailedWith e \<and> w' = try_send (error_response e) w2)"
      by (auto split: option.splits loop_out.splits prod.splits)
    note re = exec_loop_ends[OF l(1) loop(3), unfolded out]
    have plain1: "plain (w_sent w1)" using preface_plain[OF pre] by simp
    from l(2) show thesis
    proof (elim disjE exE conjE)
      assume "lo = Finished" "w' = w2"
      with re consider code where "snd ?t = TaskOk code" "w_sent w' = w_sent w1 @ map server_event_to_rpc (fst ?t) @ [RspExitStatus code]"
        | n where "0 < op_timeout_ms o'" "w_sent w' = w_sent w1 @ map server_event_to_rpc (take n (fst ?t)) @ [RspExitStatus 124]"
        | n e where "w_sent w' = w_sent w1 @ map server_event_to_rpc (take n (fst ?t)) @ [RspError e]"
        by auto
      then show thesis
      proof cases
        case 1
        then show thesis using res pre by (intro ran[of res "op_route o'" _ "w_sent w1" "length (fst ?t)"]) auto
      next
        case 2
        then show thesis using res pre loop(2) by (intro ran[of res "op_route o'" _ "w_sent w1" n]) auto
      next
        case 3
        then show thesis using plain1 plain_take[OF exec_task_plain[of env "op_route o'" rq], of n]
          by (intro failed[of "w_sent w1 @ map server_event_to_rpc (take n (fst ?t))"]) auto
      qed
    next
      fix e assume e: "lo = FailedWith e" "w' = try_send (error_response e) w2"
      with re obtain n where "w_takes w2 = None" "w_sent w2 = w_sent w1 @ map server_event_to_rpc (take n (fst ?t))" by auto
      with e plain1 plain_take[OF exec_task_plain[of env "op_route o'" rq], of n] show thesis
        by (intro failed[of "w_sent w2" e]) (auto simp: open_simps error_response_def)
    qed
  qed
qed

lemma exec_task_output: "list_all is_output (map server_event_to_rpc (fst (exec_task env r rq)))"
proof -
  have "list_all is_output (map server_event_to_rpc (fst (pump_events es)))" for es
    by (induction es rule: pump_events.induct) (auto simp: split_beta)
  then show ?thesis by (auto simp: exec_task_def drive_exec_def split: sum.split option.split prod.splits) (metis fst_conv)+
qed

lemma exec_task_ok:
  assumes "exec_task env r rq = (out, TaskOk c)"
  shows "\<exists>s command. open_exec_session env r (xr_argv rq) (xr_shell rq) (xr_no_shell rq) = Inr (s, command)
    \<and> ss_start s (Some command) = None \<and> pump_events (ss_events s (Some command)) = (out, c)"
  using assms by (auto simp: exec_task_def drive_exec_def split: sum.splits option.splits prod.splits)

text \<open>Standard input as the daemon's loop reads it: the blocks that were read, in order, and an end mark unless reading failed.\<close>

lemma forward_stdin_read:
  assumes "list_all (\<lambda>d. d \<noteq> []) ds"
  shows "stdin_of (map (Message \<circ> Some) (forward_stdin (map ReadBytes ds))) = ds"
  using assms by (induction ds) auto

text \<open>C2. A command end to end.  The client sends its request, the daemon resolves, reviews and runs it, and the client
  prints what the daemon sends: whatever the schedule of the daemon's tasks, the verdict of the review and what else the client
  sends, if \<^verbatim>\<open>xho exec\<close> (not interactive) ends with an exit code rather than an error, then the command ran in a session on the
  first route of the resolved target, standard output received exactly the bytes the session wrote to it, in order, standard error ended in
  exactly those the session wrote there, and the exit code is the session's, capped; or a timeout was asked for, the code is 124
  and standard output received an initial part.\<close>

theorem exec_end_to_end:
  assumes "\<not> should_use_interactive_mode (ep_tty p) (ep_stdin p) (xc_stdin_tty env) (xc_stdout_tty env)"
    and "w_inbound w = Message (Some (ReqStart (start_request p))) # ms" "w_takes w = None" "w_sent w = []"
    and "execute denv c sched isched w = Some w'"
    and "run_command env p (map (StreamMsg \<circ> Some) (w_sent w')) io = (Inr code, io')"
  shows "\<exists>res r rs. resolve_target_with_merged_view (en_config denv) (en_view denv) (ep_target p) = Inr res \<and> rr_routes res = r # rs
    \<and> ((\<exists>s command out rc diag. open_exec_session denv r (ep_argv p) (ep_shell p) (ep_no_shell p) = Inr (s, command)
          \<and> pump_events (ss_events s (Some command)) = (out, rc)
          \<and> io_out io' = io_out io @ stdout_text out \<and> io_err io' = io_err io @ diag @ stderr_text out
          \<and> code = (if rc = 124 \<and> 0 < ep_timeout_ms p then 124 else cap_remote_exit_code rc))
      \<or> (0 < ep_timeout_ms p \<and> code = 124
          \<and> (\<exists>n. io_out io' = io_out io @ stdout_text (take n (fst (exec_task denv r (start_request p)))))))"
proof -
  let ?rq = "start_request p" and ?read = "read_responses (on_response env (ep_yes p))"
  have rq: "\<not> xr_interactive ?rq" "xr_target ?rq = ep_target p" "xr_timeout_ms ?rq = ep_timeout_ms p"
    "xr_argv ?rq = ep_argv p" "xr_shell ?rq = ep_shell p" "xr_no_shell ?rq = ep_no_shell p" by (simp_all add: start_request_def)
  from assms(1,6) obtain io0 c0 where rd: "?read (map (StreamMsg \<circ> Some) (w_sent w')) io0 = (Inr c0, io')"
    and io0: "io_out io0 = io_out io" "io_err io0 = io_err io"
    and code: "code = (if c0 = 124 \<and> 0 < ep_timeout_ms p then 124 else cap_remote_exit_code c0)"
    by (auto simp: run_command_def send_request_def split: option.splits if_splits prod.splits sum.splits)
  from assms(2-4) rq(1) assms(5) show ?thesis
  proof (cases rule: execute_sent)
    case (failed ys m)
    with read_responses_plain[of env "ep_yes p" ys "[RspError m]" io0 c0 io'] rd show ?thesis by auto
  next
    case (ran res r rs pre n rc)
    let ?t = "exec_task denv r ?rq"
    let ?out = "take n (fst ?t)"
    have o: "list_all is_output (map server_event_to_rpc ?out)" "plain (map server_event_to_rpc ?out)"
      using exec_task_output[of denv r ?rq] plain_take[OF exec_task_plain] by (auto simp: list_all_iff dest: in_set_takeD)
    from rd ran(4) read_responses_plain[of env "ep_yes p" pre "map server_event_to_rpc ?out @ [RspExitStatus rc]" io0 c0 io'] preface_plain[OF ran(3)]
    obtain io1 diag where io1: "?read (map (StreamMsg \<circ> Some) (map server_event_to_rpc ?out @ [RspExitStatus rc])) io1 = (Inr c0, io')"
      "io_out io1 = io_out io0" "io_err io1 = io_err io0 @ diag" by auto
    from read_responses_plain[OF io1(1) o(2)] o(1)
    have fin: "c0 = rc" "io_out io' = io_out io1 @ stdout_text ?out" "io_err io' = io_err io1 @ stderr_text ?out"
      by (auto simp: stdout_text_def stderr_text_def)
    from ran(5) show ?thesis
    proof
      assume ok: "snd ?t = TaskOk rc \<and> length (fst ?t) \<le> n"
      then have "?t = (?out, TaskOk rc)" by (metis prod.collapse take_all)
      from exec_task_ok[OF this] obtain s command where
        "open_exec_session denv r (ep_argv p) (ep_shell p) (ep_no_shell p) = Inr (s, command)"
        "pump_events (ss_events s (Some command)) = (?out, rc)" unfolding rq by blast
      moreover have "io_out io' = io_out io @ stdout_text ?out" "io_err io' = io_err io @ diag @ stderr_text ?out"
        using fin io1(2,3) io0 by simp_all
      ultimately show ?thesis using ran(1,2) code fin(1) unfolding rq by blast
    next
      assume "0 < xr_timeout_ms ?rq \<and> rc = 124"
      then show ?thesis using ran(1,2) fin io1 io0 code rq by auto
    qed
  qed
qed

section \<open>An example\<close>

definition demo_options :: exec_options where
  "demo_options = \<lparr>eo_target = ''web'', eo_cmd = [''ls''], eo_timeout = None, eo_tty = \<lparr>force_tty = False, force_no_tty = False\<rparr>,
    eo_stdin = \<lparr>force_stdin = False, force_no_stdin = False\<rparr>, eo_shell = None, eo_no_shell = False, eo_yes = True\<rparr>"

definition demo_client :: exec_client_env where
  "demo_client = \<lparr>xc_stdin_tty = False, xc_stdout_tty = False, xc_size = None, xc_connect = None, xc_call = None,
    xc_raw_mode = None, xc_line = (\<lambda>_. None), xc_secret = (\<lambda>_. None), xc_accepts = (\<lambda>_. True)\<rparr>"

definition demo_plan :: exec_plan where
  "demo_plan = \<lparr>ep_target = ''web'', ep_argv = [''ls''], ep_tty = False, ep_tty_intent = IntentDefault, ep_stdin = False,
    ep_stdin_intent = IntentDefault, ep_timeout_ms = 0, ep_shell = [], ep_no_shell = False, ep_yes = True\<rparr>"

lemma demo_planned:
  "plan_exec [''xho'', ''exec'', ''web'', ''--'', ''ls''] None \<lparr>cfg_tty = True, cfg_stdin = False, auto_tty_detect = True\<rparr> False demo_options
    = Some demo_plan"
  by code_simp

lemma demo_plan_request: "start_request demo_plan = demo_request"
  by (simp add: start_request_def demo_plan_def demo_request_def)

definition quiet_io :: client_io where
  "quiet_io = \<lparr>io_out = [], io_err = [], io_sent = [], io_prompts = 0, io_writes = None\<rparr>"

lemma demo_reads_preface:
  assumes "list_all preface xs"
  shows "\<exists>io1. read_responses (on_response demo_client True) (map (StreamMsg \<circ> Some) (xs @ ys)) io
      = read_responses (on_response demo_client True) (map (StreamMsg \<circ> Some) ys) io1 \<and> io_writes io1 = io_writes io"
  using assms
proof (induction xs arbitrary: io)
  case (Cons x xs)
  then have "\<exists>io1. on_response demo_client True x io = (GoesOn, io1) \<and> io_writes io1 = io_writes io"
    by (cases x) (auto simp: eprint_def answer_confirmation_def prompt_for_confirmation_def or_io_def send_request_def demo_client_def)
  then obtain io1 where io1: "on_response demo_client True x io = (GoesOn, io1)" "io_writes io1 = io_writes io" by blast
  from Cons.IH[of io1] Cons.prems show ?case by (simp add: io1 comp_def)
qed auto

lemma demo_executes:
  "\<exists>w' pre. execute demo_env caller_local [TaskEmits, OnEvent, OnTaskDone] [] demo_world = Some w' \<and> list_all preface pre
    \<and> w_sent w' = pre @ [RspStdout ''hi'', RspExitStatus 3]"
proof -
  from demo_start obtain w1 where s: "execute_start demo_env caller_local demo_world
    = (StartLoop demo_operation False (loop_init False ([EvStdout ''hi''], TaskOk 3)), w1)" "w_takes w1 = None" by blast
  from s(1) have "exec_prologue demo_env caller_local OpExec demo_request
      (demo_world\<lparr>w_inbound := [Message (Some (ReqConfirm ''id'' True))]\<rparr>) = (Inr (Some demo_operation), w1)"
    unfolding execute_start_eq[OF demo_inbound] process_execute_def
    by (auto simp: demo_request_def split: if_splits prod.splits sum.splits option.splits)
  from exec_prologue_preface[OF this] have pre: "list_all preface (w_sent w1)" by (auto simp: demo_takes)
  have "\<exists>w2. exec_loop demo_operation False [TaskEmits, OnEvent, OnTaskDone]
      (Looping (loop_init False ([EvStdout ''hi''], TaskOk 3)), w1) = Some (Finished, w2)
    \<and> w_sent w2 = w_sent w1 @ [RspStdout ''hi'', RspExitStatus 3]"
    using s(2) by (simp add: loop_init_def open_simps on_task_done_def)
  then obtain w2 where w2: "exec_loop demo_operation False [TaskEmits, OnEvent, OnTaskDone]
      (Looping (loop_init False ([EvStdout ''hi''], TaskOk 3)), w1) = Some (Finished, w2)"
    "w_sent w2 = w_sent w1 @ [RspStdout ''hi'', RspExitStatus 3]" by blast
  then have "execute demo_env caller_local [TaskEmits, OnEvent, OnTaskDone] [] demo_world = Some w2"
    by (simp add: execute_def s(1) del: exec_loop.simps)
  with pre w2(2) show ?thesis by blast
qed

lemma demo_session_opened: "open_exec_session demo_env r argv sh ns = Inr (s, command) \<Longrightarrow> s = demo_session"
  by (cases "gateway_with_capability (en_view demo_env) r cap_exec") (auto simp: open_exec_session_def demo_env_def)

theorem exec_end_to_end_witness:
  "\<exists>w' io'. execute demo_env caller_local [TaskEmits, OnEvent, OnTaskDone] [] demo_world = Some w'
    \<and> run_command demo_client demo_plan (map (StreamMsg \<circ> Some) (w_sent w')) quiet_io = (Inr 3, io') \<and> io_out io' = ''hi''"
proof -
  obtain w' pre where w: "execute demo_env caller_local [TaskEmits, OnEvent, OnTaskDone] [] demo_world = Some w'"
    "list_all preface pre" "w_sent w' = pre @ [RspStdout ''hi'', RspExitStatus 3]" using demo_executes by blast
  let ?io = "quiet_io\<lparr>io_sent := [ReqStart demo_request]\<rparr>"
  have ni: "\<not> should_use_interactive_mode (ep_tty demo_plan) (ep_stdin demo_plan) (xc_stdin_tty demo_client) (xc_stdout_tty demo_client)"
    by code_simp
  have c: "cap_remote_exit_code 3 = 3" by code_simp
  have f: "xc_connect demo_client = None" "xc_call demo_client = None" "ep_yes demo_plan" "ep_timeout_ms demo_plan = 0"
    by (simp_all add: demo_client_def demo_plan_def)
  have send: "send_request demo_client (ReqStart demo_request) quiet_io = Some ?io"
    by (simp add: send_request_def demo_client_def quiet_io_def)
  from demo_reads_preface[OF w(2), of "[RspStdout ''hi'', RspExitStatus 3]" ?io] obtain io1 where
    "read_responses (on_response demo_client True) (map (StreamMsg \<circ> Some) (w_sent w')) ?io
      = read_responses (on_response demo_client True) (map (StreamMsg \<circ> Some) [RspStdout ''hi'', RspExitStatus 3]) io1"
    "io_writes io1 = None" unfolding w(3) by (auto simp: quiet_io_def)
  then have "\<exists>io'. run_command demo_client demo_plan (map (StreamMsg \<circ> Some) (w_sent w')) quiet_io = (Inr 3, io')"
    using ni c f by (simp add: run_command_def send or_io_def write_stdout_def demo_plan_request)
  then obtain io' where r: "run_command demo_client demo_plan (map (StreamMsg \<circ> Some) (w_sent w')) quiet_io = (Inr 3, io')" by blast
  have "w_inbound demo_world = Message (Some (ReqStart (start_request demo_plan))) # [Message (Some (ReqConfirm ''id'' True))]"
    by (simp only: demo_plan_request demo_inbound)
  from exec_end_to_end[OF ni this demo_takes w(1) r] have "io_out io' = ''hi''"
    by (auto simp: f quiet_io_def demo_session_def stdout_text_def dest!: demo_session_opened)
  with w(1) r show ?thesis by blast
qed

end
