(* ===== verification/Spec2Isabelle.thy ===== *)
theory Spec2Isabelle
  imports Rust_Prelude Shell_Command File_Path Base64_Codec Sentinel_Scanner Token_Store Connection_Pool Inventory
    Shared_Types Review Wire_Protocol Gateway_Config Target_Resolver Audit_Log Execution Sftp_Copy Copy_Client Copy_Service
    Session_Cache Pty_Shell Jumpserver_Menu Remote_Shell Shell_Copy Jumpserver_Gateway App_Config Secret_Vault Secret_Migration
    Remote_Access Gateway_Auth Reverse_Proxy Config_Admin Exec_Client
begin

text \<open>
  A verification development for \<^emph>\<open>xho\<close> (cross-host-ops).  A client, \<^verbatim>\<open>xho\<close>, asks a daemon, \<^verbatim>\<open>xhod\<close>, to run
  commands and copy files on remote hosts.  The daemon resolves the target to a gateway, has the
  operation reviewed, records it, and drives a session of the gateway: over SSH and SFTP, or through the
  terminal of a jump server.  Paths below are relative to \<^verbatim>\<open>src/src/\<close>.

  \<^bold>\<open>Conventions.\<close>  A Rust \<^verbatim>\<open>str\<close> or byte vector is its list of bytes, a \<^verbatim>\<open>string\<close>.  Structures are records, enumerations
  datatypes, hash maps association lists in an arbitrary order.  \<^verbatim>\<open>Result\<close> is a sum with the error on the
  left, and a panic is \<^const>\<open>None\<close> where the code can reach one.  Long error texts are shortened.  Clocks, random values, digests, TOML, JSON, the
  language model, file systems and SSH channels are arguments; what the code relies on is a named
  hypothesis or a locale, and each has an instance.  A loop that waits on several futures is a function
  of a schedule, and the theorems hold for every schedule.

  \<^bold>\<open>Foundations.\<close>
  \<^item> \<^verbatim>\<open>Rust_Prelude\<close>: the shared part of the standard library.
  \<^item> \<^verbatim>\<open>Shared_Types\<close> (\<^verbatim>\<open>types.rs\<close>, \<^verbatim>\<open>exit_codes.rs\<close>, \<^verbatim>\<open>config/duration.rs\<close>): flags, addresses, durations with 64-bit
    wrap-around, exit codes.
  \<^item> \<^verbatim>\<open>File_Path\<close> (\<^verbatim>\<open>filepath.rs\<close>, \<^verbatim>\<open>copy_frames.rs\<close>): the wire form round trips, validated relative paths stay below
    their root, and a join without validation does not (C34).
  \<^item> \<^verbatim>\<open>Shell_Command\<close> (\<^verbatim>\<open>daemon/shell.rs\<close>): a POSIX reader of words gets back exactly the arguments (C25).
  \<^item> \<^verbatim>\<open>Base64_Codec\<close> (\<^verbatim>\<open>daemon/session/b64.rs\<close>) and \<^verbatim>\<open>Sentinel_Scanner\<close> (\<^verbatim>\<open>daemon/jumpserver_engine.rs\<close>): both are
    exact under every cutting of the stream into chunks (C27, C28, C35).
  \<^item> \<^verbatim>\<open>Wire_Protocol\<close> (\<^verbatim>\<open>protocol.rs\<close>): copy requests and frames survive the wire.

  \<^bold>\<open>Configuration and resolution.\<close>
  \<^item> \<^verbatim>\<open>Gateway_Config\<close> (\<^verbatim>\<open>config/gateway.rs\<close>, \<^verbatim>\<open>config/ssh.rs\<close>) and \<^verbatim>\<open>Inventory\<close> (\<^verbatim>\<open>config/inventory.rs\<close>): which
    configurations are accepted, and that an accepted inventory can be listed.
  \<^item> \<^verbatim>\<open>App_Config\<close> (\<^verbatim>\<open>config.rs\<close> and \<^verbatim>\<open>config/\<close>): the configuration of the daemon with its defaults, path expansion and validation;
    what holds of every configuration that loads (C24); of the address of the local TCP listener little is checked.
  \<^item> \<^verbatim>\<open>Config_Admin\<close> (\<^verbatim>\<open>update_config\<close> and \<^verbatim>\<open>reload_config\<close> of \<^verbatim>\<open>daemon/mod.rs\<close>, \<^verbatim>\<open>build_gateways\<close>, \<^verbatim>\<open>cli/host.rs\<close>): a server that is added is
    built at the next start, updates are all or nothing, and two ways to lose a configuration (C22, C23, C38, C39).
  \<^item> \<^verbatim>\<open>Target_Resolver\<close> (\<^verbatim>\<open>daemon/resolver.rs\<close>, \<^verbatim>\<open>daemon/rpc.rs\<close>): routes name gateways that exist, if no name
    of a gateway or node holds a colon (C31).
  \<^item> \<^verbatim>\<open>Token_Store\<close> (\<^verbatim>\<open>daemon/token_store.rs\<close>): a one-time token is accepted at most once (C15).

  \<^bold>\<open>Secrets and access.\<close>
  \<^item> \<^verbatim>\<open>Secret_Vault\<close> (\<^verbatim>\<open>secret/vault.rs\<close>, \<^verbatim>\<open>config/secret.rs\<close>): references to secrets and the vault, over a disk on which any call may
    fail before or in the middle of its work.
  \<^item> \<^verbatim>\<open>Secret_Migration\<close> (\<^verbatim>\<open>cli/secret.rs\<close>): moving the plaintext secrets that the command looks for into the vault loses none, and a change of the key is
    atomic, wherever the file system fails (C7, C21); the bootstrap token and inline tables are not looked at.
  \<^item> \<^verbatim>\<open>Remote_Access\<close> (\<^verbatim>\<open>daemon/ssh_server.rs\<close>, \<^verbatim>\<open>daemon/authorized_keys.rs\<close>, \<^verbatim>\<open>cli/bootstrap.rs\<close> and the token calls): nobody is let in without a
    key or token, and a bootstrap grants access (C13, C16).
  \<^item> \<^verbatim>\<open>Gateway_Auth\<close> (\<^verbatim>\<open>daemon/gateway/auth.rs\<close>): targets, known hosts, the ways to authenticate and one-time passwords (C32).
  \<^item> \<^verbatim>\<open>Reverse_Proxy\<close> (\<^verbatim>\<open>daemon/reverse_proxy.rs\<close>, \<^verbatim>\<open>reverse_client.rs\<close>): the registry of nodes under connections that interleave at their accesses
    to it, as an inductive step relation with an invariant; its nodes satisfy the contract of the resolver (C12, C30).

  \<^bold>\<open>Admission.\<close>
  \<^item> \<^verbatim>\<open>Review\<close> (\<^verbatim>\<open>oversight/review.rs\<close>) and \<^verbatim>\<open>Audit_Log\<close> (\<^verbatim>\<open>oversight/audit.rs\<close>): lists, prompts, decisions and events (C33).
  \<^item> \<^verbatim>\<open>Execution\<close> (\<^verbatim>\<open>execute\<close> of \<^verbatim>\<open>daemon/mod.rs\<close>, \<^verbatim>\<open>daemon/session/mod.rs\<close>): no session without admission and none but the one
    that was reviewed, one terminal response, output and input in order (C3, C11, C29).
  \<^item> \<^verbatim>\<open>Exec_Client\<close> (\<^verbatim>\<open>cli/exec.rs\<close>, \<^verbatim>\<open>cli/prompt.rs\<close> and the exec branch of \<^verbatim>\<open>cli/mod.rs\<close>): the client of an execution; a command end
    to end, through client, daemon and session (C2).
  \<^item> \<^verbatim>\<open>Copy_Service\<close> (\<^verbatim>\<open>copy\<close> of \<^verbatim>\<open>daemon/mod.rs\<close>): no transfer without admission (C4).

  \<^bold>\<open>Copies.\<close>
  \<^item> \<^verbatim>\<open>Sftp_Copy\<close> (\<^verbatim>\<open>daemon/session/sftp_copy.rs\<close>) over a store of files: no partial file at the destination, if a partial
    file that is continued holds what the client left out and the server reports its length (C6).
  \<^item> \<^verbatim>\<open>Copy_Client\<close> (\<^verbatim>\<open>cli/copy.rs\<close>): trees; resumed uploads and downloads are exact if the partial files hold beginnings, do not change
    meanwhile and the user does not decline (C5, C17, C26); the counterexamples without these conditions are lemmas.
  \<^item> This theory: client, wire, daemon and gateway of a resumable download together (C1).

  \<^bold>\<open>Connections.\<close>
  \<^item> \<^verbatim>\<open>Connection_Pool\<close> (\<^verbatim>\<open>daemon/connection_manager.rs\<close>): tasks that interleave at their await points; the permits of a
    pool are conserved, and a wake-up that is lost (C14, C37).
  \<^item> \<^verbatim>\<open>Session_Cache\<close> (\<^verbatim>\<open>SessionCache\<close> of \<^verbatim>\<open>daemon/gateway/jumpserver.rs\<close>): refines a list of shells; an insertion
    returns unless the size is zero (C8, C36).

  \<^bold>\<open>Jump servers.\<close>
  \<^item> \<^verbatim>\<open>Pty_Shell\<close> (\<^verbatim>\<open>PtyShell\<close> of \<^verbatim>\<open>daemon/jumpserver_engine.rs\<close>): prompts, escape sequences, and commands in cooked and raw
    mode, as a binary upload, with input, and passed through.  A shell holds its pending bytes, what it
    wrote, and what its channel will deliver; the end of that list is a timeout.  Reads are exact if nothing of an earlier
    command is left over (C9).
  \<^item> \<^verbatim>\<open>Jumpserver_Menu\<close> (\<^verbatim>\<open>navigate_to_asset\<close> and the table parsers): rows chosen from whole lines are right, and a
    row cut by a chunk may select another host.
  \<^item> \<^verbatim>\<open>Remote_Shell\<close>: a reference for the other side of the terminal, no code of the repository: a POSIX reader of pipelines with redirections and
    how they run on files.  The programs are an argument; \<^verbatim>\<open>utility_laws\<close> states what their manuals say.
  \<^item> \<^verbatim>\<open>Shell_Copy\<close> (\<^verbatim>\<open>daemon/session/shell_copy.rs\<close>): copies through a terminal are exact in both directions
    when the size announced is the size sent, with the commands that are written run by \<^verbatim>\<open>Remote_Shell\<close>; and what happens when the size is another, or when a download is retried
    (C10, C19, C40).
  \<^item> \<^verbatim>\<open>Jumpserver_Gateway\<close> (\<^verbatim>\<open>daemon/gateway/jumpserver.rs\<close>, \<^verbatim>\<open>daemon/session/jumpserver.rs\<close>): where an acquired shell comes from,
    interactive commands, and output that is taken for a prompt (C18, C20).

  \<^bold>\<open>Interfaces.\<close>  Each locale has an interpretation on the model: \<^verbatim>\<open>word_writer\<close> (quoting), \<^verbatim>\<open>base64_engine\<close> (RFC 4648),
  \<^verbatim>\<open>key_value_store\<close> (association lists), \<^verbatim>\<open>counting_semaphore\<close> (permits), \<^verbatim>\<open>glob_matcher\<close> (both matchers) and
  \<^verbatim>\<open>timed_simulation\<close> (the cache and its specification).

  \<^bold>\<open>Bounds.\<close>  No loop has fuel.  Loops over a stream, a listing or a schedule recurse over it; the eviction loop
  of the cache is a partial function, and C36 says when it returns.  Retries are bounded by two attempts,
  as in the code.  C19 takes files below \<^verbatim>\<open>2 ^ 62\<close> bytes, where the length of the wire does not wrap.

  \<^bold>\<open>Not modelled.\<close>  Local processes and pseudo-terminals (\<^verbatim>\<open>daemon/session/local.rs\<close>); the adapters around channels of the SSH library
  and the gateways that open them (\<^verbatim>\<open>daemon/session/direct.rs\<close>, \<^verbatim>\<open>tunnel.rs\<close>, \<^verbatim>\<open>daemon/gateway/direct.rs\<close>, \<^verbatim>\<open>xhod.rs\<close>,
  \<^verbatim>\<open>localhost.rs\<close>); the proxy server (\<^verbatim>\<open>daemon/proxy_server.rs\<close>); start-up, listeners, signals and the status request of
  \<^verbatim>\<open>daemon/mod.rs\<close>; the client's own configuration file; and the command line outside \<^verbatim>\<open>cli/exec.rs\<close>, \<^verbatim>\<open>copy.rs\<close>, \<^verbatim>\<open>host.rs\<close>,
  \<^verbatim>\<open>secret.rs\<close> and \<^verbatim>\<open>bootstrap.rs\<close>.  Of modelled files, left out are progress output, file modes and times on the client, window sizes, byte
  streams of the servers, the text of times, the clean-up of shells that are discarded, plain shells and the SFTP subsystem
  of a jump server session, and its pool status.  Most of this is calls to libraries and the operating system.
\<close>

section \<open>Properties across components\<close>

text \<open>C1. A download of one file over SFTP with \<^verbatim>\<open>--resume\<close>, end to end.  The client sends the daemon its request with the offset of an earlier attempt, the daemon resolves,
  reviews and relays what the gateway serves, and the client writes the partial file: whatever the schedule of the daemon's
  tasks, the verdict of the review, timeouts and failures of the local file system, if the command reports success then the
  destination holds exactly the remote file.  This holds if the partial file of the earlier attempt held a beginning of the remote file or was absent, and the user does not
  decline a confirmation: a declined download reports success and publishes the partial file (\<^verbatim>\<open>declined_download_publishes_partial\<close>).\<close>

theorem download_end_to_end:
  assumes "local_laws view env plan" "part_ok view plan content s"
    and "cs_direction (pl_spec plan) = Download" "\<not> cs_recursive (pl_spec plan)"
    and "prepare_download env plan s = (hints, ctx)"
    and "serves_file denv ns (FileEntry mode mtime content)"
    and "w_takes w = None" "w_sent w = []"
    and "w_inbound w = Message (Some (copy_spec_to_rpc (pl_target plan) (pl_spec plan) t hints)) # ms"
    and "copy_rpc denv caller sched w = Some w'"
    and "\<forall>reason. ce_confirm env reason \<noteq> Inr False"
    and "run_copy env plan True t found (map (CliResponse \<circ> Some) (w_sent w')) s = (None, c', s')"
  shows "view s' (dest_of plan) = Some content"
proof -
  let ?spec = "(pl_spec plan)\<lparr>cs_resume := hints\<rparr>"
  obtain start where st: "copy_spec_to_rpc (pl_target plan) (pl_spec plan) t hints = CopyStart start"
    "copy_spec_from_rpc start = Inr (pl_target plan, ?spec, t)"
    using assms(3) by (auto simp: copy_spec_to_rpc_def copy_spec_from_rpc_def resume_entry_roundtrip comp_def)
  obtain fs err where d: "download ns ?spec (Some (FileEntry mode mtime content)) = (fs, err)" by (meson surj_pair)
  note one = download_one_end[OF d]
  have dir: "cs_direction ?spec = Download" using assms(3) by simp
  have sv: "en_copy denv g x ?spec [] = (fs, None)" for g x
    using assms(6) dir d one by (simp add: serves_file_def)
  from copy_rpc_download[OF assms(7,8) assms(9)[unfolded st(1)] st(2) dir sv conjunct2[OF one] assms(10)]
  obtain pre sent p rest where r: "list_all introduces pre" "w_sent w' = pre @ map copy_frame_response sent @ p # rest"
      "p = CopyComplete [] \<and> sent = fs \<or> (\<exists>m. p = CopyErrorMsg m)" by blast
  have a: "list_all (answered env) pre" by (rule answered_introduces[OF r(1) assms(11)])
  have eq: "map (CliResponse \<circ> Some) (w_sent w') = map (CliResponse \<circ> Some) pre @ map frame_answer sent
      @ CliResponse (Some p) # map (CliResponse \<circ> Some) rest"
    using r(2) by (simp add: frame_answer_def comp_def)
  from r(3) show ?thesis
  proof
    assume "p = CopyComplete [] \<and> sent = fs"
    with resumed_download[OF assms(1-5) _ a, of ns mode mtime fs t found "[]" "map (CliResponse \<circ> Some) rest" c' s']
      d one assms(12) show ?thesis unfolding eq by (simp add: copy_complete_response_def)
  next
    assume "\<exists>m. p = CopyErrorMsg m"
    then obtain m where p: "p = CopyErrorMsg m" by blast
    show ?thesis by (rule notE[OF run_copy_fails[OF assms(3,4) a] assms(12)[unfolded eq p]])
  qed
qed

theorem download_end_to_end_witness:
  "\<exists>w' c' s'. copy_rpc demo_copy_env caller_local demo_schedule (demo_copy_world demo_download) = Some w'
    \<and> run_copy ex_env ex_plan True 0 None (map (CliResponse \<circ> Some) (w_sent w')) ex_files = (None, c', s')
    \<and> s' (dest_of ex_plan) = Some ''abcd''"
proof -
  obtain w' where w: "copy_rpc demo_copy_env caller_local demo_schedule (demo_copy_world demo_download) = Some w'"
    "w_sent w' = map copy_frame_response ex_frames @ [CopyComplete []]" using demo_copy_rpc by blast
  let ?r = "run_copy ex_env ex_plan True 0 None (map (CliResponse \<circ> Some) (w_sent w')) ex_files"
  have "fst (run_copy ex_env ex_plan True 0 None (map (CliResponse \<circ> Some) (map copy_frame_response ex_frames @ [CopyComplete []])) ex_files) = None"
    by code_simp
  then have r: "?r = (None, fst (snd ?r), snd (snd ?r))" unfolding w(2) by (metis prod.collapse)
  have "snd (snd ?r) (dest_of ex_plan) = Some ''abcd''"
    by (rule download_end_to_end[OF ex_local_laws ex_part_ok _ _ ex_prepared demo_copy_served[unfolded demo_served_def] _ _ _ w(1) _ r])
      (simp_all add: ex_plan_def ex_env_def demo_copy_world_def)
  with w(1) r show ?thesis by blast
qed

end
